(* ===== verification/Prelude.thy ===== *)
theory Prelude
  imports Main "HOL-Library.Word"
begin

text \<open>
  What the components share: the faults a C operation can end in, the result type
  with its sequencing operator, pointers, and lemmas on byte arrays that are
  written in place.  Nothing in this theory models a line of the programs; it is
  the vocabulary the component theories use.
\<close>

section \<open>Results of C operations\<close>

text \<open>
  An operation either ends in a fault or returns a value.  The faults are the ways
  the sources stop being ordinary C: a null or dangling pointer that is followed, an
  index outside its array, an assertion that fails, a call of \<open>exit\<close>, a lock that
  the calling thread already holds, a value that was never written, a loop that never
  ends.
\<close>

datatype fault =
    Null_Deref
  | Bad_Pointer
  | Out_Of_Bounds
  | Assert_Failed
  | Exited int
  | Self_Deadlock
  | Uninitialised
  | Diverges

type_synonym 'a result = "fault + 'a"

text \<open>A pointer is \<open>None\<close> for \<open>NULL\<close> and \<open>Some a\<close> for address \<open>a\<close>.\<close>

type_synonym ptr = "nat option"

type_synonym byte = "8 word"

primrec rbind :: "fault + 'a \<Rightarrow> ('a \<Rightarrow> fault + 'b) \<Rightarrow> fault + 'b" where
  "rbind (Inl e) f = Inl e"
| "rbind (Inr x) f = f x"

definition check :: "bool \<Rightarrow> fault \<Rightarrow> fault + unit" where
  "check b e = (if b then Inr () else Inl e)"

definition the_ptr :: "ptr \<Rightarrow> fault + nat" where
  "the_ptr p = (case p of None \<Rightarrow> Inl Null_Deref | Some a \<Rightarrow> Inr a)"

text \<open>
  A loop without a termination argument is a \<^theory_text>\<open>partial_function\<close>, whose value \<open>None\<close>
  is the run that does not return; \<open>returns\<close> makes that a fault of its caller.
\<close>

definition returns :: "(fault + 'a) option \<Rightarrow> fault + 'a" where
  "returns r = (case r of None \<Rightarrow> Inl Diverges | Some x \<Rightarrow> x)"

lemma returns_simps [simp]:
  "returns None = Inl Diverges"
  "returns (Some x) = x"
  by (simp_all add: returns_def)

lemma check_simps [simp]:
  "b \<Longrightarrow> check b e = Inr ()"
  "\<not> b \<Longrightarrow> check b e = Inl e"
  by (simp_all add: check_def)

lemma check_eq_Inr [simp]: "check b e = Inr u \<longleftrightarrow> b"
  by (simp add: check_def)

lemma the_ptr_simps [simp]:
  "the_ptr None = Inl Null_Deref"
  "the_ptr (Some a) = Inr a"
  by (simp_all add: the_ptr_def)

lemma rbind_eq_Inr:
  "rbind m f = Inr y \<longleftrightarrow> (\<exists>x. m = Inr x \<and> f x = Inr y)"
  by (cases m) auto

lemma rbind_eq_Inl:
  "rbind m f = Inl e \<longleftrightarrow> m = Inl e \<or> (\<exists>x. m = Inr x \<and> f x = Inl e)"
  by (cases m) auto

lemma rbind_assoc: "rbind (rbind m f) g = rbind m (\<lambda>x. rbind (f x) g)"
  by (cases m) auto

section \<open>Arrays written in place\<close>

text \<open>
  \<open>chunk off n xs\<close> is what a read of \<open>n\<close> elements at \<open>off\<close> gets, and
  \<open>overwrite xs off ys\<close> is \<open>xs\<close> after \<open>ys\<close> has been copied over it at \<open>off\<close>.
\<close>

definition chunk :: "nat \<Rightarrow> nat \<Rightarrow> 'a list \<Rightarrow> 'a list" where
  "chunk off n xs = take n (drop off xs)"

definition overwrite :: "'a list \<Rightarrow> nat \<Rightarrow> 'a list \<Rightarrow> 'a list" where
  "overwrite xs off ys = take off xs @ ys @ drop (off + length ys) xs"

lemma length_chunk [simp]: "off + n \<le> length xs \<Longrightarrow> length (chunk off n xs) = n"
  by (simp add: chunk_def)

lemma length_overwrite [simp]:
  "off + length ys \<le> length xs \<Longrightarrow> length (overwrite xs off ys) = length xs"
  by (simp add: overwrite_def)

lemma nth_chunk: "off + n \<le> length xs \<Longrightarrow> i < n \<Longrightarrow> chunk off n xs ! i = xs ! (off + i)"
  by (simp add: chunk_def)

lemma nth_overwrite:
  assumes "off + length ys \<le> length xs" "i < length xs"
  shows "overwrite xs off ys ! i =
    (if off \<le> i \<and> i < off + length ys then ys ! (i - off) else xs ! i)"
  using assms by (auto simp: overwrite_def nth_append min_def)

lemma chunk_overwrite_same [simp]:
  "off + length ys \<le> length xs \<Longrightarrow> n = length ys \<Longrightarrow> chunk off n (overwrite xs off ys) = ys"
  by (simp add: chunk_def overwrite_def)

lemma chunk_overwrite_other:
  assumes "off + length ys \<le> length xs" "o2 + n \<le> length xs"
    and "o2 + n \<le> off \<or> off + length ys \<le> o2"
  shows "chunk o2 n (overwrite xs off ys) = chunk o2 n xs"
proof (rule nth_equalityI)
  show "length (chunk o2 n (overwrite xs off ys)) = length (chunk o2 n xs)"
    using assms by simp
next
  fix i assume "i < length (chunk o2 n (overwrite xs off ys))"
  with assms have i: "i < n" by simp
  with assms show "chunk o2 n (overwrite xs off ys) ! i = chunk o2 n xs ! i"
    by (auto simp: nth_chunk nth_overwrite)
qed

text \<open>Two different pages of an array never overlap.\<close>

lemma pages_disjoint:
  assumes "(i::nat) \<noteq> j"
  shows "i * p + p \<le> j * p \<or> j * p + p \<le> i * p"
proof (cases "i < j")
  case True
  then have "Suc i * p \<le> j * p" by (intro mult_le_mono1) simp
  then show ?thesis by simp
next
  case False
  with assms have "Suc j * p \<le> i * p" by (intro mult_le_mono1) simp
  then show ?thesis by simp
qed

lemma page_fits: "i < n \<Longrightarrow> n * p \<le> len \<Longrightarrow> i * p + p \<le> (len::nat)"
proof -
  assume "i < n" "n * p \<le> len"
  then have "Suc i * p \<le> n * p" by (intro mult_le_mono1) simp
  with \<open>n * p \<le> len\<close> show ?thesis by simp
qed

text \<open>The least index of a list that satisfies a test, as the search loops compute it.\<close>

fun find_index :: "('a \<Rightarrow> bool) \<Rightarrow> 'a list \<Rightarrow> nat option" where
  "find_index P [] = None"
| "find_index P (x # xs) = (if P x then Some 0 else map_option Suc (find_index P xs))"

lemma find_index_None [simp]: "find_index P xs = None \<longleftrightarrow> (\<forall>x \<in> set xs. \<not> P x)"
  by (induction xs) auto

lemma find_index_Some:
  "find_index P xs = Some i \<longleftrightarrow> i < length xs \<and> P (xs ! i) \<and> (\<forall>j < i. \<not> P (xs ! j))"
proof (induction xs arbitrary: i)
  case Nil
  then show ?case by simp
next
  case (Cons x xs)
  show ?case
  proof (cases i)
    case 0
    then show ?thesis by auto
  next
    case (Suc k)
    have "(\<forall>j<Suc k. \<not> P ((x # xs) ! j)) \<longleftrightarrow> \<not> P x \<and> (\<forall>j<k. \<not> P (xs ! j))"
      by (auto simp: All_less_Suc2)
    with Suc Cons show ?thesis by auto
  qed
qed

lemma find_index_cong:
  "(\<And>x. x \<in> set xs \<Longrightarrow> P x = Q x) \<Longrightarrow> find_index P xs = find_index Q xs"
  by (induction xs) simp_all

lemma find_index_map: "find_index P (map f xs) = find_index (\<lambda>x. P (f x)) xs"
  by (induction xs) auto

lemma update_pred: "P y \<Longrightarrow> P (xs ! j) \<Longrightarrow> P (xs[i := y] ! j)"
  by (cases "i = j"; cases "i < length xs") (simp_all add: list_update_beyond)

end
