(* ===== verification/DList.thy ===== *)
theory DList
  imports Prelude
begin

text \<open>
  The doubly linked list of \<open>TP 1/dlist.c\<close>, with its nodes in an explicit heap:
  \<open>dl_nodes\<close> maps the address of every node the list has allocated and not freed
  to the node.  \<open>malloc\<close> is outside the program: where the code calls it, the
  model takes the answer as an argument, \<open>None\<close> when it fails and \<open>Some a\<close> for the
  address of the new block.  Following a pointer that is null or not allocated is
  a fault, so the theorems that an operation returns show memory safety too.
  The lemmas about these operations are in theory \<open>DList_Correct\<close>.
\<close>

section \<open>Data and operations\<close>

record dnode =
  dn_prev :: ptr
  dn_next :: ptr
  dn_data :: ptr

record dlist =
  dl_nodes :: "nat \<rightharpoonup> dnode"
  dl_head :: ptr
  dl_tail :: ptr
  dl_count :: int

definition load_node :: "dlist \<Rightarrow> ptr \<Rightarrow> dnode result" where
  "load_node dl p = rbind (the_ptr p) (\<lambda>a.
     case dl_nodes dl a of None \<Rightarrow> Inl Bad_Pointer | Some n \<Rightarrow> Inr n)"

definition store_node :: "ptr \<Rightarrow> (dnode \<Rightarrow> dnode) \<Rightarrow> dlist \<Rightarrow> dlist result" where
  "store_node p f dl = rbind (the_ptr p) (\<lambda>a.
     case dl_nodes dl a of None \<Rightarrow> Inl Bad_Pointer
     | Some n \<Rightarrow> Inr (dl\<lparr>dl_nodes := (dl_nodes dl)(a \<mapsto> f n)\<rparr>))"

definition free_node :: "ptr \<Rightarrow> dlist \<Rightarrow> dlist result" where
  "free_node p dl = rbind (the_ptr p) (\<lambda>a.
     case dl_nodes dl a of None \<Rightarrow> Inl Bad_Pointer
     | Some n \<Rightarrow> Inr (dl\<lparr>dl_nodes := (dl_nodes dl)(a := None)\<rparr>))"

text \<open>\<open>got_memory\<close> says whether the \<open>malloc\<close> of the list header succeeded.\<close>

definition dlist_create :: "bool \<Rightarrow> dlist result" where
  "dlist_create got_memory =
     rbind (check got_memory Assert_Failed) (\<lambda>_.
       Inr \<lparr>dl_nodes = Map.empty, dl_head = None, dl_tail = None, dl_count = 0\<rparr>)"

definition dlist_empty :: "dlist \<Rightarrow> bool result" where
  "dlist_empty dl =
     (if dl_head dl = None
      then rbind (check (dl_tail dl = None) Assert_Failed) (\<lambda>_.
           rbind (check (dl_count dl = 0) Assert_Failed) (\<lambda>_. Inr True))
      else rbind (check (dl_tail dl \<noteq> None) Assert_Failed) (\<lambda>_.
           rbind (check (dl_count dl > 0) Assert_Failed) (\<lambda>_. Inr False)))"

definition dlist_pop_left :: "dlist \<Rightarrow> (ptr \<times> dlist) result" where
  "dlist_pop_left dl = rbind (dlist_empty dl) (\<lambda>e. if e then Inr (None, dl) else
     (let node = dl_head dl in
      rbind (load_node dl node) (\<lambda>n.
      let dl1 = dl\<lparr>dl_head := dn_next n\<rparr>;
          dl2 = (if dl_head dl1 = None then dl1\<lparr>dl_tail := None\<rparr> else dl1) in
      rbind (if dn_next n \<noteq> None
             then store_node (dn_next n) (\<lambda>m. m\<lparr>dn_prev := None\<rparr>) dl2 else Inr dl2) (\<lambda>dl3.
      rbind (load_node dl3 node) (\<lambda>n3.
      rbind (free_node node dl3) (\<lambda>dl4.
      let dl5 = dl4\<lparr>dl_count := dl_count dl4 - 1\<rparr> in
      rbind (check (dl_count dl5 \<ge> 0) Assert_Failed) (\<lambda>_. Inr (dn_data n3, dl5))))))))"

definition dlist_pop_right :: "dlist \<Rightarrow> (ptr \<times> dlist) result" where
  "dlist_pop_right dl = rbind (dlist_empty dl) (\<lambda>e. if e then Inr (None, dl) else
     (let node = dl_tail dl in
      rbind (load_node dl node) (\<lambda>n.
      let dl1 = dl\<lparr>dl_tail := dn_prev n\<rparr>;
          dl2 = (if dl_tail dl1 = None then dl1\<lparr>dl_head := None\<rparr> else dl1) in
      rbind (if dn_prev n \<noteq> None
             then store_node (dn_prev n) (\<lambda>m. m\<lparr>dn_next := None\<rparr>) dl2 else Inr dl2) (\<lambda>dl3.
      rbind (load_node dl3 node) (\<lambda>n3.
      rbind (free_node node dl3) (\<lambda>dl4.
      let dl5 = dl4\<lparr>dl_count := dl_count dl4 - 1\<rparr> in
      rbind (check (dl_count dl5 \<ge> 0) Assert_Failed) (\<lambda>_. Inr (dn_data n3, dl5))))))))"

text \<open>\<open>node\<close> is the answer of \<open>malloc\<close>; the \<open>assert\<close> rejects a failed allocation.\<close>

definition dlist_push_right :: "ptr \<Rightarrow> dlist \<Rightarrow> ptr \<Rightarrow> (ptr \<times> dlist) result" where
  "dlist_push_right node dl data =
     (case node of None \<Rightarrow> Inl Assert_Failed | Some a \<Rightarrow>
      (let dl1 = dl\<lparr>dl_nodes := (dl_nodes dl)
                     (a \<mapsto> \<lparr>dn_prev = dl_tail dl, dn_next = None, dn_data = data\<rparr>)\<rparr> in
       rbind (if dl_tail dl1 \<noteq> None
              then store_node (dl_tail dl1) (\<lambda>m. m\<lparr>dn_next := node\<rparr>) dl1 else Inr dl1) (\<lambda>dl2.
       let dl3 = dl2\<lparr>dl_tail := node\<rparr>;
           dl4 = (if dl_head dl3 = None then dl3\<lparr>dl_head := node\<rparr> else dl3) in
       Inr (data, dl4\<lparr>dl_count := dl_count dl4 + 1\<rparr>))))"

text \<open>The body of the \<open>for\<close> loop of \<open>dlist_find_remove\<close> once the match is found.\<close>

definition unlink_node :: "dlist \<Rightarrow> nat \<Rightarrow> (ptr \<times> dlist) result" where
  "unlink_node dl c = rbind (load_node dl (Some c)) (\<lambda>n.
     let dl1 = (if dl_head dl = Some c then dl\<lparr>dl_head := dn_next n\<rparr> else dl);
         dl2 = (if dl_tail dl1 = Some c then dl1\<lparr>dl_tail := dn_prev n\<rparr> else dl1) in
     rbind (if dn_prev n \<noteq> None
            then store_node (dn_prev n) (\<lambda>m. m\<lparr>dn_next := dn_next n\<rparr>) dl2 else Inr dl2) (\<lambda>dl3.
     rbind (load_node dl3 (Some c)) (\<lambda>n3.
     rbind (if dn_next n3 \<noteq> None
            then store_node (dn_next n3) (\<lambda>m. m\<lparr>dn_prev := dn_prev n3\<rparr>) dl3 else Inr dl3) (\<lambda>dl4.
     rbind (free_node (Some c) (dl4\<lparr>dl_count := dl_count dl4 - 1\<rparr>)) (\<lambda>dl5.
     Inr (dn_data n, dl5))))))"

text \<open>
  The loop follows \<open>next\<close> pointers and on a cyclic list would not end, so it is
  a partial function: \<open>None\<close> is the run that never returns.
\<close>

partial_function (option) find_remove_loop ::
  "dlist \<Rightarrow> ptr \<Rightarrow> (ptr \<Rightarrow> ptr \<Rightarrow> ptr \<Rightarrow> int) \<Rightarrow> ptr \<Rightarrow> ptr \<Rightarrow> (ptr \<times> dlist) result option" where
  "find_remove_loop dl data cmp user_data cur =
     (case cur of None \<Rightarrow> Some (Inr (None, dl))
      | Some c \<Rightarrow>
        (case dl_nodes dl c of None \<Rightarrow> Some (Inl Bad_Pointer)
         | Some n \<Rightarrow>
           if dn_data n = None then find_remove_loop dl data cmp user_data (dn_next n)
           else if cmp (dn_data n) data user_data \<noteq> 0
                then find_remove_loop dl data cmp user_data (dn_next n)
           else Some (unlink_node dl c)))"

definition dlist_find_remove ::
  "dlist \<Rightarrow> ptr \<Rightarrow> (ptr \<Rightarrow> ptr \<Rightarrow> ptr \<Rightarrow> int) \<Rightarrow> ptr \<Rightarrow> (ptr \<times> dlist) result" where
  "dlist_find_remove dl data cmp user_data =
     returns (find_remove_loop dl data cmp user_data (dl_head dl))"

text \<open>The two \<open>while\<close> loops of \<open>dlist_get_index\<close> and \<open>dlist_set_index\<close>.\<close>

fun walk :: "(dnode \<Rightarrow> ptr) \<Rightarrow> dlist \<Rightarrow> ptr \<Rightarrow> nat \<Rightarrow> ptr result" where
  "walk step dl cur 0 = Inr cur"
| "walk step dl None (Suc k) = Inr None"
| "walk step dl (Some c) (Suc k) =
     (case dl_nodes dl c of None \<Rightarrow> Inl Bad_Pointer | Some n \<Rightarrow> walk step dl (step n) k)"

definition seek :: "dlist \<Rightarrow> int \<Rightarrow> ptr result" where
  "seek dl idx =
     (if idx \<ge> 0 then walk dn_next dl (dl_head dl) (nat idx)
      else walk dn_prev dl (dl_tail dl) (nat (- idx - 1)))"

definition dlist_get_index :: "dlist \<Rightarrow> int \<Rightarrow> ptr result" where
  "dlist_get_index dl idx = rbind (seek dl idx) (\<lambda>cur.
     if cur = None then Inr None else rbind (load_node dl cur) (\<lambda>n. Inr (dn_data n)))"

definition dlist_set_index :: "dlist \<Rightarrow> int \<Rightarrow> ptr \<Rightarrow> dlist result" where
  "dlist_set_index dl idx data = rbind (seek dl idx) (\<lambda>cur.
     if cur = None then Inr dl else store_node cur (\<lambda>m. m\<lparr>dn_data := data\<rparr>) dl)"

text \<open>
  \<open>dlist_destroy\<close> pops until the list is empty and hands each datum to the callback;
  the model returns the data in the order of the calls (none when \<open>cb\<close> is null) and
  the nodes that are still allocated when the header is freed.
\<close>

partial_function (option) destroy_loop ::
  "dlist \<Rightarrow> bool \<Rightarrow> ptr list \<Rightarrow> (ptr list \<times> dlist) result option" where
  "destroy_loop dl cb calls =
     (case dlist_empty dl of Inl e \<Rightarrow> Some (Inl e)
      | Inr e \<Rightarrow>
        if e then Some (Inr (calls, dl))
        else (case dlist_pop_left dl of Inl f \<Rightarrow> Some (Inl f)
              | Inr (data, dl') \<Rightarrow> destroy_loop dl' cb (if cb then calls @ [data] else calls)))"

definition dlist_destroy :: "dlist \<Rightarrow> bool \<Rightarrow> (ptr list \<times> dlist) result" where
  "dlist_destroy dl cb = returns (destroy_loop dl cb [])"

text \<open>The unfolding equations make the loops executable.\<close>

lemmas dlist_loops_code [code] =
  find_remove_loop.simps destroy_loop.simps

end
