(* ===== verification/Sched.thy ===== *)
theory Sched
  imports DList
begin

text \<open>
  The thread library \<open>TP 1/dccthread.c\<close>.  A state holds the library's globals (the
  three lists, \<open>main_thread\<close>, the threads that were allocated), the process signal
  mask, the armed timers of sleeping threads, and who has the processor.  A saved
  \<open>ucontext_t\<close> is modelled by the place in the library where the thread will go on
  and the signal mask that was saved with it; registers and stacks are not modelled.
  \<open>malloc\<close> is an argument: for list nodes a function from the list that gets the node
  to the answer, for threads the answer itself.
\<close>

section \<open>Data\<close>

record sigmask =
  blk_min :: bool
  blk_max :: bool

datatype resume = Entry | After_Yield | After_Exit | After_Wait | After_Sleep nat

record ucontext =
  resume_at :: resume
  uc_sigmask :: sigmask

record dccthread =
  th_name :: string
  th_context :: ucontext
  waiting_for :: ptr
  has_waited :: int

record timespec =
  tv_sec :: int
  tv_nsec :: int

record sleep_timer =
  target :: ptr
  armed :: bool

text \<open>
  \<open>Manager\<close>: the loop of \<open>dccthread_init\<close> runs.  \<open>Resuming\<close>: the manager has switched
  to \<open>main_thread\<close>, which stands right after the \<open>swapcontext\<close> it left by.
  \<open>Running\<close>: \<open>main_thread\<close> is in the code of the client.
\<close>

datatype cpu = Manager | Resuming | Running

record sched =
  threads :: "nat \<rightharpoonup> dccthread"
  main_thread :: ptr
  waiting :: dlist
  ready :: dlist
  finished :: dlist
  sigs :: sigmask
  mgr_sigs :: sigmask
  timers :: "nat \<rightharpoonup> sleep_timer"
  preempting :: bool
  cpu :: cpu

type_synonym node_malloc = "dlist \<Rightarrow> ptr"

definition MAX_NAME_SIZE :: nat where
  "MAX_NAME_SIZE = 256"

definition NSEC_VALUE :: int where
  "NSEC_VALUE = 10000000"

section \<open>Helpers\<close>

definition load_thread :: "sched \<Rightarrow> ptr \<Rightarrow> dccthread result" where
  "load_thread s p = rbind (the_ptr p) (\<lambda>a.
     case threads s a of None \<Rightarrow> Inl Bad_Pointer | Some t \<Rightarrow> Inr t)"

definition store_thread :: "ptr \<Rightarrow> (dccthread \<Rightarrow> dccthread) \<Rightarrow> sched \<Rightarrow> sched result" where
  "store_thread p f s = rbind (the_ptr p) (\<lambda>a.
     case threads s a of None \<Rightarrow> Inl Bad_Pointer
     | Some t \<Rightarrow> Inr (s\<lparr>threads := (threads s)(a \<mapsto> f t)\<rparr>))"

text \<open>The two masks of \<open>mask_init\<close>: \<open>mask\<close> has both signals, \<open>mask_sleep\<close> only \<open>SIGRTMAX\<close>.\<close>

definition block_mask :: "sched \<Rightarrow> sched" where
  "block_mask s = s\<lparr>sigs := \<lparr>blk_min = True, blk_max = True\<rparr>\<rparr>"

definition unblock_mask :: "sched \<Rightarrow> sched" where
  "unblock_mask s = s\<lparr>sigs := \<lparr>blk_min = False, blk_max = False\<rparr>\<rparr>"

definition block_mask_sleep :: "sched \<Rightarrow> sched" where
  "block_mask_sleep s = s\<lparr>sigs := (sigs s)\<lparr>blk_max := True\<rparr>\<rparr>"

definition unblock_mask_sleep :: "sched \<Rightarrow> sched" where
  "unblock_mask_sleep s = s\<lparr>sigs := (sigs s)\<lparr>blk_max := False\<rparr>\<rparr>"

partial_function (option) nwaiting_loop :: "dlist \<Rightarrow> ptr \<Rightarrow> int \<Rightarrow> int result option" where
  "nwaiting_loop q cur sz =
     (case cur of None \<Rightarrow> Some (Inr sz)
      | Some c \<Rightarrow> (case dl_nodes q c of None \<Rightarrow> Some (Inl Bad_Pointer)
                  | Some n \<Rightarrow> nwaiting_loop q (dn_next n) (sz + 1)))"

definition dccthread_nwaiting :: "sched \<Rightarrow> int result" where
  "dccthread_nwaiting s = returns (nwaiting_loop (waiting s) (dl_head (waiting s)) 0)"

partial_function (option) nexited_loop :: "sched \<Rightarrow> ptr \<Rightarrow> int \<Rightarrow> int result option" where
  "nexited_loop s cur cnt =
     (case cur of None \<Rightarrow> Some (Inr cnt)
      | Some c \<Rightarrow> (case dl_nodes (finished s) c of None \<Rightarrow> Some (Inl Bad_Pointer)
                  | Some n \<Rightarrow> (case load_thread s (dn_data n) of Inl e \<Rightarrow> Some (Inl e)
                     | Inr t \<Rightarrow> nexited_loop s (dn_next n)
                                 (if has_waited t = 0 then cnt + 1 else cnt))))"

definition dccthread_nexited :: "sched \<Rightarrow> int result" where
  "dccthread_nexited s = returns (nexited_loop s (dl_head (finished s)) 0)"

partial_function (option) in_list_loop :: "dlist \<Rightarrow> ptr \<Rightarrow> ptr \<Rightarrow> bool result option" where
  "in_list_loop q thread cur =
     (case cur of None \<Rightarrow> Some (Inr False)
      | Some c \<Rightarrow> (case dl_nodes q c of None \<Rightarrow> Some (Inl Bad_Pointer)
                  | Some n \<Rightarrow> if dn_data n \<noteq> thread then in_list_loop q thread (dn_next n)
                              else Some (Inr True)))"

definition is_thread_in_list :: "dlist \<Rightarrow> ptr \<Rightarrow> bool result" where
  "is_thread_in_list q thread =
     (if dl_count q = 0 then Inr False else returns (in_list_loop q thread (dl_head q)))"

section \<open>Context switches\<close>

text \<open>\<open>swapcontext\<close> from the current thread to the manager, which saves mask and place.\<close>

definition swap_to_manager :: "ptr \<Rightarrow> resume \<Rightarrow> sched \<Rightarrow> sched result" where
  "swap_to_manager current r s =
     rbind (store_thread current
              (\<lambda>t. t\<lparr>th_context := \<lparr>resume_at = r, uc_sigmask = sigs s\<rparr>\<rparr>) s)
       (\<lambda>s'. Inr (s'\<lparr>sigs := mgr_sigs s', cpu := Manager\<rparr>))"

text \<open>\<open>swapcontext(&manager_thread->context, &main_thread->context)\<close>.\<close>

definition swap_to_thread :: "sched \<Rightarrow> sched result" where
  "swap_to_thread s =
     rbind (load_thread s (main_thread s)) (\<lambda>t.
       Inr (s\<lparr>mgr_sigs := sigs s, sigs := uc_sigmask (th_context t),
              cpu := (if resume_at (th_context t) = Entry then Running else Resuming)\<rparr>))"

section \<open>The library's operations\<close>

definition dccthread_self :: "sched \<Rightarrow> ptr" where
  "dccthread_self s = main_thread s"

definition dccthread_name :: "ptr \<Rightarrow> sched \<Rightarrow> string result" where
  "dccthread_name tid s = rbind (load_thread s tid) (\<lambda>t. Inr (th_name t))"

definition dccthread_create ::
  "node_malloc \<Rightarrow> ptr \<Rightarrow> string \<Rightarrow> sched \<Rightarrow> (ptr \<times> sched) result" where
  "dccthread_create malloc thread name s =
     (let s1 = block_mask s in
      rbind (the_ptr thread) (\<lambda>a.
      rbind (check (length name < MAX_NAME_SIZE) Out_Of_Bounds) (\<lambda>_.
      let t = \<lparr>th_name = name,
               th_context = \<lparr>resume_at = Entry,
                             uc_sigmask = \<lparr>blk_min = False, blk_max = False\<rparr>\<rparr>,
               waiting_for = None, has_waited = 0\<rparr>;
          s2 = s1\<lparr>threads := (threads s1)(a \<mapsto> t)\<rparr> in
      rbind (dlist_push_right (malloc (ready s2)) (ready s2) thread) (\<lambda>(_, q).
      Inr (thread, unblock_mask (s2\<lparr>ready := q\<rparr>))))))"

text \<open>Each operation that gives up the processor ends at its \<open>swapcontext\<close>.\<close>

definition dccthread_yield :: "node_malloc \<Rightarrow> sched \<Rightarrow> sched result" where
  "dccthread_yield malloc s =
     (let s1 = block_mask s; current = dccthread_self s1 in
      rbind (dlist_push_right (malloc (ready s1)) (ready s1) current) (\<lambda>(_, q).
      swap_to_manager current After_Yield (s1\<lparr>ready := q\<rparr>)))"

definition dccthread_preemption :: "node_malloc \<Rightarrow> sched \<Rightarrow> sched result" where
  "dccthread_preemption malloc s = dccthread_yield malloc s"

definition dccthread_exit :: "node_malloc \<Rightarrow> sched \<Rightarrow> sched result" where
  "dccthread_exit malloc s =
     (let s1 = block_mask s; current = dccthread_self s1 in
      rbind (dlist_push_right (malloc (finished s1)) (finished s1) current) (\<lambda>(_, q).
      swap_to_manager current After_Exit (s1\<lparr>finished := q\<rparr>)))"

definition dccthread_wait :: "node_malloc \<Rightarrow> ptr \<Rightarrow> sched \<Rightarrow> sched result" where
  "dccthread_wait malloc tid s =
     (let s1 = block_mask s; current = dccthread_self s1 in
      if tid = None then Inr s1 else
      rbind (store_thread tid (\<lambda>t. t\<lparr>has_waited := 1\<rparr>) s1) (\<lambda>s2.
      rbind (store_thread current (\<lambda>t. t\<lparr>waiting_for := tid\<rparr>) s2) (\<lambda>s3.
      rbind (dlist_push_right (malloc (ready s3)) (ready s3) current) (\<lambda>(_, q).
      swap_to_manager current After_Wait (s3\<lparr>ready := q\<rparr>)))))"

definition dccthread_compare :: "ptr \<Rightarrow> ptr \<Rightarrow> ptr \<Rightarrow> int" where
  "dccthread_compare e1 e2 userdata = (if e1 \<noteq> e2 then 1 else 0)"

text \<open>The handler of \<open>SIGRTMAX\<close>; \<open>sival\<close> is the thread the timer was created for.\<close>

definition dccthread_wakeup :: "node_malloc \<Rightarrow> ptr \<Rightarrow> sched \<Rightarrow> sched result" where
  "dccthread_wakeup malloc sival s =
     rbind (dlist_find_remove (waiting s) sival dccthread_compare None) (\<lambda>(_, w).
     rbind (dlist_push_right (malloc (ready s)) (ready s) sival) (\<lambda>(_, q).
     Inr (s\<lparr>waiting := w, ready := q\<rparr>)))"

text \<open>
  \<open>timer_settime\<close> arms a timer only for a non-zero \<open>it_value\<close>, and rejects nanoseconds
  outside \<open>[0, 10^9)\<close> and negative seconds.  Every timer repeats after \<open>NSEC_VALUE\<close>.
\<close>

definition timer_arms :: "timespec \<Rightarrow> bool" where
  "timer_arms ts \<longleftrightarrow> 0 \<le> tv_sec ts \<and> 0 \<le> tv_nsec ts \<and> tv_nsec ts < 1000000000 \<and>
     \<not> (tv_sec ts = 0 \<and> tv_nsec ts = 0)"

definition timer_sleep_init :: "nat \<Rightarrow> timespec \<Rightarrow> sched \<Rightarrow> sched" where
  "timer_sleep_init timer_id ts s =
     s\<lparr>timers := (timers s)(timer_id \<mapsto> \<lparr>target = main_thread s, armed = timer_arms ts\<rparr>)\<rparr>"

definition dccthread_sleep :: "node_malloc \<Rightarrow> nat \<Rightarrow> timespec \<Rightarrow> sched \<Rightarrow> sched result" where
  "dccthread_sleep malloc timer_id ts s =
     (let s1 = timer_sleep_init timer_id ts (block_mask s) in
      rbind (dlist_push_right (malloc (waiting s1)) (waiting s1) (main_thread s1)) (\<lambda>(_, q).
      swap_to_manager (main_thread s1) (After_Sleep timer_id) (s1\<lparr>waiting := q\<rparr>)))"

text \<open>
  A thread whose function returns continues in \<open>uc_link\<close>, the manager's context.
\<close>

definition thread_returns :: "sched \<Rightarrow> sched" where
  "thread_returns s = s\<lparr>sigs := mgr_sigs s, cpu := Manager\<rparr>"

text \<open>What stands after the \<open>swapcontext\<close> of each operation.\<close>

definition resume_thread :: "sched \<Rightarrow> sched result" where
  "resume_thread s =
     rbind (load_thread s (main_thread s)) (\<lambda>t.
     case resume_at (th_context t) of
       Entry \<Rightarrow> Inr (s\<lparr>cpu := Running\<rparr>)
     | After_Yield \<Rightarrow> Inr (unblock_mask (s\<lparr>cpu := Running\<rparr>))
     | After_Wait \<Rightarrow> Inr (unblock_mask (s\<lparr>cpu := Running\<rparr>))
     | After_Exit \<Rightarrow> Inr (s\<lparr>sigs := mgr_sigs s, cpu := Manager\<rparr>)
     | After_Sleep i \<Rightarrow> Inr (unblock_mask (s\<lparr>timers := (timers s)(i := None), cpu := Running\<rparr>)))"

section \<open>The manager\<close>

text \<open>The timers of \<open>fires\<close> go off, in order; one that is not armed sends no signal.\<close>

fun deliver :: "node_malloc \<Rightarrow> nat list \<Rightarrow> sched \<Rightarrow> sched result" where
  "deliver malloc [] s = Inr s"
| "deliver malloc (i # fires) s =
     (case timers s i of None \<Rightarrow> deliver malloc fires s
      | Some tm \<Rightarrow> if armed tm
          then rbind (dccthread_wakeup malloc (target tm) s) (deliver malloc fires)
          else deliver malloc fires s)"

datatype outcome = Stop | Again | Dispatch

text \<open>
  The \<open>while\<close> loop of \<open>dccthread_init\<close>: its condition, the part of its body that
  picks a thread, and one whole turn with the alarms of \<open>fires\<close> in the window.
\<close>

definition loop_test :: "sched \<Rightarrow> bool result" where
  "loop_test s = rbind (dlist_empty (ready s)) (\<lambda>r.
     if \<not> r then Inr True else rbind (dlist_empty (waiting s)) (\<lambda>w. Inr (\<not> w)))"

definition pick_thread :: "node_malloc \<Rightarrow> sched \<Rightarrow> (outcome \<times> sched) result" where
  "pick_thread malloc s =
     rbind (dlist_pop_left (ready s)) (\<lambda>(t, q).
     let s3 = s\<lparr>ready := q, main_thread := t\<rparr> in
     rbind (load_thread s3 t) (\<lambda>th.
     if waiting_for th \<noteq> None then
       rbind (is_thread_in_list (ready s3) (waiting_for th)) (\<lambda>in_ready.
       rbind (if in_ready then Inr True
              else is_thread_in_list (waiting s3) (waiting_for th)) (\<lambda>found.
       if found then
         rbind (dlist_push_right (malloc (ready s3)) (ready s3) t) (\<lambda>(_, q').
         Inr (Again, s3\<lparr>ready := q'\<rparr>))
       else
         rbind (store_thread t (\<lambda>th. th\<lparr>waiting_for := None\<rparr>) s3) (\<lambda>s4.
         rbind (swap_to_thread s4) (\<lambda>s5. Inr (Dispatch, s5)))))
     else rbind (swap_to_thread s3) (\<lambda>s5. Inr (Dispatch, s5))))"

definition manager_turn :: "node_malloc \<Rightarrow> nat list \<Rightarrow> sched \<Rightarrow> (outcome \<times> sched) result" where
  "manager_turn malloc fires s =
     rbind (loop_test s) (\<lambda>go.
     if \<not> go then Inr (Stop, s) else
     rbind (deliver malloc fires (unblock_mask_sleep s)) (\<lambda>s1.
     pick_thread malloc (block_mask_sleep s1)))"

text \<open>
  The loop itself, until it stops or dispatches.  \<open>fires n\<close> are the timers that go off in the window of turn
  \<open>n\<close>; the loop begins with turn \<open>n\<close>.
\<close>

partial_function (option) manager_loop ::
  "node_malloc \<Rightarrow> (nat \<Rightarrow> nat list) \<Rightarrow> nat \<Rightarrow> sched \<Rightarrow> (outcome \<times> sched) result option" where
  "manager_loop malloc fires n s =
     (case manager_turn malloc (fires n) s of Inl e \<Rightarrow> Some (Inl e)
      | Inr r \<Rightarrow> if fst r = Again then manager_loop malloc fires (Suc n) (snd r) else Some (Inr r))"

section \<open>Start and end of the library\<close>

text \<open>\<open>timer_init\<close> arms the timer of \<open>SIGRTMIN\<close>, and \<open>manager_init\<close> saves the mask of its caller.\<close>

definition timer_init :: "sched \<Rightarrow> sched" where
  "timer_init s = s\<lparr>preempting := True\<rparr>"

definition manager_init :: "sched \<Rightarrow> sched" where
  "manager_init s = s\<lparr>mgr_sigs := sigs s\<rparr>"

text \<open>
  From \<open>timer_init\<close> to the \<open>sigprocmask\<close> in front of the loop the timer is armed and the manager's code runs
  with the signal unblocked, but for the body of \<open>dccthread_create\<close>: before that call, after it, and once
  \<open>main_thread\<close> is assigned.  \<open>strike\<close> tells in which of these windows the signal comes.  The handler then
  switches from \<open>main_thread\<close> to the context of the manager; that is the \<open>getcontext\<close> of \<open>manager_init\<close>, a
  function that has returned, so a handler that gets as far as the switch continues in a dead frame.
\<close>

datatype init_window = Before_Create | Before_Assign | Before_Block

definition strike_manager :: "node_malloc \<Rightarrow> bool \<Rightarrow> sched \<Rightarrow> sched result" where
  "strike_manager malloc now s =
     (if now \<and> preempting s \<and> \<not> blk_min (sigs s)
      then rbind (dccthread_preemption malloc s) (\<lambda>_. Inl Bad_Pointer) else Inr s)"

text \<open>\<open>dccthread_init\<close> up to its loop, and from the end of the loop.\<close>

definition dccthread_init :: "node_malloc \<Rightarrow> (init_window \<Rightarrow> bool) \<Rightarrow> ptr \<Rightarrow> sched result" where
  "dccthread_init malloc strike thread =
     rbind (dlist_create True) (\<lambda>w.
     rbind (dlist_create True) (\<lambda>r.
     rbind (dlist_create True) (\<lambda>f.
     let s = timer_init \<lparr>threads = Map.empty, main_thread = None, waiting = w, ready = r, finished = f,
              sigs = \<lparr>blk_min = False, blk_max = False\<rparr>,
              mgr_sigs = \<lparr>blk_min = False, blk_max = False\<rparr>,
              timers = Map.empty, preempting = False, cpu = Manager\<rparr> in
     rbind (strike_manager malloc (strike Before_Create) (manager_init s)) (\<lambda>s1.
     rbind (dccthread_create malloc thread ''main'' s1) (\<lambda>(t, s2).
     rbind (strike_manager malloc (strike Before_Assign) s2) (\<lambda>s3.
     rbind (strike_manager malloc (strike Before_Block) (s3\<lparr>main_thread := t\<rparr>)) (\<lambda>s4.
     Inr (block_mask s4))))))))"

text \<open>
  \<open>pending\<close>: a preemption signal came while it was blocked and the system still delivers it when it is
  unblocked, though its timer was deleted; the handler then pushes into the list that was freed.
\<close>

definition dccthread_finish :: "bool \<Rightarrow> sched \<Rightarrow> sched result" where
  "dccthread_finish pending s =
     rbind (dlist_destroy (ready s) False) (\<lambda>_.
     rbind (dlist_destroy (waiting s) False) (\<lambda>_.
     rbind (dlist_destroy (finished s) False) (\<lambda>_.
     if pending then Inl Bad_Pointer else Inl (Exited 0))))"

section \<open>Steps of the whole library\<close>

datatype event =
    Ev_Manager "nat list" outcome
  | Ev_Resume
  | Ev_Create string
  | Ev_Yield
  | Ev_Exit
  | Ev_Wait ptr
  | Ev_Sleep timespec
  | Ev_Return
  | Ev_Preempt
  | Ev_Alarm nat

text \<open>
  The steps begin at the loop of \<open>dccthread_init\<close>, with the preemption timer armed.  A client thread may call
  any operation while it runs.  The preemption signal and the
  alarms of sleeping threads strike in any state in which the signal is not blocked,
  whoever has the processor; that from the loop on they only ever strike client code is a theorem.
  The alarms of the manager's own window are the argument of its turn.
\<close>

inductive sched_step :: "node_malloc \<Rightarrow> sched \<Rightarrow> event \<Rightarrow> sched \<Rightarrow> bool" for malloc where
  manages: "cpu s = Manager \<Longrightarrow> manager_turn malloc fires s = Inr (o1, s') \<Longrightarrow>
     sched_step malloc s (Ev_Manager fires o1) s'"
| resumes: "cpu s = Resuming \<Longrightarrow> resume_thread s = Inr s' \<Longrightarrow> sched_step malloc s Ev_Resume s'"
| creates: "cpu s = Running \<Longrightarrow> threads s a = None \<Longrightarrow>
     dccthread_create malloc (Some a) name s = Inr (t, s') \<Longrightarrow>
     sched_step malloc s (Ev_Create name) s'"
| yields: "cpu s = Running \<Longrightarrow> dccthread_yield malloc s = Inr s' \<Longrightarrow>
     sched_step malloc s Ev_Yield s'"
| exits: "cpu s = Running \<Longrightarrow> dccthread_exit malloc s = Inr s' \<Longrightarrow>
     sched_step malloc s Ev_Exit s'"
| waits: "cpu s = Running \<Longrightarrow> dccthread_wait malloc tid s = Inr s' \<Longrightarrow>
     sched_step malloc s (Ev_Wait tid) s'"
| sleeps: "cpu s = Running \<Longrightarrow> timers s i = None \<Longrightarrow> dccthread_sleep malloc i ts s = Inr s' \<Longrightarrow>
     sched_step malloc s (Ev_Sleep ts) s'"
| returns: "cpu s = Running \<Longrightarrow> sched_step malloc s Ev_Return (thread_returns s)"
| preempts: "\<not> blk_min (sigs s) \<Longrightarrow>
     dccthread_preemption malloc s = Inr s' \<Longrightarrow> sched_step malloc s Ev_Preempt s'"
| alarms: "\<not> blk_max (sigs s) \<Longrightarrow> timers s i = Some tm \<Longrightarrow> armed tm \<Longrightarrow>
     dccthread_wakeup malloc (target tm) s = Inr s' \<Longrightarrow> sched_step malloc s (Ev_Alarm i) s'"

inductive_cases manager_stepE: "sched_step malloc s (Ev_Manager fires o1) s'"
inductive_cases preempt_stepE: "sched_step malloc s Ev_Preempt s'"
inductive_cases alarm_stepE: "sched_step malloc s (Ev_Alarm i) s'"

text \<open>Runs of the library: a list of events from one state to another.\<close>

inductive sched_run :: "node_malloc \<Rightarrow> sched \<Rightarrow> event list \<Rightarrow> sched \<Rightarrow> bool" for malloc where
  run_nil: "sched_run malloc s [] s"
| run_snoc: "sched_run malloc s evs s1 \<Longrightarrow> sched_step malloc s1 ev s2 \<Longrightarrow>
     sched_run malloc s (evs @ [ev]) s2"

text \<open>The unfolding equations make the loops executable.\<close>

lemmas sched_loops_code [code] =
  nwaiting_loop.simps nexited_loop.simps in_list_loop.simps manager_loop.simps

end
