(* ===== verification/DList_Correct.thy ===== *)
theory DList_Correct
  imports DList
begin

text \<open>
  Correctness of \<open>TP 1/dlist.c\<close>.  \<open>dl_rep dl cs\<close> says that the heap of \<open>dl\<close> holds
  exactly the nodes \<open>cs\<close> (address and datum, in order), linked in both directions,
  with the header's three fields in agreement.  Each operation is shown to return
  without a fault on a list of this shape and to do to \<open>cs\<close> what the list operation
  of its name does.  The last part states the operations the thread library uses as a
  locale over an abstraction to lists, and interprets it on this implementation.
\<close>

section \<open>Segments of linked nodes\<close>

text \<open>The first address of a chain, and the last, with what stands in for an empty one.\<close>

fun first :: "(nat \<times> ptr) list \<Rightarrow> ptr \<Rightarrow> ptr" where
  "first [] q = q"
| "first ((a, x) # cs) q = Some a"

fun lastp :: "ptr \<Rightarrow> (nat \<times> ptr) list \<Rightarrow> ptr" where
  "lastp p [] = p"
| "lastp p ((a, x) # cs) = lastp (Some a) cs"

fun dseg :: "(nat \<rightharpoonup> dnode) \<Rightarrow> ptr \<Rightarrow> (nat \<times> ptr) list \<Rightarrow> ptr \<Rightarrow> bool" where
  "dseg h p [] q = True"
| "dseg h p ((a, x) # cs) q =
     (h a = Some \<lparr>dn_prev = p, dn_next = first cs q, dn_data = x\<rparr> \<and> dseg h (Some a) cs q)"

definition dl_rep :: "dlist \<Rightarrow> (nat \<times> ptr) list \<Rightarrow> bool" where
  "dl_rep dl cs \<longleftrightarrow>
     dseg (dl_nodes dl) None cs None \<and> distinct (map fst cs) \<and>
     dl_head dl = first cs None \<and> dl_tail dl = lastp None cs \<and>
     dl_count dl = int (length cs) \<and> dom (dl_nodes dl) = set (map fst cs)"

lemma first_append [simp]: "first (xs @ ys) q = first xs (first ys q)"
  by (cases xs) auto

lemma lastp_append [simp]: "lastp p (xs @ ys) = lastp (lastp p xs) ys"
  by (induction xs arbitrary: p) auto

lemma first_None [simp]: "first cs None = None \<longleftrightarrow> cs = []"
  by (cases cs) auto

lemma first_Some_neq [simp]: "first cs (Some b) \<noteq> None" "\<exists>y. first cs (Some b) = Some y"
  by (cases cs; auto)+

lemma dom_singleton_del: "dom h = {a} \<Longrightarrow> h(a := None) = Map.empty"
  by (auto simp: fun_eq_iff dom_def)

lemma lastp_None [simp]: "lastp None cs = None \<longleftrightarrow> cs = []"
proof -
  have "lastp (Some a) cs \<noteq> None" for a cs
    by (induction cs arbitrary: a) auto
  then show ?thesis by (cases cs) auto
qed

lemma first_conv: "first xs q = (if xs = [] then q else Some (hd (map fst xs)))"
  by (cases xs) auto

lemma lastp_conv: "lastp p xs = (if xs = [] then p else Some (last (map fst xs)))"
  by (induction xs arbitrary: p) auto

lemma ends_of_same_addrs:
  assumes "map fst xs = map fst ys"
  shows "first xs q = first ys q" and "lastp p xs = lastp p ys"
proof -
  from assms have "xs = [] \<longleftrightarrow> ys = []" by (metis map_is_Nil_conv)
  with assms show "first xs q = first ys q" "lastp p xs = lastp p ys"
    by (simp_all add: first_conv lastp_conv)
qed

lemma first_SomeD: "first xs q = Some c \<Longrightarrow> c \<in> fst ` set xs \<or> xs = [] \<and> q = Some c"
  by (cases xs) auto

lemma lastp_SomeD:
  assumes "lastp p xs = Some c"
  shows "c \<in> fst ` set xs \<or> xs = [] \<and> p = Some c"
proof (cases "xs = []")
  case False
  then have "last (map fst xs) \<in> set (map fst xs)" by (intro last_in_set) simp
  with False assms show ?thesis by (simp add: lastp_conv)
qed (use assms in simp)

lemma dseg_append [simp]:
  "dseg h p (xs @ ys) q \<longleftrightarrow> dseg h p xs (first ys q) \<and> dseg h (lastp p xs) ys q"
  by (induction xs arbitrary: p) auto

lemma dseg_upd [simp]:
  "a \<notin> fst ` set cs \<Longrightarrow> dseg (h(a := v)) p cs q = dseg h p cs q"
  by (induction cs arbitrary: p) auto

text \<open>The two ends of a chain can be redirected by writing one node.\<close>

lemma dseg_set_prev:
  "dseg h p ((a, x) # cs) q \<Longrightarrow> a \<notin> fst ` set cs \<Longrightarrow>
   dseg (h(a \<mapsto> \<lparr>dn_prev = p', dn_next = first cs q, dn_data = x\<rparr>)) p' ((a, x) # cs) q"
  by simp

lemma dseg_set_next:
  "dseg h p (cs @ [(a, x)]) q \<Longrightarrow> a \<notin> fst ` set cs \<Longrightarrow>
   dseg (h(a \<mapsto> \<lparr>dn_prev = lastp p cs, dn_next = q', dn_data = x\<rparr>)) p (cs @ [(a, x)]) q'"
  by simp

lemmas dlist_op_defs = load_node_def store_node_def free_node_def Let_def

section \<open>The operations on a well-formed list\<close>

lemma dlist_create_rep: "\<exists>dl. dlist_create True = Inr dl \<and> dl_rep dl []"
  by (simp add: dlist_create_def dl_rep_def)

lemma dlist_empty_rep: "dl_rep dl cs \<Longrightarrow> dlist_empty dl = Inr (cs = [])"
  by (auto simp: dlist_empty_def dl_rep_def)

lemma dlist_push_right_rep:
  assumes "dl_rep dl cs" and "dl_nodes dl a = None"
  shows "\<exists>dl'. dlist_push_right (Some a) dl x = Inr (x, dl') \<and> dl_rep dl' (cs @ [(a, x)])"
proof (cases cs rule: rev_cases)
  case Nil
  with assms show ?thesis
    by (auto simp: dlist_push_right_def dl_rep_def Let_def)
next
  case (snoc ds c)
  obtain b y where c: "c = (b, y)" by (cases c)
  from assms snoc c have
    h: "dl_nodes dl b = Some \<lparr>dn_prev = lastp None ds, dn_next = None, dn_data = y\<rparr>"
    and ab: "a \<noteq> b" "a \<notin> fst ` set ds" "b \<notin> fst ` set ds"
    by (auto simp: dl_rep_def dom_def)
  with assms snoc c show ?thesis
    by (auto simp: dlist_push_right_def dl_rep_def dlist_op_defs)
qed

lemma dlist_pop_left_nil: "dl_rep dl [] \<Longrightarrow> dlist_pop_left dl = Inr (None, dl)"
  by (simp add: dlist_pop_left_def dlist_empty_rep)

lemma dlist_pop_left_rep:
  assumes "dl_rep dl ((a, x) # cs)"
  shows "\<exists>dl'. dlist_pop_left dl = Inr (x, dl') \<and> dl_rep dl' cs"
proof (cases cs)
  case Nil
  with assms show ?thesis
    by (auto simp: dlist_pop_left_def dlist_empty_rep)
      (auto simp: dl_rep_def dlist_op_defs dom_singleton_del)
next
  case (Cons c ds)
  obtain b y where c: "c = (b, y)" by (cases c)
  from assms Cons c have ab: "a \<noteq> b" by (auto simp: dl_rep_def)
  from assms Cons c ab show ?thesis
    by (auto simp: dlist_pop_left_def dlist_empty_rep) (auto simp: dl_rep_def dlist_op_defs)
qed

lemma dlist_pop_right_rep:
  assumes "dl_rep dl (cs @ [(a, x)])"
  shows "\<exists>dl'. dlist_pop_right dl = Inr (x, dl') \<and> dl_rep dl' cs"
proof (cases cs rule: rev_cases)
  case Nil
  with assms show ?thesis
    by (auto simp: dlist_pop_right_def dlist_empty_rep)
      (auto simp: dl_rep_def dlist_op_defs dom_singleton_del)
next
  case (snoc ds c)
  obtain b y where c: "c = (b, y)" by (cases c)
  from assms snoc c have ab: "a \<noteq> b" by (auto simp: dl_rep_def)
  from assms snoc c ab show ?thesis
    by (auto simp: dlist_pop_right_def dlist_empty_rep) (auto simp: dl_rep_def dlist_op_defs)
qed

subsection \<open>Search and removal\<close>

lemma unlink_node_rep:
  assumes "dl_rep dl (xs @ (c, d) # ys)"
  shows "\<exists>dl'. unlink_node dl c = Inr (d, dl') \<and> dl_rep dl' (xs @ ys)"
proof -
  consider (both) xs' a x b y ys' where "xs = xs' @ [(a, x)]" "ys = (b, y) # ys'"
    | (left) xs' a x where "xs = xs' @ [(a, x)]" "ys = []"
    | (right) b y ys' where "xs = []" "ys = (b, y) # ys'"
    | (none) "xs = []" "ys = []"
    by (metis list.exhaust rev_exhaust surj_pair)
  then show ?thesis
  proof cases
    case both
    with assms show ?thesis
      by (auto simp: unlink_node_def dl_rep_def dlist_op_defs dest!: first_SomeD lastp_SomeD)
  next
    case left
    with assms show ?thesis
      by (auto simp: unlink_node_def dl_rep_def dlist_op_defs dest!: first_SomeD lastp_SomeD)
  next
    case right
    with assms show ?thesis
      by (auto simp: unlink_node_def dl_rep_def dlist_op_defs dest!: first_SomeD lastp_SomeD)
  next
    case none
    with assms show ?thesis
      by (auto simp: unlink_node_def dl_rep_def dlist_op_defs dom_singleton_del)
  qed
qed

text \<open>\<open>misses\<close> says that the loop body goes on to the next node.\<close>

definition misses :: "(ptr \<Rightarrow> ptr \<Rightarrow> ptr \<Rightarrow> int) \<Rightarrow> ptr \<Rightarrow> ptr \<Rightarrow> ptr \<Rightarrow> bool" where
  "misses cmp data ud x \<longleftrightarrow> x = None \<or> cmp x data ud \<noteq> 0"

lemma find_remove_loop_skip:
  "dseg (dl_nodes dl) p (xs @ ys) None \<Longrightarrow> \<forall>x \<in> snd ` set xs. misses cmp data ud x \<Longrightarrow>
   find_remove_loop dl data cmp ud (first (xs @ ys) None) =
   find_remove_loop dl data cmp ud (first ys None)"
proof (induction xs arbitrary: p)
  case Nil
  then show ?case by simp
next
  case (Cons c xs)
  obtain a x where c: "c = (a, x)" by (cases c)
  from Cons.prems c have n: "dl_nodes dl a =
      Some \<lparr>dn_prev = p, dn_next = first (xs @ ys) None, dn_data = x\<rparr>"
    and rest: "dseg (dl_nodes dl) (Some a) (xs @ ys) None" and m: "misses cmp data ud x"
    by auto
  have "find_remove_loop dl data cmp ud (first ((c # xs) @ ys) None) =
      find_remove_loop dl data cmp ud (first (xs @ ys) None)"
    using n m c by (subst find_remove_loop.simps) (auto simp: misses_def)
  also have "\<dots> = find_remove_loop dl data cmp ud (first ys None)"
    using Cons.IH [OF rest] Cons.prems(2) by simp
  finally show ?case .
qed

lemma find_remove_hit:
  assumes rep: "dl_rep dl (xs @ (c, d) # ys)"
    and skip: "\<forall>x \<in> snd ` set xs. misses cmp data ud x" and hit: "\<not> misses cmp data ud d"
  shows "\<exists>dl'. dlist_find_remove dl data cmp ud = Inr (d, dl') \<and> dl_rep dl' (xs @ ys)"
proof -
  from rep have seg: "dseg (dl_nodes dl) None (xs @ (c, d) # ys) None"
    and h: "dl_head dl = first (xs @ (c, d) # ys) None"
    by (simp_all add: dl_rep_def)
  have "dlist_find_remove dl data cmp ud = returns (find_remove_loop dl data cmp ud (Some c))"
    using find_remove_loop_skip [OF seg skip] h by (simp add: dlist_find_remove_def)
  also have "\<dots> = unlink_node dl c"
    using seg hit by (subst find_remove_loop.simps) (auto simp: misses_def)
  finally show ?thesis using unlink_node_rep [OF rep] by auto
qed

lemma find_remove_miss:
  assumes rep: "dl_rep dl cs" and skip: "\<forall>x \<in> snd ` set cs. misses cmp data ud x"
  shows "dlist_find_remove dl data cmp ud = Inr (None, dl)"
proof -
  from rep have "dseg (dl_nodes dl) None (cs @ []) None" by (simp add: dl_rep_def)
  from find_remove_loop_skip [OF this skip] rep show ?thesis
    by (simp add: dlist_find_remove_def dl_rep_def find_remove_loop.simps)
qed

subsection \<open>Indexing from both ends\<close>

lemma walk_next_rep:
  "dseg (dl_nodes dl) p cs None \<Longrightarrow>
   walk dn_next dl (first cs None) k = Inr (if k < length cs then Some (fst (cs ! k)) else None)"
proof (induction cs arbitrary: p k)
  case Nil
  then show ?case by (cases k) auto
next
  case (Cons c cs)
  obtain a x where "c = (a, x)" by (cases c)
  with Cons show ?case by (cases k) auto
qed

lemma walk_prev_rep:
  "dseg (dl_nodes dl) None cs q \<Longrightarrow>
   walk dn_prev dl (lastp None cs) k =
   Inr (if k < length cs then Some (fst (cs ! (length cs - 1 - k))) else None)"
proof (induction cs arbitrary: q k rule: rev_induct)
  case Nil
  then show ?case by (cases k) auto
next
  case (snoc c cs)
  obtain a x where "c = (a, x)" by (cases c)
  with snoc show ?case by (cases k) (auto simp: nth_append)
qed

text \<open>The position the index names: from the left when it is not negative, else from the right.\<close>

definition position :: "int \<Rightarrow> nat \<Rightarrow> nat option" where
  "position idx n =
     (if 0 \<le> idx \<and> idx < int n then Some (nat idx)
      else if idx < 0 \<and> - idx \<le> int n then Some (nat (int n + idx)) else None)"

lemma seek_rep:
  assumes "dl_rep dl cs"
  shows "seek dl idx = Inr (map_option (\<lambda>i. fst (cs ! i)) (position idx (length cs)))"
proof (cases "idx \<ge> 0")
  case True
  with assms walk_next_rep [of dl None cs "nat idx"] show ?thesis
    by (auto simp: seek_def dl_rep_def position_def)
next
  case False
  have "length cs - Suc (nat (- idx - 1)) = nat (int (length cs) + idx)"
    using False by linarith
  with False assms walk_prev_rep [of dl cs None "nat (- idx - 1)"] show ?thesis
    by (auto simp: seek_def dl_rep_def position_def)
qed

lemma position_less: "position idx n = Some i \<Longrightarrow> i < n"
  by (auto simp: position_def split: if_splits)

lemma dseg_nth:
  assumes "dseg h p cs q" and "i < length cs"
  shows "\<exists>n. h (fst (cs ! i)) = Some n \<and> dn_data n = snd (cs ! i)"
  using assms
proof (induction cs arbitrary: p i)
  case Nil
  then show ?case by simp
next
  case (Cons c cs)
  obtain a x where "c = (a, x)" by (cases c)
  with Cons show ?case by (cases i) auto
qed

lemma dlist_get_index_rep:
  assumes rep: "dl_rep dl cs"
  shows "dlist_get_index dl idx =
    Inr (case position idx (length cs) of None \<Rightarrow> None | Some i \<Rightarrow> snd (cs ! i))"
proof (cases "position idx (length cs)")
  case None
  then show ?thesis by (simp add: dlist_get_index_def seek_rep [OF rep])
next
  case (Some i)
  with rep dseg_nth [of "dl_nodes dl" None cs None i] show ?thesis
    by (auto simp: dlist_get_index_def seek_rep [OF rep] position_less dl_rep_def load_node_def)
qed

lemma dseg_update_data:
  assumes "dseg h p cs q" and "distinct (map fst cs)" and "i < length cs"
    and "h (fst (cs ! i)) = Some n"
  shows "dseg (h(fst (cs ! i) \<mapsto> n\<lparr>dn_data := x\<rparr>)) p (cs[i := (fst (cs ! i), x)]) q"
  using assms
proof (induction cs arbitrary: p i)
  case Nil
  then show ?case by simp
next
  case (Cons c cs)
  obtain a y where c: "c = (a, y)" by (cases c)
  show ?case
  proof (cases i)
    case 0
    with Cons.prems c have "a \<notin> fst ` set cs" by simp
    with 0 Cons.prems c show ?thesis by (auto simp del: fun_upd_apply simp: fun_upd_same)
  next
    case (Suc k)
    with Cons.prems c have ak: "fst (cs ! k) \<noteq> a" by (auto dest: nth_mem)
    have "first (cs[k := (fst (cs ! k), x)]) q = first cs q"
      by (cases cs; cases k) (auto split: prod.splits)
    with Cons Suc c ak show ?thesis by auto
  qed
qed

lemma dlist_set_index_rep:
  assumes rep: "dl_rep dl cs"
  shows "\<exists>dl'. dlist_set_index dl idx x = Inr dl' \<and>
    dl_rep dl' (case position idx (length cs) of None \<Rightarrow> cs
                | Some i \<Rightarrow> cs[i := (fst (cs ! i), x)])"
proof (cases "position idx (length cs)")
  case None
  with rep show ?thesis by (simp add: dlist_set_index_def seek_rep [OF rep])
next
  case (Some i)
  have i: "i < length cs" using Some by (rule position_less)
  with rep obtain n where n: "dl_nodes dl (fst (cs ! i)) = Some n"
    using dseg_nth [of "dl_nodes dl" None cs None i] by (auto simp: dl_rep_def)
  let ?cs = "cs[i := (fst (cs ! i), x)]"
  let ?h = "(dl_nodes dl)(fst (cs ! i) \<mapsto> n\<lparr>dn_data := x\<rparr>)"
  have same: "map fst ?cs = map fst cs"
    using i by (simp add: map_update list_update_same_conv)
  have ends: "first ?cs None = first cs None" "lastp None ?cs = lastp None cs"
    by (rule ends_of_same_addrs [OF same])+
  have "dseg ?h None ?cs None"
    using rep i n by (intro dseg_update_data) (auto simp: dl_rep_def)
  moreover have "dom ?h = set (map fst cs)"
    using rep i n by (auto simp: dl_rep_def)
  moreover have "distinct (map fst ?cs)" "set (map fst ?cs) = set (map fst cs)"
    unfolding same using rep by (simp_all add: dl_rep_def)
  ultimately have "dl_rep (dl\<lparr>dl_nodes := ?h\<rparr>) ?cs"
    using rep unfolding dl_rep_def ends by simp
  with n show ?thesis
    by (simp add: dlist_set_index_def seek_rep [OF rep] Some store_node_def)
qed

subsection \<open>Destruction\<close>

lemma destroy_loop_rep:
  "dl_rep dl cs \<Longrightarrow> \<exists>dl'. destroy_loop dl cb acc =
     Some (Inr (acc @ (if cb then map snd cs else []), dl')) \<and> dl_rep dl' []"
proof (induction cs arbitrary: dl acc)
  case Nil
  then show ?case by (subst destroy_loop.simps) (simp add: dlist_empty_rep)
next
  case (Cons c cs)
  obtain a x where c: "c = (a, x)" by (cases c)
  with Cons.prems obtain dl' where pop: "dlist_pop_left dl = Inr (x, dl')" and rep: "dl_rep dl' cs"
    using dlist_pop_left_rep by blast
  from Cons.IH [OF rep] obtain dl'' where
    "destroy_loop dl' cb (if cb then acc @ [x] else acc) =
       Some (Inr ((if cb then acc @ [x] else acc) @ (if cb then map snd cs else []), dl''))"
    and "dl_rep dl'' []" by blast
  with Cons.prems c pop show ?case
    by (subst destroy_loop.simps) (auto simp: dlist_empty_rep)
qed

section \<open>The abstraction to lists\<close>

text \<open>The data of the list in order, read by following \<open>next\<close> from the head \<open>count\<close> times.\<close>

fun collect :: "(nat \<rightharpoonup> dnode) \<Rightarrow> nat \<Rightarrow> ptr \<Rightarrow> ptr list" where
  "collect h 0 p = []"
| "collect h (Suc k) p =
     (case p of None \<Rightarrow> [] | Some a \<Rightarrow>
       (case h a of None \<Rightarrow> [] | Some n \<Rightarrow> dn_data n # collect h k (dn_next n)))"

definition elems :: "dlist \<Rightarrow> ptr list" where
  "elems dl = collect (dl_nodes dl) (nat (dl_count dl)) (dl_head dl)"

definition wf_list :: "dlist \<Rightarrow> bool" where
  "wf_list dl \<longleftrightarrow> (\<exists>cs. dl_rep dl cs)"

definition fresh_in :: "dlist \<Rightarrow> nat \<Rightarrow> bool" where
  "fresh_in dl a \<longleftrightarrow> dl_nodes dl a = None"

lemma collect_dseg: "dseg h p cs None \<Longrightarrow> collect h (length cs) (first cs None) = map snd cs"
proof (induction cs arbitrary: p)
  case Nil
  then show ?case by simp
next
  case (Cons c cs)
  then show ?case by (cases c) auto
qed

lemma elems_rep: "dl_rep dl cs \<Longrightarrow> elems dl = map snd cs"
  using collect_dseg by (fastforce simp: elems_def dl_rep_def)

lemma wf_listI: "dl_rep dl cs \<Longrightarrow> wf_list dl \<and> elems dl = map snd cs"
  by (auto simp: wf_list_def elems_rep)

lemma wf_listE:
  assumes "wf_list dl"
  obtains cs where "dl_rep dl cs" and "elems dl = map snd cs"
  using assms elems_rep by (auto simp: wf_list_def)

lemma fresh_exists: "wf_list dl \<Longrightarrow> \<exists>a. fresh_in dl a"
proof -
  assume "wf_list dl"
  then have "finite (dom (dl_nodes dl))" by (auto simp: wf_list_def dl_rep_def)
  then obtain a where "a \<notin> dom (dl_nodes dl)" using ex_new_if_finite infinite_UNIV_nat by blast
  then show ?thesis by (auto simp: fresh_in_def dom_def)
qed

text \<open>The comparison callback of the thread library: equality of the two pointers.\<close>

definition same_ptr :: "ptr \<Rightarrow> ptr \<Rightarrow> ptr \<Rightarrow> int" where
  "same_ptr e1 e2 userdata = (if e1 \<noteq> e2 then 1 else 0)"

lemma find_remove_same_hit:
  assumes "wf_list q" and "Some t \<in> set (elems q)"
  shows "\<exists>q'. dlist_find_remove q (Some t) same_ptr None = Inr (Some t, q') \<and> wf_list q' \<and>
    elems q' = remove1 (Some t) (elems q)"
proof -
  from assms obtain cs where rep: "dl_rep q cs" and el: "elems q = map snd cs"
    by (auto elim: wf_listE)
  from assms el have "\<exists>c \<in> set cs. snd c = Some t" by force
  then obtain xs c ys where cs: "cs = xs @ c # ys" and c: "snd c = Some t"
    and xs: "\<forall>z \<in> set xs. snd z \<noteq> Some t" by (rule split_list_first_propE) blast
  obtain a where ca: "c = (a, Some t)" using c by (cases c) auto
  have "\<exists>q'. dlist_find_remove q (Some t) same_ptr None = Inr (Some t, q') \<and> dl_rep q' (xs @ ys)"
    using rep cs ca xs by (intro find_remove_hit [where c = a]) (auto simp: misses_def same_ptr_def)
  moreover have "map snd (xs @ ys) = remove1 (Some t) (elems q)"
    using el cs ca xs by (auto simp: remove1_append)
  ultimately show ?thesis using wf_listI by metis
qed

lemma find_remove_same_miss:
  assumes "wf_list q" and "Some t \<notin> set (elems q)"
  shows "dlist_find_remove q (Some t) same_ptr None = Inr (None, q)"
proof -
  from assms obtain cs where rep: "dl_rep q cs" and el: "elems q = map snd cs"
    by (auto elim: wf_listE)
  from assms el have "\<forall>x \<in> snd ` set cs. misses same_ptr (Some t) None x"
    by (force simp: misses_def same_ptr_def)
  with rep show ?thesis by (rule find_remove_miss)
qed

section \<open>The interface the thread library relies on\<close>

locale thread_queue =
  fixes wf :: "'q \<Rightarrow> bool"
    and items :: "'q \<Rightarrow> ptr list"
    and fresh :: "'q \<Rightarrow> nat \<Rightarrow> bool"
    and push :: "ptr \<Rightarrow> 'q \<Rightarrow> ptr \<Rightarrow> (ptr \<times> 'q) result"
    and pop :: "'q \<Rightarrow> (ptr \<times> 'q) result"
    and is_empty :: "'q \<Rightarrow> bool result"
    and remove :: "'q \<Rightarrow> ptr \<Rightarrow> (ptr \<times> 'q) result"
  assumes push: "wf q \<Longrightarrow> fresh q a \<Longrightarrow>
      \<exists>q'. push (Some a) q x = Inr (x, q') \<and> wf q' \<and> items q' = items q @ [x]"
    and pop_nil: "wf q \<Longrightarrow> items q = [] \<Longrightarrow> pop q = Inr (None, q)"
    and pop_cons: "wf q \<Longrightarrow> items q = x # xs \<Longrightarrow>
      \<exists>q'. pop q = Inr (x, q') \<and> wf q' \<and> items q' = xs"
    and is_empty: "wf q \<Longrightarrow> is_empty q = Inr (items q = [])"
    and remove_hit: "wf q \<Longrightarrow> Some t \<in> set (items q) \<Longrightarrow>
      \<exists>q'. remove q (Some t) = Inr (Some t, q') \<and> wf q' \<and> items q' = remove1 (Some t) (items q)"
    and remove_miss: "wf q \<Longrightarrow> Some t \<notin> set (items q) \<Longrightarrow> remove q (Some t) = Inr (None, q)"
    and has_fresh: "wf q \<Longrightarrow> \<exists>a. fresh q a"
begin

text \<open>What the scheduler does to the ready list in one turn: the front goes to the back.\<close>

lemma pop_all:
  "wf q \<Longrightarrow> \<exists>q'. pop q = Inr (case items q of [] \<Rightarrow> None | x # xs \<Rightarrow> x, q') \<and> wf q' \<and>
     items q' = tl (items q)"
  using pop_nil pop_cons by (cases "items q") auto

lemma rotate:
  assumes "wf q" and "items q = x # xs"
  obtains q1 where "pop q = Inr (x, q1)" and "wf q1" and "items q1 = xs"
    and "\<And>a. fresh q1 a \<Longrightarrow> \<exists>q2. push (Some a) q1 x = Inr (x, q2) \<and> wf q2 \<and> items q2 = xs @ [x]"
  using pop_cons [OF assms] push by metis

text \<open>Whatever is pushed comes out after what was there, in order.\<close>

lemma push_pop_order:
  assumes "wf q" and "fresh q a" and "items q = []"
  shows "\<exists>q1 q2. push (Some a) q x = Inr (x, q1) \<and> pop q1 = Inr (x, q2) \<and> wf q2 \<and> items q2 = []"
  using push [OF assms(1,2), of x] pop_cons assms(3) by fastforce

text \<open>Removal takes away one occurrence and leaves every other entry in place.\<close>

lemma remove_all:
  "wf q \<Longrightarrow> \<exists>r q'. remove q (Some t) = Inr (r, q') \<and> wf q' \<and>
     items q' = remove1 (Some t) (items q)"
  using remove_hit [of q t] remove_miss [of q t]
  by (cases "Some t \<in> set (items q)") (auto simp: remove1_idem)

end

lemma dlist_push_elems:
  assumes "wf_list q" and "fresh_in q a"
  shows "\<exists>q'. dlist_push_right (Some a) q x = Inr (x, q') \<and> wf_list q' \<and> elems q' = elems q @ [x]"
proof -
  from assms obtain cs where rep: "dl_rep q cs" and el: "elems q = map snd cs"
    and a: "dl_nodes q a = None" by (auto simp: fresh_in_def elim!: wf_listE)
  from dlist_push_right_rep [OF rep a, of x] obtain q' where
    "dlist_push_right (Some a) q x = Inr (x, q')" and "dl_rep q' (cs @ [(a, x)])" by blast
  with wf_listI el show ?thesis by fastforce
qed

lemma dlist_pop_elems_nil: "wf_list q \<Longrightarrow> elems q = [] \<Longrightarrow> dlist_pop_left q = Inr (None, q)"
  using dlist_pop_left_nil by (auto elim!: wf_listE)

lemma dlist_pop_elems_cons:
  assumes "wf_list q" and "elems q = x # xs"
  shows "\<exists>q'. dlist_pop_left q = Inr (x, q') \<and> wf_list q' \<and> elems q' = xs"
proof -
  from assms obtain c cs where rep: "dl_rep q (c # cs)" and e: "map snd (c # cs) = x # xs"
    by (metis wf_listE map_eq_Cons_D)
  obtain a where "c = (a, x)" using e by (cases c) auto
  with rep dlist_pop_left_rep obtain q' where "dlist_pop_left q = Inr (x, q')" "dl_rep q' cs"
    by blast
  with e wf_listI show ?thesis by fastforce
qed

lemma dlist_pop_right_elems:
  assumes "wf_list q"
  shows "\<exists>q'. dlist_pop_right q = Inr (if elems q = [] then None else last (elems q), q') \<and>
    wf_list q' \<and> elems q' = butlast (elems q)"
proof -
  from assms obtain cs where rep: "dl_rep q cs" and e: "elems q = map snd cs"
    by (auto elim: wf_listE)
  show ?thesis
  proof (cases cs rule: rev_cases)
    case Nil
    with rep e assms show ?thesis by (simp add: dlist_pop_right_def dlist_empty_rep)
  next
    case (snoc ds c)
    obtain a x where c: "c = (a, x)" by (cases c)
    with rep snoc dlist_pop_right_rep obtain q' where "dlist_pop_right q = Inr (x, q')" "dl_rep q' ds"
      by blast
    with e snoc c wf_listI show ?thesis by auto
  qed
qed

text \<open>Searching with an arbitrary callback, on the contents.\<close>

lemma find_remove_elems_miss:
  assumes "wf_list q" and "\<forall>x \<in> set (elems q). misses cmp data ud x"
  shows "dlist_find_remove q data cmp ud = Inr (None, q)"
  using assms find_remove_miss by (fastforce elim!: wf_listE)

lemma find_remove_elems_hit:
  assumes "wf_list q" and i: "i < length (elems q)" and hit: "\<not> misses cmp data ud (elems q ! i)"
    and skip: "\<forall>j < i. misses cmp data ud (elems q ! j)"
  shows "\<exists>q'. dlist_find_remove q data cmp ud = Inr (elems q ! i, q') \<and> wf_list q' \<and>
    elems q' = take i (elems q) @ drop (Suc i) (elems q)"
proof -
  from assms(1) obtain cs where rep: "dl_rep q cs" and e: "elems q = map snd cs"
    by (auto elim: wf_listE)
  obtain a x where c: "cs ! i = (a, x)" by (cases "cs ! i")
  from i e have len: "i < length cs" by simp
  then have split: "cs = take i cs @ (a, x) # drop (Suc i) cs"
    using id_take_nth_drop [of i cs] c by simp
  have "\<forall>z \<in> snd ` set (take i cs). misses cmp data ud z"
    using skip e len by (auto simp: in_set_conv_nth) (metis less_trans nth_map snd_conv)
  moreover have "\<not> misses cmp data ud x" using hit e len c by simp
  ultimately obtain q' where "dlist_find_remove q data cmp ud = Inr (x, q')"
    "dl_rep q' (take i cs @ drop (Suc i) cs)"
    using find_remove_hit rep split by metis
  with e len c wf_listI show ?thesis by (auto simp: take_map drop_map)
qed

lemma dlist_empty_elems: "wf_list q \<Longrightarrow> dlist_empty q = Inr (elems q = [])"
  by (auto elim!: wf_listE simp: dlist_empty_rep)

interpretation lq: thread_queue wf_list elems fresh_in dlist_push_right dlist_pop_left dlist_empty
  "\<lambda>q t. dlist_find_remove q t same_ptr None"
  by unfold_locales
    (simp_all add: dlist_push_elems dlist_pop_elems_nil dlist_pop_elems_cons dlist_empty_elems
      find_remove_same_hit find_remove_same_miss fresh_exists)

section \<open>An allocator\<close>

text \<open>
  What the library relies on of \<open>malloc\<close>: on a list of the right shape it returns an
  address that no node of the list has.  \<open>first_free\<close> is a concrete allocator with
  that behaviour: among the first \<open>count + 1\<close> addresses one is free.
\<close>

definition good_malloc :: "(dlist \<Rightarrow> ptr) \<Rightarrow> bool" where
  "good_malloc m \<longleftrightarrow> (\<forall>q. wf_list q \<longrightarrow> (\<exists>a. m q = Some a \<and> fresh_in q a))"

definition first_free :: "dlist \<Rightarrow> ptr" where
  "first_free q = find (\<lambda>a. dl_nodes q a = None) [0..<Suc (nat (dl_count q))]"

lemma good_first_free: "good_malloc first_free"
proof -
  have "\<exists>a. first_free q = Some a \<and> fresh_in q a" if "wf_list q" for q
  proof -
    from that obtain cs where rep: "dl_rep q cs" by (auto simp: wf_list_def)
    then have "card (dom (dl_nodes q)) \<le> length cs"
      using card_length [of "map fst cs"] by (simp add: dl_rep_def)
    moreover have "finite (dom (dl_nodes q))" using rep by (simp add: dl_rep_def)
    ultimately have "\<not> {0..<Suc (length cs)} \<subseteq> dom (dl_nodes q)"
      using card_mono [of "dom (dl_nodes q)" "{0..<Suc (length cs)}"] by auto
    then obtain b where "b \<in> {0..<Suc (length cs)}" and "b \<notin> dom (dl_nodes q)" by blast
    moreover have "nat (dl_count q) = length cs" using rep by (simp add: dl_rep_def)
    ultimately have "\<exists>a \<in> set [0..<Suc (nat (dl_count q))]. dl_nodes q a = None"
      unfolding set_upt by (auto simp: domIff)
    then have "first_free q \<noteq> None" unfolding first_free_def find_None_iff by blast
    then obtain a where "first_free q = Some a" by blast
    then show ?thesis by (auto simp: first_free_def fresh_in_def find_Some_iff)
  qed
  then show ?thesis by (simp add: good_malloc_def)
qed

lemma push_malloc:
  assumes "good_malloc m" and "wf_list q"
  obtains q' where "dlist_push_right (m q) q x = Inr (x, q')" and "wf_list q'"
    and "elems q' = elems q @ [x]"
  using assms lq.push unfolding good_malloc_def by metis

end
