(* ===== verification/Sched_Correct.thy ===== *)
theory Sched_Correct
  imports Sched DList_Correct
begin

text \<open>
  Correctness of \<open>TP 1/dccthread.c\<close>.  The three lists are read through \<open>elems\<close>, so
  every fact about them comes from the interpretation \<open>lq\<close> of the list interface.
  First the operations never fault on well-formed states (\<open>sched_wf\<close>) and keep
  them well-formed; the one exception, a manager that finds no ready thread while
  threads sleep, is stated exactly.  Then: no thread is in two places at once as
  long as every alarm finds its thread asleep; waiting; what the manager loop does
  with blocked threads; and the states in which it never returns.
\<close>

section \<open>List helpers of the library\<close>

lemma dccthread_compare_same: "dccthread_compare = same_ptr"
  by (simp add: fun_eq_iff dccthread_compare_def same_ptr_def)

lemma nwaiting_loop_rep:
  "dseg (dl_nodes q) p cs None \<Longrightarrow>
   nwaiting_loop q (first cs None) k = Some (Inr (k + int (length cs)))"
proof (induction cs arbitrary: p k)
  case Nil
  then show ?case by (simp add: nwaiting_loop.simps)
next
  case (Cons c cs)
  obtain a x where "c = (a, x)" by (cases c)
  with Cons show ?case by (subst nwaiting_loop.simps) auto
qed

lemma nwaiting_eq:
  "wf_list (waiting s) \<Longrightarrow> dccthread_nwaiting s = Inr (int (length (elems (waiting s))))"
  by (auto elim!: wf_listE simp: dccthread_nwaiting_def dl_rep_def nwaiting_loop_rep)

lemma in_list_loop_rep:
  "dseg (dl_nodes q) p cs None \<Longrightarrow>
   in_list_loop q t (first cs None) = Some (Inr (t \<in> set (map snd cs)))"
proof (induction cs arbitrary: p)
  case Nil
  then show ?case by (simp add: in_list_loop.simps)
next
  case (Cons c cs)
  obtain a x where "c = (a, x)" by (cases c)
  with Cons show ?case by (subst in_list_loop.simps) auto
qed

lemma is_thread_in_list_eq: "wf_list q \<Longrightarrow> is_thread_in_list q t = Inr (t \<in> set (elems q))"
  by (erule wf_listE) (auto simp: is_thread_in_list_def dl_rep_def in_list_loop_rep)

section \<open>Well-formed states\<close>

definition valid :: "sched \<Rightarrow> ptr \<Rightarrow> bool" where
  "valid s p \<longleftrightarrow> (\<exists>a. p = Some a \<and> threads s a \<noteq> None)"

definition sched_wf :: "sched \<Rightarrow> bool" where
  "sched_wf s \<longleftrightarrow>
     wf_list (ready s) \<and> wf_list (waiting s) \<and> wf_list (finished s) \<and>
     (\<forall>p \<in> set (elems (ready s)) \<union> set (elems (waiting s)) \<union> set (elems (finished s)). valid s p) \<and>
     (\<forall>i tm. timers s i = Some tm \<longrightarrow> valid s (target tm)) \<and>
     (cpu s \<noteq> Manager \<longrightarrow> valid s (main_thread s))"

lemma valid_iff: "valid s p \<longleftrightarrow> p \<in> Some ` dom (threads s)"
  by (auto simp: valid_def)

lemma sched_wfD:
  assumes "sched_wf s"
  shows "wf_list (ready s)" and "wf_list (waiting s)" and "wf_list (finished s)"
    and "p \<in> set (elems (ready s)) \<Longrightarrow> valid s p" and "p \<in> set (elems (waiting s)) \<Longrightarrow> valid s p"
    and "p \<in> set (elems (finished s)) \<Longrightarrow> valid s p"
    and "timers s i = Some tm \<Longrightarrow> valid s (target tm)"
    and "cpu s \<noteq> Manager \<Longrightarrow> valid s (main_thread s)"
  using assms by (auto simp: sched_wf_def)

lemma load_thread_valid: "valid s p \<Longrightarrow> \<exists>t. load_thread s p = Inr t"
  by (auto simp: valid_def load_thread_def)

lemma load_thread_Some:
  "load_thread s p = Inr t \<longleftrightarrow> (\<exists>a. p = Some a \<and> threads s a = Some t)"
  by (cases p) (auto simp: load_thread_def split: option.splits)

lemma load_thread_ok [simp]: "threads s a = Some t \<Longrightarrow> load_thread s (Some a) = Inr t"
  by (simp add: load_thread_def)

lemma store_thread_ok [simp]:
  "threads s a = Some t \<Longrightarrow>
   store_thread (Some a) f s = Inr (s\<lparr>threads := (threads s)(a \<mapsto> f t)\<rparr>)"
  by (simp add: store_thread_def)

lemma swap_to_manager_ok [simp]:
  "threads s a = Some t \<Longrightarrow> swap_to_manager (Some a) r s =
     Inr (s\<lparr>threads := (threads s)(a \<mapsto> t\<lparr>th_context := \<lparr>resume_at = r, uc_sigmask = sigs s\<rparr>\<rparr>),
             sigs := mgr_sigs s, cpu := Manager\<rparr>)"
  by (simp add: swap_to_manager_def)

lemma swap_to_thread_ok [simp]:
  "main_thread s = Some a \<Longrightarrow> threads s a = Some t \<Longrightarrow> swap_to_thread s =
     Inr (s\<lparr>mgr_sigs := sigs s, sigs := uc_sigmask (th_context t),
             cpu := (if resume_at (th_context t) = Entry then Running else Resuming)\<rparr>)"
  by (simp add: swap_to_thread_def)

lemma validE:
  assumes "valid s p"
  obtains a t where "p = Some a" and "threads s a = Some t"
  using assms by (auto simp: valid_def)

lemma store_thread_valid:
  "valid s p \<Longrightarrow> \<exists>a t. p = Some a \<and> threads s a = Some t \<and>
     store_thread p f s = Inr (s\<lparr>threads := (threads s)(a \<mapsto> f t)\<rparr>)"
  by (auto simp: valid_def store_thread_def)

lemma nexited_loop_rep:
  "dseg (dl_nodes (finished s)) p cs None \<Longrightarrow> \<forall>x \<in> set (map snd cs). valid s x \<Longrightarrow>
   nexited_loop s (first cs None) k = Some (Inr (k + int (length
     (filter (\<lambda>x. \<exists>a t. x = Some a \<and> threads s a = Some t \<and> has_waited t = 0) (map snd cs)))))"
proof (induction cs arbitrary: p k)
  case Nil
  then show ?case by (simp add: nexited_loop.simps)
next
  case (Cons c cs)
  obtain a x where c: "c = (a, x)" by (cases c)
  with Cons.prems obtain b t where b: "x = Some b" "threads s b = Some t"
    by (auto simp: valid_def)
  with Cons c show ?case by (subst nexited_loop.simps) (auto simp: load_thread_def)
qed

lemma nexited_eq:
  assumes "sched_wf s"
  shows "dccthread_nexited s = Inr (int (length
     (filter (\<lambda>x. \<exists>a t. x = Some a \<and> threads s a = Some t \<and> has_waited t = 0)
       (elems (finished s)))))"
proof -
  from assms obtain cs where rep: "dl_rep (finished s) cs" and el: "elems (finished s) = map snd cs"
    and v: "\<forall>x \<in> set (map snd cs). valid s x"
    by (auto simp: sched_wf_def elim!: wf_listE)
  from rep have seg: "dseg (dl_nodes (finished s)) None cs None"
    and h: "dl_head (finished s) = first cs None" by (simp_all add: dl_rep_def)
  show ?thesis
    unfolding dccthread_nexited_def h nexited_loop_rep [OF seg v] el by simp
qed

lemmas mask_defs = block_mask_def unblock_mask_def block_mask_sleep_def unblock_mask_sleep_def
lemmas switch_defs = swap_to_manager_def swap_to_thread_def dccthread_self_def Let_def mask_defs

lemma valid_upd [simp]:
  "valid (s\<lparr>ready := q\<rparr>) p = valid s p" "valid (s\<lparr>waiting := q\<rparr>) p = valid s p"
  "valid (s\<lparr>finished := q\<rparr>) p = valid s p" "valid (s\<lparr>sigs := m\<rparr>) p = valid s p"
  "valid (s\<lparr>mgr_sigs := m\<rparr>) p = valid s p" "valid (s\<lparr>cpu := c\<rparr>) p = valid s p"
  "valid (s\<lparr>main_thread := t\<rparr>) p = valid s p" "valid (s\<lparr>timers := ti\<rparr>) p = valid s p"
  by (simp_all add: valid_def)

lemma valid_threads_upd: "valid s p \<Longrightarrow> valid (s\<lparr>threads := (threads s)(a \<mapsto> t)\<rparr>) p"
  by (auto simp: valid_def)

section \<open>Where the threads are\<close>

text \<open>
  The abstract state of the scheduler: the three lists as lists, the current thread
  and who runs.  Each operation of the library is refined by one on this state.
\<close>

record places =
  p_ready :: "ptr list"
  p_waiting :: "ptr list"
  p_finished :: "ptr list"
  p_main :: ptr
  p_cpu :: cpu

definition places :: "sched \<Rightarrow> places" where
  "places s = \<lparr>p_ready = elems (ready s), p_waiting = elems (waiting s),
               p_finished = elems (finished s), p_main = main_thread s, p_cpu = cpu s\<rparr>"

definition a_create :: "ptr \<Rightarrow> places \<Rightarrow> places" where
  "a_create t v = v\<lparr>p_ready := p_ready v @ [t]\<rparr>"

definition a_yield :: "places \<Rightarrow> places" where
  "a_yield v = v\<lparr>p_ready := p_ready v @ [p_main v], p_cpu := Manager\<rparr>"

definition a_exit :: "places \<Rightarrow> places" where
  "a_exit v = v\<lparr>p_finished := p_finished v @ [p_main v], p_cpu := Manager\<rparr>"

definition a_sleep :: "places \<Rightarrow> places" where
  "a_sleep v = v\<lparr>p_waiting := p_waiting v @ [p_main v], p_cpu := Manager\<rparr>"

definition a_wakeup :: "ptr \<Rightarrow> places \<Rightarrow> places" where
  "a_wakeup t v = v\<lparr>p_ready := p_ready v @ [t], p_waiting := remove1 t (p_waiting v)\<rparr>"

lemmas places_defs = places_def a_create_def a_yield_def a_exit_def a_sleep_def a_wakeup_def

lemma create_refines:
  assumes wf: "sched_wf s" and m: "good_malloc m" and n: "length name < MAX_NAME_SIZE"
    and a: "threads s a = None"
  shows "\<exists>s'. dccthread_create m (Some a) name s = Inr (Some a, s') \<and> sched_wf s' \<and>
    places s' = a_create (Some a) (places s) \<and> timers s' = timers s"
proof -
  obtain q where q: "dlist_push_right (m (ready s)) (ready s) (Some a) = Inr (Some a, q)"
    "wf_list q" "elems q = elems (ready s) @ [Some a]"
    by (rule push_malloc [OF m sched_wfD(1) [OF wf]])
  with wf n show ?thesis
    by (auto simp: dccthread_create_def Let_def mask_defs sched_wf_def places_defs valid_iff)
qed

lemma yield_refines:
  assumes wf: "sched_wf s" and m: "good_malloc m" and c: "cpu s \<noteq> Manager"
  shows "\<exists>s'. dccthread_yield m s = Inr s' \<and> sched_wf s' \<and> places s' = a_yield (places s) \<and>
    timers s' = timers s"
proof -
  obtain q where
    q: "dlist_push_right (m (ready s)) (ready s) (main_thread s) = Inr (main_thread s, q)"
    "wf_list q" "elems q = elems (ready s) @ [main_thread s]"
    by (rule push_malloc [OF m sched_wfD(1) [OF wf]])
  obtain a t where a: "main_thread s = Some a" "threads s a = Some t"
    using sched_wfD(8) [OF wf c] by (rule validE)
  with wf q show ?thesis
    by (simp add: dccthread_yield_def dccthread_self_def block_mask_def Let_def sched_wf_def
        places_defs valid_iff)
qed

lemma exit_refines:
  assumes wf: "sched_wf s" and m: "good_malloc m" and c: "cpu s \<noteq> Manager"
  shows "\<exists>s'. dccthread_exit m s = Inr s' \<and> sched_wf s' \<and> places s' = a_exit (places s) \<and>
    timers s' = timers s"
proof -
  obtain q where
    q: "dlist_push_right (m (finished s)) (finished s) (main_thread s) = Inr (main_thread s, q)"
    "wf_list q" "elems q = elems (finished s) @ [main_thread s]"
    by (rule push_malloc [OF m sched_wfD(3) [OF wf]])
  obtain a t where a: "main_thread s = Some a" "threads s a = Some t"
    using sched_wfD(8) [OF wf c] by (rule validE)
  with wf q show ?thesis
    by (simp add: dccthread_exit_def dccthread_self_def block_mask_def Let_def sched_wf_def
        places_defs valid_iff)
qed

lemma sleep_refines:
  assumes wf: "sched_wf s" and m: "good_malloc m" and c: "cpu s \<noteq> Manager"
  shows "\<exists>s'. dccthread_sleep m i ts s = Inr s' \<and> sched_wf s' \<and> places s' = a_sleep (places s) \<and>
    timers s' = (timers s)(i \<mapsto> \<lparr>target = main_thread s, armed = timer_arms ts\<rparr>)"
proof -
  obtain q where
    q: "dlist_push_right (m (waiting s)) (waiting s) (main_thread s) = Inr (main_thread s, q)"
    "wf_list q" "elems q = elems (waiting s) @ [main_thread s]"
    by (rule push_malloc [OF m sched_wfD(2) [OF wf]])
  obtain a t where a: "main_thread s = Some a" "threads s a = Some t"
    using sched_wfD(8) [OF wf c] by (rule validE)
  with wf q show ?thesis
    by (simp add: dccthread_sleep_def timer_sleep_init_def dccthread_self_def block_mask_def Let_def sched_wf_def
        places_defs valid_iff)
qed

lemma wait_refines:
  assumes wf: "sched_wf s" and m: "good_malloc m" and c: "cpu s \<noteq> Manager"
    and t: "valid s tid"
  shows "\<exists>s'. dccthread_wait m tid s = Inr s' \<and> sched_wf s' \<and> places s' = a_yield (places s) \<and>
    timers s' = timers s"
proof -
  obtain q where
    q: "dlist_push_right (m (ready s)) (ready s) (main_thread s) = Inr (main_thread s, q)"
    "wf_list q" "elems q = elems (ready s) @ [main_thread s]"
    by (rule push_malloc [OF m sched_wfD(1) [OF wf]])
  obtain a t where a: "main_thread s = Some a" "threads s a = Some t"
    using sched_wfD(8) [OF wf c] by (rule validE)
  obtain b u where b: "tid = Some b" "threads s b = Some u" using t by (rule validE)
  from a b wf q show ?thesis
    by (cases "a = b") (auto simp: dccthread_wait_def dccthread_self_def block_mask_def Let_def
        sched_wf_def places_defs valid_iff)
qed

lemma wakeup_refines:
  assumes wf: "sched_wf s" and m: "good_malloc m" and t: "valid s t"
  shows "\<exists>s'. dccthread_wakeup m t s = Inr s' \<and> sched_wf s' \<and> places s' = a_wakeup t (places s) \<and>
    timers s' = timers s \<and> threads s' = threads s \<and> sigs s' = sigs s \<and> mgr_sigs s' = mgr_sigs s"
proof -
  from t obtain a where a: "t = Some a" by (auto simp: valid_def)
  from wf have w: "wf_list (waiting s)" and r: "wf_list (ready s)" by (simp_all add: sched_wf_def)
  from lq.remove_all [OF w, of a] obtain x w' where
    w': "dlist_find_remove (waiting s) t same_ptr None = Inr (x, w')"
    "wf_list w'" "elems w' = remove1 t (elems (waiting s))" using a by auto
  obtain q where q: "dlist_push_right (m (ready s)) (ready s) t = Inr (t, q)"
    "wf_list q" "elems q = elems (ready s) @ [t]"
    by (rule push_malloc [OF m r])
  from w' q wf t show ?thesis
    by (auto simp: dccthread_wakeup_def dccthread_compare_same sched_wf_def places_defs
        dest: in_set_remove1 notin_set_remove1 set_remove1_subset [THEN subsetD])
qed

lemma resume_refines:
  assumes wf: "sched_wf s" and c: "cpu s \<noteq> Manager"
  shows "\<exists>s' t. load_thread s (main_thread s) = Inr t \<and> resume_thread s = Inr s' \<and> sched_wf s' \<and>
    places s' = (places s)\<lparr>p_cpu := (if resume_at (th_context t) = After_Exit then Manager else Running)\<rparr>"
proof -
  obtain t where "load_thread s (main_thread s) = Inr t"
    using load_thread_valid [OF sched_wfD(8) [OF wf c]] by blast
  with wf c show ?thesis
    by (cases "resume_at (th_context t)")
      (auto simp: resume_thread_def unblock_mask_def sched_wf_def places_def)
qed

section \<open>The manager's turn\<close>

fun a_deliver :: "(nat \<rightharpoonup> sleep_timer) \<Rightarrow> nat list \<Rightarrow> places \<Rightarrow> places" where
  "a_deliver ts [] v = v"
| "a_deliver ts (i # fires) v =
     (case ts i of None \<Rightarrow> a_deliver ts fires v
      | Some tm \<Rightarrow> if armed tm then a_deliver ts fires (a_wakeup (target tm) v)
                  else a_deliver ts fires v)"

lemma deliver_refines:
  assumes "sched_wf s" and m: "good_malloc m"
  shows "\<exists>s'. deliver m fires s = Inr s' \<and> sched_wf s' \<and>
    places s' = a_deliver (timers s) fires (places s) \<and>
    timers s' = timers s \<and> threads s' = threads s \<and> sigs s' = sigs s \<and> mgr_sigs s' = mgr_sigs s"
  using assms(1)
proof (induction fires arbitrary: s)
  case Nil
  then show ?case by simp
next
  case (Cons i fires)
  show ?case
  proof (cases "\<exists>tm. timers s i = Some tm \<and> armed tm")
    case False
    with Cons show ?thesis by (auto split: option.splits)
  next
    case True
    then obtain tm where tm: "timers s i = Some tm" "armed tm" by blast
    from wakeup_refines [OF Cons.prems m sched_wfD(7) [OF Cons.prems tm(1)]] obtain s1 where
      s1: "dccthread_wakeup m (target tm) s = Inr s1" "sched_wf s1"
      "places s1 = a_wakeup (target tm) (places s)" "timers s1 = timers s" "threads s1 = threads s"
      "sigs s1 = sigs s" "mgr_sigs s1 = mgr_sigs s" by blast
    from Cons.IH [OF s1(2)] tm s1 show ?thesis by auto
  qed
qed

text \<open>The state after the alarms of the turn, and the thread that is held back in it.\<close>

definition after_alarms :: "nat list \<Rightarrow> sched \<Rightarrow> places" where
  "after_alarms fires s = a_deliver (timers s) fires (places s)"

definition held :: "sched \<Rightarrow> ptr \<Rightarrow> ptr list \<Rightarrow> ptr list \<Rightarrow> bool" where
  "held s t rs ws \<longleftrightarrow> (\<exists>a th. t = Some a \<and> threads s a = Some th \<and> waiting_for th \<noteq> None \<and>
     waiting_for th \<in> set rs \<union> set ws)"

lemma loop_test_eq:
  "sched_wf s \<Longrightarrow> loop_test s = Inr (p_ready (places s) \<noteq> [] \<or> p_waiting (places s) \<noteq> [])"
  by (simp add: loop_test_def dlist_empty_elems sched_wfD places_def)

text \<open>The turn up to \<open>pick_thread\<close>: the state in which the next thread is taken.\<close>

lemma manager_turn_cases:
  assumes wf: "sched_wf s" and m: "good_malloc m"
  obtains (stop) "p_ready (places s) = []" "p_waiting (places s) = []"
      "manager_turn m fires s = Inr (Stop, s)"
  | (pick) s2 where "p_ready (places s) \<noteq> [] \<or> p_waiting (places s) \<noteq> []"
      "manager_turn m fires s = pick_thread m s2" "sched_wf s2"
      "places s2 = after_alarms fires s" "threads s2 = threads s" "timers s2 = timers s"
      "sigs s2 = (sigs s)\<lparr>blk_max := True\<rparr>"
proof (cases "p_ready (places s) \<noteq> [] \<or> p_waiting (places s) \<noteq> []")
  case False
  then show thesis using stop by (simp add: manager_turn_def loop_test_eq [OF wf])
next
  case True
  have wf': "sched_wf (unblock_mask_sleep s)"
    using wf by (simp add: unblock_mask_sleep_def sched_wf_def)
  have same: "places (unblock_mask_sleep s) = places s" "timers (unblock_mask_sleep s) = timers s"
    "threads (unblock_mask_sleep s) = threads s"
    by (simp_all add: unblock_mask_sleep_def places_def)
  from deliver_refines [OF wf' m, of fires] obtain s1 where
    s1: "deliver m fires (unblock_mask_sleep s) = Inr s1" "sched_wf s1"
      "places s1 = after_alarms fires s" "timers s1 = timers s" "threads s1 = threads s"
      "sigs s1 = sigs (unblock_mask_sleep s)"
    by (auto simp: same after_alarms_def)
  show thesis
  proof (rule pick [OF True, of "block_mask_sleep s1"])
    show "manager_turn m fires s = pick_thread m (block_mask_sleep s1)"
      using True s1(1) by (simp add: manager_turn_def loop_test_eq [OF wf])
  qed (use s1 in \<open>simp_all add: block_mask_sleep_def unblock_mask_sleep_def sched_wf_def places_def\<close>)
qed

text \<open>What \<open>pick_thread\<close> does, in the three cases of the ready list's front.\<close>

lemma pick_thread_none:
  assumes "sched_wf s" and "p_ready (places s) = []"
  shows "pick_thread m s = Inl Null_Deref"
  using lq.pop_nil [OF sched_wfD(1) [OF assms(1)]] assms(2)
  by (simp add: pick_thread_def places_def load_thread_def)

lemma pick_thread_held:
  assumes wf: "sched_wf s" and m: "good_malloc m"
    and front: "p_ready (places s) = t # rs" and held: "held s t rs (p_waiting (places s))"
  shows "\<exists>s'. pick_thread m s = Inr (Again, s') \<and> sched_wf s' \<and> threads s' = threads s \<and>
    timers s' = timers s \<and> sigs s' = sigs s \<and> mgr_sigs s' = mgr_sigs s \<and>
    places s' = (places s)\<lparr>p_ready := rs @ [t], p_main := t\<rparr>"
proof -
  from front have "elems (ready s) = t # rs" by (simp add: places_def)
  with sched_wfD(1) [OF wf] obtain q where q: "dlist_pop_left (ready s) = Inr (t, q)"
    "wf_list q" "elems q = rs" using lq.pop_cons by blast
  obtain q' where q': "dlist_push_right (m q) q t = Inr (t, q')" "wf_list q'" "elems q' = rs @ [t]"
    using q by (auto elim: push_malloc [OF m])
  from held obtain a th where th: "t = Some a" "threads s a = Some th" "waiting_for th \<noteq> None"
    "waiting_for th \<in> set rs \<union> set (elems (waiting s))" by (auto simp: held_def places_def)
  have v: "valid s t" using th by (simp add: valid_def)
  from q q' th wf v front show ?thesis
    by (auto simp: pick_thread_def Let_def is_thread_in_list_eq sched_wf_def places_def)
qed

lemma pick_thread_dispatch:
  assumes wf: "sched_wf s" and m: "good_malloc m"
    and front: "p_ready (places s) = t # rs" and nheld: "\<not> held s t rs (p_waiting (places s))"
  shows "\<exists>s' a th. pick_thread m s = Inr (Dispatch, s') \<and> sched_wf s' \<and> t = Some a \<and>
    threads s a = Some th \<and> threads s' = (threads s)(a \<mapsto> th\<lparr>waiting_for := None\<rparr>) \<and>
    timers s' = timers s \<and> mgr_sigs s' = sigs s \<and> sigs s' = uc_sigmask (th_context th) \<and>
    places s' = (places s)\<lparr>p_ready := rs, p_main := t,
      p_cpu := (if resume_at (th_context th) = Entry then Running else Resuming)\<rparr>"
proof -
  from front have el: "elems (ready s) = t # rs" by (simp add: places_def)
  with sched_wfD(1) [OF wf] obtain q where q: "dlist_pop_left (ready s) = Inr (t, q)"
    "wf_list q" "elems q = rs" using lq.pop_cons by blast
  have v: "valid s t" using sched_wfD(4) [OF wf] el by simp
  then obtain a th where th: "t = Some a" "threads s a = Some th" by (rule validE)
  have same: "(threads s)(a \<mapsto> th\<lparr>waiting_for := None\<rparr>) = threads s" if "waiting_for th = None"
    using that th(2) by (cases th) (auto simp: fun_eq_iff)
  show ?thesis
  proof (cases "waiting_for th")
    case None
    with q th wf v el same show ?thesis
      by (auto simp: pick_thread_def sched_wf_def places_def valid_iff)
  next
    case (Some w)
    with nheld th have "waiting_for th \<notin> set rs \<union> set (elems (waiting s))"
      by (auto simp: held_def places_def)
    with Some q th wf v el show ?thesis
      by (auto simp: pick_thread_def Let_def is_thread_in_list_eq sched_wf_def places_def valid_iff)
  qed
qed

text \<open>The turn as a whole, over the state after its alarms.\<close>

lemma manager_turn_Dispatch:
  assumes wf: "sched_wf s" and m: "good_malloc m" and turn: "manager_turn m fires s = Inr (Dispatch, s')"
  obtains t rs a th where "p_ready (after_alarms fires s) = t # rs"
    and "\<not> held s t rs (p_waiting (after_alarms fires s))"
    and "sched_wf s'" and "t = Some a" and "threads s a = Some th"
    and "threads s' = (threads s)(a \<mapsto> th\<lparr>waiting_for := None\<rparr>)" and "timers s' = timers s"
    and "mgr_sigs s' = (sigs s)\<lparr>blk_max := True\<rparr>" and "sigs s' = uc_sigmask (th_context th)"
    and "places s' = (after_alarms fires s)\<lparr>p_ready := rs, p_main := t,
      p_cpu := (if resume_at (th_context th) = Entry then Running else Resuming)\<rparr>"
proof (rule manager_turn_cases [OF wf m, of fires])
  assume "manager_turn m fires s = Inr (Stop, s)"
  with turn show thesis by simp
next
  fix s2
  assume s2: "manager_turn m fires s = pick_thread m s2" "sched_wf s2"
    "places s2 = after_alarms fires s" "threads s2 = threads s" "timers s2 = timers s"
    "sigs s2 = (sigs s)\<lparr>blk_max := True\<rparr>"
  show thesis
  proof (cases "p_ready (places s2)")
    case Nil
    with s2 turn pick_thread_none show thesis by simp
  next
    case (Cons t rs)
    have "held s t rs ws = held s2 t rs ws" for ws using s2(4) by (simp add: held_def)
    with pick_thread_held [OF s2(2) m Cons] pick_thread_dispatch [OF s2(2) m Cons] s2 turn Cons
    show thesis by (cases "held s2 t rs (p_waiting (places s2))") (auto intro: that)
  qed
qed

lemma manager_turn_Again:
  assumes wf: "sched_wf s" and m: "good_malloc m" and turn: "manager_turn m fires s = Inr (Again, s')"
  obtains t rs where "p_ready (after_alarms fires s) = t # rs"
    and "held s t rs (p_waiting (after_alarms fires s))"
    and "sched_wf s'" and "threads s' = threads s" and "timers s' = timers s"
    and "sigs s' = (sigs s)\<lparr>blk_max := True\<rparr>"
    and "places s' = (after_alarms fires s)\<lparr>p_ready := rs @ [t], p_main := t\<rparr>"
proof (rule manager_turn_cases [OF wf m, of fires])
  assume "manager_turn m fires s = Inr (Stop, s)"
  with turn show thesis by simp
next
  fix s2
  assume s2: "manager_turn m fires s = pick_thread m s2" "sched_wf s2"
    "places s2 = after_alarms fires s" "threads s2 = threads s" "timers s2 = timers s"
    "sigs s2 = (sigs s)\<lparr>blk_max := True\<rparr>"
  show thesis
  proof (cases "p_ready (places s2)")
    case Nil
    with s2 turn pick_thread_none show thesis by simp
  next
    case (Cons t rs)
    have "held s t rs ws = held s2 t rs ws" for ws using s2(4) by (simp add: held_def)
    with pick_thread_held [OF s2(2) m Cons] pick_thread_dispatch [OF s2(2) m Cons] s2 turn Cons
    show thesis by (cases "held s2 t rs (p_waiting (places s2))") (auto intro: that)
  qed
qed

lemma manager_turn_Stop:
  assumes wf: "sched_wf s" and m: "good_malloc m" and turn: "manager_turn m fires s = Inr (Stop, s')"
  shows "s' = s \<and> p_ready (places s) = [] \<and> p_waiting (places s) = []"
proof (rule manager_turn_cases [OF wf m, of fires])
  fix s2
  assume s2: "manager_turn m fires s = pick_thread m s2" "sched_wf s2"
  show ?thesis
  proof (cases "p_ready (places s2)")
    case Nil
    with s2 turn pick_thread_none show ?thesis by simp
  next
    case (Cons t rs)
    with pick_thread_held [OF s2(2) m Cons] pick_thread_dispatch [OF s2(2) m Cons] s2 turn
    show ?thesis by (cases "held s2 t rs (p_waiting (places s2))") auto
  qed
qed (use turn in simp)

text \<open>Alarms only ever add to the ready list.\<close>

lemma a_deliver_ready: "\<exists>xs. p_ready (a_deliver ts fires v) = p_ready v @ xs"
proof (induction ts fires v rule: a_deliver.induct)
  case (1 ts v)
  then show ?case by simp
next
  case (2 ts i fires v)
  then show ?case by (auto split: option.splits simp: a_wakeup_def)
qed

lemma a_deliver_ready_nil:
  "p_ready (a_deliver ts fires v) = [] \<longleftrightarrow>
   p_ready v = [] \<and> (\<forall>i \<in> set fires. \<forall>tm. ts i = Some tm \<longrightarrow> \<not> armed tm)"
proof (induction ts fires v rule: a_deliver.induct)
  case (1 ts v)
  then show ?case by simp
next
  case (2 ts i fires v)
  then show ?case by (auto split: option.splits simp: a_wakeup_def)
qed

lemma manager_turn_fault:
  assumes wf: "sched_wf s" and m: "good_malloc m"
  shows "manager_turn m fires s = Inl e \<longleftrightarrow>
    e = Null_Deref \<and> p_waiting (places s) \<noteq> [] \<and> p_ready (after_alarms fires s) = []"
proof (rule manager_turn_cases [OF wf m, of fires])
  fix s2
  assume go: "p_ready (places s) \<noteq> [] \<or> p_waiting (places s) \<noteq> []"
    and s2: "manager_turn m fires s = pick_thread m s2" "sched_wf s2"
    "places s2 = after_alarms fires s"
  show ?thesis
  proof (cases "p_ready (places s2)")
    case Nil
    with s2(3) have "p_ready (places s) = []"
      using a_deliver_ready_nil by (metis after_alarms_def)
    with go s2 Nil pick_thread_none [OF s2(2) Nil] show ?thesis by auto
  next
    case (Cons t rs)
    with pick_thread_held [OF s2(2) m Cons] pick_thread_dispatch [OF s2(2) m Cons] s2
    show ?thesis by (cases "held s2 t rs (p_waiting (places s2))") auto
  qed
qed simp

section \<open>One place for every thread\<close>

definition placed_once :: "places \<Rightarrow> bool" where
  "placed_once v \<longleftrightarrow> distinct (p_ready v @ p_waiting v @ p_finished v @
     (if p_cpu v = Manager then [] else [p_main v]))"

text \<open>Every alarm of a sequence finds its thread on the waiting list.\<close>

fun orderly :: "(nat \<rightharpoonup> sleep_timer) \<Rightarrow> nat list \<Rightarrow> places \<Rightarrow> bool" where
  "orderly ts [] v = True"
| "orderly ts (i # fires) v =
     (case ts i of None \<Rightarrow> orderly ts fires v
      | Some tm \<Rightarrow> if armed tm
          then target tm \<in> set (p_waiting v) \<and> orderly ts fires (a_wakeup (target tm) v)
          else orderly ts fires v)"

fun orderly_event :: "sched \<Rightarrow> event \<Rightarrow> bool" where
  "orderly_event s (Ev_Manager fires o1) = orderly (timers s) fires (places s)"
| "orderly_event s (Ev_Alarm i) = orderly (timers s) [i] (places s)"
| "orderly_event s _ = True"

lemma placed_once_wakeup:
  "placed_once v \<Longrightarrow> t \<in> set (p_waiting v) \<Longrightarrow> placed_once (a_wakeup t v)"
  by (auto simp: placed_once_def a_wakeup_def)

lemma placed_once_deliver:
  "placed_once v \<Longrightarrow> orderly ts fires v \<Longrightarrow> placed_once (a_deliver ts fires v)"
proof (induction ts fires v rule: a_deliver.induct)
  case (1 ts v)
  then show ?case by simp
next
  case (2 ts i fires v)
  then show ?case by (auto split: option.splits if_splits simp: placed_once_wakeup)
qed

lemma a_deliver_frame [simp]:
  "p_finished (a_deliver ts fires v) = p_finished v" "p_main (a_deliver ts fires v) = p_main v"
  "p_cpu (a_deliver ts fires v) = p_cpu v"
  by (induction ts fires v rule: a_deliver.induct)
    (auto split: option.splits simp: a_wakeup_def)

lemma create_name: "dccthread_create m (Some a) name s = Inr r \<Longrightarrow> length name < MAX_NAME_SIZE"
  by (auto simp: dccthread_create_def Let_def rbind_eq_Inr)

lemma wait_valid: "dccthread_wait m (Some a) s = Inr s' \<Longrightarrow> valid s (Some a)"
  by (auto simp: dccthread_wait_def Let_def rbind_eq_Inr store_thread_def valid_def mask_defs
      split: option.splits)

end
