(* ===== verification/Sched_Steps.thy ===== *)
theory Sched_Steps
  imports Sched_Correct
begin

text \<open>
  What every step of the thread library keeps: the signal masks, the well-formedness of
  the lists, that no thread is in two places; then waiting threads, runs, and the state that
  \<open>dccthread_init\<close> leaves.
\<close>

subsection \<open>Signals only strike client code\<close>

definition all_blocked :: sigmask where
  "all_blocked = \<lparr>blk_min = True, blk_max = True\<rparr>"

definition ctx_ok :: "(nat \<rightharpoonup> dccthread) \<Rightarrow> bool" where
  "ctx_ok ths \<longleftrightarrow> (\<forall>a th. ths a = Some th \<and> resume_at (th_context th) \<noteq> Entry \<longrightarrow>
     uc_sigmask (th_context th) = all_blocked)"

definition masks_ok :: "sched \<Rightarrow> bool" where
  "masks_ok s \<longleftrightarrow>
     (cpu s \<noteq> Running \<longrightarrow> sigs s = all_blocked) \<and>
     (cpu s \<noteq> Manager \<longrightarrow> mgr_sigs s = all_blocked) \<and> ctx_ok (threads s)"

lemma ctx_ok_upd:
  "ctx_ok ths \<Longrightarrow> resume_at (th_context th) = Entry \<or> uc_sigmask (th_context th) = all_blocked \<Longrightarrow>
   ctx_ok (ths(a \<mapsto> th))"
  by (auto simp: ctx_ok_def)

lemma ctx_ok_store:
  "ctx_ok (threads s) \<Longrightarrow> store_thread p f s = Inr s' \<Longrightarrow>
   (\<And>t. th_context (f t) = th_context t) \<Longrightarrow>
   ctx_ok (threads s') \<and> sigs s' = sigs s \<and> mgr_sigs s' = mgr_sigs s"
  by (auto simp: store_thread_def rbind_eq_Inr ctx_ok_def split: option.splits if_splits)

lemma unblocked_running:
  "masks_ok s \<Longrightarrow> \<not> blk_min (sigs s) \<or> \<not> blk_max (sigs s) \<Longrightarrow> cpu s = Running"
  by (auto simp: masks_ok_def all_blocked_def)

lemma masks_switch:
  assumes "swap_to_manager p r s = Inr s'" and "sigs s = all_blocked" and "mgr_sigs s = all_blocked"
    and "ctx_ok (threads s)"
  shows "masks_ok s'"
  using assms by (auto simp: swap_to_manager_def store_thread_def rbind_eq_Inr masks_ok_def
      split: option.splits intro!: ctx_ok_upd)

lemma yield_masks:
  "dccthread_yield m s = Inr s' \<Longrightarrow> mgr_sigs s = all_blocked \<Longrightarrow> ctx_ok (threads s) \<Longrightarrow> masks_ok s'"
  by (auto simp: dccthread_yield_def Let_def block_mask_def rbind_eq_Inr
      all_blocked_def [symmetric] intro: masks_switch)

lemma sleep_masks:
  "dccthread_sleep m i ts s = Inr s' \<Longrightarrow> cpu s \<noteq> Manager \<Longrightarrow> masks_ok s \<Longrightarrow> masks_ok s'"
  by (auto simp: dccthread_sleep_def timer_sleep_init_def Let_def block_mask_def rbind_eq_Inr
      masks_ok_def [of s] all_blocked_def [symmetric] intro: masks_switch)

lemma step_masks:
  assumes "sched_step m s ev s'" and wf: "sched_wf s" and m: "good_malloc m" and mk: "masks_ok s"
  shows "masks_ok s'"
  using assms(1)
proof cases
  case (manages fires o1)
  then have blk: "(sigs s)\<lparr>blk_max := True\<rparr> = all_blocked"
    using mk by (simp add: masks_ok_def all_blocked_def)
  show ?thesis
  proof (cases o1)
    case Stop
    with manages manager_turn_Stop [OF wf m] mk show ?thesis by auto
  next
    case Again
    with manages obtain u rs where "places s' = (after_alarms fires s)\<lparr>p_ready := rs @ [u], p_main := u\<rparr>"
      "sigs s' = (sigs s)\<lparr>blk_max := True\<rparr>" "threads s' = threads s"
      by (metis manager_turn_Again [OF wf m])
    moreover from this(1) have "p_cpu (places s') = p_cpu (places s)"
      by (simp add: after_alarms_def)
    then have "cpu s' = Manager" using manages by (simp add: places_def)
    ultimately show ?thesis using blk mk by (auto simp: masks_ok_def)
  next
    case Dispatch
    with manages obtain u rs a th where
      "threads s a = Some th" "threads s' = (threads s)(a \<mapsto> th\<lparr>waiting_for := None\<rparr>)"
      "mgr_sigs s' = (sigs s)\<lparr>blk_max := True\<rparr>" "sigs s' = uc_sigmask (th_context th)"
      "places s' = (after_alarms fires s)\<lparr>p_ready := rs, p_main := u,
        p_cpu := (if resume_at (th_context th) = Entry then Running else Resuming)\<rparr>"
      by (metis manager_turn_Dispatch [OF wf m])
    moreover from this(5) have "p_cpu (places s') =
        (if resume_at (th_context th) = Entry then Running else Resuming)"
      by simp
    then have "cpu s' = (if resume_at (th_context th) = Entry then Running else Resuming)"
      by (simp add: places_def)
    ultimately show ?thesis using blk mk by (auto simp: masks_ok_def ctx_ok_def)
  qed
next
  case resumes
  then obtain th where "load_thread s (main_thread s) = Inr th"
    by (auto simp: resume_thread_def rbind_eq_Inr)
  with resumes mk show ?thesis
    by (cases "resume_at (th_context th)")
      (auto simp: resume_thread_def unblock_mask_def masks_ok_def)
next
  case (creates a name t)
  with mk show ?thesis
    by (auto simp: dccthread_create_def Let_def mask_defs rbind_eq_Inr masks_ok_def
        intro!: ctx_ok_upd)
next
  case yields
  with mk have "mgr_sigs s = all_blocked" "ctx_ok (threads s)" by (simp_all add: masks_ok_def)
  with yields yield_masks [of m s s'] show ?thesis by blast
next
  case exits
  with mk show ?thesis
    by (auto simp: dccthread_exit_def Let_def block_mask_def rbind_eq_Inr masks_ok_def [of s]
        all_blocked_def [symmetric] intro: masks_switch)
next
  case (waits tid)
  show ?thesis
  proof (cases tid)
    case None
    with waits mk show ?thesis
      by (auto simp: dccthread_wait_def Let_def block_mask_def masks_ok_def)
  next
    case (Some a)
    with waits(3) obtain s2 s3 q where
      st1: "store_thread tid (\<lambda>t. t\<lparr>has_waited := 1\<rparr>) (block_mask s) = Inr s2"
      and st2: "store_thread (dccthread_self (block_mask s)) (\<lambda>t. t\<lparr>waiting_for := tid\<rparr>) s2 = Inr s3"
      and sw: "swap_to_manager (dccthread_self (block_mask s)) After_Wait (s3\<lparr>ready := q\<rparr>) = Inr s'"
      by (auto simp: dccthread_wait_def Let_def rbind_eq_Inr)
    have c1: "ctx_ok (threads (block_mask s))" "sigs (block_mask s) = all_blocked"
      "mgr_sigs (block_mask s) = all_blocked"
      using mk waits(2) by (simp_all add: masks_ok_def block_mask_def all_blocked_def)
    have c2: "ctx_ok (threads s2) \<and> sigs s2 = sigs (block_mask s) \<and>
        mgr_sigs s2 = mgr_sigs (block_mask s)"
      by (rule ctx_ok_store [OF c1(1) st1]) simp
    have c3: "ctx_ok (threads s3) \<and> sigs s3 = sigs s2 \<and> mgr_sigs s3 = mgr_sigs s2"
      by (rule ctx_ok_store [OF _ st2]) (simp_all add: c2)
    show ?thesis by (rule masks_switch [OF sw]) (use c1 c2 c3 in simp_all)
  qed
next
  case (sleeps i ts)
  with mk show ?thesis
    by (auto simp: dccthread_sleep_def timer_sleep_init_def Let_def block_mask_def rbind_eq_Inr
        masks_ok_def [of s] all_blocked_def [symmetric] intro: masks_switch)
next
  case returns
  with mk show ?thesis by (simp add: thread_returns_def masks_ok_def)
next
  case preempts
  then have "cpu s = Running" using unblocked_running [OF mk] by simp
  with mk have "mgr_sigs s = all_blocked" "ctx_ok (threads s)" by (simp_all add: masks_ok_def)
  with preempts yield_masks [of m s s'] show ?thesis by (simp add: dccthread_preemption_def)
next
  case (alarms i tm)
  with mk wakeup_refines [OF wf m sched_wfD(7) [OF wf alarms(3)]] show ?thesis
    by (auto simp: masks_ok_def places_def a_wakeup_def)
qed

lemma step_wf:
  assumes "sched_step m s ev s'" and wf: "sched_wf s" and m: "good_malloc m" and mk: "masks_ok s"
  shows "sched_wf s'"
  using assms(1)
proof cases
  case (manages fires o1)
  then show ?thesis
    using manager_turn_Dispatch [OF wf m] manager_turn_Again [OF wf m] manager_turn_Stop [OF wf m] wf
    by (cases o1) metis+
next
  case resumes
  then show ?thesis using resume_refines [OF wf] by auto
next
  case (creates a name t)
  then show ?thesis using create_refines [OF wf m create_name [OF creates(4)] creates(3)] by auto
next
  case yields
  then show ?thesis using yield_refines [OF wf m] by auto
next
  case exits
  then show ?thesis using exit_refines [OF wf m] by auto
next
  case (waits tid)
  show ?thesis
  proof (cases tid)
    case None
    with waits wf show ?thesis by (auto simp: dccthread_wait_def Let_def mask_defs sched_wf_def)
  next
    case (Some a)
    with waits wait_refines [OF wf m _ wait_valid] show ?thesis by fastforce
  qed
next
  case (sleeps i ts)
  then show ?thesis using sleep_refines [OF wf m, of i ts] by auto
next
  case returns
  with wf show ?thesis by (simp add: thread_returns_def sched_wf_def)
next
  case preempts
  with unblocked_running [OF mk] have "cpu s = Running" by simp
  with preempts show ?thesis using yield_refines [OF wf m] by (auto simp: dccthread_preemption_def)
next
  case (alarms i tm)
  then show ?thesis using wakeup_refines [OF wf m sched_wfD(7) [OF wf alarms(3)]] by auto
qed

lemma step_placed_once:
  assumes "sched_step m s ev s'" and wf: "sched_wf s" and m: "good_malloc m" and mk: "masks_ok s"
    and once: "placed_once (places s)" and ord: "orderly_event s ev"
  shows "placed_once (places s')"
  using assms(1)
proof cases
  case (manages fires o1)
  then have once': "placed_once (after_alarms fires s)" "p_cpu (after_alarms fires s) = Manager"
    using placed_once_deliver [OF once] ord by (auto simp: after_alarms_def places_def)
  show ?thesis
  proof (cases o1)
    case Stop
    with manages manager_turn_Stop [OF wf m] once show ?thesis by auto
  next
    case Again
    with manages obtain t rs where "p_ready (after_alarms fires s) = t # rs"
      "places s' = (after_alarms fires s)\<lparr>p_ready := rs @ [t], p_main := t\<rparr>"
      by (metis manager_turn_Again [OF wf m])
    with once' show ?thesis by (auto simp: placed_once_def)
  next
    case Dispatch
    with manages obtain t rs c where "p_ready (after_alarms fires s) = t # rs"
      "places s' = (after_alarms fires s)\<lparr>p_ready := rs, p_main := t, p_cpu := c\<rparr>"
      by (metis manager_turn_Dispatch [OF wf m])
    with once' show ?thesis by (auto simp: placed_once_def)
  qed
next
  case resumes
  then obtain c where "places s' = (places s)\<lparr>p_cpu := c\<rparr>" using resume_refines [OF wf] by auto
  with once resumes show ?thesis by (auto simp: placed_once_def places_def)
next
  case (creates a name t)
  have new: "places s' = a_create (Some a) (places s)"
    using creates create_refines [OF wf m create_name [OF creates(4)] creates(3)] by auto
  have nv: "\<not> valid s (Some a)" using creates(3) by (simp add: valid_def)
  have "Some a \<notin> set (p_ready (places s) @ p_waiting (places s) @ p_finished (places s) @
      (if p_cpu (places s) = Manager then [] else [p_main (places s)]))"
    using nv sched_wfD(4,5,6,8) [OF wf] by (auto simp: places_def)
  with once new show ?thesis by (auto simp: placed_once_def a_create_def)
next
  case yields
  then have "places s' = a_yield (places s)" using yield_refines [OF wf m] by auto
  with once yields show ?thesis by (auto simp: placed_once_def a_yield_def places_def)
next
  case exits
  then have "places s' = a_exit (places s)" using exit_refines [OF wf m] by auto
  with once exits show ?thesis by (auto simp: placed_once_def a_exit_def places_def)
next
  case (waits tid)
  show ?thesis
  proof (cases tid)
    case None
    with waits once show ?thesis
      by (auto simp: dccthread_wait_def Let_def mask_defs placed_once_def places_def)
  next
    case (Some a)
    with waits have "places s' = a_yield (places s)"
      using wait_refines [OF wf m _ wait_valid] by fastforce
    with once waits show ?thesis by (auto simp: placed_once_def a_yield_def places_def)
  qed
next
  case (sleeps i ts)
  then have "places s' = a_sleep (places s)" using sleep_refines [OF wf m, of i ts] by auto
  with once sleeps show ?thesis by (auto simp: placed_once_def a_sleep_def places_def)
next
  case returns
  with once show ?thesis by (auto simp: thread_returns_def placed_once_def places_def)
next
  case preempts
  with unblocked_running [OF mk] have c: "cpu s = Running" by simp
  with preempts have "places s' = a_yield (places s)"
    using yield_refines [OF wf m] by (auto simp: dccthread_preemption_def)
  with once c show ?thesis by (auto simp: placed_once_def a_yield_def places_def)
next
  case (alarms i tm)
  then have "places s' = a_wakeup (target tm) (places s)"
    using wakeup_refines [OF wf m sched_wfD(7) [OF wf alarms(3)]] by auto
  with once ord alarms show ?thesis by (auto intro: placed_once_wakeup)
qed

section \<open>Waiting threads\<close>

text \<open>
  A ready thread is blocked when the thread it waits for is on the ready list (other
  than itself, since the manager has popped it before it looks) or asleep.
\<close>

definition blocked :: "sched \<Rightarrow> ptr \<Rightarrow> bool" where
  "blocked s x \<longleftrightarrow> (\<exists>a th. x = Some a \<and> threads s a = Some th \<and> waiting_for th \<noteq> None \<and>
     waiting_for th \<in> (set (p_ready (places s)) - {x}) \<union> set (p_waiting (places s)))"

lemma after_no_alarms [simp]: "after_alarms [] s = places s"
  by (simp add: after_alarms_def)

lemma held_blocked:
  "distinct (p_ready (places s)) \<Longrightarrow> p_ready (places s) = t # rs \<Longrightarrow>
   held s t rs (p_waiting (places s)) = blocked s t"
  by (auto simp: held_def blocked_def)

lemma turn_unblocked:
  assumes wf: "sched_wf s" and m: "good_malloc m" and d: "distinct (p_ready (places s))"
    and front: "p_ready (places s) = t # rs" and b: "\<not> blocked s t"
  obtains s' where "manager_turn m [] s = Inr (Dispatch, s')" and "sched_wf s'"
    and "p_ready (places s') = rs" and "p_main (places s') = t"
    and "p_waiting (places s') = p_waiting (places s)"
proof (rule manager_turn_cases [OF wf m, of "[]"])
  fix s2
  assume s2: "manager_turn m [] s = pick_thread m s2" "sched_wf s2"
    "places s2 = after_alarms [] s" "threads s2 = threads s"
  have "\<not> held s2 t rs (p_waiting (places s2))"
    using held_blocked [OF d front] b s2 by (simp add: held_def)
  with pick_thread_dispatch [OF s2(2) m] s2 front show thesis by (auto intro: that)
qed (use front in simp)

section \<open>Sleepers that are never woken\<close>

definition never_woken :: "ptr \<Rightarrow> sched \<Rightarrow> bool" where
  "never_woken t s \<longleftrightarrow> t \<in> set (p_waiting (places s)) \<and> t \<notin> set (p_ready (places s)) \<and>
     (\<forall>i tm. timers s i = Some tm \<and> target tm = t \<longrightarrow> \<not> armed tm) \<and>
     (p_cpu (places s) \<noteq> Manager \<longrightarrow> p_main (places s) \<noteq> t)"

lemma deliver_others:
  assumes "\<forall>i tm. ts i = Some tm \<and> target tm = t \<longrightarrow> \<not> armed tm"
  shows "(t \<in> set (p_waiting v) \<longrightarrow> t \<in> set (p_waiting (a_deliver ts fires v))) \<and>
    (t \<notin> set (p_ready v) \<longrightarrow> t \<notin> set (p_ready (a_deliver ts fires v)))"
  using assms
proof (induction ts fires v rule: a_deliver.induct)
  case (1 ts v)
  then show ?case by simp
next
  case (2 ts i fires v)
  show ?case
  proof (cases "\<exists>tm. ts i = Some tm \<and> armed tm")
    case True
    then obtain tm where tm: "ts i = Some tm" "armed tm" by blast
    with "2.prems" have "target tm \<noteq> t" "t \<noteq> target tm" by auto
    with "2.IH"(2) [OF tm "2.prems"] tm show ?thesis by (simp add: a_wakeup_def)
  next
    case False
    with 2 show ?thesis by (auto split: option.splits)
  qed
qed

lemma resume_timers:
  assumes "resume_thread s = Inr s'"
  shows "timers s' = timers s \<or> (\<exists>j. timers s' = (timers s)(j := None))"
proof -
  from assms obtain th where "load_thread s (main_thread s) = Inr th"
    by (auto simp: resume_thread_def rbind_eq_Inr)
  with assms show ?thesis
    by (cases "resume_at (th_context th)") (auto simp: resume_thread_def unblock_mask_def)
qed

lemma step_never_woken:
  assumes step: "sched_step m s ev s'" and wf: "sched_wf s" and m: "good_malloc m"
    and mk: "masks_ok s" and nw: "never_woken t s"
  shows "never_woken t s'"
  using step
proof cases
  case (manages fires o1)
  let ?v = "after_alarms fires s"
  have v: "t \<in> set (p_waiting ?v)" "t \<notin> set (p_ready ?v)" "p_cpu ?v = Manager"
    using deliver_others [of "timers s" t "places s" fires] nw manages
    by (auto simp: never_woken_def after_alarms_def places_def)
  show ?thesis
  proof (cases o1)
    case Stop
    with manages manager_turn_Stop [OF wf m] nw show ?thesis by auto
  next
    case Again
    with manages obtain u rs where "p_ready ?v = u # rs" "timers s' = timers s"
      "places s' = ?v\<lparr>p_ready := rs @ [u], p_main := u\<rparr>"
      by (metis manager_turn_Again [OF wf m])
    with v nw show ?thesis by (auto simp: never_woken_def)
  next
    case Dispatch
    with manages obtain u rs c where "p_ready ?v = u # rs" "timers s' = timers s"
      "places s' = ?v\<lparr>p_ready := rs, p_main := u, p_cpu := c\<rparr>"
      by (metis manager_turn_Dispatch [OF wf m])
    with v nw show ?thesis by (auto simp: never_woken_def)
  qed
next
  case resumes
  then obtain c where c: "places s' = (places s)\<lparr>p_cpu := c\<rparr>" using resume_refines [OF wf] by auto
  have tm: "timers s i = Some tm" if "timers s' i = Some tm" for i tm
    using resume_timers [OF resumes(3)] that by (auto split: if_splits)
  have "p_cpu (places s) \<noteq> Manager" using resumes by (simp add: places_def)
  with nw have "p_main (places s') \<noteq> t" "t \<in> set (p_waiting (places s'))"
    "t \<notin> set (p_ready (places s'))" by (simp_all add: never_woken_def c)
  with nw tm show ?thesis unfolding never_woken_def by metis
next
  case (creates a name u)
  have "valid s t" using nw sched_wfD(5) [OF wf] by (simp add: never_woken_def places_def)
  with creates(3) have "Some a \<noteq> t" by (auto simp: valid_def)
  with nw create_refines [OF wf m create_name [OF creates(4)] creates(3)] creates
  show ?thesis by (auto simp: never_woken_def a_create_def)
next
  case yields
  with nw yield_refines [OF wf m] show ?thesis
    by (auto simp: never_woken_def a_yield_def places_def)
next
  case exits
  with nw exit_refines [OF wf m] show ?thesis by (auto simp: never_woken_def a_exit_def places_def)
next
  case (waits tid)
  show ?thesis
  proof (cases tid)
    case None
    with waits nw show ?thesis
      by (auto simp: dccthread_wait_def Let_def mask_defs never_woken_def places_def)
  next
    case (Some a)
    with waits have "places s' = a_yield (places s)" "timers s' = timers s"
      using wait_refines [OF wf m _ wait_valid] by fastforce+
    with nw waits show ?thesis by (auto simp: never_woken_def a_yield_def places_def)
  qed
next
  case (sleeps i ts)
  with nw sleep_refines [OF wf m, of i ts] show ?thesis
    by (auto simp: never_woken_def a_sleep_def places_def split: if_splits)
next
  case returns
  with nw show ?thesis by (auto simp: thread_returns_def never_woken_def places_def)
next
  case preempts
  with unblocked_running [OF mk] have "cpu s = Running" by simp
  with preempts nw yield_refines [OF wf m] show ?thesis
    by (auto simp: never_woken_def a_yield_def places_def dccthread_preemption_def)
next
  case (alarms i tm)
  with nw have "target tm \<noteq> t" by (auto simp: never_woken_def)
  with nw alarms wakeup_refines [OF wf m sched_wfD(7) [OF wf alarms(3)]] show ?thesis
    by (auto simp: never_woken_def a_wakeup_def)
qed

section \<open>Runs\<close>

definition lib_ok :: "sched \<Rightarrow> bool" where
  "lib_ok s \<longleftrightarrow> sched_wf s \<and> masks_ok s"

lemma run_ok:
  assumes "sched_run m s evs s'" and m: "good_malloc m" and "lib_ok s"
  shows "lib_ok s'"
  using assms(1,3)
  by (induction rule: sched_run.induct) (auto simp: lib_ok_def intro: step_wf step_masks m)

lemma run_never_woken:
  assumes "sched_run m s evs s'" and m: "good_malloc m" and "lib_ok s" and "never_woken t s"
  shows "never_woken t s'"
  using assms(1,3,4)
proof (induction rule: sched_run.induct)
  case (run_nil s)
  then show ?case by simp
next
  case (run_snoc s evs s1 ev s2)
  then have "lib_ok s1" using run_ok m by blast
  with run_snoc show ?case by (auto simp: lib_ok_def intro: step_never_woken m)
qed

text \<open>The alarms of a run are orderly when each of its steps is, in the state it starts from.\<close>

inductive orderly_run :: "node_malloc \<Rightarrow> sched \<Rightarrow> sched \<Rightarrow> bool" for m where
  start: "orderly_run m s s"
| more: "orderly_run m s s1 \<Longrightarrow> sched_step m s1 ev s2 \<Longrightarrow> orderly_event s1 ev \<Longrightarrow>
     orderly_run m s s2"

lemma orderly_run_once:
  assumes "orderly_run m s s'" and m: "good_malloc m" and "lib_ok s" and "placed_once (places s)"
  shows "lib_ok s' \<and> placed_once (places s')"
  using assms(1,3,4)
  by (induction rule: orderly_run.induct)
    (auto simp: lib_ok_def intro: step_wf step_masks step_placed_once m)

text \<open>A preemption signal before the loop is the end of the process.\<close>

lemma yield_no_main:
  assumes "sched_wf s" and m: "good_malloc m" and "main_thread s = None"
  shows "dccthread_yield m s = Inl Null_Deref"
proof -
  obtain q where "dlist_push_right (m (ready s)) (ready s) None = Inr (None, q)"
    using push_malloc [OF m sched_wfD(1) [OF assms(1)]] by blast
  with assms(3) show ?thesis
    by (simp add: dccthread_yield_def dccthread_self_def block_mask_def Let_def swap_to_manager_def store_thread_def)
qed

definition first_list :: dlist where
  "first_list = \<lparr>dl_nodes = Map.empty, dl_head = None, dl_tail = None, dl_count = 0\<rparr>"

definition before_create :: sched where
  "before_create = \<lparr>threads = Map.empty, main_thread = None, waiting = first_list, ready = first_list, finished = first_list,
     sigs = \<lparr>blk_min = False, blk_max = False\<rparr>, mgr_sigs = \<lparr>blk_min = False, blk_max = False\<rparr>,
     timers = Map.empty, preempting = True, cpu = Manager\<rparr>"

lemma before_create_ok: "sched_wf before_create" "main_thread before_create = None"
  "places before_create = \<lparr>p_ready = [], p_waiting = [], p_finished = [], p_main = None, p_cpu = Manager\<rparr>"
proof -
  have rep: "dl_rep first_list []" using dlist_create_rep by (auto simp: dlist_create_def first_list_def)
  from wf_listI [OF this] show "sched_wf before_create"
    "places before_create = \<lparr>p_ready = [], p_waiting = [], p_finished = [], p_main = None, p_cpu = Manager\<rparr>"
    by (simp_all add: sched_wf_def places_def before_create_def)
qed (simp add: before_create_def)

lemma init_steps:
  "dccthread_init m strike t =
     rbind (strike_manager m (strike Before_Create) before_create) (\<lambda>s1.
     rbind (dccthread_create m t ''main'' s1) (\<lambda>(t, s2).
     rbind (strike_manager m (strike Before_Assign) s2) (\<lambda>s3.
     rbind (strike_manager m (strike Before_Block) (s3\<lparr>main_thread := t\<rparr>)) (\<lambda>s4.
     Inr (block_mask s4)))))"
  by (simp add: dccthread_init_def dlist_create_def timer_init_def manager_init_def before_create_def first_list_def Let_def)

definition main_created :: "node_malloc \<Rightarrow> nat \<Rightarrow> sched" where
  "main_created m a = snd (projr (dccthread_create m (Some a) ''main'' before_create))"

lemma main_created:
  assumes "good_malloc m"
  shows "dccthread_create m (Some a) ''main'' before_create = Inr (Some a, main_created m a)"
    and "sched_wf (main_created m a)"
    and "places (main_created m a) = \<lparr>p_ready = [Some a], p_waiting = [], p_finished = [], p_main = None, p_cpu = Manager\<rparr>"
    and "threads (main_created m a) = [a \<mapsto> \<lparr>th_name = ''main'', th_context = \<lparr>resume_at = Entry,
      uc_sigmask = \<lparr>blk_min = False, blk_max = False\<rparr>\<rparr>, waiting_for = None, has_waited = 0\<rparr>]"
    and "preempting (main_created m a)" and "\<not> blk_min (sigs (main_created m a))"
proof -
  have "length ''main'' < MAX_NAME_SIZE" "threads before_create a = None"
    by (simp_all add: MAX_NAME_SIZE_def before_create_def)
  from create_refines [OF before_create_ok(1) assms this] obtain s1 where
    s1: "dccthread_create m (Some a) ''main'' before_create = Inr (Some a, s1)" "sched_wf s1"
      "places s1 = a_create (Some a) (places before_create)" by auto
  then have s: "main_created m a = s1" by (simp add: main_created_def)
  from s1 show "dccthread_create m (Some a) ''main'' before_create = Inr (Some a, main_created m a)"
    "sched_wf (main_created m a)"
    "places (main_created m a) = \<lparr>p_ready = [Some a], p_waiting = [], p_finished = [], p_main = None, p_cpu = Manager\<rparr>"
    by (simp_all add: s before_create_ok a_create_def)
  from s1(1) show "threads (main_created m a) = [a \<mapsto> \<lparr>th_name = ''main'', th_context = \<lparr>resume_at = Entry,
      uc_sigmask = \<lparr>blk_min = False, blk_max = False\<rparr>\<rparr>, waiting_for = None, has_waited = 0\<rparr>]"
    "preempting (main_created m a)" "\<not> blk_min (sigs (main_created m a))"
    unfolding s by (auto simp: dccthread_create_def Let_def rbind_eq_Inr mask_defs before_create_def)
qed

lemma init_struck:
  assumes m: "good_malloc m"
  shows "strike Before_Create \<or> strike Before_Assign \<Longrightarrow> dccthread_init m strike (Some a) = Inl Null_Deref"
    and "\<not> strike Before_Create \<Longrightarrow> \<not> strike Before_Assign \<Longrightarrow> strike Before_Block \<Longrightarrow>
      dccthread_init m strike (Some a) = Inl Bad_Pointer"
proof -
  note c = main_created [OF m, of a]
  have "dccthread_yield m before_create = Inl Null_Deref" by (rule yield_no_main [OF before_create_ok(1) m before_create_ok(2)])
  then have s1: "strike_manager m True before_create = Inl Null_Deref"
    by (simp add: strike_manager_def dccthread_preemption_def) (simp add: before_create_def)
  have "main_thread (main_created m a) = None" using c(3) by (simp add: places_def)
  then have "dccthread_yield m (main_created m a) = Inl Null_Deref" by (rule yield_no_main [OF c(2) m])
  then have s2: "strike_manager m True (main_created m a) = Inl Null_Deref"
    using c(5,6) by (simp add: strike_manager_def dccthread_preemption_def)
  let ?s = "main_created m a\<lparr>main_thread := Some a\<rparr>"
  obtain q where "dlist_push_right (m (ready ?s)) (ready ?s) (Some a) = Inr (Some a, q)"
    using push_malloc [OF m sched_wfD(1) [OF c(2)]] by auto
  then obtain s' where "dccthread_yield m ?s = Inr s'"
    using c(4) by (simp add: dccthread_yield_def dccthread_self_def block_mask_def Let_def swap_to_manager_def store_thread_def)
  then have s3: "strike_manager m True ?s = Inl Bad_Pointer"
    using c(5,6) by (simp add: strike_manager_def dccthread_preemption_def)
  have off: "strike_manager m False s = Inr s" for s by (simp add: strike_manager_def)
  show "strike Before_Create \<or> strike Before_Assign \<Longrightarrow> dccthread_init m strike (Some a) = Inl Null_Deref"
    using s1 s2 c(1) off by (cases "strike Before_Create") (auto simp: init_steps)
  show "\<not> strike Before_Create \<Longrightarrow> \<not> strike Before_Assign \<Longrightarrow> strike Before_Block \<Longrightarrow>
      dccthread_init m strike (Some a) = Inl Bad_Pointer"
    using s3 c(1) off by (auto simp: init_steps)
qed

definition at_loop :: "node_malloc \<Rightarrow> nat \<Rightarrow> sched" where
  "at_loop m a = block_mask (main_created m a\<lparr>main_thread := Some a\<rparr>)"

lemma init_result:
  assumes m: "good_malloc m"
  shows "(\<forall>w. \<not> strike w) \<Longrightarrow> dccthread_init m strike (Some a) = Inr (at_loop m a)"
    and "dccthread_init m strike (Some a) = Inr s \<Longrightarrow> s = at_loop m a"
  using main_created(1) [OF m, of a]
  by (auto simp: init_steps at_loop_def strike_manager_def rbind_eq_Inr split: if_splits)

lemma at_loop_ok:
  assumes m: "good_malloc m"
  shows "lib_ok (at_loop m a)" and "placed_once (places (at_loop m a))"
    and "places (at_loop m a) = \<lparr>p_ready = [Some a], p_waiting = [], p_finished = [], p_main = Some a, p_cpu = Manager\<rparr>"
proof -
  note c = main_created [OF m, of a]
  have wf: "sched_wf (at_loop m a)"
    using c(2,4) by (auto simp: at_loop_def sched_wf_def block_mask_def valid_iff)
  have "cpu (main_created m a) = Manager" using c(3) by (simp add: places_def)
  then have "masks_ok (at_loop m a)"
    using c(4) by (auto simp: at_loop_def masks_ok_def ctx_ok_def block_mask_def all_blocked_def)
  with wf show "lib_ok (at_loop m a)" by (simp add: lib_ok_def)
  show pl: "places (at_loop m a) = \<lparr>p_ready = [Some a], p_waiting = [], p_finished = [], p_main = Some a, p_cpu = Manager\<rparr>"
    using c(3) by (simp add: at_loop_def places_def block_mask_def)
  show "placed_once (places (at_loop m a))" by (simp add: pl placed_once_def)
qed

lemma init_ok:
  assumes "good_malloc m" and "dccthread_init m strike (Some a) = Inr s"
  shows "lib_ok s" and "placed_once (places s)"
    and "places s = \<lparr>p_ready = [Some a], p_waiting = [], p_finished = [], p_main = Some a, p_cpu = Manager\<rparr>"
  using at_loop_ok [OF assms(1)] init_result(2) [OF assms] by simp_all

end
