(* ===== verification/Sched_Loop.thy ===== *)
theory Sched_Loop
  imports Sched_Steps
begin

text \<open>
  The loop of \<open>dccthread_init\<close> turn by turn, with whatever timers go off in the window of each turn: which
  thread it dispatches in the end, and the loop that never ends.
\<close>

section \<open>The alarms of a window\<close>

text \<open>The threads whose timers go off, in order.\<close>

definition rung :: "(nat \<rightharpoonup> sleep_timer) \<Rightarrow> nat list \<Rightarrow> ptr list" where
  "rung ts fires = concat (map (\<lambda>i. case ts i of None \<Rightarrow> []
     | Some tm \<Rightarrow> if armed tm then [target tm] else []) fires)"

lemma rung_simps [simp]:
  "rung ts [] = []"
  "rung ts (i # fires) = (case ts i of None \<Rightarrow> [] | Some tm \<Rightarrow> if armed tm then [target tm] else []) @ rung ts fires"
  by (simp_all add: rung_def)

lemma deliver_rung:
  "a_deliver ts fires v =
     v\<lparr>p_ready := p_ready v @ rung ts fires, p_waiting := fold remove1 (rung ts fires) (p_waiting v)\<rparr>"
  by (induction ts fires v rule: a_deliver.induct) (auto simp: a_wakeup_def split: option.splits)

lemma fold_remove1:
  "set (fold remove1 xs ws) \<subseteq> set ws" "set ws \<subseteq> set xs \<union> set (fold remove1 xs ws)"
proof -
  show "set (fold remove1 xs ws) \<subseteq> set ws"
    by (induction xs arbitrary: ws) (auto dest: subsetD [OF set_remove1_subset])
  show "set ws \<subseteq> set xs \<union> set (fold remove1 xs ws)"
  proof (induction xs arbitrary: ws)
    case (Cons x xs)
    have "set ws \<subseteq> insert x (set (remove1 x ws))" by (induction ws) auto
    with Cons [of "remove1 x ws"] show ?case by auto
  qed simp
qed

section \<open>One turn\<close>

lemma held_mono:
  "held s t rs ws \<Longrightarrow> threads s' = threads s \<Longrightarrow> set rs \<union> set ws \<subseteq> set rs' \<union> set ws' \<Longrightarrow> held s' t rs' ws'"
  by (auto simp: held_def)

lemma held_split:
  "held s t rs ws \<longleftrightarrow> (\<exists>x \<in> set rs \<union> set ws. held s t [x] [])"
  by (auto simp: held_def)

lemma turn_ready:
  assumes wf: "sched_wf s" and m: "good_malloc m" and front: "p_ready (places s) = t # rs"
  obtains s2 where "manager_turn m fires s = pick_thread m s2" and "sched_wf s2"
    and "threads s2 = threads s" and "timers s2 = timers s"
    and "places s2 = (places s)\<lparr>p_ready := t # rs @ rung (timers s) fires,
      p_waiting := fold remove1 (rung (timers s) fires) (p_waiting (places s))\<rparr>"
  by (rule manager_turn_cases [OF wf m, of fires])
    (use front that in \<open>simp_all add: after_alarms_def deliver_rung\<close>)

lemma turn_holds:
  assumes wf: "sched_wf s" and m: "good_malloc m" and front: "p_ready (places s) = t # rs"
    and h: "held s t rs (p_waiting (places s))"
  obtains s' where "manager_turn m fires s = Inr (Again, s')" and "sched_wf s'"
    and "threads s' = threads s" and "timers s' = timers s"
    and "p_ready (places s') = rs @ rung (timers s) fires @ [t]"
    and "p_waiting (places s') = fold remove1 (rung (timers s) fires) (p_waiting (places s))"
proof -
  obtain s2 where s2: "manager_turn m fires s = pick_thread m s2" "sched_wf s2" "threads s2 = threads s"
    "timers s2 = timers s" "places s2 = (places s)\<lparr>p_ready := t # rs @ rung (timers s) fires,
      p_waiting := fold remove1 (rung (timers s) fires) (p_waiting (places s))\<rparr>"
    by (rule turn_ready [OF wf m front])
  have "held s2 t (rs @ rung (timers s) fires) (p_waiting (places s2))"
    by (rule held_mono [OF h s2(3)]) (use fold_remove1(2) s2(5) in fastforce)
  from pick_thread_held [OF s2(2) m _ this] s2 that show thesis by auto
qed

lemma turn_takes:
  assumes wf: "sched_wf s" and m: "good_malloc m" and front: "p_ready (places s) = t # rs"
    and free: "\<not> held s t rs (p_waiting (places s))" and quiet: "\<not> held s t (rung (timers s) fires) []"
  obtains s' where "manager_turn m fires s = Inr (Dispatch, s')" and "sched_wf s'" and "p_main (places s') = t"
    and "p_ready (places s') = rs @ rung (timers s) fires"
    and "p_waiting (places s') = fold remove1 (rung (timers s) fires) (p_waiting (places s))"
proof -
  obtain s2 where s2: "manager_turn m fires s = pick_thread m s2" "sched_wf s2" "threads s2 = threads s"
    "timers s2 = timers s" "places s2 = (places s)\<lparr>p_ready := t # rs @ rung (timers s) fires,
      p_waiting := fold remove1 (rung (timers s) fires) (p_waiting (places s))\<rparr>"
    by (rule turn_ready [OF wf m front])
  have "\<not> held s2 t (rs @ rung (timers s) fires) (p_waiting (places s2))"
    using free quiet fold_remove1(1) [of "rung (timers s) fires" "p_waiting (places s)"] s2(3,5)
    by (auto simp: held_def)
  from pick_thread_dispatch [OF s2(2) m _ this] s2 that show thesis by auto
qed

section \<open>The whole loop\<close>

text \<open>What the list looks like behind the thread that is taken: after each thread that was passed over, those
  that woke up in its turn stand in front of it.\<close>

fun passed_over :: "(nat \<Rightarrow> ptr list) \<Rightarrow> nat \<Rightarrow> ptr list \<Rightarrow> ptr list" where
  "passed_over woken n [] = woken n"
| "passed_over woken n (b # bs) = woken n @ b # passed_over woken (Suc n) bs"

definition woken_in :: "(nat \<Rightarrow> ptr list) \<Rightarrow> nat \<Rightarrow> nat \<Rightarrow> ptr list" where
  "woken_in woken n k = concat (map woken [n..<Suc (n + k)])"

lemma woken_in_simps [simp]:
  "woken_in woken n 0 = woken n" "woken_in woken n (Suc k) = woken n @ woken_in woken (Suc n) k"
  by (simp_all add: woken_in_def upt_conv_Cons del: upt_Suc)

text \<open>Each thread of the list finds the one it waits for on it, elsewhere, or asleep.\<close>

definition all_held :: "sched \<Rightarrow> ptr list \<Rightarrow> ptr list \<Rightarrow> ptr list \<Rightarrow> bool" where
  "all_held s bs rest ws \<longleftrightarrow> (\<forall>i < length bs. held s (bs ! i) (take i bs @ drop (Suc i) bs @ rest) ws)"

lemma all_held_Cons:
  assumes "all_held s (b # bs) rest ws"
  shows "held s b (bs @ rest) ws"
    and "threads s' = threads s \<Longrightarrow> set ws \<subseteq> set xs \<union> set ws' \<Longrightarrow> all_held s' bs (rest @ xs @ [b]) ws'"
proof -
  from assms show "held s b (bs @ rest) ws" unfolding all_held_def by (auto dest: spec [of _ 0])
  assume th: "threads s' = threads s" and w: "set ws \<subseteq> set xs \<union> set ws'"
  have "held s' (bs ! i) (take i bs @ drop (Suc i) bs @ rest @ xs @ [b]) ws'" if "i < length bs" for i
  proof (rule held_mono [OF _ th])
    show "held s (bs ! i) (take (Suc i) (b # bs) @ drop (Suc (Suc i)) (b # bs) @ rest) ws"
      using assms that unfolding all_held_def by (auto dest: spec [of _ "Suc i"])
  qed (use w in auto)
  then show "all_held s' bs (rest @ xs @ [b]) ws'" by (simp add: all_held_def)
qed

lemma manager_loop_dispatches:
  assumes "sched_wf s" and m: "good_malloc m" and "p_ready (places s) = bs @ t # cs"
    and "all_held s bs (t # cs) (p_waiting (places s))" and "\<not> held s t (bs @ cs) (p_waiting (places s))"
    and "\<forall>k. \<not> held s t (rung (timers s) (fires k)) []"
  shows "\<exists>s'. manager_loop m fires n s = Some (Inr (Dispatch, s')) \<and> p_main (places s') = t \<and>
    p_ready (places s') = cs @ passed_over (\<lambda>k. rung (timers s) (fires k)) n bs \<and>
    p_waiting (places s') = fold remove1 (woken_in (\<lambda>k. rung (timers s) (fires k)) n (length bs)) (p_waiting (places s))"
  using assms(1,3-)
proof (induction bs arbitrary: s cs n)
  case Nil
  then have "p_ready (places s) = t # cs" "\<not> held s t cs (p_waiting (places s))"
    "\<not> held s t (rung (timers s) (fires n)) []" by simp_all
  from turn_takes [OF Nil.prems(1) m this] obtain s' where "manager_turn m (fires n) s = Inr (Dispatch, s')"
    "p_main (places s') = t" "p_ready (places s') = cs @ rung (timers s) (fires n)"
    "p_waiting (places s') = fold remove1 (rung (timers s) (fires n)) (p_waiting (places s))" by metis
  then show ?case by (subst manager_loop.simps) simp
next
  case (Cons b bs)
  let ?xs = "rung (timers s) (fires n)"
  have front: "p_ready (places s) = b # bs @ t # cs" using Cons.prems(2) by simp
  obtain s' where s': "manager_turn m (fires n) s = Inr (Again, s')" "sched_wf s'" "threads s' = threads s"
    "timers s' = timers s" "p_ready (places s') = (bs @ t # cs) @ ?xs @ [b]"
    "p_waiting (places s') = fold remove1 ?xs (p_waiting (places s))"
    by (rule turn_holds [OF Cons.prems(1) m front all_held_Cons(1) [OF Cons.prems(3)]])
  have "all_held s' bs ((t # cs) @ ?xs @ [b]) (p_waiting (places s'))"
    unfolding s'(6) by (rule all_held_Cons(2) [OF Cons.prems(3) s'(3) fold_remove1(2)])
  moreover have "\<not> held s' t (bs @ cs @ ?xs @ [b]) (p_waiting (places s'))"
  proof
    assume "held s' t (bs @ cs @ ?xs @ [b]) (p_waiting (places s'))"
    then obtain x where x: "x \<in> set (bs @ cs @ ?xs @ [b]) \<union> set (p_waiting (places s'))" "held s t [x] []"
      using s'(3) by (auto simp: held_def)
    then have "x \<in> set ((b # bs) @ cs) \<union> set (p_waiting (places s)) \<union> set ?xs"
      using fold_remove1(1) [of ?xs "p_waiting (places s)"] s'(6) by auto
    with x(2) Cons.prems(4,5) show False by (metis held_split Un_iff)
  qed
  moreover have "\<forall>k. \<not> held s' t (rung (timers s') (fires k)) []"
    using Cons.prems(5) s'(3,4) by (auto simp: held_def)
  ultimately show ?case
    using Cons.IH [OF s'(2), of "cs @ ?xs @ [b]" "Suc n"] s'(1,4-6)
    by (subst manager_loop.simps) auto
qed

lemma all_held_blocked:
  assumes "distinct (p_ready (places s))" and "p_ready (places s) = bs @ t # cs" and "\<forall>b \<in> set bs. blocked s b"
  shows "all_held s bs (t # cs) (p_waiting (places s))"
  unfolding all_held_def
proof (intro allI impI)
  fix i
  assume i: "i < length bs"
  then have "blocked s (bs ! i)" using assms(3) by simp
  moreover have "set bs = insert (bs ! i) (set (take i bs @ drop (Suc i) bs))"
    using i by (metis id_take_nth_drop set_append list.simps(15) Un_insert_right)
  ultimately show "held s (bs ! i) (take i bs @ drop (Suc i) bs @ t # cs) (p_waiting (places s))"
    using assms(1,2) by (auto simp: blocked_def held_def)
qed

lemma not_blocked_free:
  assumes "distinct (p_ready (places s))" and "p_ready (places s) = bs @ t # cs" and "\<not> blocked s t"
  shows "\<not> held s t (bs @ cs) (p_waiting (places s))"
  using assms by (auto simp: blocked_def held_def)

section \<open>The loop that never ends\<close>

text \<open>No timer is armed, and every ready thread waits for another ready thread.\<close>

definition deadlocked :: "sched \<Rightarrow> bool" where
  "deadlocked s \<longleftrightarrow> sched_wf s \<and> distinct (p_ready (places s)) \<and> p_ready (places s) \<noteq> [] \<and>
     (\<forall>i tm. timers s i = Some tm \<longrightarrow> \<not> armed tm) \<and>
     (\<forall>x \<in> set (p_ready (places s)). \<exists>y \<in> set (p_ready (places s)). y \<noteq> x \<and> held s x [y] [])"

lemma rung_silent: "\<forall>i tm. ts i = Some tm \<longrightarrow> \<not> armed tm \<Longrightarrow> rung ts fires = []"
  by (induction fires) (auto split: option.splits)

lemma deadlocked_turn:
  assumes m: "good_malloc m" and d: "deadlocked s"
  obtains s' where "manager_turn m fires s = Inr (Again, s')" and "deadlocked s'"
proof -
  from d obtain t rs where front: "p_ready (places s) = t # rs"
    by (cases "p_ready (places s)") (auto simp: deadlocked_def)
  have wf: "sched_wf s" and q: "rung (timers s) fires = []"
    using d rung_silent by (simp_all add: deadlocked_def)
  from d front obtain y where "y \<in> set rs" "held s t [y] []" by (auto simp: deadlocked_def)
  then have "held s t rs (p_waiting (places s))" by (auto simp: held_def)
  then obtain s' where s': "manager_turn m fires s = Inr (Again, s')" "sched_wf s'" "threads s' = threads s"
    "timers s' = timers s" "p_ready (places s') = rs @ rung (timers s) fires @ [t]"
    by (rule turn_holds [OF wf m front])
  have "held s' x xs [] = held s x xs []" for x xs using s'(3) by (simp add: held_def)
  then have "deadlocked s'" using d s'(2,4,5) front q by (auto simp: deadlocked_def)
  with s'(1) that show thesis by blast
qed

lemma manager_loop_deadlock:
  assumes m: "good_malloc m" and d: "deadlocked s"
  shows "manager_loop m fires n s = None"
proof (rule ccontr)
  assume "manager_loop m fires n s \<noteq> None"
  then obtain r where ret: "manager_loop m fires n s = Some r" by blast
  have "\<not> (m = m \<and> deadlocked s)"
  proof (rule manager_loop.raw_induct [where P = "\<lambda>mm fires n s r. \<not> (mm = m \<and> deadlocked s)", OF _ ret])
    fix f mm fires n s r
    assume IH: "\<And>mm fires n s r. f mm fires n s = Some r \<Longrightarrow> \<not> (mm = m \<and> deadlocked s)"
      and eq: "(case manager_turn mm (fires n) s of Inl e \<Rightarrow> Some (Inl e)
        | Inr r \<Rightarrow> if fst r = Again then f mm fires (Suc n) (snd r) else Some (Inr r)) = Some r"
    show "\<not> (mm = m \<and> deadlocked s)"
    proof
      assume "mm = m \<and> deadlocked s"
      then have mm: "mm = m" and d: "deadlocked s" by simp_all
      obtain s' where "manager_turn m (fires n) s = Inr (Again, s')" "deadlocked s'"
        by (rule deadlocked_turn [OF m d])
      with eq mm IH show False by auto
    qed
  qed
  with d show False by simp
qed

end
