(* ===== verification/Sched_Fair.thy ===== *)
theory Sched_Fair
  imports Sched_Steps
begin

text \<open>
  The ready list is a queue over whole runs: the manager takes threads from its front only, and all that
  clients, preemptions and alarms do is to put threads at its end.
\<close>

fun is_turn :: "event \<Rightarrow> bool" where
  "is_turn (Ev_Manager fires o1) = (o1 \<noteq> Stop)"
| "is_turn _ = False"

definition turns :: "event list \<Rightarrow> nat" where
  "turns evs = length (filter is_turn evs)"

lemma turns_simps [simp]: "turns [] = 0" "turns (evs @ [ev]) = turns evs + (if is_turn ev then 1 else 0)"
  by (simp_all add: turns_def)

text \<open>The turn takes the front, whatever it then does with it.\<close>

lemma turn_takes_front:
  assumes wf: "sched_wf s" and m: "good_malloc m" and turn: "manager_turn m fires s = Inr (o1, s')" and go: "o1 \<noteq> Stop"
  obtains t rs xs ys where "p_ready (places s) @ xs = t # rs" and "p_ready (places s') = rs @ ys" and "main_thread s' = t"
    and "o1 = Again \<Longrightarrow> held s t (p_ready (places s')) (p_waiting (places s'))"
proof -
  obtain xs where xs: "p_ready (after_alarms fires s) = p_ready (places s) @ xs"
    using a_deliver_ready unfolding after_alarms_def by blast
  have main: "p_main (places s') = main_thread s'" by (simp add: places_def)
  show thesis
  proof (cases o1)
    case Dispatch
    obtain t rs where "p_ready (after_alarms fires s) = t # rs" "p_ready (places s') = rs" "p_main (places s') = t"
      by (rule manager_turn_Dispatch [OF wf m turn [unfolded Dispatch]]) simp
    then show thesis by (intro that [of xs t rs "[]"]) (simp_all add: xs main Dispatch)
  next
    case Again
    obtain t rs where r: "p_ready (after_alarms fires s) = t # rs" "held s t rs (p_waiting (after_alarms fires s))"
      "places s' = (after_alarms fires s)\<lparr>p_ready := rs @ [t], p_main := t\<rparr>"
      by (rule manager_turn_Again [OF wf m turn [unfolded Again]])
    then have "p_ready (places s') = rs @ [t]" "p_main (places s') = t"
      "p_waiting (places s') = p_waiting (after_alarms fires s)" by simp_all
    moreover from this r(2) have "held s t (p_ready (places s')) (p_waiting (places s'))" by (auto simp: held_def)
    ultimately show thesis using r(1) by (intro that [of xs t rs "[t]"]) (simp_all add: xs main)
  qed (use go in simp)
qed

lemma step_appends:
  assumes step: "sched_step m s ev s'" and ok: "lib_ok s" and m: "good_malloc m" and ev: "\<not> is_turn ev"
  shows "\<exists>xs. p_ready (places s') = p_ready (places s) @ xs"
  using step
proof cases
  case (manages fires o1)
  then have "manager_turn m fires s = Inr (Stop, s')" using ev by simp
  with manager_turn_Stop [OF _ m this] ok show ?thesis by (simp add: lib_ok_def)
next
  case resumes
  then have "cpu s \<noteq> Manager" by simp
  from resume_refines [OF _ this] ok resumes obtain c where "places s' = (places s)\<lparr>p_cpu := c\<rparr>"
    by (fastforce simp: lib_ok_def)
  then show ?thesis by simp
next
  case (creates a name t)
  from create_refines [OF _ m create_name [OF creates(4)] creates(3)] ok creates(4) show ?thesis
    by (auto simp: lib_ok_def a_create_def)
next
  case yields
  then have "cpu s \<noteq> Manager" by simp
  from yield_refines [OF _ m this] ok yields show ?thesis by (auto simp: lib_ok_def a_yield_def)
next
  case exits
  then have "cpu s \<noteq> Manager" by simp
  from exit_refines [OF _ m this] ok exits show ?thesis by (auto simp: lib_ok_def a_exit_def)
next
  case (waits tid)
  then have c: "cpu s \<noteq> Manager" by simp
  show ?thesis
  proof (cases tid)
    case None
    with waits show ?thesis by (auto simp: dccthread_wait_def Let_def block_mask_def places_def)
  next
    case (Some a)
    with waits have w: "dccthread_wait m (Some a) s = Inr s'" by simp
    have "sched_wf s" using ok by (simp add: lib_ok_def)
    from wait_refines [OF this m c wait_valid [OF w]] w show ?thesis by (auto simp: a_yield_def)
  qed
next
  case (sleeps i ts)
  then have "cpu s \<noteq> Manager" by simp
  from sleep_refines [OF _ m this, of i ts] ok sleeps show ?thesis by (auto simp: lib_ok_def a_sleep_def)
next
  case returns
  then show ?thesis by (simp add: thread_returns_def places_def)
next
  case preempts
  then have "cpu s \<noteq> Manager" using ok unblocked_running [of s] by (simp add: lib_ok_def)
  from yield_refines [OF _ m this] ok preempts show ?thesis
    by (auto simp: lib_ok_def a_yield_def dccthread_preemption_def)
next
  case (alarms i tm)
  have wf: "sched_wf s" using ok by (simp add: lib_ok_def)
  from wakeup_refines [OF wf m sched_wfD(7) [OF wf alarms(3)]] alarms show ?thesis by (auto simp: a_wakeup_def)
qed

text \<open>A thread at position \<open>p\<close> of the queue moves up by one with every turn.\<close>

lemma queue_moves_up:
  assumes "sched_run m s evs s1" and m: "good_malloc m" and "lib_ok s" and "p < length (p_ready (places s))"
    and "turns evs \<le> p"
  shows "p - turns evs < length (p_ready (places s1)) \<and> p_ready (places s1) ! (p - turns evs) = p_ready (places s) ! p"
  using assms(1,3,4,5)
proof (induction rule: sched_run.induct)
  case (run_nil s)
  then show ?case by simp
next
  case (run_snoc s evs s1 ev s2)
  have ok: "lib_ok s1" by (rule run_ok [OF run_snoc.hyps(1) m run_snoc.prems(1)])
  have le: "turns evs \<le> p" using run_snoc.prems(3) by (simp split: if_splits)
  let ?q = "p - turns evs"
  have IH: "?q < length (p_ready (places s1))" "p_ready (places s1) ! ?q = p_ready (places s) ! p"
    using run_snoc.IH [OF run_snoc.prems(1,2) le] by simp_all
  show ?case
  proof (cases "is_turn ev")
    case False
    from step_appends [OF run_snoc.hyps(2) ok m False] IH False show ?thesis by (auto simp: nth_append)
  next
    case True
    then obtain fires o1 where ev: "ev = Ev_Manager fires o1" "o1 \<noteq> Stop" by (cases ev) auto
    with run_snoc.hyps(2) have turn: "manager_turn m fires s1 = Inr (o1, s2)" by (auto elim: manager_stepE)
    have wf: "sched_wf s1" using ok by (simp add: lib_ok_def)
    obtain t rs xs ys where r: "p_ready (places s1) @ xs = t # rs" "p_ready (places s2) = rs @ ys"
      by (rule turn_takes_front [OF wf m turn ev(2)])
    have q: "?q = Suc (p - turns (evs @ [ev]))" using True run_snoc.prems(3) by simp
    have "(t # rs) ! ?q = p_ready (places s1) ! ?q" using IH(1) r(1) by (metis nth_append)
    moreover have "?q < length (t # rs)" using IH(1) r(1) by (metis length_append trans_less_add1)
    ultimately show ?thesis using IH(2) r(2) by (simp add: q nth_append)
  qed
qed

end
