(* ===== verification/Simulation.thy ===== *)
theory Simulation
  imports Prelude
begin

text \<open>
  Runs of a program that answers events with labels, runs of a specification that accepts labels, and
  the contract between them: every step the program may take is a step of the specification.
\<close>

inductive traced :: "('e \<Rightarrow> 's \<Rightarrow> bool) \<Rightarrow> ('e \<Rightarrow> 's \<Rightarrow> ('l \<times> 's) result) \<Rightarrow> 's \<Rightarrow> 'l list \<Rightarrow> 's \<Rightarrow> bool"
  for ok step s0 where
  traced_nil: "traced ok step s0 [] s0"
| traced_snoc: "traced ok step s0 ls s \<Longrightarrow> ok e s \<Longrightarrow> step e s = Inr (l, s') \<Longrightarrow> traced ok step s0 (ls @ [l]) s'"

inductive accepts :: "('a \<Rightarrow> 'l \<Rightarrow> 'a \<Rightarrow> bool) \<Rightarrow> 'a \<Rightarrow> 'l list \<Rightarrow> 'a \<Rightarrow> bool" for astep a0 where
  accepts_nil: "accepts astep a0 [] a0"
| accepts_snoc: "accepts astep a0 ls a \<Longrightarrow> astep a l a' \<Longrightarrow> accepts astep a0 (ls @ [l]) a'"

inductive_simps accepts_nil_simps: "accepts astep a0 [] a"

locale simulation =
  fixes rel :: "'s \<Rightarrow> 'a \<Rightarrow> bool" and ok :: "'e \<Rightarrow> 's \<Rightarrow> bool"
    and step :: "'e \<Rightarrow> 's \<Rightarrow> ('l \<times> 's) result" and astep :: "'a \<Rightarrow> 'l \<Rightarrow> 'a \<Rightarrow> bool"
  assumes sim: "rel s a \<Longrightarrow> ok e s \<Longrightarrow> \<exists>l s' a'. step e s = Inr (l, s') \<and> astep a l a' \<and> rel s' a'"
begin

lemma traced_accepted:
  assumes "rel s0 a0" and "traced ok step s0 ls s"
  shows "\<exists>a. accepts astep a0 ls a \<and> rel s a"
  using assms(2)
proof induction
  case traced_nil
  show ?case by (intro exI [of _ a0] conjI accepts_nil assms(1))
next
  case (traced_snoc ls s e l s')
  from traced_snoc.IH obtain a where a: "accepts astep a0 ls a" "rel s a" by blast
  from sim [OF a(2) traced_snoc.hyps(2)] obtain l1 s1 a' where
    "step e s = Inr (l1, s1)" "astep a l1 a'" "rel s1 a'" by blast
  with traced_snoc.hyps(3) have a': "astep a l a'" "rel s' a'" by simp_all
  show ?case by (intro exI [of _ a'] conjI accepts_snoc [OF a(1) a'(1)] a'(2))
qed

lemma never_stuck:
  assumes "rel s0 a0" and "traced ok step s0 ls s" and "ok e s"
  shows "\<exists>l s'. step e s = Inr (l, s')"
  using traced_accepted [OF assms(1,2)] sim assms(3) by metis

end

end
