(* ===== verification/Sched_Pool.thy ===== *)
theory Sched_Pool
  imports Sched_Steps Simulation
begin

text \<open>
  What a client of the thread library sees: a pool of threads, each of which is in the queue, asleep, gone or
  running, and may wait for another.  First the specification, then the library as a function of
  actions, and the map from its states to pools.
\<close>

section \<open>The pool\<close>

record pool =
  queue :: "nat list"
  sleeping :: "nat set"
  gone :: "nat set"
  running :: "nat option"
  waits_for :: "nat \<rightharpoonup> nat"

datatype move =
    Spawned nat | Yielded | Waited nat | Slept | Ended | Continued | Woken nat
  | Took "nat list" | Skipped "nat list" | Stopped

definition known :: "pool \<Rightarrow> nat set" where
  "known p = set (queue p) \<union> sleeping p \<union> gone p \<union> set_option (running p)"

definition wake :: "nat list \<Rightarrow> pool \<Rightarrow> pool" where
  "wake ts p = p\<lparr>queue := queue p @ ts, sleeping := sleeping p - set ts\<rparr>"

definition wakes :: "pool \<Rightarrow> nat list \<Rightarrow> bool" where
  "wakes p ts \<longleftrightarrow> distinct ts \<and> set ts \<subseteq> sleeping p"

text \<open>The thread at the front may run unless it waits for another one that is not gone.\<close>

definition may_run :: "pool \<Rightarrow> nat \<Rightarrow> bool" where
  "may_run p t \<longleftrightarrow> (\<forall>u. waits_for p t = Some u \<longrightarrow> u = t \<or> u \<in> gone p)"

inductive pool_step :: "pool \<Rightarrow> move \<Rightarrow> pool \<Rightarrow> bool" where
  p_spawn: "running p \<noteq> None \<Longrightarrow> t \<notin> known p \<Longrightarrow>
     pool_step p (Spawned t) (p\<lparr>queue := queue p @ [t]\<rparr>)"
| p_yield: "running p = Some t \<Longrightarrow>
     pool_step p Yielded (p\<lparr>queue := queue p @ [t], running := None\<rparr>)"
| p_wait: "running p = Some t \<Longrightarrow> u \<in> known p \<Longrightarrow>
     pool_step p (Waited u) (p\<lparr>queue := queue p @ [t], running := None, waits_for := (waits_for p)(t \<mapsto> u)\<rparr>)"
| p_sleep: "running p = Some t \<Longrightarrow>
     pool_step p Slept (p\<lparr>sleeping := insert t (sleeping p), running := None\<rparr>)"
| p_end: "running p = Some t \<Longrightarrow>
     pool_step p Ended (p\<lparr>gone := insert t (gone p), running := None\<rparr>)"
| p_continue: "running p \<noteq> None \<Longrightarrow> pool_step p Continued p"
| p_woken: "running p \<noteq> None \<Longrightarrow> wakes p [t] \<Longrightarrow> pool_step p (Woken t) (wake [t] p)"
| p_take: "running p = None \<Longrightarrow> wakes p ts \<Longrightarrow> queue p @ ts = t # rs \<Longrightarrow> may_run p t \<Longrightarrow>
     pool_step p (Took ts) ((wake ts p)\<lparr>queue := rs, running := Some t, waits_for := (waits_for p)(t := None)\<rparr>)"
| p_skip: "running p = None \<Longrightarrow> wakes p ts \<Longrightarrow> queue p @ ts = t # rs \<Longrightarrow> \<not> may_run p t \<Longrightarrow>
     pool_step p (Skipped ts) ((wake ts p)\<lparr>queue := rs @ [t]\<rparr>)"
| p_stop: "running p = None \<Longrightarrow> queue p = [] \<Longrightarrow> sleeping p = {} \<Longrightarrow> pool_step p Stopped p"

section \<open>The library as a function of actions\<close>

datatype action =
    Turn "nat list" | Resume | Create nat string | Yield | Exit | Wait nat | Sleep nat timespec
  | Return | Preempt | Alarm nat

text \<open>The threads that the timers of \<open>fires\<close> wake.\<close>

definition alarm_of :: "(nat \<rightharpoonup> sleep_timer) \<Rightarrow> nat \<Rightarrow> nat option" where
  "alarm_of ts i = (case ts i of None \<Rightarrow> None | Some tm \<Rightarrow> if armed tm then target tm else None)"

definition alarmed :: "(nat \<rightharpoonup> sleep_timer) \<Rightarrow> nat list \<Rightarrow> nat list" where
  "alarmed ts fires = List.map_filter (alarm_of ts) fires"

fun act :: "node_malloc \<Rightarrow> action \<Rightarrow> sched \<Rightarrow> (move \<times> sched) result" where
  "act m (Turn fires) s = rbind (manager_turn m fires s) (\<lambda>(o1, s').
     Inr (case o1 of Stop \<Rightarrow> Stopped | Again \<Rightarrow> Skipped (alarmed (timers s) fires)
          | Dispatch \<Rightarrow> Took (alarmed (timers s) fires), s'))"
| "act m Resume s = rbind (resume_thread s) (\<lambda>s'. Inr (Continued, s'))"
| "act m (Create a name) s = rbind (dccthread_create m (Some a) name s) (\<lambda>(_, s'). Inr (Spawned a, s'))"
| "act m Yield s = rbind (dccthread_yield m s) (\<lambda>s'. Inr (Yielded, s'))"
| "act m Exit s = rbind (dccthread_exit m s) (\<lambda>s'. Inr (Ended, s'))"
| "act m (Wait u) s = rbind (dccthread_wait m (Some u) s) (\<lambda>s'. Inr (Waited u, s'))"
| "act m (Sleep i ts) s = rbind (dccthread_sleep m i ts s) (\<lambda>s'. Inr (Slept, s'))"
| "act m Return s = Inr (Ended, thread_returns s)"
| "act m Preempt s = rbind (dccthread_preemption m s) (\<lambda>s'. Inr (Yielded, s'))"
| "act m (Alarm i) s = (case timers s i of None \<Rightarrow> Inl Bad_Pointer
     | Some tm \<Rightarrow> rbind (dccthread_wakeup m (target tm) s) (\<lambda>s'.
         rbind (the_ptr (target tm)) (\<lambda>t. Inr (Woken t, s'))))"

text \<open>
  What the environment may do.  Client code runs one operation at a time, on threads that exist; \<open>malloc\<close> returns new
  addresses; a signal strikes where it is not blocked, an alarm only for a thread that sleeps; and the
  manager is not left alone with sleepers.
\<close>

fun may_act :: "action \<Rightarrow> sched \<Rightarrow> bool" where
  "may_act (Turn fires) s \<longleftrightarrow> cpu s = Manager \<and> orderly (timers s) fires (places s) \<and>
     (p_waiting (places s) = [] \<or> p_ready (places s) \<noteq> [] \<or> alarmed (timers s) fires \<noteq> [])"
| "may_act Resume s \<longleftrightarrow> cpu s = Resuming"
| "may_act (Create a name) s \<longleftrightarrow> cpu s = Running \<and> threads s a = None \<and> length name < MAX_NAME_SIZE"
| "may_act (Wait u) s \<longleftrightarrow> cpu s = Running \<and> threads s u \<noteq> None"
| "may_act (Sleep i ts) s \<longleftrightarrow> cpu s = Running \<and> timers s i = None"
| "may_act Preempt s \<longleftrightarrow> \<not> blk_min (sigs s)"
| "may_act (Alarm i) s \<longleftrightarrow> \<not> blk_max (sigs s) \<and> alarm_of (timers s) i \<noteq> None \<and>
     orderly (timers s) [i] (places s)"
| "may_act _ s \<longleftrightarrow> cpu s = Running"

section \<open>The pool of a state\<close>

definition waits_of :: "sched \<Rightarrow> nat \<rightharpoonup> nat" where
  "waits_of s a = Option.bind (threads s a) waiting_for"

definition current :: "places \<Rightarrow> nat option" where
  "current v = (if p_cpu v = Manager then None else p_main v)"

definition alive :: "places \<Rightarrow> nat set" where
  "alive v = {a. Some a \<in> set (p_ready v) \<union> set (p_waiting v)} \<union> set_option (current v)"

definition pool_at :: "places \<Rightarrow> nat set \<Rightarrow> (nat \<rightharpoonup> nat) \<Rightarrow> pool" where
  "pool_at v ids w = \<lparr>queue = map the (p_ready v), sleeping = {a. Some a \<in> set (p_waiting v)},
     gone = ids - alive v, running = current v, waits_for = w\<rparr>"

definition pool_of :: "sched \<Rightarrow> pool" where
  "pool_of s = pool_at (places s) (dom (threads s)) (waits_of s)"

end
