(* ===== verification/Sched_Pool_Correct.thy ===== *)
theory Sched_Pool_Correct
  imports Sched_Pool
begin

text \<open>
  The library is a pool of threads: every action that the environment may take is carried out
  without a fault and is a step of the pool.
\<close>

section \<open>What the operations change besides the lists\<close>

definition ended :: "sched \<Rightarrow> nat set" where
  "ended s = {a. \<exists>th. threads s a = Some th \<and> resume_at (th_context th) = After_Exit}"

lemma waits_of_upd:
  "threads s' = (threads s)(a \<mapsto> th) \<Longrightarrow> waits_of s' = (waits_of s)(a := waiting_for th)"
  by (auto simp: waits_of_def fun_eq_iff)

lemma ended_upd:
  "threads s' = (threads s)(a \<mapsto> th) \<Longrightarrow> ended s' \<subseteq> ended s \<union> (if resume_at (th_context th) = After_Exit then {a} else {})"
  by (auto simp: ended_def split: if_splits)

lemma same_threads: "threads s' = threads s \<Longrightarrow> waits_of s' = waits_of s \<and> ended s' = ended s"
  by (simp add: waits_of_def fun_eq_iff ended_def)

text \<open>\<open>swapcontext\<close> to the manager changes the context of the thread only.\<close>

lemma swap_to_manager_effect:
  assumes "swap_to_manager (Some t) r s = Inr s'"
  shows "dom (threads s') = dom (threads s) \<and> waits_of s' = waits_of s \<and>
    ended s' \<subseteq> ended s \<union> (if r = After_Exit then {t} else {})"
proof -
  from assms obtain th where th: "threads s t = Some th"
    and s': "threads s' = (threads s)(t \<mapsto> th\<lparr>th_context := \<lparr>resume_at = r, uc_sigmask = sigs s\<rparr>\<rparr>)"
    by (auto simp: swap_to_manager_def store_thread_def rbind_eq_Inr split: option.splits)
  have "(waits_of s)(t := waiting_for th) = waits_of s" using th by (auto simp: waits_of_def fun_eq_iff)
  then show ?thesis using th waits_of_upd [OF s'] ended_upd [OF s'] s' by auto
qed

lemma thread_data_upd [simp]:
  "waits_of (s\<lparr>ready := q\<rparr>) = waits_of s" "waits_of (s\<lparr>waiting := q\<rparr>) = waits_of s"
  "waits_of (s\<lparr>finished := q\<rparr>) = waits_of s" "waits_of (s\<lparr>timers := ti\<rparr>) = waits_of s"
  "waits_of (block_mask s) = waits_of s" "ended (block_mask s) = ended s"
  "threads (block_mask s) = threads s" "main_thread (block_mask s) = main_thread s"
  "ended (s\<lparr>ready := q\<rparr>) = ended s" "ended (s\<lparr>waiting := q\<rparr>) = ended s"
  "ended (s\<lparr>finished := q\<rparr>) = ended s" "ended (s\<lparr>timers := ti\<rparr>) = ended s"
  by (simp_all add: waits_of_def ended_def block_mask_def fun_eq_iff)

lemma yield_effect:
  assumes "dccthread_yield m s = Inr s'" and "main_thread s = Some t"
  shows "dom (threads s') = dom (threads s) \<and> waits_of s' = waits_of s \<and> ended s' \<subseteq> ended s"
  using assms by (clarsimp simp: dccthread_yield_def dccthread_self_def Let_def rbind_eq_Inr)
    (drule swap_to_manager_effect, simp)

lemma leave_effect:
  assumes "dccthread_exit m s = Inr s'" and "main_thread s = Some t"
  shows "dom (threads s') = dom (threads s) \<and> waits_of s' = waits_of s \<and> ended s' \<subseteq> insert t (ended s)"
  using assms by (clarsimp simp: dccthread_exit_def dccthread_self_def Let_def rbind_eq_Inr)
    (drule swap_to_manager_effect, simp)

lemma sleep_effect:
  assumes "dccthread_sleep m i ts s = Inr s'" and "main_thread s = Some t"
  shows "dom (threads s') = dom (threads s) \<and> waits_of s' = waits_of s \<and> ended s' \<subseteq> ended s"
  using assms by (clarsimp simp: dccthread_sleep_def timer_sleep_init_def Let_def rbind_eq_Inr)
    (drule swap_to_manager_effect, simp)

lemma store_effect:
  assumes "store_thread (Some t) f s = Inr s'" and "\<And>th. th_context (f th) = th_context th"
  shows "dom (threads s') = dom (threads s) \<and> ended s' \<subseteq> ended s \<and>
    (\<exists>th. threads s t = Some th \<and> waits_of s' = (waits_of s)(t := waiting_for (f th))) \<and> main_thread s' = main_thread s"
proof -
  from assms(1) obtain th where th: "threads s t = Some th" "s' = s\<lparr>threads := (threads s)(t \<mapsto> f th)\<rparr>"
    by (auto simp: store_thread_def rbind_eq_Inr split: option.splits)
  then have s': "threads s' = (threads s)(t \<mapsto> f th)" by simp
  have "ended s' \<subseteq> ended s" using th assms(2) by (auto simp: ended_def split: if_splits)
  with th s' waits_of_upd [OF s'] show ?thesis by auto
qed

lemma wait_effect:
  assumes "dccthread_wait m (Some u) s = Inr s'" and main: "main_thread s = Some t"
  shows "dom (threads s') = dom (threads s) \<and> waits_of s' = (waits_of s)(t \<mapsto> u) \<and> ended s' \<subseteq> ended s"
proof -
  from assms obtain s2 s3 q where
    s2: "store_thread (Some u) (\<lambda>t. t\<lparr>has_waited := 1\<rparr>) (block_mask s) = Inr s2" and
    s3: "store_thread (Some t) (\<lambda>t. t\<lparr>waiting_for := Some u\<rparr>) s2 = Inr s3" and
    s': "swap_to_manager (Some t) After_Wait (s3\<lparr>ready := q\<rparr>) = Inr s'"
    by (auto simp: dccthread_wait_def dccthread_self_def Let_def rbind_eq_Inr)
  from store_effect [OF s2] obtain th where 2: "dom (threads s2) = dom (threads s)" "ended s2 \<subseteq> ended s"
    "threads s u = Some th" "waits_of s2 = (waits_of s)(u := waiting_for th)" by auto
  then have w2: "waits_of s2 = waits_of s" by (auto simp: waits_of_def fun_eq_iff)
  from store_effect [OF s3] have 3: "dom (threads s3) = dom (threads s2)" "ended s3 \<subseteq> ended s2"
    "waits_of s3 = (waits_of s2)(t \<mapsto> u)" by auto
  from swap_to_manager_effect [OF s'] 2 3 w2 show ?thesis by auto
qed

lemma new_thread_effect:
  assumes "dccthread_create m (Some a) name s = Inr (t, s')" and "threads s a = None"
  shows "dom (threads s') = insert a (dom (threads s)) \<and> waits_of s' = waits_of s \<and> ended s' \<subseteq> ended s"
proof -
  from assms(1) obtain th where s': "threads s' = (threads s)(a \<mapsto> th)"
    and th: "waiting_for th = None" "resume_at (th_context th) = Entry"
    by (auto simp: dccthread_create_def Let_def rbind_eq_Inr unblock_mask_def)
  have "waits_of s' = waits_of s" using assms(2) th(1) s' by (auto simp: waits_of_def fun_eq_iff)
  with ended_upd [OF s'] s' th(2) show ?thesis by auto
qed

section \<open>Pools of places\<close>

definition all_some :: "places \<Rightarrow> bool" where
  "all_some v \<longleftrightarrow> None \<notin> set (p_ready v) \<union> set (p_waiting v) \<and> (p_cpu v \<noteq> Manager \<longrightarrow> p_main v \<noteq> None)"

lemma map_the_Some: "None \<notin> set xs \<Longrightarrow> map Some (map the xs) = xs"
  by (induction xs) auto

lemma in_map_the: "None \<notin> set xs \<Longrightarrow> a \<in> set (map the xs) \<longleftrightarrow> Some a \<in> set xs"
  by (induction xs) auto

lemma known_pool: "all_some v \<Longrightarrow> alive v \<subseteq> ids \<Longrightarrow> known (pool_at v ids w) = ids"
  by (auto simp: known_def pool_at_def alive_def all_some_def in_map_the simp del: set_map list.set_map)

lemma pool_yield:
  assumes "p_main v = Some t" and "p_cpu v \<noteq> Manager"
  shows "alive (a_yield v) = alive v" "pool_at (a_yield v) ids w =
    (pool_at v ids w)\<lparr>queue := queue (pool_at v ids w) @ [t], running := None\<rparr>" "running (pool_at v ids w) = Some t"
  using assms by (auto simp: pool_at_def a_yield_def alive_def current_def)

lemma pool_sleep:
  assumes "p_main v = Some t" and "p_cpu v \<noteq> Manager"
  shows "alive (a_sleep v) = alive v" "pool_at (a_sleep v) ids w =
    (pool_at v ids w)\<lparr>sleeping := insert t (sleeping (pool_at v ids w)), running := None\<rparr>"
  using assms by (auto simp: pool_at_def a_sleep_def alive_def current_def)

lemma pool_exit:
  assumes "p_main v = Some t" and "p_cpu v \<noteq> Manager" and "placed_once v" and "t \<in> ids"
  shows "alive (v\<lparr>p_cpu := Manager\<rparr>) = alive v - {t}" "pool_at (v\<lparr>p_cpu := Manager\<rparr>) ids w =
    (pool_at v ids w)\<lparr>gone := insert t (gone (pool_at v ids w)), running := None\<rparr>"
  using assms by (auto simp: pool_at_def alive_def current_def placed_once_def)

lemma pool_create:
  assumes "alive v \<subseteq> ids" and "a \<notin> ids"
  shows "alive (a_create (Some a) v) = insert a (alive v)" "pool_at (a_create (Some a) v) (insert a ids) w =
    (pool_at v ids w)\<lparr>queue := queue (pool_at v ids w) @ [a]\<rparr>"
  using assms by (auto simp: pool_at_def a_create_def alive_def current_def)

text \<open>Alarms that find their threads sleeping.\<close>

lemma alarmed_simps [simp]:
  "alarmed ts [] = []" "alarmed ts (i # fires) = (case alarm_of ts i of None \<Rightarrow> alarmed ts fires | Some t \<Rightarrow> t # alarmed ts fires)"
  by (simp_all add: alarmed_def List.map_filter_simps split: option.splits)

lemma deliver_pool:
  assumes "orderly ts fires v" and "all_some v" and "distinct (p_waiting v)"
  shows "distinct (alarmed ts fires) \<and> Some ` set (alarmed ts fires) \<subseteq> set (p_waiting v) \<and>
    p_ready (a_deliver ts fires v) = p_ready v @ map Some (alarmed ts fires) \<and>
    set (p_waiting (a_deliver ts fires v)) = set (p_waiting v) - Some ` set (alarmed ts fires)"
  using assms
proof (induction ts fires v rule: a_deliver.induct)
  case (1 ts v)
  then show ?case by simp
next
  case (2 ts i fires v)
  show ?case
  proof (cases "\<exists>tm. ts i = Some tm \<and> armed tm")
    case False
    with 2 show ?thesis by (auto simp: alarm_of_def split: option.splits)
  next
    case True
    then obtain tm where tm: "ts i = Some tm" "armed tm" by blast
    with "2.prems"(1) have t: "target tm \<in> set (p_waiting v)" "orderly ts fires (a_wakeup (target tm) v)" by simp_all
    moreover from t(1) "2.prems"(2) have "target tm \<noteq> None" unfolding all_some_def by (metis UnCI)
    ultimately obtain t where t2: "target tm = Some t" by blast
    have s: "all_some (a_wakeup (Some t) v)" "distinct (p_waiting (a_wakeup (Some t) v))"
      using "2.prems"(2,3) t(1) t2 by (auto simp: all_some_def a_wakeup_def dest: in_set_remove1 notin_set_remove1)
    from "2.IH"(2) [OF tm] t s t2 have
      "distinct (alarmed ts fires)" "Some ` set (alarmed ts fires) \<subseteq> set (p_waiting (a_wakeup (Some t) v))"
      "p_ready (a_deliver ts fires (a_wakeup (Some t) v)) = p_ready (a_wakeup (Some t) v) @ map Some (alarmed ts fires)"
      "set (p_waiting (a_deliver ts fires (a_wakeup (Some t) v))) =
         set (p_waiting (a_wakeup (Some t) v)) - Some ` set (alarmed ts fires)" by simp_all
    then show ?thesis using tm t2 t(1) "2.prems"(3) by (auto simp: alarm_of_def a_wakeup_def)
  qed
qed

lemma pool_deliver:
  fixes ids w
  assumes "orderly ts fires v" and "all_some v" and "placed_once v"
  defines "p \<equiv> pool_at v ids w"
  shows "wakes p (alarmed ts fires)" "pool_at (a_deliver ts fires v) ids w = wake (alarmed ts fires) p"
    "alive (a_deliver ts fires v) = alive v" "all_some (a_deliver ts fires v)"
proof -
  have d: "distinct (p_waiting v)" using assms(3) by (simp add: placed_once_def)
  note 1 = deliver_pool [OF assms(1,2) d]
  then show "wakes p (alarmed ts fires)" by (auto simp: wakes_def p_def pool_at_def)
  show al: "alive (a_deliver ts fires v) = alive v" using 1 by (auto simp: alive_def current_def)
  show "all_some (a_deliver ts fires v)" using 1 assms(2) by (auto simp: all_some_def)
  show "pool_at (a_deliver ts fires v) ids w = wake (alarmed ts fires) p"
    using 1 al by (auto simp: pool_at_def wake_def p_def current_def)
qed

section \<open>The invariant\<close>

definition pool_inv :: "sched \<Rightarrow> bool" where
  "pool_inv s \<longleftrightarrow> lib_ok s \<and> placed_once (places s) \<and> alive (places s) \<inter> ended s = {} \<and>
     ran (waits_of s) \<subseteq> dom (threads s)"

text \<open>What a single action owes: a step of the pool, and the part of the invariant about threads.\<close>

definition moves :: "sched \<Rightarrow> move \<Rightarrow> sched \<Rightarrow> bool" where
  "moves s l s' \<longleftrightarrow> pool_step (pool_of s) l (pool_of s') \<and> alive (places s') \<inter> ended s' = {} \<and>
     ran (waits_of s') \<subseteq> dom (threads s')"

lemma pool_invD:
  assumes "pool_inv s"
  shows "sched_wf s" "masks_ok s" "placed_once (places s)" "alive (places s) \<inter> ended s = {}"
    "ran (waits_of s) \<subseteq> dom (threads s)" "all_some (places s)" "alive (places s) \<subseteq> dom (threads s)"
    "known (pool_of s) = dom (threads s)"
proof -
  from assms show 1: "sched_wf s" "masks_ok s" "placed_once (places s)" "alive (places s) \<inter> ended s = {}"
    "ran (waits_of s) \<subseteq> dom (threads s)" by (simp_all add: pool_inv_def lib_ok_def)
  have v: "\<forall>p \<in> set (p_ready (places s)) \<union> set (p_waiting (places s)). valid s p"
    "p_cpu (places s) \<noteq> Manager \<longrightarrow> valid s (p_main (places s))"
    using sched_wfD(4,5,8) [OF 1(1)] by (auto simp: places_def)
  then show 2: "all_some (places s)" unfolding all_some_def valid_def by blast
  from v show 3: "alive (places s) \<subseteq> dom (threads s)" by (auto simp: alive_def valid_def current_def)
  show "known (pool_of s) = dom (threads s)" unfolding pool_of_def by (rule known_pool [OF 2 3])
qed

lemma cpu_main:
  assumes "pool_inv s" and "cpu s \<noteq> Manager"
  obtains t where "main_thread s = Some t" "p_main (places s) = Some t" "p_cpu (places s) \<noteq> Manager"
    "t \<in> dom (threads s)" "running (pool_of s) = Some t"
proof -
  from sched_wfD(8) [OF pool_invD(1) [OF assms(1)] assms(2)] obtain t where
    "main_thread s = Some t" "t \<in> dom (threads s)" by (auto simp: valid_def)
  with assms(2) show thesis by (intro that) (simp_all add: places_def pool_of_def pool_at_def current_def)
qed

lemma act_is_step:
  assumes "act m e s = Inr (l, s')" and "may_act e s"
  shows "\<exists>ev. sched_step m s ev s' \<and> orderly_event s ev"
  using assms
proof (cases e)
  case (Turn fires)
  with assms obtain o1 where "manager_turn m fires s = Inr (o1, s')" by (auto simp: rbind_eq_Inr)
  with Turn assms show ?thesis by (intro exI [of _ "Ev_Manager fires o1"]) (simp add: manages)
next
  case Return
  with assms show ?thesis by (auto intro!: exI [of _ Ev_Return] returns)
next
  case Preempt
  with assms show ?thesis by (auto simp: rbind_eq_Inr intro!: exI [of _ Ev_Preempt] preempts)
next
  case (Alarm i)
  with assms obtain tm where "timers s i = Some tm" "armed tm" "dccthread_wakeup m (target tm) s = Inr s'"
    "\<not> blk_max (sigs s)" "orderly (timers s) [i] (places s)"
    by (auto simp: rbind_eq_Inr alarm_of_def split: option.splits if_splits)
  then show ?thesis by (intro exI [of _ "Ev_Alarm i"]) (auto intro: alarms)
next
  case Resume
  with assms show ?thesis by (auto simp: rbind_eq_Inr intro!: exI [of _ Ev_Resume] resumes)
next
  case (Create a name)
  with assms show ?thesis by (auto simp: rbind_eq_Inr intro!: exI [of _ "Ev_Create name"] creates)
next
  case Yield
  with assms show ?thesis by (auto simp: rbind_eq_Inr intro!: exI [of _ Ev_Yield] yields)
next
  case Exit
  with assms show ?thesis by (auto simp: rbind_eq_Inr intro!: exI [of _ Ev_Exit] exits)
next
  case (Wait u)
  with assms show ?thesis by (auto simp: rbind_eq_Inr intro!: exI [of _ "Ev_Wait (Some u)"] waits)
next
  case (Sleep i ts)
  with assms show ?thesis by (auto simp: rbind_eq_Inr intro!: exI [of _ "Ev_Sleep ts"] sleeps)
qed

lemma pool_invI:
  assumes inv: "pool_inv s" and m: "good_malloc m" and "act m e s = Inr (l, s')" and "may_act e s" and "moves s l s'"
  shows "pool_inv s'"
proof -
  obtain ev where ev: "sched_step m s ev s'" "orderly_event s ev" using act_is_step assms(3,4) by blast
  from step_wf [OF ev(1) pool_invD(1) [OF inv] m pool_invD(2) [OF inv]]
    step_masks [OF ev(1) pool_invD(1) [OF inv] m pool_invD(2) [OF inv]]
    step_placed_once [OF ev(1) pool_invD(1) [OF inv] m pool_invD(2) [OF inv] pool_invD(3) [OF inv] ev(2)] assms(5)
  show ?thesis by (simp add: pool_inv_def lib_ok_def moves_def)
qed

section \<open>Every action is a move\<close>

lemma yield_moves:
  assumes inv: "pool_inv s" and m: "good_malloc m" and c: "cpu s \<noteq> Manager"
  shows "\<exists>s'. dccthread_yield m s = Inr s' \<and> moves s Yielded s'"
proof -
  from cpu_main [OF inv c] obtain t where t: "main_thread s = Some t" "p_main (places s) = Some t"
    "p_cpu (places s) \<noteq> Manager" "running (pool_of s) = Some t" by metis
  from yield_refines [OF pool_invD(1) [OF inv] m c] obtain s' where s': "dccthread_yield m s = Inr s'"
    "places s' = a_yield (places s)" by blast
  note e = yield_effect [OF s'(1) t(1)] and p = pool_yield [OF t(2,3)]
  have "pool_of s' = (pool_of s)\<lparr>queue := queue (pool_of s) @ [t], running := None\<rparr>"
    unfolding pool_of_def s'(2) using e by (simp add: p(2))
  with p_yield [OF t(4)] e pool_invD(4,5) [OF inv] s' show ?thesis by (auto simp: moves_def p(1))
qed

lemma sleep_moves:
  assumes inv: "pool_inv s" and m: "good_malloc m" and c: "cpu s \<noteq> Manager"
  shows "\<exists>s'. dccthread_sleep m i ts s = Inr s' \<and> moves s Slept s'"
proof -
  from cpu_main [OF inv c] obtain t where t: "main_thread s = Some t" "p_main (places s) = Some t"
    "p_cpu (places s) \<noteq> Manager" "running (pool_of s) = Some t" by metis
  from sleep_refines [OF pool_invD(1) [OF inv] m c] obtain s' where s': "dccthread_sleep m i ts s = Inr s'"
    "places s' = a_sleep (places s)" by blast
  note e = sleep_effect [OF s'(1) t(1)] and p = pool_sleep [OF t(2,3)]
  have "pool_of s' = (pool_of s)\<lparr>sleeping := insert t (sleeping (pool_of s)), running := None\<rparr>"
    unfolding pool_of_def s'(2) using e by (simp add: p(2))
  with p_sleep [OF t(4)] e pool_invD(4,5) [OF inv] s' show ?thesis by (auto simp: moves_def p(1))
qed

lemma wait_moves:
  assumes inv: "pool_inv s" and m: "good_malloc m" and c: "cpu s \<noteq> Manager" and u: "threads s u \<noteq> None"
  shows "\<exists>s'. dccthread_wait m (Some u) s = Inr s' \<and> moves s (Waited u) s'"
proof -
  from cpu_main [OF inv c] obtain t where t: "main_thread s = Some t" "p_main (places s) = Some t"
    "p_cpu (places s) \<noteq> Manager" "running (pool_of s) = Some t" by metis
  have u2: "valid s (Some u)" "u \<in> known (pool_of s)" using u pool_invD(8) [OF inv] by (auto simp: valid_def)
  from wait_refines [OF pool_invD(1) [OF inv] m c u2(1)] obtain s' where s': "dccthread_wait m (Some u) s = Inr s'"
    "places s' = a_yield (places s)" by blast
  note e = wait_effect [OF s'(1) t(1)] and p = pool_yield [OF t(2,3)]
  have "pool_of s' = (pool_of s)\<lparr>queue := queue (pool_of s) @ [t], running := None,
      waits_for := (waits_for (pool_of s))(t \<mapsto> u)\<rparr>"
    unfolding pool_of_def s'(2) using e by (simp add: p(2)) (simp add: pool_at_def)
  moreover have "ran ((waits_of s)(t \<mapsto> u)) \<subseteq> dom (threads s)"
    using pool_invD(5) [OF inv] u by (auto simp: ran_def split: if_splits)
  ultimately show ?thesis
    using p_wait [OF t(4) u2(2)] e pool_invD(4) [OF inv] s' by (auto simp: moves_def p(1))
qed

lemma create_moves:
  assumes inv: "pool_inv s" and m: "good_malloc m" and c: "cpu s = Running" and a: "threads s a = None"
    and n: "length name < MAX_NAME_SIZE"
  shows "\<exists>s'. dccthread_create m (Some a) name s = Inr (Some a, s') \<and> moves s (Spawned a) s'"
proof -
  have c': "cpu s \<noteq> Manager" using c by simp
  from cpu_main [OF inv c'] have r: "running (pool_of s) \<noteq> None" by auto
  from create_refines [OF pool_invD(1) [OF inv] m n a] obtain s' where
    s': "dccthread_create m (Some a) name s = Inr (Some a, s')" "places s' = a_create (Some a) (places s)" by blast
  have a2: "a \<notin> dom (threads s)" "a \<notin> ended s" using a by (auto simp: ended_def)
  note e = new_thread_effect [OF s'(1) a] and p = pool_create [OF pool_invD(7) [OF inv] a2(1)]
  have "pool_of s' = (pool_of s)\<lparr>queue := queue (pool_of s) @ [a]\<rparr>"
    unfolding pool_of_def s'(2) using e by (simp add: p(2))
  with p_spawn [OF r] a2 e pool_invD(4,5,8) [OF inv] s' show ?thesis by (auto simp: moves_def p(1))
qed

text \<open>\<open>dccthread_exit\<close> and the return from the function of the thread.\<close>

lemma gone_moves:
  assumes inv: "pool_inv s" and t: "running (pool_of s) = Some t" "p_main (places s) = Some t"
    "p_cpu (places s) \<noteq> Manager" "t \<in> dom (threads s)"
    and same: "p_ready (places s') = p_ready (places s)" "p_waiting (places s') = p_waiting (places s)"
      "p_cpu (places s') = Manager"
    and e: "dom (threads s') = dom (threads s) \<and> waits_of s' = waits_of s \<and> ended s' \<subseteq> insert t (ended s)"
  shows "moves s Ended s'"
proof -
  note p = pool_exit [OF t(2,3) pool_invD(3) [OF inv] t(4)]
  have "pool_at (places s') ids w = pool_at ((places s)\<lparr>p_cpu := Manager\<rparr>) ids w"
    "alive (places s') = alive ((places s)\<lparr>p_cpu := Manager\<rparr>)" for ids w
    using same by (simp_all add: pool_at_def alive_def current_def)
  then have "pool_of s' = (pool_of s)\<lparr>gone := insert t (gone (pool_of s)), running := None\<rparr>"
    "alive (places s') = alive (places s) - {t}" using e by (simp_all add: pool_of_def p)
  with p_end [OF t(1)] e pool_invD(4,5) [OF inv] show ?thesis by (auto simp: moves_def)
qed

lemma exit_moves:
  assumes inv: "pool_inv s" and m: "good_malloc m" and c: "cpu s \<noteq> Manager"
  shows "\<exists>s'. dccthread_exit m s = Inr s' \<and> moves s Ended s'"
proof -
  from cpu_main [OF inv c] obtain t where t: "main_thread s = Some t" "p_main (places s) = Some t"
    "p_cpu (places s) \<noteq> Manager" "t \<in> dom (threads s)" "running (pool_of s) = Some t" by metis
  from exit_refines [OF pool_invD(1) [OF inv] m c] obtain s' where s': "dccthread_exit m s = Inr s'"
    "places s' = a_exit (places s)" by blast
  from gone_moves [OF inv t(5,2,3,4) _ _ _ leave_effect [OF s'(1) t(1)]] s' show ?thesis
    by (simp add: a_exit_def)
qed

lemma return_moves:
  assumes inv: "pool_inv s" and c: "cpu s \<noteq> Manager"
  shows "moves s Ended (thread_returns s)"
proof -
  from cpu_main [OF inv c] obtain t where t: "p_main (places s) = Some t"
    "p_cpu (places s) \<noteq> Manager" "t \<in> dom (threads s)" "running (pool_of s) = Some t" by metis
  show ?thesis by (rule gone_moves [OF inv t(4,1,2,3)])
    (auto simp: thread_returns_def places_def waits_of_def ended_def fun_eq_iff)
qed

lemma resume_moves:
  assumes inv: "pool_inv s" and c: "cpu s = Resuming"
  shows "\<exists>s'. resume_thread s = Inr s' \<and> moves s Continued s'"
proof -
  have c': "cpu s \<noteq> Manager" using c by simp
  from cpu_main [OF inv c'] obtain t where t: "main_thread s = Some t" "p_main (places s) = Some t"
    "p_cpu (places s) \<noteq> Manager" "running (pool_of s) = Some t" by metis
  from resume_refines [OF pool_invD(1) [OF inv] c'] obtain s' th where
    s': "load_thread s (main_thread s) = Inr th" "resume_thread s = Inr s'"
    "places s' = (places s)\<lparr>p_cpu := (if resume_at (th_context th) = After_Exit then Manager else Running)\<rparr>" by blast
  then have th: "threads s t = Some th" using t(1) by (simp add: load_thread_Some)
  have "t \<in> alive (places s)" using t(2,3) by (simp add: alive_def current_def)
  with pool_invD(4) [OF inv] th have "resume_at (th_context th) \<noteq> After_Exit" by (auto simp: ended_def)
  then have pl: "places s' = (places s)\<lparr>p_cpu := Running\<rparr>" and "threads s' = threads s"
    using s' by (auto simp: resume_thread_def unblock_mask_def split: resume.splits)
  note same = same_threads [OF this(2)] this(2)
  have "alive (places s') = alive (places s)" "pool_at (places s') ids w = pool_at (places s) ids w" for ids w
    using t(3) by (simp_all add: pl pool_at_def alive_def current_def)
  with same have "pool_of s' = pool_of s" "alive (places s') = alive (places s)" by (simp_all add: pool_of_def)
  with p_continue [of "pool_of s"] t(4) same pool_invD(4,5) [OF inv] s'(2) show ?thesis by (auto simp: moves_def)
qed

lemma alarm_moves:
  assumes inv: "pool_inv s" and m: "good_malloc m" and b: "\<not> blk_max (sigs s)"
    and t: "alarm_of (timers s) i = Some t" and ord: "orderly (timers s) [i] (places s)"
  shows "\<exists>tm s'. timers s i = Some tm \<and> target tm = Some t \<and> dccthread_wakeup m (target tm) s = Inr s' \<and>
    moves s (Woken t) s'"
proof -
  have c: "cpu s \<noteq> Manager" using unblocked_running [OF pool_invD(2) [OF inv]] b by simp
  from cpu_main [OF inv c] have r: "running (pool_of s) \<noteq> None" by auto
  from t obtain tm where tm: "timers s i = Some tm" "armed tm" "target tm = Some t"
    by (auto simp: alarm_of_def split: option.splits if_splits)
  from wakeup_refines [OF pool_invD(1) [OF inv] m sched_wfD(7) [OF pool_invD(1) [OF inv] tm(1)]]
  obtain s' where s': "dccthread_wakeup m (target tm) s = Inr s'" "threads s' = threads s"
    "places s' = a_deliver (timers s) [i] (places s)" using tm by auto
  note p = pool_deliver [OF ord pool_invD(6,3) [OF inv]]
  have w: "alarmed (timers s) [i] = [t]" using t by simp
  have "pool_of s' = wake [t] (pool_of s)" using s' same_threads [OF s'(2)] p(2) w by (simp add: pool_of_def)
  moreover have "wakes (pool_of s) [t]" using p(1) w by (simp add: pool_of_def)
  ultimately have "moves s (Woken t) s'"
    using p_woken [OF r] same_threads [OF s'(2)] s' p(3) pool_invD(4,5) [OF inv] by (simp add: moves_def)
  with tm s' show ?thesis by blast
qed

text \<open>A turn of the manager.\<close>

lemma held_may_run:
  fixes s fires
  defines "v \<equiv> after_alarms fires s"
  assumes inv: "pool_inv s" and v: "p_ready v = Some t # rs" "placed_once v" "p_cpu v = Manager"
    and al: "alive v = alive (places s)"
  shows "may_run (pool_of s) t \<longleftrightarrow> \<not> held s (Some t) rs (p_waiting v)"
proof -
  have "t \<in> dom (threads s)" using v(1) al pool_invD(7) [OF inv] by (auto simp: alive_def)
  then obtain th where th: "threads s t = Some th" by blast
  have "u \<in> gone (pool_of s) \<longleftrightarrow> u \<noteq> t \<and> Some u \<notin> set rs \<union> set (p_waiting v)" if "waiting_for th = Some u" for u
  proof -
    have "waits_of s t = Some u" using th that by (simp add: waits_of_def)
    then have "u \<in> dom (threads s)" using pool_invD(5) [OF inv] by (blast intro: ranI)
    moreover have "u \<in> alive v \<longleftrightarrow> u = t \<or> Some u \<in> set rs \<union> set (p_waiting v)"
      using v(1,3) by (auto simp: alive_def current_def)
    ultimately show ?thesis by (simp add: pool_of_def pool_at_def al)
  qed
  moreover have "Some t \<notin> set rs \<union> set (p_waiting v)" using v by (auto simp: placed_once_def)
  moreover have "waits_for (pool_of s) t = waiting_for th" using th by (simp add: pool_of_def pool_at_def waits_of_def)
  ultimately show ?thesis using th by (auto simp: may_run_def held_def)
qed

lemma turn_moves:
  assumes inv: "pool_inv s" and m: "good_malloc m" and c: "cpu s = Manager"
    and ord: "orderly (timers s) fires (places s)"
    and go: "p_waiting (places s) = [] \<or> p_ready (places s) \<noteq> [] \<or> alarmed (timers s) fires \<noteq> []"
  shows "\<exists>l s'. act m (Turn fires) s = Inr (l, s') \<and> moves s l s'"
proof -
  let ?v = "after_alarms fires s" and ?ts = "alarmed (timers s) fires" and ?p = "pool_of s"
  note wf = pool_invD(1) [OF inv] and d = pool_deliver [OF ord pool_invD(6,3) [OF inv], folded after_alarms_def]
  have run: "running ?p = None" using c by (simp add: pool_of_def pool_at_def current_def places_def)
  have v: "placed_once ?v" "p_cpu ?v = Manager"
    using placed_once_deliver [OF pool_invD(3) [OF inv] ord] c by (simp_all add: after_alarms_def places_def)
  have ready: "p_ready ?v = p_ready (places s) @ map Some ?ts"
    using deliver_pool [OF ord pool_invD(6) [OF inv]] pool_invD(3) [OF inv]
    by (simp add: after_alarms_def placed_once_def)
  have nof: "manager_turn m fires s \<noteq> Inl e" for e
    using manager_turn_fault [OF wf m] go ready by auto
  then obtain o1 s' where turn: "manager_turn m fires s = Inr (o1, s')" by (cases "manager_turn m fires s") auto
  have front: "queue ?p @ ?ts = map the (p_ready ?v)" by (simp add: ready pool_of_def pool_at_def comp_def)
  have wk: "wakes ?p ?ts" "pool_at ?v (dom (threads s)) (waits_of s) = wake ?ts ?p"
    using d(1,2) by (simp_all add: pool_of_def)
  show ?thesis
  proof (cases o1)
    case Stop
    from manager_turn_Stop [OF wf m turn [unfolded Stop]] have "s' = s" "queue ?p = []" "sleeping ?p = {}"
      by (simp_all add: pool_of_def pool_at_def)
    with p_stop [OF run] turn Stop pool_invD(4,5) [OF inv] show ?thesis by (auto simp: moves_def)
  next
    case Again
    from manager_turn_Again [OF wf m turn [unfolded Again]] obtain x rs where
      x: "p_ready ?v = x # rs" "held s x rs (p_waiting ?v)" "threads s' = threads s"
      "places s' = ?v\<lparr>p_ready := rs @ [x], p_main := x\<rparr>" by metis
    obtain t where t: "x = Some t" using x(2) by (auto simp: held_def)
    have "p_ready ?v = Some t # rs" using x(1) t by simp
    then have "\<not> may_run ?p t" using held_may_run [OF inv _ v d(3)] x(2) t by blast
    moreover have "queue ?p @ ?ts = t # map the rs" unfolding front x(1) t by simp
    ultimately have "pool_step ?p (Skipped ?ts) ((wake ?ts ?p)\<lparr>queue := map the rs @ [t]\<rparr>)"
      using p_skip [OF run wk(1)] by blast
    moreover have "alive (places s') = alive ?v" using x(1) v(2) by (auto simp: x(4) alive_def current_def)
    then have al: "alive (places s') = alive (places s)" by (simp only: d(3))
    moreover have "pool_of s' = (wake ?ts ?p)\<lparr>queue := map the rs @ [t]\<rparr>"
      using al same_threads [OF x(3)] x(3) t v(2) unfolding wk(2) [symmetric]
      by (simp add: pool_of_def x(4) pool_at_def current_def d(3))
    ultimately show ?thesis
      using turn Again same_threads [OF x(3)] x(3) pool_invD(4,5) [OF inv] by (simp add: moves_def)
  next
    case Dispatch
    obtain x rs t th where x: "p_ready ?v = x # rs" "\<not> held s x rs (p_waiting ?v)" "x = Some t"
      "threads s t = Some th" "threads s' = (threads s)(t \<mapsto> th\<lparr>waiting_for := None\<rparr>)"
      "places s' = ?v\<lparr>p_ready := rs, p_main := x,
        p_cpu := (if resume_at (th_context th) = Entry then Running else Resuming)\<rparr>"
      by (rule manager_turn_Dispatch [OF wf m turn [unfolded Dispatch]])
    define cp where "cp = p_cpu (places s')"
    have x: "p_ready ?v = x # rs" "\<not> held s x rs (p_waiting ?v)" "x = Some t" "threads s t = Some th"
      "threads s' = (threads s)(t \<mapsto> th\<lparr>waiting_for := None\<rparr>)" "cp \<noteq> Manager"
      "places s' = ?v\<lparr>p_ready := rs, p_main := x, p_cpu := cp\<rparr>"
      using x by (simp_all add: cp_def)
    have "p_ready ?v = Some t # rs" using x(1,3) by simp
    then have "may_run ?p t" using held_may_run [OF inv _ v d(3)] x(2,3) by blast
    moreover have "queue ?p @ ?ts = t # map the rs" unfolding front x(1,3) by simp
    ultimately have "pool_step ?p (Took ?ts)
        ((wake ?ts ?p)\<lparr>queue := map the rs, running := Some t, waits_for := (waits_for ?p)(t := None)\<rparr>)"
      using p_take [OF run wk(1)] by blast
    moreover have "alive (places s') = alive ?v" using x(1,3,6) v(2) by (auto simp: x(7) alive_def current_def)
    then have al: "alive (places s') = alive (places s)" by (simp only: d(3))
    moreover have e: "dom (threads s') = dom (threads s)" "waits_of s' = (waits_of s)(t := None)" "ended s' \<subseteq> ended s"
      using x(4,5) waits_of_upd [OF x(5)] by (auto simp: ended_def split: if_splits)
    moreover have "pool_of s' =
        (wake ?ts ?p)\<lparr>queue := map the rs, running := Some t, waits_for := (waits_for ?p)(t := None)\<rparr>"
      using al e(1,2) x(3,6) unfolding wk(2) [symmetric]
      by (simp add: pool_of_def x(7) pool_at_def current_def d(3))
    moreover have "ran (waits_of s') \<subseteq> dom (threads s')"
      using pool_invD(5) [OF inv] unfolding e(1,2) by (auto simp: ran_def split: if_splits)
    ultimately show ?thesis
      using turn Dispatch pool_invD(4) [OF inv] by (auto simp: moves_def)
  qed
qed

section \<open>The refinement\<close>

lemma act_moves:
  assumes inv: "pool_inv s" and m: "good_malloc m" and ok: "may_act e s"
  shows "\<exists>l s'. act m e s = Inr (l, s') \<and> moves s l s'"
proof (cases e)
  case (Turn fires)
  with ok turn_moves [OF inv m, of fires] show ?thesis by (simp del: act.simps)
next
  case Preempt
  with ok unblocked_running [OF pool_invD(2) [OF inv]] have "cpu s \<noteq> Manager" by simp
  with Preempt yield_moves [OF inv m] show ?thesis by (auto simp: dccthread_preemption_def)
next
  case (Alarm i)
  with ok alarm_moves [OF inv m, of i] show ?thesis by fastforce
next
  case Return
  with ok return_moves [OF inv] show ?thesis by simp
next
  case Resume
  with ok resume_moves [OF inv] show ?thesis by auto
next
  case (Create a name)
  with ok create_moves [OF inv m, of a name] show ?thesis by auto
next
  case Yield
  with ok yield_moves [OF inv m] show ?thesis by auto
next
  case Exit
  with ok exit_moves [OF inv m] show ?thesis by auto
next
  case (Wait u)
  with ok wait_moves [OF inv m, of u] show ?thesis by auto
next
  case (Sleep i ts)
  with ok sleep_moves [OF inv m, of i ts] show ?thesis by auto
qed

interpretation lib: simulation "\<lambda>s p. pool_inv s \<and> good_malloc m \<and> p = pool_of s" "may_act" "act m" pool_step
  for m
proof unfold_locales
  fix s p e
  assume "pool_inv s \<and> good_malloc m \<and> p = pool_of s" and ok: "may_act e s"
  then have s: "pool_inv s" "good_malloc m" "p = pool_of s" by simp_all
  from act_moves [OF s(1,2) ok] obtain l s' where a: "act m e s = Inr (l, s')" "moves s l s'" by blast
  with pool_invI [OF s(1,2) a(1) ok a(2)] s show "\<exists>l s' p'. act m e s = Inr (l, s') \<and> pool_step p l p' \<and>
      pool_inv s' \<and> good_malloc m \<and> p' = pool_of s'"
    by (auto simp: moves_def)
qed

text \<open>The pool that \<open>dccthread_init\<close> starts with.\<close>

definition first_pool :: "nat \<Rightarrow> pool" where
  "first_pool a = \<lparr>queue = [a], sleeping = {}, gone = {}, running = None, waits_for = Map.empty\<rparr>"

lemma init_pool:
  assumes m: "good_malloc m" and init: "dccthread_init m strike (Some a) = Inr s"
  shows "pool_inv s" "pool_of s = first_pool a"
proof -
  note ok = init_ok [OF m init]
  have s: "s = block_mask (main_created m a\<lparr>main_thread := Some a\<rparr>)"
    using init_result(2) [OF m init] by (simp add: at_loop_def)
  have th: "threads s = threads (main_created m a)" by (simp add: s block_mask_def)
  have e: "dom (threads s) = {a}" "waits_of s = Map.empty" "ended s = {}"
    unfolding th main_created(4) [OF m, of a] waits_of_def ended_def by (auto simp: fun_eq_iff)
  then show "pool_inv s" using ok by (simp add: pool_inv_def)
  show "pool_of s = first_pool a"
    unfolding pool_of_def e ok(3) by (auto simp: pool_at_def first_pool_def alive_def current_def)
qed

end
