(* ===== verification/TP1_Properties.thy ===== *)
theory TP1_Properties
  imports Sched_Loop Sched_Fair Sched_Pool_Correct
begin

text \<open>
  The properties of the thread library of \<open>TP 1\<close>: its list, its scheduler as a whole,
  and the behaviours in which the code departs from its documentation.  The states
  \<open>boot\<close>, \<open>main_runs\<close>, \<open>asleep\<close> and \<open>woken\<close> are the first states of a client whose main
  thread goes to sleep; the witnesses use them.
\<close>

section \<open>A first run\<close>

definition boot :: sched where
  "boot = projr (dccthread_init first_free (\<lambda>_. False) (Some 0))"

definition main_runs :: sched where
  "main_runs = snd (projr (manager_turn first_free [] boot))"

definition one_second :: timespec where
  "one_second = \<lparr>tv_sec = 1, tv_nsec = 0\<rparr>"

definition asleep :: sched where
  "asleep = projr (dccthread_sleep first_free 0 one_second main_runs)"

definition woken :: sched where
  "woken = projr (dccthread_wakeup first_free (Some 0) asleep)"

lemma lib_ok_step: "sched_step m s ev s' \<Longrightarrow> good_malloc m \<Longrightarrow> lib_ok s \<Longrightarrow> lib_ok s'"
  by (auto simp: lib_ok_def intro: step_wf step_masks)

lemma boot_state:
  "dccthread_init first_free (\<lambda>_. False) (Some 0) = Inr boot" "lib_ok boot" "placed_once (places boot)"
  "places boot = \<lparr>p_ready = [Some 0], p_waiting = [], p_finished = [], p_main = Some 0,
                  p_cpu = Manager\<rparr>"
  using init_result(1) [OF good_first_free, of "\<lambda>_. False" 0] at_loop_ok [OF good_first_free, of 0]
  by (simp_all add: boot_def)

lemma boot_unblocked: "\<not> blocked boot (Some 0)"
  by (simp add: blocked_def boot_state)

lemma boot_turn: "manager_turn first_free [] boot = Inr (Dispatch, main_runs)"
proof -
  have "sched_wf boot" "p_ready (places boot) = [Some 0]" "distinct (p_ready (places boot))"
    using boot_state by (simp_all add: lib_ok_def)
  then obtain s' where "manager_turn first_free [] boot = Inr (Dispatch, s')"
    using boot_unblocked by (auto elim: turn_unblocked [OF _ good_first_free])
  then show ?thesis by (simp add: main_runs_def)
qed

lemma main_step: "sched_step first_free boot (Ev_Manager [] Dispatch) main_runs"
  using boot_turn boot_state(4) by (intro manages) (simp_all add: places_def)

lemma main_runs_state:
  "lib_ok main_runs" "cpu main_runs = Running" "timers main_runs 0 = None"
  "places main_runs = \<lparr>p_ready = [], p_waiting = [], p_finished = [], p_main = Some 0,
                       p_cpu = Running\<rparr>"
proof -
  show "lib_ok main_runs" by (rule lib_ok_step [OF main_step good_first_free boot_state(2)])
  show "cpu main_runs = Running" "timers main_runs 0 = None" by code_simp+
  show "places main_runs = \<lparr>p_ready = [], p_waiting = [], p_finished = [], p_main = Some 0,
                            p_cpu = Running\<rparr>" by code_simp
qed

lemma asleep_step: "sched_step first_free main_runs (Ev_Sleep one_second) asleep"
proof -
  have "sched_wf main_runs" using main_runs_state(1) by (simp add: lib_ok_def)
  from sleep_refines [OF this good_first_free, of 0 one_second] main_runs_state(2)
  have "dccthread_sleep first_free 0 one_second main_runs = Inr asleep" by (auto simp: asleep_def)
  with main_runs_state show ?thesis by (intro sleeps)
qed

lemma asleep_state:
  "lib_ok asleep" "timers asleep 0 = Some \<lparr>target = Some 0, armed = True\<rparr>"
  "places asleep = \<lparr>p_ready = [], p_waiting = [Some 0], p_finished = [], p_main = Some 0,
                    p_cpu = Manager\<rparr>"
proof -
  show "lib_ok asleep" by (rule lib_ok_step [OF asleep_step good_first_free main_runs_state(1)])
  show "timers asleep 0 = Some \<lparr>target = Some 0, armed = True\<rparr>" by code_simp
  show "places asleep = \<lparr>p_ready = [], p_waiting = [Some 0], p_finished = [], p_main = Some 0,
                         p_cpu = Manager\<rparr>" by code_simp
qed

lemma woken_state:
  "sched_wf woken" "timers woken 0 = Some \<lparr>target = Some 0, armed = True\<rparr>"
  "places woken = \<lparr>p_ready = [Some 0], p_waiting = [], p_finished = [], p_main = Some 0,
                   p_cpu = Manager\<rparr>"
proof -
  have wf: "sched_wf asleep" using asleep_state(1) by (simp add: lib_ok_def)
  then have v: "valid asleep (Some 0)" using sched_wfD(7) [OF wf asleep_state(2)] by simp
  from wakeup_refines [OF wf good_first_free v] asleep_state
  show "sched_wf woken" "timers woken 0 = Some \<lparr>target = Some 0, armed = True\<rparr>"
    "places woken = \<lparr>p_ready = [Some 0], p_waiting = [], p_finished = [], p_main = Some 0,
                     p_cpu = Manager\<rparr>"
    by (auto simp: woken_def a_wakeup_def)
qed

section \<open>The list\<close>

definition no_list :: dlist where
  "no_list = projr (dlist_create True)"

definition two_list :: dlist where
  "two_list = snd (projr (dlist_push_right (Some 1)
     (snd (projr (dlist_push_right (Some 0) no_list (Some 7)))) (Some 8)))"

lemma two_list_rep: "dl_rep two_list [(0, Some 7), (1, Some 8)]"
proof -
  obtain d0 where d0: "dlist_create True = Inr d0" "dl_rep d0 []" using dlist_create_rep by blast
  then have "dl_nodes d0 0 = None" by (auto simp: dl_rep_def)
  from dlist_push_right_rep [OF d0(2) this, of "Some 7"] obtain d1 where
    d1: "dlist_push_right (Some 0) d0 (Some 7) = Inr (Some 7, d1)" "dl_rep d1 [(0, Some 7)]" by auto
  then have "1 \<notin> dom (dl_nodes d1)" by (auto simp: dl_rep_def)
  then have "dl_nodes d1 1 = None" by auto
  from dlist_push_right_rep [OF d1(2) this, of "Some 8"] obtain d2 where
    "dlist_push_right (Some 1) d1 (Some 8) = Inr (Some 8, d2)"
    "dl_rep d2 [(0, Some 7), (1, Some 8)]" by auto
  with d0 d1 show ?thesis by (simp add: two_list_def no_list_def)
qed

lemma two_list_wf: "wf_list two_list" "elems two_list = [Some 7, Some 8]"
  using wf_listI [OF two_list_rep] by simp_all

text \<open>C21: the list of \<open>dlist.c\<close> is a queue of the data pushed into it.  On a well-formed
  list (the nodes allocated are exactly those of a doubly linked chain that \<open>head\<close>, \<open>tail\<close>
  and \<open>count\<close> agree with) every operation returns without touching memory it does not own,
  and leaves a well-formed list: \<open>push_right\<close> appends, the two pops take an end or answer
  \<open>NULL\<close> on the empty list, \<open>dlist_empty\<close> passes its assertions.\<close>

theorem dlist_is_queue:
  assumes "wf_list dl" and "fresh_in dl a"
  shows "dlist_empty dl = Inr (elems dl = []) \<and>
    (\<exists>dl'. dlist_push_right (Some a) dl x = Inr (x, dl') \<and> wf_list dl' \<and>
       elems dl' = elems dl @ [x]) \<and>
    (\<exists>dl'. dlist_pop_left dl = Inr (if elems dl = [] then None else hd (elems dl), dl') \<and>
       wf_list dl' \<and> elems dl' = tl (elems dl)) \<and>
    (\<exists>dl'. dlist_pop_right dl = Inr (if elems dl = [] then None else last (elems dl), dl') \<and>
       wf_list dl' \<and> elems dl' = butlast (elems dl))"
proof (intro conjI)
  show "dlist_empty dl = Inr (elems dl = [])" using assms(1) by (rule dlist_empty_elems)
  show "\<exists>dl'. dlist_push_right (Some a) dl x = Inr (x, dl') \<and> wf_list dl' \<and>
      elems dl' = elems dl @ [x]" by (rule lq.push [OF assms])
  show "\<exists>dl'. dlist_pop_left dl = Inr (if elems dl = [] then None else hd (elems dl), dl') \<and>
      wf_list dl' \<and> elems dl' = tl (elems dl)"
    using lq.pop_all [OF assms(1)] by (cases "elems dl") auto
  show "\<exists>dl'. dlist_pop_right dl = Inr (if elems dl = [] then None else last (elems dl), dl') \<and>
      wf_list dl' \<and> elems dl' = butlast (elems dl)"
    by (rule dlist_pop_right_elems [OF assms(1)])
qed

theorem dlist_is_queue_witness:
  "\<exists>dl'. dlist_pop_right two_list = Inr (Some 8, dl') \<and> elems dl' = [Some 7]"
proof -
  have "2 \<notin> dom (dl_nodes two_list)" using two_list_rep by (auto simp: dl_rep_def)
  then have "fresh_in two_list 2" by (auto simp: fresh_in_def)
  from dlist_is_queue [OF two_list_wf(1) this] two_list_wf(2) show ?thesis by auto
qed

text \<open>C25: \<open>dlist_find_remove\<close>, for any comparison callback, unlinks and frees the first node
  whose datum is not null and compares equal, returns that datum and leaves the other data
  in order; when there is none it returns \<open>NULL\<close> and the list is untouched.\<close>

theorem find_remove_first_match:
  assumes "wf_list dl"
  shows "(case find_index (\<lambda>x. x \<noteq> None \<and> cmp x data ud = 0) (elems dl) of
      None \<Rightarrow> dlist_find_remove dl data cmp ud = Inr (None, dl)
    | Some i \<Rightarrow> (\<exists>dl'. dlist_find_remove dl data cmp ud = Inr (elems dl ! i, dl') \<and> wf_list dl' \<and>
        elems dl' = take i (elems dl) @ drop (Suc i) (elems dl)))"
proof (cases "find_index (\<lambda>x. x \<noteq> None \<and> cmp x data ud = 0) (elems dl)")
  case None
  then have "\<forall>x \<in> set (elems dl). misses cmp data ud x" by (auto simp: misses_def)
  then show ?thesis unfolding None by (simp add: find_remove_elems_miss [OF assms])
next
  case (Some i)
  then have "i < length (elems dl)" "\<not> misses cmp data ud (elems dl ! i)"
    "\<forall>j < i. misses cmp data ud (elems dl ! j)" by (auto simp: find_index_Some misses_def)
  from find_remove_elems_hit [OF assms this] show ?thesis unfolding Some by simp
qed

theorem find_remove_first_match_witness:
  "\<exists>dl'. dlist_find_remove two_list (Some 8) dccthread_compare None = Inr (Some 8, dl') \<and>
     elems dl' = [Some 7]"
  using find_remove_first_match [OF two_list_wf(1),
      where cmp = dccthread_compare and data = "Some 8" and ud = None]
  by (auto simp: two_list_wf(2) dccthread_compare_def)

text \<open>An index counts from the head when it is not negative and from the tail when it is;
  \<open>dlist_set_index\<close> writes that entry and nothing else, \<open>dlist_get_index\<close> reads it, and an
  index outside the list reads \<open>NULL\<close> and writes nothing.\<close>

theorem index_roundtrip:
  assumes "dl_rep dl cs"
  shows "\<exists>dl' cs'. dlist_set_index dl idx x = Inr dl' \<and> dl_rep dl' cs' \<and>
     (\<forall>j. dlist_get_index dl' j = (if position j (length cs) = None then Inr None
        else if position j (length cs) = position idx (length cs) then Inr x
        else dlist_get_index dl j))"
proof -
  from dlist_set_index_rep [OF assms] obtain dl' where
    "dlist_set_index dl idx x = Inr dl'" and
    rep: "dl_rep dl' (case position idx (length cs) of None \<Rightarrow> cs
       | Some i \<Rightarrow> cs[i := (fst (cs ! i), x)])" by blast
  moreover from this(2) have "dlist_get_index dl' j = (if position j (length cs) = None then Inr None
        else if position j (length cs) = position idx (length cs) then Inr x
        else dlist_get_index dl j)" for j
    using position_less [of j "length cs"]
    by (auto simp: dlist_get_index_rep [OF rep] dlist_get_index_rep [OF assms] nth_list_update
        split: option.splits)
  ultimately show ?thesis by blast
qed

theorem index_roundtrip_witness:
  "\<exists>dl'. dlist_set_index two_list (-1) (Some 9) = Inr dl' \<and> dlist_get_index dl' 1 = Inr (Some 9)"
  using index_roundtrip [OF two_list_rep, of "-1" "Some 9"]
  by (auto simp: position_def dest: spec [of _ 1])

text \<open>\<open>dlist_destroy\<close> on a well-formed list returns, has called the callback on every
  datum from head to tail (on none when the callback is null), and has freed every node.\<close>

theorem destroy_frees_all:
  assumes "wf_list dl"
  shows "\<exists>dl'. dlist_destroy dl cb = Inr (if cb then elems dl else [], dl') \<and>
    dl_nodes dl' = Map.empty"
proof -
  from assms obtain cs where rep: "dl_rep dl cs" and el: "elems dl = map snd cs"
    by (auto elim: wf_listE)
  from destroy_loop_rep [OF rep, of cb "[]"] obtain dl' where
    "dlist_destroy dl cb = Inr (if cb then elems dl else [], dl')" "dl_rep dl' []"
    using el by (auto simp: dlist_destroy_def)
  then show ?thesis by (auto simp: dl_rep_def)
qed

theorem destroy_frees_all_witness:
  "\<exists>dl'. dlist_destroy two_list True = Inr ([Some 7, Some 8], dl') \<and> dl_nodes dl' = Map.empty"
  using destroy_frees_all [OF two_list_wf(1), of True] by (simp add: two_list_wf(2))

section \<open>The scheduler\<close>

text \<open>While client code runs in a reachable state, \<open>create\<close>, \<open>yield\<close>, \<open>exit\<close>, \<open>sleep\<close>
  and \<open>wait\<close> all return (no bad pointer, no failed assertion) and move threads between the
  lists the way the abstract operations on \<open>places\<close> say: a thread that yields or waits goes
  to the end of the ready list, one that exits to \<open>finished\<close>, one that sleeps to \<open>waiting\<close>.\<close>

theorem client_operations_refine:
  assumes "lib_ok s" and "cpu s = Running" and m: "good_malloc m"
    and "threads s a = None" and "length name < MAX_NAME_SIZE" and "valid s tid"
  shows "(\<exists>s'. dccthread_create m (Some a) name s = Inr (Some a, s') \<and>
       places s' = a_create (Some a) (places s)) \<and>
    (\<exists>s'. dccthread_yield m s = Inr s' \<and> places s' = a_yield (places s)) \<and>
    (\<exists>s'. dccthread_exit m s = Inr s' \<and> places s' = a_exit (places s)) \<and>
    (\<exists>s'. dccthread_wait m tid s = Inr s' \<and> places s' = a_yield (places s)) \<and>
    (\<exists>s'. dccthread_sleep m i ts s = Inr s' \<and> places s' = a_sleep (places s) \<and>
       timers s' = (timers s)(i \<mapsto> \<lparr>target = main_thread s, armed = timer_arms ts\<rparr>))"
proof -
  have wf: "sched_wf s" and c: "cpu s \<noteq> Manager" using assms by (simp_all add: lib_ok_def)
  show ?thesis
    using create_refines [OF wf m assms(5,4)] yield_refines [OF wf m c] exit_refines [OF wf m c]
      wait_refines [OF wf m c assms(6)] sleep_refines [OF wf m c, of i ts] by blast
qed

theorem client_operations_refine_witness:
  "\<exists>s'. dccthread_wait first_free (Some 0) main_runs = Inr s' \<and>
    places s' = a_yield (places main_runs)"
proof -
  have "threads main_runs 1 = None" by code_simp
  moreover have "length ''t'' < MAX_NAME_SIZE" by (simp add: MAX_NAME_SIZE_def)
  moreover have "valid main_runs (Some 0)"
    using main_runs_state sched_wfD(8) by (fastforce simp: lib_ok_def places_def)
  ultimately show ?thesis
    using client_operations_refine [OF main_runs_state(1,2) good_first_free, where tid = "Some 0"]
    by blast
qed

text \<open>C7: signals strike client code, once the manager has reached its loop.  \<open>dccthread_init\<close> arms the
  preemption timer before it blocks the signal: a signal that comes before \<open>main_thread\<close> is assigned makes the
  handler follow \<open>NULL\<close>, one that comes after it makes it switch to the context of \<open>manager_init\<close>, a function
  that has returned; both end the process.  When no signal comes in these windows, \<open>dccthread_init\<close> reaches its loop,
  and in every state that a run reaches from there the three lists are well formed and hold only threads that
  were created, and a preemption signal or an alarm outside the manager's window can only strike while
  client code has the processor: the masks keep both signals away from the manager and from the code around
  every \<open>swapcontext\<close>.\<close>

theorem signals_strike_clients_only:
  assumes "good_malloc m"
  shows "(strike Before_Create \<or> strike Before_Assign \<longrightarrow> dccthread_init m strike (Some a) = Inl Null_Deref) \<and>
    (\<not> strike Before_Create \<and> \<not> strike Before_Assign \<and> strike Before_Block \<longrightarrow>
      dccthread_init m strike (Some a) = Inl Bad_Pointer) \<and>
    ((\<forall>w. \<not> strike w) \<longrightarrow> (\<exists>s0. dccthread_init m strike (Some a) = Inr s0 \<and>
      (\<forall>evs s ev s'. sched_run m s0 evs s \<and> sched_step m s ev s' \<longrightarrow>
        sched_wf s' \<and> (ev = Ev_Preempt \<or> (\<exists>i. ev = Ev_Alarm i) \<longrightarrow> cpu s = Running))))"
proof (intro conjI impI)
  have late: "sched_wf s' \<and> (ev = Ev_Preempt \<or> (\<exists>i. ev = Ev_Alarm i) \<longrightarrow> cpu s = Running)"
    if "sched_run m (at_loop m a) evs s" "sched_step m s ev s'" for evs s ev s'
  proof -
    have ok: "lib_ok s" by (rule run_ok [OF that(1) assms at_loop_ok(1) [OF assms]])
    have "sched_wf s'" using lib_ok_step [OF that(2) assms ok] by (simp add: lib_ok_def)
    then show ?thesis
      using that(2) ok unblocked_running by (auto simp: lib_ok_def elim: preempt_stepE alarm_stepE)
  qed
  assume "\<forall>w. \<not> strike w"
  then show "\<exists>s0. dccthread_init m strike (Some a) = Inr s0 \<and> (\<forall>evs s ev s'. sched_run m s0 evs s \<and> sched_step m s ev s' \<longrightarrow>
      sched_wf s' \<and> (ev = Ev_Preempt \<or> (\<exists>i. ev = Ev_Alarm i) \<longrightarrow> cpu s = Running))"
    using init_result(1) [OF assms] late by blast
qed (use init_struck [OF assms] in blast)+

theorem signals_strike_clients_only_witness:
  "dccthread_init first_free (\<lambda>w. w = Before_Assign) (Some 0) = Inl Null_Deref \<and>
    (\<exists>s'. sched_step first_free main_runs Ev_Preempt s' \<and> sched_wf s')"
proof -
  have run: "sched_run first_free boot ([] @ [Ev_Manager [] Dispatch]) main_runs"
    by (rule run_snoc [OF run_nil main_step])
  have "sched_wf main_runs" "cpu main_runs \<noteq> Manager"
    using main_runs_state by (simp_all add: lib_ok_def)
  from yield_refines [OF this(1) good_first_free this(2)] obtain s' where
    "dccthread_yield first_free main_runs = Inr s'" by blast
  moreover have "\<not> blk_min (sigs main_runs)" by code_simp
  ultimately have "sched_step first_free main_runs Ev_Preempt s'"
    by (intro preempts) (simp_all add: dccthread_preemption_def)
  with signals_strike_clients_only [OF good_first_free, of "\<lambda>w. w = Before_Assign" 0]
    signals_strike_clients_only [OF good_first_free, of "\<lambda>w. False" 0] boot_state(1) run show ?thesis by auto
qed

text \<open>C20: as long as every alarm that is delivered finds its thread asleep, no step of a run
  puts a thread in two places: the ready, waiting and finished lists and the processor hold
  each thread at most once.\<close>

theorem orderly_alarms_place_once:
  assumes "dccthread_init m strike (Some a) = Inr s0" and m: "good_malloc m" and "orderly_run m s0 s"
  shows "placed_once (places s)"
proof -
  note init_ok [OF m assms(1)]
  with orderly_run_once [OF assms(3) m] show ?thesis by blast
qed

theorem orderly_alarms_place_once_witness: "placed_once (places asleep)"
proof -
  have "orderly_run first_free boot main_runs"
    by (rule more [OF start main_step]) simp
  then have "orderly_run first_free boot asleep"
    by (rule more [OF _ asleep_step]) simp
  with orderly_alarms_place_once [OF boot_state(1) good_first_free] show ?thesis by blast
qed

text \<open>C36: an alarm that is delivered while its thread is no longer asleep puts that thread on
  the ready list once more.  The timer of a sleeper repeats every 10 ms (\<open>it_interval\<close>) until
  the thread itself deletes it, and \<open>dccthread_wakeup\<close> pushes whether or not
  \<open>dlist_find_remove\<close> found the thread, so a sleeper that waits 10 ms for the processor is
  scheduled twice.\<close>

theorem late_alarm_duplicates_thread:
  assumes "sched_wf s" and "good_malloc m" and "timers s i = Some tm" and "armed tm"
    and "target tm \<in> set (p_ready (places s))"
  shows "\<exists>s'. deliver m [i] s = Inr s' \<and>
    count_list (p_ready (places s')) (target tm) = Suc (count_list (p_ready (places s)) (target tm)) \<and>
    \<not> placed_once (places s')"
proof -
  have "valid s (target tm)" using sched_wfD(7) [OF assms(1,3)] .
  from wakeup_refines [OF assms(1,2) this] obtain s' where
    s': "dccthread_wakeup m (target tm) s = Inr s'" "places s' = a_wakeup (target tm) (places s)"
    by blast
  then have "deliver m [i] s = Inr s'" using assms(3,4) by simp
  moreover have "\<not> placed_once (places s')"
    using s' assms(5) by (auto simp: placed_once_def a_wakeup_def)
  ultimately show ?thesis using s' by (auto simp: a_wakeup_def)
qed

theorem late_alarm_duplicates_thread_witness:
  "\<exists>s'. deliver first_free [0] woken = Inr s' \<and> \<not> placed_once (places s')"
  using late_alarm_duplicates_thread [OF woken_state(1) good_first_free woken_state(2)]
  by (auto simp: woken_state(3))

text \<open>C37: a turn of the manager fails exactly when threads are asleep and, after the alarms
  of the turn's window, none is ready: \<open>dlist_pop_left\<close> then answers \<open>NULL\<close> and the manager
  reads \<open>main_thread->waiting_for\<close> through it.\<close>

theorem lone_sleepers_crash_manager:
  assumes "lib_ok s" and "good_malloc m"
  shows "manager_turn m fires s = Inl e \<longleftrightarrow> e = Null_Deref \<and> p_waiting (places s) \<noteq> [] \<and>
    p_ready (places s) = [] \<and> (\<forall>i \<in> set fires. \<forall>tm. timers s i = Some tm \<longrightarrow> \<not> armed tm)"
  using manager_turn_fault [of s m fires e] assms
  by (auto simp: lib_ok_def after_alarms_def a_deliver_ready_nil places_def)

theorem lone_sleepers_crash_manager_witness: "manager_turn first_free [] asleep = Inl Null_Deref"
  using lone_sleepers_crash_manager [OF asleep_state(1) good_first_free, of "[]" Null_Deref]
  by (simp add: asleep_state(3))

text \<open>C5: the thread library is a pool of threads.  After \<open>dccthread_init\<close>, every sequence of actions
  that the environment may take, namely creating, yielding, waiting, sleeping, exiting and returning
  threads, preemptions, alarms and turns of the manager, is a run of a pool in which a thread is in the
  queue, asleep, gone or running and only the front of the queue runs, once the thread it waits for
  is gone; and no such action follows a bad pointer or fails otherwise.\<close>

theorem library_is_a_thread_pool:
  assumes "dccthread_init m strike (Some a) = Inr s0" and "good_malloc m" and "traced may_act (act m) s0 ls s"
  shows "accepts pool_step (first_pool a) ls (pool_of s) \<and>
    (\<forall>e. may_act e s \<longrightarrow> (\<exists>l s'. act m e s = Inr (l, s') \<and> pool_step (pool_of s) l (pool_of s')))"
proof -
  have rel: "pool_inv s0 \<and> good_malloc m \<and> first_pool a = pool_of s0"
    using init_pool [OF assms(2,1)] assms(2) by simp
  obtain p where p: "accepts pool_step (first_pool a) ls p" "pool_inv s" "p = pool_of s"
    using lib.traced_accepted [OF rel assms(3)] by blast
  with act_moves [OF p(2) assms(2)] show ?thesis unfolding moves_def by blast
qed

theorem library_is_a_thread_pool_witness:
  "accepts pool_step (first_pool 0) ([Took []] @ [Slept]) (pool_of asleep) \<and>
   (\<exists>l s'. act first_free (Turn [0]) asleep = Inr (l, s') \<and> pool_step (pool_of asleep) l (pool_of s'))"
proof -
  have "may_act (Turn []) boot" "act first_free (Turn []) boot = Inr (Took [], main_runs)"
    using boot_turn boot_state by (simp_all add: places_def)
  then have "traced may_act (act first_free) boot [Took []] main_runs"
    by (intro traced_snoc [of _ _ _ "[]" boot, simplified] traced_nil)
  moreover have "sched_wf main_runs" using main_runs_state by (simp add: lib_ok_def)
  from sleep_refines [OF this good_first_free, of 0 one_second] main_runs_state(2)
  have "act first_free (Sleep 0 one_second) main_runs = Inr (Slept, asleep)" by (auto simp: asleep_def)
  moreover have "may_act (Sleep 0 one_second) main_runs" using main_runs_state by simp
  ultimately have run: "traced may_act (act first_free) boot ([Took []] @ [Slept]) asleep"
    by (blast intro: traced_snoc)
  have "may_act (Turn [0]) asleep" using asleep_state by (simp add: alarm_of_def places_def)
  with library_is_a_thread_pool [OF boot_state(1) good_first_free run] show ?thesis by blast
qed

text \<open>C8: no thread starves.  Whatever clients, preemptions and alarms do, a thread at position \<open>p\<close>
  of the ready list is the one that the manager takes in its turn number \<open>p + 1\<close>; it gets the processor in that
  turn unless the thread it waits for is still ready or asleep.\<close>

theorem ready_threads_take_turns:
  assumes "dccthread_init m strike (Some a) = Inr s0" and m: "good_malloc m" and "sched_run m s0 evs0 s"
    and p: "p < length (p_ready (places s))" and run: "sched_run m s evs s1" and n: "turns evs = p"
    and step: "sched_step m s1 (Ev_Manager fires o1) s'"
  shows "main_thread s' = p_ready (places s) ! p \<and>
    (o1 = Dispatch \<or> (\<exists>b th. o1 = Again \<and> main_thread s' = Some b \<and> threads s1 b = Some th \<and> waiting_for th \<noteq> None \<and>
      waiting_for th \<in> set (p_ready (places s')) \<union> set (p_waiting (places s'))))"
proof -
  have ok: "lib_ok s" using run_ok [OF assms(3) m] init_ok(1) [OF m assms(1)] by blast
  with run_ok run m have wf: "sched_wf s1" unfolding lib_ok_def by blast
  from step have turn: "manager_turn m fires s1 = Inr (o1, s')" by (auto elim: manager_stepE)
  from queue_moves_up [OF run m ok p] n have front: "p_ready (places s1) \<noteq> []" "p_ready (places s1) ! 0 = p_ready (places s) ! p"
    by auto
  then have go: "o1 \<noteq> Stop" using manager_turn_Stop [OF wf m, of fires s'] turn by auto
  obtain t rs xs ys where r: "p_ready (places s1) @ xs = t # rs" "main_thread s' = t"
    "o1 = Again \<Longrightarrow> held s1 t (p_ready (places s')) (p_waiting (places s'))"
    by (rule turn_takes_front [OF wf m turn go]) simp
  have "t = p_ready (places s1) ! 0" using r(1) front(1) by (cases "p_ready (places s1)") auto
  with r(2,3) front(2) go show ?thesis by (cases o1) (auto simp: held_def)
qed

theorem ready_threads_take_turns_witness: "main_thread main_runs = p_ready (places boot) ! 0 \<and> turns [] = 0"
proof -
  have "0 < length (p_ready (places boot))" using boot_state by simp
  from ready_threads_take_turns [OF boot_state(1) good_first_free run_nil this run_nil _ main_step] show ?thesis by simp
qed

text \<open>C9: the manager is fair and makes progress.  When the ready list is \<open>bs @ t # cs\<close>, every
  thread of \<open>bs\<close> waits for a thread that has not terminated and \<open>t\<close> does not, its loop ends by
  running \<open>t\<close>, whatever timers go off in the windows of its turns, as long as none of them is for the thread that
  \<open>t\<close> waits for.  The threads of \<open>bs\<close> have moved behind \<open>cs\<close> in their order, each behind the sleepers that
  woke up in its turn, and exactly the sleepers that woke up have left the waiting list.\<close>

theorem manager_runs_first_free_thread:
  assumes "sched_wf s" and "good_malloc m" and "distinct (p_ready (places s))"
    and "p_ready (places s) = bs @ t # cs" and "\<forall>b \<in> set bs. blocked s b" and "\<not> blocked s t"
    and "\<forall>k. \<not> held s t (rung (timers s) (fires k)) []"
  shows "\<exists>s'. manager_loop m fires n s = Some (Inr (Dispatch, s')) \<and> p_main (places s') = t \<and>
    p_ready (places s') = cs @ passed_over (\<lambda>k. rung (timers s) (fires k)) n bs \<and>
    p_waiting (places s') = fold remove1 (woken_in (\<lambda>k. rung (timers s) (fires k)) n (length bs)) (p_waiting (places s))"
  by (rule manager_loop_dispatches [OF assms(1,2,4) all_held_blocked [OF assms(3-5)]
      not_blocked_free [OF assms(3,4,6)] assms(7)])

theorem manager_runs_first_free_thread_witness:
  "\<exists>s'. manager_loop first_free (\<lambda>_. [0]) 0 boot = Some (Inr (Dispatch, s')) \<and> p_main (places s') = Some 0"
proof -
  have "sched_wf boot" "p_ready (places boot) = [] @ Some 0 # []" "distinct (p_ready (places boot))"
    using boot_state by (simp_all add: lib_ok_def)
  moreover have "timers boot 0 = None" by code_simp
  then have "\<forall>k. \<not> held boot (Some 0) (rung (timers boot) [0]) []" by (simp add: held_def)
  ultimately show ?thesis
    using manager_runs_first_free_thread [of boot first_free "[]" "Some 0" "[]" "\<lambda>_. [0]" 0] good_first_free
      boot_unblocked by auto
qed

text \<open>C17: \<open>dccthread_wait\<close> keeps its promise.  When the manager gives the processor to a thread
  that was waiting, the thread it waited for is on neither list any more, so it has terminated
  (or is the waiter itself), and \<open>waiting_for\<close> has been cleared.\<close>

theorem waiter_runs_after_target:
  assumes "sched_wf s" and "good_malloc m" and "manager_turn m fires s = Inr (Dispatch, s')"
  shows "\<exists>a th th'. main_thread s' = Some a \<and> threads s a = Some th \<and> threads s' a = Some th' \<and>
    waiting_for th' = None \<and>
    (waiting_for th = None \<or>
     waiting_for th \<notin> set (p_ready (places s')) \<union> set (p_waiting (places s')))"
proof -
  obtain t rs a th where d: "\<not> held s t rs (p_waiting (after_alarms fires s))" "t = Some a"
    "threads s a = Some th" "threads s' = (threads s)(a \<mapsto> th\<lparr>waiting_for := None\<rparr>)"
    "places s' = (after_alarms fires s)\<lparr>p_ready := rs, p_main := t,
      p_cpu := (if resume_at (th_context th) = Entry then Running else Resuming)\<rparr>"
    by (rule manager_turn_Dispatch [OF assms])
  from d(5) have p: "p_main (places s') = t" "p_ready (places s') = rs"
    "p_waiting (places s') = p_waiting (after_alarms fires s)" by simp_all
  have "main_thread s' = Some a" using p(1) d(2) by (simp add: places_def)
  with d(1-4) p(2,3) show ?thesis by (intro exI [of _ a]) (auto simp: held_def)
qed

theorem waiter_runs_after_target_witness: "main_thread main_runs = Some 0"
proof -
  have "sched_wf boot" using boot_state by (simp add: lib_ok_def)
  from waiter_runs_after_target [OF this good_first_free boot_turn] main_runs_state(4)
  show ?thesis by (simp add: places_def)
qed

text \<open>C38: threads that wait for each other hang the whole process: when every ready thread
  waits for another ready thread and no sleeper has a timer that may still wake it (no timer is armed), the
  manager's loop goes round without end (its value is \<open>None\<close>), whatever comes in the windows of its turns,
  and no thread runs any more.\<close>

theorem mutual_wait_hangs:
  assumes "sched_wf s" and "good_malloc m" and "distinct (p_ready (places s))"
    and "p_ready (places s) \<noteq> []" and "\<forall>i tm. timers s i = Some tm \<longrightarrow> \<not> armed tm"
    and "\<forall>x \<in> set (p_ready (places s)). \<exists>a th y. x = Some a \<and> threads s a = Some th \<and>
      waiting_for th = Some y \<and> Some y \<in> set (p_ready (places s)) \<and> Some y \<noteq> x"
  shows "manager_loop m fires n s = None"
proof (rule manager_loop_deadlock [OF assms(2)])
  show "deadlocked s" using assms unfolding deadlocked_def held_def by fastforce
qed

definition duel :: sched where
  "duel = (let s1 = snd (projr (dccthread_create first_free (Some 1) ''t'' main_runs));
               s2 = projr (dccthread_wait first_free (Some 1) s1);
               s3 = snd (projr (manager_turn first_free [] s2)) in
           projr (dccthread_wait first_free (Some 0) s3))"

lemma duel_wf: "lib_ok duel"
proof -
  let ?s1 = "snd (projr (dccthread_create first_free (Some 1) ''t'' main_runs))"
  let ?s2 = "projr (dccthread_wait first_free (Some 1) ?s1)"
  let ?s3 = "snd (projr (manager_turn first_free [] ?s2))"
  have "threads main_runs 1 = None" "\<not> isl (dccthread_create first_free (Some 1) ''t'' main_runs)"
    by code_simp+
  then have "lib_ok ?s1"
    using creates [OF main_runs_state(2), of 1 first_free "''t''" _ ?s1]
      lib_ok_step [OF _ good_first_free main_runs_state(1)]
    by (cases "dccthread_create first_free (Some 1) ''t'' main_runs") auto
  moreover have "cpu ?s1 = Running" "\<not> isl (dccthread_wait first_free (Some 1) ?s1)" by code_simp+
  ultimately have "lib_ok ?s2"
    using waits [of ?s1 first_free "Some 1" ?s2] lib_ok_step [OF _ good_first_free]
    by (cases "dccthread_wait first_free (Some 1) ?s1") auto
  moreover have "cpu ?s2 = Manager" "\<not> isl (manager_turn first_free [] ?s2)" by code_simp+
  ultimately have "lib_ok ?s3"
    using manages [of ?s2 first_free "[]" _ ?s3] lib_ok_step [OF _ good_first_free]
    by (cases "manager_turn first_free [] ?s2") auto
  moreover have "cpu ?s3 = Running" "\<not> isl (dccthread_wait first_free (Some 0) ?s3)" by code_simp+
  ultimately have "lib_ok (projr (dccthread_wait first_free (Some 0) ?s3))"
    using waits [of ?s3 first_free "Some 0" "projr (dccthread_wait first_free (Some 0) ?s3)"]
      lib_ok_step [OF _ good_first_free]
    by (cases "dccthread_wait first_free (Some 0) ?s3") auto
  then show ?thesis by (simp add: duel_def Let_def)
qed

theorem mutual_wait_hangs_witness: "manager_loop first_free (\<lambda>n. [n]) 0 duel = None"
proof -
  have "p_ready (places duel) = [Some 0, Some 1]" by code_simp
  moreover have "map_option waiting_for (threads duel 0) = Some (Some 1)"
    "map_option waiting_for (threads duel 1) = Some (Some 0)" by code_simp+
  moreover have "timers duel i = None" for i by code_simp
  ultimately show ?thesis using duel_wf mutual_wait_hangs [OF _ good_first_free, of duel]
    by (auto simp: lib_ok_def)
qed

text \<open>a thread that sleeps for no time never wakes up.  \<open>timer_settime\<close> with a zero
  \<open>it_value\<close> (or one that is not a valid time) arms nothing, so when the thread has no other
  timer armed, it stays on the waiting list in every state that any run reaches afterwards,
  and never gets the processor.\<close>

theorem zero_sleep_never_wakes:
  assumes "lib_ok s" and "good_malloc m" and "cpu s = Running" and "placed_once (places s)"
    and "\<not> timer_arms ts"
    and "\<forall>j tm. timers s j = Some tm \<and> target tm = main_thread s \<longrightarrow> \<not> armed tm"
    and "dccthread_sleep m i ts s = Inr s1" and "sched_run m s1 evs s2"
  shows "main_thread s \<in> set (p_waiting (places s2)) \<and>
    main_thread s \<notin> set (p_ready (places s2)) \<and>
    (cpu s2 \<noteq> Manager \<longrightarrow> main_thread s2 \<noteq> main_thread s)"
proof -
  have wf: "sched_wf s" using assms(1) by (simp add: lib_ok_def)
  from sleep_refines [OF wf assms(2), of i ts] assms(3,7) have s1: "sched_wf s1"
    "places s1 = a_sleep (places s)"
    "timers s1 = (timers s)(i \<mapsto> \<lparr>target = main_thread s, armed = timer_arms ts\<rparr>)" by auto
  have "masks_ok s1" using assms(1,3,7) by (auto intro: sleep_masks simp: lib_ok_def)
  with s1 have "lib_ok s1" by (simp add: lib_ok_def)
  moreover have "never_woken (main_thread s) s1"
    using s1 assms(3-6) by (auto simp: never_woken_def placed_once_def a_sleep_def places_def)
  ultimately have "never_woken (main_thread s) s2"
    using run_never_woken [OF assms(8,2)] by blast
  then show ?thesis by (auto simp: never_woken_def places_def)
qed

definition no_time :: timespec where
  "no_time = \<lparr>tv_sec = 0, tv_nsec = 0\<rparr>"

theorem zero_sleep_never_wakes_witness:
  "\<exists>s1. dccthread_sleep first_free 0 no_time main_runs = Inr s1 \<and>
    (\<forall>evs s2. sched_run first_free s1 evs s2 \<longrightarrow> Some 0 \<in> set (p_waiting (places s2)))"
proof -
  have "sched_wf main_runs" using main_runs_state(1) by (simp add: lib_ok_def)
  from sleep_refines [OF this good_first_free, of 0 no_time] main_runs_state(2)
  obtain s1 where s1: "dccthread_sleep first_free 0 no_time main_runs = Inr s1" by auto
  have t: "\<not> timer_arms no_time" by (simp add: timer_arms_def no_time_def)
  have "timers main_runs j = None" for j by code_simp
  then have n: "\<forall>j tm. timers main_runs j = Some tm \<and> target tm = main_thread main_runs \<longrightarrow> \<not> armed tm"
    by simp
  have p: "placed_once (places main_runs)" by (simp add: main_runs_state(4) placed_once_def)
  have "main_thread main_runs = Some 0" using main_runs_state(4) by (simp add: places_def)
  with s1 zero_sleep_never_wakes [OF main_runs_state(1) good_first_free main_runs_state(2) p t n s1]
  show ?thesis by auto
qed

text \<open>\<open>dccthread_wait(NULL)\<close> returns at once and leaves both signals blocked, so from then
  on, until the thread calls another operation, neither the preemption signal nor an alarm
  can strike: the thread keeps the processor and no sleeper wakes.\<close>

theorem wait_null_disables_preemption:
  assumes "dccthread_wait m None s = Inr s'"
  shows "threads s' = threads s \<and> places s' = places s \<and>
    (\<forall>s2. \<not> sched_step m s' Ev_Preempt s2) \<and> (\<forall>i s2. \<not> sched_step m s' (Ev_Alarm i) s2)"
proof -
  from assms have "s' = block_mask s" by (simp add: dccthread_wait_def Let_def)
  then show ?thesis
    by (auto simp: block_mask_def places_def elim!: preempt_stepE alarm_stepE)
qed

theorem wait_null_disables_preemption_witness:
  "\<nexists>s2. sched_step first_free (block_mask main_runs) Ev_Preempt s2"
proof -
  have "dccthread_wait first_free None main_runs = Inr (block_mask main_runs)"
    by (simp add: dccthread_wait_def Let_def)
  from wait_null_disables_preemption [OF this] show ?thesis by blast
qed

text \<open>\<open>dccthread_nwaiting\<close> returns the number of sleeping threads.  Its comment says it
  counts the threads that wait for others, but those are on the ready list: a call of
  \<open>dccthread_wait\<close> does not change the answer.\<close>

theorem nwaiting_counts_sleepers:
  assumes "sched_wf s" and "good_malloc m" and "cpu s = Running" and "valid s tid"
  shows "dccthread_nwaiting s = Inr (int (length (p_waiting (places s)))) \<and>
    (\<exists>s'. dccthread_wait m tid s = Inr s' \<and> dccthread_nwaiting s' = dccthread_nwaiting s)"
proof -
  from wait_refines [OF assms(1,2) _ assms(4)] assms(3) obtain s' where
    "dccthread_wait m tid s = Inr s'" "sched_wf s'" "places s' = a_yield (places s)" by auto
  then show ?thesis using assms(1)
    by (auto simp: sched_wf_def nwaiting_eq places_def a_yield_def)
qed

theorem nwaiting_counts_sleepers_witness:
  "\<exists>s'. dccthread_wait first_free (Some 0) main_runs = Inr s' \<and> dccthread_nwaiting s' = Inr 0"
proof -
  have wf: "sched_wf main_runs" using main_runs_state(1) by (simp add: lib_ok_def)
  have "main_thread main_runs = Some 0" using main_runs_state(4) by (simp add: places_def)
  then have "valid main_runs (Some 0)"
    using sched_wfD(8) [OF wf] main_runs_state(2) by simp
  from nwaiting_counts_sleepers [OF wf good_first_free main_runs_state(2) this]
  show ?thesis by (auto simp: main_runs_state(4))
qed

text \<open>\<open>dccthread_nexited\<close> returns the number of threads on the finished list that no
  \<open>dccthread_wait\<close> named, and only \<open>dccthread_exit\<close> puts a thread there: a thread whose
  function returns terminates without being counted.\<close>

theorem nexited_counts_exits:
  assumes "sched_wf s"
  shows "dccthread_nexited s = Inr (int (length (filter
      (\<lambda>x. \<exists>a t. x = Some a \<and> threads s a = Some t \<and> has_waited t = 0) (p_finished (places s))))) \<and>
    dccthread_nexited (thread_returns s) = dccthread_nexited s"
proof -
  have "sched_wf (thread_returns s)" using assms by (simp add: sched_wf_def thread_returns_def)
  from nexited_eq [OF this] nexited_eq [OF assms] show ?thesis
    by (simp add: places_def thread_returns_def)
qed

theorem nexited_counts_exits_witness: "dccthread_nexited (thread_returns main_runs) = Inr 0"
proof -
  have "sched_wf main_runs" using main_runs_state(1) by (simp add: lib_ok_def)
  from nexited_counts_exits [OF this] show ?thesis by (simp add: main_runs_state(4))
qed

end
