(* ===== verification/Machine.thy ===== *)
theory Machine
  imports Prelude
begin

text \<open>
  The state of the paging system of \<open>TP 2\<close>: the globals of \<open>pager.c\<close> (frames, blocks, page
  tables, the mutex), those of \<open>mmu.c\<close> (physical memory, disk, clients, process ids) and the
  mappings that the client processes have installed on the orders of the MMU.  A page of a
  process lives in an array that \<open>realloc\<close> may move, so a \<open>page_t *\<close> is the address of its
  array with an index, and \<open>page_arrays\<close> holds the arrays that are allocated; following a
  pointer into an array that was moved or freed is a fault.  What \<open>malloc\<close> and \<open>realloc\<close>
  return, and what the memory they return holds, are arguments of the operations.
\<close>

section \<open>Data\<close>

type_synonym page_ptr = "(nat \<times> nat) option"

record page_t =
  isvalid :: int
  frame_number :: int
  block_number :: int
  is_allocated :: int
  addr :: int

record page_table_t =
  pt_pid :: int
  pt_pages :: ptr
  page_count :: nat
  page_capacity :: nat

record frames_t =
  fr_pid :: int
  reference_bit :: int
  fr_page :: page_ptr

record blocks_t =
  bl_allocated :: int
  bl_page :: page_ptr

record mmu_client =
  cl_running :: bool
  cl_pid :: int

text \<open>What the programs print, one constructor per \<open>printf\<close> of the paging operations.\<close>

datatype printed =
    Zero_Fill int
  | Resident int int int int
  | Nonresident int int
  | Chprot int int int
  | Disk_Read int int
  | Disk_Write int int
  | Bytes "32 word list"
  | Pid_Not_Found int
  | Pager_Create int
  | Pager_Extend int int
  | Pager_Syslog int int
  | Pager_Fault int int
  | Pager_Destroy int

record machine =
  fl_size :: nat
  page_size :: nat
  second_chance_index :: nat
  frames :: "frames_t list"
  nblocks :: nat
  blocks :: "blocks_t list"
  page_list :: "page_table_t list"
  page_tables_capacity :: nat
  page_arrays :: "nat \<rightharpoonup> page_t list"
  mutex :: bool
  pmem :: "byte list"
  disk :: "byte list"
  id2pid :: "int list"
  nextid :: "8 word"
  sock2client :: "nat \<rightharpoonup> mmu_client"
  mmu_running :: bool
  mappings :: "int \<Rightarrow> int \<rightharpoonup> nat \<times> int"
  trace :: "printed list"

definition INVALID_PID :: int where
  "INVALID_PID = -1"

definition UVM_BASEADDR :: int where
  "UVM_BASEADDR = 0x60000000"

definition UVM_MAXADDR :: int where
  "UVM_MAXADDR = 0x600FFFFF"

definition PROT_NONE :: int where "PROT_NONE = 0"
definition PROT_READ :: int where "PROT_READ = 1"
definition PROT_WRITE :: int where "PROT_WRITE = 2"

definition MMU_MAX_SOCK :: nat where
  "MMU_MAX_SOCK = 1024"

section \<open>Reading and writing the C objects\<close>

text \<open>An array access with a C index: out of range is a fault.\<close>

definition at :: "'a list \<Rightarrow> int \<Rightarrow> 'a result" where
  "at xs i = (if 0 \<le> i \<and> i < int (length xs) then Inr (xs ! nat i) else Inl Out_Of_Bounds)"

definition set_at :: "int \<Rightarrow> ('a \<Rightarrow> 'a) \<Rightarrow> 'a list \<Rightarrow> 'a list result" where
  "set_at i f xs = (if 0 \<le> i \<and> i < int (length xs) then Inr (xs[nat i := f (xs ! nat i)])
                    else Inl Out_Of_Bounds)"

definition load_page :: "page_ptr \<Rightarrow> machine \<Rightarrow> page_t result" where
  "load_page p m = (case p of None \<Rightarrow> Inl Null_Deref
     | Some (a, i) \<Rightarrow> (case page_arrays m a of None \<Rightarrow> Inl Bad_Pointer
         | Some ps \<Rightarrow> at ps (int i)))"

definition store_page :: "page_ptr \<Rightarrow> (page_t \<Rightarrow> page_t) \<Rightarrow> machine \<Rightarrow> machine result" where
  "store_page p f m = (case p of None \<Rightarrow> Inl Null_Deref
     | Some (a, i) \<Rightarrow> (case page_arrays m a of None \<Rightarrow> Inl Bad_Pointer
         | Some ps \<Rightarrow> rbind (set_at (int i) f ps) (\<lambda>ps'.
             Inr (m\<lparr>page_arrays := (page_arrays m)(a \<mapsto> ps')\<rparr>))))"

definition store_frame :: "int \<Rightarrow> (frames_t \<Rightarrow> frames_t) \<Rightarrow> machine \<Rightarrow> machine result" where
  "store_frame i f m = rbind (set_at i f (frames m)) (\<lambda>fs. Inr (m\<lparr>frames := fs\<rparr>))"

definition store_block :: "int \<Rightarrow> (blocks_t \<Rightarrow> blocks_t) \<Rightarrow> machine \<Rightarrow> machine result" where
  "store_block i f m = rbind (set_at i f (blocks m)) (\<lambda>bs. Inr (m\<lparr>blocks := bs\<rparr>))"

definition store_table :: "nat \<Rightarrow> (page_table_t \<Rightarrow> page_table_t) \<Rightarrow> machine \<Rightarrow> machine result" where
  "store_table i f m = rbind (set_at (int i) f (page_list m)) (\<lambda>ts. Inr (m\<lparr>page_list := ts\<rparr>))"

definition emit :: "printed \<Rightarrow> machine \<Rightarrow> machine" where
  "emit e m = m\<lparr>trace := trace m @ [e]\<rparr>"

text \<open>The mutex is not recursive: a thread that holds it and locks it again never returns.\<close>

definition lock :: "machine \<Rightarrow> machine result" where
  "lock m = (if mutex m then Inl Self_Deadlock else Inr (m\<lparr>mutex := True\<rparr>))"

definition unlock :: "machine \<Rightarrow> machine" where
  "unlock m = m\<lparr>mutex := False\<rparr>"

text \<open>\<open>free\<close> of a page array; freeing \<open>NULL\<close> does nothing.\<close>

definition free_array :: "ptr \<Rightarrow> machine \<Rightarrow> machine result" where
  "free_array p m = (case p of None \<Rightarrow> Inr m
     | Some a \<Rightarrow> (case page_arrays m a of None \<Rightarrow> Inl Bad_Pointer
         | Some ps \<Rightarrow> Inr (m\<lparr>page_arrays := (page_arrays m)(a := None)\<rparr>)))"

text \<open>
  \<open>realloc(p, n)\<close>, whose answer is a new address with the memory found there: the old
  elements are copied, the rest is whatever the memory held.
\<close>

definition realloc_array ::
  "(nat \<times> page_t list) option \<Rightarrow> ptr \<Rightarrow> nat \<Rightarrow> machine \<Rightarrow> (ptr \<times> machine) result" where
  "realloc_array answer p n m =
     rbind (case p of None \<Rightarrow> Inr [] | Some a \<Rightarrow>
         (case page_arrays m a of None \<Rightarrow> Inl Bad_Pointer | Some ps \<Rightarrow> Inr ps)) (\<lambda>old.
     case answer of None \<Rightarrow> Inr (None, m)
     | Some (a', junk) \<Rightarrow>
         let new = take n (old @ drop (length old) junk);
             freed = (case p of None \<Rightarrow> page_arrays m | Some a \<Rightarrow> (page_arrays m)(a := None)) in
         Inr (Some a', m\<lparr>page_arrays := freed(a' \<mapsto> new)\<rparr>))"

section \<open>The frame and block contents\<close>

definition frame_bytes :: "machine \<Rightarrow> int \<Rightarrow> byte list" where
  "frame_bytes m f = chunk (nat f * page_size m) (page_size m) (pmem m)"

definition block_bytes :: "machine \<Rightarrow> int \<Rightarrow> byte list" where
  "block_bytes m b = chunk (nat b * page_size m) (page_size m) (disk m)"

lemma at_eq_Inr: "at xs i = Inr x \<longleftrightarrow> 0 \<le> i \<and> i < int (length xs) \<and> x = xs ! nat i"
  by (auto simp: at_def)

lemma at_ok [simp]: "0 \<le> i \<Longrightarrow> i < int (length xs) \<Longrightarrow> at xs i = Inr (xs ! nat i)"
  by (simp add: at_def)

lemma set_at_eq_Inr:
  "set_at i f xs = Inr ys \<longleftrightarrow> 0 \<le> i \<and> i < int (length xs) \<and> ys = xs[nat i := f (xs ! nat i)]"
  by (auto simp: set_at_def)

lemma set_at_ok [simp]:
  "0 \<le> i \<Longrightarrow> i < int (length xs) \<Longrightarrow> set_at i f xs = Inr (xs[nat i := f (xs ! nat i)])"
  by (simp add: set_at_def)

end
