(* ===== verification/Pager_Tables.thy ===== *)
theory Pager_Tables
  imports Machine
begin

text \<open>
  The part of \<open>TP 2/src/pager.c\<close> that only touches the pager's own tables: searching frames,
  blocks, tables and pages, the clock of the second-chance algorithm, and \<open>pager_init\<close>,
  \<open>pager_create\<close>, \<open>pager_extend\<close>, \<open>pager_destroy\<close>.
\<close>

section \<open>Searches\<close>

definition find_free_frame :: "machine \<Rightarrow> int" where
  "find_free_frame m =
     (case find_index (\<lambda>fr. fr_pid fr = INVALID_PID) (take (fl_size m) (frames m)) of
        Some i \<Rightarrow> int i | None \<Rightarrow> INVALID_PID)"

definition find_free_block :: "machine \<Rightarrow> int" where
  "find_free_block m =
     (case find_index (\<lambda>b. bl_page b = None) (take (nblocks m) (blocks m)) of
        Some i \<Rightarrow> int i | None \<Rightarrow> INVALID_PID)"

text \<open>The position of the table in \<open>page_list\<close>; the process exits when there is none.\<close>

definition find_page_table :: "int \<Rightarrow> machine \<Rightarrow> nat result" where
  "find_page_table pid m =
     (case find_index (\<lambda>t. pt_pid t = pid) (page_list m) of
        Some i \<Rightarrow> Inr i | None \<Rightarrow> Inl (Exited INVALID_PID))"

definition table_pages :: "page_table_t \<Rightarrow> machine \<Rightarrow> page_t list result" where
  "table_pages t m =
     (if page_count t = 0 then Inr [] else
      rbind (the_ptr (pt_pages t)) (\<lambda>a.
      case page_arrays m a of None \<Rightarrow> Inl Bad_Pointer
      | Some ps \<Rightarrow> rbind (check (page_count t \<le> length ps) Out_Of_Bounds) (\<lambda>_.
          Inr (take (page_count t) ps))))"

definition get_page :: "nat \<Rightarrow> int \<Rightarrow> machine \<Rightarrow> page_ptr result" where
  "get_page ti va m =
     (let t = page_list m ! ti in
      rbind (table_pages t m) (\<lambda>ps.
      case find_index (\<lambda>p. va \<ge> addr p \<and> va < addr p + int (page_size m)) ps of
        None \<Rightarrow> Inr None
      | Some i \<Rightarrow> (case pt_pages t of None \<Rightarrow> Inl Null_Deref | Some a \<Rightarrow> Inr (Some (a, i)))))"

section \<open>The second-chance clock\<close>

partial_function (option) swap_search :: "machine \<Rightarrow> (int \<times> machine) result option" where
  "swap_search m =
     (let index = second_chance_index m in
      if index < length (frames m) \<and> fl_size m \<noteq> 0 then
        (let m1 = m\<lparr>second_chance_index := (index + 1) mod fl_size m\<rparr> in
         if reference_bit (frames m ! index) = 0 then Some (Inr (int index, m1))
         else swap_search (m1\<lparr>frames := (frames m)[index := (frames m ! index)\<lparr>reference_bit := 0\<rparr>]\<rparr>))
      else Some (Inl Out_Of_Bounds))"

definition find_frame_to_swap :: "machine \<Rightarrow> (int \<times> machine) result" where
  "find_frame_to_swap m = returns (swap_search m)"

lemmas swap_search_code [code] = swap_search.simps

section \<open>Releasing the pages of a process\<close>

definition free_page :: "page_t \<Rightarrow> machine \<Rightarrow> machine result" where
  "free_page page m =
     (if isvalid page = 1
      then store_frame (frame_number page) (\<lambda>fr. fr\<lparr>fr_pid := INVALID_PID\<rparr>) m else Inr m)"

text \<open>The \<open>while\<close> loop of \<open>free_page_list\<close>, with \<open>page_count\<close> pages still to go.\<close>

fun free_page_loop :: "nat \<Rightarrow> nat \<Rightarrow> machine \<Rightarrow> machine result" where
  "free_page_loop ti 0 m = Inr m"
| "free_page_loop ti (Suc n) m =
     rbind (store_table ti (\<lambda>t. t\<lparr>page_count := n\<rparr>) m) (\<lambda>m1.
     rbind (the_ptr (pt_pages (page_list m1 ! ti))) (\<lambda>a.
     rbind (load_page (Some (a, n)) m1) (\<lambda>page.
     rbind (store_block (block_number page) (\<lambda>b. b\<lparr>bl_page := None\<rparr>) m1) (\<lambda>m2.
     rbind (free_page page m2) (\<lambda>m3.
     free_page_loop ti n m3)))))"

definition free_page_list :: "nat \<Rightarrow> machine \<Rightarrow> machine result" where
  "free_page_list ti m =
     rbind (free_page_loop ti (page_count (page_list m ! ti)) m) (\<lambda>m1.
     free_array (pt_pages (page_list m1 ! ti)) m1)"

section \<open>Operations\<close>

text \<open>
  \<open>frame_mem\<close> and \<open>block_mem\<close> are what \<open>malloc\<close> found in the memory of the two arrays; the
  code initialises one field of each element.
\<close>

definition pager_init ::
  "frames_t list \<Rightarrow> blocks_t list \<Rightarrow> nat \<Rightarrow> nat \<Rightarrow> nat \<Rightarrow> machine \<Rightarrow> machine result" where
  "pager_init frame_mem block_mem pagesz nframes nblks m =
     rbind (lock m) (\<lambda>m0.
     let m1 = m0\<lparr>fl_size := nframes, page_size := pagesz, second_chance_index := 0,
                 frames := map (\<lambda>fr. fr\<lparr>fr_pid := INVALID_PID\<rparr>) (take nframes frame_mem)\<rparr>;
         m2 = m1\<lparr>nblocks := nblks,
                 blocks := map (\<lambda>b. b\<lparr>bl_allocated := 0\<rparr>) (take nblks block_mem)\<rparr> in
     Inr (unlock (m2\<lparr>page_list := []\<rparr>)))"

text \<open>\<open>memory\<close> is the answer of \<open>malloc(0)\<close>.\<close>

definition pager_create :: "ptr \<Rightarrow> int \<Rightarrow> machine \<Rightarrow> machine result" where
  "pager_create memory pid m =
     rbind (lock m) (\<lambda>m0.
     let m1 = (if length (page_list m0) = page_tables_capacity m0
               then m0\<lparr>page_tables_capacity := page_tables_capacity m0 * 2\<rparr> else m0);
         t = \<lparr>pt_pid = pid, pt_pages = memory, page_count = 0, page_capacity = 0\<rparr>;
         arrays = (case memory of None \<Rightarrow> page_arrays m1 | Some a \<Rightarrow> (page_arrays m1)(a \<mapsto> [])) in
     Inr (unlock (m1\<lparr>page_list := page_list m1 @ [t], page_arrays := arrays\<rparr>)))"

text \<open>The \<open>realloc\<close> of \<open>pager_extend\<close>, when the array of the process is full.\<close>

definition grow_pages ::
  "(nat \<times> page_t list) option \<Rightarrow> nat \<Rightarrow> machine \<Rightarrow> machine result" where
  "grow_pages memory ti m =
     (let t = page_list m ! ti in
      if page_count t = page_capacity t then
        (let cap = (if page_capacity t = 0 then 1 else page_capacity t * 2) in
         rbind (realloc_array memory (pt_pages t) cap m) (\<lambda>(p, m1).
         store_table ti (\<lambda>t. t\<lparr>page_capacity := cap, pt_pages := p\<rparr>) m1))
      else Inr m)"

definition pager_extend ::
  "(nat \<times> page_t list) option \<Rightarrow> int \<Rightarrow> machine \<Rightarrow> (int option \<times> machine) result" where
  "pager_extend memory pid m =
     rbind (lock m) (\<lambda>m0.
     let block_no = find_free_block m0 in
     if block_no = INVALID_PID then Inr (None, unlock m0) else
     rbind (find_page_table pid m0) (\<lambda>ti.
     rbind (grow_pages memory ti m0) (\<lambda>m1.
     let n = page_count (page_list m1 ! ti);
         va = UVM_BASEADDR + int n * int (page_size m1) in
     rbind (store_table ti (\<lambda>t. t\<lparr>page_count := n + 1\<rparr>) m1) (\<lambda>m2.
     rbind (the_ptr (pt_pages (page_list m2 ! ti))) (\<lambda>a.
     rbind (store_page (Some (a, n))
              (\<lambda>p. p\<lparr>isvalid := 0, addr := va, block_number := block_no\<rparr>) m2) (\<lambda>m3.
     rbind (store_block block_no (\<lambda>b. b\<lparr>bl_page := Some (a, n)\<rparr>) m3) (\<lambda>m4.
     Inr (Some va, unlock m4))))))))"

definition pager_destroy :: "int \<Rightarrow> machine \<Rightarrow> machine result" where
  "pager_destroy pid m =
     rbind (lock m) (\<lambda>m0.
     rbind (find_page_table pid m0) (\<lambda>ti.
     rbind (free_page_list ti m0) (\<lambda>m1.
     Inr (unlock m1))))"

end
