(* ===== verification/Bytes.thy ===== *)
theory Bytes
  imports Prelude
begin

text \<open>
  Little-endian integers in byte arrays: what the packed structures of the MMU protocol and the
  blocks of the file system hold on the machines the programs run on.
\<close>

definition le_bytes :: "nat \<Rightarrow> 'a::len word \<Rightarrow> byte list" where
  "le_bytes n w = map (\<lambda>i. ucast (drop_bit (8 * i) w)) [0..<n]"

primrec of_le :: "byte list \<Rightarrow> 'a::len word" where
  "of_le [] = 0"
| "of_le (b # bs) = or (ucast b) (push_bit 8 (of_le bs))"

lemma length_le_bytes [simp]: "length (le_bytes n w) = n"
  by (simp add: le_bytes_def)

lemma bit_of_le:
  "bit (of_le bs :: 'a::len word) i \<longleftrightarrow>
     i < LENGTH('a) \<and> i div 8 < length bs \<and> bit (bs ! (i div 8)) (i mod 8)"
proof (induction bs arbitrary: i)
  case Nil
  then show ?case by simp
next
  case (Cons b bs)
  show ?case
  proof (cases "i < 8")
    case True
    then show ?thesis by (auto simp: bit_or_iff bit_ucast_iff bit_push_bit_iff)
  next
    case False
    then obtain k where k: "i = k + 8" by (metis add.commute le_add_diff_inverse not_less)
    have "(k + 8) div 8 = Suc (k div 8)" by simp
    moreover have "\<not> bit b (k + 8)" using bit_imp_le_length [of b "k + 8"] by auto
    ultimately show ?thesis using k Cons [of k]
      by (auto simp: bit_or_iff bit_ucast_iff bit_push_bit_iff)
  qed
qed

lemma bit_le_bytes:
  fixes w :: "'a::len word"
  shows "k < n \<Longrightarrow> bit (le_bytes n w ! k) j \<longleftrightarrow> j < 8 \<and> bit w (8 * k + j)"
  by (auto simp: le_bytes_def bit_ucast_iff bit_drop_bit_eq)

lemma of_le_bytes [simp]:
  fixes w :: "'a::len word"
  assumes "LENGTH('a) \<le> 8 * n"
  shows "of_le (le_bytes n w) = w"
proof (rule bit_eqI)
  fix i assume "possible_bit TYPE('a word) i"
  then have i: "i < LENGTH('a)" by (simp add: possible_bit_word)
  with assms have "i div 8 < n" by linarith
  with i show "bit (of_le (le_bytes n w) :: 'a word) i \<longleftrightarrow> bit w i"
    by (simp add: bit_of_le bit_le_bytes)
qed

lemma le_bytes_of_le:
  assumes "length bs = n" and "8 * n \<le> LENGTH('a)"
  shows "le_bytes n (of_le bs :: 'a::len word) = bs"
proof (rule nth_equalityI)
  fix k assume "k < length (le_bytes n (of_le bs :: 'a word))"
  then have k: "k < n" by simp
  show "le_bytes n (of_le bs :: 'a word) ! k = bs ! k"
  proof (rule bit_eqI)
    fix j assume "possible_bit TYPE(8 word) j"
    then have j: "j < 8" by (simp add: possible_bit_word)
    moreover have "8 * k + j < LENGTH('a)" using k j assms(2) by linarith
    ultimately show "bit (le_bytes n (of_le bs :: 'a word) ! k) j \<longleftrightarrow> bit (bs ! k) j"
      using k assms(1) by (simp add: bit_le_bytes bit_of_le)
  qed
qed (use assms in simp)

end
