(* ===== verification/Message.thy ===== *)
theory Message
  imports Bytes
begin

text \<open>
  The messages of \<open>TP 2/src/mmuproto.h\<close> as they travel on the socket: the packed structures, and how the two
  sides read them from the stream.
\<close>

datatype message =
    Create_Req "32 word"
  | Create_Rep "byte list"
  | Extend_Req
  | Extend_Rep "64 word"
  | Syslog_Req "32 word" "64 word"
  | Syslog_Rep "32 word"
  | Segv_Req "32 word" "64 word"
  | Segv_Rep
  | Remap_Req
  | Remap_Rep "32 word" "64 word" "64 word"
  | Chprot_Req
  | Chprot_Rep "32 word" "64 word"
  | Exit_Req
  | Exit_Rep

definition MMU_PROTO_PATH_MAX :: nat where
  "MMU_PROTO_PATH_MAX = 108"

primrec msg_type :: "message \<Rightarrow> 32 word" where
  "msg_type (Create_Req _) = 1"
| "msg_type (Create_Rep _) = 2"
| "msg_type Extend_Req = 3"
| "msg_type (Extend_Rep _) = 4"
| "msg_type (Syslog_Req _ _) = 5"
| "msg_type (Syslog_Rep _) = 6"
| "msg_type (Segv_Req _ _) = 7"
| "msg_type Segv_Rep = 8"
| "msg_type Remap_Req = 9"
| "msg_type (Remap_Rep _ _ _) = 10"
| "msg_type Chprot_Req = 11"
| "msg_type (Chprot_Rep _ _) = 12"
| "msg_type Exit_Req = 32"
| "msg_type Exit_Rep = 33"

text \<open>The fields after \<open>type\<close>, in the order of the packed structures.\<close>

primrec msg_fields :: "message \<Rightarrow> byte list" where
  "msg_fields (Create_Req pid) = le_bytes 4 pid"
| "msg_fields (Create_Rep fn) = fn"
| "msg_fields Extend_Req = []"
| "msg_fields (Extend_Rep va) = le_bytes 8 va"
| "msg_fields (Syslog_Req len va) = le_bytes 4 len @ le_bytes 8 va"
| "msg_fields (Syslog_Rep ret) = le_bytes 4 ret"
| "msg_fields (Segv_Req code va) = le_bytes 4 code @ le_bytes 8 va"
| "msg_fields Segv_Rep = []"
| "msg_fields Remap_Req = []"
| "msg_fields (Remap_Rep prot off va) = le_bytes 4 prot @ le_bytes 8 off @ le_bytes 8 va"
| "msg_fields Chprot_Req = []"
| "msg_fields (Chprot_Rep prot va) = le_bytes 4 prot @ le_bytes 8 va"
| "msg_fields Exit_Req = []"
| "msg_fields Exit_Rep = []"

definition encode :: "message \<Rightarrow> byte list" where
  "encode m = le_bytes 4 (msg_type m) @ msg_fields m"

text \<open>\<open>recv\<close> with \<open>MSG_PEEK\<close>: the type of the message at the front of the stream.\<close>

definition peek_type :: "byte list \<Rightarrow> 32 word option" where
  "peek_type bs = (if 4 \<le> length bs then Some (of_le (take 4 bs)) else None)"

definition recv_struct :: "nat \<Rightarrow> (byte list \<Rightarrow> message) \<Rightarrow> byte list \<Rightarrow> (message \<times> byte list) option" where
  "recv_struct n mk bs = (if n \<le> length bs then Some (mk (take n bs), drop n bs) else None)"

definition decode :: "byte list \<Rightarrow> (message \<times> byte list) option" where
  "decode bs = (case peek_type bs of None \<Rightarrow> None | Some t \<Rightarrow>
     (if t = 1 then recv_struct 8 (\<lambda>b. Create_Req (of_le (chunk 4 4 b))) bs
      else if t = 2 then recv_struct (4 + MMU_PROTO_PATH_MAX)
                           (\<lambda>b. Create_Rep (chunk 4 MMU_PROTO_PATH_MAX b)) bs
      else if t = 3 then recv_struct 4 (\<lambda>b. Extend_Req) bs
      else if t = 4 then recv_struct 12 (\<lambda>b. Extend_Rep (of_le (chunk 4 8 b))) bs
      else if t = 5 then recv_struct 16
                           (\<lambda>b. Syslog_Req (of_le (chunk 4 4 b)) (of_le (chunk 8 8 b))) bs
      else if t = 6 then recv_struct 8 (\<lambda>b. Syslog_Rep (of_le (chunk 4 4 b))) bs
      else if t = 7 then recv_struct 16
                           (\<lambda>b. Segv_Req (of_le (chunk 4 4 b)) (of_le (chunk 8 8 b))) bs
      else if t = 8 then recv_struct 4 (\<lambda>b. Segv_Rep) bs
      else if t = 9 then recv_struct 4 (\<lambda>b. Remap_Req) bs
      else if t = 10 then recv_struct 24 (\<lambda>b. Remap_Rep (of_le (chunk 4 4 b))
                            (of_le (chunk 8 8 b)) (of_le (chunk 16 8 b))) bs
      else if t = 11 then recv_struct 4 (\<lambda>b. Chprot_Req) bs
      else if t = 12 then recv_struct 16
                            (\<lambda>b. Chprot_Rep (of_le (chunk 4 4 b)) (of_le (chunk 8 8 b))) bs
      else if t = 32 then recv_struct 4 (\<lambda>b. Exit_Req) bs
      else if t = 33 then recv_struct 4 (\<lambda>b. Exit_Rep) bs
      else None))"

end
