(* ===== verification/Uvm_Thread.thy ===== *)
theory Uvm_Thread
  imports Message Machine
begin

text \<open>
  The thread of a client process that reads the messages of the MMU, \<open>uvm_thread\<close> of \<open>TP 2/src/uvm.c\<close>, with
  the handler of each message: the replies to requests of the process, and the orders of the MMU to map and protect
  pages.  A failed assertion ends the process at once (\<open>Assert_Failed\<close>), \<open>prexit\<close> ends it with \<open>exit\<close>.
\<close>

definition EXIT_FAILURE :: int where
  "EXIT_FAILURE = 1"

section \<open>Replies\<close>

record uvm =
  uvm_sock :: nat
  uvm_pid :: int
  uvm_npages :: nat
  uvm_result :: int

text \<open>The reply handlers run under the mutex of \<open>uvm\<close> and set \<open>result\<close>.\<close>

definition uvm_proto_extend_rep :: "message \<Rightarrow> uvm \<Rightarrow> uvm result" where
  "uvm_proto_extend_rep rep u = (case rep of
     Extend_Rep va \<Rightarrow> Inr (u\<lparr>uvm_result := sint va\<rparr>) | _ \<Rightarrow> Inl Assert_Failed)"

definition uvm_proto_syslog_rep :: "message \<Rightarrow> uvm \<Rightarrow> uvm result" where
  "uvm_proto_syslog_rep rep u = (case rep of
     Syslog_Rep ret \<Rightarrow> Inr (u\<lparr>uvm_result := uint ret\<rparr>) | _ \<Rightarrow> Inl Assert_Failed)"

definition uvm_proto_segv_rep :: "message \<Rightarrow> uvm \<Rightarrow> uvm result" where
  "uvm_proto_segv_rep rep u = (case rep of Segv_Rep \<Rightarrow> Inr u | _ \<Rightarrow> Inl Assert_Failed)"

section \<open>Orders\<close>

text \<open>
  \<open>mmap\<close> puts the page at the address it was asked for when address and offset are multiples of the page size
  and the offset is not negative; \<open>mprotect\<close> fails on an address that is not mapped.  The handlers return the
  message they send.
\<close>

definition uvm_proto_remap_rep :: "message \<Rightarrow> uvm \<Rightarrow> machine \<Rightarrow> (message \<times> machine) result" where
  "uvm_proto_remap_rep rep u m = (case rep of
     Remap_Rep prot off va \<Rightarrow>
       rbind (check (sint prot \<noteq> PROT_NONE) Assert_Failed) (\<lambda>_.
       rbind (check (va \<noteq> -1) Assert_Failed) (\<lambda>_.
       rbind (check (sint va mod int (page_size m) = 0 \<and> 0 \<le> sint off \<and> sint off mod int (page_size m) = 0)
                (Exited EXIT_FAILURE)) (\<lambda>_.
       Inr (Remap_Req, m\<lparr>mappings := (mappings m)(uvm_pid u :=
              (mappings m (uvm_pid u))(sint va \<mapsto> (nat (sint off), sint prot)))\<rparr>))))
   | _ \<Rightarrow> Inl Assert_Failed)"

definition uvm_proto_chprot_rep :: "message \<Rightarrow> uvm \<Rightarrow> machine \<Rightarrow> (message \<times> machine) result" where
  "uvm_proto_chprot_rep rep u m = (case rep of
     Chprot_Rep prot va \<Rightarrow>
       rbind (check (va \<noteq> -1) Assert_Failed) (\<lambda>_.
       case mappings m (uvm_pid u) (sint va) of
         None \<Rightarrow> Inl (Exited EXIT_FAILURE)
       | Some (offset, _) \<Rightarrow> Inr (Chprot_Req, m\<lparr>mappings := (mappings m)(uvm_pid u :=
              (mappings m (uvm_pid u))(sint va \<mapsto> (offset, sint prot)))\<rparr>))
   | _ \<Rightarrow> Inl Assert_Failed)"

section \<open>The thread\<close>

text \<open>One message in \<open>uvm_thread\<close>: whether the thread goes on, what it sends, and what the handler did.\<close>

definition uvm_thread_turn :: "message \<Rightarrow> uvm \<Rightarrow> machine \<Rightarrow> (bool \<times> message option \<times> uvm \<times> machine) result" where
  "uvm_thread_turn msg u m =
     (case msg of
        Extend_Rep _ \<Rightarrow> rbind (uvm_proto_extend_rep msg u) (\<lambda>u1. Inr (True, None, u1, m))
      | Syslog_Rep _ \<Rightarrow> rbind (uvm_proto_syslog_rep msg u) (\<lambda>u1. Inr (True, None, u1, m))
      | Segv_Rep \<Rightarrow> rbind (uvm_proto_segv_rep msg u) (\<lambda>u1. Inr (True, None, u1, m))
      | Remap_Rep _ _ _ \<Rightarrow> rbind (uvm_proto_remap_rep msg u m) (\<lambda>(req, m1). Inr (True, Some req, u, m1))
      | Chprot_Rep _ _ \<Rightarrow> rbind (uvm_proto_chprot_rep msg u m) (\<lambda>(req, m1). Inr (True, Some req, u, m1))
      | Exit_Rep \<Rightarrow> Inr (False, None, u, m)
      | _ \<Rightarrow> Inl (Exited EXIT_FAILURE))"

text \<open>
  The thread at the front of a stream: it reads one message and sends the bytes of its answer, if there is one.
  When the process ends with \<open>exit\<close>, the handler \<open>uvm_exit\<close> sends \<open>EXIT_REQ\<close>; when it is aborted, nothing is sent
  and the connection closes (\<open>None\<close>).
\<close>

definition uvm_thread_reads :: "uvm \<Rightarrow> byte list \<Rightarrow> machine \<Rightarrow> (byte list \<times> machine) option" where
  "uvm_thread_reads u stream m =
     (case decode stream of
        None \<Rightarrow> Some (encode Exit_Req, m)
      | Some (msg, _) \<Rightarrow>
          (case uvm_thread_turn msg u m of
             Inr (_, Some req, _, m1) \<Rightarrow> Some (encode req, m1)
           | Inr (_, None, _, m1) \<Rightarrow> Some ([], m1)
           | Inl (Exited _) \<Rightarrow> Some (encode Exit_Req, m)
           | Inl _ \<Rightarrow> None))"

end
