(* ===== verification/Mmu.thy ===== *)
theory Mmu
  imports Pager_Tables Uvm_Thread
begin

text \<open>
  The services of \<open>TP 2/src/mmu.c\<close> that the pager calls.  An order to map or protect a page is a message: it is
  built here, goes as bytes through the socket to the thread of the client process (\<open>Uvm_Thread\<close>), and the MMU
  waits for the bytes of the answer.  \<open>net\<close> is the outside world: it tells for each socket whether messages still
  get through.  A failed exchange makes the MMU destroy the client, which calls back into the pager.
\<close>

section \<open>Clients\<close>

definition get_pid_id :: "int \<Rightarrow> machine \<Rightarrow> nat result" where
  "get_pid_id pid m = (case find_index (\<lambda>p. p = pid) (id2pid m) of
     Some i \<Rightarrow> Inr i | None \<Rightarrow> Inl Out_Of_Bounds)"

definition mmu_client_destroy :: "nat \<Rightarrow> mmu_client \<Rightarrow> machine \<Rightarrow> machine result" where
  "mmu_client_destroy sock c m =
     (let m1 = m\<lparr>sock2client := (sock2client m)(sock := None)\<rparr> in
      if cl_pid c \<noteq> 0 then pager_destroy (cl_pid c) m1 else Inr m1)"

text \<open>The loop of \<open>mmu_destroy\<close> over the socket numbers still to visit.\<close>

fun destroy_clients :: "nat list \<Rightarrow> machine \<Rightarrow> machine result" where
  "destroy_clients [] m = Inr m"
| "destroy_clients (i # socks) m =
     (case sock2client m i of None \<Rightarrow> destroy_clients socks m
      | Some c \<Rightarrow> rbind (mmu_client_destroy i c m) (destroy_clients socks))"

definition mmu_destroy :: "machine \<Rightarrow> machine result" where
  "mmu_destroy m = rbind (destroy_clients [3..<MMU_MAX_SOCK] m) (\<lambda>m1.
     Inr (m1\<lparr>pmem := [], disk := []\<rparr>))"

definition mmu_client_search :: "int \<Rightarrow> machine \<Rightarrow> (nat \<times> mmu_client) result" where
  "mmu_client_search pid m =
     (case find (\<lambda>i. case sock2client m i of None \<Rightarrow> False | Some c \<Rightarrow> cl_pid c = pid)
        [3..<MMU_MAX_SOCK] of
        Some i \<Rightarrow> Inr (i, the (sock2client m i))
      | None \<Rightarrow> rbind (mmu_destroy (emit (Pid_Not_Found pid) m)) (\<lambda>_. Inl (Exited EXIT_FAILURE)))"

section \<open>Orders to a client\<close>

text \<open>
  What the thread of the client process knows: the orders use its socket and its process, not the fields that
  belong to requests of the process.
\<close>

definition order_reader :: "nat \<Rightarrow> mmu_client \<Rightarrow> uvm" where
  "order_reader sock c = \<lparr>uvm_sock = sock, uvm_pid = cl_pid c, uvm_npages = 0, uvm_result = 0\<rparr>"

text \<open>
  The order \<open>rep\<close> is sent; the loop then looks at the type at the front of the stream until it is \<open>want\<close>.
  It takes nothing from the stream, so with a wrong type at its front, or nothing in it, the loop does not end.
  (When the order is for a process other than the one whose request is served, that one's thread in the MMU may
  take an \<open>EXIT_REQ\<close> away; it then waits for the mutex of the pager, which this thread holds, and the MMU hangs
  all the same.)
\<close>

definition send_order ::
  "(nat \<Rightarrow> bool) \<Rightarrow> nat \<Rightarrow> mmu_client \<Rightarrow> message \<Rightarrow> 32 word \<Rightarrow> machine \<Rightarrow> machine result" where
  "send_order net sock c rep want m =
     (if \<not> net sock then mmu_client_destroy sock c m
      else (case uvm_thread_reads (order_reader sock c) (encode rep) m of
          None \<Rightarrow> mmu_client_destroy sock c m
        | Some (stream, m1) \<Rightarrow>
            if peek_type stream \<noteq> Some want then Inl Diverges
            else (case decode stream of
                None \<Rightarrow> mmu_client_destroy sock c m1
              | Some (req, _) \<Rightarrow> rbind (check (msg_type req = want) Assert_Failed) (\<lambda>_. Inr m1))))"

section \<open>Services\<close>

definition mmu_zero_fill :: "int \<Rightarrow> machine \<Rightarrow> machine result" where
  "mmu_zero_fill frame m =
     (let m1 = emit (Zero_Fill frame) m in
      rbind (check (0 \<le> frame \<and> nat frame * page_size m + page_size m \<le> length (pmem m))
               Out_Of_Bounds) (\<lambda>_.
      Inr (m1\<lparr>pmem := overwrite (pmem m) (nat frame * page_size m)
                        (replicate (page_size m) (of_char (CHR ''0'')))\<rparr>)))"

definition mmu_resident ::
  "(nat \<Rightarrow> bool) \<Rightarrow> int \<Rightarrow> int \<Rightarrow> int \<Rightarrow> int \<Rightarrow> machine \<Rightarrow> machine result" where
  "mmu_resident net pid vaddr frame prot m =
     rbind (get_pid_id pid m) (\<lambda>i.
     let m1 = emit (Resident (int i) vaddr prot frame) m in
     rbind (mmu_client_search pid m1) (\<lambda>(sock, c).
     send_order net sock c
       (Remap_Rep (word_of_int prot) (word_of_int (int (page_size m1) * frame)) (word_of_int vaddr))
       (msg_type Remap_Req) m1))"

definition mmu_nonresident :: "(nat \<Rightarrow> bool) \<Rightarrow> int \<Rightarrow> int \<Rightarrow> machine \<Rightarrow> machine result" where
  "mmu_nonresident net pid vaddr m =
     rbind (get_pid_id pid m) (\<lambda>i.
     let m1 = emit (Nonresident (int i) vaddr) m in
     rbind (mmu_client_search pid m1) (\<lambda>(sock, c).
     send_order net sock c (Chprot_Rep (word_of_int PROT_NONE) (word_of_int vaddr)) (msg_type Chprot_Req) m1))"

definition mmu_chprot :: "(nat \<Rightarrow> bool) \<Rightarrow> int \<Rightarrow> int \<Rightarrow> int \<Rightarrow> machine \<Rightarrow> machine result" where
  "mmu_chprot net pid vaddr prot m =
     rbind (get_pid_id pid m) (\<lambda>i.
     let m1 = emit (Chprot (int i) vaddr prot) m in
     rbind (mmu_client_search pid m1) (\<lambda>(sock, c).
     send_order net sock c (Chprot_Rep (word_of_int prot) (word_of_int vaddr)) (msg_type Chprot_Req) m1))"

definition mmu_disk_read :: "int \<Rightarrow> int \<Rightarrow> machine \<Rightarrow> machine result" where
  "mmu_disk_read block_from frame_to m =
     (let m1 = emit (Disk_Read block_from frame_to) m in
      rbind (check (0 \<le> frame_to \<and> nat frame_to * page_size m + page_size m \<le> length (pmem m))
               Out_Of_Bounds) (\<lambda>_.
      rbind (check (0 \<le> block_from \<and> nat block_from * page_size m + page_size m \<le> length (disk m))
               Out_Of_Bounds) (\<lambda>_.
      Inr (m1\<lparr>pmem := overwrite (pmem m) (nat frame_to * page_size m) (block_bytes m block_from)\<rparr>))))"

definition mmu_disk_write :: "int \<Rightarrow> int \<Rightarrow> machine \<Rightarrow> machine result" where
  "mmu_disk_write frame_from block_to m =
     (let m1 = emit (Disk_Write frame_from block_to) m in
      rbind (check (0 \<le> frame_from \<and> nat frame_from * page_size m + page_size m \<le> length (pmem m))
               Out_Of_Bounds) (\<lambda>_.
      rbind (check (0 \<le> block_to \<and> nat block_to * page_size m + page_size m \<le> length (disk m))
               Out_Of_Bounds) (\<lambda>_.
      Inr (m1\<lparr>disk := overwrite (disk m) (nat block_to * page_size m) (frame_bytes m frame_from)\<rparr>))))"

end
