(* ===== verification/Pager.thy ===== *)
theory Pager
  imports Mmu
begin

text \<open>
  The rest of \<open>TP 2/src/pager.c\<close>: the operations that move pages between frames and disk with
  the services of the MMU, \<open>pager_fault\<close> and \<open>pager_syslog\<close>.
\<close>

definition PROT_RW :: int where
  "PROT_RW = or PROT_READ PROT_WRITE"

section \<open>Evicting a page\<close>

text \<open>The loop at the start of \<open>swap\<close>, over the frame numbers still to visit.\<close>

fun protect_frames :: "(nat \<Rightarrow> bool) \<Rightarrow> nat list \<Rightarrow> machine \<Rightarrow> machine result" where
  "protect_frames net [] m = Inr m"
| "protect_frames net (i # fs) m =
     rbind (at (frames m) (int i)) (\<lambda>fr.
     rbind (load_page (fr_page fr) m) (\<lambda>page.
     rbind (mmu_chprot net (fr_pid fr) (addr page) PROT_NONE m) (protect_frames net fs)))"

definition swap :: "(nat \<Rightarrow> bool) \<Rightarrow> int \<Rightarrow> machine \<Rightarrow> machine result" where
  "swap net frame_no m =
     rbind (if frame_no = 0 then protect_frames net [0..<fl_size m] m else Inr m) (\<lambda>m1.
     rbind (at (frames m1) frame_no) (\<lambda>frame.
     rbind (store_page (fr_page frame) (\<lambda>p. p\<lparr>isvalid := 0\<rparr>) m1) (\<lambda>m2.
     rbind (load_page (fr_page frame) m2) (\<lambda>removed_page.
     rbind (mmu_nonresident net (fr_pid frame) (addr removed_page) m2) (\<lambda>m3.
     if is_allocated removed_page = 1 then
       rbind (store_block (block_number removed_page) (\<lambda>b. b\<lparr>bl_allocated := 1\<rparr>) m3) (\<lambda>m4.
       mmu_disk_write frame_no (block_number removed_page) m4)
     else Inr m3)))))"

section \<open>Faults\<close>

definition handle_valid_page :: "(nat \<Rightarrow> bool) \<Rightarrow> page_ptr \<Rightarrow> int \<Rightarrow> int \<Rightarrow> machine \<Rightarrow> machine result" where
  "handle_valid_page net page pid va m =
     rbind (mmu_chprot net pid va PROT_RW m) (\<lambda>m1.
     rbind (load_page page m1) (\<lambda>p.
     rbind (store_frame (frame_number p) (\<lambda>fr. fr\<lparr>reference_bit := 1\<rparr>) m1) (\<lambda>m2.
     store_page page (\<lambda>p. p\<lparr>is_allocated := 1\<rparr>) m2)))"

text \<open>The frame that \<open>handle_invalid_page\<close> will use, emptied if it has to be.\<close>

definition obtain_frame :: "(nat \<Rightarrow> bool) \<Rightarrow> machine \<Rightarrow> (int \<times> machine) result" where
  "obtain_frame net m =
     (let frame_no = find_free_frame m in
      if frame_no = INVALID_PID then
        rbind (find_frame_to_swap m) (\<lambda>(victim, m1).
        rbind (swap net victim m1) (\<lambda>m2. Inr (victim, m2)))
      else Inr (frame_no, m))"

definition load_frame :: "page_ptr \<Rightarrow> int \<Rightarrow> machine \<Rightarrow> machine result" where
  "load_frame page frame_no m =
     rbind (load_page page m) (\<lambda>p.
     rbind (at (blocks m) (block_number p)) (\<lambda>b.
     if bl_allocated b = 1 then mmu_disk_read (block_number p) frame_no m
     else mmu_zero_fill frame_no m))"

definition handle_invalid_page ::
  "(nat \<Rightarrow> bool) \<Rightarrow> page_ptr \<Rightarrow> int \<Rightarrow> int \<Rightarrow> machine \<Rightarrow> machine result" where
  "handle_invalid_page net page pid va m =
     rbind (obtain_frame net m) (\<lambda>(frame_no, m1).
     rbind (store_frame frame_no
              (\<lambda>fr. fr\<lparr>fr_pid := pid, fr_page := page, reference_bit := 1\<rparr>) m1) (\<lambda>m2.
     rbind (store_page page
              (\<lambda>p. p\<lparr>isvalid := 1, frame_number := frame_no, is_allocated := 0\<rparr>) m2) (\<lambda>m3.
     rbind (load_frame page frame_no m3) (\<lambda>m4.
     mmu_resident net pid va frame_no PROT_READ m4))))"

text \<open>The remainder of C, which has the sign of the dividend.\<close>

definition c_rem :: "int \<Rightarrow> int \<Rightarrow> int" where
  "c_rem a b = sgn a * (\<bar>a\<bar> mod \<bar>b\<bar>)"

definition check_page_validity :: "(nat \<Rightarrow> bool) \<Rightarrow> int \<Rightarrow> int \<Rightarrow> machine \<Rightarrow> machine result" where
  "check_page_validity net pid va m =
     rbind (find_page_table pid m) (\<lambda>ti.
     let base = va - c_rem va (int (page_size m)) in
     rbind (get_page ti base m) (\<lambda>page.
     rbind (load_page page m) (\<lambda>p.
     if isvalid p = 1 then handle_valid_page net page pid base m
     else handle_invalid_page net page pid base m)))"

definition pager_fault :: "(nat \<Rightarrow> bool) \<Rightarrow> int \<Rightarrow> int \<Rightarrow> machine \<Rightarrow> machine result" where
  "pager_fault net pid va m =
     rbind (lock m) (\<lambda>m0.
     rbind (check_page_validity net pid va m0) (\<lambda>m1. Inr (unlock m1)))"

section \<open>Printing\<close>

text \<open>
  \<open>print_page_bytes\<close>: the bytes at the start of the frame of \<open>page\<close>, each a signed \<open>char\<close>
  converted to \<open>unsigned\<close> for the format \<open>%02x\<close>.
\<close>

fun read_bytes :: "int \<Rightarrow> nat \<Rightarrow> machine \<Rightarrow> byte list result" where
  "read_bytes off 0 m = Inr []"
| "read_bytes off (Suc n) m =
     rbind (at (pmem m) off) (\<lambda>b. rbind (read_bytes (off + 1) n m) (\<lambda>bs. Inr (b # bs)))"

definition print_page_bytes :: "page_ptr \<Rightarrow> nat \<Rightarrow> machine \<Rightarrow> machine result" where
  "print_page_bytes page len m =
     (if len = 0 then Inr m else
      rbind (load_page page m) (\<lambda>p.
      rbind (read_bytes (frame_number p * int (page_size m)) len m) (\<lambda>buf.
      Inr (emit (Bytes (map scast buf)) m))))"

text \<open>The loop of \<open>pager_syslog\<close>: \<open>Inr None\<close> when a byte is in no page of the process.\<close>

fun syslog_loop :: "nat \<Rightarrow> int \<Rightarrow> nat \<Rightarrow> nat \<Rightarrow> page_ptr \<Rightarrow> machine \<Rightarrow> page_ptr option result" where
  "syslog_loop ti va i 0 page m = Inr (Some page)"
| "syslog_loop ti va i (Suc n) page m =
     rbind (get_page ti (va + int i) m) (\<lambda>page.
     if page = None then Inr None else
     rbind (load_page page m) (\<lambda>p.
     rbind (at (pmem m) (frame_number p * int (page_size m) + int i)) (\<lambda>_.
     syslog_loop ti va (i + 1) n page m)))"

definition pager_syslog :: "int \<Rightarrow> int \<Rightarrow> nat \<Rightarrow> machine \<Rightarrow> (int \<times> machine) result" where
  "pager_syslog pid va len m =
     rbind (lock m) (\<lambda>m0.
     rbind (find_page_table pid m0) (\<lambda>ti.
     rbind (syslog_loop ti va 0 len None m0) (\<lambda>r. case r of
       None \<Rightarrow> Inr (INVALID_PID, unlock m0)
     | Some page \<Rightarrow> rbind (print_page_bytes page len m0) (\<lambda>m1. Inr (0, unlock m1)))))"

end
