(* ===== verification/Message_Correct.thy ===== *)
theory Message_Correct
  imports Message
begin

text \<open>
  The messages of the protocol are read back as they were sent, whatever follows them in the
  stream.
\<close>

primrec whole :: "message \<Rightarrow> bool" where
  "whole (Create_Req p) = True"
| "whole (Create_Rep fn) = (length fn = MMU_PROTO_PATH_MAX)"
| "whole Extend_Req = True"
| "whole (Extend_Rep va) = True"
| "whole (Syslog_Req len va) = True"
| "whole (Syslog_Rep ret) = True"
| "whole (Segv_Req code va) = True"
| "whole Segv_Rep = True"
| "whole Remap_Req = True"
| "whole (Remap_Rep prot off va) = True"
| "whole Chprot_Req = True"
| "whole (Chprot_Rep prot va) = True"
| "whole Exit_Req = True"
| "whole Exit_Rep = True"

lemma peek_encode: "peek_type (encode m @ rest) = Some (msg_type m)"
  by (simp add: peek_type_def encode_def)

lemma recv_encode:
  "n = length (encode m) \<Longrightarrow> recv_struct n mk (encode m @ rest) = Some (mk (encode m), rest)"
  by (simp add: recv_struct_def)

lemma chunk_skip: "length xs = off \<Longrightarrow> chunk off n (xs @ ys) = take n ys"
  by (simp add: chunk_def)

lemma length_encode: "length (encode m) = 4 + length (msg_fields m)"
  by (simp add: encode_def)

lemma decode_encode:
  assumes "whole m"
  shows "decode (encode m @ rest) = Some (m, rest)"
  using assms
  by (cases m) (simp_all add: decode_def peek_encode recv_encode length_encode,
      simp_all add: encode_def chunk_def)

end
