(* ===== verification/Mmu_Correct.thy ===== *)
theory Mmu_Correct
  imports Pager Message_Correct
begin

text \<open>
  What the services of the MMU do when the clients answer: the contents of frames and blocks
  as a small interface of laws, and the effect of a mapping order on the client's page.
\<close>

section \<open>Pages by address\<close>

definition page_at :: "machine \<Rightarrow> nat \<times> nat \<Rightarrow> page_t option" where
  "page_at m p = (case page_arrays m (fst p) of None \<Rightarrow> None
     | Some ps \<Rightarrow> if snd p < length ps then Some (ps ! snd p) else None)"

lemma load_page_at: "load_page (Some p) m = Inr x \<longleftrightarrow> page_at m p = Some x"
  by (cases p) (auto simp: load_page_def page_at_def at_eq_Inr split: option.splits)

lemma load_page_ok [simp]: "page_at m p = Some x \<Longrightarrow> load_page (Some p) m = Inr x"
  by (simp add: load_page_at)

lemma store_page_ok:
  assumes "page_at m p = Some x"
  obtains ar where "store_page (Some p) f m = Inr (m\<lparr>page_arrays := ar\<rparr>)"
    and "page_at (m\<lparr>page_arrays := ar\<rparr>) = (page_at m)(p \<mapsto> f x)"
    and "\<And>a. map_option length (ar a) = map_option length (page_arrays m a)"
proof -
  obtain a i where p: "p = (a, i)" by (cases p)
  with assms obtain ps where ps: "page_arrays m a = Some ps" "i < length ps" "x = ps ! i"
    by (auto simp: page_at_def split: option.splits if_splits)
  let ?ar = "(page_arrays m)(a \<mapsto> ps[i := f x])"
  have "store_page (Some p) f m = Inr (m\<lparr>page_arrays := ?ar\<rparr>)"
    using p ps by (simp add: store_page_def)
  moreover have "page_at (m\<lparr>page_arrays := ?ar\<rparr>) = (page_at m)(p \<mapsto> f x)"
    using p ps by (auto simp: page_at_def fun_eq_iff)
  moreover have "map_option length (?ar b) = map_option length (page_arrays m b)" for b
    using ps by auto
  ultimately show thesis by (rule that)
qed

lemma page_at_cong [simp]:
  "page_at (m\<lparr>frames := x1\<rparr>) = page_at m" "page_at (m\<lparr>blocks := x2\<rparr>) = page_at m"
  "page_at (m\<lparr>trace := x3\<rparr>) = page_at m" "page_at (m\<lparr>mappings := x4\<rparr>) = page_at m"
  "page_at (m\<lparr>pmem := x5\<rparr>) = page_at m" "page_at (m\<lparr>disk := x6\<rparr>) = page_at m"
  "page_at (m\<lparr>second_chance_index := x7\<rparr>) = page_at m" "page_at (m\<lparr>mutex := x8\<rparr>) = page_at m"
  "page_at (m\<lparr>page_list := x9\<rparr>) = page_at m"
  by (simp_all add: page_at_def fun_eq_iff)

lemma store_frame_ok [simp]:
  "0 \<le> i \<Longrightarrow> i < int (length (frames m)) \<Longrightarrow>
   store_frame i f m = Inr (m\<lparr>frames := (frames m)[nat i := f (frames m ! nat i)]\<rparr>)"
  by (simp add: store_frame_def)

lemma store_block_ok [simp]:
  "0 \<le> i \<Longrightarrow> i < int (length (blocks m)) \<Longrightarrow>
   store_block i f m = Inr (m\<lparr>blocks := (blocks m)[nat i := f (blocks m ! nat i)]\<rparr>)"
  by (simp add: store_block_def)

section \<open>Memory and disk as pages\<close>

definition zero_page :: "machine \<Rightarrow> byte list" where
  "zero_page m = replicate (page_size m) (of_char (CHR ''0''))"

definition has_frame :: "machine \<Rightarrow> int \<Rightarrow> bool" where
  "has_frame m f \<longleftrightarrow> 0 \<le> f \<and> nat f * page_size m + page_size m \<le> length (pmem m)"

definition has_block :: "machine \<Rightarrow> int \<Rightarrow> bool" where
  "has_block m b \<longleftrightarrow> 0 \<le> b \<and> nat b * page_size m + page_size m \<le> length (disk m)"

text \<open>The interface between the pager and the memory it manages.\<close>

locale paged_store =
  fixes frame :: "'s \<Rightarrow> int \<Rightarrow> byte list"
    and block :: "'s \<Rightarrow> int \<Rightarrow> byte list"
    and zero :: "'s \<Rightarrow> byte list"
    and in_mem :: "'s \<Rightarrow> int \<Rightarrow> bool"
    and on_disk :: "'s \<Rightarrow> int \<Rightarrow> bool"
    and fill :: "int \<Rightarrow> 's \<Rightarrow> 's result"
    and page_in :: "int \<Rightarrow> int \<Rightarrow> 's \<Rightarrow> 's result"
    and page_out :: "int \<Rightarrow> int \<Rightarrow> 's \<Rightarrow> 's result"
  assumes fill: "in_mem s f \<Longrightarrow> \<exists>s'. fill f s = Inr s' \<and> frame s' f = zero s \<and>
      (\<forall>g. in_mem s g \<and> g \<noteq> f \<longrightarrow> frame s' g = frame s g) \<and> block s' = block s \<and>
      in_mem s' = in_mem s \<and> on_disk s' = on_disk s \<and> zero s' = zero s"
    and page_in: "in_mem s f \<Longrightarrow> on_disk s b \<Longrightarrow> \<exists>s'. page_in b f s = Inr s' \<and>
      frame s' f = block s b \<and> (\<forall>g. in_mem s g \<and> g \<noteq> f \<longrightarrow> frame s' g = frame s g) \<and>
      block s' = block s \<and> in_mem s' = in_mem s \<and> on_disk s' = on_disk s \<and> zero s' = zero s"
    and page_out: "in_mem s f \<Longrightarrow> on_disk s b \<Longrightarrow> \<exists>s'. page_out f b s = Inr s' \<and>
      block s' b = frame s f \<and> (\<forall>c. on_disk s c \<and> c \<noteq> b \<longrightarrow> block s' c = block s c) \<and>
      frame s' = frame s \<and> in_mem s' = in_mem s \<and> on_disk s' = on_disk s \<and> zero s' = zero s"
begin

text \<open>A page survives a stay on disk: written out, its frame reused, read back elsewhere.\<close>

lemma round_trip:
  assumes "in_mem s f" and "in_mem s g" and "on_disk s b"
  shows "\<exists>s1 s2 s3. page_out f b s = Inr s1 \<and> fill f s1 = Inr s2 \<and> page_in b g s2 = Inr s3 \<and>
    frame s3 g = frame s f"
proof -
  from page_out [OF assms(1,3)] obtain s1 where s1: "page_out f b s = Inr s1"
    "block s1 b = frame s f" "in_mem s1 = in_mem s" "on_disk s1 = on_disk s" by blast
  with assms fill [of s1 f] obtain s2 where s2: "fill f s1 = Inr s2" "block s2 = block s1"
    "in_mem s2 = in_mem s" "on_disk s2 = on_disk s" by auto
  with assms page_in [of s2 g b] obtain s3 where "page_in b g s2 = Inr s3" "frame s3 g = block s2 b"
    by auto
  with s1 s2 show ?thesis by auto
qed

text \<open>Bringing a page in does not disturb the other frames, wherever the page comes from.\<close>

lemma load_effect:
  assumes "in_mem s f" and "on_disk s b"
  shows "\<exists>s'. (if saved then page_in b f s else fill f s) = Inr s' \<and>
    frame s' f = (if saved then block s b else zero s) \<and>
    (\<forall>g. in_mem s g \<and> g \<noteq> f \<longrightarrow> frame s' g = frame s g) \<and> block s' = block s"
  using fill [OF assms(1)] page_in [OF assms] by (cases saved) (simp_all, blast+)

end

lemma frame_bytes_cong [simp]:
  "frame_bytes (m\<lparr>frames := x1\<rparr>) = frame_bytes m" "frame_bytes (m\<lparr>blocks := x2\<rparr>) = frame_bytes m"
  "frame_bytes (m\<lparr>trace := x3\<rparr>) = frame_bytes m" "frame_bytes (m\<lparr>mappings := x4\<rparr>) = frame_bytes m"
  "frame_bytes (m\<lparr>disk := x5\<rparr>) = frame_bytes m" "frame_bytes (m\<lparr>page_arrays := x6\<rparr>) = frame_bytes m"
  "frame_bytes (m\<lparr>second_chance_index := x7\<rparr>) = frame_bytes m"
  "frame_bytes (m\<lparr>mutex := x8\<rparr>) = frame_bytes m" "frame_bytes (m\<lparr>page_list := x9\<rparr>) = frame_bytes m"
  by (simp_all add: frame_bytes_def fun_eq_iff)

lemma block_bytes_cong [simp]:
  "block_bytes (m\<lparr>frames := x1\<rparr>) = block_bytes m" "block_bytes (m\<lparr>blocks := x2\<rparr>) = block_bytes m"
  "block_bytes (m\<lparr>trace := x3\<rparr>) = block_bytes m" "block_bytes (m\<lparr>mappings := x4\<rparr>) = block_bytes m"
  "block_bytes (m\<lparr>pmem := x5\<rparr>) = block_bytes m" "block_bytes (m\<lparr>page_arrays := x6\<rparr>) = block_bytes m"
  "block_bytes (m\<lparr>second_chance_index := x7\<rparr>) = block_bytes m"
  "block_bytes (m\<lparr>mutex := x8\<rparr>) = block_bytes m" "block_bytes (m\<lparr>page_list := x9\<rparr>) = block_bytes m"
  by (simp_all add: block_bytes_def fun_eq_iff)

lemma frame_overwrite:
  assumes "has_frame m f" and "length bs = page_size m"
  shows "frame_bytes (m\<lparr>pmem := overwrite (pmem m) (nat f * page_size m) bs\<rparr>) f = bs"
    and "has_frame m g \<Longrightarrow> g \<noteq> f \<Longrightarrow>
      frame_bytes (m\<lparr>pmem := overwrite (pmem m) (nat f * page_size m) bs\<rparr>) g = frame_bytes m g"
proof -
  show "frame_bytes (m\<lparr>pmem := overwrite (pmem m) (nat f * page_size m) bs\<rparr>) f = bs"
    using assms by (simp add: frame_bytes_def has_frame_def)
  assume g: "has_frame m g" "g \<noteq> f"
  then have "nat g \<noteq> nat f" using assms(1) by (auto simp: has_frame_def)
  from pages_disjoint [OF this, of "page_size m"] g assms
  show "frame_bytes (m\<lparr>pmem := overwrite (pmem m) (nat f * page_size m) bs\<rparr>) g = frame_bytes m g"
    by (simp add: frame_bytes_def has_frame_def chunk_overwrite_other)
qed

lemma block_overwrite:
  assumes "has_block m b" and "length bs = page_size m"
  shows "block_bytes (m\<lparr>disk := overwrite (disk m) (nat b * page_size m) bs\<rparr>) b = bs"
    and "has_block m c \<Longrightarrow> c \<noteq> b \<Longrightarrow>
      block_bytes (m\<lparr>disk := overwrite (disk m) (nat b * page_size m) bs\<rparr>) c = block_bytes m c"
proof -
  show "block_bytes (m\<lparr>disk := overwrite (disk m) (nat b * page_size m) bs\<rparr>) b = bs"
    using assms by (simp add: block_bytes_def has_block_def)
  assume c: "has_block m c" "c \<noteq> b"
  then have "nat c \<noteq> nat b" using assms(1) by (auto simp: has_block_def)
  from pages_disjoint [OF this, of "page_size m"] c assms
  show "block_bytes (m\<lparr>disk := overwrite (disk m) (nat b * page_size m) bs\<rparr>) c = block_bytes m c"
    by (simp add: block_bytes_def has_block_def chunk_overwrite_other)
qed

lemma length_frame_bytes [simp]: "has_frame m f \<Longrightarrow> length (frame_bytes m f) = page_size m"
  by (simp add: frame_bytes_def has_frame_def)

lemma length_block_bytes [simp]: "has_block m b \<Longrightarrow> length (block_bytes m b) = page_size m"
  by (simp add: block_bytes_def has_block_def)

text \<open>What each service does, as an update of the state.\<close>

lemma mmu_zero_fill_ok:
  "has_frame m f \<Longrightarrow> mmu_zero_fill f m =
     Inr (m\<lparr>pmem := overwrite (pmem m) (nat f * page_size m) (zero_page m),
            trace := trace m @ [Zero_Fill f]\<rparr>)"
  by (simp add: mmu_zero_fill_def has_frame_def zero_page_def emit_def)

lemma mmu_disk_read_ok:
  "has_frame m f \<Longrightarrow> has_block m b \<Longrightarrow> mmu_disk_read b f m =
     Inr (m\<lparr>pmem := overwrite (pmem m) (nat f * page_size m) (block_bytes m b),
            trace := trace m @ [Disk_Read b f]\<rparr>)"
  by (simp add: mmu_disk_read_def has_frame_def has_block_def emit_def)

lemma mmu_disk_write_ok:
  "has_frame m f \<Longrightarrow> has_block m b \<Longrightarrow> mmu_disk_write f b m =
     Inr (m\<lparr>disk := overwrite (disk m) (nat b * page_size m) (frame_bytes m f),
            trace := trace m @ [Disk_Write f b]\<rparr>)"
  by (simp add: mmu_disk_write_def has_frame_def has_block_def emit_def)

lemma zero_page_length [simp]: "length (zero_page m) = page_size m"
  by (simp add: zero_page_def)

lemma has_frame_overwrite:
  "has_frame m f \<Longrightarrow> length bs = page_size m \<Longrightarrow>
   length (overwrite (pmem m) (nat f * page_size m) bs) = length (pmem m)"
  by (simp add: has_frame_def)

lemma has_block_overwrite:
  "has_block m b \<Longrightarrow> length bs = page_size m \<Longrightarrow>
   length (overwrite (disk m) (nat b * page_size m) bs) = length (disk m)"
  by (simp add: has_block_def)

lemma has_frame_cong: "length (pmem m') = length (pmem m) \<Longrightarrow> page_size m' = page_size m \<Longrightarrow>
    has_frame m' = has_frame m"
  by (simp add: has_frame_def fun_eq_iff)

lemma has_block_cong: "length (disk m') = length (disk m) \<Longrightarrow> page_size m' = page_size m \<Longrightarrow>
    has_block m' = has_block m"
  by (simp add: has_block_def fun_eq_iff)

lemma zero_page_cong: "page_size m' = page_size m \<Longrightarrow> zero_page m' = zero_page m"
  by (simp add: zero_page_def)

lemma fill_law:
  assumes f: "has_frame m f"
  shows "\<exists>m'. mmu_zero_fill f m = Inr m' \<and> frame_bytes m' f = zero_page m \<and>
    (\<forall>g. has_frame m g \<and> g \<noteq> f \<longrightarrow> frame_bytes m' g = frame_bytes m g) \<and>
    block_bytes m' = block_bytes m \<and> has_frame m' = has_frame m \<and> has_block m' = has_block m \<and>
    zero_page m' = zero_page m"
proof -
  let ?m = "m\<lparr>pmem := overwrite (pmem m) (nat f * page_size m) (zero_page m)\<rparr>"
  have "frame_bytes ?m f = zero_page m"
    "has_frame m g \<Longrightarrow> g \<noteq> f \<Longrightarrow> frame_bytes ?m g = frame_bytes m g" for g
    using frame_overwrite [OF f zero_page_length] by blast+
  moreover have "length (pmem ?m) = length (pmem m)" using has_frame_overwrite [OF f] by simp
  ultimately show ?thesis unfolding mmu_zero_fill_ok [OF f]
    by (intro exI [of _ "?m\<lparr>trace := trace m @ [Zero_Fill f]\<rparr>"])
      (auto intro: has_frame_cong has_block_cong zero_page_cong)
qed

lemma page_in_law:
  assumes f: "has_frame m f" and b: "has_block m b"
  shows "\<exists>m'. mmu_disk_read b f m = Inr m' \<and> frame_bytes m' f = block_bytes m b \<and>
    (\<forall>g. has_frame m g \<and> g \<noteq> f \<longrightarrow> frame_bytes m' g = frame_bytes m g) \<and>
    block_bytes m' = block_bytes m \<and> has_frame m' = has_frame m \<and> has_block m' = has_block m \<and>
    zero_page m' = zero_page m"
proof -
  let ?m = "m\<lparr>pmem := overwrite (pmem m) (nat f * page_size m) (block_bytes m b)\<rparr>"
  have "frame_bytes ?m f = block_bytes m b"
    "has_frame m g \<Longrightarrow> g \<noteq> f \<Longrightarrow> frame_bytes ?m g = frame_bytes m g" for g
    using frame_overwrite [OF f length_block_bytes [OF b]] by blast+
  moreover have "length (pmem ?m) = length (pmem m)"
    using has_frame_overwrite [OF f] b by simp
  ultimately show ?thesis unfolding mmu_disk_read_ok [OF f b]
    by (intro exI [of _ "?m\<lparr>trace := trace m @ [Disk_Read b f]\<rparr>"])
      (auto intro: has_frame_cong has_block_cong zero_page_cong)
qed

lemma page_out_law:
  assumes f: "has_frame m f" and b: "has_block m b"
  shows "\<exists>m'. mmu_disk_write f b m = Inr m' \<and> block_bytes m' b = frame_bytes m f \<and>
    (\<forall>c. has_block m c \<and> c \<noteq> b \<longrightarrow> block_bytes m' c = block_bytes m c) \<and>
    frame_bytes m' = frame_bytes m \<and> has_frame m' = has_frame m \<and> has_block m' = has_block m \<and>
    zero_page m' = zero_page m"
proof -
  let ?m = "m\<lparr>disk := overwrite (disk m) (nat b * page_size m) (frame_bytes m f)\<rparr>"
  have "block_bytes ?m b = frame_bytes m f"
    "has_block m c \<Longrightarrow> c \<noteq> b \<Longrightarrow> block_bytes ?m c = block_bytes m c" for c
    using block_overwrite [OF b length_frame_bytes [OF f]] by blast+
  moreover have "length (disk ?m) = length (disk m)"
    using has_block_overwrite [OF b] f by simp
  ultimately show ?thesis unfolding mmu_disk_write_ok [OF f b]
    by (intro exI [of _ "?m\<lparr>trace := trace m @ [Disk_Write f b]\<rparr>"])
      (auto intro: has_frame_cong has_block_cong zero_page_cong)
qed

interpretation ps: paged_store frame_bytes block_bytes zero_page has_frame has_block
  mmu_zero_fill mmu_disk_read mmu_disk_write
  by unfold_locales (use fill_law page_in_law page_out_law in blast)+

section \<open>Orders to clients\<close>

definition served :: "(nat \<Rightarrow> bool) \<Rightarrow> machine \<Rightarrow> int \<Rightarrow> bool" where
  "served net m pid \<longleftrightarrow> pid \<in> set (id2pid m) \<and>
     (case find (\<lambda>i. case sock2client m i of None \<Rightarrow> False | Some c \<Rightarrow> cl_pid c = pid)
        [3..<MMU_MAX_SOCK] of None \<Rightarrow> False | Some sock \<Rightarrow> net sock)"

lemma served_cong:
  "id2pid m' = id2pid m \<Longrightarrow> sock2client m' = sock2client m \<Longrightarrow> served net m' = served net m"
  by (simp add: served_def fun_eq_iff)

lemma served_calls:
  assumes "served net m pid"
  obtains i sock c where "\<forall>m'. id2pid m' = id2pid m \<longrightarrow> get_pid_id pid m' = Inr i"
    and "\<forall>m'. sock2client m' = sock2client m \<longrightarrow> mmu_client_search pid m' = Inr (sock, c)"
    and "net sock" and "cl_pid c = pid"
proof -
  from assms obtain sock where s: "find (\<lambda>i. case sock2client m i of None \<Rightarrow> False
      | Some c \<Rightarrow> cl_pid c = pid) [3..<MMU_MAX_SOCK] = Some sock" "net sock"
    by (auto simp: served_def split: option.splits)
  then obtain c where c: "sock2client m sock = Some c" "cl_pid c = pid"
    by (auto simp: find_Some_iff split: option.splits)
  from assms have "find_index (\<lambda>p. p = pid) (id2pid m) \<noteq> None"
    by (simp only: find_index_None served_def) blast
  then obtain i where "find_index (\<lambda>p. p = pid) (id2pid m) = Some i" by blast
  with s c show thesis
    by (intro that [of i sock c]) (simp_all add: get_pid_id_def mmu_client_search_def)
qed

definition set_mapping :: "int \<Rightarrow> int \<Rightarrow> nat \<times> int \<Rightarrow> (int \<Rightarrow> int \<rightharpoonup> nat \<times> int) \<Rightarrow>
    (int \<Rightarrow> int \<rightharpoonup> nat \<times> int)" where
  "set_mapping pid va x mp = mp(pid := (mp pid)(va \<mapsto> x))"

text \<open>Addresses, protections and offsets that the fields of a message can hold.\<close>

definition user_address :: "int \<Rightarrow> bool" where
  "user_address va \<longleftrightarrow> 0 \<le> va \<and> va < 2 ^ 63"

lemma user_address_word:
  assumes "user_address va"
  shows "sint (word_of_int va :: 64 word) = va" and "(word_of_int va :: 64 word) \<noteq> - 1"
proof -
  from assms show s: "sint (word_of_int va :: 64 word) = va"
    by (simp add: user_address_def signed_of_int signed_take_bit_int_eq_self_iff)
  show "(word_of_int va :: 64 word) \<noteq> - 1"
  proof
    assume "(word_of_int va :: 64 word) = - 1"
    with s have "va = -1" by simp
    with assms show False by (simp add: user_address_def)
  qed
qed

lemma prot_word:
  "prot \<in> {PROT_NONE, PROT_READ, PROT_RW} \<Longrightarrow> sint (word_of_int prot :: 32 word) = prot"
  by (auto simp: PROT_NONE_def PROT_READ_def PROT_RW_def PROT_WRITE_def)

text \<open>An order that the thread of the client obeys comes back confirmed.\<close>

lemma send_order_obeyed:
  assumes "net sock" and "whole rep" and "whole req"
    and "uvm_thread_turn rep (order_reader sock c) m = Inr (True, Some req, u, m1)"
  shows "send_order net sock c rep (msg_type req) m = Inr m1"
  using assms decode_encode [of rep "[]"] decode_encode [of req "[]"] peek_encode [of req "[]"]
  by (simp add: send_order_def uvm_thread_reads_def)

lemma chprot_obeyed:
  assumes "net sock" and "cl_pid c = pid" and "mappings m pid va = Some (off, old)" and va: "user_address va"
    and "prot \<in> {PROT_NONE, PROT_READ, PROT_RW}"
  shows "send_order net sock c (Chprot_Rep (word_of_int prot) (word_of_int va)) (msg_type Chprot_Req) m =
    Inr (m\<lparr>mappings := set_mapping pid va (off, prot) (mappings m)\<rparr>)"
  using assms(1-3) user_address_word [OF va] prot_word [OF assms(5)]
  by (intro send_order_obeyed [where u = "order_reader sock c"])
    (simp_all add: uvm_thread_turn_def uvm_proto_chprot_rep_def order_reader_def set_mapping_def)

lemma remap_obeyed:
  assumes "net sock" and "cl_pid c = pid" and va: "user_address va" and "va mod int (page_size m) = 0"
    and "prot \<in> {PROT_READ, PROT_RW}" and f: "0 \<le> f" "nat f * page_size m < 2 ^ 63"
  shows "send_order net sock c (Remap_Rep (word_of_int prot) (word_of_int (int (page_size m) * f)) (word_of_int va))
      (msg_type Remap_Req) m =
    Inr (m\<lparr>mappings := set_mapping pid va (nat f * page_size m, prot) (mappings m)\<rparr>)"
proof -
  have off: "int (page_size m) * f = int (nat f * page_size m)" using f(1) by simp
  have "int (nat f * page_size m) < 2 ^ 63" using f(2) by (metis of_nat_less_iff of_nat_numeral of_nat_power)
  then have "user_address (int (page_size m) * f)" unfolding user_address_def off by simp
  from user_address_word(1) [OF this] have o: "sint (word_of_int (int (page_size m) * f) :: 64 word) = int (nat f * page_size m)"
    by (simp add: off del: of_nat_mult)
  have p: "sint (word_of_int prot :: 32 word) = prot" "prot \<noteq> PROT_NONE"
    using prot_word [of prot] assms(5) by (auto simp: PROT_NONE_def PROT_READ_def PROT_RW_def PROT_WRITE_def)
  show ?thesis
    using assms(1,2,4) user_address_word [OF va] p o
    by (intro send_order_obeyed [where u = "order_reader sock c"])
      (simp_all add: uvm_thread_turn_def uvm_proto_remap_rep_def order_reader_def set_mapping_def del: of_nat_mult)
qed

text \<open>The services as a whole, from their print to the confirmation.\<close>

lemma mmu_chprot_ok:
  assumes "served net m pid" and "mappings m pid va = Some (off, old)" and "user_address va"
    and "prot \<in> {PROT_NONE, PROT_READ, PROT_RW}"
  obtains i where "mmu_chprot net pid va prot m =
    Inr (m\<lparr>mappings := set_mapping pid va (off, prot) (mappings m), trace := trace m @ [Chprot (int i) va prot]\<rparr>)"
    and "get_pid_id pid m = Inr i"
proof -
  obtain i sock c where s: "\<forall>m'. id2pid m' = id2pid m \<longrightarrow> get_pid_id pid m' = Inr i"
    "\<forall>m'. sock2client m' = sock2client m \<longrightarrow> mmu_client_search pid m' = Inr (sock, c)" "net sock" "cl_pid c = pid"
    by (rule served_calls [OF assms(1)])
  let ?m = "emit (Chprot (int i) va prot) m"
  have "mappings ?m pid va = Some (off, old)" using assms(2) by (simp add: emit_def)
  from chprot_obeyed [where m = ?m and net = net and sock = sock, OF s(3,4) this assms(3,4)] s(1,2) show thesis
    by (intro that [of i]) (simp_all add: mmu_chprot_def Let_def, simp_all add: emit_def)
qed

lemma mmu_nonresident_ok:
  assumes "served net m pid" and "mappings m pid va = Some (off, old)" and "user_address va"
  obtains i where "mmu_nonresident net pid va m =
    Inr (m\<lparr>mappings := set_mapping pid va (off, PROT_NONE) (mappings m), trace := trace m @ [Nonresident (int i) va]\<rparr>)"
    and "get_pid_id pid m = Inr i"
proof -
  obtain i sock c where s: "\<forall>m'. id2pid m' = id2pid m \<longrightarrow> get_pid_id pid m' = Inr i"
    "\<forall>m'. sock2client m' = sock2client m \<longrightarrow> mmu_client_search pid m' = Inr (sock, c)" "net sock" "cl_pid c = pid"
    by (rule served_calls [OF assms(1)])
  let ?m = "emit (Nonresident (int i) va) m"
  have "mappings ?m pid va = Some (off, old)" using assms(2) by (simp add: emit_def)
  from chprot_obeyed [where m = ?m and net = net and sock = sock, OF s(3,4) this assms(3), of PROT_NONE] s(1,2) show thesis
    by (intro that [of i]) (simp_all add: mmu_nonresident_def Let_def, simp_all add: emit_def)
qed

lemma mmu_resident_ok:
  assumes "served net m pid" and "user_address va" and "va mod int (page_size m) = 0" and "prot \<in> {PROT_READ, PROT_RW}"
    and "0 \<le> f" and "nat f * page_size m < 2 ^ 63"
  obtains i where "mmu_resident net pid va f prot m =
    Inr (m\<lparr>mappings := set_mapping pid va (nat f * page_size m, prot) (mappings m),
           trace := trace m @ [Resident (int i) va prot f]\<rparr>)"
    and "get_pid_id pid m = Inr i"
proof -
  obtain i sock c where s: "\<forall>m'. id2pid m' = id2pid m \<longrightarrow> get_pid_id pid m' = Inr i"
    "\<forall>m'. sock2client m' = sock2client m \<longrightarrow> mmu_client_search pid m' = Inr (sock, c)" "net sock" "cl_pid c = pid"
    by (rule served_calls [OF assms(1)])
  have "page_size (emit (Resident (int i) va prot f) m) = page_size m" by (simp add: emit_def)
  with remap_obeyed [where net = net and sock = sock, OF s(3,4) assms(2), of "emit (Resident (int i) va prot f) m" prot f] assms(3-6) s(1,2) show thesis
    by (intro that [of i]) (simp_all add: mmu_resident_def Let_def, simp_all add: emit_def)
qed

text \<open>
  An exchange that fails while the pager holds its mutex ends in a deadlock: the MMU destroys
  the client, and \<open>pager_destroy\<close> waits for the mutex that its own thread holds.
\<close>

lemma mmu_chprot_lost:
  assumes "mutex m" and "pid \<in> set (id2pid m)" and "pid \<noteq> 0"
    and "find (\<lambda>i. case sock2client m i of None \<Rightarrow> False | Some c \<Rightarrow> cl_pid c = pid)
      [3..<MMU_MAX_SOCK] = Some sock" and "\<not> net sock"
  shows "mmu_chprot net pid va prot m = Inl Self_Deadlock"
    and "mmu_nonresident net pid va m = Inl Self_Deadlock"
    and "mmu_resident net pid va f prot m = Inl Self_Deadlock"
proof -
  from assms(2) have "find_index (\<lambda>p. p = pid) (id2pid m) \<noteq> None"
    by (simp only: find_index_None) blast
  then obtain i where i: "find_index (\<lambda>p. p = pid) (id2pid m) = Some i" by blast
  from assms(4) obtain c where c: "sock2client m sock = Some c" "cl_pid c = pid"
    by (auto simp: find_Some_iff split: option.splits)
  have "mmu_client_search pid m' = Inr (sock, c)" if "sock2client m' = sock2client m" for m'
    using assms(4) c that by (simp add: mmu_client_search_def)
  moreover have "mmu_client_destroy sock c m' = Inl Self_Deadlock" if "mutex m'" for m'
    using c assms(3) that by (simp add: mmu_client_destroy_def pager_destroy_def lock_def Let_def)
  ultimately show "mmu_chprot net pid va prot m = Inl Self_Deadlock"
    "mmu_nonresident net pid va m = Inl Self_Deadlock"
    "mmu_resident net pid va f prot m = Inl Self_Deadlock"
    using assms(1,5) i
    by (simp_all add: mmu_chprot_def mmu_nonresident_def mmu_resident_def get_pid_id_def Let_def
        emit_def send_order_def)
qed

end
