(* ===== verification/Pager_Inv.thy ===== *)
theory Pager_Inv
  imports Mmu_Correct
begin

text \<open>
  The invariant that ties the pager's tables, the MMU's memory and the clients' mappings
  together, the bytes a page of a process stands for, and what the two halves of a page fault,
  evicting a page and installing one, do to both.
\<close>

section \<open>The invariant\<close>

text \<open>The numbers of frames and blocks are those of C variables of type \<open>int\<close>.\<close>

definition owns :: "machine \<Rightarrow> int \<Rightarrow> nat \<times> nat \<Rightarrow> bool" where
  "owns m pid p \<longleftrightarrow> (\<exists>t \<in> set (page_list m). pt_pid t = pid \<and> pt_pages t = Some (fst p) \<and>
     snd p < page_count t)"

definition geometry :: "machine \<Rightarrow> bool" where
  "geometry m \<longleftrightarrow> 0 < page_size m \<and> UVM_BASEADDR mod int (page_size m) = 0 \<and>
     0 < fl_size m \<and> fl_size m = length (frames m) \<and> nblocks m = length (blocks m) \<and>
     fl_size m < 2 ^ 31 \<and> nblocks m < 2 ^ 31 \<and>
     fl_size m * page_size m \<le> length (pmem m) \<and> nblocks m * page_size m \<le> length (disk m) \<and>
     second_chance_index m < fl_size m"

definition tables_ok :: "machine \<Rightarrow> bool" where
  "tables_ok m \<longleftrightarrow> distinct (map pt_pid (page_list m)) \<and>
     (\<forall>t \<in> set (page_list m). pt_pid t \<noteq> INVALID_PID \<and>
        (0 < page_count t \<longrightarrow> (\<exists>a ar. pt_pages t = Some a \<and> page_arrays m a = Some ar \<and>
           page_count t \<le> length ar \<and> length ar = page_capacity t))) \<and>
     (\<forall>t \<in> set (page_list m). \<forall>t' \<in> set (page_list m). 0 < page_count t \<and> 0 < page_count t' \<and>
        pt_pages t = pt_pages t' \<longrightarrow> t = t')"

definition in_frame :: "nat set \<Rightarrow> machine \<Rightarrow> int \<Rightarrow> nat \<times> nat \<Rightarrow> page_t \<Rightarrow> bool" where
  "in_frame F m pid p x \<longleftrightarrow> 0 \<le> frame_number x \<and> frame_number x < int (length (frames m)) \<and>
     nat (frame_number x) \<notin> F \<and> fr_pid (frames m ! nat (frame_number x)) = pid \<and>
     fr_page (frames m ! nat (frame_number x)) = Some p"

definition pages_ok :: "nat set \<Rightarrow> machine \<Rightarrow> bool" where
  "pages_ok F m \<longleftrightarrow> (\<forall>pid p. owns m pid p \<longrightarrow> (\<exists>x. page_at m p = Some x \<and>
     addr x = UVM_BASEADDR + int (snd p) * int (page_size m) \<and>
     0 \<le> block_number x \<and> block_number x < int (length (blocks m)) \<and>
     bl_page (blocks m ! nat (block_number x)) \<noteq> None \<and>
     (isvalid x = 1 \<longrightarrow> in_frame F m pid p x)))"

definition frames_ok :: "nat set \<Rightarrow> machine \<Rightarrow> bool" where
  "frames_ok F m \<longleftrightarrow> (\<forall>f < length (frames m). f \<notin> F \<and> fr_pid (frames m ! f) \<noteq> INVALID_PID \<longrightarrow>
     (\<exists>p x. fr_page (frames m ! f) = Some p \<and> owns m (fr_pid (frames m ! f)) p \<and>
        page_at m p = Some x \<and> isvalid x = 1 \<and> frame_number x = int f))"

definition blocks_apart :: "machine \<Rightarrow> bool" where
  "blocks_apart m \<longleftrightarrow> (\<forall>pid p x pid' q y. owns m pid p \<and> owns m pid' q \<and> page_at m p = Some x \<and>
     page_at m q = Some y \<and> block_number x = block_number y \<longrightarrow> p = q)"

text \<open>What a process may do with its page is what its state in the pager allows.\<close>

definition map_ok :: "machine \<Rightarrow> page_t \<Rightarrow> (nat \<times> int) option \<Rightarrow> bool" where
  "map_ok m x mp \<longleftrightarrow>
     (if isvalid x = 1
      then (\<exists>prot. mp = Some (nat (frame_number x) * page_size m, prot) \<and>
              prot \<in> {PROT_NONE, PROT_READ, PROT_RW} \<and> (prot = PROT_RW \<longrightarrow> is_allocated x = 1))
      else (case mp of None \<Rightarrow> True | Some (off, prot) \<Rightarrow> prot = PROT_NONE))"

definition maps_ok :: "machine \<Rightarrow> bool" where
  "maps_ok m \<longleftrightarrow> (\<forall>pid p x. owns m pid p \<and> page_at m p = Some x \<longrightarrow>
     map_ok m x (mappings m pid (addr x)))"

definition stored :: "machine \<Rightarrow> int \<Rightarrow> byte list" where
  "stored m b = (if bl_allocated (blocks m ! nat b) = 1 then block_bytes m b else zero_page m)"

text \<open>A page that was not written since it came into its frame equals its copy on disk.\<close>

definition clean_ok :: "machine \<Rightarrow> bool" where
  "clean_ok m \<longleftrightarrow> (\<forall>pid p x. owns m pid p \<and> page_at m p = Some x \<and> isvalid x = 1 \<and>
     is_allocated x \<noteq> 1 \<longrightarrow> frame_bytes m (frame_number x) = stored m (block_number x))"

definition pager_inv :: "nat set \<Rightarrow> machine \<Rightarrow> bool" where
  "pager_inv F m \<longleftrightarrow> geometry m \<and> tables_ok m \<and> pages_ok F m \<and> frames_ok F m \<and>
     blocks_apart m \<and> maps_ok m \<and> clean_ok m"

text \<open>The bytes of a page, wherever they are kept.\<close>

definition page_bytes :: "machine \<Rightarrow> page_t \<Rightarrow> byte list" where
  "page_bytes m x = (if isvalid x = 1 then frame_bytes m (frame_number x)
                     else stored m (block_number x))"

definition content :: "machine \<Rightarrow> nat \<times> nat \<Rightarrow> byte list" where
  "content m p = (case page_at m p of None \<Rightarrow> [] | Some x \<Rightarrow> page_bytes m x)"

section \<open>Consequences\<close>

lemma pager_invD:
  assumes "pager_inv F m"
  shows "geometry m" "tables_ok m" "pages_ok F m" "frames_ok F m" "blocks_apart m" "maps_ok m"
    "clean_ok m"
  using assms by (simp_all add: pager_inv_def)

lemma owns_cong: "page_list m' = page_list m \<Longrightarrow> owns m' = owns m"
  by (simp add: owns_def fun_eq_iff)

lemma geometry_frame:
  "geometry m \<Longrightarrow> 0 \<le> f \<Longrightarrow> f < int (length (frames m)) \<Longrightarrow> has_frame m f"
  using page_fits [of "nat f" "fl_size m" "page_size m" "length (pmem m)"]
  by (auto simp: geometry_def has_frame_def)

lemma geometry_block:
  "geometry m \<Longrightarrow> 0 \<le> b \<Longrightarrow> b < int (length (blocks m)) \<Longrightarrow> has_block m b"
  using page_fits [of "nat b" "nblocks m" "page_size m" "length (disk m)"]
  by (auto simp: geometry_def has_block_def)

lemma owner_unique:
  assumes "tables_ok m" and "owns m pid p" and "owns m pid' p"
  shows "pid' = pid"
  using assms by (fastforce simp: owns_def tables_ok_def)

lemma distinct_tables:
  "distinct (map pt_pid ts) \<Longrightarrow> t \<in> set ts \<Longrightarrow> t' \<in> set ts \<Longrightarrow> pt_pid t = pt_pid t' \<Longrightarrow> t = t'"
  by (metis distinct_map inj_onD)

lemma same_array:
  assumes "tables_ok m" and "owns m pid p" and "owns m pid q"
  shows "fst p = fst q"
proof -
  from assms(2,3) obtain t t' where t: "t \<in> set (page_list m)" "pt_pid t = pid"
    "pt_pages t = Some (fst p)" "t' \<in> set (page_list m)" "pt_pid t' = pid"
    "pt_pages t' = Some (fst q)" by (auto simp: owns_def)
  then have "t = t'" using distinct_tables assms(1) by (metis tables_ok_def)
  with t show ?thesis by simp
qed

lemma pages_okE:
  assumes "pages_ok F m" and "owns m pid p"
  obtains x where "page_at m p = Some x"
    and "addr x = UVM_BASEADDR + int (snd p) * int (page_size m)"
    and "0 \<le> block_number x" and "block_number x < int (length (blocks m))"
    and "bl_page (blocks m ! nat (block_number x)) \<noteq> None"
    and "isvalid x = 1 \<Longrightarrow> in_frame F m pid p x"
  using assms unfolding pages_ok_def by blast

lemma pages_okD:
  assumes "pager_inv F m" and "owns m pid p" and "page_at m p = Some x"
  shows "addr x = UVM_BASEADDR + int (snd p) * int (page_size m)"
    and "0 \<le> block_number x" and "block_number x < int (length (blocks m))"
    and "bl_page (blocks m ! nat (block_number x)) \<noteq> None"
    and "isvalid x = 1 \<Longrightarrow> in_frame F m pid p x"
  using pages_okE [OF pager_invD(3) [OF assms(1)] assms(2)] assms(3) by (metis option.inject)+

text \<open>Every page has a block of its own, so addresses and offsets stay far below \<open>2 ^ 63\<close>.\<close>

lemma geometry_page_size:
  assumes "geometry m"
  shows "page_size m < 2 ^ 31"
proof -
  have "int (page_size m) dvd UVM_BASEADDR" using assms by (auto simp: geometry_def)
  then have "int (page_size m) \<le> UVM_BASEADDR" by (rule zdvd_imp_le) (simp add: UVM_BASEADDR_def)
  then show ?thesis by (simp add: UVM_BASEADDR_def)
qed

lemma geometry_offset:
  assumes "geometry m" and "f < length (frames m)"
  shows "f * page_size m < 2 ^ 63"
proof -
  have "f * page_size m \<le> 2 ^ 31 * 2 ^ 31"
    using assms geometry_page_size [OF assms(1)] by (intro mult_le_mono) (simp_all add: geometry_def)
  then show ?thesis by simp
qed

lemma owned_index:
  assumes inv: "pager_inv F m" and p: "owns m pid p"
  shows "snd p < length (blocks m)"
proof -
  let ?b = "\<lambda>j. nat (block_number (the (page_at m (fst p, j))))"
  have o: "owns m pid (fst p, j)" if "j \<le> snd p" for j using p that by (auto simp: owns_def)
  have b: "0 \<le> block_number (the (page_at m (fst p, j)))" "?b j < length (blocks m)"
    "page_at m (fst p, j) \<noteq> None" if "j \<le> snd p" for j
    by (rule pages_okE [OF pager_invD(3) [OF inv] o [OF that]]; simp)+
  have "inj_on ?b {..snd p}"
  proof (rule inj_onI)
    fix i j assume ij: "i \<in> {..snd p}" "j \<in> {..snd p}" and e: "?b i = ?b j"
    then obtain x y where xy: "page_at m (fst p, i) = Some x" "page_at m (fst p, j) = Some y"
      using b(3) [of i] b(3) [of j] by auto
    with ij e b(1) [of i] b(1) [of j] have "block_number x = block_number y" by (simp add: eq_nat_nat_iff)
    with xy o [of i] o [of j] ij pager_invD(5) [OF inv] have "(fst p, i) = (fst p, j)"
      unfolding blocks_apart_def by blast
    then show "i = j" by simp
  qed
  moreover have "?b ` {..snd p} \<subseteq> {..<length (blocks m)}" using b(2) by auto
  ultimately have "card {..snd p} \<le> card {..<length (blocks m)}" by (rule card_inj_on_le) simp
  then show ?thesis by simp
qed

lemma owned_address:
  assumes inv: "pager_inv F m" and p: "owns m pid p" and x: "page_at m p = Some x"
  shows "user_address (addr x)"
proof -
  have g: "geometry m" by (rule pager_invD(1) [OF inv])
  have "snd p * page_size m \<le> 2 ^ 31 * 2 ^ 31"
    using owned_index [OF inv p] geometry_page_size [OF g] g by (intro mult_le_mono) (simp_all add: geometry_def)
  then have "int (snd p) * int (page_size m) \<le> 2 ^ 62" by (simp flip: of_nat_mult)
  moreover have "0 \<le> int (snd p) * int (page_size m)" by simp
  ultimately show ?thesis unfolding pages_okD(1) [OF inv p x] user_address_def UVM_BASEADDR_def by simp
qed

lemma clean_okD:
  "pager_inv F m \<Longrightarrow> owns m pid p \<Longrightarrow> page_at m p = Some x \<Longrightarrow> isvalid x = 1 \<Longrightarrow>
   is_allocated x \<noteq> 1 \<Longrightarrow> frame_bytes m (frame_number x) = stored m (block_number x)"
  unfolding pager_inv_def clean_ok_def by blast

lemma blocks_apartD:
  "pager_inv F m \<Longrightarrow> owns m pid p \<Longrightarrow> owns m pid' q \<Longrightarrow> page_at m p = Some x \<Longrightarrow>
   page_at m q = Some y \<Longrightarrow> block_number x = block_number y \<Longrightarrow> p = q"
  unfolding pager_inv_def blocks_apart_def by blast

lemma maps_okD:
  "pager_inv F m \<Longrightarrow> owns m pid p \<Longrightarrow> page_at m p = Some x \<Longrightarrow> map_ok m x (mappings m pid (addr x))"
  unfolding pager_inv_def maps_ok_def by blast

lemma frames_okE:
  assumes "pager_inv F m" and "f < length (frames m)" and "f \<notin> F"
    and "fr_pid (frames m ! f) \<noteq> INVALID_PID"
  obtains p x where "fr_page (frames m ! f) = Some p" and "owns m (fr_pid (frames m ! f)) p"
    and "page_at m p = Some x" and "isvalid x = 1" and "frame_number x = int f"
  using assms unfolding pager_inv_def frames_ok_def by blast

lemma same_address:
  assumes "pager_inv F m" and "owns m pid p" and "owns m pid q"
    and "page_at m p = Some x" and "page_at m q = Some y" and "addr x = addr y"
  shows "p = q"
proof -
  have "addr x = UVM_BASEADDR + int (snd p) * int (page_size m)"
    "addr y = UVM_BASEADDR + int (snd q) * int (page_size m)"
    using pages_okD(1) [OF assms(1,2,4)] pages_okD(1) [OF assms(1,3,5)] by simp_all
  moreover have "0 < page_size m" using assms(1) by (simp add: pager_inv_def geometry_def)
  ultimately have "snd p = snd q" using assms(6) by simp
  with same_array [OF pager_invD(2) [OF assms(1)] assms(2,3)] show ?thesis by (simp add: prod_eqI)
qed

lemma frames_apart:
  assumes inv: "pager_inv F m" and "owns m pid p" and "owns m pid' q"
    and "page_at m p = Some x" and "page_at m q = Some y"
    and "isvalid x = 1" and "isvalid y = 1" and "frame_number x = frame_number y"
  shows "p = q"
proof -
  have "in_frame F m pid p x" "in_frame F m pid' q y"
    using pages_okD(5) [OF assms(1,2,4,6)] pages_okD(5) [OF assms(1,3,5,7)] by simp_all
  with assms(8) show ?thesis by (simp add: in_frame_def)
qed

section \<open>Evicting\<close>

text \<open>Mapping orders of an eviction only take rights away.\<close>

definition calmed :: "(int \<Rightarrow> int \<rightharpoonup> nat \<times> int) \<Rightarrow> (int \<Rightarrow> int \<rightharpoonup> nat \<times> int) \<Rightarrow> bool" where
  "calmed mp mp' \<longleftrightarrow> (\<forall>pid va. case mp pid va of None \<Rightarrow> mp' pid va = None
     | Some (off, prot) \<Rightarrow> mp' pid va = Some (off, prot) \<or> mp' pid va = Some (off, PROT_NONE))"

lemma calmed_refl [simp]: "calmed mp mp"
  by (auto simp: calmed_def split: option.splits)

lemma calmed_trans: "calmed mp1 mp2 \<Longrightarrow> calmed mp2 mp3 \<Longrightarrow> calmed mp1 mp3"
  unfolding calmed_def
  by (intro allI, drule_tac x = pid in spec, drule_tac x = va in spec, drule_tac x = pid in spec,
      drule_tac x = va in spec) (auto split: option.splits)

lemma calmed_None: "calmed mp mp' \<Longrightarrow> mp' pid va = None \<longleftrightarrow> mp pid va = None"
  unfolding calmed_def by (drule spec [of _ pid], drule spec [of _ va]) (auto split: option.splits)

lemma calmed_set:
  "mp pid va = Some (off, prot) \<Longrightarrow> calmed mp (set_mapping pid va (off, PROT_NONE) mp)"
  by (auto simp: calmed_def set_mapping_def split: option.splits)

lemma PROT_differ [simp]:
  "PROT_NONE \<noteq> PROT_RW" "PROT_READ \<noteq> PROT_RW" "PROT_READ \<noteq> PROT_NONE"
  "PROT_RW \<noteq> PROT_NONE" "PROT_RW \<noteq> PROT_READ"
  by (simp_all add: PROT_NONE_def PROT_READ_def PROT_RW_def PROT_WRITE_def)

lemma map_ok_cong: "page_size m' = page_size m \<Longrightarrow> map_ok m' x mp = map_ok m x mp"
  by (simp add: map_ok_def)

lemma map_ok_calmed:
  assumes "map_ok m x (mp pid va)" and "calmed mp mp'" and "page_size m' = page_size m"
  shows "map_ok m' x (mp' pid va)"
  using assms(1,3) assms(2) [unfolded calmed_def, rule_format, of pid va]
  by (auto simp: map_ok_def split: if_splits option.splits)

text \<open>
  What moving pages between frames and disk never touches: the sizes, the owners of the blocks,
  the shape of the page arrays, and the addresses at which a process has no page.
\<close>

definition has_address :: "machine \<Rightarrow> int \<Rightarrow> int \<Rightarrow> bool" where
  "has_address m pid va \<longleftrightarrow>
     (\<exists>p. owns m pid p \<and> va = UVM_BASEADDR + int (snd p) * int (page_size m))"

definition steady :: "machine \<Rightarrow> machine \<Rightarrow> bool" where
  "steady m m' \<longleftrightarrow> page_list m' = page_list m \<and> page_size m' = page_size m \<and>
     id2pid m' = id2pid m \<and> sock2client m' = sock2client m \<and> nextid m' = nextid m \<and>
     fl_size m' = fl_size m \<and> nblocks m' = nblocks m \<and> length (frames m') = length (frames m) \<and>
     map bl_page (blocks m') = map bl_page (blocks m) \<and>
     (\<forall>a. map_option length (page_arrays m' a) = map_option length (page_arrays m a)) \<and>
     (\<forall>p. map_option block_number (page_at m' p) = map_option block_number (page_at m p)) \<and>
     (\<forall>pid va. mappings m pid va = None \<and> \<not> has_address m pid va \<longrightarrow> mappings m' pid va = None)"

lemma steady_owns: "steady m m' \<Longrightarrow> owns m' = owns m"
  by (rule owns_cong) (simp add: steady_def)

lemma steady_refl [simp]: "steady m m"
  by (simp add: steady_def)

lemma steadyD:
  assumes "steady m m'"
  shows "page_list m' = page_list m" "page_size m' = page_size m" "id2pid m' = id2pid m"
    "sock2client m' = sock2client m" "nextid m' = nextid m" "length (frames m') = length (frames m)"
    "map bl_page (blocks m') = map bl_page (blocks m)"
    "map_option length (page_arrays m' a) = map_option length (page_arrays m a)"
    "map_option block_number (page_at m' p) = map_option block_number (page_at m p)"
    "mappings m pid va = None \<Longrightarrow> \<not> has_address m pid va \<Longrightarrow> mappings m' pid va = None"
  using assms unfolding steady_def by blast+

lemma has_address_cong:
  assumes "page_list m' = page_list m" and "page_size m' = page_size m"
  shows "has_address m' = has_address m"
  by (intro ext) (simp only: has_address_def owns_cong [OF assms(1)] assms(2))

lemma steady_trans:
  assumes "steady m1 m2" and "steady m2 m3"
  shows "steady m1 m3"
  using assms has_address_cong [OF steadyD(1,2) [OF assms(1)]] unfolding steady_def
  by (intro conjI allI impI) (simp_all only: simp_thms)

lemma steady_set_mapping:
  assumes "owns m pid p" and "va = UVM_BASEADDR + int (snd p) * int (page_size m)"
    and "mappings m pid' v = None" and "\<not> has_address m pid' v"
  shows "set_mapping pid va mp (mappings m) pid' v = None"
proof -
  have "\<not> (pid' = pid \<and> v = va)" using assms(1,2,4) unfolding has_address_def by blast
  with assms(3) show ?thesis by (auto simp: set_mapping_def)
qed

text \<open>
  \<open>evicted m m' f p x\<close>: \<open>m'\<close> is \<open>m\<close> after the page \<open>p\<close>, with the entry \<open>x\<close>, has left frame \<open>f\<close>.
\<close>

definition evicted :: "machine \<Rightarrow> machine \<Rightarrow> nat \<Rightarrow> int \<Rightarrow> nat \<times> nat \<Rightarrow> page_t \<Rightarrow> bool" where
  "evicted m m' f pid p x \<longleftrightarrow>
     page_list m' = page_list m \<and> page_size m' = page_size m \<and> fl_size m' = fl_size m \<and>
     nblocks m' = nblocks m \<and> frames m' = frames m \<and> pmem m' = pmem m \<and>
     second_chance_index m' = second_chance_index m \<and> length (disk m') = length (disk m) \<and>
     id2pid m' = id2pid m \<and> sock2client m' = sock2client m \<and> mutex m' = mutex m \<and>
     nextid m' = nextid m \<and>
     page_at m' = (page_at m)(p \<mapsto> x\<lparr>isvalid := 0\<rparr>) \<and>
     (\<forall>a. map_option length (page_arrays m' a) = map_option length (page_arrays m a)) \<and>
     calmed (mappings m) (mappings m') \<and>
     (\<exists>off. mappings m' pid (addr x) = Some (off, PROT_NONE)) \<and>
     (if is_allocated x = 1
      then blocks m' = (blocks m)[nat (block_number x) :=
             (blocks m ! nat (block_number x))\<lparr>bl_allocated := 1\<rparr>] \<and>
           block_bytes m' (block_number x) = frame_bytes m (int f) \<and>
           (\<forall>b. has_block m b \<and> b \<noteq> block_number x \<longrightarrow> block_bytes m' b = block_bytes m b)
      else blocks m' = blocks m \<and> block_bytes m' = block_bytes m)"

lemma evictedD:
  assumes "evicted m m' f pid p x"
  shows "page_list m' = page_list m" "page_size m' = page_size m" "frames m' = frames m"
    "page_at m' = (page_at m)(p \<mapsto> x\<lparr>isvalid := 0\<rparr>)" "calmed (mappings m) (mappings m')"
    "length (blocks m') = length (blocks m)"
    "b < length (blocks m) \<Longrightarrow> bl_page (blocks m' ! b) = bl_page (blocks m ! b)"
    "frame_bytes m' = frame_bytes m" "zero_page m' = zero_page m" "length (disk m') = length (disk m)"
    "fl_size m' = fl_size m" "nblocks m' = nblocks m" "pmem m' = pmem m"
    "second_chance_index m' = second_chance_index m"
    "\<forall>a. map_option length (page_arrays m' a) = map_option length (page_arrays m a)"
proof -
  show "length (blocks m') = length (blocks m)"
    using assms unfolding evicted_def by (metis length_list_update)
  show "bl_page (blocks m' ! b) = bl_page (blocks m ! b)" if "b < length (blocks m)"
  proof (cases "is_allocated x = 1")
    case True
    then have "blocks m' = (blocks m)[nat (block_number x) :=
        (blocks m ! nat (block_number x))\<lparr>bl_allocated := 1\<rparr>]"
      using assms by (simp add: evicted_def)
    with that show ?thesis by (cases "b = nat (block_number x)") simp_all
  next
    case False
    with assms show ?thesis by (simp add: evicted_def)
  qed
qed (use assms in \<open>simp_all add: evicted_def frame_bytes_def zero_page_def fun_eq_iff\<close>)

lemma tables_ok_cong:
  assumes "page_list m' = page_list m"
    and "\<forall>a. map_option length (page_arrays m' a) = map_option length (page_arrays m a)"
    and "tables_ok m"
  shows "tables_ok m'"
proof -
  have "\<exists>ar'. page_arrays m' a = Some ar' \<and> length ar' = length ar"
    if "page_arrays m a = Some ar" for a ar
    using assms(2) [rule_format, of a] that by (cases "page_arrays m' a") auto
  with assms(1,3) show ?thesis by (fastforce simp: tables_ok_def)
qed

lemma evicted_steady:
  assumes "evicted m m' f pid p x" and "page_at m p = Some x"
  shows "steady m m'"
proof -
  have "map bl_page (blocks m') = map bl_page (blocks m)"
    using evictedD(6,7) [OF assms(1)] by (intro nth_equalityI) simp_all
  moreover have "mappings m' pid va = None" if "mappings m pid va = None" for pid va
    using calmed_None [OF evictedD(5) [OF assms(1)]] that by blast
  ultimately show ?thesis
    using assms unfolding steady_def evicted_def by (intro conjI allI impI) simp_all
qed

lemma evict_content:
  assumes inv: "pager_inv {} m" and ev: "evicted m m' f pid p x"
    and p: "owns m pid p" "page_at m p = Some x" "isvalid x = 1" "frame_number x = int f"
    and q: "owns m pid' q"
  shows "content m' q = content m q"
proof -
  from pager_invD(3) [OF inv] q obtain y where y: "page_at m q = Some y" by (auto elim: pages_okE)
  note bny = pages_okD(2,3) [OF inv q y] and bnx = pages_okD(2,3) [OF inv p(1,2)]
  have hb: "has_block m (block_number y)"
    using geometry_block [OF pager_invD(1) [OF inv] bny] .
  note fb = evictedD(8) [OF ev] and zp = evictedD(9) [OF ev]
  show ?thesis
  proof (cases "q = p")
    case True
    with y p have "y = x" by simp
    have "stored m' (block_number x) = frame_bytes m (int f)"
    proof (cases "is_allocated x = 1")
      case True
      with ev bnx show ?thesis by (auto simp: evicted_def stored_def)
    next
      case False
      then have "stored m' (block_number x) = stored m (block_number x)"
        using ev zp by (auto simp: evicted_def stored_def)
      moreover have "frame_bytes m (frame_number x) = stored m (block_number x)"
        using clean_okD [OF inv p(1-3) False] .
      ultimately show ?thesis using p by simp
    qed
    with True ev p show ?thesis by (auto simp: content_def page_bytes_def evicted_def)
  next
    case False
    then have "block_number y \<noteq> block_number x"
      using blocks_apartD [OF inv q p(1) y p(2)] by blast
    then have "nat (block_number y) \<noteq> nat (block_number x)" using bny bnx by simp
    with ev \<open>block_number y \<noteq> block_number x\<close> hb zp
    have "stored m' (block_number y) = stored m (block_number y)"
      by (auto simp: stored_def evicted_def split: if_splits)
    with False ev y fb show ?thesis by (auto simp: content_def page_bytes_def evicted_def)
  qed
qed

lemma evict_inv:
  assumes inv: "pager_inv {} m" and ev: "evicted m m' f pid p x"
    and p: "owns m pid p" "page_at m p = Some x" "isvalid x = 1" "frame_number x = int f"
  shows "pager_inv {f} m'"
proof -
  have ow: "owns m' = owns m" by (rule owns_cong [OF evictedD(1) [OF ev]])
  note [simp] = evictedD(2,3,6,7,8,9) [OF ev]
  note pt = evictedD(4) [OF ev] and cm = evictedD(5) [OF ev]
  have "geometry m'" using pager_invD(1) [OF inv] evictedD(10-14) [OF ev] by (auto simp: geometry_def)
  moreover have "tables_ok m'"
    by (rule tables_ok_cong [OF evictedD(1,15) [OF ev] pager_invD(2) [OF inv]])
  moreover have "pages_ok {f} m'"
    unfolding pages_ok_def ow
  proof (intro allI impI)
    fix pid' q assume q: "owns m pid' q"
    from pager_invD(3) [OF inv] q obtain y where y: "page_at m q = Some y" by (auto elim: pages_okE)
    note d = pages_okD [OF inv q y]
    show "\<exists>x'. page_at m' q = Some x' \<and> addr x' = UVM_BASEADDR + int (snd q) * int (page_size m') \<and>
        0 \<le> block_number x' \<and> block_number x' < int (length (blocks m')) \<and>
        bl_page (blocks m' ! nat (block_number x')) \<noteq> None \<and>
        (isvalid x' = 1 \<longrightarrow> in_frame {f} m' pid' q x')"
    proof (cases "q = p")
      case True
      with d y p pt show ?thesis by auto
    next
      case False
      have "nat (frame_number y) \<noteq> f" if "isvalid y = 1"
        using frames_apart [OF inv p(1) q p(2) y p(3) that] False p(4) d(5) [OF that]
        by (auto simp: in_frame_def)
      with False d y pt show ?thesis by (auto simp: in_frame_def)
    qed
  qed
  moreover have "frames_ok {f} m'"
    unfolding frames_ok_def ow evictedD(3) [OF ev]
  proof (intro allI impI)
    fix g assume g: "g < length (frames m)" "g \<notin> {f} \<and> fr_pid (frames m ! g) \<noteq> INVALID_PID"
    then obtain q y where "fr_page (frames m ! g) = Some q" "owns m (fr_pid (frames m ! g)) q"
      "page_at m q = Some y" "isvalid y = 1" "frame_number y = int g"
      by (auto elim: frames_okE [OF inv])
    moreover from this p g have "q \<noteq> p" by auto
    ultimately show "\<exists>p x. fr_page (frames m ! g) = Some p \<and> owns m (fr_pid (frames m ! g)) p \<and>
        page_at m' p = Some x \<and> isvalid x = 1 \<and> frame_number x = int g"
      using pt by auto
  qed
  moreover have "blocks_apart m'"
    unfolding blocks_apart_def ow
  proof (intro allI impI)
    fix pid1 q1 y1 pid2 q2 y2
    assume q: "owns m pid1 q1 \<and> owns m pid2 q2 \<and> page_at m' q1 = Some y1 \<and> page_at m' q2 = Some y2 \<and>
      block_number y1 = block_number y2"
    have "\<exists>z. page_at m r = Some z \<and> block_number z = block_number y" if "page_at m' r = Some y" for r y
      using that pt p by (auto split: if_splits)
    then obtain z1 z2 where "page_at m q1 = Some z1" "page_at m q2 = Some z2"
      "block_number z1 = block_number z2" using q by metis
    with blocks_apartD [OF inv, of pid1 q1 pid2 q2] q show "q1 = q2" by blast
  qed
  moreover have "maps_ok m'"
    unfolding maps_ok_def ow
  proof (intro allI impI)
    fix pid' q y assume q: "owns m pid' q \<and> page_at m' q = Some y"
    show "map_ok m' y (mappings m' pid' (addr y))"
    proof (cases "q = p")
      case True
      with q owner_unique [OF pager_invD(2) [OF inv] p(1)] have "pid' = pid" by auto
      with True q pt ev show ?thesis by (auto simp: map_ok_def evicted_def)
    next
      case False
      with q pt have "page_at m q = Some y" by simp
      with q maps_okD [OF inv] have "map_ok m y (mappings m pid' (addr y))" by blast
      then show ?thesis using cm evictedD(2) [OF ev] by (rule map_ok_calmed)
    qed
  qed
  moreover have "clean_ok m'"
    unfolding clean_ok_def ow
  proof (intro allI impI)
    fix pid' q y
    assume q: "owns m pid' q \<and> page_at m' q = Some y \<and> isvalid y = 1 \<and> is_allocated y \<noteq> 1"
    then have "q \<noteq> p" using pt by auto
    with q pt have y: "page_at m q = Some y" by simp
    have bn: "block_number y \<noteq> block_number x"
      using blocks_apartD [OF inv _ p(1) y p(2)] q \<open>q \<noteq> p\<close> by blast
    note d = pages_okD(2,3) [OF inv _ y] and dx = pages_okD(2,3) [OF inv p(1,2)]
    have "has_block m (block_number y)"
      using geometry_block [OF pager_invD(1) [OF inv]] d q by blast
    moreover have "nat (block_number y) \<noteq> nat (block_number x)"
      using bn d(1) [of pid'] dx q by (metis nat_eq_iff2 nat_0_le)
    ultimately have "stored m' (block_number y) = stored m (block_number y)"
      using ev bn by (auto simp: stored_def evicted_def split: if_splits)
    with clean_okD [OF inv _ y] q
    show "frame_bytes m' (frame_number y) = stored m' (block_number y)" by auto
  qed
  ultimately show ?thesis by (simp add: pager_inv_def)
qed

section \<open>Installing\<close>

text \<open>
  \<open>installed m m' f pid p x\<close>: the page \<open>p\<close>, whose entry was \<open>x\<close>, has come into frame \<open>f\<close>, read-only.
\<close>

definition resident_entry :: "nat \<Rightarrow> page_t \<Rightarrow> page_t" where
  "resident_entry f x = x\<lparr>isvalid := 1, frame_number := int f, is_allocated := 0\<rparr>"

definition installed :: "machine \<Rightarrow> machine \<Rightarrow> nat \<Rightarrow> int \<Rightarrow> nat \<times> nat \<Rightarrow> page_t \<Rightarrow> bool" where
  "installed m m' f pid p x \<longleftrightarrow>
     page_list m' = page_list m \<and> page_size m' = page_size m \<and> fl_size m' = fl_size m \<and>
     nblocks m' = nblocks m \<and> blocks m' = blocks m \<and> disk m' = disk m \<and>
     second_chance_index m' = second_chance_index m \<and> length (pmem m') = length (pmem m) \<and>
     id2pid m' = id2pid m \<and> sock2client m' = sock2client m \<and> mutex m' = mutex m \<and>
     nextid m' = nextid m \<and>
     frames m' = (frames m)[f := \<lparr>fr_pid = pid, reference_bit = 1, fr_page = Some p\<rparr>] \<and>
     page_at m' = (page_at m)(p \<mapsto> resident_entry f x) \<and>
     (\<forall>a. map_option length (page_arrays m' a) = map_option length (page_arrays m a)) \<and>
     mappings m' = set_mapping pid (addr x) (f * page_size m, PROT_READ) (mappings m) \<and>
     frame_bytes m' (int f) = stored m (block_number x) \<and>
     (\<forall>g. has_frame m g \<and> g \<noteq> int f \<longrightarrow> frame_bytes m' g = frame_bytes m g)"

lemma installedD:
  assumes "installed m m' f pid p x"
  shows "page_list m' = page_list m" "page_size m' = page_size m" "fl_size m' = fl_size m"
    "nblocks m' = nblocks m" "blocks m' = blocks m" "disk m' = disk m"
    "second_chance_index m' = second_chance_index m" "length (pmem m') = length (pmem m)"
    "frames m' = (frames m)[f := \<lparr>fr_pid = pid, reference_bit = 1, fr_page = Some p\<rparr>]"
    "page_at m' = (page_at m)(p \<mapsto> resident_entry f x)"
    "\<forall>a. map_option length (page_arrays m' a) = map_option length (page_arrays m a)"
    "mappings m' = set_mapping pid (addr x) (f * page_size m, PROT_READ) (mappings m)"
    "frame_bytes m' (int f) = stored m (block_number x)"
    "has_frame m g \<Longrightarrow> g \<noteq> int f \<Longrightarrow> frame_bytes m' g = frame_bytes m g"
    "stored m' = stored m"
  using assms
  by (simp_all add: installed_def stored_def block_bytes_def zero_page_def fun_eq_iff)

lemma installed_steady:
  assumes "installed m m' f pid p x" and "owns m pid p"
    and "addr x = UVM_BASEADDR + int (snd p) * int (page_size m)" and "page_at m p = Some x"
  shows "steady m m'"
  using assms(1,4) steady_set_mapping [OF assms(2,3)]
  by (simp add: steady_def installed_def resident_entry_def)

lemma resident_entry_simps [simp]:
  "isvalid (resident_entry f x) = 1" "frame_number (resident_entry f x) = int f"
  "is_allocated (resident_entry f x) = 0" "block_number (resident_entry f x) = block_number x"
  "addr (resident_entry f x) = addr x"
  by (simp_all add: resident_entry_def)

lemma install_frame_other:
  assumes inv: "pager_inv {f} m" and q: "owns m pid' q" "page_at m q = Some y" "isvalid y = 1"
  shows "nat (frame_number y) \<noteq> f" and "frame_number y \<noteq> int f" and "has_frame m (frame_number y)"
proof -
  note d = pages_okD(5) [OF inv q]
  then show "nat (frame_number y) \<noteq> f" by (auto simp: in_frame_def)
  then show "frame_number y \<noteq> int f" by auto
  show "has_frame m (frame_number y)"
    using geometry_frame [OF pager_invD(1) [OF inv]] d by (auto simp: in_frame_def)
qed

lemma install_content:
  assumes inv: "pager_inv {f} m" and ins: "installed m m' f pid p x"
    and p: "owns m pid p" "page_at m p = Some x" "isvalid x \<noteq> 1" and q: "owns m pid' q"
  shows "content m' q = content m q"
proof (cases "q = p")
  case True
  with p installedD(10,13) [OF ins] show ?thesis by (simp add: content_def page_bytes_def)
next
  case False
  from pager_invD(3) [OF inv] q obtain y where y: "page_at m q = Some y" by (auto elim: pages_okE)
  have "frame_bytes m' (frame_number y) = frame_bytes m (frame_number y)" if "isvalid y = 1"
    using installedD(14) [OF ins] install_frame_other [OF inv q y that] by blast
  with False y installedD(10,15) [OF ins] show ?thesis by (simp add: content_def page_bytes_def)
qed

lemma install_inv:
  assumes inv: "pager_inv {f} m" and ins: "installed m m' f pid p x" and f: "f < length (frames m)"
    and p: "owns m pid p" "page_at m p = Some x" "isvalid x \<noteq> 1"
  shows "pager_inv {} m'"
proof -
  have ow: "owns m' = owns m" by (rule owns_cong [OF installedD(1) [OF ins]])
  note [simp] = installedD(2,5,15) [OF ins]
  note pt = installedD(10) [OF ins] and fr = installedD(9) [OF ins] and mp = installedD(12) [OF ins]
  have lf: "length (frames m') = length (frames m)" using fr by simp
  have "geometry m'" using pager_invD(1) [OF inv] installedD(3-8) [OF ins] lf
    by (auto simp: geometry_def)
  moreover have "tables_ok m'"
    by (rule tables_ok_cong [OF installedD(1,11) [OF ins] pager_invD(2) [OF inv]])
  moreover have "pages_ok {} m'"
    unfolding pages_ok_def ow
  proof (intro allI impI)
    fix pid' q assume q: "owns m pid' q"
    from pager_invD(3) [OF inv] q obtain y where y: "page_at m q = Some y" by (auto elim: pages_okE)
    note d = pages_okD [OF inv q y]
    show "\<exists>x'. page_at m' q = Some x' \<and> addr x' = UVM_BASEADDR + int (snd q) * int (page_size m') \<and>
        0 \<le> block_number x' \<and> block_number x' < int (length (blocks m')) \<and>
        bl_page (blocks m' ! nat (block_number x')) \<noteq> None \<and>
        (isvalid x' = 1 \<longrightarrow> in_frame {} m' pid' q x')"
    proof (cases "q = p")
      case True
      with q owner_unique [OF pager_invD(2) [OF inv] p(1)] have "pid' = pid" by auto
      with True d y p pt fr f show ?thesis by (auto simp: in_frame_def)
    next
      case False
      with d y pt fr lf show ?thesis by (auto simp: in_frame_def)
    qed
  qed
  moreover have "frames_ok {} m'"
    unfolding frames_ok_def ow lf
  proof (intro allI impI)
    fix g assume g: "g < length (frames m)" "g \<notin> {} \<and> fr_pid (frames m' ! g) \<noteq> INVALID_PID"
    show "\<exists>p x. fr_page (frames m' ! g) = Some p \<and> owns m (fr_pid (frames m' ! g)) p \<and>
        page_at m' p = Some x \<and> isvalid x = 1 \<and> frame_number x = int g"
    proof (cases "g = f")
      case True
      with fr f p pt show ?thesis by auto
    next
      case False
      with fr g obtain q y where q: "fr_page (frames m ! g) = Some q"
        "owns m (fr_pid (frames m ! g)) q" "page_at m q = Some y" "isvalid y = 1"
        "frame_number y = int g" by (auto elim: frames_okE [OF inv])
      with p have "q \<noteq> p" by auto
      with q False fr pt show ?thesis by auto
    qed
  qed
  moreover have "blocks_apart m'"
    unfolding blocks_apart_def ow
  proof (intro allI impI)
    fix pid1 q1 y1 pid2 q2 y2
    assume q: "owns m pid1 q1 \<and> owns m pid2 q2 \<and> page_at m' q1 = Some y1 \<and> page_at m' q2 = Some y2 \<and>
      block_number y1 = block_number y2"
    have "\<exists>z. page_at m r = Some z \<and> block_number z = block_number y" if "page_at m' r = Some y" for r y
      using that pt p by (auto split: if_splits)
    then obtain z1 z2 where "page_at m q1 = Some z1" "page_at m q2 = Some z2"
      "block_number z1 = block_number z2" using q by metis
    with blocks_apartD [OF inv, of pid1 q1 pid2 q2] q show "q1 = q2" by blast
  qed
  moreover have "maps_ok m'"
    unfolding maps_ok_def ow
  proof (intro allI impI)
    fix pid' q y assume q: "owns m pid' q \<and> page_at m' q = Some y"
    show "map_ok m' y (mappings m' pid' (addr y))"
    proof (cases "q = p")
      case True
      with q owner_unique [OF pager_invD(2) [OF inv] p(1)] have "pid' = pid" by auto
      with True q pt mp show ?thesis by (auto simp: map_ok_def set_mapping_def)
    next
      case False
      with q pt have y: "page_at m q = Some y" by simp
      have "\<not> (pid' = pid \<and> addr y = addr x)"
        using same_address [OF inv _ p(1) y p(2)] q False by auto
      then have "mappings m' pid' (addr y) = mappings m pid' (addr y)"
        using mp by (auto simp: set_mapping_def)
      moreover have "map_ok m y (mappings m pid' (addr y))" using maps_okD [OF inv _ y] q by blast
      ultimately show ?thesis using map_ok_cong [OF installedD(2) [OF ins]] by metis
    qed
  qed
  moreover have "clean_ok m'"
    unfolding clean_ok_def ow
  proof (intro allI impI)
    fix pid' q y
    assume q: "owns m pid' q \<and> page_at m' q = Some y \<and> isvalid y = 1 \<and> is_allocated y \<noteq> 1"
    show "frame_bytes m' (frame_number y) = stored m' (block_number y)"
    proof (cases "q = p")
      case True
      with q pt installedD(13) [OF ins] show ?thesis by auto
    next
      case False
      with q pt have y: "page_at m q = Some y" by simp
      with q have "frame_bytes m' (frame_number y) = frame_bytes m (frame_number y)"
        using installedD(14) [OF ins] install_frame_other [OF inv, of pid' q y] by blast
      with clean_okD [OF inv _ y] q show ?thesis by auto
    qed
  qed
  ultimately show ?thesis by (simp add: pager_inv_def)
qed

section \<open>Touching\<close>

text \<open>
  \<open>touched m m' pid p x\<close>: the process has been given write access to its resident page \<open>p\<close>.
\<close>

definition touched :: "machine \<Rightarrow> machine \<Rightarrow> int \<Rightarrow> nat \<times> nat \<Rightarrow> page_t \<Rightarrow> bool" where
  "touched m m' pid p x \<longleftrightarrow>
     page_list m' = page_list m \<and> page_size m' = page_size m \<and> fl_size m' = fl_size m \<and>
     nblocks m' = nblocks m \<and> blocks m' = blocks m \<and> disk m' = disk m \<and> pmem m' = pmem m \<and>
     second_chance_index m' = second_chance_index m \<and>
     id2pid m' = id2pid m \<and> sock2client m' = sock2client m \<and> mutex m' = mutex m \<and>
     nextid m' = nextid m \<and>
     frames m' = (frames m)[nat (frame_number x) :=
       (frames m ! nat (frame_number x))\<lparr>reference_bit := 1\<rparr>] \<and>
     page_at m' = (page_at m)(p \<mapsto> x\<lparr>is_allocated := 1\<rparr>) \<and>
     (\<forall>a. map_option length (page_arrays m' a) = map_option length (page_arrays m a)) \<and>
     mappings m' = set_mapping pid (addr x) (nat (frame_number x) * page_size m, PROT_RW) (mappings m)"

lemma touchedD:
  assumes "touched m m' pid p x"
  shows "page_list m' = page_list m" "page_size m' = page_size m" "fl_size m' = fl_size m"
    "nblocks m' = nblocks m" "blocks m' = blocks m" "disk m' = disk m"
    "second_chance_index m' = second_chance_index m" "pmem m' = pmem m"
    "length (frames m') = length (frames m)"
    "page_at m' = (page_at m)(p \<mapsto> x\<lparr>is_allocated := 1\<rparr>)"
    "\<forall>a. map_option length (page_arrays m' a) = map_option length (page_arrays m a)"
    "mappings m' = set_mapping pid (addr x) (nat (frame_number x) * page_size m, PROT_RW) (mappings m)"
    "frame_bytes m' = frame_bytes m" "stored m' = stored m"
    "g < length (frames m) \<Longrightarrow> fr_pid (frames m' ! g) = fr_pid (frames m ! g)"
    "g < length (frames m) \<Longrightarrow> fr_page (frames m' ! g) = fr_page (frames m ! g)"
proof -
  have fr: "frames m' = (frames m)[nat (frame_number x) :=
       (frames m ! nat (frame_number x))\<lparr>reference_bit := 1\<rparr>]"
    using assms by (simp add: touched_def)
  show "length (frames m') = length (frames m)" by (simp add: fr)
  show "fr_pid (frames m' ! g) = fr_pid (frames m ! g)"
    "fr_page (frames m' ! g) = fr_page (frames m ! g)" if "g < length (frames m)"
    using that unfolding fr by (cases "g = nat (frame_number x)"; simp)+
qed (use assms in \<open>simp_all add: touched_def stored_def frame_bytes_def block_bytes_def
      zero_page_def fun_eq_iff\<close>)

lemma touched_steady:
  assumes "touched m m' pid p x" and "owns m pid p"
    and "addr x = UVM_BASEADDR + int (snd p) * int (page_size m)" and "page_at m p = Some x"
  shows "steady m m'"
  using assms(1,4) steady_set_mapping [OF assms(2,3)] by (simp add: steady_def touched_def)

lemma touch_content:
  assumes inv: "pager_inv {} m" and t: "touched m m' pid p x"
    and p: "owns m pid p" "page_at m p = Some x"
  shows "content m' q = content m q"
  using touchedD(10,13,14) [OF t] p by (cases "q = p") (auto simp: content_def page_bytes_def split: option.splits)

lemma touch_inv:
  assumes inv: "pager_inv {} m" and t: "touched m m' pid p x"
    and p: "owns m pid p" "page_at m p = Some x" "isvalid x = 1"
  shows "pager_inv {} m'"
proof -
  have ow: "owns m' = owns m" by (rule owns_cong [OF touchedD(1) [OF t]])
  note [simp] = touchedD(2,5,9,13,14,15,16) [OF t]
  note pt = touchedD(10) [OF t] and mp = touchedD(12) [OF t]
  have old: "\<exists>z. page_at m r = Some z \<and> block_number z = block_number y \<and> addr z = addr y \<and>
      isvalid z = isvalid y \<and> frame_number z = frame_number y \<and>
      (is_allocated y \<noteq> 1 \<longrightarrow> is_allocated z \<noteq> 1)" if "page_at m' r = Some y" for r y
    using that pt p by (auto split: if_splits)
  have "geometry m'" using pager_invD(1) [OF inv] touchedD(3-9) [OF t] by (auto simp: geometry_def)
  moreover have "tables_ok m'"
    by (rule tables_ok_cong [OF touchedD(1,11) [OF t] pager_invD(2) [OF inv]])
  moreover have "pages_ok {} m'"
    unfolding pages_ok_def ow
  proof (intro allI impI)
    fix pid' q assume q: "owns m pid' q"
    from pager_invD(3) [OF inv] q obtain y where y: "page_at m q = Some y" by (auto elim: pages_okE)
    note d = pages_okD [OF inv q y]
    have "page_at m' q = Some (if q = p then y\<lparr>is_allocated := 1\<rparr> else y)" using pt p y by auto
    with d show "\<exists>x'. page_at m' q = Some x' \<and>
        addr x' = UVM_BASEADDR + int (snd q) * int (page_size m') \<and>
        0 \<le> block_number x' \<and> block_number x' < int (length (blocks m')) \<and>
        bl_page (blocks m' ! nat (block_number x')) \<noteq> None \<and>
        (isvalid x' = 1 \<longrightarrow> in_frame {} m' pid' q x')"
      by (auto simp: in_frame_def)
  qed
  moreover have "frames_ok {} m'"
    unfolding frames_ok_def ow
  proof (intro allI impI)
    fix g assume g: "g < length (frames m')" "g \<notin> {} \<and> fr_pid (frames m' ! g) \<noteq> INVALID_PID"
    then obtain q y where "fr_page (frames m ! g) = Some q" "owns m (fr_pid (frames m ! g)) q"
      "page_at m q = Some y" "isvalid y = 1" "frame_number y = int g"
      by (auto elim: frames_okE [OF inv])
    then show "\<exists>p x. fr_page (frames m' ! g) = Some p \<and> owns m (fr_pid (frames m' ! g)) p \<and>
        page_at m' p = Some x \<and> isvalid x = 1 \<and> frame_number x = int g"
      using g pt p by (cases "q = p") auto
  qed
  moreover have "blocks_apart m'"
    unfolding blocks_apart_def ow using blocks_apartD [OF inv] old by metis
  moreover have "maps_ok m'"
    unfolding maps_ok_def ow
  proof (intro allI impI)
    fix pid' q y assume q: "owns m pid' q \<and> page_at m' q = Some y"
    show "map_ok m' y (mappings m' pid' (addr y))"
    proof (cases "q = p")
      case True
      with q owner_unique [OF pager_invD(2) [OF inv] p(1)] have "pid' = pid" by auto
      with True q p pt mp show ?thesis by (auto simp: map_ok_def set_mapping_def)
    next
      case False
      with q pt have y: "page_at m q = Some y" by simp
      have "\<not> (pid' = pid \<and> addr y = addr x)"
        using same_address [OF inv _ p(1) y p(2)] q False by auto
      then have "mappings m' pid' (addr y) = mappings m pid' (addr y)"
        using mp by (auto simp: set_mapping_def)
      moreover have "map_ok m y (mappings m pid' (addr y))" using maps_okD [OF inv _ y] q by blast
      ultimately show ?thesis using map_ok_cong [OF touchedD(2) [OF t]] by metis
    qed
  qed
  moreover have "clean_ok m'"
    unfolding clean_ok_def ow
  proof (intro allI impI)
    fix pid' q y
    assume q: "owns m pid' q \<and> page_at m' q = Some y \<and> isvalid y = 1 \<and> is_allocated y \<noteq> 1"
    with old obtain z where "page_at m q = Some z" "block_number z = block_number y"
      "isvalid z = 1" "frame_number z = frame_number y" "is_allocated z \<noteq> 1" by metis
    with clean_okD [OF inv, of pid' q z] q
    show "frame_bytes m' (frame_number y) = stored m' (block_number y)" by simp
  qed
  ultimately show ?thesis by (simp add: pager_inv_def)
qed

end
