(* ===== verification/Clock.thy ===== *)
theory Clock
  imports Pager_Inv
begin

text \<open>
  The second-chance search of \<open>find_frame_to_swap\<close>: it returns, it takes the first frame from
  the hand on whose reference bit is clear, and it clears the bits it passes over.
\<close>

text \<open>The \<open>k\<close>th frame the hand looks at, and the state after it has passed \<open>k\<close> frames.\<close>

definition hand :: "machine \<Rightarrow> nat \<Rightarrow> nat" where
  "hand m k = (second_chance_index m + k) mod length (frames m)"

definition passed :: "machine \<Rightarrow> nat \<Rightarrow> machine" where
  "passed m k = m\<lparr>second_chance_index := hand m k,
     frames := map (\<lambda>i. if i \<in> hand m ` {..<k} then (frames m ! i)\<lparr>reference_bit := 0\<rparr>
                        else frames m ! i) [0..<length (frames m)]\<rparr>"

definition clock_ready :: "machine \<Rightarrow> bool" where
  "clock_ready m \<longleftrightarrow> fl_size m = length (frames m) \<and> second_chance_index m < fl_size m"

lemma hand_wrap:
  "clock_ready m \<Longrightarrow> k < length (frames m) \<Longrightarrow> hand m k =
     (if second_chance_index m + k < length (frames m) then second_chance_index m + k
      else second_chance_index m + k - length (frames m))"
  by (auto simp: hand_def clock_ready_def le_mod_geq)

lemma hand_inj: "clock_ready m \<Longrightarrow> inj_on (hand m) {..<length (frames m)}"
  by (rule inj_onI) (auto simp: hand_wrap clock_ready_def split: if_splits)

lemma hand_less [simp]: "clock_ready m \<Longrightarrow> hand m k < length (frames m)"
  unfolding hand_def clock_ready_def by (intro mod_less_divisor) linarith

lemma hand_all:
  assumes "clock_ready m"
  shows "hand m ` {..<length (frames m)} = {..<length (frames m)}"
proof (rule card_subset_eq)
  show "hand m ` {..<length (frames m)} \<subseteq> {..<length (frames m)}" using assms by auto
  show "card (hand m ` {..<length (frames m)}) = card {..<length (frames m)}"
    using card_image [OF hand_inj [OF assms]] by simp
qed simp

lemma passed_0 [simp]: "clock_ready m \<Longrightarrow> passed m 0 = m"
  by (simp add: passed_def hand_def clock_ready_def map_nth)

lemma swap_search_pass:
  assumes c: "clock_ready m" and k: "k < length (frames m)"
    and bit: "reference_bit (frames m ! hand m k) \<noteq> 0"
  shows "swap_search (passed m k) = swap_search (passed m (Suc k))"
proof -
  have nin: "hand m k \<notin> hand m ` {..<k}"
    using hand_inj [OF c] k by (fastforce dest: inj_onD)
  have n: "hand m k < length (frames m)" using c by simp
  have "(hand m k + 1) mod length (frames m) = hand m (Suc k)"
    by (simp add: hand_def mod_Suc_eq)
  moreover have "(frames (passed m k))[hand m k := (frames (passed m k) ! hand m k)\<lparr>reference_bit := 0\<rparr>]
      = frames (passed m (Suc k))"
    using nin n by (intro nth_equalityI) (auto simp: passed_def nth_list_update lessThan_Suc)
  moreover have "second_chance_index (passed m k) = hand m k"
    "length (frames (passed m k)) = length (frames m)" "fl_size (passed m k) = length (frames m)"
    "reference_bit (frames (passed m k) ! hand m k) \<noteq> 0"
    using c n nin bit by (simp_all add: passed_def clock_ready_def)
  moreover have "(passed m k)\<lparr>second_chance_index := hand m (Suc k), frames := frames (passed m (Suc k))\<rparr>
      = passed m (Suc k)"
    by (simp add: passed_def)
  moreover have "frames m \<noteq> []" using n by auto
  ultimately show ?thesis using n
    by (subst swap_search.simps) (simp add: Let_def)
qed

lemma swap_search_passes:
  assumes c: "clock_ready m"
  shows "k \<le> length (frames m) \<Longrightarrow> \<forall>j < k. reference_bit (frames m ! hand m j) \<noteq> 0 \<Longrightarrow>
    swap_search m = swap_search (passed m k)"
proof (induction k)
  case 0
  with c show ?case by simp
next
  case (Suc k)
  with swap_search_pass [OF c, of k] show ?case by simp
qed

lemma swap_search_stop:
  assumes c: "clock_ready m" and k: "k < length (frames m)"
    and bit: "reference_bit (frames m ! hand m k) = 0"
  shows "swap_search (passed m k) =
    Some (Inr (int (hand m k), (passed m k)\<lparr>second_chance_index := hand m (Suc k)\<rparr>))"
proof -
  have n: "hand m k < length (frames m)" and ne: "frames m \<noteq> []"
    using c by (auto simp: clock_ready_def)
  have "second_chance_index (passed m k) = hand m k"
    "length (frames (passed m k)) = length (frames m)" "fl_size (passed m k) = length (frames m)"
    "reference_bit (frames (passed m k) ! hand m k) = 0"
    using c n bit by (simp_all add: passed_def clock_ready_def)
  moreover have "Suc (hand m k) mod length (frames m) = hand m (Suc k)"
    by (simp add: hand_def mod_Suc_eq)
  ultimately show ?thesis using n ne by (subst swap_search.simps) (simp add: Let_def)
qed

text \<open>When every bit is set, the hand comes round to where it started.\<close>

lemma swap_search_round:
  assumes c: "clock_ready m"
  shows "swap_search (passed m (length (frames m))) =
    Some (Inr (int (second_chance_index m),
      (passed m (length (frames m)))\<lparr>second_chance_index := hand m 1\<rparr>))"
proof -
  let ?n = "length (frames m)"
  have h: "hand m ?n = second_chance_index m" using c by (simp add: hand_def clock_ready_def)
  have i: "second_chance_index m < ?n" using c by (simp add: clock_ready_def)
  then have "second_chance_index m \<in> hand m ` {..<?n}" using hand_all [OF c] by simp
  with h i c have "second_chance_index (passed m ?n) = second_chance_index m"
    "length (frames (passed m ?n)) = ?n" "fl_size (passed m ?n) = ?n"
    "reference_bit (frames (passed m ?n) ! second_chance_index m) = 0"
    by (simp_all add: passed_def clock_ready_def)
  moreover have "Suc (second_chance_index m) mod ?n = hand m 1" by (simp add: hand_def)
  ultimately show ?thesis using i by (subst swap_search.simps) (auto simp: Let_def)
qed

text \<open>The frame the search settles on: the first one from the hand on with a clear bit.\<close>

definition clock_steps :: "machine \<Rightarrow> nat" where
  "clock_steps m = (case find_index (\<lambda>j. reference_bit (frames m ! hand m j) = 0)
     [0..<length (frames m)] of Some k \<Rightarrow> k | None \<Rightarrow> length (frames m))"

lemma clock_steps_cases:
  "clock_steps m \<le> length (frames m) \<and>
   (\<forall>j < clock_steps m. reference_bit (frames m ! hand m j) \<noteq> 0) \<and>
   (clock_steps m < length (frames m) \<longrightarrow> reference_bit (frames m ! hand m (clock_steps m)) = 0)"
proof (cases "find_index (\<lambda>j. reference_bit (frames m ! hand m j) = 0) [0..<length (frames m)]")
  case None
  then have "\<forall>j < length (frames m). reference_bit (frames m ! hand m j) \<noteq> 0"
    by (simp only: find_index_None) auto
  moreover have "clock_steps m = length (frames m)" using None by (simp only: clock_steps_def) simp
  ultimately show ?thesis by simp
next
  case (Some k)
  then have "clock_steps m = k" by (simp only: clock_steps_def option.case)
  with Some show ?thesis by (auto simp: find_index_Some)
qed

lemma find_frame_to_swap_eq:
  assumes c: "clock_ready m"
  shows "find_frame_to_swap m = Inr (int (hand m (clock_steps m)),
    (passed m (clock_steps m))\<lparr>second_chance_index := hand m (Suc (clock_steps m))\<rparr>)"
proof (cases "find_index (\<lambda>j. reference_bit (frames m ! hand m j) = 0) [0..<length (frames m)]")
  case None
  then have "\<forall>j < length (frames m). reference_bit (frames m ! hand m j) \<noteq> 0"
    by (simp only: find_index_None) auto
  note this = swap_search_passes [OF c le_refl this] swap_search_round [OF c]
  moreover have "clock_steps m = length (frames m)" using None by (simp only: clock_steps_def) simp
  moreover have "hand m (length (frames m)) = second_chance_index m"
    "hand m (Suc (length (frames m))) = hand m 1"
    using c by (simp_all add: hand_def clock_ready_def mod_Suc)
  ultimately show ?thesis by (simp add: find_frame_to_swap_def)
next
  case (Some k)
  then have k: "k < length (frames m)" "reference_bit (frames m ! hand m k) = 0"
    "\<forall>j < k. reference_bit (frames m ! hand m j) \<noteq> 0"
    by (auto simp: find_index_Some)
  from swap_search_passes [OF c less_imp_le [OF k(1)] k(3)] swap_search_stop [OF c k(1,2)] Some
  show ?thesis by (simp add: find_frame_to_swap_def clock_steps_def)
qed

text \<open>Whose page a frame holds is not changed by the search.\<close>

lemma passed_frame:
  "g < length (frames m) \<Longrightarrow> fr_pid (frames (passed m k) ! g) = fr_pid (frames m ! g)"
  "g < length (frames m) \<Longrightarrow> fr_page (frames (passed m k) ! g) = fr_page (frames m ! g)"
  "length (frames (passed m k)) = length (frames m)"
  by (simp_all add: passed_def)

lemma passed_updates:
  "\<exists>fs. (passed m k)\<lparr>second_chance_index := i\<rparr> = m\<lparr>second_chance_index := i, frames := fs\<rparr> \<and>
    length fs = length (frames m) \<and>
    (\<forall>g < length fs. fr_pid (fs ! g) = fr_pid (frames m ! g) \<and> fr_page (fs ! g) = fr_page (frames m ! g))"
  by (intro exI [of _ "frames (passed m k)"]) (simp add: passed_def)

lemma find_frame_to_swap_ok:
  assumes c: "clock_ready m"
  shows "\<exists>v i fs. find_frame_to_swap m = Inr (int v, m\<lparr>second_chance_index := i, frames := fs\<rparr>) \<and>
    v < length (frames m) \<and> i < length (frames m) \<and> length fs = length (frames m) \<and>
    (\<forall>g < length fs. fr_pid (fs ! g) = fr_pid (frames m ! g) \<and> fr_page (fs ! g) = fr_page (frames m ! g))"
  using find_frame_to_swap_eq [OF c] hand_less [OF c]
    passed_updates [where m = m and k = "clock_steps m" and i = "hand m (Suc (clock_steps m))"] by metis

end
