(* ===== verification/Pager_Correct.thy ===== *)
theory Pager_Correct
  imports Clock
begin

text \<open>
  The operations of the pager on a machine that satisfies the invariant: each returns, keeps
  the invariant, and leaves the bytes of every page of every process as they were.
\<close>

section \<open>Searching\<close>

lemma find_page_table_ok:
  assumes "tables_ok m" and "owns m pid p"
  obtains ti where "find_page_table pid m = Inr ti" and "ti < length (page_list m)"
    and "pt_pid (page_list m ! ti) = pid" and "pt_pages (page_list m ! ti) = Some (fst p)"
    and "snd p < page_count (page_list m ! ti)"
proof -
  from assms(2) obtain t where t: "t \<in> set (page_list m)" "pt_pid t = pid"
    "pt_pages t = Some (fst p)" "snd p < page_count t" by (auto simp: owns_def)
  then have "find_index (\<lambda>t. pt_pid t = pid) (page_list m) \<noteq> None"
    by (simp only: find_index_None) blast
  then obtain ti where ti: "find_index (\<lambda>t. pt_pid t = pid) (page_list m) = Some ti" by blast
  then have i: "ti < length (page_list m)" "pt_pid (page_list m ! ti) = pid"
    by (simp_all add: find_index_Some)
  then have "page_list m ! ti = t"
    using distinct_tables [of "page_list m" "page_list m ! ti" t] t assms(1)
    by (simp add: tables_ok_def)
  with that ti i t show thesis by (simp add: find_page_table_def)
qed

lemma table_pages_ok:
  assumes "tables_ok m" and "t \<in> set (page_list m)" and "pt_pages t = Some a" and "0 < page_count t"
  obtains ps where "table_pages t m = Inr ps" and "length ps = page_count t"
    and "\<forall>i < page_count t. page_at m (a, i) = Some (ps ! i)"
proof -
  from assms obtain ar where "page_arrays m a = Some ar" "page_count t \<le> length ar"
    unfolding tables_ok_def by fastforce
  with assms that [of "take (page_count t) ar"] show thesis
    by (simp add: table_pages_def page_at_def)
qed

text \<open>The pages of a process lie side by side, so the search finds the one an address is in.\<close>

lemma page_range:
  fixes va :: int
  assumes "0 < ps" and "va = UVM_BASEADDR + int i * int ps + r" and "0 \<le> r" and "r < int ps"
  shows "(UVM_BASEADDR + int j * int ps \<le> va \<and> va < UVM_BASEADDR + int j * int ps + int ps) \<longleftrightarrow> j = i"
proof
  assume h: "UVM_BASEADDR + int j * int ps \<le> va \<and> va < UVM_BASEADDR + int j * int ps + int ps"
  show "j = i"
  proof (rule ccontr)
    assume "j \<noteq> i"
    from pages_disjoint [OF this, of ps] have
      "int (j * ps + ps) \<le> int (i * ps) \<or> int (i * ps + ps) \<le> int (j * ps)"
      by (simp only: of_nat_le_iff)
    with h assms show False by auto
  qed
qed (use assms in auto)

lemma get_page_ok:
  assumes inv: "pager_inv F m" and ti: "ti < length (page_list m)"
    and pid: "pt_pid (page_list m ! ti) = pid" and a: "pt_pages (page_list m ! ti) = Some a"
    and i: "i < page_count (page_list m ! ti)"
    and va: "va = UVM_BASEADDR + int i * int (page_size m) + r" "0 \<le> r" "r < int (page_size m)"
  shows "get_page ti va m = Inr (Some (a, i))"
proof -
  let ?t = "page_list m ! ti"
  have t: "?t \<in> set (page_list m)" using ti by simp
  have "0 < page_count ?t" using i by simp
  then obtain ps where ps: "table_pages ?t m = Inr ps" "length ps = page_count ?t"
    "\<forall>j < page_count ?t. page_at m (a, j) = Some (ps ! j)"
    by (rule table_pages_ok [OF pager_invD(2) [OF inv] t a])
  have "addr (ps ! j) = UVM_BASEADDR + int j * int (page_size m)" if "j < page_count ?t" for j
  proof -
    have "owns m pid (a, j)" using t pid a that by (auto simp: owns_def)
    from pages_okD(1) [OF inv this] ps(3) that show ?thesis by simp
  qed
  moreover have "0 < page_size m" using pager_invD(1) [OF inv] by (simp add: geometry_def)
  ultimately have "find_index (\<lambda>p. va \<ge> addr p \<and> va < addr p + int (page_size m)) ps = Some i"
    using page_range [OF _ va(1,2,3)] i ps(2) by (auto simp: find_index_Some)
  with ps(1) a show ?thesis by (simp add: get_page_def Let_def)
qed

lemma page_base:
  fixes va :: int
  assumes "0 < ps" and "UVM_BASEADDR mod int ps = 0"
    and "va = UVM_BASEADDR + int i * int ps + r" and "0 \<le> r" and "r < int ps"
  shows "va - c_rem va (int ps) = UVM_BASEADDR + int i * int ps"
proof -
  have "0 < UVM_BASEADDR" by (simp add: UVM_BASEADDR_def)
  moreover have "0 \<le> int i * int ps" by simp
  ultimately have "0 < va" using assms by linarith
  then have "c_rem va (int ps) = va mod int ps" by (simp add: c_rem_def)
  moreover have "(UVM_BASEADDR + int i * int ps) mod int ps = 0"
    using assms(2) by (simp add: mod_add_eq [symmetric])
  then have "va mod int ps = r" using assms by (metis add_0 mod_add_left_eq mod_pos_pos_trivial)
  ultimately show ?thesis using assms by simp
qed

section \<open>Evicting a page\<close>

lemma calmed_at:
  "calmed mp mp' \<Longrightarrow> mp pid va = Some (off, prot) \<Longrightarrow> \<exists>prot'. mp' pid va = Some (off, prot')"
  unfolding calmed_def by (drule spec [of _ pid], drule spec [of _ va]) auto

definition served_all :: "(nat \<Rightarrow> bool) \<Rightarrow> machine \<Rightarrow> bool" where
  "served_all net m \<longleftrightarrow> (\<forall>pid p. owns m pid p \<longrightarrow> served net m pid)"

lemma protect_frames_ok:
  assumes "\<forall>f \<in> set fs. f < length (frames m) \<and> (\<exists>p x. fr_page (frames m ! f) = Some p \<and>
      page_at m p = Some x \<and> user_address (addr x) \<and> served net m (fr_pid (frames m ! f)) \<and>
      mappings m (fr_pid (frames m ! f)) (addr x) \<noteq> None)"
  shows "\<exists>t mp. protect_frames net fs m = Inr (m\<lparr>trace := t, mappings := mp\<rparr>) \<and>
    calmed (mappings m) mp"
  using assms
proof (induction fs arbitrary: m)
  case Nil
  show ?case by (intro exI [of _ "trace m"] exI [of _ "mappings m"]) simp
next
  case (Cons f fs)
  then obtain p x off pr where f: "f < length (frames m)" "fr_page (frames m ! f) = Some p"
    "page_at m p = Some x" "served net m (fr_pid (frames m ! f))"
    "mappings m (fr_pid (frames m ! f)) (addr x) = Some (off, pr)" "user_address (addr x)" by auto
  let ?mp = "set_mapping (fr_pid (frames m ! f)) (addr x) (off, PROT_NONE) (mappings m)"
  obtain t where t: "mmu_chprot net (fr_pid (frames m ! f)) (addr x) PROT_NONE m =
      Inr (m\<lparr>mappings := ?mp, trace := t\<rparr>)" using mmu_chprot_ok [OF f(4,5,6), of PROT_NONE] by auto
  let ?m = "m\<lparr>mappings := ?mp, trace := t\<rparr>"
  have c: "calmed (mappings m) ?mp" using f(5) by (rule calmed_set)
  have s: "served net ?m = served net m" by (rule served_cong) simp_all
  have "\<forall>g \<in> set fs. g < length (frames ?m) \<and> (\<exists>p x. fr_page (frames ?m ! g) = Some p \<and>
      page_at ?m p = Some x \<and> user_address (addr x) \<and> served net ?m (fr_pid (frames ?m ! g)) \<and>
      mappings ?m (fr_pid (frames ?m ! g)) (addr x) \<noteq> None)"
    using Cons.prems unfolding s by (auto simp: calmed_None [OF c])
  from Cons.IH [OF this] obtain t' mp where
    rest: "protect_frames net fs ?m = Inr (?m\<lparr>trace := t', mappings := mp\<rparr>)" "calmed (mappings ?m) mp" by blast
  then have c2: "calmed ?mp mp" by simp
  have "protect_frames net (f # fs) m = Inr (m\<lparr>trace := t', mappings := mp\<rparr>)"
    using f(1,2,3) t rest(1) by simp
  with calmed_trans [OF c c2] show ?case by blast
qed

lemma frame_holder:
  assumes inv: "pager_inv {} m" and f: "f < length (frames m)"
    and used: "fr_pid (frames m ! f) \<noteq> INVALID_PID"
  obtains p x where "fr_page (frames m ! f) = Some p" and "owns m (fr_pid (frames m ! f)) p"
    and "page_at m p = Some x" and "isvalid x = 1" and "frame_number x = int f"
    and "\<exists>prot. mappings m (fr_pid (frames m ! f)) (addr x) = Some (f * page_size m, prot)"
proof -
  obtain p x where p: "fr_page (frames m ! f) = Some p" "owns m (fr_pid (frames m ! f)) p"
    "page_at m p = Some x" "isvalid x = 1" "frame_number x = int f"
    using frames_okE [OF inv f _ used] by auto
  from maps_okD [OF inv p(2,3)] p(4,5) have
    "\<exists>prot. mappings m (fr_pid (frames m ! f)) (addr x) = Some (f * page_size m, prot)"
    by (auto simp: map_ok_def)
  with p show thesis by (rule that)
qed

lemma swap_ok:
  assumes inv: "pager_inv {} m" and sv: "served_all net m" and f: "f < length (frames m)"
    and used: "\<forall>g < length (frames m). fr_pid (frames m ! g) \<noteq> INVALID_PID"
  obtains m' p x where "swap net (int f) m = Inr m'" and "evicted m m' f (fr_pid (frames m ! f)) p x"
    and "owns m (fr_pid (frames m ! f)) p" and "page_at m p = Some x" and "isvalid x = 1"
    and "frame_number x = int f"
proof -
  let ?pid = "fr_pid (frames m ! f)"
  have u: "?pid \<noteq> INVALID_PID" using used f by blast
  obtain p x where p: "fr_page (frames m ! f) = Some p" "owns m ?pid p" "page_at m p = Some x"
    "isvalid x = 1" "frame_number x = int f"
    "\<exists>prot. mappings m ?pid (addr x) = Some (f * page_size m, prot)"
    by (rule frame_holder [OF inv f u])
  then obtain prot where mp: "mappings m ?pid (addr x) = Some (f * page_size m, prot)" by blast
  have fl: "fl_size m = length (frames m)" using pager_invD(1) [OF inv] by (simp add: geometry_def)
  obtain t1 mp1 where s1: "(if int f = 0 then protect_frames net [0..<fl_size m] m else Inr m) =
      Inr (m\<lparr>trace := t1, mappings := mp1\<rparr>)" and c1: "calmed (mappings m) mp1"
  proof (cases "f = 0")
    case True
    have "\<forall>g \<in> set [0..<fl_size m]. g < length (frames m) \<and> (\<exists>p x. fr_page (frames m ! g) = Some p \<and>
      page_at m p = Some x \<and> user_address (addr x) \<and> served net m (fr_pid (frames m ! g)) \<and>
      mappings m (fr_pid (frames m ! g)) (addr x) \<noteq> None)"
    proof
      fix g assume "g \<in> set [0..<fl_size m]"
      then have g: "g < length (frames m)" using fl by simp
      with used have u: "fr_pid (frames m ! g) \<noteq> INVALID_PID" by blast
      show "g < length (frames m) \<and> (\<exists>p x. fr_page (frames m ! g) = Some p \<and>
        page_at m p = Some x \<and> user_address (addr x) \<and> served net m (fr_pid (frames m ! g)) \<and>
        mappings m (fr_pid (frames m ! g)) (addr x) \<noteq> None)"
        by (rule frame_holder [OF inv g u]) (use g sv owned_address [OF inv] in \<open>auto simp: served_all_def\<close>)
    qed
    from protect_frames_ok [OF this] True that show thesis by auto
  next
    case False
    with that [of "mappings m" "trace m"] show thesis by simp
  qed
  let ?m1 = "m\<lparr>trace := t1, mappings := mp1\<rparr>"
  have "page_at ?m1 p = Some x" using p(3) by simp
  from store_page_ok [OF this, of "\<lambda>p. p\<lparr>isvalid := 0\<rparr>"] obtain ar where
    s2: "store_page (Some p) (\<lambda>p. p\<lparr>isvalid := 0\<rparr>) ?m1 = Inr (?m1\<lparr>page_arrays := ar\<rparr>)"
    and pt2: "page_at (?m1\<lparr>page_arrays := ar\<rparr>) = (page_at m)(p \<mapsto> x\<lparr>isvalid := 0\<rparr>)"
    and len: "\<forall>a. map_option length (ar a) = map_option length (page_arrays m a)"
    by auto
  let ?m2 = "?m1\<lparr>page_arrays := ar\<rparr>"
  obtain pr2 where m2: "mp1 ?pid (addr x) = Some (f * page_size m, pr2)"
    using calmed_at [OF c1 mp] by blast
  have "served net m ?pid" using sv p(2) unfolding served_all_def by blast
  then have sv2: "served net ?m2 ?pid" using served_cong [of ?m2 m net] by simp
  have "mappings ?m2 ?pid (addr x) = Some (f * page_size m, pr2)" using m2 by simp
  from mmu_nonresident_ok [OF sv2 this owned_address [OF inv p(2,3)]] obtain t3 where
    nr: "mmu_nonresident net ?pid (addr x) ?m2 = Inr (?m2\<lparr>mappings :=
      set_mapping ?pid (addr x) (f * page_size m, PROT_NONE) (mappings ?m2), trace := t3\<rparr>)"
    by blast
  let ?mp3 = "set_mapping ?pid (addr x) (f * page_size m, PROT_NONE) mp1"
  let ?m3 = "m\<lparr>page_arrays := ar, trace := t3, mappings := ?mp3\<rparr>"
  from nr have s3: "mmu_nonresident net ?pid (addr x) ?m2 = Inr ?m3" by simp
  have c3: "calmed (mappings m) ?mp3" using m2 by (rule calmed_trans [OF c1 calmed_set])
  have s4: "swap net (int f) m =
      (if is_allocated x = 1 then
         rbind (store_block (block_number x) (\<lambda>b. b\<lparr>bl_allocated := 1\<rparr>) ?m3) (\<lambda>m4.
         mmu_disk_write (int f) (block_number x) m4)
       else Inr ?m3)"
    using s1 s2 s3 p(1) f pt2 by (simp add: swap_def)
  have pt3: "page_at (m\<lparr>page_arrays := ar\<rparr>) = (page_at m)(p \<mapsto> x\<lparr>isvalid := 0\<rparr>)"
    using pt2 by (simp add: page_at_def fun_eq_iff)
  have off: "\<exists>off. ?mp3 ?pid (addr x) = Some (off, PROT_NONE)" by (simp add: set_mapping_def)
  note b = pages_okD(2,3) [OF inv p(2,3)]
  show thesis
  proof (cases "is_allocated x = 1")
    case False
    with s4 c3 len pt3 off have "evicted m ?m3 f ?pid p x" by (simp add: evicted_def)
    with False s4 p show thesis by (intro that [of ?m3 p x]) simp_all
  next
    case True
    let ?bs = "(blocks m)[nat (block_number x) :=
      (blocks m ! nat (block_number x))\<lparr>bl_allocated := 1\<rparr>]"
    let ?m4 = "?m3\<lparr>blocks := ?bs\<rparr>"
    have hf: "has_frame ?m4 (int f)" and hb: "has_block ?m4 (block_number x)"
      using geometry_frame [OF pager_invD(1) [OF inv], of "int f"] f
        geometry_block [OF pager_invD(1) [OF inv] b]
      by (simp_all add: has_frame_def has_block_def)
    have fb: "frame_bytes ?m4 (int f) = frame_bytes m (int f)" by (simp add: frame_bytes_def)
    let ?dk = "overwrite (disk m) (nat (block_number x) * page_size m) (frame_bytes m (int f))"
    let ?t5 = "trace ?m4 @ [Disk_Write (int f) (block_number x)]"
    have "store_block (block_number x) (\<lambda>b. b\<lparr>bl_allocated := 1\<rparr>) ?m3 = Inr ?m4"
      using b by (simp add: store_block_def)
    moreover have "mmu_disk_write (int f) (block_number x) ?m4 = Inr (?m4\<lparr>disk := ?dk, trace := ?t5\<rparr>)"
      using mmu_disk_write_ok [OF hf hb] fb by simp
    ultimately have s5: "swap net (int f) m = Inr (?m4\<lparr>disk := ?dk, trace := ?t5\<rparr>)"
      unfolding s4 using True by (simp only: if_True rbind.simps simp_thms)
    note bo = block_overwrite [OF hb length_frame_bytes [OF hf], unfolded fb]
    have len_dk: "length ?dk = length (disk m)"
      using has_block_overwrite [OF hb length_frame_bytes [OF hf]] fb by simp
    have "block_bytes (?m4\<lparr>disk := ?dk, trace := ?t5\<rparr>) (block_number x) = frame_bytes m (int f)"
      using bo(1) by (simp add: block_bytes_def)
    moreover have "\<forall>c. has_block m c \<and> c \<noteq> block_number x \<longrightarrow>
        block_bytes (?m4\<lparr>disk := ?dk, trace := ?t5\<rparr>) c = block_bytes m c"
      using bo(2) by (simp add: has_block_def block_bytes_def)
    ultimately have "evicted m (?m4\<lparr>disk := ?dk, trace := ?t5\<rparr>) f ?pid p x"
      using True c3 len pt3 off len_dk by (simp add: evicted_def)
    with s5 p show thesis by (intro that) simp_all
  qed
qed

section \<open>Getting a frame\<close>

text \<open>Moving the clock hand and clearing reference bits changes nothing else.\<close>

lemma clock_inv:
  assumes inv: "pager_inv {} m" and i: "i < length (frames m)" and len: "length fs = length (frames m)"
    and fs: "\<forall>g < length fs. fr_pid (fs ! g) = fr_pid (frames m ! g) \<and> fr_page (fs ! g) = fr_page (frames m ! g)"
  shows "pager_inv {} (m\<lparr>second_chance_index := i, frames := fs\<rparr>)"
proof -
  let ?m = "m\<lparr>second_chance_index := i, frames := fs\<rparr>"
  have ow: "owns ?m = owns m" by (rule owns_cong) simp
  have st: "stored ?m = stored m" by (simp add: stored_def block_bytes_def zero_page_def fun_eq_iff)
  have "geometry ?m" using pager_invD(1) [OF inv] i len by (auto simp: geometry_def)
  moreover have "tables_ok ?m" using pager_invD(2) [OF inv] by (simp add: tables_ok_def)
  moreover have "in_frame {} ?m pid p x = in_frame {} m pid p x" for pid p x
    using fs len by (auto simp: in_frame_def)
  then have "pages_ok {} ?m" using pager_invD(3) [OF inv] by (simp add: pages_ok_def ow)
  moreover have "frames_ok {} ?m"
    using pager_invD(4) [OF inv] fs len by (simp add: frames_ok_def ow)
  moreover have "blocks_apart ?m" using pager_invD(5) [OF inv] by (simp add: blocks_apart_def ow)
  moreover have "maps_ok ?m" using pager_invD(6) [OF inv] by (simp add: maps_ok_def ow map_ok_cong [of ?m m])
  moreover have "clean_ok ?m" using pager_invD(7) [OF inv] by (simp add: clean_ok_def ow st)
  ultimately show ?thesis by (simp add: pager_inv_def)
qed

lemma clock_content:
  "content (m\<lparr>second_chance_index := i, frames := fs\<rparr>) = content m"
  by (simp add: content_def page_bytes_def stored_def block_bytes_def zero_page_def fun_eq_iff
      split: option.splits)

lemma free_frame_inv:
  assumes inv: "pager_inv {} m" and f: "fr_pid (frames m ! f) = INVALID_PID"
  shows "pager_inv {f} m"
proof -
  have "in_frame {f} m pid p x" if "in_frame {} m pid p x" "owns m pid p" for pid p x
  proof -
    have "pid \<noteq> INVALID_PID"
      using that(2) pager_invD(2) [OF inv] by (auto simp: owns_def tables_ok_def)
    with that(1) f show ?thesis by (auto simp: in_frame_def)
  qed
  then have "pages_ok {f} m" using pager_invD(3) [OF inv] unfolding pages_ok_def by metis
  moreover have "frames_ok {f} m" using pager_invD(4) [OF inv] by (simp add: frames_ok_def)
  ultimately show ?thesis using inv by (simp add: pager_inv_def)
qed

text \<open>
  \<open>frame_ready m m1 v\<close>: frame \<open>v\<close> is at the disposal of the fault in \<open>m1\<close>, and nothing else of
  \<open>m\<close> that matters has changed.
\<close>

definition frame_ready :: "machine \<Rightarrow> machine \<Rightarrow> nat \<Rightarrow> bool" where
  "frame_ready m m1 v \<longleftrightarrow> v < length (frames m1) \<and> pager_inv {v} m1 \<and>
     page_list m1 = page_list m \<and> id2pid m1 = id2pid m \<and> sock2client m1 = sock2client m \<and>
     page_size m1 = page_size m \<and> mutex m1 = mutex m \<and> steady m m1 \<and>
     (\<forall>pid q. owns m pid q \<longrightarrow> content m1 q = content m q) \<and>
     (\<forall>p x. page_at m p = Some x \<and> isvalid x \<noteq> 1 \<longrightarrow> page_at m1 p = Some x)"

lemma frame_readyD:
  assumes "frame_ready m m1 v"
  shows "v < length (frames m1)" "pager_inv {v} m1" "page_list m1 = page_list m"
    "id2pid m1 = id2pid m" "sock2client m1 = sock2client m" "page_size m1 = page_size m"
    "mutex m1 = mutex m" "owns m pid q \<Longrightarrow> content m1 q = content m q"
    "page_at m p = Some x \<Longrightarrow> isvalid x \<noteq> 1 \<Longrightarrow> page_at m1 p = Some x" "steady m m1"
  using assms unfolding frame_ready_def by blast+

lemma served_allD: "served_all net m \<Longrightarrow> owns m pid p \<Longrightarrow> served net m pid"
  unfolding served_all_def by blast

lemma find_free_frame_cases:
  assumes "fl_size m = length (frames m)"
  obtains (free) f where "find_free_frame m = int f" and "f < length (frames m)"
      and "fr_pid (frames m ! f) = INVALID_PID" and "\<forall>g < f. fr_pid (frames m ! g) \<noteq> INVALID_PID"
  | (full) "find_free_frame m = INVALID_PID"
      and "\<forall>g < length (frames m). fr_pid (frames m ! g) \<noteq> INVALID_PID"
proof (cases "find_index (\<lambda>fr. fr_pid fr = INVALID_PID) (frames m)")
  case None
  then have "\<forall>fr \<in> set (frames m). fr_pid fr \<noteq> INVALID_PID" by (simp only: find_index_None)
  then have "\<forall>g < length (frames m). fr_pid (frames m ! g) \<noteq> INVALID_PID" by simp
  moreover have "find_free_frame m = INVALID_PID"
    using None assms by (simp only: find_free_frame_def take_all order_refl option.case)
  ultimately show thesis by (intro full)
next
  case (Some f)
  then have "find_free_frame m = int f"
    using assms by (simp only: find_free_frame_def take_all order_refl option.case)
  with Some show thesis by (intro free [of f]) (simp_all add: find_index_Some)
qed

lemma obtain_frame_ok:
  assumes inv: "pager_inv {} m" and sv: "served_all net m"
  shows "\<exists>v m1. obtain_frame net m = Inr (int v, m1) \<and> frame_ready m m1 v"
proof -
  have fl: "fl_size m = length (frames m)" using pager_invD(1) [OF inv] by (simp add: geometry_def)
  show ?thesis
  proof (rule find_free_frame_cases [OF fl])
    fix f assume f: "find_free_frame m = int f" "f < length (frames m)"
      "fr_pid (frames m ! f) = INVALID_PID"
    have "obtain_frame net m = Inr (int f, m)" using f(1) by (simp add: obtain_frame_def INVALID_PID_def)
    moreover have "frame_ready m m f" using f free_frame_inv [OF inv f(3)] by (simp add: frame_ready_def)
    ultimately show ?thesis by blast
  next
    assume full: "find_free_frame m = INVALID_PID"
      "\<forall>g < length (frames m). fr_pid (frames m ! g) \<noteq> INVALID_PID"
    have "clock_ready m" using pager_invD(1) [OF inv] by (simp add: geometry_def clock_ready_def)
    from find_frame_to_swap_ok [OF this] obtain v i fs where
      v: "find_frame_to_swap m = Inr (int v, m\<lparr>second_chance_index := i, frames := fs\<rparr>)"
      "v < length (frames m)" "i < length (frames m)" "length fs = length (frames m)"
      "\<forall>g < length fs. fr_pid (fs ! g) = fr_pid (frames m ! g) \<and> fr_page (fs ! g) = fr_page (frames m ! g)"
      by blast
    let ?m0 = "m\<lparr>second_chance_index := i, frames := fs\<rparr>"
    have inv0: "pager_inv {} ?m0" by (rule clock_inv [OF inv v(3,4,5)])
    have ow0: "owns ?m0 = owns m" by (rule owns_cong) simp
    have "served net ?m0 = served net m" by (rule served_cong) simp_all
    then have sv0: "served_all net ?m0" using sv ow0 by (simp add: served_all_def)
    have v0: "v < length (frames ?m0)"
      and used0: "\<forall>g < length (frames ?m0). fr_pid (frames ?m0 ! g) \<noteq> INVALID_PID"
      using v full by simp_all
    obtain m1 p x where sw: "swap net (int v) ?m0 = Inr m1"
      and ev: "evicted ?m0 m1 v (fr_pid (frames ?m0 ! v)) p x"
      and p: "owns ?m0 (fr_pid (frames ?m0 ! v)) p" "page_at ?m0 p = Some x" "isvalid x = 1"
        "frame_number x = int v"
      by (rule swap_ok [OF inv0 sv0 v0 used0])
    have "pager_inv {v} m1" by (rule evict_inv [OF inv0 ev p])
    moreover have "content m1 q = content m q" if "owns m pid q" for pid q
      using evict_content [OF inv0 ev p] that ow0 clock_content by metis
    moreover have "page_at m1 q = Some y" if "page_at m q = Some y" "isvalid y \<noteq> 1" for q y
      using that evictedD(4) [OF ev] p by (cases "q = p") auto
    moreover have "steady m m1"
      by (rule steady_trans [OF _ evicted_steady [OF ev p(2)]]) (simp add: steady_def v(4))
    ultimately have "frame_ready m m1 v"
      using v ev by (auto simp: frame_ready_def evicted_def)
    moreover have "obtain_frame net m = Inr (int v, m1)"
      using full(1) v(1) sw by (simp add: obtain_frame_def)
    ultimately show ?thesis by blast
  qed
qed

section \<open>Page faults\<close>

lemma load_frame_ok:
  assumes "geometry m" and f: "f < length (frames m)" and p: "page_at m p = Some x"
    and b: "0 \<le> block_number x" "block_number x < int (length (blocks m))"
  shows "\<exists>pm t. load_frame (Some p) (int f) m = Inr (m\<lparr>pmem := pm, trace := t\<rparr>) \<and>
    length pm = length (pmem m) \<and>
    frame_bytes (m\<lparr>pmem := pm\<rparr>) (int f) = stored m (block_number x) \<and>
    (\<forall>g. has_frame m g \<and> g \<noteq> int f \<longrightarrow> frame_bytes (m\<lparr>pmem := pm\<rparr>) g = frame_bytes m g)"
proof -
  have hf: "has_frame m (int f)" using geometry_frame [OF assms(1), of "int f"] f by simp
  have hb: "has_block m (block_number x)" by (rule geometry_block [OF assms(1) b])
  let ?saved = "bl_allocated (blocks m ! nat (block_number x)) = 1"
  let ?bs = "if ?saved then block_bytes m (block_number x) else zero_page m"
  have lb: "length ?bs = page_size m" using hb by simp
  let ?pm = "overwrite (pmem m) (nat (int f) * page_size m) ?bs"
  let ?ev = "if ?saved then Disk_Read (block_number x) (int f) else Zero_Fill (int f)"
  have "load_frame (Some p) (int f) m = Inr (m\<lparr>pmem := ?pm, trace := trace m @ [?ev]\<rparr>)"
    using p b mmu_disk_read_ok [OF hf hb] mmu_zero_fill_ok [OF hf] by (simp add: load_frame_def)
  moreover have "length ?pm = length (pmem m)" by (rule has_frame_overwrite [OF hf lb])
  ultimately show ?thesis using frame_overwrite [OF hf lb]
    by (intro exI [of _ ?pm] exI [of _ "trace m @ [?ev]"]) (simp add: stored_def)
qed

lemma frame_entry:
  "(fr::frames_t)\<lparr>fr_pid := a, fr_page := b, reference_bit := c\<rparr> =
   \<lparr>fr_pid = a, reference_bit = c, fr_page = b\<rparr>"
  by (cases fr) simp

lemma handle_invalid_ok:
  assumes inv: "pager_inv {} m" and sv: "served_all net m" and p: "owns m pid p"
    and x: "page_at m p = Some x" "isvalid x \<noteq> 1"
  shows "\<exists>v m1 m'. handle_invalid_page net (Some p) pid (addr x) m = Inr m' \<and>
    obtain_frame net m = Inr (int v, m1) \<and> frame_ready m m1 v \<and> installed m1 m' v pid p x"
proof -
  from obtain_frame_ok [OF inv sv] obtain v m1 where
    o1: "obtain_frame net m = Inr (int v, m1)" and rd: "frame_ready m m1 v" by blast
  note inv1 = frame_readyD(2) [OF rd] and v = frame_readyD(1) [OF rd]
    and pl = frame_readyD(3) [OF rd] and x1 = frame_readyD(9) [OF rd x]
  have ow1: "owns m1 = owns m" by (rule owns_cong [OF pl])
  then have p1: "owns m1 pid p" using p by simp
  note d = pages_okD [OF inv1 p1 x1]
  let ?fs = "(frames m1)[v := \<lparr>fr_pid = pid, reference_bit = 1, fr_page = Some p\<rparr>]"
  let ?m2 = "m1\<lparr>frames := ?fs\<rparr>"
  have s2: "store_frame (int v) (\<lambda>fr. fr\<lparr>fr_pid := pid, fr_page := Some p, reference_bit := 1\<rparr>) m1 =
      Inr ?m2" using v by (simp add: frame_entry)
  have "page_at ?m2 p = Some x" using x1 by simp
  from store_page_ok [OF this, of "\<lambda>p. p\<lparr>isvalid := 1, frame_number := int v, is_allocated := 0\<rparr>"]
  obtain ar where
    s3: "store_page (Some p) (\<lambda>p. p\<lparr>isvalid := 1, frame_number := int v, is_allocated := 0\<rparr>) ?m2 =
      Inr (?m2\<lparr>page_arrays := ar\<rparr>)"
    and pt3: "page_at (?m2\<lparr>page_arrays := ar\<rparr>) = (page_at ?m2)(p \<mapsto> resident_entry v x)"
    and len: "\<forall>a. map_option length (ar a) = map_option length (page_arrays ?m2 a)"
    by (auto simp: resident_entry_def)
  let ?m3 = "?m2\<lparr>page_arrays := ar\<rparr>"
  have g3: "geometry ?m3" using pager_invD(1) [OF inv1] by (auto simp: geometry_def)
  have x3: "page_at ?m3 p = Some (resident_entry v x)" by (simp add: pt3)
  have v3: "v < length (frames ?m3)" using v by simp
  have b3: "0 \<le> block_number (resident_entry v x)"
    "block_number (resident_entry v x) < int (length (blocks ?m3))" using d by simp_all
  from load_frame_ok [OF g3 v3 x3 b3] obtain pm t where
    s4: "load_frame (Some p) (int v) ?m3 = Inr (?m3\<lparr>pmem := pm, trace := t\<rparr>)"
    and lp: "length pm = length (pmem ?m3)"
    and fv: "frame_bytes (?m3\<lparr>pmem := pm\<rparr>) (int v) = stored ?m3 (block_number x)"
    and fo: "\<forall>g. has_frame ?m3 g \<and> g \<noteq> int v \<longrightarrow>
      frame_bytes (?m3\<lparr>pmem := pm\<rparr>) g = frame_bytes ?m3 g" unfolding resident_entry_simps by blast
  let ?m4 = "?m3\<lparr>pmem := pm, trace := t\<rparr>"
  have sv4: "served net ?m4 pid"
    using served_allD [OF sv p] served_cong [of ?m4 m net] frame_readyD(4,5) [OF rd] by simp
  have al: "addr x mod int (page_size ?m4) = 0"
    using d(1) pager_invD(1) [OF inv1] by (simp add: geometry_def mod_add_eq [symmetric])
  obtain t5 where s5: "mmu_resident net pid (addr x) (int v) PROT_READ ?m4 =
      Inr (?m4\<lparr>mappings := set_mapping pid (addr x) (nat (int v) * page_size ?m4, PROT_READ)
        (mappings ?m4), trace := t5\<rparr>)"
    using mmu_resident_ok [OF sv4 owned_address [OF inv1 p1 x1] al, of PROT_READ "int v"]
      geometry_offset [OF g3 v3] by auto
  let ?m5 = "?m4\<lparr>mappings := set_mapping pid (addr x) (v * page_size m1, PROT_READ) (mappings m1),
      trace := t5\<rparr>"
  have "handle_invalid_page net (Some p) pid (addr x) m = Inr ?m5"
    unfolding handle_invalid_page_def o1 rbind.simps prod.case s2 s3 s4 s5 by simp
  moreover have "installed m1 ?m5 v pid p x"
  proof -
    have "stored ?m3 = stored m1" by (simp add: stored_def block_bytes_def zero_page_def fun_eq_iff)
    moreover have "has_frame ?m3 = has_frame m1" by (simp add: has_frame_def fun_eq_iff)
    moreover have "frame_bytes ?m3 = frame_bytes m1" by (simp add: frame_bytes_def fun_eq_iff)
    moreover have "frame_bytes ?m5 = frame_bytes (?m3\<lparr>pmem := pm\<rparr>)"
      by (simp add: frame_bytes_def fun_eq_iff)
    moreover have "page_at ?m5 = page_at ?m3" by (simp add: page_at_def fun_eq_iff)
    moreover have "length (pmem ?m5) = length (pmem m1)" using lp by simp
    moreover have "frames ?m5 = ?fs" "page_arrays ?m5 = ar" "blocks ?m5 = blocks m1" "disk ?m5 = disk m1"
      "page_list ?m5 = page_list m1" "page_size ?m5 = page_size m1" "fl_size ?m5 = fl_size m1"
      "nblocks ?m5 = nblocks m1" "second_chance_index ?m5 = second_chance_index m1"
      "nextid ?m5 = nextid m1" "id2pid ?m5 = id2pid m1" "sock2client ?m5 = sock2client m1" "mutex ?m5 = mutex m1"
      "mappings ?m5 = set_mapping pid (addr x) (v * page_size m1, PROT_READ) (mappings m1)"
      "page_at ?m2 = page_at m1" "page_arrays ?m2 = page_arrays m1" by simp_all
    ultimately show ?thesis using pt3 fv fo len unfolding installed_def by presburger
  qed
  ultimately show ?thesis using o1 rd by blast
qed

lemma handle_valid_ok:
  assumes inv: "pager_inv {} m" and sv: "served net m pid" and p: "owns m pid p"
    and x: "page_at m p = Some x" "isvalid x = 1"
  shows "\<exists>m'. handle_valid_page net (Some p) pid (addr x) m = Inr m' \<and> touched m m' pid p x"
proof -
  from maps_okD [OF inv p x(1)] x(2) obtain prot where
    mp: "mappings m pid (addr x) = Some (nat (frame_number x) * page_size m, prot)"
    by (auto simp: map_ok_def)
  let ?mp = "set_mapping pid (addr x) (nat (frame_number x) * page_size m, PROT_RW) (mappings m)"
  obtain t where s1: "mmu_chprot net pid (addr x) PROT_RW m = Inr (m\<lparr>mappings := ?mp, trace := t\<rparr>)"
    using mmu_chprot_ok [OF sv mp owned_address [OF inv p x(1)], of PROT_RW] by auto
  let ?m1 = "m\<lparr>mappings := ?mp, trace := t\<rparr>"
  have fn: "0 \<le> frame_number x" "frame_number x < int (length (frames m))"
    using pages_okD(5) [OF inv p x] by (simp_all add: in_frame_def)
  let ?fs = "(frames m)[nat (frame_number x) := (frames m ! nat (frame_number x))\<lparr>reference_bit := 1\<rparr>]"
  let ?m2 = "?m1\<lparr>frames := ?fs\<rparr>"
  have s2: "store_frame (frame_number x) (\<lambda>fr. fr\<lparr>reference_bit := 1\<rparr>) ?m1 = Inr ?m2"
    using fn by simp
  have x1: "page_at ?m1 p = Some x" and x2: "page_at ?m2 p = Some x" using x(1) by simp_all
  from store_page_ok [OF x2, of "\<lambda>p. p\<lparr>is_allocated := 1\<rparr>"] obtain ar where
    s3: "store_page (Some p) (\<lambda>p. p\<lparr>is_allocated := 1\<rparr>) ?m2 = Inr (?m2\<lparr>page_arrays := ar\<rparr>)"
    and pt3: "page_at (?m2\<lparr>page_arrays := ar\<rparr>) = (page_at ?m2)(p \<mapsto> x\<lparr>is_allocated := 1\<rparr>)"
    and len: "\<forall>a. map_option length (ar a) = map_option length (page_arrays ?m2 a)" by auto
  let ?m3 = "?m2\<lparr>page_arrays := ar\<rparr>"
  have "handle_valid_page net (Some p) pid (addr x) m = Inr ?m3"
    unfolding handle_valid_page_def s1 rbind.simps load_page_ok [OF x1] s2 s3 ..
  moreover have "page_at ?m2 = page_at m" "page_arrays ?m2 = page_arrays m" by simp_all
  with pt3 len have "touched m ?m3 pid p x" by (simp add: touched_def)
  ultimately show ?thesis by blast
qed

text \<open>The mutex is no part of the invariant.\<close>

lemma mutex_irrelevant [simp]:
  "pager_inv F (m\<lparr>mutex := b\<rparr>) = pager_inv F m" "content (m\<lparr>mutex := b\<rparr>) = content m"
  "owns (m\<lparr>mutex := b\<rparr>) = owns m" "served net (m\<lparr>mutex := b\<rparr>) = served net m"
  "served_all net (m\<lparr>mutex := b\<rparr>) = served_all net m"
proof -
  have ow: "owns (m\<lparr>mutex := b\<rparr>) = owns m" by (rule owns_cong) simp
  have sv: "served net (m\<lparr>mutex := b\<rparr>) = served net m" by (rule served_cong) simp_all
  have st: "stored (m\<lparr>mutex := b\<rparr>) = stored m"
    by (simp add: stored_def block_bytes_def zero_page_def fun_eq_iff)
  have pt: "page_at (m\<lparr>mutex := b\<rparr>) = page_at m" by (rule page_at_cong)
  have fr: "frame_bytes (m\<lparr>mutex := b\<rparr>) = frame_bytes m" by (rule frame_bytes_cong)
  have "geometry (m\<lparr>mutex := b\<rparr>) = geometry m" "tables_ok (m\<lparr>mutex := b\<rparr>) = tables_ok m"
    by (simp_all add: geometry_def tables_ok_def)
  moreover have "pages_ok F (m\<lparr>mutex := b\<rparr>) = pages_ok F m" unfolding pages_ok_def ow pt
    by (simp add: in_frame_def)
  moreover have "frames_ok F (m\<lparr>mutex := b\<rparr>) = frames_ok F m" unfolding frames_ok_def ow pt by simp
  moreover have "blocks_apart (m\<lparr>mutex := b\<rparr>) = blocks_apart m" unfolding blocks_apart_def ow pt ..
  moreover have "maps_ok (m\<lparr>mutex := b\<rparr>) = maps_ok m" unfolding maps_ok_def ow pt
    by (simp add: map_ok_cong [of "m\<lparr>mutex := b\<rparr>" m])
  moreover have "clean_ok (m\<lparr>mutex := b\<rparr>) = clean_ok m" unfolding clean_ok_def ow pt fr st ..
  ultimately show "pager_inv F (m\<lparr>mutex := b\<rparr>) = pager_inv F m" by (simp add: pager_inv_def)
  show "content (m\<lparr>mutex := b\<rparr>) = content m"
    unfolding content_def pt page_bytes_def fr st by (rule refl)
  show "owns (m\<lparr>mutex := b\<rparr>) = owns m" "served net (m\<lparr>mutex := b\<rparr>) = served net m"
    using ow sv by blast+
  show "served_all net (m\<lparr>mutex := b\<rparr>) = served_all net m" by (simp add: served_all_def ow sv)
qed

text \<open>What a fault leaves as it was.\<close>

definition same_processes :: "machine \<Rightarrow> machine \<Rightarrow> bool" where
  "same_processes m m' \<longleftrightarrow> page_list m' = page_list m \<and> page_size m' = page_size m \<and>
     id2pid m' = id2pid m \<and> sock2client m' = sock2client m \<and> mutex m' = mutex m \<and>
     steady m m' \<and> (\<forall>pid q. owns m pid q \<longrightarrow> content m' q = content m q)"

text \<open>The page of \<open>p\<close> is resident and mapped for its process with the protection \<open>prot\<close>.\<close>

definition mapped_page :: "machine \<Rightarrow> int \<Rightarrow> nat \<times> nat \<Rightarrow> int \<Rightarrow> bool" where
  "mapped_page m pid p prot \<longleftrightarrow> (\<exists>x. page_at m p = Some x \<and> isvalid x = 1 \<and>
     mappings m pid (addr x) = Some (nat (frame_number x) * page_size m, prot))"

lemma check_page_validity_ok:
  assumes inv: "pager_inv {} m" and sv: "served_all net m" and p: "owns m pid p"
    and x: "page_at m p = Some x" and va: "va = addr x + r" "0 \<le> r" "r < int (page_size m)"
  shows "\<exists>m'. check_page_validity net pid va m = Inr m' \<and> pager_inv {} m' \<and> same_processes m m' \<and>
    mapped_page m' pid p (if isvalid x = 1 then PROT_RW else PROT_READ)"
proof -
  note ax = pages_okD(1) [OF inv p x]
  obtain ti where ti: "find_page_table pid m = Inr ti" "ti < length (page_list m)"
    "pt_pid (page_list m ! ti) = pid" "pt_pages (page_list m ! ti) = Some (fst p)"
    "snd p < page_count (page_list m ! ti)"
    by (rule find_page_table_ok [OF pager_invD(2) [OF inv] p])
  have ps: "0 < page_size m" "UVM_BASEADDR mod int (page_size m) = 0"
    using pager_invD(1) [OF inv] by (simp_all add: geometry_def)
  have base: "va - c_rem va (int (page_size m)) = addr x"
    using page_base [OF ps _ va(2,3), of va "snd p"] va(1) ax by simp
  have "get_page ti (addr x) m = Inr (Some (fst p, snd p))"
    by (rule get_page_ok [OF inv ti(2-5), of "addr x" 0]) (use ax ps in simp_all)
  then have gp: "get_page ti (addr x) m = Inr (Some p)" by simp
  have step: "check_page_validity net pid va m =
      (if isvalid x = 1 then handle_valid_page net (Some p) pid (addr x) m
       else handle_invalid_page net (Some p) pid (addr x) m)"
    using ti(1) base gp x by (simp add: check_page_validity_def Let_def)
  show ?thesis
  proof (cases "isvalid x = 1")
    case True
    from handle_valid_ok [OF inv served_allD [OF sv p] p x True] obtain m' where
      m': "handle_valid_page net (Some p) pid (addr x) m = Inr m'" and t: "touched m m' pid p x" by blast
    have "same_processes m m'"
      using t touch_content [OF inv t p x] touched_steady [OF t p ax x]
      by (simp add: same_processes_def touched_def)
    moreover have "mapped_page m' pid p PROT_RW"
      unfolding mapped_page_def touchedD(2,10,12) [OF t]
      by (intro exI [of _ "x\<lparr>is_allocated := 1\<rparr>"]) (simp add: True set_mapping_def)
    moreover have "check_page_validity net pid va m = Inr m'" using step m' True by simp
    moreover have "(if isvalid x = 1 then PROT_RW else PROT_READ) = PROT_RW" using True by simp
    ultimately show ?thesis using touch_inv [OF inv t p x True] by metis
  next
    case False
    from handle_invalid_ok [OF inv sv p x False] obtain v m1 m' where
      m': "handle_invalid_page net (Some p) pid (addr x) m = Inr m'"
      and rd: "frame_ready m m1 v" and ins: "installed m1 m' v pid p x" by blast
    have ow1: "owns m1 = owns m" by (rule owns_cong [OF frame_readyD(3) [OF rd]])
    have p1: "owns m1 pid p" and x1: "page_at m1 p = Some x"
      using p ow1 frame_readyD(9) [OF rd x False] by simp_all
    note inv1 = frame_readyD(2) [OF rd]
    have c: "content m' q = content m q" if "owns m pid' q" for pid' q
      using install_content [OF inv1 ins p1 x1 False] frame_readyD(8) [OF rd that] that ow1 by metis
    have "steady m m'"
      by (rule steady_trans [OF frame_readyD(10) [OF rd] installed_steady [OF ins p1 _ x1]])
        (simp add: ax frame_readyD(6) [OF rd])
    then have "same_processes m m'"
      using ins frame_readyD(3-7) [OF rd] c by (simp add: same_processes_def installed_def)
    moreover have "mapped_page m' pid p PROT_READ"
      unfolding mapped_page_def installedD(2,10,12) [OF ins]
      by (intro exI [of _ "resident_entry v x"]) (simp add: set_mapping_def)
    moreover have "check_page_validity net pid va m = Inr m'" using step m' False by simp
    moreover have "(if isvalid x = 1 then PROT_RW else PROT_READ) = PROT_READ" using False by simp
    ultimately show ?thesis
      using install_inv [OF inv1 ins frame_readyD(1) [OF rd] p1 x1 False] by metis
  qed
qed

lemma pager_fault_ok:
  assumes inv: "pager_inv {} m" and mx: "\<not> mutex m" and sv: "served_all net m" and p: "owns m pid p"
    and x: "page_at m p = Some x" and va: "va = addr x + r" "0 \<le> r" "r < int (page_size m)"
  shows "\<exists>m'. pager_fault net pid va m = Inr m' \<and> pager_inv {} m' \<and> same_processes m m' \<and>
    mapped_page m' pid p (if isvalid x = 1 then PROT_RW else PROT_READ)"
proof -
  let ?m = "m\<lparr>mutex := True\<rparr>"
  have "pager_inv {} ?m" "served_all net ?m" "owns ?m pid p" "page_at ?m p = Some x"
    "r < int (page_size ?m)" using inv sv p x va(3) by simp_all
  from check_page_validity_ok [OF this(1-4) va(1,2) this(5)] obtain m1 where
    m1: "check_page_validity net pid va ?m = Inr m1" "pager_inv {} m1" "same_processes ?m m1"
      "mapped_page m1 pid p (if isvalid x = 1 then PROT_RW else PROT_READ)" by blast
  have "pager_fault net pid va m = Inr (m1\<lparr>mutex := False\<rparr>)"
    using mx m1(1) by (simp add: pager_fault_def lock_def unlock_def)
  moreover have "same_processes m (m1\<lparr>mutex := False\<rparr>)"
    using m1(3) mx by (simp add: same_processes_def steady_def has_address_def)
  moreover have "mapped_page (m1\<lparr>mutex := False\<rparr>) = mapped_page m1"
    by (simp add: mapped_page_def fun_eq_iff)
  ultimately show ?thesis using m1(2,4) by (intro exI [of _ "m1\<lparr>mutex := False\<rparr>"]) simp
qed

end
