(* ===== verification/Pager_Life.thy ===== *)
theory Pager_Life
  imports Pager_Correct
begin

text \<open>
  The life of a process in the pager: \<open>pager_init\<close>, \<open>pager_create\<close>, \<open>pager_extend\<close> and
  \<open>pager_destroy\<close> keep the invariant, and what they do to the pages of processes.
\<close>

section \<open>Initialisation\<close>

lemma pager_init_ok:
  assumes "\<not> mutex m" and "0 < pagesz" and "UVM_BASEADDR mod int pagesz = 0"
    and "0 < nframes" and "length frame_mem = nframes" and "length block_mem = nblks"
    and "nframes * pagesz \<le> length (pmem m)" and "nblks * pagesz \<le> length (disk m)"
    and "nframes < 2 ^ 31" and "nblks < 2 ^ 31"
  shows "\<exists>m'. pager_init frame_mem block_mem pagesz nframes nblks m = Inr m' \<and> pager_inv {} m' \<and>
    \<not> mutex m' \<and> page_list m' = [] \<and> pmem m' = pmem m \<and> disk m' = disk m \<and>
    page_size m' = pagesz \<and> map bl_page (blocks m') = map bl_page block_mem"
proof -
  let ?m = "m\<lparr>fl_size := nframes, page_size := pagesz, second_chance_index := 0,
      frames := map (\<lambda>fr. fr\<lparr>fr_pid := INVALID_PID\<rparr>) frame_mem, nblocks := nblks,
      blocks := map (\<lambda>b. b\<lparr>bl_allocated := 0\<rparr>) block_mem, page_list := [], mutex := False\<rparr>"
  have "pager_init frame_mem block_mem pagesz nframes nblks m = Inr ?m"
    using assms by (simp add: pager_init_def lock_def unlock_def Let_def)
  moreover have "pager_inv {} ?m"
    using assms by (simp add: pager_inv_def geometry_def tables_ok_def pages_ok_def frames_ok_def
        blocks_apart_def maps_ok_def clean_ok_def owns_def)
  ultimately show ?thesis by (intro exI [of _ ?m]) (simp add: comp_def)
qed

section \<open>A new process\<close>

lemma page_at_upd:
  "page_at (m\<lparr>page_arrays := (page_arrays m)(a := v)\<rparr>) p =
   (if fst p = a then (case v of None \<Rightarrow> None | Some ps \<Rightarrow> if snd p < length ps then Some (ps ! snd p) else None)
    else page_at m p)"
  by (simp add: page_at_def)

text \<open>Two machines in which the owned pages are the same agree on the whole invariant.\<close>

lemma pager_inv_cong:
  assumes inv: "pager_inv {} m" and ow: "owns m' = owns m"
    and pt: "\<And>pid p. owns m pid p \<Longrightarrow> page_at m' p = page_at m p"
    and t: "tables_ok m'"
    and same: "page_size m' = page_size m" "fl_size m' = fl_size m" "frames m' = frames m"
      "nblocks m' = nblocks m" "blocks m' = blocks m" "pmem m' = pmem m" "disk m' = disk m"
      "second_chance_index m' = second_chance_index m" "mappings m' = mappings m"
  shows "pager_inv {} m'" and "owns m pid q \<Longrightarrow> content m' q = content m q"
proof -
  have st: "stored m' = stored m" and fb: "frame_bytes m' = frame_bytes m"
    using same by (simp_all add: stored_def block_bytes_def zero_page_def frame_bytes_def fun_eq_iff)
  have "geometry m'" using pager_invD(1) [OF inv] same by (auto simp: geometry_def)
  moreover have "pages_ok {} m'"
    using pager_invD(3) [OF inv] pt same unfolding pages_ok_def ow by (simp add: in_frame_def)
  moreover have "frames_ok {} m'"
    unfolding frames_ok_def ow same
  proof (intro allI impI)
    fix f assume "f < length (frames m)" "f \<notin> {} \<and> fr_pid (frames m ! f) \<noteq> INVALID_PID"
    then obtain p x where "fr_page (frames m ! f) = Some p" "owns m (fr_pid (frames m ! f)) p"
      "page_at m p = Some x" "isvalid x = 1" "frame_number x = int f"
      by (auto elim: frames_okE [OF inv])
    with pt [OF this(2)] show "\<exists>p x. fr_page (frames m ! f) = Some p \<and> owns m (fr_pid (frames m ! f)) p \<and>
        page_at m' p = Some x \<and> isvalid x = 1 \<and> frame_number x = int f" by auto
  qed
  moreover have "blocks_apart m'"
    unfolding blocks_apart_def ow
  proof (intro allI impI)
    fix pid p x pid' q y
    assume h: "owns m pid p \<and> owns m pid' q \<and> page_at m' p = Some x \<and> page_at m' q = Some y \<and>
      block_number x = block_number y"
    then have "page_at m p = Some x" "page_at m q = Some y" using pt [of pid p] pt [of pid' q] by simp_all
    with h blocks_apartD [OF inv] show "p = q" by blast
  qed
  moreover have "maps_ok m'"
    unfolding maps_ok_def ow
  proof (intro allI impI)
    fix pid p x assume h: "owns m pid p \<and> page_at m' p = Some x"
    then have "page_at m p = Some x" using pt [of pid p] by simp
    with h maps_okD [OF inv] have "map_ok m x (mappings m pid (addr x))" by blast
    then show "map_ok m' x (mappings m' pid (addr x))" using map_ok_cong [OF same(1)] same(9) by simp
  qed
  moreover have "clean_ok m'"
    unfolding clean_ok_def ow st fb
  proof (intro allI impI)
    fix pid p x assume h: "owns m pid p \<and> page_at m' p = Some x \<and> isvalid x = 1 \<and> is_allocated x \<noteq> 1"
    then have "page_at m p = Some x" using pt [of pid p] by simp
    with h clean_okD [OF inv] show "frame_bytes m (frame_number x) = stored m (block_number x)" by blast
  qed
  ultimately show "pager_inv {} m'" using t by (simp add: pager_inv_def)
  show "content m' q = content m q" if "owns m pid q"
    using pt [OF that] by (simp add: content_def page_bytes_def st fb split: option.split)
qed

definition fresh_memory :: "machine \<Rightarrow> ptr \<Rightarrow> bool" where
  "fresh_memory m p \<longleftrightarrow> (\<exists>a. p = Some a \<and> page_arrays m a = None)"

text \<open>
  A process that can still extend: its table has its array, of \<open>page_capacity\<close> elements, which
  no other process uses, and nothing is mapped above its last page.
\<close>

definition alive :: "machine \<Rightarrow> int \<Rightarrow> nat \<Rightarrow> bool" where
  "alive m pid ti \<longleftrightarrow> ti < length (page_list m) \<and> pt_pid (page_list m ! ti) = pid \<and>
     (\<exists>a ar. pt_pages (page_list m ! ti) = Some a \<and> page_arrays m a = Some ar \<and>
        length ar = page_capacity (page_list m ! ti) \<and>
        page_count (page_list m ! ti) \<le> page_capacity (page_list m ! ti) \<and>
        (\<forall>t \<in> set (page_list m). t \<noteq> page_list m ! ti \<and> 0 < page_count t \<longrightarrow> pt_pages t \<noteq> Some a))"

definition unmapped_above :: "machine \<Rightarrow> int \<Rightarrow> nat \<Rightarrow> bool" where
  "unmapped_above m pid n \<longleftrightarrow>
     (\<forall>i \<ge> n. mappings m pid (UVM_BASEADDR + int i * int (page_size m)) = None)"

lemma array_owned:
  assumes "tables_ok m" and "owns m pid p"
  shows "page_arrays m (fst p) \<noteq> None"
proof -
  from assms(2) obtain t where t: "t \<in> set (page_list m)" "pt_pages t = Some (fst p)" "0 < page_count t"
    by (auto simp: owns_def)
  with assms(1) obtain b ar where "pt_pages t = Some b" "page_arrays m b = Some ar"
    unfolding tables_ok_def by blast
  with t show ?thesis by simp
qed

lemma tables_ok_snoc:
  assumes t: "tables_ok m" and "page_list m' = page_list m @ [new]" and "page_count new = 0"
    and "pt_pid new \<noteq> INVALID_PID" and "pt_pid new \<notin> pt_pid ` set (page_list m)"
    and "page_arrays m' = (page_arrays m)(a \<mapsto> [])" and "page_arrays m a = None"
  shows "tables_ok m'"
proof -
  have "\<exists>b ar. pt_pages t = Some b \<and> page_arrays m' b = Some ar \<and>
      page_count t \<le> length ar \<and> length ar = page_capacity t"
    if h: "t \<in> set (page_list m)" "0 < page_count t" for t
  proof -
    from t h obtain b ar where "pt_pages t = Some b" "page_arrays m b = Some ar"
      "page_count t \<le> length ar" "length ar = page_capacity t" unfolding tables_ok_def by blast
    moreover from this assms(7) have "b \<noteq> a" by auto
    ultimately show ?thesis using assms(6) by simp
  qed
  with assms show ?thesis by (auto simp: tables_ok_def)
qed

lemma pager_create_ok:
  assumes inv: "pager_inv {} m" and mx: "\<not> mutex m" and pid: "pid \<noteq> INVALID_PID"
    and new: "pid \<notin> pt_pid ` set (page_list m)" and mem: "fresh_memory m memory"
  shows "\<exists>m'. pager_create memory pid m = Inr m' \<and> pager_inv {} m' \<and> owns m' = owns m \<and>
    alive m' pid (length (page_list m)) \<and> \<not> mutex m' \<and> mappings m' = mappings m \<and>
    id2pid m' = id2pid m \<and> sock2client m' = sock2client m \<and> page_size m' = page_size m \<and>
    blocks m' = blocks m \<and> disk m' = disk m \<and>
    (\<exists>t. page_list m' = page_list m @ [t] \<and> page_count t = 0 \<and> page_capacity t = 0) \<and>
    (\<forall>pid' q. owns m pid' q \<longrightarrow> content m' q = content m q)"
proof -
  obtain a where a: "memory = Some a" "page_arrays m a = None" using mem by (auto simp: fresh_memory_def)
  let ?t = "\<lparr>pt_pid = pid, pt_pages = Some a, page_count = 0, page_capacity = 0\<rparr>"
  let ?cap = "if length (page_list m) = page_tables_capacity m then page_tables_capacity m * 2
    else page_tables_capacity m"
  let ?m = "m\<lparr>page_tables_capacity := ?cap,
      page_list := page_list m @ [?t], page_arrays := (page_arrays m)(a \<mapsto> []), mutex := False\<rparr>"
  have s: "pager_create memory pid m = Inr ?m"
    using mx a by (simp add: pager_create_def lock_def unlock_def Let_def)
  have ow: "owns ?m = owns m" by (auto simp: owns_def fun_eq_iff)
  have pt: "page_at ?m p = page_at m p" if "owns m pid' p" for pid' p
  proof -
    have "fst p \<noteq> a" using array_owned [OF pager_invD(2) [OF inv] that] a by auto
    then show ?thesis by (simp add: page_at_def)
  qed
  have t: "tables_ok ?m"
    by (rule tables_ok_snoc [OF pager_invD(2) [OF inv], where new = ?t and a = a]) (use new pid a in simp_all)
  have i: "pager_inv {} ?m" by (rule pager_inv_cong(1) [OF inv ow pt t]) simp_all
  have c: "content ?m q = content m q" if "owns m pid' q" for pid' q
    by (rule pager_inv_cong(2) [OF inv ow pt t _ _ _ _ _ _ _ _ _ that]) simp_all
  have "pt_pages t \<noteq> Some a" if "t \<in> set (page_list m)" "0 < page_count t" for t
  proof
    assume p: "pt_pages t = Some a"
    from that p have "owns m (pt_pid t) (a, 0)" by (auto simp: owns_def)
    with array_owned [OF pager_invD(2) [OF inv]] a show False by fastforce
  qed
  then have al: "alive ?m pid (length (page_list m))" by (auto simp: alive_def nth_append)
  have tn: "\<exists>t. page_list ?m = page_list m @ [t] \<and> page_count t = 0 \<and> page_capacity t = 0"
    by (intro exI [of _ ?t]) simp
  show ?thesis by (intro exI [of _ ?m]) (use s i c ow al tn in simp)
qed

section \<open>A new page\<close>

text \<open>
  What the pager needs of \<open>realloc\<close>: enough memory, and an array that already holds pages must
  stay where it is, because frames point into it.
\<close>

definition realloc_in_place :: "machine \<Rightarrow> page_table_t \<Rightarrow> (nat \<times> page_t list) option \<Rightarrow> bool" where
  "realloc_in_place m t memory \<longleftrightarrow> (page_count t = page_capacity t \<longrightarrow>
     (\<exists>a junk. memory = Some (a, junk) \<and> page_capacity t * 2 \<le> length junk \<and> 1 \<le> length junk \<and>
        (if page_count t = 0 then pt_pages t = Some a \<or> page_arrays m a = None
         else pt_pages t = Some a)))"

lemma realloc_in_place_mutex [simp]:
  "realloc_in_place (m\<lparr>mutex := b\<rparr>) t memory = realloc_in_place m t memory"
  by (simp add: realloc_in_place_def)

text \<open>The table and the arrays once there is room for another page.\<close>

definition roomy :: "machine \<Rightarrow> nat \<Rightarrow> page_table_t \<Rightarrow> (nat \<rightharpoonup> page_t list) \<Rightarrow> nat \<Rightarrow> page_t list \<Rightarrow> bool" where
  "roomy m ti t ars a xs \<longleftrightarrow>
     (let t0 = page_list m ! ti in
      pt_pid t = pt_pid t0 \<and> page_count t = page_count t0 \<and> pt_pages t = Some a \<and>
      ars a = Some xs \<and> length xs = page_capacity t \<and> page_count t < length xs \<and>
      (\<forall>c. c \<noteq> a \<and> pt_pages t0 \<noteq> Some c \<longrightarrow> ars c = page_arrays m c) \<and>
      (\<forall>i < page_count t. page_at m (a, i) = Some (xs ! i)) \<and>
      (0 < page_count t \<longrightarrow> pt_pages t0 = Some a) \<and>
      (pt_pages t0 = Some a \<or> page_arrays m a = None))"

lemma grow_pages_ok:
  assumes al: "alive m pid ti" and mem: "realloc_in_place m (page_list m ! ti) memory"
  obtains t ars a xs where "grow_pages memory ti m = Inr (m\<lparr>page_arrays := ars,
      page_list := (page_list m)[ti := t]\<rparr>)" and "roomy m ti t ars a xs"
proof -
  let ?t = "page_list m ! ti"
  from al obtain a ar where a: "ti < length (page_list m)" "pt_pages ?t = Some a"
    "page_arrays m a = Some ar" "length ar = page_capacity ?t" "page_count ?t \<le> page_capacity ?t"
    by (auto simp: alive_def)
  show thesis
  proof (cases "page_count ?t = page_capacity ?t")
    case False
    then have "grow_pages memory ti m = Inr (m\<lparr>page_arrays := page_arrays m,
        page_list := (page_list m)[ti := ?t]\<rparr>)" by (simp add: grow_pages_def)
    moreover have "roomy m ti ?t (page_arrays m) a ar"
      using False a by (auto simp: roomy_def page_at_def)
    ultimately show thesis by (rule that)
  next
    case True
    with mem obtain b junk where b: "memory = Some (b, junk)" "page_capacity ?t * 2 \<le> length junk"
      "1 \<le> length junk" "if page_count ?t = 0 then pt_pages ?t = Some b \<or> page_arrays m b = None
         else pt_pages ?t = Some b" unfolding realloc_in_place_def by blast
    let ?cap = "if page_capacity ?t = 0 then 1 else page_capacity ?t * 2"
    let ?xs = "take ?cap (ar @ drop (length ar) junk)"
    let ?t' = "?t\<lparr>page_capacity := ?cap, pt_pages := Some b\<rparr>"
    let ?ars = "(page_arrays m)(a := None, b \<mapsto> ?xs)"
    have "grow_pages memory ti m = Inr (m\<lparr>page_arrays := ?ars, page_list := (page_list m)[ti := ?t']\<rparr>)"
      using True a b(1) by (simp add: grow_pages_def realloc_array_def store_table_def Let_def)
    moreover have "length ?xs = ?cap" using a(4) b(2,3) by auto
    moreover have "\<forall>i < page_count ?t. page_at m (b, i) = Some (?xs ! i)"
    proof (intro allI impI)
      fix i assume i: "i < page_count ?t"
      with b(4) a(2) have "b = a" by (simp split: if_splits)
      with i a True show "page_at m (b, i) = Some (?xs ! i)" by (simp add: page_at_def nth_append)
    qed
    ultimately have "roomy m ti ?t' ?ars b ?xs"
      using True a b(4) by (auto simp: roomy_def split: if_splits)
    with \<open>grow_pages memory ti m = _\<close> show thesis by (rule that)
  qed
qed

text \<open>
  \<open>extended m m' pid ti a x b\<close>: the process has a new page with entry \<open>x\<close> at index \<open>page_count\<close>
  of the array \<open>a\<close>, on block \<open>b\<close>.
\<close>

definition extended :: "machine \<Rightarrow> machine \<Rightarrow> int \<Rightarrow> nat \<Rightarrow> nat \<Rightarrow> page_t \<Rightarrow> nat \<Rightarrow> bool" where
  "extended m m' pid ti a x b \<longleftrightarrow>
     (let n = page_count (page_list m ! ti) in
      page_size m' = page_size m \<and> fl_size m' = fl_size m \<and> frames m' = frames m \<and>
      nblocks m' = nblocks m \<and> pmem m' = pmem m \<and> disk m' = disk m \<and>
      second_chance_index m' = second_chance_index m \<and> mappings m' = mappings m \<and>
      id2pid m' = id2pid m \<and> sock2client m' = sock2client m \<and> mutex m' = mutex m \<and>
      blocks m' = (blocks m)[b := (blocks m ! b)\<lparr>bl_page := Some (a, n)\<rparr>] \<and>
      isvalid x = 0 \<and> block_number x = int b \<and>
      addr x = UVM_BASEADDR + int n * int (page_size m) \<and> page_at m' (a, n) = Some x \<and>
      (\<forall>pid' q. owns m' pid' q \<longleftrightarrow> owns m pid' q \<or> pid' = pid \<and> q = (a, n)) \<and>
      (\<forall>pid' q. owns m pid' q \<longrightarrow> q \<noteq> (a, n) \<and> page_at m' q = page_at m q) \<and> tables_ok m' \<and>
      nextid m' = nextid m \<and>
      (\<forall>c. c \<noteq> a \<and> pt_pages (page_list m ! ti) \<noteq> Some c \<longrightarrow> page_arrays m' c = page_arrays m c) \<and>
      (pt_pages (page_list m ! ti) = Some a \<or> page_arrays m a = None) \<and>
      (\<exists>t. page_list m' = (page_list m)[ti := t] \<and> page_count t = Suc n \<and> pt_pid t = pid \<and>
         pt_pages t = Some a \<and> alive m' pid ti))"

lemma find_table_alive:
  assumes "tables_ok m" and "alive m pid ti"
  shows "find_page_table pid m = Inr ti"
proof -
  have d: "distinct (map pt_pid (page_list m))" using assms(1) by (simp add: tables_ok_def)
  have ti: "ti < length (page_list m)" "pt_pid (page_list m ! ti) = pid"
    using assms(2) by (simp_all add: alive_def)
  have "pt_pid (page_list m ! j) \<noteq> pid" if "j < ti" for j
    using nth_eq_iff_index_eq [OF d, of j ti] that ti by simp
  then have "find_index (\<lambda>t. pt_pid t = pid) (page_list m) = Some ti"
    using ti by (simp add: find_index_Some)
  then show ?thesis by (simp only: find_page_table_def option.case)
qed

lemma owns_nth:
  "owns m pid p \<longleftrightarrow> (\<exists>j < length (page_list m). pt_pid (page_list m ! j) = pid \<and>
     pt_pages (page_list m ! j) = Some (fst p) \<and> snd p < page_count (page_list m ! j))"
  by (auto simp: owns_def Bex_def in_set_conv_nth)

lemma owns_split:
  assumes "ti < length (page_list m)"
  shows "owns m pid p \<longleftrightarrow> (\<exists>j < length (page_list m). j \<noteq> ti \<and> pt_pid (page_list m ! j) = pid \<and>
       pt_pages (page_list m ! j) = Some (fst p) \<and> snd p < page_count (page_list m ! j)) \<or>
     pid = pt_pid (page_list m ! ti) \<and> pt_pages (page_list m ! ti) = Some (fst p) \<and>
       snd p < page_count (page_list m ! ti)"
  using assms by (auto simp: owns_nth)

text \<open>Two positions of the table list hold the same process only if they are one position.\<close>

lemma other_table:
  assumes "tables_ok m" and "j < length (page_list m)" and "ti < length (page_list m)" and "j \<noteq> ti"
  shows "page_list m ! j \<noteq> page_list m ! ti" and "pt_pid (page_list m ! j) \<noteq> pt_pid (page_list m ! ti)"
proof -
  have d: "distinct (map pt_pid (page_list m))" using assms(1) by (simp add: tables_ok_def)
  show "pt_pid (page_list m ! j) \<noteq> pt_pid (page_list m ! ti)"
    using nth_eq_iff_index_eq [OF d, of j ti] assms by simp
  then show "page_list m ! j \<noteq> page_list m ! ti" by auto
qed

lemma other_array:
  assumes t: "tables_ok m" and al: "alive m pid ti" and r: "roomy m ti t ars a xs"
    and j: "j < length (page_list m)" "j \<noteq> ti" "0 < page_count (page_list m ! j)"
    and c: "pt_pages (page_list m ! j) = Some c"
  shows "c \<noteq> a" and "ars c = page_arrays m c"
proof -
  have ti: "ti < length (page_list m)" using al by (simp add: alive_def)
  obtain old where old: "pt_pages (page_list m ! ti) = Some old"
    "\<forall>t \<in> set (page_list m). t \<noteq> page_list m ! ti \<and> 0 < page_count t \<longrightarrow> pt_pages t \<noteq> Some old"
    using al by (auto simp: alive_def)
  then have co: "c \<noteq> old" using other_table(1) [OF t j(1) ti j(2)] j c nth_mem by metis
  have "owns m (pt_pid (page_list m ! j)) (c, 0)" using j c by (auto simp: owns_nth)
  with array_owned [OF t] have "page_arrays m c \<noteq> None" by fastforce
  with r old co show "c \<noteq> a" by (auto simp: roomy_def Let_def)
  with r old co show "ars c = page_arrays m c" by (simp add: roomy_def Let_def)
qed

lemma pager_extend_effect:
  assumes inv: "pager_inv {} m" and mx: "\<not> mutex m" and al: "alive m pid ti"
    and mem: "realloc_in_place m (page_list m ! ti) memory"
    and b: "find_free_block m = int b" "b < length (blocks m)"
  shows "\<exists>m' a x. pager_extend memory pid m =
      Inr (Some (UVM_BASEADDR + int (page_count (page_list m ! ti)) * int (page_size m)), m') \<and>
    extended m m' pid ti a x b"
proof -
  let ?m0 = "m\<lparr>mutex := True\<rparr>" and ?n = "page_count (page_list m ! ti)"
  have al0: "alive ?m0 pid ti" using al by (simp add: alive_def)
  have mem0: "realloc_in_place ?m0 (page_list ?m0 ! ti) memory" using mem by simp
  obtain t ars a xs where
    g: "grow_pages memory ti ?m0 = Inr (?m0\<lparr>page_arrays := ars, page_list := (page_list ?m0)[ti := t]\<rparr>)"
    and r0: "roomy ?m0 ti t ars a xs" by (rule grow_pages_ok [OF al0 mem0])
  from r0 have r: "roomy m ti t ars a xs" by (simp add: roomy_def page_at_def)
  have ti: "ti < length (page_list m)" "pt_pid (page_list m ! ti) = pid" using al by (simp_all add: alive_def)
  have rd: "page_count t = ?n" "pt_pid t = pid" "pt_pages t = Some a" "ars a = Some xs" "?n < length xs"
    "length xs = page_capacity t" using r ti by (simp_all add: roomy_def Let_def)
  let ?x = "(xs ! ?n)\<lparr>isvalid := 0, addr := UVM_BASEADDR + int ?n * int (page_size m),
      block_number := int b\<rparr>"
  let ?t = "t\<lparr>page_count := Suc ?n\<rparr>"
  let ?bs = "(blocks m)[b := (blocks m ! b)\<lparr>bl_page := Some (a, ?n)\<rparr>]"
  let ?m' = "m\<lparr>page_arrays := ars(a \<mapsto> xs[?n := ?x]), page_list := (page_list m)[ti := ?t],
      blocks := ?bs, mutex := False\<rparr>"
  have "find_free_block ?m0 = int b" using b by (simp add: find_free_block_def)
  moreover have "find_page_table pid ?m0 = Inr ti"
    using find_table_alive [OF pager_invD(2) [OF inv] al] by (simp add: find_page_table_def)
  moreover have "int b \<noteq> INVALID_PID" by (simp add: INVALID_PID_def)
  ultimately have "pager_extend memory pid m =
      Inr (Some (UVM_BASEADDR + int ?n * int (page_size m)), ?m')"
    using mx g rd ti b by (simp add: pager_extend_def lock_def unlock_def Let_def store_table_def
        store_page_def)
  moreover have "extended m ?m' pid ti a ?x b"
  proof -
    have t: "tables_ok m" by (rule pager_invD(2) [OF inv])
    have nth: "page_list ?m' ! j = (if j = ti then ?t else page_list m ! j)"
      if "j < length (page_list m)" for j using that by simp
    let ?others = "\<lambda>pid' q. \<exists>j < length (page_list m). j \<noteq> ti \<and> pt_pid (page_list m ! j) = pid' \<and>
        pt_pages (page_list m ! j) = Some (fst q) \<and> snd q < page_count (page_list m ! j)"
    have own1: "owns ?m' pid' q \<longleftrightarrow> ?others pid' q \<or> pid' = pid \<and> fst q = a \<and> snd q < Suc ?n" for pid' q
      using owns_split [of ti ?m' pid' q] ti rd(2,3) by (simp cong: conj_cong) blast
    have "0 < ?n \<longrightarrow> pt_pages (page_list m ! ti) = Some a" using r rd(1) by (simp add: roomy_def Let_def)
    then have own2: "owns m pid' q \<longleftrightarrow> ?others pid' q \<or> pid' = pid \<and> fst q = a \<and> snd q < ?n" for pid' q
      using owns_split [OF ti(1), of pid' q] ti(2) by (cases "?n = 0") auto
    have own: "owns ?m' pid' q \<longleftrightarrow> owns m pid' q \<or> pid' = pid \<and> q = (a, ?n)" for pid' q
      unfolding own1 own2 by (cases q) auto
    have keep: "q \<noteq> (a, ?n) \<and> page_at ?m' q = page_at m q" if q: "owns m pid' q" for pid' q
    proof (cases "?others pid' q")
      case True
      then obtain j where j: "j < length (page_list m)" "j \<noteq> ti"
        "pt_pages (page_list m ! j) = Some (fst q)" "0 < page_count (page_list m ! j)" by auto
      note o = other_array [OF t al r j(1,2,4,3)]
      then show ?thesis by (auto simp: page_at_def)
    next
      case False
      with q have f: "fst q = a" "snd q < ?n" unfolding own2 by blast+
      have "page_at m (a, snd q) = Some (xs ! snd q)" using r f(2) rd(1) by (simp add: roomy_def Let_def)
      moreover obtain i where "q = (a, i)" using f by (cases q) auto
      ultimately show ?thesis using f rd(5) by (auto simp: page_at_def)
    qed
    have arr: "page_arrays ?m' c = page_arrays m c \<and> c \<noteq> a"
      if "j < length (page_list m)" "j \<noteq> ti" "0 < page_count (page_list m ! j)"
        "pt_pages (page_list m ! j) = Some c" for j c
      using other_array [OF t al r that] by auto
    have tb: "tables_ok ?m'"
      unfolding tables_ok_def
    proof (intro conjI ballI impI)
      have "(map pt_pid (page_list m))[ti := pid] = map pt_pid (page_list m)"
        using ti by (simp add: list_update_same_conv)
      then show "distinct (map pt_pid (page_list ?m'))"
        using t rd(2) by (simp add: tables_ok_def map_update)
    next
      fix u assume "u \<in> set (page_list ?m')"
      then obtain j where j: "j < length (page_list m)" "u = page_list ?m' ! j"
        by (auto simp: in_set_conv_nth)
      have tj: "pt_pid (page_list m ! j) \<noteq> INVALID_PID" if "j < length (page_list m)" for j
        using t that by (auto simp: tables_ok_def)
      show "pt_pid u \<noteq> INVALID_PID"
        using tj [OF ti(1)] tj [OF j(1)] ti rd(2) unfolding j(2) nth [OF j(1)] by simp
      assume u: "0 < page_count u"
      show "\<exists>a ar. pt_pages u = Some a \<and> page_arrays ?m' a = Some ar \<and>
          page_count u \<le> length ar \<and> length ar = page_capacity u"
      proof (cases "j = ti")
        case True
        with rd ti show ?thesis unfolding j(2) nth [OF j(1)] by simp
      next
        case False
        then have u': "u = page_list m ! j" unfolding j(2) nth [OF j(1)] by simp
        then have "u \<in> set (page_list m)" using j(1) by simp
        then obtain c ar where c: "pt_pages u = Some c" "page_arrays m c = Some ar"
          "page_count u \<le> length ar" "length ar = page_capacity u"
          using t u unfolding tables_ok_def by blast
        have "page_arrays ?m' c = Some ar" using arr [OF j(1) False] c u u' by metis
        with c show ?thesis by blast
      qed
    next
      fix u w assume "u \<in> set (page_list ?m')" "w \<in> set (page_list ?m')"
        and h: "0 < page_count u \<and> 0 < page_count w \<and> pt_pages u = pt_pages w"
      then obtain j k where j: "j < length (page_list m)" "u = page_list ?m' ! j"
        and k: "k < length (page_list m)" "w = page_list ?m' ! k"
        by (auto simp: in_set_conv_nth)
      have cross: False if "i < length (page_list m)" "i \<noteq> ti" "0 < page_count (page_list m ! i)"
        "pt_pages (page_list m ! i) = Some a" for i
        using arr [OF that(1-3), of a] that(4) by blast
      consider "j = ti" "k = ti" | "j = ti" "k \<noteq> ti" | "j \<noteq> ti" "k = ti" | "j \<noteq> ti" "k \<noteq> ti" by blast
      then show "u = w"
      proof cases
        case 1
        then show ?thesis by (simp add: j(2) k(2))
      next
        case 2
        then have "w = page_list m ! k" "u = ?t" using nth [OF j(1)] nth [OF k(1)] j(2) k(2) by simp_all
        with h cross [OF k(1) 2(2)] rd(3) show ?thesis by simp
      next
        case 3
        then have "u = page_list m ! j" "w = ?t" using nth [OF j(1)] nth [OF k(1)] j(2) k(2) by simp_all
        with h cross [OF j(1) 3(1)] rd(3) show ?thesis by simp
      next
        case 4
        then have "u = page_list m ! j" "w = page_list m ! k"
          using nth [OF j(1)] nth [OF k(1)] j(2) k(2) by simp_all
        with h j(1) k(1) t show ?thesis unfolding tables_ok_def by simp
      qed
    qed
    have "pt_pages u \<noteq> Some a"
      if u: "u \<in> set (page_list ?m')" "u \<noteq> page_list ?m' ! ti" "0 < page_count u" for u
    proof -
      from u(1) obtain j where j: "j < length (page_list m)" "u = page_list ?m' ! j"
        by (auto simp: in_set_conv_nth)
      with u(2) have "j \<noteq> ti" by auto
      then have "u = page_list m ! j" using nth [OF j(1)] j(2) by simp
      with arr [OF j(1) \<open>j \<noteq> ti\<close>] u(3) show ?thesis by blast
    qed
    then have al': "alive ?m' pid ti"
      using ti rd by (simp add: alive_def Suc_le_eq)
    have old: "c \<noteq> a \<and> pt_pages (page_list m ! ti) \<noteq> Some c \<longrightarrow> page_arrays ?m' c = page_arrays m c"
      "pt_pages (page_list m ! ti) = Some a \<or> page_arrays m a = None" for c
      using r by (simp_all add: roomy_def Let_def)
    have "page_at ?m' (a, ?n) = Some ?x" using rd by (simp add: page_at_def)
    with own keep tb al' mx old rd(2,3) show ?thesis unfolding extended_def Let_def
      by (intro conjI exI [of _ ?t] allI impI) simp_all
  qed
  ultimately show ?thesis by blast
qed

lemma extendedD:
  assumes "extended m m' pid ti a x b"
  shows "owns m' pid' q \<longleftrightarrow> owns m pid' q \<or> pid' = pid \<and> q = (a, page_count (page_list m ! ti))"
    "owns m pid' q \<Longrightarrow> q \<noteq> (a, page_count (page_list m ! ti)) \<and> page_at m' q = page_at m q"
    "page_at m' (a, page_count (page_list m ! ti)) = Some x" "isvalid x = 0" "block_number x = int b"
    "addr x = UVM_BASEADDR + int (page_count (page_list m ! ti)) * int (page_size m)"
    "blocks m' = (blocks m)[b := (blocks m ! b)\<lparr>bl_page := Some (a, page_count (page_list m ! ti))\<rparr>]"
    "tables_ok m'" "alive m' pid ti" "mutex m' = mutex m"
    "\<exists>t. page_list m' = (page_list m)[ti := t] \<and> page_count t = Suc (page_count (page_list m ! ti))"
    "page_size m' = page_size m" "frames m' = frames m" "mappings m' = mappings m"
    "pmem m' = pmem m" "disk m' = disk m" "fl_size m' = fl_size m" "nblocks m' = nblocks m"
    "second_chance_index m' = second_chance_index m" "id2pid m' = id2pid m"
    "sock2client m' = sock2client m"
  using assms unfolding extended_def Let_def by blast+

lemma extended_arrays:
  assumes "extended m m' pid ti a x b"
  shows "nextid m' = nextid m"
    "c \<noteq> a \<Longrightarrow> pt_pages (page_list m ! ti) \<noteq> Some c \<Longrightarrow> page_arrays m' c = page_arrays m c"
    "pt_pages (page_list m ! ti) = Some a \<or> page_arrays m a = None"
    "\<exists>t. page_list m' = (page_list m)[ti := t] \<and> page_count t = Suc (page_count (page_list m ! ti)) \<and>
       pt_pid t = pid \<and> pt_pages t = Some a"
  using assms by (simp_all add: extended_def Let_def) blast

lemma extend_inv:
  assumes inv: "pager_inv {} m" and al: "alive m pid ti"
    and um: "unmapped_above m pid (page_count (page_list m ! ti))"
    and b: "b < length (blocks m)" "bl_page (blocks m ! b) = None" and ex: "extended m m' pid ti a x b"
  shows "pager_inv {} m'" and "owns m pid' q \<Longrightarrow> content m' q = content m q"
    and "content m' (a, page_count (page_list m ! ti)) = stored m (int b)"
proof -
  let ?n = "page_count (page_list m ! ti)"
  note own = extendedD(1) [OF ex] and keep = extendedD(2) [OF ex] and bs = extendedD(7) [OF ex]
  have new: "page_at m' (a, ?n) = Some x" "isvalid x \<noteq> 1" "block_number x = int b"
    "addr x = UVM_BASEADDR + int ?n * int (page_size m)" using extendedD(3-6) [OF ex] by simp_all
  have lb: "length (blocks m') = length (blocks m)" by (simp add: bs)
  have pg: "bl_page (blocks m' ! c) \<noteq> None" if "bl_page (blocks m ! c) \<noteq> None" for c
    using that b bs by (cases "c = b") simp_all
  have alc: "bl_allocated (blocks m' ! c) = bl_allocated (blocks m ! c)" for c
    using b bs by (cases "c = b") simp_all
  note eqs = extendedD(12-19) [OF ex]
  have st: "stored m' = stored m" and fb: "frame_bytes m' = frame_bytes m"
    using alc eqs by (simp_all add: stored_def block_bytes_def zero_page_def frame_bytes_def fun_eq_iff)
  have "geometry m'" using pager_invD(1) [OF inv] eqs lb by (auto simp: geometry_def)
  moreover have "tables_ok m'" by (rule extendedD(8) [OF ex])
  moreover have "pages_ok {} m'"
    unfolding pages_ok_def own
  proof (intro allI impI)
    fix pid' q assume "owns m pid' q \<or> pid' = pid \<and> q = (a, ?n)"
    then show "\<exists>x. page_at m' q = Some x \<and> addr x = UVM_BASEADDR + int (snd q) * int (page_size m') \<and>
        0 \<le> block_number x \<and> block_number x < int (length (blocks m')) \<and>
        bl_page (blocks m' ! nat (block_number x)) \<noteq> None \<and>
        (isvalid x = 1 \<longrightarrow> in_frame {} m' pid' q x)"
    proof
      assume q: "owns m pid' q"
      from pager_invD(3) [OF inv] q obtain y where y: "page_at m q = Some y" by (auto elim: pages_okE)
      note d = pages_okD [OF inv q y]
      have "in_frame {} m' pid' q y" if "isvalid y = 1"
        using d(5) [OF that] eqs by (simp add: in_frame_def)
      with d(1-3) pg [OF d(4)] y keep [OF q] eqs lb show ?thesis by simp
    next
      assume "pid' = pid \<and> q = (a, ?n)"
      with new b bs eqs lb show ?thesis by simp
    qed
  qed
  moreover have "frames_ok {} m'"
    unfolding frames_ok_def eqs
  proof (intro allI impI)
    fix f assume "f < length (frames m)" "f \<notin> {} \<and> fr_pid (frames m ! f) \<noteq> INVALID_PID"
    then obtain q y where q: "fr_page (frames m ! f) = Some q" "owns m (fr_pid (frames m ! f)) q"
      "page_at m q = Some y" "isvalid y = 1" "frame_number y = int f"
      by (auto elim: frames_okE [OF inv])
    with keep [OF q(2)] own show "\<exists>p x. fr_page (frames m ! f) = Some p \<and>
        owns m' (fr_pid (frames m ! f)) p \<and> page_at m' p = Some x \<and> isvalid x = 1 \<and>
        frame_number x = int f" by auto
  qed
  moreover have no_b: "block_number y \<noteq> int b" if "owns m pid' q" "page_at m q = Some y" for pid' q y
    using pages_okD(4) [OF inv that] b(2) by auto
  have "blocks_apart m'"
    unfolding blocks_apart_def own
  proof (intro allI impI)
    fix pid1 p1 y1 pid2 p2 y2
    assume h: "(owns m pid1 p1 \<or> pid1 = pid \<and> p1 = (a, ?n)) \<and> (owns m pid2 p2 \<or> pid2 = pid \<and> p2 = (a, ?n)) \<and>
      page_at m' p1 = Some y1 \<and> page_at m' p2 = Some y2 \<and> block_number y1 = block_number y2"
    then consider "owns m pid1 p1" "owns m pid2 p2" | "owns m pid1 p1" "p2 = (a, ?n)"
      | "p1 = (a, ?n)" "owns m pid2 p2" | "p1 = (a, ?n)" "p2 = (a, ?n)" by blast
    then show "p1 = p2"
    proof cases
      case 1
      with h keep have "page_at m p1 = Some y1" "page_at m p2 = Some y2" by metis+
      with 1 h blocks_apartD [OF inv] show ?thesis by blast
    next
      case 2
      with h keep have "page_at m p1 = Some y1" by metis
      with no_b [OF 2(1)] 2 h new show ?thesis by simp
    next
      case 3
      with h keep have "page_at m p2 = Some y2" by metis
      with no_b [OF 3(2)] 3 h new show ?thesis by simp
    qed simp
  qed
  moreover have "maps_ok m'"
    unfolding maps_ok_def own
  proof (intro allI impI)
    fix pid' q y assume h: "(owns m pid' q \<or> pid' = pid \<and> q = (a, ?n)) \<and> page_at m' q = Some y"
    show "map_ok m' y (mappings m' pid' (addr y))"
    proof (cases "owns m pid' q")
      case True
      with h keep have "page_at m q = Some y" by metis
      with maps_okD [OF inv True] map_ok_cong [OF eqs(1)] eqs(3) show ?thesis by simp
    next
      case False
      with h new(1) have "pid' = pid" "y = x" by auto
      moreover have "mappings m pid (addr x) = None" using um new(4) by (simp add: unmapped_above_def)
      ultimately show ?thesis using new(2) eqs(3) by (simp add: map_ok_def)
    qed
  qed
  moreover have "clean_ok m'"
    unfolding clean_ok_def own st fb
  proof (intro allI impI)
    fix pid' q y assume h: "(owns m pid' q \<or> pid' = pid \<and> q = (a, ?n)) \<and> page_at m' q = Some y \<and>
      isvalid y = 1 \<and> is_allocated y \<noteq> 1"
    then have q: "owns m pid' q" using new by auto
    with h keep have "page_at m q = Some y" by metis
    with clean_okD [OF inv q] h show "frame_bytes m (frame_number y) = stored m (block_number y)" by blast
  qed
  ultimately show "pager_inv {} m'" by (simp add: pager_inv_def)
  show "content m' q = content m q" if "owns m pid' q"
    using keep [OF that] by (simp add: content_def page_bytes_def st fb split: option.split)
  show "content m' (a, ?n) = stored m (int b)"
    using new by (simp add: content_def page_bytes_def st)
qed

lemma find_free_block_cases:
  assumes "nblocks m = length (blocks m)"
  obtains (free) b where "find_free_block m = int b" and "b < length (blocks m)"
      and "bl_page (blocks m ! b) = None" and "\<forall>c < b. bl_page (blocks m ! c) \<noteq> None"
  | (full) "find_free_block m = INVALID_PID" and "\<forall>b \<in> set (blocks m). bl_page b \<noteq> None"
proof (cases "find_index (\<lambda>b. bl_page b = None) (blocks m)")
  case None
  then have "\<forall>b \<in> set (blocks m). bl_page b \<noteq> None" by (simp only: find_index_None)
  moreover have "find_free_block m = INVALID_PID"
    using None assms by (simp only: find_free_block_def take_all order_refl option.case)
  ultimately show thesis by (intro full)
next
  case (Some b)
  then have "find_free_block m = int b"
    using assms by (simp only: find_free_block_def take_all order_refl option.case)
  with Some [unfolded find_index_Some] show thesis using free by blast
qed

lemma pager_extend_full:
  assumes "\<not> mutex m" and "find_free_block m = INVALID_PID"
  shows "pager_extend memory pid m = Inr (None, m)"
proof -
  have "find_free_block (m\<lparr>mutex := True\<rparr>) = INVALID_PID" using assms(2) by (simp add: find_free_block_def)
  moreover have "m\<lparr>mutex := False\<rparr> = m" using assms(1) by simp
  ultimately show ?thesis using assms by (simp add: pager_extend_def lock_def unlock_def Let_def)
qed

section \<open>The end of a process\<close>

lemma tables_ok_shrink:
  assumes t: "tables_ok m" and ti: "ti < length (page_list m)"
    and n: "n < page_count (page_list m ! ti)"
    and pl: "page_list m' = (page_list m)[ti := (page_list m ! ti)\<lparr>page_count := n\<rparr>]"
    and ar: "page_arrays m' = page_arrays m"
  shows "tables_ok m'"
proof -
  have nth: "page_list m' ! j = (if j = ti then (page_list m ! ti)\<lparr>page_count := n\<rparr> else page_list m ! j)"
    if "j < length (page_list m)" for j using that pl by simp
  have len: "length (page_list m') = length (page_list m)" by (simp add: pl)
  have old: "pt_pid (page_list m' ! j) = pt_pid (page_list m ! j)"
    "pt_pages (page_list m' ! j) = pt_pages (page_list m ! j)"
    "page_capacity (page_list m' ! j) = page_capacity (page_list m ! j)"
    "page_count (page_list m' ! j) \<le> page_count (page_list m ! j)"
    if "j < length (page_list m)" for j
    using nth [OF that] n by (simp_all split: if_split)
  have "map pt_pid (page_list m') = map pt_pid (page_list m)"
    by (rule nth_equalityI) (use len old(1) in simp_all)
  then have "distinct (map pt_pid (page_list m'))" using t by (simp add: tables_ok_def)
  moreover have "pt_pid u \<noteq> INVALID_PID \<and> (0 < page_count u \<longrightarrow> (\<exists>a ar. pt_pages u = Some a \<and>
      page_arrays m' a = Some ar \<and> page_count u \<le> length ar \<and> length ar = page_capacity u))"
    if u: "u \<in> set (page_list m')" for u
  proof -
    from u obtain j where j: "j < length (page_list m)" "u = page_list m' ! j"
      by (auto simp: in_set_conv_nth len)
    note o = old [OF j(1), folded j(2)]
    have tj: "page_list m ! j \<in> set (page_list m)" using j by simp
    show ?thesis
    proof (intro conjI impI)
      show "pt_pid u \<noteq> INVALID_PID" using t tj o(1) by (simp add: tables_ok_def)
      assume "0 < page_count u"
      then have "0 < page_count (page_list m ! j)" using o(4) by simp
      with t tj obtain a ar where "pt_pages (page_list m ! j) = Some a" "page_arrays m a = Some ar"
        "page_count (page_list m ! j) \<le> length ar" "length ar = page_capacity (page_list m ! j)"
        unfolding tables_ok_def by blast
      with o ar show "\<exists>a ar. pt_pages u = Some a \<and> page_arrays m' a = Some ar \<and>
          page_count u \<le> length ar \<and> length ar = page_capacity u" by simp
    qed
  qed
  moreover have "u = w" if u: "u \<in> set (page_list m')" "w \<in> set (page_list m')"
    "0 < page_count u" "0 < page_count w" "pt_pages u = pt_pages w" for u w
  proof -
    from u(1,2) obtain j k where j: "j < length (page_list m)" "u = page_list m' ! j"
      and k: "k < length (page_list m)" "w = page_list m' ! k" by (auto simp: in_set_conv_nth len)
    note oj = old [OF j(1), folded j(2)] and ok = old [OF k(1), folded k(2)]
    have "page_list m ! j \<in> set (page_list m)" "page_list m ! k \<in> set (page_list m)" using j k by simp_all
    moreover have "0 < page_count (page_list m ! j)" "0 < page_count (page_list m ! k)"
      using oj(4) ok(4) u(3,4) by simp_all
    moreover have "pt_pages (page_list m ! j) = pt_pages (page_list m ! k)" using oj(2) ok(2) u(5) by simp
    ultimately have "page_list m ! j = page_list m ! k" using t unfolding tables_ok_def by blast
    then have "j = k" using other_table(1) [OF t j(1) k(1)] by blast
    with j k show ?thesis by simp
  qed
  ultimately show ?thesis by (auto simp: tables_ok_def)
qed

text \<open>\<open>released m m' pid ti a x n\<close>: the last page, entry \<open>x\<close> at index \<open>n\<close>, has been given back.\<close>

definition released :: "machine \<Rightarrow> machine \<Rightarrow> nat \<Rightarrow> nat \<Rightarrow> page_t \<Rightarrow> bool" where
  "released m m' ti n x \<longleftrightarrow> m' = m\<lparr>
     page_list := (page_list m)[ti := (page_list m ! ti)\<lparr>page_count := n\<rparr>],
     blocks := (blocks m)[nat (block_number x) := (blocks m ! nat (block_number x))\<lparr>bl_page := None\<rparr>],
     frames := (if isvalid x = 1 then (frames m)[nat (frame_number x) :=
       (frames m ! nat (frame_number x))\<lparr>fr_pid := INVALID_PID\<rparr>] else frames m)\<rparr>"

lemma release_inv:
  assumes inv: "pager_inv {} m" and ti: "ti < length (page_list m)"
    and n: "page_count (page_list m ! ti) = Suc n" and a: "pt_pages (page_list m ! ti) = Some a"
    and x: "page_at m (a, n) = Some x" and rel: "released m m' ti n x"
  shows "pager_inv {} m'" and "owns m' pid' q \<longleftrightarrow> owns m pid' q \<and> q \<noteq> (a, n)"
    and "owns m' pid' q \<Longrightarrow> content m' q = content m q"
proof -
  let ?pid = "pt_pid (page_list m ! ti)"
  have me: "owns m ?pid (a, n)" using ti n a by (auto simp: owns_nth)
  note dx = pages_okD [OF inv me x]
  have fx: "0 \<le> frame_number x" "frame_number x < int (length (frames m))" if "isvalid x = 1"
    using dx(5) [OF that] by (simp_all add: in_frame_def)
  note m' = rel [unfolded released_def]
  have eqs: "page_size m' = page_size m" "mappings m' = mappings m" "pmem m' = pmem m"
    "disk m' = disk m" "fl_size m' = fl_size m" "nblocks m' = nblocks m"
    "second_chance_index m' = second_chance_index m" "page_at m' = page_at m"
    "length (frames m') = length (frames m)" "length (blocks m') = length (blocks m)"
    unfolding m' by simp_all
  have t: "tables_ok m'"
    by (rule tables_ok_shrink [OF pager_invD(2) [OF inv] ti, of n]) (simp_all add: n m')
  have own: "owns m' pid' q \<longleftrightarrow> owns m pid' q \<and> q \<noteq> (a, n)" for pid' q
  proof -
    let ?others = "\<exists>j < length (page_list m). j \<noteq> ti \<and> pt_pid (page_list m ! j) = pid' \<and>
        pt_pages (page_list m ! j) = Some (fst q) \<and> snd q < page_count (page_list m ! j)"
    have o1: "owns m' pid' q \<longleftrightarrow> ?others \<or> pid' = ?pid \<and> a = fst q \<and> snd q < n"
      using owns_split [of ti m' pid' q] ti a by (simp add: m' cong: conj_cong)
    have o2: "owns m pid' q \<longleftrightarrow> ?others \<or> pid' = ?pid \<and> a = fst q \<and> snd q < Suc n"
      using owns_split [OF ti, of pid' q] a n by simp
    have "fst q \<noteq> a" if "?others"
    proof
      assume f: "fst q = a"
      from that obtain j where j: "j < length (page_list m)" "j \<noteq> ti"
        "pt_pages (page_list m ! j) = Some a" "0 < page_count (page_list m ! j)" using f by auto
      then have "page_list m ! j = page_list m ! ti"
        using pager_invD(2) [OF inv] ti n a unfolding tables_ok_def by (metis nth_mem zero_less_Suc)
      with other_table(1) [OF pager_invD(2) [OF inv] j(1) ti j(2)] show False by blast
    qed
    then show ?thesis unfolding o1 o2 by (cases q) auto
  qed
  have "nat (block_number x) < length (blocks m)" using dx(2,3) by simp
  then have "bl_allocated (blocks m' ! c) = bl_allocated (blocks m ! c)" for c
    by (cases "c = nat (block_number x)") (simp_all add: m')
  then have st: "stored m' b = stored m b" for b
    using eqs by (simp add: stored_def block_bytes_def zero_page_def)
  have fb: "frame_bytes m' = frame_bytes m" by (simp add: frame_bytes_def fun_eq_iff eqs)
  show "content m' q = content m q" if "owns m' pid' q"
    by (simp add: content_def page_bytes_def st fb eqs split: option.split)
  have g: "geometry m'" using pager_invD(1) [OF inv] eqs by (auto simp: geometry_def)
  have fr: "frames m' ! f = frames m ! f" if "isvalid x = 1 \<Longrightarrow> f \<noteq> nat (frame_number x)" for f
    using that by (auto simp: m')
  have pg: "pages_ok {} m'"
    unfolding pages_ok_def own
  proof (intro allI impI)
    fix pid' q assume q: "owns m pid' q \<and> q \<noteq> (a, n)"
    from pager_invD(3) [OF inv] q obtain y where y: "page_at m q = Some y" by (auto elim: pages_okE)
    have oq: "owns m pid' q" using q by blast
    note d = pages_okD [OF inv oq y]
    have "block_number y \<noteq> block_number x" using blocks_apartD [OF inv oq me y x] q by blast
    then have "nat (block_number y) \<noteq> nat (block_number x)" using d(2) dx(2) by simp
    then have "bl_page (blocks m' ! nat (block_number y)) \<noteq> None" using d(4) by (simp add: m')
    moreover have "in_frame {} m' pid' q y" if v: "isvalid y = 1"
    proof -
      have "nat (frame_number y) \<noteq> nat (frame_number x)" if "isvalid x = 1"
      proof -
        have "frame_number y \<noteq> frame_number x" using frames_apart [OF inv oq me y x v that] q by blast
        moreover have "0 \<le> frame_number y" using d(5) [OF v] by (simp add: in_frame_def)
        ultimately show ?thesis using fx(1) [OF that] by (simp add: eq_nat_nat_iff)
      qed
      with fr [of "nat (frame_number y)"] d(5) [OF v] eqs show ?thesis by (simp add: in_frame_def)
    qed
    ultimately show "\<exists>x. page_at m' q = Some x \<and>
        addr x = UVM_BASEADDR + int (snd q) * int (page_size m') \<and>
        0 \<le> block_number x \<and> block_number x < int (length (blocks m')) \<and>
        bl_page (blocks m' ! nat (block_number x)) \<noteq> None \<and>
        (isvalid x = 1 \<longrightarrow> in_frame {} m' pid' q x)" using d y eqs by simp
  qed
  have fo: "frames_ok {} m'"
    unfolding frames_ok_def own eqs
  proof (intro allI impI)
    fix f assume f: "f < length (frames m)" "f \<notin> {} \<and> fr_pid (frames m' ! f) \<noteq> INVALID_PID"
    have nf: "f \<noteq> nat (frame_number x)" if "isvalid x = 1"
      using f that by (auto simp: m')
    then have same: "frames m' ! f = frames m ! f" using fr by blast
    then obtain q y where q: "fr_page (frames m ! f) = Some q" "owns m (fr_pid (frames m ! f)) q"
      "page_at m q = Some y" "isvalid y = 1" "frame_number y = int f"
      using f by (auto elim: frames_okE [OF inv])
    then have "q \<noteq> (a, n)" using nf x by auto
    with q same show "\<exists>p y. fr_page (frames m' ! f) = Some p \<and>
        (owns m (fr_pid (frames m' ! f)) p \<and> p \<noteq> (a, n)) \<and>
        page_at m p = Some y \<and> isvalid y = 1 \<and> frame_number y = int f" by auto
  qed
  have "blocks_apart m'" using pager_invD(5) [OF inv] unfolding blocks_apart_def own eqs by blast
  moreover have "maps_ok m'"
    using pager_invD(6) [OF inv] unfolding maps_ok_def own eqs map_ok_cong [OF eqs(1)] by blast
  moreover have "clean_ok m'"
    using pager_invD(7) [OF inv] unfolding clean_ok_def own eqs st fb by blast
  ultimately show "pager_inv {} m'" using g t pg fo by (simp add: pager_inv_def)
  show "owns m' pid' q \<longleftrightarrow> owns m pid' q \<and> q \<noteq> (a, n)" by (rule own)
qed

text \<open>What the end of a process does not touch.\<close>

definition untouched :: "machine \<Rightarrow> machine \<Rightarrow> bool" where
  "untouched m m' \<longleftrightarrow> pmem m' = pmem m \<and> disk m' = disk m \<and> mappings m' = mappings m \<and>
     trace m' = trace m \<and> page_size m' = page_size m \<and> mutex m' = mutex m \<and>
     id2pid m' = id2pid m \<and> sock2client m' = sock2client m \<and> nextid m' = nextid m \<and>
     length (page_list m') = length (page_list m) \<and>
     map bl_allocated (blocks m') = map bl_allocated (blocks m)"

lemma untouched_trans: "untouched m1 m2 \<Longrightarrow> untouched m2 m3 \<Longrightarrow> untouched m1 m3"
  by (simp add: untouched_def)

lemma released_untouched:
  assumes "released m m' ti n x"
  shows "untouched m m'"
proof -
  have "map bl_allocated ((blocks m)[k := (blocks m ! k)\<lparr>bl_page := None\<rparr>]) = map bl_allocated (blocks m)" for k
    by (rule nth_equalityI) (simp, metis length_list_update length_map nth_list_update_eq
        nth_list_update_neq nth_map blocks_t.select_convs(1) blocks_t.surjective blocks_t.update_convs(2))
  with assms show ?thesis by (simp add: untouched_def released_def)
qed

text \<open>\<open>frees m m' pid\<close>: what backed the pages of \<open>pid\<close> in \<open>m\<close> is free in \<open>m'\<close>.\<close>

definition still_free :: "machine \<Rightarrow> machine \<Rightarrow> bool" where
  "still_free m m' \<longleftrightarrow>
     (\<forall>b. bl_page (blocks m ! b) = None \<longrightarrow> bl_page (blocks m' ! b) = None) \<and>
     (\<forall>f. fr_pid (frames m ! f) = INVALID_PID \<longrightarrow> fr_pid (frames m' ! f) = INVALID_PID)"

definition frees :: "machine \<Rightarrow> machine \<Rightarrow> int \<Rightarrow> bool" where
  "frees m m' pid \<longleftrightarrow> (\<forall>q x. owns m pid q \<and> page_at m q = Some x \<longrightarrow>
     bl_page (blocks m' ! nat (block_number x)) = None \<and>
     (isvalid x = 1 \<longrightarrow> fr_pid (frames m' ! nat (frame_number x)) = INVALID_PID))"

lemma freesI:
  assumes "still_free m1 m'" and "frees m1 m' pid" and "page_at m1 = page_at m"
    and "\<And>q. owns m pid q \<Longrightarrow> owns m1 pid q \<or> q = p"
    and "page_at m p = Some x" and "bl_page (blocks m1 ! nat (block_number x)) = None"
    and "isvalid x = 1 \<Longrightarrow> fr_pid (frames m1 ! nat (frame_number x)) = INVALID_PID"
  shows "frees m m' pid"
  unfolding frees_def
proof (intro allI impI, elim conjE)
  fix q y assume q: "owns m pid q" "page_at m q = Some y"
  from assms(4) [OF q(1)]
  show "bl_page (blocks m' ! nat (block_number y)) = None \<and>
      (isvalid y = 1 \<longrightarrow> fr_pid (frames m' ! nat (frame_number y)) = INVALID_PID)"
  proof
    assume "owns m1 pid q"
    with assms(2,3) q(2) show ?thesis unfolding frees_def by metis
  next
    assume "q = p"
    with q(2) assms(5) have "y = x" by simp
    with assms(1,6,7) show ?thesis unfolding still_free_def by simp
  qed
qed

lemma free_page_loop_ok:
  assumes "pager_inv {} m" and "ti < length (page_list m)"
    and "page_count (page_list m ! ti) = n" and "pt_pages (page_list m ! ti) = Some a"
    and "pt_pid (page_list m ! ti) = pid"
  shows "\<exists>m'. free_page_loop ti n m = Inr m' \<and> pager_inv {} m' \<and> untouched m m' \<and>
    page_arrays m' = page_arrays m \<and> still_free m m' \<and> frees m m' pid \<and>
    page_list m' = (page_list m)[ti := (page_list m ! ti)\<lparr>page_count := 0\<rparr>] \<and>
    (\<forall>pid' q. owns m' pid' q \<longleftrightarrow> owns m pid' q \<and> pid' \<noteq> pid) \<and>
    (\<forall>pid' q. owns m' pid' q \<longrightarrow> content m' q = content m q)"
  using assms
proof (induction n arbitrary: m)
  case 0
  have "(page_list m)[ti := (page_list m ! ti)\<lparr>page_count := 0\<rparr>] = page_list m"
    using 0 by (simp add: list_update_same_conv)
  moreover have "\<not> owns m pid q" for q
  proof
    assume "owns m pid q"
    then obtain j where j: "j < length (page_list m)" "pt_pid (page_list m ! j) = pid"
      "snd q < page_count (page_list m ! j)" by (auto simp: owns_nth)
    with 0 have "j \<noteq> ti" by auto
    with other_table(2) [OF pager_invD(2) [OF 0(1)] j(1) 0(2)] j 0 show False by simp
  qed
  then have no: "owns m pid' q \<longleftrightarrow> owns m pid' q \<and> pid' \<noteq> pid" for pid' q by blast
  then have "frees m m pid" unfolding frees_def by blast
  with no calculation show ?case using 0
    by (intro exI [of _ m]) (simp add: untouched_def still_free_def)
next
  case (Suc n)
  note inv = Suc.prems(1) and ti = Suc.prems(2)
  have me: "owns m pid (a, n)" using Suc.prems by (auto simp: owns_nth)
  from pager_invD(3) [OF inv] me obtain x where x: "page_at m (a, n) = Some x" by (auto elim: pages_okE)
  note d = pages_okD [OF inv me x]
  have fx: "0 \<le> frame_number x" "frame_number x < int (length (frames m))" if "isvalid x = 1"
    using d(5) [OF that] by (simp_all add: in_frame_def)
  let ?m1 = "m\<lparr>page_list := (page_list m)[ti := (page_list m ! ti)\<lparr>page_count := n\<rparr>],
     blocks := (blocks m)[nat (block_number x) := (blocks m ! nat (block_number x))\<lparr>bl_page := None\<rparr>],
     frames := (if isvalid x = 1 then (frames m)[nat (frame_number x) :=
       (frames m ! nat (frame_number x))\<lparr>fr_pid := INVALID_PID\<rparr>] else frames m)\<rparr>"
  have rel: "released m ?m1 ti n x" by (simp add: released_def)
  have step: "free_page_loop ti (Suc n) m = free_page_loop ti n ?m1"
    using ti Suc.prems(4) x d(2,3) fx by (simp add: store_table_def free_page_def)
  note r = release_inv [OF inv ti Suc.prems(3,4) x rel]
  have t1: "ti < length (page_list ?m1)" "page_count (page_list ?m1 ! ti) = n"
    "pt_pages (page_list ?m1 ! ti) = Some a" "pt_pid (page_list ?m1 ! ti) = pid"
    using ti Suc.prems by simp_all
  from Suc.IH [OF r(1) t1] obtain m' where m': "free_page_loop ti n ?m1 = Inr m'" "pager_inv {} m'"
    "untouched ?m1 m'" "page_arrays m' = page_arrays ?m1" "still_free ?m1 m'" "frees ?m1 m' pid"
    "page_list m' = (page_list ?m1)[ti := (page_list ?m1 ! ti)\<lparr>page_count := 0\<rparr>]"
    "\<forall>pid' q. owns m' pid' q \<longleftrightarrow> owns ?m1 pid' q \<and> pid' \<noteq> pid"
    "\<forall>pid' q. owns m' pid' q \<longrightarrow> content m' q = content ?m1 q" by blast
  have "owns m' pid' q \<longleftrightarrow> owns m pid' q \<and> pid' \<noteq> pid" for pid' q
    using m'(8) r(2) owner_unique [OF pager_invD(2) [OF inv] me] by metis
  moreover have "content m' q = content m q" if "owns m' pid' q" for pid' q
    using m'(8,9) r(3) that by metis
  moreover have "untouched m m'" by (rule untouched_trans [OF released_untouched [OF rel] m'(3)])
  moreover have "page_list m' = (page_list m)[ti := (page_list m ! ti)\<lparr>page_count := 0\<rparr>]"
    using m'(7) ti by simp
  moreover have "page_arrays m' = page_arrays m" using m'(4) by simp
  moreover have "still_free m m'"
  proof -
    have "still_free m ?m1" 
      by (auto simp: still_free_def intro: update_pred [where P = "\<lambda>b. bl_page b = None"]
          update_pred [where P = "\<lambda>f. fr_pid f = INVALID_PID"])
    with m'(5) show ?thesis unfolding still_free_def by blast
  qed
  moreover have "frees m m' pid"
  proof (rule freesI [OF m'(5,6) _ _ x])
    show "page_at ?m1 = page_at m" by (simp add: page_at_def fun_eq_iff)
    show "owns ?m1 pid q \<or> q = (a, n)" if "owns m pid q" for q using r(2) that by blast
    show "bl_page (blocks ?m1 ! nat (block_number x)) = None" using d(2,3) by simp
    show "fr_pid (frames ?m1 ! nat (frame_number x)) = INVALID_PID" if "isvalid x = 1"
      using fx that by simp
  qed
  ultimately show ?case using step m'(1,2) by metis
qed

lemma pager_destroy_ok:
  assumes inv: "pager_inv {} m" and mx: "\<not> mutex m" and al: "alive m pid ti"
  shows "\<exists>m'. pager_destroy pid m = Inr m' \<and> pager_inv {} m' \<and> untouched m m' \<and> frees m m' pid \<and>
    still_free m m' \<and>
    page_list m' = (page_list m)[ti := (page_list m ! ti)\<lparr>page_count := 0\<rparr>] \<and>
    page_arrays m' = (page_arrays m)(the (pt_pages (page_list m ! ti)) := None) \<and>
    (\<forall>pid' q. owns m' pid' q \<longleftrightarrow> owns m pid' q \<and> pid' \<noteq> pid) \<and>
    (\<forall>pid' q. owns m' pid' q \<longrightarrow> content m' q = content m q)"
proof -
  let ?m0 = "m\<lparr>mutex := True\<rparr>"
  obtain a ar where a: "ti < length (page_list m)" "pt_pid (page_list m ! ti) = pid"
    "pt_pages (page_list m ! ti) = Some a" "page_arrays m a = Some ar"
    "\<forall>t \<in> set (page_list m). t \<noteq> page_list m ! ti \<and> 0 < page_count t \<longrightarrow> pt_pages t \<noteq> Some a"
    using al by (auto simp: alive_def)
  have "pager_inv {} ?m0" "ti < length (page_list ?m0)" "pt_pages (page_list ?m0 ! ti) = Some a"
    "pt_pid (page_list ?m0 ! ti) = pid" using inv a by simp_all
  from free_page_loop_ok [OF this(1,2) refl this(3,4)] obtain m1 where m1:
    "free_page_loop ti (page_count (page_list ?m0 ! ti)) ?m0 = Inr m1" "pager_inv {} m1"
    "untouched ?m0 m1" "page_arrays m1 = page_arrays ?m0" "frees ?m0 m1 pid" "still_free ?m0 m1"
    "page_list m1 = (page_list ?m0)[ti := (page_list ?m0 ! ti)\<lparr>page_count := 0\<rparr>]"
    "\<forall>pid' q. owns m1 pid' q \<longleftrightarrow> owns ?m0 pid' q \<and> pid' \<noteq> pid"
    "\<forall>pid' q. owns m1 pid' q \<longrightarrow> content m1 q = content ?m0 q" by blast
  let ?m2 = "m1\<lparr>page_arrays := (page_arrays m1)(a := None), mutex := False\<rparr>"
  have "find_page_table pid ?m0 = Inr ti"
    using find_table_alive [OF pager_invD(2) [OF inv] al] by (simp add: find_page_table_def)
  then have d: "pager_destroy pid m = Inr ?m2"
    using mx m1(1,4,7) a by (simp add: pager_destroy_def free_page_list_def free_array_def lock_def unlock_def)
  have ow: "owns ?m2 = owns m1" by (rule owns_cong) simp
  have na: "fst q \<noteq> a" if o: "owns m1 pid' q" for pid' q
  proof
    assume f: "fst q = a"
    from o m1(8) have "owns m pid' q" "pid' \<noteq> pid" by auto
    then obtain t where "t \<in> set (page_list m)" "pt_pid t = pid'" "pt_pages t = Some a" "0 < page_count t"
      using f by (auto simp: owns_def)
    with a(2,5) \<open>pid' \<noteq> pid\<close> show False by auto
  qed
  have t2: "tables_ok ?m2"
  proof -
    have "pt_pages t \<noteq> Some a" if "t \<in> set (page_list m1)" "0 < page_count t" for t
    proof
      assume "pt_pages t = Some a"
      with that have "owns m1 (pt_pid t) (a, 0)" by (auto simp: owns_def)
      with na show False by fastforce
    qed
    with pager_invD(2) [OF m1(2)] show ?thesis
      by (simp add: tables_ok_def) (metis option.inject)
  qed
  have pt: "page_at ?m2 q = page_at m1 q" if "owns m1 pid' q" for pid' q
    using na [OF that] by (simp add: page_at_def)
  have "pager_inv {} ?m2" by (rule pager_inv_cong(1) [OF m1(2) ow pt t2]) simp_all
  moreover have "content ?m2 q = content m q" if "owns m1 pid' q" for pid' q
  proof -
    have "content ?m2 q = content m1 q"
      by (rule pager_inv_cong(2) [OF m1(2) ow pt t2 _ _ _ _ _ _ _ _ _ that]) simp_all
    also have "\<dots> = content ?m0 q" using m1(9) that by blast
    also have "\<dots> = content m q" by simp
    finally show ?thesis .
  qed
  moreover have "untouched m ?m2" using m1(3) mx by (simp add: untouched_def)
  moreover have "frees m ?m2 pid" "still_free m ?m2" using m1(5,6) by (simp_all add: frees_def still_free_def)
  moreover have "page_list ?m2 = (page_list m)[ti := (page_list m ! ti)\<lparr>page_count := 0\<rparr>]"
    "page_arrays ?m2 = (page_arrays m)(the (pt_pages (page_list m ! ti)) := None)"
    using m1(4,7) a(3) by simp_all
  ultimately show ?thesis using d ow m1(8) by (intro exI [of _ ?m2]) simp
qed

end
