(* ===== verification/Proto.thy ===== *)
theory Proto
  imports Pager
begin

text \<open>
  The handlers of \<open>TP 2/src/mmu.c\<close> that serve one client message each, and the requests of
  \<open>TP 2/src/uvm.c\<close>.  A handler reads a message that has already been decoded (\<open>None\<close> when \<open>recv\<close> fails or
  returns too little) and returns the reply it sends.
\<close>

section \<open>Handlers of the MMU\<close>

text \<open>Sending a reply: the client is destroyed when the message does not get through.\<close>

definition send_reply ::
  "(nat \<Rightarrow> bool) \<Rightarrow> nat \<Rightarrow> mmu_client \<Rightarrow> message \<Rightarrow> machine \<Rightarrow> (message option \<times> machine) result" where
  "send_reply net sock c rep m =
     (if net sock then Inr (Some rep, m)
      else rbind (mmu_client_destroy sock c m) (\<lambda>m1. Inr (None, m1)))"

definition lost_client ::
  "nat \<Rightarrow> mmu_client \<Rightarrow> machine \<Rightarrow> (message option \<times> machine) result" where
  "lost_client sock c m = rbind (mmu_client_destroy sock c m) (\<lambda>m1. Inr (None, m1))"

text \<open>\<open>memory\<close> is the answer of the \<open>malloc\<close> in \<open>pager_create\<close>, \<open>path\<close> the file of \<open>pmem\<close>.\<close>

definition mmu_client_create ::
  "(nat \<Rightarrow> bool) \<Rightarrow> ptr \<Rightarrow> byte list \<Rightarrow> nat \<Rightarrow> mmu_client \<Rightarrow> message option \<Rightarrow> machine \<Rightarrow>
   (message option \<times> machine) result" where
  "mmu_client_create net memory path sock c req m =
     (case req of Some (Create_Req p) \<Rightarrow>
        let pid = sint p; c1 = c\<lparr>cl_pid := pid\<rparr>; i = unat (nextid m);
            m1 = m\<lparr>sock2client := (sock2client m)(sock \<mapsto> c1)\<rparr> in
        rbind (set_at (int i) (\<lambda>_. pid) (id2pid m1)) (\<lambda>ids.
        let m2 = emit (Pager_Create (int i)) (m1\<lparr>id2pid := ids, nextid := nextid m1 + 1\<rparr>) in
        rbind (pager_create memory pid m2) (\<lambda>m3.
        send_reply net sock c1 (Create_Rep (take MMU_PROTO_PATH_MAX
          (path @ replicate MMU_PROTO_PATH_MAX 0))) m3))
      | Some _ \<Rightarrow> Inl Assert_Failed
      | None \<Rightarrow> lost_client sock c m)"

definition mmu_client_extend ::
  "(nat \<Rightarrow> bool) \<Rightarrow> (nat \<times> page_t list) option \<Rightarrow> nat \<Rightarrow> mmu_client \<Rightarrow> message option \<Rightarrow> machine \<Rightarrow>
   (message option \<times> machine) result" where
  "mmu_client_extend net memory sock c req m =
     (case req of Some Extend_Req \<Rightarrow>
        rbind (get_pid_id (cl_pid c) m) (\<lambda>i.
        rbind (pager_extend memory (cl_pid c) m) (\<lambda>(va, m1).
        let vaddr = (case va of None \<Rightarrow> 0 | Some v \<Rightarrow> v);
            m2 = emit (Pager_Extend (int i) vaddr) m1 in
        send_reply net sock c (Extend_Rep (word_of_int vaddr)) m2))
      | Some _ \<Rightarrow> Inl Assert_Failed
      | None \<Rightarrow> lost_client sock c m)"

definition mmu_client_syslog ::
  "(nat \<Rightarrow> bool) \<Rightarrow> nat \<Rightarrow> mmu_client \<Rightarrow> message option \<Rightarrow> machine \<Rightarrow>
   (message option \<times> machine) result" where
  "mmu_client_syslog net sock c req m =
     (case req of Some (Syslog_Req len va) \<Rightarrow>
        rbind (check (va \<noteq> - 1) Assert_Failed) (\<lambda>_.
        rbind (get_pid_id (cl_pid c) m) (\<lambda>i.
        let m1 = emit (Pager_Syslog (int i) (uint va)) m in
        rbind (pager_syslog (cl_pid c) (sint va) (unat len) m1) (\<lambda>(status, m2).
        send_reply net sock c (Syslog_Rep (word_of_int status)) m2)))
      | Some _ \<Rightarrow> Inl Assert_Failed
      | None \<Rightarrow> lost_client sock c m)"

definition mmu_client_segv ::
  "(nat \<Rightarrow> bool) \<Rightarrow> nat \<Rightarrow> mmu_client \<Rightarrow> message option \<Rightarrow> machine \<Rightarrow>
   (message option \<times> machine) result" where
  "mmu_client_segv net sock c req m =
     (case req of Some (Segv_Req code va) \<Rightarrow>
        rbind (check (va \<noteq> - 1) Assert_Failed) (\<lambda>_.
        rbind (get_pid_id (cl_pid c) m) (\<lambda>i.
        let m1 = emit (Pager_Fault (int i) (uint va)) m in
        rbind (pager_fault net (cl_pid c) (sint va) m1) (\<lambda>m2.
        send_reply net sock c Segv_Rep m2)))
      | Some _ \<Rightarrow> Inl Assert_Failed
      | None \<Rightarrow> lost_client sock c m)"

text \<open>The reply to \<open>EXIT_REQ\<close> is sent without looking at the result.\<close>

definition mmu_client_exit ::
  "(nat \<Rightarrow> bool) \<Rightarrow> nat \<Rightarrow> mmu_client \<Rightarrow> message option \<Rightarrow> machine \<Rightarrow>
   (message option \<times> machine) result" where
  "mmu_client_exit net sock c req m =
     (case req of Some Exit_Req \<Rightarrow>
        rbind (check (cl_pid c \<noteq> 0) Assert_Failed) (\<lambda>_.
        rbind (get_pid_id (cl_pid c) m) (\<lambda>i.
        rbind (pager_destroy (cl_pid c) (emit (Pager_Destroy (int i)) m)) (\<lambda>m1.
        Inr (if net sock then Some Exit_Rep else None,
             m1\<lparr>sock2client := (sock2client m1)(sock := None)\<rparr>))))
      | Some _ \<Rightarrow> Inl Assert_Failed
      | None \<Rightarrow> lost_client sock c m)"

text \<open>
  One turn of the loop of \<open>mmu_client_thread\<close> for the client of \<open>sock\<close>, which has a message at
  the front of \<open>input\<close>: the thread looks at its type and calls the handler, which reads it.
  \<open>REMAP_REQ\<close> and \<open>CHPROT_REQ\<close> stay in the stream.
\<close>

definition mmu_client_turn ::
  "(nat \<Rightarrow> bool) \<Rightarrow> ptr \<Rightarrow> (nat \<times> page_t list) option \<Rightarrow> byte list \<Rightarrow> nat \<Rightarrow> mmu_client \<Rightarrow> byte list \<Rightarrow>
   machine \<Rightarrow> (message option \<times> byte list \<times> machine) result" where
  "mmu_client_turn net memory pages path sock c input m =
     (case peek_type input of
        None \<Rightarrow> rbind (lost_client sock c m) (\<lambda>(r, m1). Inr (r, input, m1))
      | Some t \<Rightarrow>
          (let req = map_option fst (decode input);
               rest = (case decode input of None \<Rightarrow> [] | Some (_, rest) \<Rightarrow> rest);
               handled = (\<lambda>res. rbind res (\<lambda>(r, m1). Inr (r, rest, m1))) in
           if t = 1 then handled (mmu_client_create net memory path sock c req m)
           else if t = 3 then handled (mmu_client_extend net pages sock c req m)
           else if t = 5 then handled (mmu_client_syslog net sock c req m)
           else if t = 7 then handled (mmu_client_segv net sock c req m)
           else if t = 9 \<or> t = 11 then Inr (None, input, m)
           else if t = 32 then handled (mmu_client_exit net sock c req m)
           else rbind (lost_client sock c m) (\<lambda>(r, m1). Inr (r, input, m1))))"

section \<open>Requests of a client process\<close>

text \<open>A request that gets no answer leaves the caller waiting on the condition variable.\<close>

definition answer :: "message option \<Rightarrow> message result" where
  "answer r = (case r of None \<Rightarrow> Inl Diverges | Some rep \<Rightarrow> Inr rep)"

definition uvm_extend ::
  "(nat \<Rightarrow> bool) \<Rightarrow> (nat \<times> page_t list) option \<Rightarrow> mmu_client \<Rightarrow> uvm \<Rightarrow> machine \<Rightarrow>
   (int \<times> uvm \<times> machine) result" where
  "uvm_extend net pages c u m =
     rbind (mmu_client_extend net pages (uvm_sock u) c (Some Extend_Req) m) (\<lambda>(r, m1).
     rbind (answer r) (\<lambda>rep.
     rbind (uvm_proto_extend_rep rep u) (\<lambda>u1.
     let u2 = (if uvm_result u1 \<noteq> 0 then u1\<lparr>uvm_npages := uvm_npages u1 + 1\<rparr> else u1) in
     Inr (uvm_result u2, u2, m1))))"

definition EINVAL :: int where
  "EINVAL = 22"

text \<open>The result is the value returned and what \<open>errno\<close> was set to, if it was.\<close>

definition uvm_syslog ::
  "(nat \<Rightarrow> bool) \<Rightarrow> mmu_client \<Rightarrow> int \<Rightarrow> nat \<Rightarrow> uvm \<Rightarrow> machine \<Rightarrow>
   (int \<times> int option \<times> uvm \<times> machine) result" where
  "uvm_syslog net c va len u m =
     rbind (mmu_client_syslog net (uvm_sock u) c
              (Some (Syslog_Req (of_nat len) (word_of_int va))) m) (\<lambda>(r, m1).
     rbind (answer r) (\<lambda>rep.
     rbind (uvm_proto_syslog_rep rep u) (\<lambda>u1.
     Inr (sint (word_of_int (uvm_result u1) :: 32 word),
          if uvm_result u1 \<noteq> 0 then Some EINVAL else None, u1, m1))))"

text \<open>The handler of \<open>SIGSEGV\<close>: only faults in pages the process was given go to the MMU.\<close>

definition uvm_segv_action ::
  "(nat \<Rightarrow> bool) \<Rightarrow> mmu_client \<Rightarrow> int \<Rightarrow> 32 word \<Rightarrow> uvm \<Rightarrow> machine \<Rightarrow> (uvm \<times> machine) result" where
  "uvm_segv_action net c va code u m =
     (if va < UVM_BASEADDR \<or> va > UVM_MAXADDR then Inl (Exited EXIT_FAILURE)
      else if va \<ge> UVM_BASEADDR + int (uvm_npages u) * int (page_size m)
      then Inl (Exited EXIT_FAILURE)
      else
        rbind (mmu_client_segv net (uvm_sock u) c (Some (Segv_Req code (word_of_int va))) m) (\<lambda>(r, m1).
        rbind (answer r) (\<lambda>rep.
        rbind (uvm_proto_segv_rep rep u) (\<lambda>u1. Inr (u1, m1)))))"

section \<open>Memory accesses of a client\<close>

text \<open>
  The processor's part: an access to a mapped page with the right to do it reads or writes the
  frame, any other access raises \<open>SIGSEGV\<close> and is tried again after the handler returns.
  \<open>fuel\<close> bounds the number of tries.
\<close>

definition page_of :: "machine \<Rightarrow> int \<Rightarrow> int" where
  "page_of m va = va - va mod int (page_size m)"

fun load_byte :: "nat \<Rightarrow> (nat \<Rightarrow> bool) \<Rightarrow> mmu_client \<Rightarrow> int \<Rightarrow> uvm \<Rightarrow> machine \<Rightarrow> (byte \<times> machine) result" where
  "load_byte 0 net c va u m = Inl Diverges"
| "load_byte (Suc fuel) net c va u m =
     (case mappings m (uvm_pid u) (page_of m va) of
        Some (off, prot) \<Rightarrow>
          if prot \<noteq> PROT_NONE
          then rbind (at (pmem m) (int off + va mod int (page_size m))) (\<lambda>b. Inr (b, m))
          else rbind (uvm_segv_action net c va 2 u m) (\<lambda>(u1, m1). load_byte fuel net c va u1 m1)
      | None \<Rightarrow> rbind (uvm_segv_action net c va 1 u m) (\<lambda>(u1, m1). load_byte fuel net c va u1 m1))"

fun store_byte :: "nat \<Rightarrow> (nat \<Rightarrow> bool) \<Rightarrow> mmu_client \<Rightarrow> int \<Rightarrow> byte \<Rightarrow> uvm \<Rightarrow> machine \<Rightarrow> machine result" where
  "store_byte 0 net c va b u m = Inl Diverges"
| "store_byte (Suc fuel) net c va b u m =
     (case mappings m (uvm_pid u) (page_of m va) of
        Some (off, prot) \<Rightarrow>
          if prot = PROT_RW
          then rbind (set_at (int off + va mod int (page_size m)) (\<lambda>_. b) (pmem m)) (\<lambda>pm.
               Inr (m\<lparr>pmem := pm\<rparr>))
          else rbind (uvm_segv_action net c va 2 u m) (\<lambda>(u1, m1). store_byte fuel net c va b u1 m1)
      | None \<Rightarrow> rbind (uvm_segv_action net c va 1 u m) (\<lambda>(u1, m1). store_byte fuel net c va b u1 m1))"

end
