(* ===== verification/Client_Memory.thy ===== *)
theory Client_Memory
  imports Pager_Life Proto
begin

text \<open>
  What the processes see of the paging system: a byte that is loaded is the byte that was
  last stored at its address, however many pages compete for the frames.
\<close>

section \<open>Faults that come from a client\<close>

lemma emit_irrelevant [simp]:
  assumes "pager_inv {} m"
  shows "pager_inv {} (emit e m)" and "served_all net (emit e m) = served_all net m"
    and "owns (emit e m) = owns m" and "page_at (emit e m) = page_at m"
    and "owns m pid q \<Longrightarrow> content (emit e m) q = content m q"
proof -
  have ow: "owns (emit e m) = owns m" by (rule owns_cong) (simp add: emit_def)
  have sv: "served net (emit e m) = served net m" by (rule served_cong) (simp_all add: emit_def)
  have pt: "page_at (emit e m) = page_at m" by (simp add: emit_def)
  have t: "tables_ok (emit e m)" using pager_invD(2) [OF assms] by (simp add: tables_ok_def emit_def)
  show "owns (emit e m) = owns m" "page_at (emit e m) = page_at m" by (rule ow, rule pt)
  show "served_all net (emit e m) = served_all net m" by (simp add: served_all_def ow sv)
  show "pager_inv {} (emit e m)"
    by (rule pager_inv_cong(1) [OF assms ow _ t]) (simp_all add: pt, simp_all add: emit_def)
  show "content (emit e m) q = content m q" if "owns m pid q"
    by (rule pager_inv_cong(2) [OF assms ow _ t _ _ _ _ _ _ _ _ _ that])
      (simp_all add: pt, simp_all add: emit_def)
qed

lemma steady_emit [simp]: "steady (emit e m) m' = steady m m'" "steady m (emit e m') = steady m m'"
proof -
  have "has_address (emit e m) = has_address m" by (rule has_address_cong) (simp_all add: emit_def)
  then show "steady (emit e m) m' = steady m m'" "steady m (emit e m') = steady m m'"
    unfolding steady_def by (simp_all add: emit_def)
qed

text \<open>A process that the MMU serves, seen from both ends of its socket.\<close>

definition client_ok :: "(nat \<Rightarrow> bool) \<Rightarrow> mmu_client \<Rightarrow> uvm \<Rightarrow> machine \<Rightarrow> bool" where
  "client_ok net c u m \<longleftrightarrow> cl_pid c = uvm_pid u \<and> net (uvm_sock u) \<and>
     UVM_BASEADDR + int (uvm_npages u) * int (page_size m) \<le> UVM_MAXADDR + 1 \<and>
     (\<forall>i < uvm_npages u. \<exists>a. owns m (uvm_pid u) (a, i))"

definition system_ok :: "(nat \<Rightarrow> bool) \<Rightarrow> machine \<Rightarrow> bool" where
  "system_ok net m \<longleftrightarrow> pager_inv {} m \<and> served_all net m \<and> \<not> mutex m"

lemma word_address:
  assumes "UVM_BASEADDR \<le> va" and "va \<le> UVM_MAXADDR"
  shows "sint (word_of_int va :: 64 word) = va" and "(word_of_int va :: 64 word) \<noteq> - 1"
  using assms by (auto intro!: user_address_word simp: user_address_def UVM_BASEADDR_def UVM_MAXADDR_def)

lemma segv_ok:
  assumes sys: "system_ok net m" and cl: "client_ok net c u m"
    and p: "owns m (uvm_pid u) p" "snd p < uvm_npages u" and x: "page_at m p = Some x"
    and va: "va = addr x + r" "0 \<le> r" "r < int (page_size m)"
  shows "\<exists>m'. uvm_segv_action net c va code u m = Inr (u, m') \<and> system_ok net m' \<and>
    same_processes m m' \<and> mapped_page m' (uvm_pid u) p (if isvalid x = 1 then PROT_RW else PROT_READ)"
proof -
  have inv: "pager_inv {} m" and sv: "served_all net m" and mx: "\<not> mutex m"
    using sys by (simp_all add: system_ok_def)
  note ax = pages_okD(1) [OF inv p(1) x]
  have "int (Suc (snd p)) * int (page_size m) \<le> int (uvm_npages u) * int (page_size m)"
    using p(2) by (intro mult_right_mono) simp_all
  then have upper: "va < UVM_BASEADDR + int (uvm_npages u) * int (page_size m)"
    using va ax by (simp add: algebra_simps)
  have lower: "UVM_BASEADDR \<le> va" using va ax by simp
  have top: "va \<le> UVM_MAXADDR" using upper cl by (simp add: client_ok_def)
  have "served net m (uvm_pid u)" by (rule served_allD [OF sv p(1)])
  then have "find_index (\<lambda>q. q = uvm_pid u) (id2pid m) \<noteq> None"
    by (simp only: find_index_None served_def) blast
  then obtain i where "find_index (\<lambda>q. q = uvm_pid u) (id2pid m) = Some i" by blast
  then have i: "get_pid_id (uvm_pid u) m = Inr i"
    by (simp only: get_pid_id_def option.case)
  let ?e = "Pager_Fault (int i) (uint (word_of_int va :: 64 word))"
  let ?m1 = "emit ?e m"
  have inv1: "pager_inv {} ?m1" and sv1: "served_all net ?m1" and p1: "owns ?m1 (uvm_pid u) p"
    and x1: "page_at ?m1 p = Some x" using emit_irrelevant [OF inv] sv p x by simp_all
  have mx1: "\<not> mutex ?m1" and r1: "r < int (page_size ?m1)" using mx va by (simp_all add: emit_def)
  from pager_fault_ok [OF inv1 mx1 sv1 p1 x1 va(1,2) r1] obtain m' where
    m': "pager_fault net (uvm_pid u) va ?m1 = Inr m'" "pager_inv {} m'" "same_processes ?m1 m'"
      "mapped_page m' (uvm_pid u) p (if isvalid x = 1 then PROT_RW else PROT_READ)" by blast
  have "cl_pid c = uvm_pid u" "net (uvm_sock u)" using cl by (simp_all add: client_ok_def)
  then have "uvm_segv_action net c va code u m = Inr (u, m')"
    using lower top upper i m'(1) word_address [OF lower top]
    by (simp add: uvm_segv_action_def mmu_client_segv_def send_reply_def answer_def
        uvm_proto_segv_rep_def Let_def)
  moreover have same: "same_processes m m'"
    using m'(3) emit_irrelevant(3,5) [OF inv] unfolding same_processes_def steady_emit
    by (simp add: emit_def)
  moreover have "system_ok net m'"
  proof -
    have "owns m' = owns m" by (rule owns_cong) (use same in \<open>simp add: same_processes_def\<close>)
    moreover have "served net m' = served net m"
      by (rule served_cong) (use same in \<open>simp_all add: same_processes_def\<close>)
    ultimately show ?thesis
      using m'(2) sv mx same by (simp add: system_ok_def served_all_def same_processes_def)
  qed
  ultimately show ?thesis using m'(4) by blast
qed

section \<open>Loads and stores\<close>

lemma system_okD:
  assumes "system_ok net m"
  shows "pager_inv {} m" "served_all net m" "\<not> mutex m" "0 < page_size m"
    "UVM_BASEADDR mod int (page_size m) = 0"
  using assms pager_invD(1) [of "{}" m] by (auto simp: system_ok_def geometry_def)

lemma page_of_address:
  assumes "system_ok net m" and "owns m pid p" and "page_at m p = Some x"
    and "va = addr x + r" and "0 \<le> r" and "r < int (page_size m)"
  shows "page_of m va = addr x" and "va mod int (page_size m) = r"
proof -
  have "addr x mod int (page_size m) = 0"
    using pages_okD(1) [OF system_okD(1) [OF assms(1)] assms(2,3)] system_okD(5) [OF assms(1)]
    by simp
  then have "va mod int (page_size m) = r mod int (page_size m)"
    by (simp add: assms(4) mod_add_eq [of "addr x", symmetric])
  then show "va mod int (page_size m) = r" using assms(5,6) by simp
  then show "page_of m va = addr x" by (simp add: page_of_def assms(4))
qed

text \<open>A page that a client may use is in a frame, and the processor finds it there.\<close>

lemma usable_page:
  assumes "system_ok net m" and "owns m pid p" and "page_at m p = Some x"
    and "mappings m pid (addr x) = Some (off, prot)" and "prot \<noteq> PROT_NONE"
  shows "isvalid x = 1" and "off = nat (frame_number x) * page_size m" and "0 \<le> frame_number x"
    and "frame_number x < int (length (frames m))" and "has_frame m (frame_number x)"
    and "prot = PROT_RW \<Longrightarrow> is_allocated x = 1"
proof -
  note inv = system_okD(1) [OF assms(1)]
  from maps_okD [OF inv assms(2,3)] assms(4,5)
  show v: "isvalid x = 1" and "off = nat (frame_number x) * page_size m"
    and "prot = PROT_RW \<Longrightarrow> is_allocated x = 1"
    by (auto simp: map_ok_def split: if_splits)
  from pages_okD(5) [OF inv assms(2,3) v]
  show f: "0 \<le> frame_number x" "frame_number x < int (length (frames m))"
    by (simp_all add: in_frame_def)
  show "has_frame m (frame_number x)" by (rule geometry_frame [OF pager_invD(1) [OF inv] f])
qed

lemma content_in_frame:
  "page_at m p = Some x \<Longrightarrow> isvalid x = 1 \<Longrightarrow> content m p = frame_bytes m (frame_number x)"
  by (simp add: content_def page_bytes_def)

lemma load_hit:
  assumes sys: "system_ok net m" and p: "owns m (uvm_pid u) p" "page_at m p = Some x"
    and va: "va = addr x + r" "0 \<le> r" "r < int (page_size m)"
    and mp: "mappings m (uvm_pid u) (addr x) = Some (off, prot)" "prot \<noteq> PROT_NONE"
  shows "load_byte (Suc k) net c va u m = Inr (content m p ! nat r, m)"
proof -
  note us = usable_page [OF sys p mp]
  note pg = page_of_address [OF sys p va]
  have "off + page_size m \<le> length (pmem m)" using us(2,5) by (simp add: has_frame_def)
  moreover have "content m p ! nat r = pmem m ! (off + nat r)"
    using us(2) calculation va by (simp add: content_in_frame [OF p(2) us(1)] frame_bytes_def nth_chunk)
  ultimately show ?thesis using mp va pg by (simp add: at_def nat_add_distrib)
qed

lemma load_byte_ok:
  assumes sys: "system_ok net m" and cl: "client_ok net c u m"
    and p: "owns m (uvm_pid u) p" "snd p < uvm_npages u" and x: "page_at m p = Some x"
    and va: "va = addr x + r" "0 \<le> r" "r < int (page_size m)"
  shows "\<exists>m'. load_byte (Suc (Suc k)) net c va u m = Inr (content m p ! nat r, m') \<and>
    system_ok net m' \<and> same_processes m m' \<and> (\<exists>y. page_at m' p = Some y \<and> isvalid y = 1)"
proof (cases "\<exists>off prot. mappings m (uvm_pid u) (addr x) = Some (off, prot) \<and> prot \<noteq> PROT_NONE")
  case True
  then obtain off prot where mp: "mappings m (uvm_pid u) (addr x) = Some (off, prot)"
    "prot \<noteq> PROT_NONE" by blast
  from load_hit [OF sys p(1) x va mp] sys usable_page(1) [OF sys p(1) x mp] x
  show ?thesis by (simp add: same_processes_def)
next
  case False
  note pg = page_of_address [OF sys p(1) x va]
  have miss: "\<exists>code. load_byte (Suc (Suc k)) net c va u m =
      rbind (uvm_segv_action net c va code u m) (\<lambda>(u1, m1). load_byte (Suc k) net c va u1 m1)"
    using False pg(1)
    by (cases "mappings m (uvm_pid u) (addr x)") (auto simp del: load_byte.simps(2)
        simp add: load_byte.simps(2) [of "Suc k"])
  then obtain code where code: "load_byte (Suc (Suc k)) net c va u m =
      rbind (uvm_segv_action net c va code u m) (\<lambda>(u1, m1). load_byte (Suc k) net c va u1 m1)" ..
  from segv_ok [OF sys cl p x va] obtain m1 where m1: "uvm_segv_action net c va code u m = Inr (u, m1)"
    "system_ok net m1" "same_processes m m1"
    "mapped_page m1 (uvm_pid u) p (if isvalid x = 1 then PROT_RW else PROT_READ)" by blast
  from m1(4) obtain y off prot where y: "page_at m1 p = Some y"
    "mappings m1 (uvm_pid u) (addr y) = Some (off, prot)" "prot \<noteq> PROT_NONE" "isvalid y = 1"
    by (auto simp: mapped_page_def)
  have ow: "owns m1 = owns m" by (rule owns_cong) (use m1(3) in \<open>simp add: same_processes_def\<close>)
  have ps: "page_size m1 = page_size m" and ct: "content m1 p = content m p"
    using m1(3) p(1) unfolding same_processes_def by blast+
  have ad: "addr y = addr x"
    using pages_okD(1) [OF system_okD(1) [OF m1(2)], of "uvm_pid u" p y]
      pages_okD(1) [OF system_okD(1) [OF sys] p(1) x] y(1) p(1) ow ps by simp
  have "load_byte (Suc k) net c va u m1 = Inr (content m1 p ! nat r, m1)"
    by (rule load_hit [OF m1(2) _ y(1) _ va(2) _ y(2,3)]) (simp_all add: ow ps ad p va)
  with code m1 ct y(1,4) show ?thesis by simp
qed

section \<open>Stores\<close>

lemma chunk_list_update:
  "chunk off n (xs[k := b]) = (if off \<le> k then (chunk off n xs)[k - off := b] else chunk off n xs)"
  by (auto simp: chunk_def drop_update_swap take_update_swap)

lemma chunk_update_beyond: "off + n \<le> k \<Longrightarrow> chunk off n (xs[k := b]) = chunk off n xs"
proof -
  assume "off + n \<le> k"
  moreover have "length (chunk off n xs) \<le> n" by (simp add: chunk_def)
  ultimately show ?thesis by (simp add: chunk_list_update list_update_beyond)
qed

text \<open>\<open>written m m' p r b\<close>: \<open>m'\<close> is \<open>m\<close> with byte \<open>b\<close> at offset \<open>r\<close> of page \<open>p\<close>.\<close>

definition written :: "machine \<Rightarrow> machine \<Rightarrow> nat \<times> nat \<Rightarrow> nat \<Rightarrow> byte \<Rightarrow> bool" where
  "written m m' p r b \<longleftrightarrow> page_list m' = page_list m \<and> page_size m' = page_size m \<and>
     id2pid m' = id2pid m \<and> sock2client m' = sock2client m \<and> steady m m' \<and>
     (\<forall>pid q. owns m pid q \<longrightarrow>
        content m' q = (if q = p then (content m p)[r := b] else content m q))"

lemma frame_bytes_poke:
  assumes "0 \<le> g" and "0 \<le> f" and "r < page_size m"
  shows "frame_bytes (m\<lparr>pmem := (pmem m)[nat f * page_size m + r := b]\<rparr>) g =
    (if g = f then (frame_bytes m f)[r := b] else frame_bytes m g)"
proof (cases "g = f")
  case True
  then show ?thesis by (simp add: frame_bytes_def chunk_list_update)
next
  case False
  then have "nat g \<noteq> nat f" using assms by simp
  then have "nat g * page_size m + page_size m \<le> nat f * page_size m + r \<or>
      \<not> nat g * page_size m \<le> nat f * page_size m + r"
    using pages_disjoint [of "nat g" "nat f" "page_size m"] assms(3) by auto
  with False show ?thesis
    by (auto simp: frame_bytes_def chunk_update_beyond) (simp add: chunk_list_update)
qed

lemma store_inv:
  assumes sys: "system_ok net m" and p: "owns m pid p" "page_at m p = Some x"
    and v: "isvalid x = 1" "is_allocated x = 1" and r: "r < page_size m"
    and m'_def: "m' = m\<lparr>pmem := (pmem m)[nat (frame_number x) * page_size m + r := b]\<rparr>"
  shows "system_ok net m'" and "written m m' p r b"
proof -
  note inv = system_okD(1) [OF sys]
  have ow: "owns m' = owns m" by (rule owns_cong) (simp add: m'_def)
  have pa: "page_at m' = page_at m" by (simp add: m'_def)
  have fx: "0 \<le> frame_number x" using pages_okD(5) [OF inv p v(1)] by (simp add: in_frame_def)
  have frame: "frame_bytes m' (frame_number y) =
      (if q = p then (frame_bytes m (frame_number x))[r := b] else frame_bytes m (frame_number y))"
    if "owns m pid' q" "page_at m q = Some y" "isvalid y = 1" for pid' q y
  proof -
    have "0 \<le> frame_number y" using pages_okD(5) [OF inv that] by (simp add: in_frame_def)
    moreover have "frame_number y = frame_number x \<longleftrightarrow> q = p"
      using frames_apart [OF inv that(1) p(1) that(2) p(2) that(3) v(1)] that(2) p(2) by auto
    ultimately show ?thesis using fx r by (simp add: m'_def frame_bytes_poke)
  qed
  have st: "stored m' = stored m" by (simp add: fun_eq_iff stored_def m'_def block_bytes_def zero_page_def)
  have "clean_ok m'"
    unfolding clean_ok_def ow pa st
  proof (intro allI impI, elim conjE)
    fix pid' q y assume q: "owns m pid' q" "page_at m q = Some y" "isvalid y = 1" "is_allocated y \<noteq> 1"
    then have "q \<noteq> p" using p(2) v(2) by auto
    with frame [OF q(1-3)] clean_okD [OF inv q]
    show "frame_bytes m' (frame_number y) = stored m (block_number y)" by simp
  qed
  moreover have "geometry m'" using pager_invD(1) [OF inv] by (auto simp: m'_def geometry_def)
  moreover have "tables_ok m'" using pager_invD(2) [OF inv] by (simp add: m'_def tables_ok_def)
  moreover have "maps_ok m'" using pager_invD(6) [OF inv] map_ok_cong [of m' m]
    unfolding maps_ok_def ow pa by (simp add: m'_def)
  moreover have "pages_ok {} m'" using pager_invD(3) [OF inv] unfolding pages_ok_def ow pa
    by (simp add: m'_def in_frame_def)
  moreover have "frames_ok {} m'" using pager_invD(4) [OF inv] unfolding frames_ok_def ow pa
    by (simp add: m'_def)
  moreover have "blocks_apart m'" using pager_invD(5) [OF inv] unfolding blocks_apart_def ow pa .
  ultimately have "pager_inv {} m'" by (simp add: pager_inv_def)
  moreover have "served net m' = served net m" by (rule served_cong) (simp_all add: m'_def)
  ultimately show "system_ok net m'"
    using sys ow by (simp add: system_ok_def served_all_def m'_def)
  have "content m' q = (if q = p then (content m p)[r := b] else content m q)"
    if q: "owns m pid' q" for pid' q
  proof -
    from pager_invD(3) [OF inv] q obtain y where y: "page_at m q = Some y" by (auto elim: pages_okE)
    have "content m' q = (if isvalid y = 1 then frame_bytes m' (frame_number y)
        else stored m (block_number y))" using y pa st by (simp add: content_def page_bytes_def)
    then show ?thesis using y p v frame [OF q y]
      by (auto simp: content_def page_bytes_def split: if_splits)
  qed
  moreover have "steady m m'" by (simp add: m'_def steady_def)
  ultimately show "written m m' p r b" by (auto simp: written_def m'_def)
qed

lemma same_page:
  assumes "system_ok net m" and "system_ok net m1" and "same_processes m m1"
    and "owns m pid p" and "page_at m p = Some x" and "page_at m1 p = Some y"
  shows "owns m1 = owns m" and "page_size m1 = page_size m" and "content m1 p = content m p"
    and "addr y = addr x"
proof -
  show ow: "owns m1 = owns m" by (rule owns_cong) (use assms(3) in \<open>simp add: same_processes_def\<close>)
  show ps: "page_size m1 = page_size m" and "content m1 p = content m p"
    using assms(3,4) unfolding same_processes_def by blast+
  show "addr y = addr x"
    using pages_okD(1) [OF system_okD(1) [OF assms(2)], of pid p y]
      pages_okD(1) [OF system_okD(1) [OF assms(1)] assms(4,5)] assms(4,6) ow ps by simp
qed

lemma client_ok_same:
  "client_ok net c u m \<Longrightarrow> page_list m1 = page_list m \<Longrightarrow> page_size m1 = page_size m \<Longrightarrow>
   client_ok net c u m1"
  using owns_cong [of m1 m] by (simp add: client_ok_def)

lemma store_hit:
  assumes sys: "system_ok net m" and p: "owns m (uvm_pid u) p" "page_at m p = Some x"
    and va: "va = addr x + r" "0 \<le> r" "r < int (page_size m)"
    and mp: "mappings m (uvm_pid u) (addr x) = Some (off, PROT_RW)"
  shows "\<exists>m'. store_byte (Suc k) net c va b u m = Inr m' \<and> system_ok net m' \<and>
    written m m' p (nat r) b"
proof -
  have us: "isvalid x = 1" "off = nat (frame_number x) * page_size m"
    "has_frame m (frame_number x)" "is_allocated x = 1"
    using usable_page [OF sys p mp] by simp_all
  note pg = page_of_address [OF sys p va]
  have "off + page_size m \<le> length (pmem m)" using us(2,3) by (simp add: has_frame_def)
  then have "set_at (int off + r) (\<lambda>_. b) (pmem m) = Inr ((pmem m)[off + nat r := b])"
    using va by (simp add: set_at_def nat_add_distrib)
  then have "store_byte (Suc k) net c va b u m = Inr (m\<lparr>pmem := (pmem m)[off + nat r := b]\<rparr>)"
    using mp pg by simp
  then have "store_byte (Suc k) net c va b u m =
      Inr (m\<lparr>pmem := (pmem m)[nat (frame_number x) * page_size m + nat r := b]\<rparr>)"
    by (simp only: us(2))
  moreover have "nat r < page_size m" using va by simp
  ultimately show ?thesis using store_inv [OF sys p us(1,4) _ refl] by blast
qed

lemma store_miss:
  assumes sys: "system_ok net m" and cl: "client_ok net c u m"
    and p: "owns m (uvm_pid u) p" "snd p < uvm_npages u" and x: "page_at m p = Some x"
    and va: "va = addr x + r" "0 \<le> r" "r < int (page_size m)"
    and mp: "\<forall>off. mappings m (uvm_pid u) (addr x) \<noteq> Some (off, PROT_RW)"
  obtains m1 y off where "store_byte (Suc k) net c va b u m = store_byte k net c va b u m1"
    and "system_ok net m1" and "same_processes m m1" and "client_ok net c u m1"
    and "page_at m1 p = Some y" and "isvalid y = 1"
    and "mappings m1 (uvm_pid u) (addr y) =
      Some (off, if isvalid x = 1 then PROT_RW else PROT_READ)"
proof -
  have "\<exists>code. store_byte (Suc k) net c va b u m =
      rbind (uvm_segv_action net c va code u m) (\<lambda>(u1, m1). store_byte k net c va b u1 m1)"
    using mp page_of_address(1) [OF sys p(1) x va]
    by (cases "mappings m (uvm_pid u) (addr x)") auto
  then obtain code where code: "store_byte (Suc k) net c va b u m =
      rbind (uvm_segv_action net c va code u m) (\<lambda>(u1, m1). store_byte k net c va b u1 m1)" ..
  from segv_ok [OF sys cl p x va] obtain m1 where m1: "uvm_segv_action net c va code u m = Inr (u, m1)"
    "system_ok net m1" "same_processes m m1"
    "mapped_page m1 (uvm_pid u) p (if isvalid x = 1 then PROT_RW else PROT_READ)" by blast
  moreover have "client_ok net c u m1"
    using m1(3) by (intro client_ok_same [OF cl]) (simp_all add: same_processes_def)
  ultimately show thesis using that code by (auto simp: mapped_page_def)
qed

lemma written_same:
  assumes "same_processes m m1" and "written m1 m2 p r b" and "owns m pid p"
  shows "written m m2 p r b"
proof -
  have "owns m1 = owns m" by (rule owns_cong) (use assms(1) in \<open>simp add: same_processes_def\<close>)
  moreover have "\<forall>pid q. owns m pid q \<longrightarrow> content m1 q = content m q"
    using assms(1) unfolding same_processes_def by blast
  moreover have "steady m m2"
    using assms(1,2) steady_trans unfolding same_processes_def written_def by blast
  ultimately show ?thesis using assms unfolding written_def same_processes_def by metis
qed

lemma same_processes_trans:
  assumes "same_processes m m1" and "same_processes m1 m2"
  shows "same_processes m m2"
proof -
  have "owns m1 = owns m" by (rule owns_cong) (use assms(1) in \<open>simp add: same_processes_def\<close>)
  moreover have "steady m m2" using assms steady_trans unfolding same_processes_def by blast
  ultimately show ?thesis using assms unfolding same_processes_def by metis
qed

text \<open>At most two faults: the first brings the page in, the second makes it writable.\<close>

lemma store_byte_ok:
  assumes sys: "system_ok net m" and cl: "client_ok net c u m"
    and p: "owns m (uvm_pid u) p" "snd p < uvm_npages u" and x: "page_at m p = Some x"
    and va: "va = addr x + r" "0 \<le> r" "r < int (page_size m)"
  shows "\<exists>m'. store_byte (Suc (Suc (Suc k))) net c va b u m = Inr m' \<and> system_ok net m' \<and>
    written m m' p (nat r) b"
proof -
  have valid: "\<exists>m'. store_byte (Suc (Suc k)) net c va b u m1 = Inr m' \<and> system_ok net m' \<and>
      written m m' p (nat r) b"
    if m1: "system_ok net m1" "client_ok net c u m1" "same_processes m m1" "page_at m1 p = Some y"
      "isvalid y = 1" for m1 y k
  proof -
    note s1 = same_page [OF sys m1(1,3) p(1) x m1(4)]
    have va1: "va = addr y + r" "r < int (page_size m1)" and p1: "owns m1 (uvm_pid u) p"
      using s1 va p by simp_all
    show ?thesis
    proof (cases "\<exists>off. mappings m1 (uvm_pid u) (addr y) = Some (off, PROT_RW)")
      case True
      then obtain off where "mappings m1 (uvm_pid u) (addr y) = Some (off, PROT_RW)" ..
      from store_hit [OF m1(1) p1 m1(4) va1(1) va(2) va1(2) this] written_same [OF m1(3) _ p(1)]
      show ?thesis by blast
    next
      case False
      then have nrw: "\<forall>off. mappings m1 (uvm_pid u) (addr y) \<noteq> Some (off, PROT_RW)" by blast
      obtain m2 z off where m2:
        "store_byte (Suc (Suc k)) net c va b u m1 = store_byte (Suc k) net c va b u m2"
        "system_ok net m2" "same_processes m1 m2" "page_at m2 p = Some z"
        "mappings m2 (uvm_pid u) (addr z) = Some (off, PROT_RW)"
        by (rule store_miss [OF m1(1,2) p1 p(2) m1(4) va1(1) va(2) va1(2) nrw, of "Suc k" b])
          (use m1(5) in auto)
      note s2 = same_page [OF m1(1) m2(2,3) p1 m1(4) m2(4)]
      have va2: "va = addr z + r" "r < int (page_size m2)" and p2: "owns m2 (uvm_pid u) p"
        using s2 va1 p1 by simp_all
      from store_hit [OF m2(2) p2 m2(4) va2(1) va(2) va2(2) m2(5), of k c b]
        written_same [OF same_processes_trans [OF m1(3) m2(3)] _ p(1)] m2(1)
      show ?thesis by metis
    qed
  qed
  show ?thesis
  proof (cases "isvalid x = 1")
    case True
    then show ?thesis
      using valid [OF sys cl _ x True, of "Suc k"] by (simp add: same_processes_def)
  next
    case False
    have nrw: "\<forall>off. mappings m (uvm_pid u) (addr x) \<noteq> Some (off, PROT_RW)"
      using usable_page(1) [OF sys p(1) x] False by (metis PROT_differ(4))
    obtain m1 y off where
      "store_byte (Suc (Suc (Suc k))) net c va b u m = store_byte (Suc (Suc k)) net c va b u m1"
      "system_ok net m1" "same_processes m m1" "client_ok net c u m1" "page_at m1 p = Some y"
      "isvalid y = 1"
      by (rule store_miss [OF sys cl p x va nrw, of "Suc (Suc k)" b]) auto
    then show ?thesis using valid by metis
  qed
qed

end
