(* ===== verification/Flat_Memory.thy ===== *)
theory Flat_Memory
  imports Client_Memory
begin

text \<open>
  The abstract specification of the paging system: each process has a flat memory, a function
  from addresses to bytes.  Any interleaving of loads and stores of any number of processes,
  run on the machine with its few frames, gives the bytes that the flat memories give.
\<close>

section \<open>Specification\<close>

datatype access = Load int int | Store int int byte

primrec acc_pid :: "access \<Rightarrow> int" where
  "acc_pid (Load pid va) = pid"
| "acc_pid (Store pid va b) = pid"

primrec acc_addr :: "access \<Rightarrow> int" where
  "acc_addr (Load pid va) = va"
| "acc_addr (Store pid va b) = va"

type_synonym flat = "int \<Rightarrow> int \<Rightarrow> byte"

fun flat_run :: "access list \<Rightarrow> flat \<Rightarrow> byte list \<times> flat" where
  "flat_run [] mu = ([], mu)"
| "flat_run (Load pid va # acs) mu = (let (bs, mu') = flat_run acs mu in (mu pid va # bs, mu'))"
| "flat_run (Store pid va b # acs) mu = flat_run acs (mu(pid := (mu pid)(va := b)))"

section \<open>The machine\<close>

text \<open>\<open>procs\<close> gives each process its record in the MMU and in its own library.\<close>

type_synonym procs = "int \<Rightarrow> mmu_client \<times> uvm"

text \<open>Three tries are enough for every access: at most two of them fault.\<close>

definition access_fuel :: nat where
  "access_fuel = 3"

fun run_accesses :: "(nat \<Rightarrow> bool) \<Rightarrow> procs \<Rightarrow> access list \<Rightarrow> machine \<Rightarrow> (byte list \<times> machine) result" where
  "run_accesses net procs [] m = Inr ([], m)"
| "run_accesses net procs (Load pid va # acs) m =
     rbind (load_byte access_fuel net (fst (procs pid)) va (snd (procs pid)) m) (\<lambda>(b, m1).
     rbind (run_accesses net procs acs m1) (\<lambda>(bs, m2). Inr (b # bs, m2)))"
| "run_accesses net procs (Store pid va b # acs) m =
     rbind (store_byte access_fuel net (fst (procs pid)) va b (snd (procs pid)) m) (\<lambda>m1.
     run_accesses net procs acs m1)"

definition legal_access :: "(nat \<Rightarrow> bool) \<Rightarrow> procs \<Rightarrow> machine \<Rightarrow> access \<Rightarrow> bool" where
  "legal_access net procs m ac \<longleftrightarrow>
     (let (c, u) = procs (acc_pid ac) in client_ok net c u m \<and> uvm_pid u = acc_pid ac \<and>
        UVM_BASEADDR \<le> acc_addr ac \<and>
        acc_addr ac < UVM_BASEADDR + int (uvm_npages u) * int (page_size m))"

definition represents :: "machine \<Rightarrow> flat \<Rightarrow> bool" where
  "represents m mu \<longleftrightarrow> (\<forall>pid p r. owns m pid p \<and> r < page_size m \<longrightarrow>
     content m p ! r = mu pid (UVM_BASEADDR + int (snd p) * int (page_size m) + int r))"

section \<open>Refinement\<close>

lemma length_content:
  assumes "pager_inv {} m" and "owns m pid p"
  shows "length (content m p) = page_size m"
proof -
  from pager_invD(3) [OF assms(1)] assms(2) obtain x where x: "page_at m p = Some x"
    by (auto elim: pages_okE)
  note g = pager_invD(1) [OF assms(1)]
  have "has_block m (block_number x)"
    by (rule geometry_block [OF g pages_okD(2,3) [OF assms x]])
  moreover have "isvalid x = 1 \<Longrightarrow> has_frame m (frame_number x)"
    using pages_okD(5) [OF assms x] by (intro geometry_frame [OF g]) (auto simp: in_frame_def)
  ultimately show ?thesis by (auto simp: content_def x page_bytes_def stored_def)
qed

lemma legal_accessE:
  assumes "legal_access net procs m ac" and "system_ok net m" and "procs (acc_pid ac) = (c, u)"
  obtains p x r where "owns m (uvm_pid u) p" and "snd p < uvm_npages u" and "page_at m p = Some x"
    and "acc_addr ac = addr x + r" and "0 \<le> r" and "r < int (page_size m)"
    and "acc_addr ac = UVM_BASEADDR + int (snd p) * int (page_size m) + r"
    and "client_ok net c u m" and "uvm_pid u = acc_pid ac"
proof -
  let ?ps = "int (page_size m)" and ?d = "acc_addr ac - UVM_BASEADDR"
  have cl: "client_ok net c u m" and pid: "uvm_pid u = acc_pid ac"
    and lo: "0 \<le> ?d" and hi: "?d < int (uvm_npages u) * ?ps"
    using assms(1,3) by (simp_all add: legal_access_def)
  have pos: "0 < ?ps" using system_okD(4) [OF assms(2)] by simp
  let ?i = "nat (?d div ?ps)"
  have "?d div ?ps < int (uvm_npages u)"
  proof (rule ccontr)
    assume "\<not> ?d div ?ps < int (uvm_npages u)"
    then have "int (uvm_npages u) * ?ps \<le> ?d div ?ps * ?ps" using pos by (intro mult_right_mono) simp_all
    also have "\<dots> \<le> ?d" using div_mult_mod_eq [of ?d ?ps] pos_mod_sign [OF pos, of ?d] by linarith
    finally show False using hi by simp
  qed
  moreover have i0: "0 \<le> ?d div ?ps" using lo pos by (simp add: pos_imp_zdiv_nonneg_iff)
  ultimately have i: "?i < uvm_npages u" by simp
  with cl obtain a where o: "owns m (uvm_pid u) (a, ?i)" by (auto simp: client_ok_def)
  from pager_invD(3) [OF system_okD(1) [OF assms(2)]] o obtain x where
    x: "page_at m (a, ?i) = Some x" by (auto elim: pages_okE)
  have "addr x = UVM_BASEADDR + (?d div ?ps) * ?ps"
    using pages_okD(1) [OF system_okD(1) [OF assms(2)] o x] i0 by simp
  then have ad: "acc_addr ac = addr x + ?d mod ?ps"
    using div_mult_mod_eq [of ?d ?ps] by simp
  have sp: "acc_addr ac = UVM_BASEADDR + int (snd (a, ?i)) * ?ps + ?d mod ?ps"
    using i0 div_mult_mod_eq [of ?d ?ps] by simp
  show thesis
    by (rule that [OF o _ x ad _ _ sp cl pid]) (use i pos in simp_all)
qed

lemma representsD:
  "represents m mu \<Longrightarrow> owns m pid p \<Longrightarrow> r < page_size m \<Longrightarrow>
   content m p ! r = mu pid (UVM_BASEADDR + int (snd p) * int (page_size m) + int r)"
  unfolding represents_def by blast

lemma represents_same:
  assumes "represents m mu" and "same_processes m m'"
  shows "represents m' mu"
proof -
  have "owns m' = owns m" by (rule owns_cong) (use assms(2) in \<open>simp add: same_processes_def\<close>)
  with assms show ?thesis unfolding represents_def same_processes_def by metis
qed

lemma place_unique:
  assumes "int i * int ps + int r = int j * int ps + int s" and "r < ps" and "s < (ps::nat)"
  shows "i = j" and "r = s"
proof -
  have eq: "i * ps + r = j * ps + s"
    using assms(1) by (simp only: of_nat_add [symmetric] of_nat_mult [symmetric] of_nat_eq_iff)
  then have "(i * ps + r) div ps = (j * ps + s) div ps" by simp
  then show "i = j" using assms(2,3) by simp
  with eq show "r = s" by simp
qed

lemma represents_written:
  assumes inv: "pager_inv {} m" and rep: "represents m mu" and w: "written m m' p (nat r) b"
    and p: "owns m pid p" and r: "0 \<le> r" "r < int (page_size m)"
  defines "va \<equiv> UVM_BASEADDR + int (snd p) * int (page_size m) + r"
  shows "represents m' (mu(pid := (mu pid)(va := b)))"
  unfolding represents_def
proof (intro allI impI, elim conjE)
  fix pid' q s
  have ow: "owns m' = owns m" by (rule owns_cong) (use w in \<open>simp add: written_def\<close>)
  have ps: "page_size m' = page_size m" using w by (simp add: written_def)
  assume "owns m' pid' q" and "s < page_size m'"
  then have q: "owns m pid' q" and s: "s < page_size m" by (simp_all add: ow ps)
  let ?va = "UVM_BASEADDR + int (snd q) * int (page_size m) + int s"
  have ct: "content m' q = (if q = p then (content m p)[nat r := b] else content m q)"
    using w q unfolding written_def by blast
  have old: "content m q ! s = mu pid' ?va" by (rule representsD [OF rep q s])
  have rs: "nat r < page_size m" using r by simp
  have hit: "pid' = pid \<and> ?va = va \<longleftrightarrow> q = p \<and> s = nat r"
  proof
    assume a: "pid' = pid \<and> ?va = va"
    then have "int (snd q) * int (page_size m) + int s =
        int (snd p) * int (page_size m) + int (nat r)" using r by (simp add: va_def)
    from place_unique [OF this s rs] have "snd q = snd p" "s = nat r" by simp_all
    moreover have "fst q = fst p"
      using same_array [OF pager_invD(2) [OF inv]] q p a by blast
    ultimately show "q = p \<and> s = nat r" by (simp add: prod_eqI)
  next
    assume "q = p \<and> s = nat r"
    with owner_unique [OF pager_invD(2) [OF inv] p] q r show "pid' = pid \<and> ?va = va"
      by (simp add: va_def)
  qed
  have "content m' q ! s = (if q = p \<and> s = nat r then b else content m q ! s)"
    using ct length_content [OF inv p] s by (auto simp: nth_list_update)
  with hit old show "content m' q ! s = (mu(pid := (mu pid)(va := b))) pid'
      (UVM_BASEADDR + int (snd q) * int (page_size m') + int s)" by (auto simp: ps)
qed

lemma legal_access_same:
  assumes "legal_access net procs m ac" and "page_list m' = page_list m" and "page_size m' = page_size m"
  shows "legal_access net procs m' ac"
  using assms client_ok_same [OF _ assms(2,3)] by (auto simp: legal_access_def)

lemma run_accesses_ok:
  assumes "system_ok net m" and "represents m mu" and "\<forall>ac \<in> set acs. legal_access net procs m ac"
  shows "\<exists>m'. run_accesses net procs acs m = Inr (fst (flat_run acs mu), m') \<and>
    represents m' (snd (flat_run acs mu)) \<and> system_ok net m' \<and> steady m m'"
  using assms
proof (induction acs arbitrary: m mu)
  case Nil
  then show ?case by simp
next
  case (Cons ac acs)
  obtain c u where cu: "procs (acc_pid ac) = (c, u)" by fastforce
  from Cons.prems(3) have lg: "legal_access net procs m ac" by simp
  obtain p x r where p: "owns m (uvm_pid u) p" "snd p < uvm_npages u" "page_at m p = Some x"
    "acc_addr ac = addr x + r" "0 \<le> r" "r < int (page_size m)"
    "acc_addr ac = UVM_BASEADDR + int (snd p) * int (page_size m) + r" "client_ok net c u m"
    "uvm_pid u = acc_pid ac" by (rule legal_accessE [OF lg Cons.prems(1) cu])
  show ?case
  proof (cases ac)
    case (Load pid va)
    from load_byte_ok [OF Cons.prems(1) p(8,1,2,3,4,5,6), of 1] obtain m1 where
      m1: "load_byte access_fuel net c va u m = Inr (content m p ! nat r, m1)" "system_ok net m1"
      "same_processes m m1" by (auto simp: Load access_fuel_def numeral_3_eq_3 simp del: load_byte.simps)
    have "content m p ! nat r = mu pid va"
      using representsD [OF Cons.prems(2) p(1), of "nat r"] p(5,6,7,9) by (simp add: Load)
    moreover have "\<forall>ac \<in> set acs. legal_access net procs m1 ac"
      using Cons.prems(3) m1(3) by (auto intro: legal_access_same simp: same_processes_def)
    moreover note Cons.IH [OF m1(2) represents_same [OF Cons.prems(2) m1(3)]]
    moreover have "steady m m1" using m1(3) by (simp add: same_processes_def)
    note steady_trans [OF this]
    ultimately show ?thesis using m1(1) cu by (auto simp: Load split_beta simp del: load_byte.simps)
  next
    case (Store pid va b)
    from store_byte_ok [OF Cons.prems(1) p(8,1,2,3,4,5,6), of 0 b] obtain m1 where
      m1: "store_byte access_fuel net c va b u m = Inr m1" "system_ok net m1"
      "written m m1 p (nat r) b" by (auto simp: Store access_fuel_def numeral_3_eq_3 simp del: store_byte.simps)
    have "represents m1 (mu(pid := (mu pid)(va := b)))"
      using represents_written [OF system_okD(1) [OF Cons.prems(1)] Cons.prems(2) m1(3) p(1,5,6)]
        p(7,9) by (simp add: Store)
    moreover have "\<forall>ac \<in> set acs. legal_access net procs m1 ac"
      using Cons.prems(3) m1(3) by (auto intro: legal_access_same simp: written_def)
    ultimately obtain m' where m': "run_accesses net procs acs m1 =
        Inr (fst (flat_run acs (mu(pid := (mu pid)(va := b)))), m')"
      "represents m' (snd (flat_run acs (mu(pid := (mu pid)(va := b)))))" "system_ok net m'"
      "steady m1 m'" using Cons.IH [OF m1(2)] by blast
    have "steady m m1" using m1(3) by (simp add: written_def)
    from steady_trans [OF this m'(4)] show ?thesis
      using m1(1) m'(1-3) cu by (simp add: Store del: store_byte.simps)
  qed
qed

end
