(* ===== verification/Client_Life.thy ===== *)
theory Client_Life
  imports Flat_Memory
begin

text \<open>
  The life of a client as the handlers of the MMU see it: the connection that belongs to a
  process, its creation, and the pages it is given.
\<close>

section \<open>Connections\<close>

definition connected :: "(nat \<Rightarrow> bool) \<Rightarrow> mmu_client \<Rightarrow> uvm \<Rightarrow> machine \<Rightarrow> bool" where
  "connected net c u m \<longleftrightarrow> sock2client m (uvm_sock u) = Some c \<and> cl_pid c = uvm_pid u \<and>
     net (uvm_sock u) \<and> 3 \<le> uvm_sock u \<and> uvm_sock u < MMU_MAX_SOCK \<and>
     (\<forall>s c'. sock2client m s = Some c' \<and> cl_pid c' = uvm_pid u \<longrightarrow> s = uvm_sock u) \<and>
     uvm_pid u \<in> set (id2pid m)"

lemma connected_served: "connected net c u m \<Longrightarrow> served net m (uvm_pid u)"
proof -
  assume c: "connected net c u m"
  let ?P = "\<lambda>i. case sock2client m i of None \<Rightarrow> False | Some c \<Rightarrow> cl_pid c = uvm_pid u"
  have "?P (uvm_sock u)" "uvm_sock u \<in> set [3..<MMU_MAX_SOCK]"
    using c by (simp_all add: connected_def)
  then have "find ?P [3..<MMU_MAX_SOCK] \<noteq> None" by (auto simp: find_None_iff)
  then obtain s where s: "find ?P [3..<MMU_MAX_SOCK] = Some s" by blast
  then have "?P s" by (auto simp: find_Some_iff)
  then have "s = uvm_sock u" using c by (auto simp: connected_def split: option.splits)
  with s c show ?thesis by (simp add: served_def connected_def)
qed

lemma connected_cong:
  "id2pid m' = id2pid m \<Longrightarrow> sock2client m' = sock2client m \<Longrightarrow> uvm_sock u' = uvm_sock u \<Longrightarrow>
   uvm_pid u' = uvm_pid u \<Longrightarrow> connected net c u' m' = connected net c u m"
  by (simp add: connected_def)

lemma get_pid_id_ok: "pid \<in> set (id2pid m) \<Longrightarrow> \<exists>i. get_pid_id pid m = Inr i"
proof -
  assume "pid \<in> set (id2pid m)"
  then have "find_index (\<lambda>q. q = pid) (id2pid m) \<noteq> None" by (simp only: find_index_None) blast
  then obtain i where "find_index (\<lambda>q. q = pid) (id2pid m) = Some i" by blast
  then show ?thesis by (simp only: get_pid_id_def option.case) blast
qed

section \<open>Creation\<close>

text \<open>A socket that the MMU has accepted and whose client has not sent its process id yet.\<close>

definition accepted :: "(nat \<Rightarrow> bool) \<Rightarrow> nat \<Rightarrow> mmu_client \<Rightarrow> int \<Rightarrow> machine \<Rightarrow> bool" where
  "accepted net sock c pid m \<longleftrightarrow> sock2client m sock = Some c \<and> net sock \<and> 3 \<le> sock \<and>
     sock < MMU_MAX_SOCK \<and> (\<forall>q. \<not> owns m (cl_pid c) q) \<and>
     (\<forall>s c'. sock2client m s = Some c' \<longrightarrow> cl_pid c' \<noteq> pid) \<and> pid \<noteq> INVALID_PID \<and>
     pid \<notin> pt_pid ` set (page_list m)"

text \<open>The next entry of \<open>id2pid\<close> is inside the array and not that of a live process.\<close>

definition id_free :: "machine \<Rightarrow> bool" where
  "id_free m \<longleftrightarrow> unat (nextid m) < length (id2pid m) \<and>
     (\<forall>q. \<not> owns m (id2pid m ! unat (nextid m)) q)"

definition new_uvm :: "nat \<Rightarrow> int \<Rightarrow> uvm" where
  "new_uvm sock pid = \<lparr>uvm_sock = sock, uvm_pid = pid, uvm_npages = 0, uvm_result = 0\<rparr>"

lemma owns_pid: "owns m pid q \<Longrightarrow> pid \<in> pt_pid ` set (page_list m)"
  by (auto simp: owns_def)

lemma mmu_client_create_ok:
  assumes sys: "system_ok net m" and ac: "accepted net sock c (sint p) m" and id: "id_free m"
    and mem: "fresh_memory m memory"
  shows "\<exists>m' rep. mmu_client_create net memory path sock c (Some (Create_Req p)) m =
      Inr (Some (Create_Rep rep), m') \<and> system_ok net m' \<and>
    connected net (c\<lparr>cl_pid := sint p\<rparr>) (new_uvm sock (sint p)) m' \<and>
    alive m' (sint p) (length (page_list m)) \<and> page_count (page_list m' ! length (page_list m)) = 0 \<and>
    page_capacity (page_list m' ! length (page_list m)) = 0 \<and>
    owns m' = owns m \<and> mappings m' = mappings m \<and> page_size m' = page_size m \<and>
    blocks m' = blocks m \<and> disk m' = disk m \<and> (\<forall>pid q. owns m pid q \<longrightarrow> content m' q = content m q)"
proof -
  let ?pid = "sint p" and ?i = "unat (nextid m)" and ?c = "c\<lparr>cl_pid := sint p\<rparr>"
  let ?m1 = "m\<lparr>sock2client := (sock2client m)(sock \<mapsto> ?c), id2pid := (id2pid m)[?i := ?pid],
      nextid := nextid m + 1\<rparr>"
  let ?m2 = "emit (Pager_Create (int ?i)) ?m1"
  note inv = system_okD(1) [OF sys]
  have i: "?i < length (id2pid m)" using id by (simp add: id_free_def)
  have ow: "owns ?m2 = owns m" by (rule owns_cong) (simp add: emit_def)
  have t2: "tables_ok ?m2" using pager_invD(2) [OF inv] by (simp add: tables_ok_def emit_def)
  have pa: "page_at ?m2 q = page_at m q" for q by (simp add: page_at_def emit_def)
  have inv2: "pager_inv {} ?m2"
    by (rule pager_inv_cong(1) [OF inv ow pa t2]) (simp_all add: emit_def)
  have ct2: "\<forall>pid q. owns m pid q \<longrightarrow> content ?m2 q = content m q"
    by (intro allI impI, rule pager_inv_cong(2) [OF inv ow pa t2]) (simp_all add: emit_def)
  have "\<not> mutex ?m2" "?pid \<noteq> INVALID_PID" "?pid \<notin> pt_pid ` set (page_list ?m2)"
    "fresh_memory ?m2 memory"
    using system_okD(3) [OF sys] ac mem by (simp_all add: emit_def accepted_def fresh_memory_def)
  from pager_create_ok [OF inv2 this] obtain m3 where
    m3: "pager_create memory ?pid ?m2 = Inr m3" "pager_inv {} m3" "owns m3 = owns m"
      "alive m3 ?pid (length (page_list m))" "\<not> mutex m3" "mappings m3 = mappings m"
      "id2pid m3 = (id2pid m)[?i := ?pid]" "sock2client m3 = (sock2client m)(sock \<mapsto> ?c)"
      "page_size m3 = page_size m" "blocks m3 = blocks m" "disk m3 = disk m"
      "\<exists>t. page_list m3 = page_list m @ [t] \<and> page_count t = 0 \<and> page_capacity t = 0"
      "\<forall>pid q. owns m pid q \<longrightarrow> content m3 q = content m q"
    using ct2 ow by (auto simp: emit_def)
  have run: "mmu_client_create net memory path sock c (Some (Create_Req p)) m = Inr (Some (Create_Rep
      (take MMU_PROTO_PATH_MAX (path @ replicate MMU_PROTO_PATH_MAX 0))), m3)"
    using i m3(1) ac by (simp add: mmu_client_create_def set_at_def send_reply_def accepted_def Let_def)
  have sv: "served net m3 q" if q: "owns m q y" for q y
  proof -
    have "served net m q" by (rule served_allD [OF system_okD(2) [OF sys] q])
    moreover have "q \<noteq> ?pid" using ac owns_pid [OF q] unfolding accepted_def by blast
    moreover have "q \<noteq> cl_pid c" "q \<noteq> id2pid m ! ?i"
      using ac id q unfolding accepted_def id_free_def by blast+
    moreover have "(\<lambda>i. case sock2client m3 i of None \<Rightarrow> False | Some c \<Rightarrow> cl_pid c = q) =
        (\<lambda>i. case sock2client m i of None \<Rightarrow> False | Some c \<Rightarrow> cl_pid c = q)"
      using calculation ac by (auto simp: fun_eq_iff m3(8) accepted_def)
    moreover have "q \<in> set (id2pid m3)"
    proof -
      from calculation(1) obtain j where "j < length (id2pid m)" "id2pid m ! j = q"
        by (auto simp: served_def in_set_conv_nth)
      moreover from this \<open>q \<noteq> id2pid m ! ?i\<close> have "j \<noteq> ?i" by auto
      ultimately have "j < length (id2pid m3)" "id2pid m3 ! j = q" by (simp_all add: m3(7))
      then show ?thesis by (auto simp: in_set_conv_nth)
    qed
    ultimately show ?thesis by (simp add: served_def)
  qed
  then have "system_ok net m3" using m3 by (auto simp: system_ok_def served_all_def)
  moreover have "connected net ?c (new_uvm sock ?pid) m3"
    using ac i by (auto simp: connected_def m3 new_uvm_def accepted_def set_update_memI)
  ultimately show ?thesis using run m3 by (auto simp: nth_append)
qed

section \<open>New pages\<close>

text \<open>A process that may ask for its next page, seen from both sides.\<close>

definition growing :: "(nat \<Rightarrow> bool) \<Rightarrow> mmu_client \<Rightarrow> uvm \<Rightarrow> nat \<Rightarrow> machine \<Rightarrow> bool" where
  "growing net c u ti m \<longleftrightarrow> connected net c u m \<and> client_ok net c u m \<and> alive m (uvm_pid u) ti \<and>
     page_count (page_list m ! ti) = uvm_npages u \<and> unmapped_above m (uvm_pid u) (uvm_npages u)"

lemma growing_new:
  assumes "connected net c (new_uvm sock pid) m" and "alive m pid ti"
    and "page_count (page_list m ! ti) = 0" and "unmapped_above m pid 0"
  shows "growing net c (new_uvm sock pid) ti m"
  using assms by (simp add: growing_def client_ok_def new_uvm_def connected_def UVM_BASEADDR_def
      UVM_MAXADDR_def)

lemma uvm_extend_ok:
  assumes sys: "system_ok net m" and gr: "growing net c u ti m"
    and mem: "realloc_in_place m (page_list m ! ti) pages"
    and room: "UVM_BASEADDR + int (Suc (uvm_npages u)) * int (page_size m) \<le> UVM_MAXADDR + 1"
    and b: "find_free_block m = int b" "b < length (blocks m)" "bl_page (blocks m ! b) = None"
  defines "va \<equiv> UVM_BASEADDR + int (uvm_npages u) * int (page_size m)"
  shows "\<exists>m' u' a. uvm_extend net pages c u m = Inr (va, u', m') \<and> system_ok net m' \<and>
    growing net c u' ti m' \<and> u' = u\<lparr>uvm_npages := Suc (uvm_npages u), uvm_result := va\<rparr> \<and>
    owns m' (uvm_pid u) (a, uvm_npages u) \<and> content m' (a, uvm_npages u) = stored m (int b) \<and>
    (\<forall>pid q. owns m pid q \<longrightarrow> owns m' pid q \<and> content m' q = content m q)"
proof -
  let ?n = "uvm_npages u" and ?pid = "uvm_pid u"
  note inv = system_okD(1) [OF sys] and ps = system_okD(4) [OF sys]
  have al: "alive m ?pid ti" and n: "page_count (page_list m ! ti) = ?n"
    and um: "unmapped_above m ?pid ?n" and cn: "connected net c u m" and cl: "client_ok net c u m"
    using gr by (simp_all add: growing_def)
  from pager_extend_effect [OF inv system_okD(3) [OF sys] al mem b(1,2)] obtain m1 a x where
    run: "pager_extend pages ?pid m = Inr (Some va, m1)" and ex: "extended m m1 ?pid ti a x b"
    by (auto simp: va_def n)
  note exd = extendedD [OF ex, unfolded n]
  from cn obtain i where i: "get_pid_id ?pid m = Inr i" using get_pid_id_ok unfolding connected_def by blast
  let ?m' = "emit (Pager_Extend (int i) va) m1"
  let ?u' = "u\<lparr>uvm_npages := Suc ?n, uvm_result := va\<rparr>"
  have "va < va + int (page_size m)" "va + int (page_size m) \<le> UVM_MAXADDR + 1"
    using ps room by (simp_all add: va_def algebra_simps)
  moreover have lo: "UVM_BASEADDR \<le> va" by (simp add: va_def)
  ultimately have wa: "sint (word_of_int va :: 64 word) = va" by (intro word_address(1)) simp_all
  have "va \<noteq> 0" using lo by (simp add: UVM_BASEADDR_def)
  then have "uvm_extend net pages c u m = Inr (va, ?u', ?m')"
    using i run cn wa by (simp add: uvm_extend_def mmu_client_extend_def send_reply_def answer_def
        uvm_proto_extend_rep_def connected_def Let_def)
  moreover have inv1: "pager_inv {} m1"
    by (rule extend_inv(1) [OF inv al _ b(2,3) ex]) (simp add: n um)
  note em = emit_irrelevant [OF inv1]
  have sv1: "served net m1 = served net m" by (rule served_cong) (rule exd(20) exd(21))+
  have "served net m q" if "owns m1 q y" for q y
    using that exd(1) [of q y] served_allD [OF system_okD(2) [OF sys]] connected_served [OF cn] by blast
  then have "served_all net m1" by (auto simp: served_all_def sv1)
  then have "system_ok net ?m'"
    using em(1,2) system_okD(3) [OF sys] exd(10) by (simp add: system_ok_def) (simp add: emit_def)
  moreover have "growing net c ?u' ti ?m'"
  proof -
    have "connected net c ?u' ?m'"
      using cn exd(20,21) connected_cong [of ?m' m ?u' u net c] by (simp add: emit_def)
    moreover have "client_ok net c ?u' ?m'"
    proof -
      have "\<exists>a'. owns m1 ?pid (a', j)" if "j < Suc ?n" for j
        using that cl exd(1) by (cases "j = ?n") (auto simp: client_ok_def)
      then show ?thesis using cl room em(3) exd(12) by (auto simp: client_ok_def) (simp_all add: emit_def)
    qed
    moreover have "alive ?m' ?pid ti" using exd(9) by (simp add: alive_def emit_def)
    moreover have "page_count (page_list ?m' ! ti) = Suc ?n"
      using exd(11) al by (auto simp: emit_def alive_def)
    moreover have "unmapped_above ?m' ?pid (Suc ?n)"
      using um exd(12,14) by (simp add: unmapped_above_def emit_def)
    ultimately show ?thesis by (simp add: growing_def)
  qed
  moreover have "owns ?m' ?pid (a, ?n)" using exd(1) em(3) by simp
  moreover have "content ?m' (a, ?n) = stored m (int b)"
  proof -
    have "owns m1 ?pid (a, ?n)" using exd(1) by simp
    from em(5) [OF this] extend_inv(3) [OF inv al _ b(2,3) ex] um n show ?thesis by simp
  qed
  moreover have "owns ?m' pid q \<and> content ?m' q = content m q" if q: "owns m pid q" for pid q
  proof -
    have "owns m1 pid q" using exd(1) q by blast
    with em(3,5) extend_inv(2) [OF inv al _ b(2,3) ex q] um n show ?thesis by simp
  qed
  ultimately show ?thesis by blast
qed

text \<open>When every block backs a page, the request fails and nothing changes but the log.\<close>

lemma uvm_extend_full:
  assumes sys: "system_ok net m" and cn: "connected net c u m" and "find_free_block m = INVALID_PID"
  shows "\<exists>i. uvm_extend net pages c u m =
    Inr (0, u\<lparr>uvm_result := 0\<rparr>, emit (Pager_Extend i 0) m)"
proof -
  from cn obtain i where "get_pid_id (uvm_pid u) m = Inr i"
    using get_pid_id_ok unfolding connected_def by blast
  with pager_extend_full [OF system_okD(3) [OF sys] assms(3)] cn show ?thesis
    by (auto simp: uvm_extend_def mmu_client_extend_def send_reply_def answer_def
        uvm_proto_extend_rep_def connected_def Let_def)
qed

section \<open>Leaving\<close>

lemma served_forget:
  assumes "served net m q" and "connected net c u m" and "q \<noteq> uvm_pid u"
    and "sock2client m' = (sock2client m)(uvm_sock u := None)" and "id2pid m' = id2pid m"
  shows "served net m' q"
proof -
  have "(\<lambda>i. case sock2client m' i of None \<Rightarrow> False | Some c \<Rightarrow> cl_pid c = q) =
      (\<lambda>i. case sock2client m i of None \<Rightarrow> False | Some c \<Rightarrow> cl_pid c = q)"
    using assms(2-4) by (auto simp: fun_eq_iff connected_def)
  with assms(1,5) show ?thesis by (simp add: served_def)
qed

lemma mmu_client_exit_ok:
  assumes sys: "system_ok net m" and cn: "connected net c u m" and al: "alive m (uvm_pid u) ti"
    and pid: "uvm_pid u \<noteq> 0"
  shows "\<exists>m'. mmu_client_exit net (uvm_sock u) c (Some Exit_Req) m = Inr (Some Exit_Rep, m') \<and>
    system_ok net m' \<and> frees m m' (uvm_pid u) \<and> sock2client m' (uvm_sock u) = None \<and>
    pmem m' = pmem m \<and> disk m' = disk m \<and> mappings m' = mappings m \<and>
    (\<exists>i. trace m' = trace m @ [Pager_Destroy i]) \<and>
    (\<forall>pid q. owns m' pid q \<longleftrightarrow> owns m pid q \<and> pid \<noteq> uvm_pid u) \<and>
    (\<forall>pid q. owns m' pid q \<longrightarrow> content m' q = content m q)"
proof -
  let ?pid = "uvm_pid u"
  note inv = system_okD(1) [OF sys] and em = emit_irrelevant [OF system_okD(1) [OF sys]]
  from cn obtain i where i: "get_pid_id ?pid m = Inr i" using get_pid_id_ok unfolding connected_def by blast
  let ?m1 = "emit (Pager_Destroy (int i)) m"
  have al1: "alive ?m1 ?pid ti" using al by (simp add: alive_def emit_def)
  have mx1: "\<not> mutex ?m1" using system_okD(3) [OF sys] by (simp add: emit_def)
  from pager_destroy_ok [OF em(1) mx1 al1] obtain m2 where
    m2: "pager_destroy ?pid ?m1 = Inr m2" "pager_inv {} m2" "untouched ?m1 m2" "frees ?m1 m2 ?pid"
      "\<forall>pid' q. owns m2 pid' q \<longleftrightarrow> owns m pid' q \<and> pid' \<noteq> ?pid"
      "\<forall>pid' q. owns m2 pid' q \<longrightarrow> content m2 q = content ?m1 q"
    unfolding em(3) by blast
  let ?m' = "m2\<lparr>sock2client := (sock2client m2)(uvm_sock u := None)\<rparr>"
  have u: "sock2client m2 = sock2client m" "id2pid m2 = id2pid m" "pmem m2 = pmem m" "disk m2 = disk m"
    "mappings m2 = mappings m" "trace m2 = trace m @ [Pager_Destroy (int i)]" "mutex m2 = mutex m"
    using m2(3) by (simp_all add: untouched_def emit_def)
  have ow: "owns ?m' = owns m2" by (rule owns_cong) simp
  have pa: "page_at ?m' q = page_at m2 q" for q by (simp add: page_at_def)
  have t: "tables_ok ?m'" using pager_invD(2) [OF m2(2)] by (simp add: tables_ok_def)
  have inv': "pager_inv {} ?m'" by (rule pager_inv_cong(1) [OF m2(2) ow pa t]) simp_all
  have ct: "content ?m' q = content m q" if o: "owns m2 pid' q" for pid' q
  proof -
    have "content ?m' q = content m2 q"
      by (rule pager_inv_cong(2) [OF m2(2) ow pa t _ _ _ _ _ _ _ _ _ o]) simp_all
    moreover have "owns m pid' q" using o m2(5) by blast
    ultimately show ?thesis using m2(6) o em(5) by metis
  qed
  have "mmu_client_exit net (uvm_sock u) c (Some Exit_Req) m = Inr (Some Exit_Rep, ?m')"
    using cn pid i m2(1) by (simp add: mmu_client_exit_def connected_def)
  moreover have "system_ok net ?m'"
  proof -
    have "served net ?m' q" if "owns m2 q y" for q y
    proof (rule served_forget [OF _ cn])
      have o: "owns m q y" "q \<noteq> ?pid" using that m2(5) by blast+
      show "served net m q" by (rule served_allD [OF system_okD(2) [OF sys] o(1)])
      show "q \<noteq> ?pid" by (rule o(2))
    qed (simp_all add: u)
    then show ?thesis using inv' u(7) system_okD(3) [OF sys] by (auto simp: system_ok_def served_all_def ow)
  qed
  moreover have "frees m ?m' ?pid" using m2(4) em(3,4) unfolding frees_def by simp
  moreover have "\<forall>pid q. owns ?m' pid q \<longleftrightarrow> owns m pid q \<and> pid \<noteq> ?pid"
    using m2(5) ow by simp
  moreover have "\<forall>pid q. owns ?m' pid q \<longrightarrow> content ?m' q = content m q" using ct ow by auto
  ultimately show ?thesis using u by (intro exI [of _ ?m']) simp
qed

end
