(* ===== verification/Pager_Faults.thy ===== *)
theory Pager_Faults
  imports Client_Life
begin

text \<open>
  The situations in which the pager fails: a \<open>realloc\<close> that moves an array of pages, a process
  id that comes back, a client that goes away during an exchange, more clients than entries.
\<close>

section \<open>Arrays that move\<close>

lemma swap_dangling:
  assumes "f < length (frames m)" and "fl_size m = length (frames m)"
    and "fr_page (frames m ! f) = Some (a, i)" and "page_arrays m a = None"
  shows "swap net (int f) m = Inl Bad_Pointer"
proof (cases "f = 0")
  case True
  have "[0..<fl_size m] = 0 # [Suc 0..<fl_size m]" using assms(1,2) by (intro upt_conv_Cons) linarith
  with True assms show ?thesis by (simp add: swap_def at_def load_page_def)
next
  case False
  with assms show ?thesis by (simp add: swap_def at_def store_page_def)
qed

lemma realloc_moves:
  assumes t: "tables_ok m" and mx: "\<not> mutex m" and al: "alive m pid ti"
    and full: "page_count (page_list m ! ti) = page_capacity (page_list m ! ti)"
      "0 < page_count (page_list m ! ti)" "pt_pages (page_list m ! ti) = Some a"
    and b: "find_free_block m = int b" "b < length (blocks m)"
    and moved: "a' \<noteq> a" "2 * page_count (page_list m ! ti) \<le> length junk"
  shows "\<exists>va m'. pager_extend (Some (a', junk)) pid m = Inr (Some va, m') \<and> page_arrays m' a = None \<and>
    frames m' = frames m \<and> fl_size m' = fl_size m"
proof -
  let ?t = "page_list m ! ti" and ?m0 = "m\<lparr>mutex := True\<rparr>"
  from al full obtain ar where ar: "ti < length (page_list m)" "page_arrays m a = Some ar"
    "length ar = page_capacity ?t" by (auto simp: alive_def)
  have "find_page_table pid ?m0 = Inr ti"
    using find_table_alive [OF t al] by (simp add: find_page_table_def)
  moreover have "find_free_block ?m0 = int b" "int b \<noteq> INVALID_PID"
    using b by (simp_all add: find_free_block_def INVALID_PID_def)
  moreover have "page_count ?t < length ar + length (drop (length ar) junk)"
    using full ar moved by simp
  ultimately show ?thesis
    using mx full ar b moved by (simp add: pager_extend_def lock_def unlock_def grow_pages_def
        realloc_array_def store_table_def store_page_def store_block_def set_at_def Let_def)
qed

section \<open>A process id that comes back\<close>

text \<open>
  The table of a dead process stays in \<open>page_list\<close> in front of any later table with the same
  id, and its array has been freed: the next page of that id is written into freed memory.
\<close>

lemma pid_reuse_dangling:
  assumes inv: "pager_inv {} m" and mx: "\<not> mutex m" and al: "alive m pid ti"
    and cap: "0 < page_capacity (page_list m ! ti)"
    and dead: "pager_destroy pid m = Inr m1" and new: "pager_create memory pid m1 = Inr m2"
    and mem: "memory \<noteq> pt_pages (page_list m ! ti)" and b: "find_free_block m2 = int b"
  shows "pager_extend pages pid m2 = Inl Bad_Pointer"
proof -
  let ?t = "(page_list m ! ti)\<lparr>page_count := 0\<rparr>"
  obtain a where a: "ti < length (page_list m)" "pt_pid (page_list m ! ti) = pid"
    "pt_pages (page_list m ! ti) = Some a" using al by (auto simp: alive_def)
  from pager_destroy_ok [OF inv mx al] dead a have d: "page_list m1 = (page_list m)[ti := ?t]"
    "page_arrays m1 = (page_arrays m)(a := None)" "mutex m1 = mutex m"
    by (auto simp: untouched_def)
  have j: "pt_pid (page_list m ! j) \<noteq> pid" if "j < ti" for j
    using other_table(2) [OF pager_invD(2) [OF inv], of j ti] that a by simp
  from new d(3) mx obtain t where c: "page_list m2 = page_list m1 @ [t]" "page_arrays m2 a = None"
    "\<not> mutex m2"
    using d(2) mem a(3) by (cases memory)
      (auto simp: pager_create_def lock_def unlock_def Let_def split: if_splits)
  let ?m0 = "m2\<lparr>mutex := True\<rparr>"
  have nt: "page_list ?m0 ! ti = ?t" "ti < length (page_list ?m0)" using a c(1) d(1) by (simp_all add: nth_append)
  have "find_index (\<lambda>t. pt_pid t = pid) (page_list ?m0) = Some ti"
    using a c(1) d(1) j by (auto simp: find_index_Some nth_append)
  then have "find_page_table pid ?m0 = Inr ti" by (simp only: find_page_table_def option.case)
  moreover have "find_free_block ?m0 = int b" "int b \<noteq> INVALID_PID"
    using b by (simp_all add: find_free_block_def INVALID_PID_def)
  ultimately show ?thesis
    using nt cap c a(3) by (simp add: pager_extend_def lock_def grow_pages_def store_table_def
        set_at_def store_page_def Let_def)
qed

section \<open>A client that goes away\<close>

lemma fault_of_lost_client:
  assumes inv: "pager_inv {} m" and mx: "\<not> mutex m" and p: "owns m pid p"
    and x: "page_at m p = Some x" "isvalid x = 1"
    and va: "va = addr x + r" "0 \<le> r" "r < int (page_size m)"
    and pid: "pid \<in> set (id2pid m)" "pid \<noteq> 0"
    and s: "find (\<lambda>i. case sock2client m i of None \<Rightarrow> False | Some c \<Rightarrow> cl_pid c = pid)
      [3..<MMU_MAX_SOCK] = Some sock" "\<not> net sock"
  shows "pager_fault net pid va m = Inl Self_Deadlock"
proof -
  let ?m0 = "m\<lparr>mutex := True\<rparr>"
  have inv0: "pager_inv {} ?m0" and p0: "owns ?m0 pid p" using inv p by simp_all
  have x0: "page_at ?m0 p = Some x" using x by simp
  from find_page_table_ok [OF pager_invD(2) [OF inv0] p0] obtain ti where ti:
    "find_page_table pid ?m0 = Inr ti" "ti < length (page_list ?m0)"
    "pt_pid (page_list ?m0 ! ti) = pid" "pt_pages (page_list ?m0 ! ti) = Some (fst p)"
    "snd p < page_count (page_list ?m0 ! ti)" .
  note ad = pages_okD(1) [OF inv0 p0 x0] and g = pager_invD(1) [OF inv0]
  have base: "va - c_rem va (int (page_size ?m0)) = UVM_BASEADDR + int (snd p) * int (page_size ?m0)"
    using page_base [of "page_size ?m0" va "snd p" r] g va ad by (auto simp: geometry_def)
  have "get_page ti (UVM_BASEADDR + int (snd p) * int (page_size ?m0)) ?m0 = Inr (Some (fst p, snd p))"
    by (rule get_page_ok [OF inv0 ti(2-5), where r = 0]) (use g in \<open>auto simp: geometry_def\<close>)
  moreover have "mmu_chprot net pid v prot ?m0 = Inl Self_Deadlock" for v prot
    by (rule mmu_chprot_lost(1)) (use pid s in simp_all)
  ultimately show ?thesis
    using mx ti(1) base x0 x(2) by (simp add: pager_fault_def lock_def check_page_validity_def
        handle_valid_page_def Let_def)
qed

section \<open>More clients than entries\<close>

lemma create_out_of_ids:
  assumes "length (id2pid m) \<le> unat (nextid m)"
  shows "mmu_client_create net memory path sock c (Some (Create_Req p)) m = Inl Out_Of_Bounds"
  using assms by (simp add: mmu_client_create_def set_at_def Let_def)

section \<open>Printing\<close>

lemma syslog_loop_inside:
  assumes "\<forall>j. i \<le> j \<and> j < i + n \<longrightarrow> get_page ti (va + int j) m = Inr (Some p)"
    and "page_at m p = Some x" and "0 \<le> frame_number x"
    and "frame_number x * int (page_size m) + int (i + n) \<le> int (length (pmem m))"
  shows "syslog_loop ti va i n page m = Inr (Some (if n = 0 then page else Some p))"
  using assms
proof (induction n arbitrary: i page)
  case 0
  then show ?case by simp
next
  case (Suc n)
  have "get_page ti (va + int i) m = Inr (Some p)" using Suc.prems(1) by simp
  moreover have "frame_number x * int (page_size m) + int i < int (length (pmem m))"
    "0 \<le> frame_number x * int (page_size m) + int i" using Suc.prems(3,4) by simp_all
  moreover have "syslog_loop ti va (i + 1) n (Some p) m = Inr (Some (if n = 0 then Some p else Some p))"
    using Suc.prems by (intro Suc.IH) auto
  ultimately show ?case using Suc.prems(2) by (simp add: at_def)
qed

lemma read_bytes_chunk:
  "o2 + n \<le> length (pmem m) \<Longrightarrow> read_bytes (int o2) n m = Inr (chunk o2 n (pmem m))"
proof (induction n arbitrary: o2)
  case 0
  then show ?case by (simp add: chunk_def)
next
  case (Suc n)
  have "read_bytes (int o2 + 1) n m = Inr (chunk (Suc o2) n (pmem m))"
    using Suc.IH [of "Suc o2"] Suc.prems by (simp add: add.commute)
  moreover have "chunk o2 (Suc n) (pmem m) = pmem m ! o2 # chunk (Suc o2) n (pmem m)"
    using Suc.prems by (simp add: chunk_def Cons_nth_drop_Suc [symmetric])
  ultimately show ?case using Suc.prems by (simp add: at_def)
qed

text \<open>
  \<open>pager_syslog\<close> prints the start of a frame: the one whose number the page has, whether it is
  in it or not, and from its first byte on, wherever in the page the message starts.
\<close>

lemma pager_syslog_prints_frame:
  assumes inv: "pager_inv {} m" and mx: "\<not> mutex m" and p: "owns m pid p"
    and x: "page_at m p = Some x" and f: "has_frame m (frame_number x)"
    and va: "va = addr x + int r" "r + len \<le> page_size m" "0 < len"
  shows "pager_syslog pid va len m =
    Inr (0, emit (Bytes (map scast (take len (frame_bytes m (frame_number x))))) m)"
proof -
  let ?m0 = "m\<lparr>mutex := True\<rparr>" and ?f = "nat (frame_number x)"
  have inv0: "pager_inv {} ?m0" and p0: "owns ?m0 pid p" using inv p by simp_all
  have x0: "page_at ?m0 p = Some x" using x by simp
  from find_page_table_ok [OF pager_invD(2) [OF inv0] p0] obtain ti where ti:
    "find_page_table pid ?m0 = Inr ti" "ti < length (page_list ?m0)"
    "pt_pid (page_list ?m0 ! ti) = pid" "pt_pages (page_list ?m0 ! ti) = Some (fst p)"
    "snd p < page_count (page_list ?m0 ! ti)" .
  note ad = pages_okD(1) [OF inv0 p0 x0]
  have fits: "0 \<le> frame_number x" "?f * page_size m + page_size m \<le> length (pmem m)"
    using f by (simp_all add: has_frame_def)
  have "int (?f * page_size m + page_size m) \<le> int (length (pmem m))" using fits(2) by (rule zle_int [THEN iffD2])
  then have room: "frame_number x * int (page_size m) + int (0 + len) \<le> int (length (pmem m))"
    using fits(1) va by simp
  have fi: "frame_number x * int (page_size m) = int (?f * page_size m)" using fits(1) by simp
  have "get_page ti (va + int j) ?m0 = Inr (Some (fst p, snd p))" if "j < len" for j
    by (rule get_page_ok [OF inv0 ti(2-5), where r = "int r + int j"]) (use va ad that in simp_all)
  then have "syslog_loop ti va 0 len None ?m0 = Inr (Some (if len = 0 then None else Some p))"
    using x0 fits(1) room by (intro syslog_loop_inside) simp_all
  moreover have "read_bytes (int (?f * page_size m)) len ?m0 = Inr (chunk (?f * page_size m) len (pmem ?m0))"
    using fits va by (intro read_bytes_chunk) simp
  moreover have "chunk (?f * page_size m) len (pmem m) = take len (frame_bytes m (frame_number x))"
    using va by (simp add: chunk_def frame_bytes_def)
  moreover have "m\<lparr>mutex := False\<rparr> = m" using mx by simp
  ultimately show ?thesis
    using mx ti(1) x0 va by (simp add: pager_syslog_def lock_def unlock_def print_page_bytes_def fi
        emit_def)
qed

end
