(* ===== verification/TP2_Demo.thy ===== *)
theory TP2_Demo
  imports Pager_Faults Message_Correct Proto
begin

text \<open>
  A small machine for the witnesses: one frame of four bytes, two disk blocks, and a process
  with two pages that compete for the frame.
\<close>

definition all_up :: "nat \<Rightarrow> bool" where
  "all_up = (\<lambda>_. True)"

definition junk_page :: page_t where
  "junk_page = \<lparr>isvalid = 0, frame_number = 0, block_number = 0, is_allocated = 0, addr = 0\<rparr>"

definition junk_frame :: frames_t where
  "junk_frame = \<lparr>fr_pid = 0, reference_bit = 0, fr_page = None\<rparr>"

definition junk_block :: blocks_t where
  "junk_block = \<lparr>bl_allocated = 0, bl_page = None\<rparr>"

definition cold :: machine where
  "cold = \<lparr>fl_size = 0, page_size = 0, second_chance_index = 0, frames = [], nblocks = 0,
     blocks = [], page_list = [], page_tables_capacity = 10, page_arrays = Map.empty,
     mutex = False, pmem = replicate 4 0, disk = replicate 8 0, id2pid = replicate 255 0,
     nextid = 0, sock2client =
       [5 \<mapsto> \<lparr>cl_running = True, cl_pid = 0\<rparr>, 6 \<mapsto> \<lparr>cl_running = True, cl_pid = 0\<rparr>], mmu_running = True,
     mappings = (\<lambda>_. Map.empty), trace = []\<rparr>"

definition paged :: machine where
  "paged = projr (pager_init [junk_frame] [junk_block, junk_block] 4 1 2 cold)"

definition conn0 :: mmu_client where
  "conn0 = \<lparr>cl_running = True, cl_pid = 0\<rparr>"

definition conn :: mmu_client where
  "conn = \<lparr>cl_running = True, cl_pid = 100\<rparr>"

definition born :: machine where
  "born = snd (projr (mmu_client_create all_up (Some 0) [] 5 conn0 (Some (Create_Req 100)) paged))"

definition one_page :: "int \<times> uvm \<times> machine" where
  "one_page = projr (uvm_extend all_up (Some (0, [junk_page])) conn (new_uvm 5 100) born)"

definition two_pages :: "int \<times> uvm \<times> machine" where
  "two_pages = projr (uvm_extend all_up (Some (0, [junk_page, junk_page])) conn (fst (snd one_page))
     (snd (snd one_page)))"

definition small_uvm :: uvm where
  "small_uvm = fst (snd two_pages)"

definition small :: machine where
  "small = snd (snd two_pages)"

lemma paged_ok: "system_ok all_up paged" "page_list paged = []" "page_size paged = 4"
  "mappings paged = (\<lambda>_. Map.empty)" "\<not> owns paged pid q"
proof -
  have "UVM_BASEADDR mod int 4 = 0" by (simp add: UVM_BASEADDR_def)
  from pager_init_ok [of cold 4 1 "[junk_frame]" "[junk_block, junk_block]" 2, OF _ _ this]
  obtain m' where "pager_init [junk_frame] [junk_block, junk_block] 4 1 2 cold = Inr m'"
    "pager_inv {} m'" "\<not> mutex m'" "page_list m' = []" "page_size m' = 4"
    by (auto simp: cold_def)
  then show pl: "page_list paged = []" and "page_size paged = 4" and "system_ok all_up paged"
    by (simp_all add: paged_def system_ok_def served_all_def owns_def)
  show "mappings paged = (\<lambda>_. Map.empty)"
    by (simp add: paged_def pager_init_def lock_def unlock_def cold_def Let_def)
  show "\<not> owns paged pid q" by (simp add: owns_def pl)
qed

lemma paged_accepts: "accepted all_up 5 conn0 (sint (100 :: 32 word)) paged" "id_free paged"
  "fresh_memory paged (Some 0)"
proof -
  show "accepted all_up 5 conn0 (sint (100 :: 32 word)) paged"
    unfolding accepted_def using paged_ok(2,5)
    by (auto simp: all_up_def conn0_def MMU_MAX_SOCK_def INVALID_PID_def paged_def pager_init_def
        cold_def lock_def unlock_def Let_def split: if_splits)
  show "id_free paged"
    using paged_ok(5) by (simp add: id_free_def) (simp add: paged_def pager_init_def cold_def
        lock_def unlock_def Let_def)
  show "fresh_memory paged (Some 0)"
    by (simp add: fresh_memory_def paged_def pager_init_def cold_def lock_def unlock_def Let_def)
qed

lemma born_ok: "system_ok all_up born" "growing all_up conn (new_uvm 5 100) 0 born"
  "page_size born = 4" "page_capacity (page_list born ! 0) = 0"
  "pt_pages (page_list born ! 0) = Some 0"
proof -
  from mmu_client_create_ok [OF paged_ok(1) paged_accepts, of "[]"] obtain rep where
    run: "mmu_client_create all_up (Some 0) [] 5 conn0 (Some (Create_Req 100)) paged =
      Inr (Some (Create_Rep rep), born)" and sys: "system_ok all_up born" and
    c: "connected all_up (conn0\<lparr>cl_pid := 100\<rparr>) (new_uvm 5 100) born" and
    al: "alive born 100 0" "page_count (page_list born ! 0) = 0"
      "page_capacity (page_list born ! 0) = 0" and
    mp: "mappings born = mappings paged" "page_size born = page_size paged"
    by (auto simp: born_def paged_ok(2))
  show "system_ok all_up born" "page_size born = 4" "page_capacity (page_list born ! 0) = 0"
    using sys mp(2) al(3) by (simp_all add: paged_ok(3))
  have "conn0\<lparr>cl_pid := 100\<rparr> = conn" by (simp add: conn0_def conn_def)
  with c al mp show "growing all_up conn (new_uvm 5 100) 0 born"
    by (intro growing_new) (simp_all add: unmapped_above_def paged_ok(4))
  show "pt_pages (page_list born ! 0) = Some 0" by code_simp
qed

lemma one_page_ok:
  "system_ok all_up (snd (snd one_page))" "fst one_page = UVM_BASEADDR"
  "growing all_up conn (fst (snd one_page)) 0 (snd (snd one_page))"
  "uvm_npages (fst (snd one_page)) = 1" "uvm_pid (fst (snd one_page)) = 100"
  "page_size (snd (snd one_page)) = 4"
  "\<exists>a. owns (snd (snd one_page)) 100 (a, 0) \<and> content (snd (snd one_page)) (a, 0) = replicate 4 48"
proof -
  have re: "realloc_in_place born (page_list born ! 0) (Some (0, [junk_page]))"
    using born_ok(4,5) by (simp add: realloc_in_place_def)
  have b: "find_free_block born = int 0" "0 < length (blocks born)" "bl_page (blocks born ! 0) = None"
    by code_simp+
  have room: "UVM_BASEADDR + int (Suc (uvm_npages (new_uvm 5 100))) * int (page_size born) \<le> UVM_MAXADDR + 1"
    by (simp add: new_uvm_def born_ok(3) UVM_BASEADDR_def UVM_MAXADDR_def)
  from uvm_extend_ok [OF born_ok(1,2) re room b] obtain m' u' a where
    run: "uvm_extend all_up (Some (0, [junk_page])) conn (new_uvm 5 100) born = Inr (UVM_BASEADDR, u', m')"
    and sys: "system_ok all_up m'" and gr: "growing all_up conn u' 0 m'" and
    u': "u' = (new_uvm 5 100)\<lparr>uvm_npages := 1, uvm_result := UVM_BASEADDR\<rparr>" and
    ow: "owns m' 100 (a, 0)" "content m' (a, 0) = stored born 0"
    by (auto simp: new_uvm_def)
  have one: "one_page = (UVM_BASEADDR, u', m')" by (simp add: one_page_def run)
  show "system_ok all_up (snd (snd one_page))" "fst one_page = UVM_BASEADDR"
    "growing all_up conn (fst (snd one_page)) 0 (snd (snd one_page))"
    "uvm_npages (fst (snd one_page)) = 1" "uvm_pid (fst (snd one_page)) = 100"
    using sys gr u' by (simp_all add: one) (simp_all add: new_uvm_def)
  show "page_size (snd (snd one_page)) = 4" by code_simp
  have "stored born 0 = replicate 4 48" by code_simp
  with ow show "\<exists>a. owns (snd (snd one_page)) 100 (a, 0) \<and>
    content (snd (snd one_page)) (a, 0) = replicate 4 48" by (auto simp: one)
qed

lemma small_ok:
  "system_ok all_up small" "growing all_up conn small_uvm 0 small" "uvm_npages small_uvm = 2"
  "uvm_pid small_uvm = 100" "page_size small = 4" "represents small (\<lambda>_ _. 48)"
proof -
  let ?m = "snd (snd one_page)" and ?u = "fst (snd one_page)"
  have "page_capacity (page_list ?m ! 0) = 1" "pt_pages (page_list ?m ! 0) = Some 0" by code_simp+
  then have re: "realloc_in_place ?m (page_list ?m ! 0) (Some (0, [junk_page, junk_page]))"
    using one_page_ok(3,4) by (simp add: realloc_in_place_def growing_def)
  have b: "find_free_block ?m = int 1" "1 < length (blocks ?m)" "bl_page (blocks ?m ! 1) = None"
    by code_simp+
  have room: "UVM_BASEADDR + int (Suc (uvm_npages ?u)) * int (page_size ?m) \<le> UVM_MAXADDR + 1"
    by (simp add: one_page_ok(4,6) UVM_BASEADDR_def UVM_MAXADDR_def)
  from uvm_extend_ok [OF one_page_ok(1,3) re room b] obtain m' u' a va where
    run: "uvm_extend all_up (Some (0, [junk_page, junk_page])) conn ?u ?m = Inr (va, u', m')"
    and sys: "system_ok all_up m'" and gr: "growing all_up conn u' 0 m'" and
    u': "u' = ?u\<lparr>uvm_npages := 2, uvm_result := va\<rparr>" and
    ow: "owns m' 100 (a, 1)" "content m' (a, 1) = stored ?m 1" and
    old: "\<forall>pid q. owns ?m pid q \<longrightarrow> owns m' pid q \<and> content m' q = content ?m q"
    by (auto simp: one_page_ok(4,5) numeral_2_eq_2)
  have two: "two_pages = (va, u', m')" by (simp add: two_pages_def run)
  have sm: "small = m'" "small_uvm = u'"
    by (simp_all only: small_def small_uvm_def two fst_conv snd_conv)
  show s: "system_ok all_up small" "growing all_up conn small_uvm 0 small" "uvm_npages small_uvm = 2"
    "uvm_pid small_uvm = 100" using sys gr u' by (simp_all add: sm one_page_ok(5))
  show ps: "page_size small = 4" by code_simp
  have st: "stored ?m 1 = replicate 4 48" by code_simp
  obtain a0 where a0: "owns ?m 100 (a0, 0)" "content ?m (a0, 0) = replicate 4 48"
    using one_page_ok(7) by blast
  have "page_list small = [\<lparr>pt_pid = 100, pt_pages = Some 0, page_count = 2, page_capacity = 2\<rparr>]"
    by code_simp
  then have all: "owns small pid q \<longleftrightarrow> pid = 100 \<and> fst q = 0 \<and> snd q < 2" for pid q
    by (auto simp: owns_def)
  have c: "content small (0, 0) = replicate 4 48" "content small (0, 1) = replicate 4 48"
    using old a0 ow st all [of 100 "(a0, 0)"] all [of 100 "(a, 1)"] by (auto simp: sm)
  show "represents small (\<lambda>_ _. 48)"
    unfolding represents_def all ps
  proof (intro allI impI, elim conjE)
    fix pid r and q :: "nat \<times> nat" assume "fst q = 0" "snd q < 2" "r < (4 :: nat)"
    moreover from this have "q = (0, 0) \<or> q = (0, 1)" by (cases q) auto
    ultimately show "content small q ! r = 48" using c by auto
  qed
qed

section \<open>A second process\<close>

text \<open>
  Process 200 connects, process 100 writes to its first page and pushes it out to disk with its
  second one, and dies.
\<close>

definition conn2 :: mmu_client where
  "conn2 = \<lparr>cl_running = True, cl_pid = 200\<rparr>"

definition joined :: machine where
  "joined = snd (projr (mmu_client_create all_up (Some 1) [] 6 conn0 (Some (Create_Req 200)) small))"

definition scribbled :: machine where
  "scribbled = projr (store_byte access_fuel all_up conn UVM_BASEADDR 7 small_uvm joined)"

definition used :: machine where
  "used = snd (projr (load_byte access_fuel all_up conn (UVM_BASEADDR + 4) small_uvm scribbled))"

definition bereft :: machine where
  "bereft = projr (pager_destroy 100 used)"

lemma small_table:
  "page_list small = [\<lparr>pt_pid = 100, pt_pages = Some 0, page_count = 2, page_capacity = 2\<rparr>]"
  by code_simp

lemma small_owns: "owns small pid q \<longleftrightarrow> pid = 100 \<and> fst q = 0 \<and> snd q < 2"
  by (auto simp: owns_def small_table)

lemma small_arrays: "page_arrays small (Suc 0) = None" "nextid small = 1"
  "id2pid small = 100 # replicate 254 0" "sock2client small 6 = Some conn0"
  by code_simp+

lemma small_socks: "sock2client small s = (if s = 5 then Some conn else if s = 6 then Some conn0 else None)"
proof -
  have "sock2client small s = (if s = 5 then Some \<lparr>cl_running = True, cl_pid = 100\<rparr>
      else if s = 6 then Some \<lparr>cl_running = True, cl_pid = 0\<rparr>
      else if s = 5 then Some \<lparr>cl_running = True, cl_pid = 0\<rparr> else None)" by code_simp
  then show ?thesis by (simp add: conn_def conn0_def)
qed

lemma joined_ok:
  "system_ok all_up joined" "connected all_up conn2 (new_uvm 6 200) joined" "alive joined 200 1"
  "page_count (page_list joined ! 1) = 0" "owns joined = owns small" "page_size joined = 4"
  "represents joined (\<lambda>_ _. 48)"
proof -
  have ac: "accepted all_up 6 conn0 (sint (200 :: 32 word)) small"
    unfolding accepted_def by (auto simp: small_socks small_owns small_table all_up_def conn_def
        conn0_def MMU_MAX_SOCK_def INVALID_PID_def split: if_splits)
  have id: "id_free small"
    by (simp add: id_free_def small_arrays small_owns)
  have mem: "fresh_memory small (Some 1)" by (simp add: fresh_memory_def small_arrays)
  from mmu_client_create_ok [OF small_ok(1) ac id mem, of "[]"] obtain rep where
    "mmu_client_create all_up (Some 1) [] 6 conn0 (Some (Create_Req 200)) small =
      Inr (Some (Create_Rep rep), joined)"
    and j: "system_ok all_up joined" "connected all_up (conn0\<lparr>cl_pid := 200\<rparr>) (new_uvm 6 200) joined"
    "alive joined 200 1" "page_count (page_list joined ! 1) = 0" "owns joined = owns small"
    "page_size joined = page_size small"
    "\<forall>pid q. owns small pid q \<longrightarrow> content joined q = content small q"
    by (auto simp: joined_def small_table)
  have "conn0\<lparr>cl_pid := 200\<rparr> = conn2" by (simp add: conn0_def conn2_def)
  with j show "system_ok all_up joined" "connected all_up conn2 (new_uvm 6 200) joined"
    "alive joined 200 1" "page_count (page_list joined ! 1) = 0" "owns joined = owns small"
    "page_size joined = 4" by (simp_all add: small_ok(5))
  show "represents joined (\<lambda>_ _. 48)"
    unfolding represents_def
  proof (intro allI impI, elim conjE)
    fix pid q r assume "owns joined pid q" "r < page_size joined"
    then have q: "owns small pid q" "r < page_size small" using j(5,6) by simp_all
    then have "content joined q = content small q" using j(7) by blast
    with representsD [OF small_ok(6) q] show "content joined q ! r = 48" by simp
  qed
qed

lemma joined_shape: "length (frames joined) = 1" "length (blocks joined) = 2"
  "map_option length (page_arrays joined 0) = Some 2"
  "page_arrays joined (Suc 0) = Some []" "mappings joined 200 v = None"
  "map_option block_number (page_at joined (0, 0)) = Some 0"
  "page_list joined = [\<lparr>pt_pid = 100, pt_pages = Some 0, page_count = 2, page_capacity = 2\<rparr>,
    \<lparr>pt_pid = 200, pt_pages = Some 1, page_count = 0, page_capacity = 0\<rparr>]"
  by code_simp+

lemma joined_owns: "owns joined pid q \<longleftrightarrow> pid = 100 \<and> fst q = 0 \<and> snd q < 2"
  using joined_ok(5) small_owns by simp

lemma used_ok:
  "system_ok all_up used" "steady joined used" "content used (0, 0) = [7, 48, 48, 48]"
  "\<exists>y. page_at used (0, 1) = Some y \<and> isvalid y = 1"
proof -
  have cl: "client_ok all_up conn small_uvm joined"
    using small_ok(2) joined_ok(5,6) by (simp add: growing_def client_ok_def small_ok(5))
  have o: "owns joined (uvm_pid small_uvm) (0, 0)" "owns joined (uvm_pid small_uvm) (0, 1)"
    by (simp_all add: joined_owns small_ok(4))
  note inv = system_okD(1) [OF joined_ok(1)]
  obtain x where x: "page_at joined (0, 0) = Some x" using pages_okE [OF pager_invD(3) [OF inv] o(1)] .
  have ax: "UVM_BASEADDR = addr x + 0" using pages_okD(1) [OF inv o(1) x] by simp
  from store_byte_ok [OF joined_ok(1) cl o(1) _ x ax, of 0 7] obtain m where
    "store_byte access_fuel all_up conn UVM_BASEADDR 7 small_uvm joined = Inr m"
    "system_ok all_up m" "written joined m (0, 0) 0 7"
    by (auto simp: small_ok(3) joined_ok(6) access_fuel_def numeral_3_eq_3 simp del: store_byte.simps)
  then have sc: "system_ok all_up scribbled" "written joined scribbled (0, 0) 0 7"
    by (simp_all add: scribbled_def)
  have st: "steady joined scribbled" using sc(2) by (simp add: written_def)
  have "length (content joined (0, 0)) = 4"
    using length_content [OF inv o(1)] joined_ok(6) by simp
  moreover have "\<forall>r < 4. content joined (0, 0) ! r = 48"
    using representsD [OF joined_ok(7) o(1)] joined_ok(6) by simp
  ultimately have "content joined (0, 0) = replicate 4 48"
    by (intro replicate_eqI) (auto simp: in_set_conv_nth)
  then have "content joined (0, 0) = [48, 48, 48, 48]" by (simp add: numeral_eq_Suc)
  moreover have "content scribbled (0, 0) = (content joined (0, 0))[0 := 7]"
    using sc(2) o(1) unfolding written_def by simp
  ultimately have ct: "content scribbled (0, 0) = [7, 48, 48, 48]" by simp
  have cl1: "client_ok all_up conn small_uvm scribbled"
    by (rule client_ok_same [OF cl]) (rule steadyD(1,2) [OF st])+
  have o1: "owns scribbled (uvm_pid small_uvm) (0, 0)" "owns scribbled (uvm_pid small_uvm) (0, 1)"
    using o steady_owns [OF st] by simp_all
  note inv1 = system_okD(1) [OF sc(1)]
  obtain y where y: "page_at scribbled (0, 1) = Some y" using pages_okE [OF pager_invD(3) [OF inv1] o1(2)] .
  have ps: "page_size scribbled = 4" using steadyD(2) [OF st] joined_ok(6) by simp
  have ay: "UVM_BASEADDR + 4 = addr y + 0" using pages_okD(1) [OF inv1 o1(2) y] ps by simp
  from load_byte_ok [OF sc(1) cl1 o1(2) _ y ay, of 1] have u: "system_ok all_up used"
    "same_processes scribbled used" "\<exists>y. page_at used (0, 1) = Some y \<and> isvalid y = 1"
    by (auto simp: used_def small_ok(3) ps access_fuel_def numeral_3_eq_3 simp del: load_byte.simps)
  then show "system_ok all_up used" "\<exists>y. page_at used (0, 1) = Some y \<and> isvalid y = 1" by blast+
  show "steady joined used" using steady_trans [OF st] u(2) by (simp add: same_processes_def)
  show "content used (0, 0) = [7, 48, 48, 48]" using u(2) o1(1) ct unfolding same_processes_def by metis
qed

text \<open>The page that was written is on disk now: there is only one frame.\<close>

lemma used_disk:
  "bl_allocated (blocks used ! 0) = 1" "block_bytes used 0 = [7, 48, 48, 48]"
proof -
  note inv = system_okD(1) [OF used_ok(1)]
  have o: "owns used 100 (0, 0)" "owns used 100 (0, 1)"
    using joined_owns steady_owns [OF used_ok(2)] by simp_all
  obtain x where x: "page_at used (0, 0) = Some x" using pages_okE [OF pager_invD(3) [OF inv] o(1)] .
  obtain y where y: "page_at used (0, 1) = Some y" "isvalid y = 1" using used_ok(4) by blast
  have fr: "length (frames used) = 1" using steadyD(6) [OF used_ok(2)] joined_shape(1) by simp
  have "isvalid x \<noteq> 1"
  proof
    assume v: "isvalid x = 1"
    have "frame_number x = 0" "frame_number y = 0"
      using pages_okD(5) [OF inv o(1) x v] pages_okD(5) [OF inv o(2) y] fr
      by (simp_all add: in_frame_def)
    with frames_apart [OF inv o x y(1) v y(2)] show False by simp
  qed
  moreover have "block_number x = 0"
    using steadyD(9) [OF used_ok(2), of "(0, 0)"] joined_shape(6) x by simp
  ultimately have st: "stored used 0 = [7, 48, 48, 48]"
    using used_ok(3) x by (simp add: content_def page_bytes_def)
  have "page_size used = 4" using steadyD(2) [OF used_ok(2)] joined_ok(6) by simp
  then have "zero_page used = [48, 48, 48, 48]" by (simp add: zero_page_def numeral_eq_Suc)
  with st show "bl_allocated (blocks used ! 0) = 1" by (auto simp: stored_def split: if_splits)
  with st show "block_bytes used 0 = [7, 48, 48, 48]" by (simp add: stored_def)
qed

lemma used_alive:
  "alive used 100 0" "alive used 200 1" "connected all_up conn2 (new_uvm 6 200) used"
  "unmapped_above used 200 0" "page_size used = 4"
proof -
  note st = steadyD [OF used_ok(2)]
  have pl: "page_list used = [\<lparr>pt_pid = 100, pt_pages = Some 0, page_count = 2, page_capacity = 2\<rparr>,
    \<lparr>pt_pid = 200, pt_pages = Some 1, page_count = 0, page_capacity = 0\<rparr>]"
    using st(1) joined_shape(7) by simp
  have "map_option length (page_arrays used 0) = Some 2" "map_option length (page_arrays used (Suc 0)) = Some 0"
    using st(8) joined_shape(3,4) by simp_all
  then show "alive used 100 0" "alive used 200 1" by (auto simp: alive_def pl)
  show "connected all_up conn2 (new_uvm 6 200) used"
    using joined_ok(2) connected_cong [OF st(3,4), of "new_uvm 6 200" "new_uvm 6 200"] by simp
  have "mappings used 200 v = None" for v
    using st(10) [of 200 v] joined_shape(5) by (simp add: has_address_def joined_owns)
  then show "unmapped_above used 200 0" by (simp add: unmapped_above_def)
  show "page_size used = 4" using st(2) joined_ok(6) by simp
qed

lemma bereft_ok:
  "pager_destroy 100 used = Inr bereft" "growing all_up conn2 (new_uvm 6 200) 1 bereft"
  "page_capacity (page_list bereft ! 1) = 0" "pt_pages (page_list bereft ! 1) = Some 1"
  "page_size bereft = 4" "find_free_block bereft = 0" "0 < length (blocks bereft)"
  "bl_page (blocks bereft ! 0) = None"
proof -
  from pager_destroy_ok [OF system_okD(1,3) [OF used_ok(1)] used_alive(1)]
  have d: "pager_destroy 100 used = Inr bereft" "pager_inv {} bereft" "untouched used bereft"
    "frees used bereft 100"
    "page_list bereft = (page_list used)[0 := (page_list used ! 0)\<lparr>page_count := 0\<rparr>]"
    "page_arrays bereft = (page_arrays used)(the (pt_pages (page_list used ! 0)) := None)"
    by (auto simp: bereft_def)
  have u: "id2pid bereft = id2pid used" "sock2client bereft = sock2client used"
    "mappings bereft = mappings used" "page_size bereft = page_size used"
    "map bl_allocated (blocks bereft) = map bl_allocated (blocks used)"
    using d(3) by (simp_all add: untouched_def)
  note st = steadyD [OF used_ok(2)]
  have pl: "page_list bereft = [\<lparr>pt_pid = 100, pt_pages = Some 0, page_count = 0, page_capacity = 2\<rparr>,
    \<lparr>pt_pid = 200, pt_pages = Some 1, page_count = 0, page_capacity = 0\<rparr>]"
    using d(5) st(1) joined_shape(7) by simp
  have "page_arrays bereft (Suc 0) = page_arrays used (Suc 0)"
    using d(6) st(1) joined_shape(7) by simp
  moreover have "map_option length (page_arrays used (Suc 0)) = Some 0"
    using st(8) joined_shape(4) by simp
  ultimately have "alive bereft 200 1" by (auto simp: alive_def pl)
  then show "growing all_up conn2 (new_uvm 6 200) 1 bereft"
    using used_alive(3,4) connected_cong [OF u(1,2), of "new_uvm 6 200" "new_uvm 6 200"]
    by (intro growing_new) (simp_all add: pl unmapped_above_def u)
  show "pager_destroy 100 used = Inr bereft" "page_capacity (page_list bereft ! 1) = 0"
    "pt_pages (page_list bereft ! 1) = Some 1" "page_size bereft = 4"
    using d(1) u used_alive(5) by (simp_all add: pl)
  have "length (blocks used) = length (blocks joined)" using st(7) by (metis length_map)
  then have l: "length (blocks bereft) = 2" using u(5) joined_shape(2) by (metis length_map)
  then show "0 < length (blocks bereft)" by simp
  have o: "owns used 100 (0, 0)" using joined_owns steady_owns [OF used_ok(2)] by simp
  obtain x where x: "page_at used (0, 0) = Some x"
    using pages_okE [OF pager_invD(3) [OF system_okD(1) [OF used_ok(1)]] o] .
  have "block_number x = 0" using st(9) [of "(0, 0)"] joined_shape(6) x by simp
  with d(4) o x show free: "bl_page (blocks bereft ! 0) = None" unfolding frees_def by fastforce
  have "nblocks bereft = 2" using pager_invD(1) [OF d(2)] l by (simp add: geometry_def)
  then have "find_index (\<lambda>b. bl_page b = None) (take (nblocks bereft) (blocks bereft)) = Some 0"
    using free l by (cases "blocks bereft") simp_all
  then show "find_free_block bereft = 0" by (simp only: find_free_block_def option.case of_nat_0)
qed

end
