(* ===== verification/TP2_Properties.thy ===== *)
theory TP2_Properties
  imports TP2_Demo
begin

text \<open>
  The properties of the paging system of \<open>TP 2\<close>: what its processes can rely on, and the
  behaviours in which it departs from its documentation.
\<close>

section \<open>Memory\<close>

text \<open>C4: paging is transparent.  Take any machine in which the pager's tables, the frames, the
  blocks and the mappings agree, and any interleaving of loads and stores of any processes
  inside the memory they were given.  However few frames there are, every access returns
  after at most two faults, each load gives the byte that was last stored at that address of
  that process, and the machine again represents the flat memories of the processes.\<close>

theorem paging_is_transparent:
  assumes "system_ok net m" and "represents m mu" and "\<forall>ac \<in> set acs. legal_access net procs m ac"
  shows "\<exists>m'. run_accesses net procs acs m = Inr (fst (flat_run acs mu), m') \<and>
    represents m' (snd (flat_run acs mu)) \<and> system_ok net m'"
  using run_accesses_ok [OF assms] by blast

lemma small_legal:
  "UVM_BASEADDR \<le> acc_addr ac \<Longrightarrow> acc_addr ac < UVM_BASEADDR + 8 \<Longrightarrow> acc_pid ac = 100 \<Longrightarrow>
   legal_access all_up (\<lambda>_. (conn, small_uvm)) small ac"
  using small_ok(2) by (simp add: legal_access_def growing_def small_ok(3-5))

theorem paging_is_transparent_witness:
  "\<exists>m'. run_accesses all_up (\<lambda>_. (conn, small_uvm)) [Store 100 UVM_BASEADDR 7,
     Store 100 (UVM_BASEADDR + 4) 8, Load 100 UVM_BASEADDR, Load 100 (UVM_BASEADDR + 1)] small =
   Inr ([7, 48], m')"
proof -
  let ?acs = "[Store 100 UVM_BASEADDR 7, Store 100 (UVM_BASEADDR + 4) 8, Load 100 UVM_BASEADDR,
    Load 100 (UVM_BASEADDR + 1)]"
  have "\<forall>ac \<in> set ?acs. legal_access all_up (\<lambda>_. (conn, small_uvm)) small ac"
    by (auto intro!: small_legal)
  from paging_is_transparent [OF small_ok(1,6) this] show ?thesis by auto
qed

text \<open>C12: a fault in a page of a process is served.  The handler of \<open>SIGSEGV\<close> returns, the page is
  in a frame and mapped, for reading on the first fault and for writing once it was already
  in, and no page of any process has other bytes than before.\<close>

theorem fault_serves_access:
  assumes "system_ok net m" and "client_ok net c u m" and "owns m (uvm_pid u) p"
    and "snd p < uvm_npages u" and "page_at m p = Some x"
    and "va = addr x + r" and "0 \<le> r" and "r < int (page_size m)"
  shows "\<exists>m'. uvm_segv_action net c va code u m = Inr (u, m') \<and> system_ok net m' \<and>
    same_processes m m' \<and>
    mapped_page m' (uvm_pid u) p (if isvalid x = 1 then PROT_RW else PROT_READ)"
  using assms by (rule segv_ok)

lemma small_pages:
  obtains x where "owns small 100 (0, 0)" and "page_at small (0, 0) = Some x" and "isvalid x = 0"
    and "addr x = UVM_BASEADDR" and "frame_number x = 0"
proof -
  have "page_list small = [\<lparr>pt_pid = 100, pt_pages = Some 0, page_count = 2, page_capacity = 2\<rparr>]"
    by code_simp
  then have "owns small 100 (0, 0)" by (simp add: owns_def)
  moreover have "map_option (\<lambda>x. (isvalid x, addr x, frame_number x)) (page_at small (0, 0)) =
      Some (0, UVM_BASEADDR, 0)"
    by code_simp
  ultimately show thesis using that by (cases "page_at small (0, 0)") auto
qed

theorem fault_serves_access_witness:
  "\<exists>m'. uvm_segv_action all_up conn (UVM_BASEADDR + 3) 1 small_uvm small = Inr (small_uvm, m') \<and>
    mapped_page m' 100 (0, 0) PROT_READ"
proof -
  obtain x where x: "owns small 100 (0, 0)" "page_at small (0, 0) = Some x" "isvalid x = 0"
    "addr x = UVM_BASEADDR" by (rule small_pages)
  moreover have "client_ok all_up conn small_uvm small" using small_ok(2) by (simp add: growing_def)
  ultimately show ?thesis
    using fault_serves_access [OF small_ok(1), of conn small_uvm "(0, 0)" x "UVM_BASEADDR + 3" 3 1]
    by (auto simp: small_ok(3-5))
qed

text \<open>C16: a page goes into the lowest free frame and no process is disturbed; when no frame is
  free the clock chooses, it terminates, and it takes the first frame from the hand on whose
  reference bit is clear (after one round, the frame at the hand), having cleared the bits of
  the frames it passed and leaving the hand behind its victim.\<close>

theorem frame_choice:
  assumes "clock_ready m"
  shows "(\<forall>f < length (frames m). fr_pid (frames m ! f) = INVALID_PID \<and>
      (\<forall>g < f. fr_pid (frames m ! g) \<noteq> INVALID_PID) \<longrightarrow> obtain_frame net m = Inr (int f, m)) \<and>
    (\<exists>k \<le> length (frames m). find_frame_to_swap m =
        Inr (int (hand m k), (passed m k)\<lparr>second_chance_index := hand m (Suc k)\<rparr>) \<and>
      (\<forall>j < k. reference_bit (frames m ! hand m j) \<noteq> 0) \<and>
      (k < length (frames m) \<longrightarrow> reference_bit (frames m ! hand m k) = 0))"
proof (intro conjI allI impI)
  fix f assume "f < length (frames m)" and "fr_pid (frames m ! f) = INVALID_PID \<and>
      (\<forall>g < f. fr_pid (frames m ! g) \<noteq> INVALID_PID)"
  with assms have "find_index (\<lambda>fr. fr_pid fr = INVALID_PID) (take (fl_size m) (frames m)) = Some f"
    by (simp add: find_index_Some clock_ready_def)
  then have "find_free_frame m = int f" by (simp only: find_free_frame_def option.case)
  then show "obtain_frame net m = Inr (int f, m)" by (simp add: obtain_frame_def INVALID_PID_def)
next
  show "\<exists>k \<le> length (frames m). find_frame_to_swap m =
        Inr (int (hand m k), (passed m k)\<lparr>second_chance_index := hand m (Suc k)\<rparr>) \<and>
      (\<forall>j < k. reference_bit (frames m ! hand m j) \<noteq> 0) \<and>
      (k < length (frames m) \<longrightarrow> reference_bit (frames m ! hand m k) = 0)"
    using find_frame_to_swap_eq [OF assms] clock_steps_cases [of m]
    by (intro exI [of _ "clock_steps m"]) simp
qed

theorem frame_choice_witness: "obtain_frame all_up small = Inr (0, small)"
proof -
  have "clock_ready small" "0 < length (frames small)" "fr_pid (frames small ! 0) = INVALID_PID"
    by code_simp+
  from frame_choice [OF this(1), of all_up] this(2,3) show ?thesis by auto
qed

text \<open>C15: a request for memory that finds a free block returns the address right after the pages
  the process has, makes that page the process's, moves no byte of any other page, and keeps
  the whole system in order.  The new page holds zero-filled memory if its block has never
  been written, and otherwise the bytes the block holds.\<close>

theorem extend_gives_next_page:
  assumes "system_ok net m" and "growing net c u ti m"
    and "realloc_in_place m (page_list m ! ti) pages"
    and "UVM_BASEADDR + int (Suc (uvm_npages u)) * int (page_size m) \<le> UVM_MAXADDR + 1"
    and "find_free_block m = int b" and "b < length (blocks m)" and "bl_page (blocks m ! b) = None"
  shows "\<exists>m' u' a. uvm_extend net pages c u m =
      Inr (UVM_BASEADDR + int (uvm_npages u) * int (page_size m), u', m') \<and> system_ok net m' \<and>
    growing net c u' ti m' \<and> uvm_npages u' = Suc (uvm_npages u) \<and>
    owns m' (uvm_pid u) (a, uvm_npages u) \<and>
    content m' (a, uvm_npages u) =
      (if bl_allocated (blocks m ! b) = 1 then block_bytes m (int b) else zero_page m) \<and>
    (\<forall>pid q. owns m pid q \<longrightarrow> owns m' pid q \<and> content m' q = content m q)"
  using uvm_extend_ok [OF assms] unfolding stored_def by fastforce

theorem extend_gives_next_page_witness:
  "\<exists>m' u'. uvm_extend all_up (Some (0, [junk_page])) conn (new_uvm 5 100) born =
     Inr (UVM_BASEADDR, u', m') \<and> system_ok all_up m' \<and> uvm_npages u' = 1"
proof -
  have re: "realloc_in_place born (page_list born ! 0) (Some (0, [junk_page]))"
    using born_ok(4,5) by (simp add: realloc_in_place_def)
  have b: "find_free_block born = int 0" "0 < length (blocks born)" "bl_page (blocks born ! 0) = None"
    by code_simp+
  have room: "UVM_BASEADDR + int (Suc (uvm_npages (new_uvm 5 100))) * int (page_size born) \<le> UVM_MAXADDR + 1"
    by (simp add: new_uvm_def born_ok(3) UVM_BASEADDR_def UVM_MAXADDR_def)
  from extend_gives_next_page [OF born_ok(1,2) re room b] show ?thesis by (auto simp: new_uvm_def)
qed

text \<open>When every block backs a page, the request returns \<open>NULL\<close> and changes nothing but the
  log; \<open>uvm_extend\<close> returns the \<open>NULL\<close> without setting \<open>errno\<close>.\<close>

theorem extend_fails_when_full:
  assumes "system_ok net m" and "connected net c u m" and "\<forall>b \<in> set (blocks m). bl_page b \<noteq> None"
  shows "\<exists>i. uvm_extend net pages c u m =
    Inr (0, u\<lparr>uvm_result := 0\<rparr>, emit (Pager_Extend i 0) m)"
proof -
  have n: "nblocks m = length (blocks m)"
    using pager_invD(1) [OF system_okD(1) [OF assms(1)]] by (simp add: geometry_def)
  have "find_free_block m = INVALID_PID"
    using find_free_block_cases [OF n] assms(3) nth_mem by metis
  with assms(1,2) show ?thesis by (rule uvm_extend_full)
qed

theorem extend_fails_when_full_witness:
  "\<exists>u' m'. uvm_extend all_up None conn small_uvm small = Inr (0, u', m') \<and> blocks m' = blocks small"
proof -
  have "list_all (\<lambda>b. bl_page b \<noteq> None) (blocks small)" by code_simp
  then have "\<forall>b \<in> set (blocks small). bl_page b \<noteq> None" by (simp only: list_all_iff)
  moreover have "connected all_up conn small_uvm small" using small_ok(2) by (simp add: growing_def)
  ultimately obtain i where "uvm_extend all_up None conn small_uvm small =
      Inr (0, small_uvm\<lparr>uvm_result := 0\<rparr>, emit (Pager_Extend i 0) small)"
    using extend_fails_when_full [OF small_ok(1), of conn small_uvm None] by blast
  then show ?thesis by (simp add: emit_def)
qed

section \<open>Processes\<close>

text \<open>A process that announces itself gets an empty page table and an entry among the ids;
  the connection serves it from then on, and every other process keeps its pages, their bytes
  and its own service.\<close>

theorem create_keeps_system:
  assumes "system_ok net m" and "accepted net sock c (sint p) m" and "id_free m"
    and "fresh_memory m memory"
  shows "\<exists>m' rep. mmu_client_create net memory path sock c (Some (Create_Req p)) m =
      Inr (Some (Create_Rep rep), m') \<and> system_ok net m' \<and>
    connected net (c\<lparr>cl_pid := sint p\<rparr>) (new_uvm sock (sint p)) m' \<and>
    alive m' (sint p) (length (page_list m)) \<and> owns m' = owns m \<and>
    (\<forall>pid q. owns m pid q \<longrightarrow> content m' q = content m q)"
  using mmu_client_create_ok [OF assms, of path] by blast

theorem create_keeps_system_witness:
  "\<exists>m' rep. mmu_client_create all_up (Some 0) [] 5 conn0 (Some (Create_Req 100)) paged =
     Inr (Some (Create_Rep rep), m') \<and> system_ok all_up m' \<and> alive m' 100 0"
  using create_keeps_system [OF paged_ok(1) paged_accepts, of "[]"] by (auto simp: paged_ok(2))

text \<open>C13: when a process leaves, every frame and every block that held a page of it is free, its
  socket is forgotten, and the pager asked nothing of the MMU: memory, disk, mappings and log
  are as before, but for the line that announces the call.  The other processes keep their
  pages and their bytes.\<close>

theorem exit_frees_everything:
  assumes "system_ok net m" and "connected net c u m" and "alive m (uvm_pid u) ti"
    and "uvm_pid u \<noteq> 0"
  shows "\<exists>m'. mmu_client_exit net (uvm_sock u) c (Some Exit_Req) m = Inr (Some Exit_Rep, m') \<and>
    system_ok net m' \<and> frees m m' (uvm_pid u) \<and> sock2client m' (uvm_sock u) = None \<and>
    pmem m' = pmem m \<and> disk m' = disk m \<and> mappings m' = mappings m \<and>
    (\<exists>i. trace m' = trace m @ [Pager_Destroy i]) \<and>
    (\<forall>pid q. owns m' pid q \<longleftrightarrow> owns m pid q \<and> pid \<noteq> uvm_pid u) \<and>
    (\<forall>pid q. owns m' pid q \<longrightarrow> content m' q = content m q)"
  using assms by (rule mmu_client_exit_ok)

theorem exit_frees_everything_witness:
  "\<exists>m'. mmu_client_exit all_up 5 conn (Some Exit_Req) small = Inr (Some Exit_Rep, m') \<and>
    (\<forall>pid q. \<not> owns m' pid q)"
proof -
  have "uvm_sock small_uvm = 5" by code_simp
  moreover have "page_list small = [\<lparr>pt_pid = 100, pt_pages = Some 0, page_count = 2, page_capacity = 2\<rparr>]"
    by code_simp
  then have "owns small pid q \<longrightarrow> pid = 100" for pid q by (auto simp: owns_def)
  moreover have "connected all_up conn small_uvm small" "alive small (uvm_pid small_uvm) 0"
    using small_ok(2) by (simp_all add: growing_def)
  ultimately show ?thesis
    using exit_frees_everything [OF small_ok(1), of conn small_uvm 0] by (simp add: small_ok(4)) metis
qed

text \<open>C29: blocks are handed on with their old contents.  \<open>pager_destroy\<close> does not clear
  \<open>is_allocated\<close>, so when a process dies and a later process gets one of its blocks that had
  been written, the new page does not start as zeros: the new process reads the data of the
  dead one.\<close>

theorem freed_block_leaks:
  assumes "system_ok net m" and "alive m pid ti" and "pager_destroy pid m = Inr m1"
    and "growing net c u tj m1" and "realloc_in_place m1 (page_list m1 ! tj) pages"
    and "UVM_BASEADDR + int (Suc (uvm_npages u)) * int (page_size m1) \<le> UVM_MAXADDR + 1"
    and "find_free_block m1 = int b" and "b < length (blocks m1)" and "bl_page (blocks m1 ! b) = None"
    and "bl_allocated (blocks m ! b) = 1"
  shows "\<exists>va u' m2 a. uvm_extend net pages c u m1 = Inr (va, u', m2) \<and>
    owns m2 (uvm_pid u) (a, uvm_npages u) \<and> content m2 (a, uvm_npages u) = block_bytes m (int b)"
proof -
  from pager_destroy_ok [OF system_okD(1) [OF assms(1)] system_okD(3) [OF assms(1)] assms(2)] assms(3)
  have d: "pager_inv {} m1" "untouched m m1"
    "\<forall>pid' q. owns m1 pid' q \<longleftrightarrow> owns m pid' q \<and> pid' \<noteq> pid" by auto
  then have same: "disk m1 = disk m" "page_size m1 = page_size m" "mutex m1 = mutex m"
    "id2pid m1 = id2pid m" "sock2client m1 = sock2client m"
    "map bl_allocated (blocks m1) = map bl_allocated (blocks m)" by (simp_all add: untouched_def)
  have "served net m1 = served net m" by (rule served_cong) (simp_all add: same)
  then have "system_ok net m1"
    using d assms(1) same(3) unfolding system_ok_def served_all_def by metis
  from extend_gives_next_page [OF this assms(4-9)] obtain m2 u' a va where
    "uvm_extend net pages c u m1 = Inr (va, u', m2)" "owns m2 (uvm_pid u) (a, uvm_npages u)"
    "content m2 (a, uvm_npages u) =
      (if bl_allocated (blocks m1 ! b) = 1 then block_bytes m1 (int b) else zero_page m1)" by blast
  moreover have "bl_allocated (blocks m1 ! b) = bl_allocated (blocks m ! b)"
    using same(6) assms(8) by (metis length_map nth_map)
  moreover have "block_bytes m1 (int b) = block_bytes m (int b)" by (simp add: block_bytes_def same)
  ultimately show ?thesis using assms(10) by auto
qed

theorem freed_block_leaks_witness:
  "\<exists>va u' m2 a. uvm_extend all_up (Some (1, [junk_page])) conn2 (new_uvm 6 200) bereft =
     Inr (va, u', m2) \<and> content m2 (a, 0) = [7, 48, 48, 48]"
proof -
  have re: "realloc_in_place bereft (page_list bereft ! 1) (Some (1, [junk_page]))"
    using bereft_ok(2-4) by (simp add: realloc_in_place_def growing_def new_uvm_def)
  have b: "find_free_block bereft = int 0" using bereft_ok(6) by simp
  have room: "UVM_BASEADDR + int (Suc (uvm_npages (new_uvm 6 200))) * int (page_size bereft) \<le> UVM_MAXADDR + 1"
    by (simp add: new_uvm_def bereft_ok(5) UVM_BASEADDR_def UVM_MAXADDR_def)
  from freed_block_leaks [OF used_ok(1) used_alive(1) bereft_ok(1,2) re room b bereft_ok(7,8)]
  show ?thesis by (auto simp: new_uvm_def used_disk)
qed

section \<open>Messages and disk\<close>

text \<open>C22: the receiver of a message reads what was sent: from the bytes of any well-formed message
  of the protocol, followed by anything, the packed structures give back that message and
  leave the rest of the stream.\<close>

theorem messages_read_back:
  assumes "whole m"
  shows "decode (encode m @ rest) = Some (m, rest)"
  using assms by (rule decode_encode)

theorem messages_read_back_witness:
  "decode (encode (Syslog_Req 5 0x60000000) @ encode Exit_Req) =
     Some (Syslog_Req 5 0x60000000, encode Exit_Req)"
  by (rule messages_read_back) simp

text \<open>A page survives a stay on disk.  Written to a block, its frame given to someone else,
  and read back into any frame, it has the bytes it had.\<close>

theorem page_survives_disk:
  assumes "has_frame m f" and "has_frame m g" and "has_block m b"
  shows "\<exists>m1 m2 m3. mmu_disk_write f b m = Inr m1 \<and> mmu_zero_fill f m1 = Inr m2 \<and>
    mmu_disk_read b g m2 = Inr m3 \<and> frame_bytes m3 g = frame_bytes m f"
  using assms by (rule ps.round_trip)

theorem page_survives_disk_witness:
  "\<exists>m1 m2 m3. mmu_disk_write 0 1 small = Inr m1 \<and> mmu_zero_fill 0 m1 = Inr m2 \<and>
    mmu_disk_read 1 0 m2 = Inr m3 \<and> frame_bytes m3 0 = frame_bytes small 0"
proof -
  have "has_frame small 0" "has_block small 1" by code_simp+
  from page_survives_disk [OF this(1,1,2)] show ?thesis .
qed

section \<open>Faults\<close>

text \<open>C30: \<open>frame->page\<close> outlives the page.  When \<open>pager_extend\<close> doubles the array of a process that
  has pages in memory and \<open>realloc\<close> moves it, the frames keep pointing into the array that was
  freed, and the next eviction of such a frame goes through the dangling pointer.\<close>

theorem moved_array_dangles:
  assumes "tables_ok m" and "\<not> mutex m" and "alive m pid ti"
    and "page_count (page_list m ! ti) = page_capacity (page_list m ! ti)"
    and "0 < page_count (page_list m ! ti)" and "pt_pages (page_list m ! ti) = Some a"
    and "find_free_block m = int b" and "b < length (blocks m)"
    and "a' \<noteq> a" and "2 * page_count (page_list m ! ti) \<le> length junk"
    and "f < length (frames m)" and "fl_size m = length (frames m)"
    and "fr_page (frames m ! f) = Some (a, i)"
  shows "\<exists>va m'. pager_extend (Some (a', junk)) pid m = Inr (Some va, m') \<and>
    swap net (int f) m' = Inl Bad_Pointer"
proof -
  from realloc_moves [OF assms(1-10)] obtain va m' where
    "pager_extend (Some (a', junk)) pid m = Inr (Some va, m')" "page_arrays m' a = None"
    "frames m' = frames m" "fl_size m' = fl_size m" by blast
  with swap_dangling [of f m' a i net] assms(11-13) show ?thesis by auto
qed

lemma steady_free_block:
  assumes "steady m m'"
  shows "find_free_block m' = find_free_block m"
proof -
  have "nblocks m' = nblocks m" "map bl_page (blocks m') = map bl_page (blocks m)"
    using assms unfolding steady_def by blast+
  then show ?thesis
    unfolding find_free_block_def find_index_map [of "\<lambda>q. q = None" bl_page, symmetric] take_map [symmetric]
    by simp
qed

theorem moved_array_dangles_witness:
  "\<exists>m va m'. pager_extend (Some (3, [junk_page, junk_page])) 100 m = Inr (Some va, m') \<and>
     swap all_up 0 m' = Inl Bad_Pointer"
proof -
  let ?m = "snd (snd one_page)" and ?u = "fst (snd one_page)"
  have pl: "page_list ?m = [\<lparr>pt_pid = 100, pt_pages = Some 0, page_count = 1, page_capacity = 1\<rparr>]"
    "length (frames ?m) = 1" "length (blocks ?m) = 2" by code_simp+
  have bl: "find_free_block ?m = int 1" by code_simp
  have o: "owns ?m 100 (0, 0)" by (simp add: owns_def pl)
  note inv = system_okD(1) [OF one_page_ok(1)]
  obtain x where x: "page_at ?m (0, 0) = Some x" using pages_okE [OF pager_invD(3) [OF inv] o] .
  have ax: "UVM_BASEADDR = addr x + 0" using pages_okD(1) [OF inv o x] by simp
  have cl: "client_ok all_up conn ?u ?m" using one_page_ok(3) by (simp add: growing_def)
  have o1: "owns ?m (uvm_pid ?u) (0, 0)" using o one_page_ok(5) by simp
  from load_byte_ok [OF one_page_ok(1) cl o1 _ x ax, of 1] obtain m y where
    m: "system_ok all_up m" "same_processes ?m m" "page_at m (0, 0) = Some y" "isvalid y = 1"
    by (auto simp: one_page_ok(4,6))
  have st: "steady ?m m" using m(2) by (simp add: same_processes_def)
  note inv' = system_okD(1) [OF m(1)] and sd = steadyD [OF st]
  have "length (blocks m) = length (blocks ?m)" using sd(7) by (metis length_map)
  then have fr: "length (frames m) = 1" "fl_size m = length (frames m)" "length (blocks m) = 2"
    using sd(6) pl pager_invD(1) [OF inv'] by (simp_all add: geometry_def)
  have "owns m 100 (0, 0)" using o steady_owns [OF st] by simp
  from pages_okD(5) [OF inv' this m(3,4)] have i: "in_frame {} m 100 (0, 0) y" .
  then have "frame_number y = 0" using fr by (simp add: in_frame_def)
  with i have f: "fr_page (frames m ! 0) = Some (0, 0)" by (simp add: in_frame_def)
  have pl': "page_list m = page_list ?m" by (rule sd(1))
  have "map_option length (page_arrays ?m 0) = Some 1" by code_simp
  then have "map_option length (page_arrays m 0) = Some 1" using sd(8) by metis
  then have al: "alive m 100 0" by (auto simp: alive_def pl' pl)
  have b: "find_free_block m = int 1" using steady_free_block [OF st] bl by simp
  from moved_array_dangles [OF pager_invD(2) [OF inv'] system_okD(3) [OF m(1)] al, of 0 1 3
      "[junk_page, junk_page]" 0 0 all_up] show ?thesis
    using b fr f by (auto simp: pl' pl)
qed

text \<open>C31: a process id cannot be used twice.  \<open>pager_destroy\<close> frees the array of the process but
  leaves its table in \<open>page_list\<close>; when the system gives the id to a new process, \<open>pager_extend\<close>
  finds the old table first and writes into freed memory.\<close>

theorem reused_pid_dangles:
  assumes "pager_inv {} m" and "\<not> mutex m" and "alive m pid ti"
    and "0 < page_capacity (page_list m ! ti)" and "pager_destroy pid m = Inr m1"
    and "pager_create memory pid m1 = Inr m2" and "memory \<noteq> pt_pages (page_list m ! ti)"
    and "find_free_block m2 = int b"
  shows "pager_extend pages pid m2 = Inl Bad_Pointer"
  using assms by (rule pid_reuse_dangling)

theorem reused_pid_dangles_witness:
  "\<exists>m2. pager_create (Some 9) 100 bereft = Inr m2 \<and> pager_extend None 100 m2 = Inl Bad_Pointer"
proof -
  have cap: "0 < page_capacity (page_list used ! 0)" and pg: "pt_pages (page_list used ! 0) = Some 0"
    using steadyD(1) [OF used_ok(2)] joined_shape(7) by simp_all
  have "mutex bereft = mutex used"
    using pager_destroy_ok [OF system_okD(1,3) [OF used_ok(1)] used_alive(1)] bereft_ok(1)
    by (auto simp: untouched_def)
  then obtain m2 where m2: "pager_create (Some 9) 100 bereft = Inr m2" "blocks m2 = blocks bereft"
    "nblocks m2 = nblocks bereft"
    using system_okD(3) [OF used_ok(1)]
    by (simp add: pager_create_def lock_def unlock_def Let_def split: if_splits)
  then have "find_free_block m2 = int 0" using bereft_ok(6) by (simp add: find_free_block_def)
  with reused_pid_dangles [OF system_okD(1,3) [OF used_ok(1)] used_alive(1) cap bereft_ok(1) m2(1)]
    m2(1) pg show ?thesis by auto
qed

text \<open>C32: a client that goes away during an exchange takes the whole server with it.  The MMU
  destroys the client, which calls \<open>pager_destroy\<close> while the pager still holds its mutex: the
  thread waits for itself and no fault of any process is served again.\<close>

theorem lost_client_deadlocks:
  assumes "pager_inv {} m" and "\<not> mutex m" and "owns m pid p"
    and "page_at m p = Some x" and "isvalid x = 1"
    and "va = addr x + r" and "0 \<le> r" and "r < int (page_size m)"
    and "pid \<in> set (id2pid m)" and "pid \<noteq> 0"
    and "find (\<lambda>i. case sock2client m i of None \<Rightarrow> False | Some c \<Rightarrow> cl_pid c = pid)
      [3..<MMU_MAX_SOCK] = Some sock" and "\<not> net sock"
  shows "pager_fault net pid va m = Inl Self_Deadlock"
  using assms by (rule fault_of_lost_client)

theorem lost_client_deadlocks_witness:
  "\<exists>va. pager_fault (\<lambda>_. False) 100 va used = Inl Self_Deadlock"
proof -
  note inv = system_okD(1) [OF used_ok(1)]
  have o: "owns used 100 (0, 1)" using joined_owns steady_owns [OF used_ok(2)] by simp
  obtain y where y: "page_at used (0, 1) = Some y" "isvalid y = 1" using used_ok(4) by blast
  have sv: "served all_up used 100" by (rule served_allD [OF system_okD(2) [OF used_ok(1)] o])
  then obtain sock where "find (\<lambda>i. case sock2client used i of None \<Rightarrow> False | Some c \<Rightarrow> cl_pid c = 100)
      [3..<MMU_MAX_SOCK] = Some sock" "100 \<in> set (id2pid used)"
    by (auto simp: served_def split: option.splits)
  with lost_client_deadlocks [OF inv system_okD(3) [OF used_ok(1)] o y refl order_refl, of sock "\<lambda>_. False"]
  show ?thesis using used_alive(5) by auto
qed

text \<open>the server cannot take its 256th client.  \<open>id2pid\<close> has \<open>UINT8_MAX\<close> entries and \<open>nextid\<close>
  runs over all values of a byte: creation number 255, counted from 0, writes past the end.\<close>

theorem too_many_clients:
  assumes "length (id2pid m) = 255" and "nextid m = 255"
  shows "mmu_client_create net memory path sock c (Some (Create_Req p)) m = Inl Out_Of_Bounds"
  using assms by (intro create_out_of_ids) simp

theorem too_many_clients_witness:
  "mmu_client_create all_up (Some 0) [] 5 conn0 (Some (Create_Req 100)) (cold\<lparr>nextid := 255\<rparr>) =
     Inl Out_Of_Bounds"
  by (rule too_many_clients) (simp_all add: cold_def)

text \<open>C39: \<open>pager_syslog\<close> does not print the message.  Of a message inside one page it prints the
  first bytes of a frame: from the start of the frame and not from the address, and the frame
  whose number the page has, even when the page is on disk and another page is in it.  Each
  byte above \<open>0x7f\<close> comes out with its sign extended to 32 bits.\<close>

theorem syslog_prints_frame:
  assumes "pager_inv {} m" and "\<not> mutex m" and "owns m pid p"
    and "page_at m p = Some x" and "has_frame m (frame_number x)"
    and "va = addr x + int r" and "r + len \<le> page_size m" and "0 < len"
  shows "pager_syslog pid va len m =
    Inr (0, emit (Bytes (map scast (take len (frame_bytes m (frame_number x))))) m)"
  using assms by (rule pager_syslog_prints_frame)

theorem syslog_prints_frame_witness:
  "\<exists>m'. pager_syslog 100 (UVM_BASEADDR + 2) 2 small = Inr (0, m') \<and> trace m' = trace small @ [Bytes [0, 0]]"
proof -
  obtain x where x: "owns small 100 (0, 0)" "page_at small (0, 0) = Some x" "isvalid x = 0"
    "addr x = UVM_BASEADDR" "frame_number x = 0" by (rule small_pages)
  have f: "has_frame small (frame_number x)" unfolding x(5) by code_simp
  have "take 2 (frame_bytes small 0) = [0, 0]" by code_simp
  with syslog_prints_frame [OF system_okD(1,3) [OF small_ok(1)] x(1,2) f, of "UVM_BASEADDR + 2" 2 2]
  show ?thesis by (simp add: x(4,5) small_ok(5) emit_def)
qed

end
