(* ===== verification/Server.thy ===== *)
theory Server
  imports Proto
begin

text \<open>
  The start of the MMU and of its clients: \<open>main\<close>, the set-up of memory and disk and the accept
  loop of \<open>TP 2/src/mmu.c\<close>; \<open>uvm_create\<close>, \<open>uvm_exit\<close> and the connection attempts of \<open>TP 2/src/uvm.c\<close>.  What the system calls answer is an argument; a failure that the code
  looks at ends the process.
\<close>

section \<open>Arguments of the program\<close>

text \<open>\<open>atoi\<close>: white space, a sign, digits; a \<open>long\<close> that is clamped and then cut to 32 bits.\<close>

definition is_space :: "char \<Rightarrow> bool" where
  "is_space c = (c \<in> {CHR '' '', CHR 0x09, CHR 0x0A, CHR 0x0B, CHR 0x0C, CHR 0x0D})"

definition is_digit :: "char \<Rightarrow> bool" where
  "is_digit c = (c \<in> set ''0123456789'')"

definition digit_value :: "char \<Rightarrow> int" where
  "digit_value c = of_char c - 48"

definition digits_value :: "string \<Rightarrow> int" where
  "digits_value s = foldl (\<lambda>k c. 10 * k + digit_value c) 0 (takeWhile is_digit s)"

definition clamp64 :: "int \<Rightarrow> int" where
  "clamp64 v = max (- (2 ^ 63)) (min (2 ^ 63 - 1) v)"

definition atoi :: "string \<Rightarrow> int" where
  "atoi s =
     (let t = dropWhile is_space s;
          v = (case t of [] \<Rightarrow> 0
               | c # cs \<Rightarrow> if c = CHR ''-'' then - digits_value cs
                           else if c = CHR ''+'' then digits_value cs else digits_value t)
      in sint (word_of_int (clamp64 v) :: 32 word))"

section \<open>Set-up of the MMU\<close>

text \<open>
  What the system answers: the page size, the memory that \<open>malloc\<close> gives for the disk, the frames and
  the blocks, and whether the calls without a value of interest succeed.
\<close>

record boot =
  bt_pagesize :: nat
  bt_malloc :: bool
  bt_disk :: "byte list option"
  bt_name :: bool
  bt_fd :: bool
  bt_mmap :: bool
  bt_socket :: bool
  bt_bind :: bool
  bt_listen :: bool
  bt_sigs :: bool
  bt_frames :: "frames_t list"
  bt_blocks :: "blocks_t list"

definition abort_unless :: "bool \<Rightarrow> unit result" where
  "abort_unless ok = check ok (Exited EXIT_FAILURE)"

definition mmu_init_disk :: "boot \<Rightarrow> nat \<Rightarrow> machine \<Rightarrow> machine result" where
  "mmu_init_disk w nblks m = (case bt_disk w of None \<Rightarrow> Inl (Exited EXIT_FAILURE)
     | Some mem \<Rightarrow> Inr (m\<lparr>disk := take (bt_pagesize w * nblks) mem\<rparr>))"

text \<open>The file of the memory is written full of the letter \<open>z\<close> before it is mapped.\<close>

definition mmu_init_pmem :: "boot \<Rightarrow> nat \<Rightarrow> machine \<Rightarrow> machine result" where
  "mmu_init_pmem w npages m =
     rbind (abort_unless (bt_name w)) (\<lambda>_.
     rbind (abort_unless (bt_fd w)) (\<lambda>_.
     rbind (abort_unless (bt_mmap w)) (\<lambda>_.
     Inr (m\<lparr>pmem := replicate (npages * bt_pagesize w) (of_char (CHR ''z''))\<rparr>))))"

definition mmu_init_sock :: "boot \<Rightarrow> machine \<Rightarrow> machine result" where
  "mmu_init_sock w m =
     rbind (abort_unless (bt_socket w)) (\<lambda>_.
     rbind (abort_unless (bt_bind w)) (\<lambda>_.
     rbind (abort_unless (bt_listen w)) (\<lambda>_. Inr m)))"

definition mmu_init_sigs :: "boot \<Rightarrow> machine \<Rightarrow> machine result" where
  "mmu_init_sigs w m = rbind (abort_unless (bt_sigs w)) (\<lambda>_. Inr m)"

definition mmu_init :: "boot \<Rightarrow> nat \<Rightarrow> nat \<Rightarrow> machine \<Rightarrow> machine result" where
  "mmu_init w npages nblks m =
     rbind (abort_unless (bt_malloc w)) (\<lambda>_.
     rbind (mmu_init_disk w nblks (m\<lparr>mmu_running := True\<rparr>)) (\<lambda>m1.
     rbind (mmu_init_pmem w npages m1) (\<lambda>m2.
     rbind (mmu_init_sock w m2) (\<lambda>m3.
     rbind (mmu_init_sigs w m3) (\<lambda>m4.
     Inr (m4\<lparr>sock2client := Map.empty\<rparr>))))))"

text \<open>The globals before \<open>main\<close>, and \<open>main\<close> up to the accept loop.\<close>

definition globals :: machine where
  "globals = \<lparr>fl_size = 0, page_size = 0, second_chance_index = 0, frames = [], nblocks = 0,
     blocks = [], page_list = [], page_tables_capacity = 10, page_arrays = Map.empty,
     mutex = False, pmem = [], disk = [], id2pid = replicate 255 0, nextid = 0,
     sock2client = Map.empty, mmu_running = False, mappings = (\<lambda>_. Map.empty), trace = []\<rparr>"

definition usage :: "machine result" where
  "usage = Inl (Exited EXIT_FAILURE)"

definition mmu_main :: "string list \<Rightarrow> boot \<Rightarrow> machine result" where
  "mmu_main argv w =
     (if length argv \<noteq> 3 then usage
      else let npages = atoi (argv ! 1) in
        if npages < 1 \<or> npages > 256 then usage
        else let nblks = atoi (argv ! 2) in
          if nblks < 2 \<or> nblks > 1024 then usage
          else
            let m = globals\<lparr>id2pid := replicate 255 (-1)\<rparr> in
            rbind (mmu_init w (nat npages) (nat nblks) m) (\<lambda>m1.
            pager_init (bt_frames w) (bt_blocks w) (bt_pagesize w) (nat npages) (nat nblks) m1))"

section \<open>Connections\<close>

text \<open>
  One round of \<open>mmu_accept_loop\<close>; \<open>accept\<close> answers the number of the socket, or -1.  The round that
  ends the loop is \<open>None\<close>.
\<close>

definition mmu_accept :: "int \<Rightarrow> bool \<Rightarrow> machine \<Rightarrow> machine option result" where
  "mmu_accept nsock memory m =
     (if \<not> mmu_running m then Inr None
      else if nsock = -1 then Inr (Some m)
      else rbind (abort_unless memory) (\<lambda>_.
           rbind (check (0 \<le> nsock \<and> nat nsock < MMU_MAX_SOCK) Out_Of_Bounds) (\<lambda>_.
           Inr (Some (m\<lparr>sock2client := (sock2client m)(nat nsock \<mapsto> \<lparr>cl_running = True, cl_pid = 0\<rparr>)\<rparr>)))))"

definition mmu_shutdown_action :: "machine \<Rightarrow> machine" where
  "mmu_shutdown_action m = m\<lparr>mmu_running := False\<rparr>"

section \<open>A client process\<close>

definition NUM_CONNECTION_TRIES :: nat where
  "NUM_CONNECTION_TRIES = 3"

text \<open>
  \<open>uvm_connect_socket\<close>: \<open>connects k\<close> says whether call \<open>k\<close> of \<open>connect\<close> succeeds; the result is the number
  of seconds slept.
\<close>

function uvm_connect_socket :: "(nat \<Rightarrow> bool) \<Rightarrow> nat \<Rightarrow> nat \<Rightarrow> nat result" where
  "uvm_connect_socket connects try slept =
     (if connects try then Inr (slept + try)
      else if try + 1 < NUM_CONNECTION_TRIES then uvm_connect_socket connects (try + 1) (slept + try)
      else if connects (try + 1) then Inr (slept + try)
      else Inl (Exited EXIT_FAILURE))"
  by pat_completeness auto
termination by (relation "measure (\<lambda>(connects, try, slept). NUM_CONNECTION_TRIES - try)") auto

declare uvm_connect_socket.simps [simp del]

text \<open>
  \<open>uvm_create\<close> up to the reply of the MMU and with it, for a process whose connection the MMU has
  accepted as \<open>sock\<close>.
\<close>

definition uvm_create_req :: "(nat \<Rightarrow> bool) \<Rightarrow> bool \<Rightarrow> bool \<Rightarrow> 32 word \<Rightarrow> message result" where
  "uvm_create_req connects malloc_ok socket_ok pid =
     rbind (abort_unless malloc_ok) (\<lambda>_.
     rbind (abort_unless socket_ok) (\<lambda>_.
     rbind (uvm_connect_socket connects 0 0) (\<lambda>_. Inr (Create_Req pid))))"

definition uvm_create_rep :: "bool \<Rightarrow> bool \<Rightarrow> bool \<Rightarrow> nat \<Rightarrow> 32 word \<Rightarrow> message option \<Rightarrow> uvm result" where
  "uvm_create_rep open_ok sigs_ok exit_ok sock pid rep =
     (case rep of None \<Rightarrow> Inl (Exited EXIT_FAILURE)
      | Some (Create_Rep path) \<Rightarrow>
          rbind (abort_unless open_ok) (\<lambda>_.
          rbind (abort_unless sigs_ok) (\<lambda>_.
          rbind (abort_unless exit_ok) (\<lambda>_.
          Inr \<lparr>uvm_sock = sock, uvm_pid = sint pid, uvm_npages = 0, uvm_result = 0\<rparr>)))
      | Some _ \<Rightarrow> Inl Assert_Failed)"

text \<open>\<open>uvm_exit\<close>: the request, and the thread that ends when the reply comes or the socket closes.\<close>

definition uvm_exit :: "(nat \<Rightarrow> bool) \<Rightarrow> mmu_client \<Rightarrow> uvm \<Rightarrow> machine \<Rightarrow> machine result" where
  "uvm_exit net c u m =
     rbind (mmu_client_exit net (uvm_sock u) c (if net (uvm_sock u) then Some Exit_Req else None) m)
       (\<lambda>(rep, m1).
     case rep of None \<Rightarrow> Inl (Exited EXIT_FAILURE)
     | Some msg \<Rightarrow> rbind (uvm_thread_turn msg u m1) (\<lambda>(go, _, _, m2).
         if go then Inl Diverges else Inr m2))"

end
