(* ===== verification/Paged_System.thy ===== *)
theory Paged_System
  imports Server Client_Life Simulation
begin

text \<open>
  The server of \<open>TP 2\<close> with any number of client processes: connections, creations, requests for
  pages, accesses to memory and exits in any order.  A state is the machine and, for each live process,
  its record in the MMU and in its library.
\<close>

section \<open>Events\<close>

type_synonym system = "machine \<times> (int \<rightharpoonup> mmu_client \<times> uvm)"

datatype event =
    Accept int
  | Create nat "32 word" ptr
  | Extend int "(nat \<times> page_t list) option"
  | Read int int
  | Write int int byte
  | Quit int
  | Vanish nat

datatype label =
    Accepted
  | Created int
  | Extended int int
  | Did_Read int int byte
  | Did_Write int int byte
  | Left int
  | Dropped

fun sys_step :: "(nat \<Rightarrow> bool) \<Rightarrow> byte list \<Rightarrow> event \<Rightarrow> system \<Rightarrow> (label \<times> system) result" where
  "sys_step net path (Accept nsock) (m, P) =
     rbind (mmu_accept nsock True m) (\<lambda>r. case r of None \<Rightarrow> Inl (Exited 0) | Some m1 \<Rightarrow> Inr (Accepted, (m1, P)))"
| "sys_step net path (Create sock p memory) (m, P) =
     (case sock2client m sock of None \<Rightarrow> Inl Null_Deref
      | Some c \<Rightarrow>
          rbind (uvm_create_req (\<lambda>_. True) True True p) (\<lambda>req.
          rbind (mmu_client_create net memory path sock c (Some req) m) (\<lambda>(rep, m1).
          rbind (uvm_create_rep True True True sock p rep) (\<lambda>u.
          Inr (Created (sint p), (m1, P(sint p \<mapsto> (c\<lparr>cl_pid := sint p\<rparr>, u))))))))"
| "sys_step net path (Extend pid memory) (m, P) =
     (case P pid of None \<Rightarrow> Inl Null_Deref
      | Some (c, u) \<Rightarrow> rbind (uvm_extend net memory c u m) (\<lambda>(va, u1, m1).
          Inr (Extended pid va, (m1, P(pid \<mapsto> (c, u1))))))"
| "sys_step net path (Read pid va) (m, P) =
     (case P pid of None \<Rightarrow> Inl Null_Deref
      | Some (c, u) \<Rightarrow> rbind (load_byte access_fuel net c va u m) (\<lambda>(b, m1).
          Inr (Did_Read pid va b, (m1, P))))"
| "sys_step net path (Write pid va b) (m, P) =
     (case P pid of None \<Rightarrow> Inl Null_Deref
      | Some (c, u) \<Rightarrow> rbind (store_byte access_fuel net c va b u m) (\<lambda>m1.
          Inr (Did_Write pid va b, (m1, P))))"
| "sys_step net path (Quit pid) (m, P) =
     (case P pid of None \<Rightarrow> Inl Null_Deref
      | Some (c, u) \<Rightarrow> rbind (uvm_exit net c u m) (\<lambda>m1. Inr (Left pid, (m1, P(pid := None)))))"
| "sys_step net path (Vanish sock) (m, P) =
     (case sock2client m sock of None \<Rightarrow> Inl Null_Deref
      | Some c \<Rightarrow> rbind (lost_client sock c m) (\<lambda>(rep, m1).
          Inr (if cl_pid c = 0 then (Dropped, (m1, P)) else (Left (cl_pid c), (m1, P(cl_pid c := None))))))"

text \<open>
  What the environment may do: sockets are new and within the table of the MMU, process ids are new
  and there are at most 255 of them, \<open>malloc\<close> gives memory that is not in use, \<open>realloc\<close> leaves an
  array that holds pages where it is, and processes stay inside the range of addresses and use
  the pages they got.
\<close>

definition in_pages :: "machine \<Rightarrow> uvm \<Rightarrow> int \<Rightarrow> bool" where
  "in_pages m u va \<longleftrightarrow> UVM_BASEADDR \<le> va \<and> va < UVM_BASEADDR + int (uvm_npages u) * int (page_size m)"

definition has_room :: "machine \<Rightarrow> nat \<Rightarrow> bool" where
  "has_room m n \<longleftrightarrow> UVM_BASEADDR + int n * int (page_size m) \<le> UVM_MAXADDR + 1"

fun allowed :: "(nat \<Rightarrow> bool) \<Rightarrow> event \<Rightarrow> system \<Rightarrow> bool" where
  "allowed net (Accept nsock) (m, P) \<longleftrightarrow> mmu_running m \<and> 3 \<le> nsock \<and> nsock < int MMU_MAX_SOCK \<and>
     sock2client m (nat nsock) = None \<and> net (nat nsock)"
| "allowed net (Create sock p memory) (m, P) \<longleftrightarrow> map_option cl_pid (sock2client m sock) = Some 0 \<and> 0 < sint p \<and>
     sint p \<notin> pt_pid ` set (page_list m) \<and> unat (nextid m) < 255 \<and> fresh_memory m memory"
| "allowed net (Extend pid memory) (m, P) \<longleftrightarrow> (case P pid of None \<Rightarrow> False | Some (c, u) \<Rightarrow>
     has_room m (Suc (uvm_npages u)) \<and>
     (\<forall>t \<in> set (page_list m). pt_pid t = pid \<longrightarrow> realloc_in_place m t memory))"
| "allowed net (Read pid va) (m, P) \<longleftrightarrow> (case P pid of None \<Rightarrow> False | Some (c, u) \<Rightarrow> in_pages m u va)"
| "allowed net (Write pid va b) (m, P) \<longleftrightarrow> (case P pid of None \<Rightarrow> False | Some (c, u) \<Rightarrow> in_pages m u va)"
| "allowed net (Quit pid) (m, P) \<longleftrightarrow> P pid \<noteq> None"
| "allowed net (Vanish sock) (m, P) \<longleftrightarrow> sock2client m sock \<noteq> None"

text \<open>The states that a server started by \<open>mmu_main\<close> reaches, with what was seen on the way.\<close>

definition clean_boot :: "boot \<Rightarrow> nat \<Rightarrow> nat \<Rightarrow> bool" where
  "clean_boot w npages nblks \<longleftrightarrow> 0 < bt_pagesize w \<and> UVM_BASEADDR mod int (bt_pagesize w) = 0 \<and>
     length (bt_frames w) = npages \<and> length (bt_blocks w) = nblks \<and> (\<forall>b \<in> set (bt_blocks w). bl_page b = None) \<and>
     (case bt_disk w of None \<Rightarrow> False | Some mem \<Rightarrow> nblks * bt_pagesize w \<le> length mem)"

definition reached :: "(nat \<Rightarrow> bool) \<Rightarrow> byte list \<Rightarrow> string list \<Rightarrow> boot \<Rightarrow> label list \<Rightarrow> system \<Rightarrow> bool" where
  "reached net path argv w labs s \<longleftrightarrow> (\<exists>m. mmu_main argv w = Inr m \<and> clean_boot w (fl_size m) (nblocks m) \<and>
     traced (allowed net) (sys_step net path) (m, Map.empty) labs s)"

section \<open>Invariant\<close>

definition table_live :: "machine \<Rightarrow> page_table_t \<Rightarrow> bool" where
  "table_live m t \<longleftrightarrow> (\<exists>a ar. pt_pages t = Some a \<and> page_arrays m a = Some ar \<and>
     length ar = page_capacity t \<and> page_count t \<le> page_capacity t)"

definition tables_live :: "machine \<Rightarrow> int set \<Rightarrow> bool" where
  "tables_live m L \<longleftrightarrow> (\<forall>t \<in> set (page_list m). if pt_pid t \<in> L then table_live m t else page_count t = 0)"

definition arrays_apart :: "machine \<Rightarrow> int set \<Rightarrow> bool" where
  "arrays_apart m L \<longleftrightarrow> (\<forall>t \<in> set (page_list m). \<forall>t' \<in> set (page_list m).
     pt_pid t \<in> L \<and> pt_pid t' \<in> L \<and> pt_pages t = pt_pages t' \<longrightarrow> t = t')"

definition unused_unmapped :: "machine \<Rightarrow> bool" where
  "unused_unmapped m \<longleftrightarrow> (\<forall>pid va. pid \<notin> pt_pid ` set (page_list m) \<longrightarrow> mappings m pid va = None)"

definition ids_ok :: "machine \<Rightarrow> bool" where
  "ids_ok m \<longleftrightarrow> length (id2pid m) = 255 \<and>
     (\<forall>j < 255. unat (nextid m) \<le> j \<longrightarrow> id2pid m ! j = INVALID_PID)"

definition socks_ok :: "(nat \<Rightarrow> bool) \<Rightarrow> machine \<Rightarrow> (int \<rightharpoonup> mmu_client \<times> uvm) \<Rightarrow> bool" where
  "socks_ok net m P \<longleftrightarrow> (\<forall>s c. sock2client m s = Some c \<longrightarrow> net s \<and> 3 \<le> s \<and> s < MMU_MAX_SOCK \<and>
     (cl_pid c = 0 \<or> (\<exists>u. P (cl_pid c) = Some (c, u) \<and> uvm_sock u = s)))"

definition client_in :: "(nat \<Rightarrow> bool) \<Rightarrow> machine \<Rightarrow> int \<Rightarrow> mmu_client \<times> uvm \<Rightarrow> bool" where
  "client_in net m pid cu \<longleftrightarrow> (let (c, u) = cu in uvm_pid u = pid \<and> 0 < pid \<and> connected net c u m \<and>
     has_room m (uvm_npages u) \<and> unmapped_above m pid (uvm_npages u) \<and>
     (\<exists>t \<in> set (page_list m). pt_pid t = pid \<and> page_count t = uvm_npages u))"

definition blocks_owned :: "machine \<Rightarrow> bool" where
  "blocks_owned m \<longleftrightarrow> (\<forall>b < length (blocks m). bl_page (blocks m ! b) \<noteq> None \<longrightarrow>
     (\<exists>pid q x. owns m pid q \<and> page_at m q = Some x \<and> block_number x = int b))"

definition sys_inv :: "(nat \<Rightarrow> bool) \<Rightarrow> system \<Rightarrow> bool" where
  "sys_inv net s \<longleftrightarrow> (let (m, P) = s in system_ok net m \<and> tables_live m (dom P) \<and> arrays_apart m (dom P) \<and>
     unused_unmapped m \<and> ids_ok m \<and> socks_ok net m P \<and> blocks_owned m \<and>
     (\<forall>pid cu. P pid = Some cu \<longrightarrow> client_in net m pid cu))"

lemma sys_invD:
  assumes "sys_inv net (m, P)"
  shows "system_ok net m" "tables_live m (dom P)" "arrays_apart m (dom P)" "unused_unmapped m" "ids_ok m"
    "socks_ok net m P" "blocks_owned m" "P pid = Some cu \<Longrightarrow> client_in net m pid cu"
  using assms unfolding sys_inv_def Let_def prod.case by blast+

lemma sys_invI:
  assumes "system_ok net m" "tables_live m (dom P)" "arrays_apart m (dom P)" "unused_unmapped m" "ids_ok m"
    "socks_ok net m P" "blocks_owned m" "\<And>pid cu. P pid = Some cu \<Longrightarrow> client_in net m pid cu"
  shows "sys_inv net (m, P)"
  using assms by (simp add: sys_inv_def)

lemma table_unique:
  "tables_ok m \<Longrightarrow> t \<in> set (page_list m) \<Longrightarrow> t' \<in> set (page_list m) \<Longrightarrow> pt_pid t = pt_pid t' \<Longrightarrow> t = t'"
  by (metis tables_ok_def distinct_map inj_onD)

text \<open>Every live process has its table, and can grow.\<close>

lemma sys_growing:
  assumes inv: "sys_inv net (m, P)" and p: "P pid = Some (c, u)"
  obtains ti where "growing net c u ti m" and "ti < length (page_list m)"
    and "pt_pid (page_list m ! ti) = pid" and "uvm_pid u = pid"
proof -
  note cl = sys_invD(8) [OF inv p, unfolded client_in_def Let_def prod.case]
  then obtain t where t: "t \<in> set (page_list m)" "pt_pid t = pid" "page_count t = uvm_npages u" by blast
  then obtain ti where ti: "ti < length (page_list m)" "page_list m ! ti = t" by (auto simp: in_set_conv_nth)
  have tl: "table_live m t" using sys_invD(2) [OF inv] t p by (auto simp: tables_live_def dom_def)
  then obtain a ar where a: "pt_pages t = Some a" "page_arrays m a = Some ar" "length ar = page_capacity t"
    "page_count t \<le> page_capacity t" by (auto simp: table_live_def)
  have "pt_pages t' \<noteq> Some a" if "t' \<in> set (page_list m)" "t' \<noteq> t" "0 < page_count t'" for t'
  proof -
    have "pt_pid t' \<in> dom P" using sys_invD(2) [OF inv] that by (auto simp: tables_live_def split: if_splits)
    then show ?thesis
      using sys_invD(3) [OF inv] that(1,2) t p a(1) unfolding arrays_apart_def by (metis domI)
  qed
  then have "alive m pid ti" using ti t a by (auto simp: alive_def)
  moreover have "\<exists>b. owns m pid (b, i)" if "i < uvm_npages u" for i
    unfolding owns_def fst_conv snd_conv using t a(1) that by metis
  ultimately have "growing net c u ti m"
    using cl t ti by (auto simp: growing_def client_ok_def connected_def has_room_def)
  then show thesis using that ti t cl by simp
qed

end
