(* ===== verification/System_Inv.thy ===== *)
theory System_Inv
  imports Paged_System
begin

text \<open>Every event that is allowed keeps the invariant of the server and its processes.\<close>

section \<open>Machines that differ outside the pager\<close>

lemma system_ok_other:
  assumes sys: "system_ok net m" and pl: "page_list m' = page_list m" and pa: "page_arrays m' = page_arrays m"
    and same: "page_size m' = page_size m" "fl_size m' = fl_size m" "frames m' = frames m"
      "nblocks m' = nblocks m" "blocks m' = blocks m" "pmem m' = pmem m" "disk m' = disk m"
      "second_chance_index m' = second_chance_index m" "mappings m' = mappings m" "mutex m' = mutex m"
    and sv: "\<And>pid q. owns m pid q \<Longrightarrow> served net m' pid"
  shows "system_ok net m'" and "owns m' = owns m" and "page_at m' = page_at m"
    and "owns m pid q \<Longrightarrow> content m' q = content m q"
proof -
  note inv = system_okD(1) [OF sys]
  show ow: "owns m' = owns m" by (rule owns_cong [OF pl])
  show pt: "page_at m' = page_at m" by (simp add: page_at_def pa fun_eq_iff)
  have t: "tables_ok m'" using pager_invD(2) [OF inv] by (simp add: tables_ok_def pl pa)
  have "pager_inv {} m'" by (rule pager_inv_cong(1) [OF inv ow _ t same(1-9)]) (simp add: pt)
  then show "system_ok net m'" using sv sys same(10) by (simp add: system_ok_def served_all_def ow)
  show "content m' q = content m q" if "owns m pid q"
    by (rule pager_inv_cong(2) [OF inv ow _ t same(1-9) that]) (simp add: pt)
qed

lemma client_in_cong:
  assumes "client_in net m pid cu" and "page_list m' = page_list m" and "page_size m' = page_size m"
    and "unmapped_above m' pid (uvm_npages (snd cu))" and "connected net (fst cu) (snd cu) m'"
  shows "client_in net m' pid cu"
  using assms by (simp add: client_in_def has_room_def split: prod.splits)

lemma client_inD:
  assumes "client_in net m pid cu"
  shows "uvm_pid (snd cu) = pid" "0 < pid" "connected net (fst cu) (snd cu) m" "has_room m (uvm_npages (snd cu))"
    "unmapped_above m pid (uvm_npages (snd cu))"
    "\<exists>t \<in> set (page_list m). pt_pid t = pid \<and> page_count t = uvm_npages (snd cu)"
  using assms by (simp_all add: client_in_def split_beta)

lemma owner_live:
  assumes "tables_live m L" and "owns m pid q"
  shows "pid \<in> L"
  using assms by (force simp: tables_live_def owns_def split: if_splits)

lemma tables_live_cong:
  "page_list m' = page_list m \<Longrightarrow> page_arrays m' = page_arrays m \<Longrightarrow> tables_live m' L = tables_live m L"
  by (simp add: tables_live_def table_live_def)

section \<open>Boot\<close>

lemma mmu_main_result:
  assumes "mmu_main argv w = Inr m"
  obtains npages nblks mem where "1 \<le> npages" and "npages \<le> 256" and "2 \<le> nblks" and "nblks \<le> 1024"
    and "int npages = atoi (argv ! 1)" and "int nblks = atoi (argv ! 2)" and "length argv = 3"
    and "bt_disk w = Some mem"
    and "m = globals\<lparr>id2pid := replicate 255 (-1), mmu_running := True,
      disk := take (bt_pagesize w * nblks) mem,
      pmem := replicate (npages * bt_pagesize w) (of_char (CHR ''z'')),
      fl_size := npages, page_size := bt_pagesize w,
      frames := map (\<lambda>fr. fr\<lparr>fr_pid := INVALID_PID\<rparr>) (take npages (bt_frames w)),
      nblocks := nblks, blocks := map (\<lambda>b. b\<lparr>bl_allocated := 0\<rparr>) (take nblks (bt_blocks w))\<rparr>"
proof -
  let ?n = "nat (atoi (argv ! 1))" and ?b = "nat (atoi (argv ! 2))"
  have r: "length argv = 3" "1 \<le> atoi (argv ! 1)" "atoi (argv ! 1) \<le> 256" "2 \<le> atoi (argv ! 2)" "atoi (argv ! 2) \<le> 1024"
    using assms by (auto simp: mmu_main_def usage_def Let_def split: if_splits)
  with assms obtain m1 where
    "mmu_init w ?n ?b (globals\<lparr>id2pid := replicate 255 (-1)\<rparr>) = Inr m1"
    and p: "pager_init (bt_frames w) (bt_blocks w) (bt_pagesize w) ?n ?b m1 = Inr m"
    by (auto simp: mmu_main_def Let_def rbind_eq_Inr)
  then obtain mem where mem: "bt_disk w = Some mem"
    and m1: "m1 = globals\<lparr>id2pid := replicate 255 (-1), mmu_running := True, disk := take (bt_pagesize w * ?b) mem,
      pmem := replicate (?n * bt_pagesize w) (of_char (CHR ''z''))\<rparr>"
    by (auto simp: mmu_init_def mmu_init_disk_def mmu_init_pmem_def mmu_init_sock_def mmu_init_sigs_def
        abort_unless_def rbind_eq_Inr globals_def split: option.splits)
  show thesis
    by (rule that [of ?n ?b mem]) (use r mem p in \<open>auto simp: m1 pager_init_def lock_def unlock_def globals_def Let_def\<close>)
qed

lemma boot_ok:
  assumes "mmu_main argv w = Inr m" and "clean_boot w (fl_size m) (nblocks m)"
  shows "sys_inv net (m, Map.empty)" and "\<not> owns m pid q" and "page_size m = bt_pagesize w"
proof -
  obtain npages nblks mem where r: "1 \<le> npages" "npages \<le> 256" "2 \<le> nblks" "nblks \<le> 1024" "bt_disk w = Some mem"
    and m: "m = globals\<lparr>id2pid := replicate 255 (-1), mmu_running := True,
      disk := take (bt_pagesize w * nblks) mem,
      pmem := replicate (npages * bt_pagesize w) (of_char (CHR ''z'')),
      fl_size := npages, page_size := bt_pagesize w,
      frames := map (\<lambda>fr. fr\<lparr>fr_pid := INVALID_PID\<rparr>) (take npages (bt_frames w)),
      nblocks := nblks, blocks := map (\<lambda>b. b\<lparr>bl_allocated := 0\<rparr>) (take nblks (bt_blocks w))\<rparr>"
    by (rule mmu_main_result [OF assms(1)]) blast
  have f: "fl_size m = npages" "nblocks m = nblks" by (simp_all add: m)
  with assms(2) r(5) have w: "0 < bt_pagesize w" "UVM_BASEADDR mod int (bt_pagesize w) = 0"
    "length (bt_frames w) = npages" "length (bt_blocks w) = nblks" "\<forall>b \<in> set (bt_blocks w). bl_page b = None"
    "nblks * bt_pagesize w \<le> length mem" by (simp_all add: clean_boot_def)
  have no: "\<not> owns m pid q" for pid q by (simp add: owns_def m globals_def)
  then show "\<not> owns m pid q" .
  show "page_size m = bt_pagesize w" by (simp add: m)
  have "geometry m"
    using r(1,2,4) w by (simp add: m geometry_def globals_def mult.commute)
  then have "system_ok net m"
    by (simp add: system_ok_def pager_inv_def served_all_def pages_ok_def frames_ok_def blocks_apart_def
        maps_ok_def clean_ok_def no) (simp add: m globals_def tables_ok_def)
  moreover have "blocks_owned m"
    using w(5) nth_mem by (fastforce simp: blocks_owned_def m)
  ultimately show "sys_inv net (m, Map.empty)"
    by (intro sys_invI) (simp_all add: m globals_def tables_live_def arrays_apart_def unused_unmapped_def
        ids_ok_def socks_ok_def INVALID_PID_def)
qed

section \<open>A connection is accepted\<close>

lemma owner_positive:
  assumes inv: "sys_inv net (m, P)" and "owns m pid q"
  shows "0 < pid"
proof -
  obtain cu where "P pid = Some cu" using owner_live [OF sys_invD(2) [OF inv] assms(2)] by blast
  then show ?thesis by (rule client_inD(2) [OF sys_invD(8) [OF inv]])
qed

definition anonymous :: "mmu_client option \<Rightarrow> bool" where
  "anonymous e \<longleftrightarrow> (case e of None \<Rightarrow> True | Some c \<Rightarrow> cl_pid c = 0)"

lemma anonymous_ok:
  assumes inv: "sys_inv net (m, P)" and old: "anonymous (sock2client m s)" and new: "anonymous e"
    and room: "e \<noteq> None \<Longrightarrow> net s \<and> 3 \<le> s \<and> s < MMU_MAX_SOCK"
    and m': "m' = m\<lparr>sock2client := (sock2client m)(s := e), mmu_running := on\<rparr>"
  shows "sys_inv net (m', P)" and "owns m' = owns m" and "owns m pid q \<Longrightarrow> content m' q = content m q"
proof -
  have find_same: "(\<lambda>i. case sock2client m' i of None \<Rightarrow> False | Some c \<Rightarrow> cl_pid c = pid) =
      (\<lambda>i. case sock2client m i of None \<Rightarrow> False | Some c \<Rightarrow> cl_pid c = pid)" if "pid \<noteq> 0" for pid
    using old new that by (auto simp: fun_eq_iff anonymous_def m' split: option.splits)
  have sv: "served net m' pid" if o: "owns m pid q" for pid q
  proof -
    have "served net m pid" by (rule served_allD [OF system_okD(2) [OF sys_invD(1) [OF inv]] o])
    moreover have "pid \<noteq> 0" using owner_positive [OF inv o] by simp
    then have "served net m' pid = served net m pid"
      unfolding served_def find_same [OF \<open>pid \<noteq> 0\<close>] by (simp add: m')
    ultimately show ?thesis by simp
  qed
  have same: "system_ok net m'" "owns m' = owns m" "page_at m' = page_at m"
    by (rule system_ok_other [OF sys_invD(1) [OF inv] _ _ _ _ _ _ _ _ _ _ _ _ sv]; simp add: m')+
  show "owns m' = owns m" by (rule same(2))
  show "content m' q = content m q" if "owns m pid q"
    by (rule system_ok_other(4) [OF sys_invD(1) [OF inv] _ _ _ _ _ _ _ _ _ _ _ _ sv that]) (simp_all add: m')
  have cl: "client_in net m' pid cu" if p: "P pid = Some cu" for pid cu
  proof (rule client_in_cong [OF sys_invD(8) [OF inv p]])
    note c = client_inD [OF sys_invD(8) [OF inv p]]
    show "unmapped_above m' pid (uvm_npages (snd cu))" using c(5) by (simp add: unmapped_above_def m')
    show "connected net (fst cu) (snd cu) m'" using c(1-3) old new by (auto simp: connected_def anonymous_def m' split: if_splits)
  qed (simp_all add: m')
  show "sys_inv net (m', P)"
  proof (rule sys_invI [OF same(1)])
    show "socks_ok net m' P" using sys_invD(6) [OF inv] new room by (auto simp: socks_ok_def anonymous_def m')
    show "blocks_owned m'" using sys_invD(7) [OF inv] same(2,3) by (simp add: blocks_owned_def m')
    show "tables_live m' (dom P)" using sys_invD(2) [OF inv] tables_live_cong [of m' m] by (simp add: m')
    show "arrays_apart m' (dom P)" using sys_invD(3) [OF inv] by (simp add: arrays_apart_def m')
    show "unused_unmapped m'" using sys_invD(4) [OF inv] by (simp add: unused_unmapped_def m')
    show "ids_ok m'" using sys_invD(5) [OF inv] by (simp add: ids_ok_def m')
  qed (rule cl)
qed

lemma accept_ok:
  assumes inv: "sys_inv net (m, P)" and ev: "allowed net (Accept n) (m, P)"
  shows "\<exists>m'. sys_step net path (Accept n) (m, P) = Inr (Accepted, (m', P)) \<and> sys_inv net (m', P) \<and>
    page_size m' = page_size m \<and> length (blocks m') = length (blocks m) \<and> owns m' = owns m \<and>
    (\<forall>pid q. owns m pid q \<longrightarrow> content m' q = content m q)"
proof -
  let ?c = "\<lparr>cl_running = True, cl_pid = 0\<rparr>"
  let ?m = "m\<lparr>sock2client := (sock2client m)(nat n \<mapsto> ?c)\<rparr>"
  from ev have n: "mmu_running m" "3 \<le> n" "n < int MMU_MAX_SOCK" "sock2client m (nat n) = None" "net (nat n)" by simp_all
  have step: "sys_step net path (Accept n) (m, P) = Inr (Accepted, (?m, P))"
    using n by (simp add: mmu_accept_def abort_unless_def nat_less_iff)
  have a: "anonymous (sock2client m (nat n))" "anonymous (Some ?c)" using n(4) by (simp_all add: anonymous_def)
  have r: "net (nat n) \<and> 3 \<le> nat n \<and> nat n < MMU_MAX_SOCK" using n by (simp add: nat_less_iff le_nat_iff)
  have "?m = m\<lparr>sock2client := (sock2client m)(nat n \<mapsto> ?c), mmu_running := mmu_running m\<rparr>" by simp
  note ok = anonymous_ok [OF inv a r this]
  from step ok show ?thesis by (intro exI [of _ ?m]) auto
qed

text \<open>A process that goes away before it announced itself.\<close>

lemma drop_ok:
  assumes inv: "sys_inv net (m, P)" and c: "sock2client m s = Some c" "cl_pid c = 0"
  shows "\<exists>m'. mmu_client_destroy s c m = Inr m' \<and> sys_inv net (m', P) \<and> sock2client m' = (sock2client m)(s := None) \<and>
    page_size m' = page_size m \<and> length (blocks m') = length (blocks m) \<and> owns m' = owns m \<and>
    (\<forall>pid q. owns m pid q \<longrightarrow> content m' q = content m q)"
proof -
  have a: "anonymous (sock2client m s)" "anonymous None" using c by (simp_all add: anonymous_def)
  let ?m = "m\<lparr>sock2client := (sock2client m)(s := None)\<rparr>"
  have "?m = m\<lparr>sock2client := (sock2client m)(s := None), mmu_running := mmu_running m\<rparr>" by simp
  note ok = anonymous_ok [OF inv a _ this]
  with c(2) show ?thesis by (intro exI [of _ ?m])
      (auto simp: mmu_client_destroy_def)
qed

lemma stopped_ok:
  assumes inv: "sys_inv net (m, P)"
  shows "sys_inv net (mmu_shutdown_action m, P)"
proof -
  have "3 \<le> s" if "sock2client m s = Some c" for s c
    using sys_invD(6) [OF inv] that unfolding socks_ok_def by blast
  from this [of 0] have "sock2client m 0 = None" by force
  then have a: "anonymous (sock2client m 0)" "anonymous None" and
    "mmu_shutdown_action m = m\<lparr>sock2client := (sock2client m)(0 := None), mmu_running := False\<rparr>"
    by (simp_all add: anonymous_def mmu_shutdown_action_def fun_upd_idem)
  then show ?thesis using anonymous_ok(1) [OF inv a] by simp
qed

section \<open>A process accesses memory\<close>

lemma steady_inv:
  assumes inv: "sys_inv net (m, P)" and st: "steady m m'" and sys: "system_ok net m'"
  shows "sys_inv net (m', P)"
proof (rule sys_invI [OF sys])
  have pl: "page_list m' = page_list m" and ps: "page_size m' = page_size m" and sc: "sock2client m' = sock2client m"
    and ids: "id2pid m' = id2pid m" "nextid m' = nextid m"
    and len: "\<And>a. map_option length (page_arrays m' a) = map_option length (page_arrays m a)"
    and bl: "map bl_page (blocks m') = map bl_page (blocks m)"
    and bn: "\<And>p. map_option block_number (page_at m' p) = map_option block_number (page_at m p)"
    and mp: "\<And>pid va. mappings m pid va = None \<Longrightarrow> \<not> has_address m pid va \<Longrightarrow> mappings m' pid va = None"
    using st unfolding steady_def by blast+
  have ow: "owns m' = owns m" by (rule steady_owns [OF st])
  have tl: "table_live m t \<Longrightarrow> table_live m' t" for t
    using len unfolding table_live_def by (metis (no_types, lifting) map_option_eq_Some option.sel)
  show "tables_live m' (dom P)" using sys_invD(2) [OF inv] tl by (auto simp: tables_live_def pl)
  show "arrays_apart m' (dom P)" using sys_invD(3) [OF inv] by (simp add: arrays_apart_def pl)
  show "ids_ok m'" "socks_ok net m' P" using sys_invD(5,6) [OF inv] by (simp_all add: ids_ok_def socks_ok_def ids sc)
  show "unused_unmapped m'"
    unfolding unused_unmapped_def pl
  proof (intro allI impI)
    fix pid va assume u: "pid \<notin> pt_pid ` set (page_list m)"
    then have "mappings m pid va = None" "\<not> has_address m pid va"
      using sys_invD(4) [OF inv] owns_pid by (auto simp: unused_unmapped_def has_address_def)
    then show "mappings m' pid va = None" by (rule mp)
  qed
  show "blocks_owned m'"
    unfolding blocks_owned_def ow
  proof (intro allI impI)
    fix b assume b: "b < length (blocks m')" "bl_page (blocks m' ! b) \<noteq> None"
    have "length (blocks m') = length (blocks m)" using bl by (metis length_map)
    with b bl have "b < length (blocks m)" "bl_page (blocks m ! b) \<noteq> None" by (simp, metis nth_map)
    then obtain pid q x where q: "owns m pid q" "page_at m q = Some x" "block_number x = int b"
      using sys_invD(7) [OF inv] unfolding blocks_owned_def by blast
    moreover from q(2,3) bn [of q] obtain y where "page_at m' q = Some y" "block_number y = int b"
      by (cases "page_at m' q") auto
    ultimately show "\<exists>pid q x. owns m pid q \<and> page_at m' q = Some x \<and> block_number x = int b" by blast
  qed
  show "client_in net m' pid cu" if p: "P pid = Some cu" for pid cu
  proof (rule client_in_cong [OF sys_invD(8) [OF inv p] pl ps])
    note c = client_inD [OF sys_invD(8) [OF inv p]]
    show "connected net (fst cu) (snd cu) m'"
      using c(3) connected_cong [OF ids(1) sc refl refl] by simp
    show "unmapped_above m' pid (uvm_npages (snd cu))"
      unfolding unmapped_above_def ps
    proof (intro allI impI)
      fix i assume i: "uvm_npages (snd cu) \<le> i"
      have "\<not> has_address m pid (UVM_BASEADDR + int i * int (page_size m))"
      proof
        assume "has_address m pid (UVM_BASEADDR + int i * int (page_size m))"
        then obtain q where q: "owns m pid q" "int i * int (page_size m) = int (snd q) * int (page_size m)"
          by (auto simp: has_address_def)
        have "i = snd q" using q(2) system_okD(4) [OF sys_invD(1) [OF inv]] by simp
        moreover obtain t where t: "t \<in> set (page_list m)" "pt_pid t = pid" "snd q < page_count t"
          using q(1) by (auto simp: owns_def)
        moreover obtain t' where "t' \<in> set (page_list m)" "pt_pid t' = pid" "page_count t' = uvm_npages (snd cu)"
          using c(6) by blast
        ultimately show False
          using i table_unique [OF pager_invD(2) [OF system_okD(1) [OF sys_invD(1) [OF inv]]], of t t'] by simp
      qed
      then show "mappings m' pid (UVM_BASEADDR + int i * int (page_size m)) = None"
        using c(5) i by (intro mp) (simp_all add: unmapped_above_def)
    qed
  qed
qed

section \<open>A process is created\<close>

lemma create_effect:
  assumes "system_ok net m" "accepted net sock c (sint p) m" "id_free m" "fresh_memory m memory"
  obtains a rep t tr cap where "memory = Some a" and "page_arrays m a = None"
    and "t = \<lparr>pt_pid = sint p, pt_pages = Some a, page_count = 0, page_capacity = 0\<rparr>"
    and "mmu_client_create net memory path sock c (Some (Create_Req p)) m = Inr (Some (Create_Rep rep),
      m\<lparr>sock2client := (sock2client m)(sock \<mapsto> c\<lparr>cl_pid := sint p\<rparr>),
        id2pid := (id2pid m)[unat (nextid m) := sint p], nextid := nextid m + 1, trace := tr,
        page_tables_capacity := cap, page_list := page_list m @ [t], page_arrays := (page_arrays m)(a \<mapsto> [])\<rparr>)"
proof -
  obtain a where a: "memory = Some a" "page_arrays m a = None" using assms(4) by (auto simp: fresh_memory_def)
  have i: "unat (nextid m) < length (id2pid m)" and net: "net sock" and mx: "\<not> mutex m"
    using assms(1-3) by (simp_all add: id_free_def accepted_def system_ok_def)
  let ?cap = "if length (page_list m) = page_tables_capacity m then page_tables_capacity m * 2
    else page_tables_capacity m"
  let ?t = "\<lparr>pt_pid = sint p, pt_pages = Some a, page_count = 0, page_capacity = 0\<rparr>"
  let ?X = "m\<lparr>sock2client := (sock2client m)(sock \<mapsto> c\<lparr>cl_pid := sint p\<rparr>),
        id2pid := (id2pid m)[unat (nextid m) := sint p], nextid := nextid m + 1,
        trace := trace m @ [Pager_Create (int (unat (nextid m)))],
        page_tables_capacity := ?cap, page_list := page_list m @ [?t], page_arrays := (page_arrays m)(a \<mapsto> [])\<rparr>"
  let ?rep = "take MMU_PROTO_PATH_MAX (path @ replicate MMU_PROTO_PATH_MAX 0)"
  obtain m3 where m3: "mmu_client_create net memory path sock c (Some (Create_Req p)) m = Inr (Some (Create_Rep ?rep), m3)"
    and "m3 = ?X\<lparr>mutex := False\<rparr> "
    using i net mx a by (simp add: mmu_client_create_def set_at_def send_reply_def pager_create_def lock_def
          unlock_def emit_def Let_def)
  moreover have "?X\<lparr>mutex := False\<rparr> = ?X" using mx by (intro machine.equality) simp_all
  ultimately show thesis by (intro that [OF a refl]) simp
qed

lemma create_ok:
  assumes inv: "sys_inv net (m, P)" and ev: "allowed net (Create sock p memory) (m, P)"
  shows "\<exists>m' c u. sys_step net path (Create sock p memory) (m, P) = Inr (Created (sint p), (m', P(sint p \<mapsto> (c, u)))) \<and>
    sys_inv net (m', P(sint p \<mapsto> (c, u))) \<and> P (sint p) = None \<and> uvm_npages u = 0 \<and>
    page_size m' = page_size m \<and> length (blocks m') = length (blocks m) \<and> owns m' = owns m \<and>
    (\<forall>pid q. owns m pid q \<longrightarrow> content m' q = content m q)"
proof -
  let ?pid = "sint p" and ?i = "unat (nextid m)"
  from ev obtain c where c: "sock2client m sock = Some c" "cl_pid c = 0" and pid: "0 < ?pid"
    and new: "?pid \<notin> pt_pid ` set (page_list m)" and i: "?i < 255" and mem: "fresh_memory m memory"
    by auto
  note socks = sys_invD(6) [OF inv, unfolded socks_ok_def, rule_format, OF c(1)]
  have Pnone: "P ?pid = None"
  proof (rule ccontr)
    assume "P ?pid \<noteq> None"
    then obtain cu where "P ?pid = Some cu" by blast
    from client_inD(6) [OF sys_invD(8) [OF inv this]] obtain t where
      "t \<in> set (page_list m)" "pt_pid t = ?pid" by blast
    with new show False by (metis image_eqI)
  qed
  have no: "\<not> owns m pid q" if "pid \<le> 0" for pid q using owner_positive [OF inv, of pid q] that by auto
  have other: "cl_pid c' \<noteq> ?pid" if "sock2client m s = Some c'" for s c'
    using sys_invD(6) [OF inv] that pid Pnone unfolding socks_ok_def by fastforce
  have ac: "accepted net sock c ?pid m"
    using c socks pid new no [of 0] other by (auto simp: accepted_def INVALID_PID_def)
  have free: "id2pid m ! ?i = INVALID_PID" using sys_invD(5) [OF inv] i by (auto simp: ids_ok_def)
  have id: "id_free m"
    using sys_invD(5) [OF inv] i free no [of INVALID_PID] by (simp add: id_free_def ids_ok_def INVALID_PID_def)
  obtain a rep t tr cap where a: "memory = Some a" "page_arrays m a = None"
    and t: "t = \<lparr>pt_pid = ?pid, pt_pages = Some a, page_count = 0, page_capacity = 0\<rparr>"
    and run: "mmu_client_create net memory path sock c (Some (Create_Req p)) m = Inr (Some (Create_Rep rep),
      m\<lparr>sock2client := (sock2client m)(sock \<mapsto> c\<lparr>cl_pid := ?pid\<rparr>),
        id2pid := (id2pid m)[?i := ?pid], nextid := nextid m + 1, trace := tr,
        page_tables_capacity := cap, page_list := page_list m @ [t], page_arrays := (page_arrays m)(a \<mapsto> [])\<rparr>)"
    by (rule create_effect [OF sys_invD(1) [OF inv] ac id mem])
  define m' where "m' = m\<lparr>sock2client := (sock2client m)(sock \<mapsto> c\<lparr>cl_pid := ?pid\<rparr>),
        id2pid := (id2pid m)[?i := ?pid], nextid := nextid m + 1, trace := tr,
        page_tables_capacity := cap, page_list := page_list m @ [t], page_arrays := (page_arrays m)(a \<mapsto> [])\<rparr>"
  let ?c = "c\<lparr>cl_pid := ?pid\<rparr>" and ?u = "new_uvm sock ?pid"
  let ?P = "P(?pid \<mapsto> (?c, ?u))"
  have ok: "system_ok net m'" "connected net ?c ?u m'" "owns m' = owns m"
    "\<forall>pid q. owns m pid q \<longrightarrow> content m' q = content m q"
    using mmu_client_create_ok [OF sys_invD(1) [OF inv] ac id mem, of path] by (simp_all add: run m'_def)
  have step: "sys_step net path (Create sock p memory) (m, P) = Inr (Created ?pid, (m', ?P))"
    using c run by (simp add: uvm_create_req_def uvm_create_rep_def uvm_connect_socket.simps abort_unless_def
        m'_def new_uvm_def)
  have arr: "pt_pages u \<noteq> Some a" if "table_live m u" for u using that a(2) by (auto simp: table_live_def)
  have "sys_inv net (m', ?P)"
  proof (rule sys_invI [OF ok(1)])
    have live: "table_live m' u" if "table_live m u" for u
      using that a(2) by (auto simp: table_live_def m'_def)
    have tlive: "table_live m' t" by (simp add: table_live_def m'_def t)
    show "tables_live m' (dom ?P)"
      unfolding tables_live_def
    proof
      fix u assume "u \<in> set (page_list m')"
      then consider "u = t" | "u \<in> set (page_list m)" by (auto simp: m'_def)
      then show "if pt_pid u \<in> dom ?P then table_live m' u else page_count u = 0"
      proof cases
        case 1
        then show ?thesis using tlive by (simp add: t)
      next
        case 2
        with new have "pt_pid u \<noteq> ?pid" by (metis image_eqI)
        with 2 sys_invD(2) [OF inv] live [of u] show ?thesis by (auto simp: tables_live_def split: if_splits)
      qed
    qed
    have tl: "u \<in> set (page_list m) \<Longrightarrow> pt_pid u \<in> dom P \<Longrightarrow> table_live m u" for u
      using sys_invD(2) [OF inv] by (auto simp: tables_live_def)
    show "arrays_apart m' (dom ?P)"
      unfolding arrays_apart_def
    proof (intro ballI impI, elim conjE)
      fix u u' assume u: "u \<in> set (page_list m')" "u' \<in> set (page_list m')" "pt_pid u \<in> dom ?P" "pt_pid u' \<in> dom ?P"
        "pt_pages u = pt_pages u'"
      have old: "pt_pid u \<in> dom P" if "u \<in> set (page_list m)" "pt_pid u \<in> dom ?P" for u
      proof -
        have "pt_pid u \<noteq> ?pid" using that(1) new by (metis image_eqI)
        with that(2) show ?thesis by auto
      qed
      from u(1,2) consider "u = t" "u' = t" | "u = t" "u' \<in> set (page_list m)" | "u \<in> set (page_list m)" "u' = t"
        | "u \<in> set (page_list m)" "u' \<in> set (page_list m)" by (auto simp: m'_def)
      then show "u = u'"
      proof cases
        case 2
        then show ?thesis using u old arr tl by (metis page_table_t.select_convs(2) t)
      next
        case 3
        then show ?thesis using u old arr tl by (metis page_table_t.select_convs(2) t)
      next
        case 4
        then show ?thesis using sys_invD(3) [OF inv] u old unfolding arrays_apart_def by blast
      qed simp
    qed
    show "unused_unmapped m'" using sys_invD(4) [OF inv] by (simp add: unused_unmapped_def m'_def)
    have "unat (nextid m + 1) = Suc ?i" using i by (simp add: unat_word_ariths)
    then show "ids_ok m'" using sys_invD(5) [OF inv] by (simp add: ids_ok_def m'_def)
    show "socks_ok net m' ?P"
      unfolding socks_ok_def
    proof (intro allI impI)
      fix s c' assume s: "sock2client m' s = Some c'"
      show "net s \<and> 3 \<le> s \<and> s < MMU_MAX_SOCK \<and>
          (cl_pid c' = 0 \<or> (\<exists>u. ?P (cl_pid c') = Some (c', u) \<and> uvm_sock u = s))"
      proof (cases "s = sock")
        case True
        with s have "c' = ?c" by (simp add: m'_def)
        with True socks show ?thesis by (simp add: new_uvm_def)
      next
        case False
        with s have "sock2client m s = Some c'" by (simp add: m'_def)
        with other [OF this] sys_invD(6) [OF inv] show ?thesis unfolding socks_ok_def by fastforce
      qed
    qed
    have "page_at m' q = page_at m q" if "owns m pid q" for pid q
    proof -
      have "fst q \<noteq> a"
        using array_owned [OF pager_invD(2) [OF system_okD(1) [OF sys_invD(1) [OF inv]]] that] a(2) by auto
      then show ?thesis by (simp add: page_at_def m'_def)
    qed
    moreover have "blocks m' = blocks m" by (simp add: m'_def)
    ultimately show "blocks_owned m'" using sys_invD(7) [OF inv] unfolding blocks_owned_def ok(3) by metis
    fix q cu assume q: "?P q = Some cu"
    show "client_in net m' q cu"
    proof (cases "q = ?pid")
      case True
      have "unmapped_above m' ?pid 0"
        using sys_invD(4) [OF inv] new by (simp add: unused_unmapped_def unmapped_above_def m'_def)
      with True q ok(2) pid show ?thesis
        by (auto simp: client_in_def new_uvm_def has_room_def m'_def t UVM_BASEADDR_def UVM_MAXADDR_def)
    next
      case False
      with q have Pq: "P q = Some cu" by simp
      note d = client_inD [OF sys_invD(8) [OF inv Pq]]
      have so: "uvm_sock (snd cu) \<noteq> sock" using d(1-3) c by (auto simp: connected_def)
      have "q \<in> set ((id2pid m)[?i := ?pid])"
      proof -
        obtain j where j: "j < length (id2pid m)" "id2pid m ! j = q"
          using d(1,3) by (auto simp: connected_def in_set_conv_nth)
        moreover have "j \<noteq> ?i" using j(2) free d(2) by (auto simp: INVALID_PID_def)
        ultimately have "j < length ((id2pid m)[?i := ?pid])" "(id2pid m)[?i := ?pid] ! j = q" by simp_all
        then show ?thesis by (metis nth_mem)
      qed
      then have "connected net (fst cu) (snd cu) m'"
        using d(1,3) so False by (auto simp: connected_def m'_def)
      then show ?thesis
        using d by (auto simp: client_in_def split_beta has_room_def m'_def unmapped_above_def)
    qed
  qed
  then show ?thesis
    using step Pnone ok(3,4) by (intro exI [of _ m'] exI [of _ ?c] exI [of _ ?u])
      (simp add: new_uvm_def m'_def)
qed

end
