(* ===== verification/System_Grow.thy ===== *)
theory System_Grow
  imports System_Inv
begin

text \<open>Requests for pages and exits keep the invariant of the server and its processes.\<close>

section \<open>Requests for pages\<close>

text \<open>A table whose array nobody else uses keeps it when another process grows.\<close>

lemma other_live:
  assumes live: "tables_live m L" and apart: "arrays_apart m L" and al: "alive m pid ti" and pid: "pid \<in> L"
    and ex: "extended m m' pid ti a x b" and u: "u \<in> set (page_list m)" "u \<noteq> page_list m ! ti" "pt_pid u \<in> L"
  shows "table_live m' u" and "pt_pages u \<noteq> Some a"
proof -
  have ti: "page_list m ! ti \<in> set (page_list m)" "pt_pid (page_list m ! ti) = pid"
    using al by (simp_all add: alive_def)
  from live u(1,3) have "table_live m u" by (auto simp: tables_live_def)
  then obtain d ar where d: "pt_pages u = Some d" "page_arrays m d = Some ar"
    "length ar = page_capacity u" "page_count u \<le> page_capacity u" by (auto simp: table_live_def)
  have nd: "pt_pages (page_list m ! ti) \<noteq> Some d"
    using apart u ti pid d(1) unfolding arrays_apart_def by metis
  with extended_arrays(3) [OF ex] d(2) have da: "d \<noteq> a" by auto
  then show "pt_pages u \<noteq> Some a" using d(1) by simp
  show "table_live m' u" using d extended_arrays(2) [OF ex da nd] by (auto simp: table_live_def)
qed

lemma extend_effect:
  assumes sys: "system_ok net m" and gr: "growing net c u ti m"
    and mem: "realloc_in_place m (page_list m ! ti) pages"
    and room: "has_room m (Suc (uvm_npages u))"
    and b: "find_free_block m = int b" "b < length (blocks m)" "bl_page (blocks m ! b) = None"
  obtains m1 a x i where "extended m m1 (uvm_pid u) ti a x b" and
    "uvm_extend net pages c u m = Inr (UVM_BASEADDR + int (uvm_npages u) * int (page_size m),
      u\<lparr>uvm_npages := Suc (uvm_npages u), uvm_result := UVM_BASEADDR + int (uvm_npages u) * int (page_size m)\<rparr>,
      emit (Pager_Extend i (UVM_BASEADDR + int (uvm_npages u) * int (page_size m))) m1)"
proof -
  let ?va = "UVM_BASEADDR + int (uvm_npages u) * int (page_size m)"
  have al: "alive m (uvm_pid u) ti" and cn: "connected net c u m" and n: "page_count (page_list m ! ti) = uvm_npages u"
    using gr by (simp_all add: growing_def)
  from pager_extend_effect [OF system_okD(1,3) [OF sys] al mem b(1,2)] obtain m1 a x where
    run: "pager_extend pages (uvm_pid u) m = Inr (Some ?va, m1)" and ex: "extended m m1 (uvm_pid u) ti a x b"
    by (auto simp: n)
  from cn obtain i where i: "get_pid_id (uvm_pid u) m = Inr i" using get_pid_id_ok unfolding connected_def by blast
  have "?va < ?va + int (page_size m)" "?va + int (page_size m) \<le> UVM_MAXADDR + 1"
    using system_okD(4) [OF sys] room by (simp_all add: has_room_def algebra_simps)
  then have wa: "sint (word_of_int ?va :: 64 word) = ?va" by (intro word_address(1)) simp_all
  have "UVM_BASEADDR \<le> ?va" by simp
  moreover have "0 < UVM_BASEADDR" by (simp add: UVM_BASEADDR_def)
  ultimately have "?va \<noteq> 0" by linarith
  then have "uvm_extend net pages c u m = Inr (?va, u\<lparr>uvm_npages := Suc (uvm_npages u), uvm_result := ?va\<rparr>,
      emit (Pager_Extend (int i) ?va) m1)"
    using i run cn wa by (simp add: uvm_extend_def mmu_client_extend_def send_reply_def answer_def
        uvm_proto_extend_rep_def connected_def Let_def)
  with ex show thesis by (rule that)
qed

lemma socks_ok_update:
  assumes ok: "socks_ok net m P" and p: "P pid = Some (c, u)" and so: "uvm_sock u' = uvm_sock u"
    and m: "sock2client m' = sock2client m"
  shows "socks_ok net m' (P(pid \<mapsto> (c, u')))"
  unfolding socks_ok_def m
proof (intro allI impI)
  fix s d assume "sock2client m s = Some d"
  with ok have "net s \<and> 3 \<le> s \<and> s < MMU_MAX_SOCK"
    and "cl_pid d = 0 \<or> (\<exists>u. P (cl_pid d) = Some (d, u) \<and> uvm_sock u = s)" unfolding socks_ok_def by blast+
  with p so show "net s \<and> 3 \<le> s \<and> s < MMU_MAX_SOCK \<and>
      (cl_pid d = 0 \<or> (\<exists>u. (P(pid \<mapsto> (c, u'))) (cl_pid d) = Some (d, u) \<and> uvm_sock u = s))"
    by (cases "cl_pid d = pid") auto
qed

lemma extended_sys_inv:
  assumes inv: "sys_inv net (m, P)" and p: "P pid = Some (c, u)" and gr: "growing net c u ti m"
    and ex: "extended m m1 pid ti a x b" and b: "b < length (blocks m)"
    and sys: "system_ok net (emit e m1)" and cl: "client_in net (emit e m1) pid (c, u')"
    and so: "uvm_sock u' = uvm_sock u"
  shows "sys_inv net (emit e m1, P(pid \<mapsto> (c, u')))"
proof (rule sys_invI [OF sys])
  let ?P = "P(pid \<mapsto> (c, u'))" and ?m = "emit e m1"
  have dom: "dom ?P = dom P" "pid \<in> dom P" using p by auto
  note sys0 = sys_invD(1) [OF inv]
  have al: "alive m pid ti" using gr client_inD(1) [OF sys_invD(8) [OF inv p]] by (simp add: growing_def)
  then have ti: "ti < length (page_list m)" "pt_pid (page_list m ! ti) = pid" by (simp_all add: alive_def)
  obtain t where t: "page_list m1 = (page_list m)[ti := t]" "pt_pid t = pid" "pt_pages t = Some a"
    using extended_arrays(4) [OF ex] by blast
  have mem: "v \<in> set (page_list m1) \<Longrightarrow> v = t \<or> v \<in> set (page_list m) \<and> v \<noteq> page_list m ! ti" for v
  proof -
    assume "v \<in> set (page_list m1)"
    then obtain j where j: "j < length (page_list m)" "v = page_list m1 ! j" by (auto simp: in_set_conv_nth t)
    show "v = t \<or> v \<in> set (page_list m) \<and> v \<noteq> page_list m ! ti"
    proof (cases "j = ti")
      case True
      with j ti show ?thesis by (simp add: t)
    next
      case False
      with j have "v = page_list m ! j" by (simp add: t)
      with j(1) False other_table(1) [OF pager_invD(2) [OF system_okD(1) [OF sys0]] j(1) ti(1) False]
      show ?thesis by simp
    qed
  qed
  note oth = other_live [OF sys_invD(2,3) [OF inv] al dom(2) ex]
  have pids: "pt_pid ` set (page_list m1) = pt_pid ` set (page_list m)"
  proof -
    have "map pt_pid (page_list m1) = map pt_pid (page_list m)" using t(2) ti
      by (simp add: t(1) map_update list_update_same_conv)
    then show ?thesis by (metis set_map)
  qed
  have em: "page_list ?m = page_list m1" "page_arrays ?m = page_arrays m1" "id2pid ?m = id2pid m"
    "nextid ?m = nextid m" "sock2client ?m = sock2client m" "mappings ?m = mappings m" "page_size ?m = page_size m"
    using extendedD(12,14,20,21) [OF ex] extended_arrays(1) [OF ex] by (simp_all add: emit_def)
  have tl: "table_live m1 t"
    using extendedD(9) [OF ex] ti unfolding table_live_def by (simp add: alive_def t(1)) blast
  show "tables_live ?m (dom ?P)"
    unfolding tables_live_cong [OF em(1,2)] dom unfolding tables_live_def
  proof
    fix v assume "v \<in> set (page_list m1)"
    then consider "v = t" | "v \<in> set (page_list m)" "v \<noteq> page_list m ! ti" using mem by blast
    then show "if pt_pid v \<in> dom P then table_live m1 v else page_count v = 0"
      using oth(1) tl t(2) dom(2) sys_invD(2) [OF inv] by cases (auto simp: tables_live_def split: if_splits)
  qed
  show "arrays_apart ?m (dom ?P)"
    unfolding arrays_apart_def dom em(1)
  proof (intro ballI impI, elim conjE)
    fix v w assume v: "v \<in> set (page_list m1)" "w \<in> set (page_list m1)" "pt_pid v \<in> dom P" "pt_pid w \<in> dom P"
      "pt_pages v = pt_pages w"
    from mem [OF v(1)] mem [OF v(2)] show "v = w"
      using oth(2) [of v] oth(2) [of w] v(3-5) t(3) sys_invD(3) [OF inv] unfolding arrays_apart_def by metis
  qed
  show "unused_unmapped ?m" using sys_invD(4) [OF inv] by (simp add: unused_unmapped_def em pids)
  show "ids_ok ?m" using sys_invD(5) [OF inv] by (simp add: ids_ok_def em)
  show "socks_ok net ?m ?P"
    by (rule socks_ok_update [OF sys_invD(6) [OF inv] p so em(5)])
  show "blocks_owned ?m"
    unfolding blocks_owned_def
  proof (intro allI impI)
    fix k assume k: "k < length (blocks ?m)" "bl_page (blocks ?m ! k) \<noteq> None"
    have bs: "blocks ?m = (blocks m)[b := (blocks m ! b)\<lparr>bl_page := Some (a, page_count (page_list m ! ti))\<rparr>]"
      using extendedD(7) [OF ex] by (simp add: emit_def)
    have ow: "owns ?m = owns m1" and pt: "page_at ?m = page_at m1"
      by (rule owns_cong, simp add: emit_def, simp add: page_at_def emit_def fun_eq_iff)
    show "\<exists>pid q x. owns ?m pid q \<and> page_at ?m q = Some x \<and> block_number x = int k"
    proof (cases "k = b")
      case True
      then show ?thesis using extendedD(1,3,5) [OF ex] unfolding ow pt by blast
    next
      case False
      with k bs have "k < length (blocks m)" "bl_page (blocks m ! k) \<noteq> None" by simp_all
      then obtain pid' q y where "owns m pid' q" "page_at m q = Some y" "block_number y = int k"
        using sys_invD(7) [OF inv] unfolding blocks_owned_def by blast
      then show ?thesis using extendedD(1,2) [OF ex] unfolding ow pt by metis
    qed
  qed
  fix q cu assume q: "?P q = Some cu"
  show "client_in net ?m q cu"
  proof (cases "q = pid")
    case True
    with q cl show ?thesis by simp
  next
    case False
    with q have Pq: "P q = Some cu" by simp
    note d = client_inD [OF sys_invD(8) [OF inv Pq]]
    from d(6) obtain v where v: "v \<in> set (page_list m)" "pt_pid v = q" "page_count v = uvm_npages (snd cu)" by blast
    then obtain j where j: "j < length (page_list m)" "v = page_list m ! j" by (auto simp: in_set_conv_nth)
    then have "j \<noteq> ti" using v(2) ti(2) False by auto
    with j have "page_list m1 ! j = v" "j < length (page_list m1)" by (simp_all add: t(1))
    then have "v \<in> set (page_list m1)" by (metis nth_mem)
    moreover have "connected net (fst cu) (snd cu) ?m" using d(3) connected_cong [OF em(3,5) refl refl] by simp
    ultimately show ?thesis
      using d v unfolding client_in_def split_beta Let_def by (simp add: has_room_def unmapped_above_def em) blast
  qed
qed

lemma emit_sys_inv:
  assumes inv: "sys_inv net (m, P)" and p: "P pid = Some (c, u)"
    and u: "uvm_sock u' = uvm_sock u" "uvm_pid u' = uvm_pid u" "uvm_npages u' = uvm_npages u"
  shows "sys_inv net (emit e m, P(pid \<mapsto> (c, u')))" and "owns (emit e m) = owns m"
    and "owns m pid' q \<Longrightarrow> content (emit e m) q = content m q"
proof -
  let ?P = "P(pid \<mapsto> (c, u'))" and ?m = "emit e m"
  note sys = sys_invD(1) [OF inv] and em = emit_irrelevant [OF system_okD(1) [OF sys_invD(1) [OF inv]]]
  have f: "page_list ?m = page_list m" "page_arrays ?m = page_arrays m" "page_size ?m = page_size m"
    "mappings ?m = mappings m" "id2pid ?m = id2pid m" "nextid ?m = nextid m" "sock2client ?m = sock2client m"
    "blocks ?m = blocks m" "mutex ?m = mutex m" by (simp_all add: emit_def)
  have pt: "page_at ?m = page_at m" by (simp add: page_at_def emit_def fun_eq_iff)
  show ow: "owns ?m = owns m" by (rule owns_cong [OF f(1)])
  show "content ?m q = content m q" if "owns m pid' q" by (rule em(5) [OF that])
  have dom: "dom ?P = dom P" using p by auto
  have sv: "served net ?m = served net m" by (rule served_cong [OF f(5,7)])
  show "sys_inv net (?m, ?P)"
  proof (rule sys_invI)
    show "system_ok net ?m" using sys em(1) by (simp add: system_ok_def served_all_def sv ow f(9))
    show "tables_live ?m (dom ?P)" using sys_invD(2) [OF inv] unfolding tables_live_cong [OF f(1,2)] dom .
    show "arrays_apart ?m (dom ?P)" using sys_invD(3) [OF inv] unfolding arrays_apart_def f dom .
    show "unused_unmapped ?m" using sys_invD(4) [OF inv] by (simp add: unused_unmapped_def f)
    show "ids_ok ?m" using sys_invD(5) [OF inv] by (simp add: ids_ok_def f)
    show "socks_ok net ?m ?P" by (rule socks_ok_update [OF sys_invD(6) [OF inv] p u(1) f(7)])
    show "blocks_owned ?m" using sys_invD(7) [OF inv] by (simp add: blocks_owned_def f ow pt)
    show "client_in net ?m q cu" if q: "?P q = Some cu" for q cu
    proof (cases "q = pid")
      case True
      note d = client_inD [OF sys_invD(8) [OF inv p]]
      have "connected net c u' ?m" using d(3) connected_cong [OF f(5,7) u(1,2)] by simp
      with True q d u show ?thesis by (auto simp: client_in_def has_room_def unmapped_above_def f)
    next
      case False
      with q have "P q = Some cu" by simp
      note d = client_inD [OF sys_invD(8) [OF inv this]]
      have "connected net (fst cu) (snd cu) ?m" using d(3) connected_cong [OF f(5,7) refl refl] by simp
      with d show ?thesis by (simp add: client_in_def split_beta has_room_def unmapped_above_def f)
    qed
  qed
qed

text \<open>What an answer to a request for a page means.\<close>

definition extend_answer :: "machine \<Rightarrow> int \<Rightarrow> uvm \<Rightarrow> int \<Rightarrow> machine \<Rightarrow> uvm \<Rightarrow> bool" where
  "extend_answer m pid u va m' u' \<longleftrightarrow> page_size m' = page_size m \<and> length (blocks m') = length (blocks m) \<and>
     (\<forall>pid' q. owns m pid' q \<longrightarrow> content m' q = content m q) \<and>
     (if \<forall>b \<in> set (blocks m). bl_page b \<noteq> None
      then va = 0 \<and> uvm_npages u' = uvm_npages u \<and> owns m' = owns m
      else va = UVM_BASEADDR + int (uvm_npages u) * int (page_size m) \<and> uvm_npages u' = Suc (uvm_npages u) \<and>
        (\<exists>a. \<forall>pid' q. owns m' pid' q \<longleftrightarrow> owns m pid' q \<or> pid' = pid \<and> q = (a, uvm_npages u)))"

lemma extend_ok:
  assumes inv: "sys_inv net (m, P)" and p: "P pid = Some (c, u)" and ev: "allowed net (Extend pid memory) (m, P)"
  shows "\<exists>va m' u'. sys_step net path (Extend pid memory) (m, P) = Inr (Extended pid va, (m', P(pid \<mapsto> (c, u')))) \<and>
    sys_inv net (m', P(pid \<mapsto> (c, u'))) \<and> extend_answer m pid u va m' u'"
proof -
  note sys = sys_invD(1) [OF inv]
  obtain ti where gr: "growing net c u ti m" and ti: "ti < length (page_list m)" "pt_pid (page_list m ! ti) = pid"
    and up: "uvm_pid u = pid" by (rule sys_growing [OF inv p])
  have mem: "realloc_in_place m (page_list m ! ti) memory" and room: "has_room m (Suc (uvm_npages u))"
    using ev p ti by auto
  have n: "nblocks m = length (blocks m)" using pager_invD(1) [OF system_okD(1) [OF sys]] by (simp add: geometry_def)
  show ?thesis
  proof (cases rule: find_free_block_cases [OF n, case_names free full])
    case (full)
    have "connected net c u m" using gr by (simp add: growing_def)
    from uvm_extend_full [OF sys this full(1)] obtain i where
      run: "uvm_extend net memory c u m = Inr (0, u\<lparr>uvm_result := 0\<rparr>, emit (Pager_Extend i 0) m)" by blast
    have "uvm_sock (u\<lparr>uvm_result := 0\<rparr>) = uvm_sock u" "uvm_pid (u\<lparr>uvm_result := 0\<rparr>) = uvm_pid u"
      "uvm_npages (u\<lparr>uvm_result := 0\<rparr>) = uvm_npages u" by simp_all
    note e = emit_sys_inv [OF inv p this, where e = "Pager_Extend i 0"]
    have "extend_answer m pid u 0 (emit (Pager_Extend i 0) m) (u\<lparr>uvm_result := 0\<rparr>)"
      using full(2) e(2,3) by (auto simp: extend_answer_def emit_def)
    with run e(1) p show ?thesis
      by (intro exI [of _ 0] exI [of _ "emit (Pager_Extend i 0) m"] exI [of _ "u\<lparr>uvm_result := 0\<rparr>"]) simp
  next
    case (free b)
    let ?va = "UVM_BASEADDR + int (uvm_npages u) * int (page_size m)"
    let ?u = "u\<lparr>uvm_npages := Suc (uvm_npages u), uvm_result := ?va\<rparr>"
    obtain m1 a x i where ex: "extended m m1 (uvm_pid u) ti a x b"
      and run: "uvm_extend net memory c u m = Inr (?va, ?u, emit (Pager_Extend i ?va) m1)"
      by (rule extend_effect [OF sys gr mem room free(1-3)])
    let ?m = "emit (Pager_Extend i ?va) m1"
    have room': "UVM_BASEADDR + int (Suc (uvm_npages u)) * int (page_size m) \<le> UVM_MAXADDR + 1"
      using room by (simp add: has_room_def)
    have ok: "system_ok net ?m" "growing net c ?u ti ?m"
      "\<forall>pid q. owns m pid q \<longrightarrow> content ?m q = content m q"
      using uvm_extend_ok [OF sys gr mem room' free(1-3)] by (simp_all only: run sum.inject prod.inject) auto
    have ps: "page_size ?m = page_size m" "length (blocks ?m) = length (blocks m)"
      using extendedD(7,12) [OF ex] by (simp_all add: emit_def)
    have n: "page_count (page_list m ! ti) = uvm_npages u" using gr by (simp add: growing_def)
    have own: "owns ?m pid' q \<longleftrightarrow> owns m pid' q \<or> pid' = pid \<and> q = (a, uvm_npages u)" for pid' q
    proof -
      have "owns ?m = owns m1" by (rule owns_cong) (simp add: emit_def)
      with extendedD(1) [OF ex, of pid' q] n up show ?thesis by simp
    qed
    have "client_in net ?m pid (c, ?u)"
      using ok(2) up room ps client_inD(2) [OF sys_invD(8) [OF inv p]]
      by (auto simp: client_in_def growing_def alive_def has_room_def)
    from extended_sys_inv [OF inv p gr ex [unfolded up] free(2) ok(1) this]
    have "sys_inv net (?m, P(pid \<mapsto> (c, ?u)))" by simp
    moreover have "\<not> (\<forall>b \<in> set (blocks m). bl_page b \<noteq> None)" using free(2,3) nth_mem by blast
    then have "extend_answer m pid u ?va ?m ?u" using ps ok(3) own unfolding extend_answer_def by auto
    ultimately show ?thesis using run p
      by (intro exI [of _ ?va] exI [of _ ?m] exI [of _ ?u]) simp
  qed
qed

section \<open>Exits\<close>

text \<open>What is left of a process: its pages are free, its table is empty and its connection closed.\<close>

definition left_by :: "(nat \<Rightarrow> bool) \<Rightarrow> machine \<Rightarrow> machine \<Rightarrow> int \<Rightarrow> nat \<Rightarrow> nat \<Rightarrow> bool" where
  "left_by net m m' pid ti sock \<longleftrightarrow> system_ok net m' \<and> frees m m' pid \<and> still_free m m' \<and>
     (\<forall>pid' q. owns m' pid' q \<longleftrightarrow> owns m pid' q \<and> pid' \<noteq> pid) \<and>
     (\<forall>pid' q. owns m' pid' q \<longrightarrow> content m' q = content m q) \<and>
     page_list m' = (page_list m)[ti := (page_list m ! ti)\<lparr>page_count := 0\<rparr>] \<and>
     page_arrays m' = (page_arrays m)(the (pt_pages (page_list m ! ti)) := None) \<and>
     page_size m' = page_size m \<and> mappings m' = mappings m \<and> id2pid m' = id2pid m \<and> nextid m' = nextid m \<and>
     sock2client m' = (sock2client m)(sock := None) \<and> length (blocks m') = length (blocks m)"

lemma exit_effect:
  assumes sys: "system_ok net m" and cn: "connected net c u m" and al: "alive m (uvm_pid u) ti"
    and pid: "uvm_pid u \<noteq> 0"
  shows "\<exists>m'. uvm_exit net c u m = Inr m' \<and> left_by net m m' (uvm_pid u) ti (uvm_sock u)"
proof -
  note em = emit_irrelevant [OF system_okD(1) [OF sys]]
  from cn obtain i where i: "get_pid_id (uvm_pid u) m = Inr i" using get_pid_id_ok unfolding connected_def by blast
  let ?m1 = "emit (Pager_Destroy (int i)) m"
  have al1: "alive ?m1 (uvm_pid u) ti" using al by (simp add: alive_def emit_def)
  have mx1: "\<not> mutex ?m1" using system_okD(3) [OF sys] by (simp add: emit_def)
  from pager_destroy_ok [OF em(1) mx1 al1] obtain m2 where
    m2: "pager_destroy (uvm_pid u) ?m1 = Inr m2" "untouched ?m1 m2" "still_free ?m1 m2"
      "page_list m2 = (page_list m)[ti := (page_list m ! ti)\<lparr>page_count := 0\<rparr>]"
      "page_arrays m2 = (page_arrays m)(the (pt_pages (page_list m ! ti)) := None)"
    by (auto simp: emit_def)
  let ?m' = "m2\<lparr>sock2client := (sock2client m2)(uvm_sock u := None)\<rparr>"
  have run: "mmu_client_exit net (uvm_sock u) c (Some Exit_Req) m = Inr (Some Exit_Rep, ?m')"
    using cn pid i m2(1) by (simp add: mmu_client_exit_def connected_def)
  have "uvm_exit net c u m = Inr ?m'"
    using run cn by (simp add: uvm_exit_def uvm_thread_turn_def connected_def)
  moreover have "still_free m ?m'" using m2(3) by (simp add: still_free_def emit_def)
  moreover have "map bl_allocated (blocks m2) = map bl_allocated (blocks m)"
    using m2(2) by (simp add: untouched_def emit_def)
  then have "length (blocks m2) = length (blocks m)" by (metis length_map)
  ultimately show ?thesis
    using mmu_client_exit_ok [OF sys cn al pid] m2(2,4,5)
    by (intro exI [of _ ?m']) (auto simp: left_by_def run untouched_def emit_def)
qed

text \<open>A connection that breaks has the same effect.\<close>

lemma destroy_effect:
  assumes sys: "system_ok net m" and cn: "connected net c u m" and al: "alive m (uvm_pid u) ti"
    and pid: "uvm_pid u \<noteq> 0"
  shows "\<exists>m'. mmu_client_destroy (uvm_sock u) c m = Inr m' \<and> left_by net m m' (uvm_pid u) ti (uvm_sock u)"
proof -
  note inv = system_okD(1) [OF sys]
  let ?m1 = "m\<lparr>sock2client := (sock2client m)(uvm_sock u := None)\<rparr>"
  have ow: "owns ?m1 = owns m" by (rule owns_cong) simp
  have pt: "page_at ?m1 = page_at m" by (simp add: page_at_def fun_eq_iff)
  have t: "tables_ok ?m1" using pager_invD(2) [OF inv] by (simp add: tables_ok_def)
  have inv1: "pager_inv {} ?m1" by (rule pager_inv_cong(1) [OF inv ow _ t]) (simp_all add: pt)
  have ct1: "content ?m1 q = content m q" if "owns m pid' q" for pid' q
    by (rule pager_inv_cong(2) [OF inv ow _ t _ _ _ _ _ _ _ _ _ that]) (simp_all add: pt)
  have al1: "alive ?m1 (uvm_pid u) ti" using al by (simp add: alive_def)
  have mx1: "\<not> mutex ?m1" using system_okD(3) [OF sys] by simp
  from pager_destroy_ok [OF inv1 mx1 al1] obtain m2 where
    m2: "pager_destroy (uvm_pid u) ?m1 = Inr m2" "pager_inv {} m2" "untouched ?m1 m2" "frees ?m1 m2 (uvm_pid u)"
      "still_free ?m1 m2" "page_list m2 = (page_list m)[ti := (page_list m ! ti)\<lparr>page_count := 0\<rparr>]"
      "page_arrays m2 = (page_arrays m)(the (pt_pages (page_list m ! ti)) := None)"
      "\<forall>pid' q. owns m2 pid' q \<longleftrightarrow> owns m pid' q \<and> pid' \<noteq> uvm_pid u"
      "\<forall>pid' q. owns m2 pid' q \<longrightarrow> content m2 q = content ?m1 q"
    unfolding ow by auto
  have "mmu_client_destroy (uvm_sock u) c m = Inr m2"
    using m2(1) cn pid by (simp add: mmu_client_destroy_def connected_def Let_def)
  moreover have "system_ok net m2"
  proof -
    have "served net m2 q" if "owns m2 q y" for q y
    proof (rule served_forget [OF _ cn])
      have o: "owns m q y" "q \<noteq> uvm_pid u" using that m2(8) by blast+
      show "served net m q" by (rule served_allD [OF system_okD(2) [OF sys] o(1)])
      show "q \<noteq> uvm_pid u" by (rule o(2))
    qed (use m2(3) in \<open>simp_all add: untouched_def\<close>)
    then show ?thesis using m2(2,3) mx1 by (simp add: system_ok_def served_all_def untouched_def)
  qed
  moreover have "frees m m2 (uvm_pid u)" "still_free m m2"
    using m2(4,5) by (simp_all add: frees_def still_free_def ow pt)
  moreover have "content m2 q = content m q" if "owns m2 pid' q" for pid' q
    using that m2(8,9) ct1 by metis
  moreover have "map bl_allocated (blocks m2) = map bl_allocated (blocks m)" using m2(3) by (simp add: untouched_def)
  then have "length (blocks m2) = length (blocks m)" by (metis length_map)
  ultimately show ?thesis
    using m2(3,6,7,8) by (intro exI [of _ m2]) (simp add: left_by_def untouched_def)
qed

lemma left_inv:
  assumes inv: "sys_inv net (m, P)" and p: "P pid = Some (c, u)" and ti: "ti < length (page_list m)" "pt_pid (page_list m ! ti) = pid"
    and l: "left_by net m m' pid ti (uvm_sock u)"
  shows "sys_inv net (m', P(pid := None))"
proof -
  let ?P = "P(pid := None)"
  note sys = sys_invD(1) [OF inv] and d = client_inD [OF sys_invD(8) [OF inv p], unfolded fst_conv snd_conv]
  note up = d(1)
  have "page_list m ! ti \<in> set (page_list m)" "pt_pid (page_list m ! ti) \<in> dom P" using ti p by auto
  with sys_invD(2) [OF inv] have "table_live m (page_list m ! ti)" unfolding tables_live_def by metis
  then obtain a where a: "pt_pages (page_list m ! ti) = Some a" by (auto simp: table_live_def)
  from l a have sys': "system_ok net m'" and fr: "frees m m' pid" "still_free m m'"
    and own: "\<forall>pid' q. owns m' pid' q \<longleftrightarrow> owns m pid' q \<and> pid' \<noteq> pid"
    and pl: "page_list m' = (page_list m)[ti := (page_list m ! ti)\<lparr>page_count := 0\<rparr>]"
    and pa: "page_arrays m' = (page_arrays m)(a := None)"
    and f: "page_size m' = page_size m" "mappings m' = mappings m" "id2pid m' = id2pid m"
      "nextid m' = nextid m" "sock2client m' = (sock2client m)(uvm_sock u := None)"
      "length (blocks m') = length (blocks m)"
    unfolding left_by_def by simp_all
  have mem: "v = (page_list m ! ti)\<lparr>page_count := 0\<rparr> \<or> v \<in> set (page_list m) \<and> pt_pid v \<noteq> pid"
    if "v \<in> set (page_list m')" for v
  proof -
    from that obtain j where j: "j < length (page_list m)" "v = page_list m' ! j" by (auto simp: in_set_conv_nth pl)
    show ?thesis
    proof (cases "j = ti")
      case True
      with j ti show ?thesis by (simp add: pl)
    next
      case False
      with j have "v = page_list m ! j" by (simp add: pl)
      with j(1) ti other_table(2) [OF pager_invD(2) [OF system_okD(1) [OF sys]] j(1) ti(1) False]
      show ?thesis by simp
    qed
  qed
  have pids: "pt_pid ` set (page_list m') = pt_pid ` set (page_list m)"
  proof -
    have "map pt_pid (page_list m') = map pt_pid (page_list m)" using ti
      by (simp add: pl map_update list_update_same_conv)
    then show ?thesis by (metis set_map)
  qed
  have na: "pt_pages v \<noteq> Some a" if "v \<in> set (page_list m)" "pt_pid v \<noteq> pid" "pt_pid v \<in> dom P" for v
  proof
    assume "pt_pages v = Some a"
    then have "v = page_list m ! ti"
      using sys_invD(3) [OF inv] that(1,3) ti a p unfolding arrays_apart_def by (metis domI nth_mem)
    with that(2) ti(2) show False by simp
  qed
  show ?thesis
  proof (rule sys_invI [OF sys'])
    show "tables_live m' (dom ?P)"
      unfolding tables_live_def
    proof
      fix v assume "v \<in> set (page_list m')"
      then consider "v = (page_list m ! ti)\<lparr>page_count := 0\<rparr>" | "v \<in> set (page_list m)" "pt_pid v \<noteq> pid"
        using mem by blast
      then show "if pt_pid v \<in> dom ?P then table_live m' v else page_count v = 0"
      proof cases
        case 1
        then show ?thesis by (simp add: ti)
      next
        case 2
        have "table_live m' v" if "pt_pid v \<in> dom P"
        proof -
          have "table_live m v" using sys_invD(2) [OF inv] 2(1) that by (auto simp: tables_live_def)
          then show ?thesis using na [OF 2 that] unfolding table_live_def pa by auto
        qed
        then show ?thesis using sys_invD(2) [OF inv] 2 by (auto simp: tables_live_def split: if_splits)
      qed
    qed
    show "arrays_apart m' (dom ?P)"
      unfolding arrays_apart_def
    proof (intro ballI impI, elim conjE)
      fix v w assume v: "v \<in> set (page_list m')" "w \<in> set (page_list m')" "pt_pid v \<in> dom ?P" "pt_pid w \<in> dom ?P"
        "pt_pages v = pt_pages w"
      have "x \<in> set (page_list m) \<and> pt_pid x \<in> dom P" if "x \<in> set (page_list m')" "pt_pid x \<in> dom ?P" for x
        using mem [OF that(1)] that(2) ti(2) by auto
      with v sys_invD(3) [OF inv] show "v = w" unfolding arrays_apart_def by blast
    qed
    show "unused_unmapped m'" using sys_invD(4) [OF inv] by (simp add: unused_unmapped_def f pids)
    show "ids_ok m'" using sys_invD(5) [OF inv] by (simp add: ids_ok_def f)
    show "socks_ok net m' ?P"
      unfolding socks_ok_def
    proof (intro allI impI)
      fix s e assume "sock2client m' s = Some e"
      then have s: "s \<noteq> uvm_sock u" "sock2client m s = Some e" by (simp_all add: f split: if_splits)
      then have "cl_pid e \<noteq> pid" using d(3) up unfolding connected_def by metis
      then show "net s \<and> 3 \<le> s \<and> s < MMU_MAX_SOCK \<and>
          (cl_pid e = 0 \<or> (\<exists>u. ?P (cl_pid e) = Some (e, u) \<and> uvm_sock u = s))"
        using sys_invD(6) [OF inv] s(2) unfolding socks_ok_def by auto
    qed
    show "blocks_owned m'"
      unfolding blocks_owned_def
    proof (intro allI impI)
      fix k assume k: "k < length (blocks m')" "bl_page (blocks m' ! k) \<noteq> None"
      have "k < length (blocks m)" "bl_page (blocks m ! k) \<noteq> None"
        using k f(6) fr(2) unfolding still_free_def by metis+
      then obtain q pq y where y: "owns m q pq" "page_at m pq = Some y" "block_number y = int k"
        using sys_invD(7) [OF inv] unfolding blocks_owned_def by blast
      have "q \<noteq> pid"
      proof
        assume "q = pid"
        with fr(1) y up have "bl_page (blocks m' ! nat (int k)) = None" unfolding frees_def by metis
        with k(2) show False by simp
      qed
      with own y(1) up have o: "owns m' q pq" by blast
      obtain t where t: "t \<in> set (page_list m)" "pt_pid t = q" "pt_pages t = Some (fst pq)" "0 < page_count t"
        using y(1) by (auto simp: owns_def)
      have "pt_pid t \<in> dom P" using sys_invD(2) [OF inv] t(1,4) by (auto simp: tables_live_def split: if_splits)
      with na [OF t(1)] t \<open>q \<noteq> pid\<close> have "fst pq \<noteq> a" by simp
      then have "page_at m' pq = page_at m pq" by (simp add: page_at_def pa)
      with o y show "\<exists>pid q x. owns m' pid q \<and> page_at m' q = Some x \<and> block_number x = int k" by metis
    qed
    fix q cu assume "?P q = Some cu"
    then have q: "q \<noteq> pid" and Pq: "P q = Some cu" by (auto split: if_splits)
    note e = client_inD [OF sys_invD(8) [OF inv Pq]]
    have "uvm_sock (snd cu) \<noteq> uvm_sock u" using e(1,3) d(1,3) q by (auto simp: connected_def)
    then have "connected net (fst cu) (snd cu) m'" using e(1,3) by (auto simp: connected_def f)
    moreover obtain v where v: "v \<in> set (page_list m)" "pt_pid v = q" "page_count v = uvm_npages (snd cu)"
      using e(6) by blast
    then obtain j where j: "j < length (page_list m)" "v = page_list m ! j" by (auto simp: in_set_conv_nth)
    then have "j \<noteq> ti" using v(2) ti(2) q by auto
    with j have "page_list m' ! j = v" "j < length (page_list m')" by (simp_all add: pl)
    then have "v \<in> set (page_list m')" by (metis nth_mem)
    ultimately show "client_in net m' q cu"
      using e v unfolding client_in_def split_beta Let_def by (simp add: has_room_def unmapped_above_def f) blast
  qed
qed

lemma quit_ok:
  assumes inv: "sys_inv net (m, P)" and p: "P pid = Some (c, u)"
  shows "\<exists>m'. sys_step net path (Quit pid) (m, P) = Inr (Left pid, (m', P(pid := None))) \<and>
    sys_inv net (m', P(pid := None)) \<and> page_size m' = page_size m \<and> length (blocks m') = length (blocks m) \<and>
    (\<forall>pid' q. owns m' pid' q \<longleftrightarrow> owns m pid' q \<and> pid' \<noteq> pid) \<and>
    (\<forall>pid' q. owns m' pid' q \<longrightarrow> content m' q = content m q)"
    and "\<exists>m'. mmu_client_destroy (uvm_sock u) c m = Inr m' \<and>
    sys_inv net (m', P(pid := None)) \<and> sock2client m' = (sock2client m)(uvm_sock u := None) \<and>
    page_size m' = page_size m \<and> length (blocks m') = length (blocks m) \<and>
    (\<forall>pid' q. owns m' pid' q \<longleftrightarrow> owns m pid' q \<and> pid' \<noteq> pid) \<and>
    (\<forall>pid' q. owns m' pid' q \<longrightarrow> content m' q = content m q)"
proof -
  note d = client_inD [OF sys_invD(8) [OF inv p], unfolded fst_conv snd_conv]
  obtain ti where gr: "growing net c u ti m" and ti: "ti < length (page_list m)" "pt_pid (page_list m ! ti) = pid"
    and up: "uvm_pid u = pid" by (rule sys_growing [OF inv p])
  have al: "alive m (uvm_pid u) ti" using gr by (simp add: growing_def)
  have nz: "uvm_pid u \<noteq> 0" using d(1,2) by simp
  from exit_effect [OF sys_invD(1) [OF inv] d(3) al nz] obtain m1 where
    m1: "uvm_exit net c u m = Inr m1" "left_by net m m1 pid ti (uvm_sock u)" by (auto simp: up)
  from left_inv [OF inv p ti m1(2)] m1 p
  show "\<exists>m'. sys_step net path (Quit pid) (m, P) = Inr (Left pid, (m', P(pid := None))) \<and>
    sys_inv net (m', P(pid := None)) \<and> page_size m' = page_size m \<and> length (blocks m') = length (blocks m) \<and>
    (\<forall>pid' q. owns m' pid' q \<longleftrightarrow> owns m pid' q \<and> pid' \<noteq> pid) \<and>
    (\<forall>pid' q. owns m' pid' q \<longrightarrow> content m' q = content m q)"
    by (intro exI [of _ m1]) (simp add: left_by_def)
  from destroy_effect [OF sys_invD(1) [OF inv] d(3) al nz] obtain m2 where
    m2: "mmu_client_destroy (uvm_sock u) c m = Inr m2" "left_by net m m2 pid ti (uvm_sock u)" by (auto simp: up)
  from left_inv [OF inv p ti m2(2)] m2
  show "\<exists>m'. mmu_client_destroy (uvm_sock u) c m = Inr m' \<and>
    sys_inv net (m', P(pid := None)) \<and> sock2client m' = (sock2client m)(uvm_sock u := None) \<and>
    page_size m' = page_size m \<and> length (blocks m') = length (blocks m) \<and>
    (\<forall>pid' q. owns m' pid' q \<longleftrightarrow> owns m pid' q \<and> pid' \<noteq> pid) \<and>
    (\<forall>pid' q. owns m' pid' q \<longrightarrow> content m' q = content m q)"
    by (intro exI [of _ m2]) (simp add: left_by_def)
qed

text \<open>Any connection may break.\<close>

definition without :: "mmu_client \<Rightarrow> (int \<rightharpoonup> mmu_client \<times> uvm) \<Rightarrow> int \<rightharpoonup> mmu_client \<times> uvm" where
  "without c P = (if cl_pid c = 0 then P else P(cl_pid c := None))"

lemma lost_ok:
  assumes inv: "sys_inv net (m, P)" and c: "sock2client m s = Some c"
  shows "\<exists>m'. mmu_client_destroy s c m = Inr m' \<and> sys_inv net (m', without c P) \<and>
    sock2client m' = (sock2client m)(s := None) \<and> page_size m' = page_size m \<and> length (blocks m') = length (blocks m) \<and>
    (\<forall>pid' q. owns m' pid' q \<longrightarrow> owns m pid' q \<and> content m' q = content m q)"
proof (cases "cl_pid c = 0")
  case True
  from drop_ok [OF inv c True] obtain m' where
    "mmu_client_destroy s c m = Inr m'" "sys_inv net (m', P)" "sock2client m' = (sock2client m)(s := None)"
    "page_size m' = page_size m" "length (blocks m') = length (blocks m)" "owns m' = owns m"
    "\<forall>pid q. owns m pid q \<longrightarrow> content m' q = content m q" by blast
  with True show ?thesis by (intro exI [of _ m']) (auto simp: without_def)
next
  case False
  with sys_invD(6) [OF inv] c obtain u where u: "P (cl_pid c) = Some (c, u)" "uvm_sock u = s"
    unfolding socks_ok_def by blast
  from quit_ok(2) [OF inv u(1)] obtain m' where
    "mmu_client_destroy s c m = Inr m'" "sys_inv net (m', P(cl_pid c := None))"
    "sock2client m' = (sock2client m)(s := None)"
    "page_size m' = page_size m" "length (blocks m') = length (blocks m)"
    "\<forall>pid' q. owns m' pid' q \<longleftrightarrow> owns m pid' q \<and> pid' \<noteq> cl_pid c"
    "\<forall>pid' q. owns m' pid' q \<longrightarrow> content m' q = content m q" unfolding u(2) by blast
  with False show ?thesis by (intro exI [of _ m']) (simp add: without_def)
qed

section \<open>Shutdown\<close>

lemma destroy_clients_ok:
  assumes "sys_inv net (m, P)"
  shows "\<exists>m' P'. destroy_clients socks m = Inr m' \<and> sys_inv net (m', P') \<and>
    (\<forall>s. sock2client m' s = (if s \<in> set socks then None else sock2client m s)) \<and>
    length (blocks m') = length (blocks m)"
  using assms
proof (induction socks arbitrary: m P)
  case Nil
  then show ?case by auto
next
  case (Cons s socks)
  show ?case
  proof (cases "sock2client m s")
    case None
    with Cons.IH [OF Cons.prems] show ?thesis by auto
  next
    case (Some c)
    from lost_ok [OF Cons.prems Some] obtain m1 where m1: "mmu_client_destroy s c m = Inr m1"
      "sys_inv net (m1, without c P)" "sock2client m1 = (sock2client m)(s := None)"
      "length (blocks m1) = length (blocks m)" by blast
    from Cons.IH [OF m1(2)] Some m1(1,3,4) show ?thesis by auto
  qed
qed

lemma nobody_left:
  assumes inv: "sys_inv net (m, P)" and none: "\<And>s. sock2client m s = None"
  shows "P = Map.empty" and "\<not> owns m pid q" and "b \<in> set (blocks m) \<Longrightarrow> bl_page b = None"
proof -
  show P: "P = Map.empty"
  proof
    fix q show "P q = Map.empty q"
    proof (cases "P q")
      case (Some cu)
      from client_inD(3) [OF sys_invD(8) [OF inv Some]] none show ?thesis by (simp add: connected_def)
    qed simp
  qed
  show no: "\<not> owns m pid q" for pid q using owner_live [OF sys_invD(2) [OF inv], of pid q] P by auto
  show "bl_page b = None" if b: "b \<in> set (blocks m)"
  proof -
    obtain k where "k < length (blocks m)" "b = blocks m ! k" using b by (auto simp: in_set_conv_nth)
    then show ?thesis using sys_invD(7) [OF inv] no unfolding blocks_owned_def by blast
  qed
qed

lemma mmu_destroy_ok:
  assumes inv: "sys_inv net (m, P)"
  shows "\<exists>m'. mmu_destroy m = Inr m' \<and> sock2client m' = Map.empty \<and> (\<forall>b \<in> set (blocks m'). bl_page b = None) \<and>
    (\<forall>pid q. \<not> owns m' pid q) \<and> length (blocks m') = length (blocks m) \<and> pmem m' = [] \<and> disk m' = [] \<and> \<not> mutex m'"
proof -
  from destroy_clients_ok [OF inv, of "[3..<MMU_MAX_SOCK]"] obtain m1 P1 where
    m1: "destroy_clients [3..<MMU_MAX_SOCK] m = Inr m1" "sys_inv net (m1, P1)"
      "\<And>s. sock2client m1 s = (if s \<in> set [3..<MMU_MAX_SOCK] then None else sock2client m s)"
      "length (blocks m1) = length (blocks m)" by blast
  have none: "sock2client m1 s = None" for s
  proof (cases "s \<in> set [3..<MMU_MAX_SOCK]")
    case False
    then have "\<not> (3 \<le> s \<and> s < MMU_MAX_SOCK)" by simp
    then have "sock2client m s = None" using sys_invD(6) [OF inv] unfolding socks_ok_def by (metis not_Some_eq)
    then show ?thesis using m1(3) False by simp
  qed (simp add: m1(3))
  note nb = nobody_left [OF m1(2) none]
  have ow: "owns (m1\<lparr>pmem := [], disk := []\<rparr>) = owns m1" by (rule owns_cong) simp
  show ?thesis
    using m1(1,4) nb none system_okD(3) [OF sys_invD(1) [OF m1(2)]]
    by (intro exI [of _ "m1\<lparr>pmem := [], disk := []\<rparr>"]) (simp add: mmu_destroy_def ow fun_eq_iff)
qed

end
