(* ===== verification/System_Refine.thy ===== *)
theory System_Refine
  imports System_Grow
begin

text \<open>
  The specification of the paged memory as a whole: live processes with numbers of pages, flat memories,
  and \<open>N\<close> pages for all of them.  Every run of the server and its clients is a run of it.
\<close>

section \<open>Specification\<close>

type_synonym spec = "(int \<rightharpoonup> nat) \<times> flat"

definition pages_of :: "(int \<rightharpoonup> nat) \<Rightarrow> nat" where
  "pages_of Q = (\<Sum>pid \<in> dom Q. the (Q pid))"

definition page_start :: "nat \<Rightarrow> nat \<Rightarrow> int" where
  "page_start ps n = UVM_BASEADDR + int n * int ps"

inductive spec_step :: "nat \<Rightarrow> nat \<Rightarrow> spec \<Rightarrow> label \<Rightarrow> spec \<Rightarrow> bool" for ps N where
  spec_accept: "spec_step ps N s Accepted s"
| spec_create: "Q pid = None \<Longrightarrow> spec_step ps N (Q, mu) (Created pid) (Q(pid \<mapsto> 0), mu)"
| spec_extend: "Q pid = Some n \<Longrightarrow> pages_of Q < N \<Longrightarrow>
    \<forall>q va. q \<noteq> pid \<or> va < page_start ps n \<or> page_start ps (Suc n) \<le> va \<longrightarrow> mu' q va = mu q va \<Longrightarrow>
    spec_step ps N (Q, mu) (Extended pid (page_start ps n)) (Q(pid \<mapsto> Suc n), mu')"
| spec_full: "Q pid = Some n \<Longrightarrow> pages_of Q = N \<Longrightarrow> spec_step ps N (Q, mu) (Extended pid 0) (Q, mu)"
| spec_read: "Q pid = Some n \<Longrightarrow> UVM_BASEADDR \<le> va \<Longrightarrow> va < page_start ps n \<Longrightarrow>
    spec_step ps N (Q, mu) (Did_Read pid va (mu pid va)) (Q, mu)"
| spec_write: "Q pid = Some n \<Longrightarrow> UVM_BASEADDR \<le> va \<Longrightarrow> va < page_start ps n \<Longrightarrow>
    spec_step ps N (Q, mu) (Did_Write pid va b) (Q, mu(pid := (mu pid)(va := b)))"
| spec_leave: "Q pid = Some n \<Longrightarrow> spec_step ps N (Q, mu) (Left pid) (Q(pid := None), mu)"
| spec_drop: "spec_step ps N s Dropped s"

section \<open>Pages and blocks\<close>

definition sizes :: "(int \<rightharpoonup> mmu_client \<times> uvm) \<Rightarrow> int \<rightharpoonup> nat" where
  "sizes P pid = map_option (\<lambda>cu. uvm_npages (snd cu)) (P pid)"

lemma dom_sizes [simp]: "dom (sizes P) = dom P"
  by (auto simp: sizes_def)

text \<open>The pages of a live process are the first elements of one array.\<close>

lemma pages_of_process:
  assumes inv: "sys_inv net (m, P)" and p: "P pid = Some cu"
  obtains a where "\<And>q. owns m pid q \<longleftrightarrow> (\<exists>i < uvm_npages (snd cu). q = (a, i))"
proof -
  note t = pager_invD(2) [OF system_okD(1) [OF sys_invD(1) [OF inv]]]
  from client_inD(6) [OF sys_invD(8) [OF inv p]] obtain u where
    u: "u \<in> set (page_list m)" "pt_pid u = pid" "page_count u = uvm_npages (snd cu)" by blast
  have "pt_pid u \<in> dom P" using u(2) p by auto
  then have "table_live m u" using sys_invD(2) [OF inv] u(1) unfolding tables_live_def by simp
  then obtain a where a: "pt_pages u = Some a" by (auto simp: table_live_def)
  have "owns m pid q \<longleftrightarrow> fst q = a \<and> snd q < uvm_npages (snd cu)" for q
  proof
    assume "owns m pid q"
    then obtain v where v: "v \<in> set (page_list m)" "pt_pid v = pid" "pt_pages v = Some (fst q)" "snd q < page_count v"
      by (auto simp: owns_def)
    then have "u = v" using u by (intro table_unique [OF t]) simp_all
    with v(3,4) u(3) a show "fst q = a \<and> snd q < uvm_npages (snd cu)" by simp
  next
    assume "fst q = a \<and> snd q < uvm_npages (snd cu)"
    with u a show "owns m pid q" unfolding owns_def by (intro bexI [of _ u]) simp_all
  qed
  then show thesis by (intro that [of a]) (metis fst_conv prod.collapse snd_conv)
qed

lemma live_finite:
  assumes inv: "sys_inv net (m, P)"
  shows "finite (dom P)"
proof (rule finite_subset)
  show "dom P \<subseteq> pt_pid ` set (page_list m)"
  proof
    fix pid assume "pid \<in> dom P"
    then obtain cu where "P pid = Some cu" by blast
    from client_inD(6) [OF sys_invD(8) [OF inv this]] show "pid \<in> pt_pid ` set (page_list m)" by auto
  qed
qed simp

definition page_block :: "machine \<Rightarrow> nat \<times> nat \<Rightarrow> nat" where
  "page_block m q = nat (block_number (the (page_at m q)))"

lemma used_blocks:
  assumes inv: "sys_inv net (m, P)"
  shows "card {b. b < length (blocks m) \<and> bl_page (blocks m ! b) \<noteq> None} = pages_of (sizes P)"
proof -
  note pi = system_okD(1) [OF sys_invD(1) [OF inv]]
  let ?O = "\<lambda>pid. {q. owns m pid q}" and ?B = "{b. b < length (blocks m) \<and> bl_page (blocks m ! b) \<noteq> None}"
  have pid_page: "card (?O pid) = the (sizes P pid) \<and> finite (?O pid)" if "pid \<in> dom P" for pid
  proof -
    from that obtain cu where p: "P pid = Some cu" by blast
    obtain a where "\<And>q. owns m pid q \<longleftrightarrow> (\<exists>i < uvm_npages (snd cu). q = (a, i))"
      by (rule pages_of_process [OF inv p]) blast
    then have "?O pid = Pair a ` {..< uvm_npages (snd cu)}" by auto
    then show ?thesis by (simp add: p sizes_def card_image inj_on_def)
  qed
  have disj: "?O pid \<inter> ?O pid' = {}" if "pid \<noteq> pid'" for pid pid'
    using owner_unique [OF pager_invD(2) [OF pi]] that by blast
  have dec: "\<exists>x. page_at m q = Some x \<and> 0 \<le> block_number x \<and> block_number x < int (length (blocks m)) \<and>
      bl_page (blocks m ! nat (block_number x)) \<noteq> None" if "owns m pid q" for pid q
    using pager_invD(3) [OF pi] that unfolding pages_ok_def by blast
  have "bij_betw (page_block m) (\<Union>pid \<in> dom P. ?O pid) ?B"
  proof (intro bij_betwI' [where f = "page_block m"])
    fix q r assume "q \<in> (\<Union>pid \<in> dom P. ?O pid)" "r \<in> (\<Union>pid \<in> dom P. ?O pid)"
    then obtain pid pid' where o: "owns m pid q" "owns m pid' r" by blast
    from dec [OF o(1)] dec [OF o(2)] obtain x y where x: "page_at m q = Some x" "0 \<le> block_number x"
      and y: "page_at m r = Some y" "0 \<le> block_number y" by blast
    show "page_block m q = page_block m r \<longleftrightarrow> q = r"
      using blocks_apartD [OF pi o x(1) y(1)] x y by (auto simp: page_block_def)
  next
    fix q assume "q \<in> (\<Union>pid \<in> dom P. ?O pid)"
    then obtain pid where "owns m pid q" by blast
    from dec [OF this] show "page_block m q \<in> ?B" by (auto simp: page_block_def)
  next
    fix b assume "b \<in> ?B"
    then obtain pid q x where o: "owns m pid q" "page_at m q = Some x" "block_number x = int b"
      using sys_invD(7) [OF inv] unfolding blocks_owned_def by blast
    have "q \<in> (\<Union>pid \<in> dom P. ?O pid)" using o(1) owner_live [OF sys_invD(2) [OF inv] o(1)] by blast
    moreover have "b = page_block m q" using o by (simp add: page_block_def)
    ultimately show "\<exists>q \<in> \<Union>pid \<in> dom P. ?O pid. b = page_block m q" by blast
  qed
  then have "card ?B = card (\<Union>pid \<in> dom P. ?O pid)" by (simp add: bij_betw_same_card)
  also have "\<dots> = (\<Sum>pid \<in> dom P. card (?O pid))"
    using live_finite [OF inv] pid_page disj by (intro card_UN_disjoint) auto
  also have "\<dots> = pages_of (sizes P)"
    unfolding pages_of_def dom_sizes using pid_page by (intro sum.cong) simp_all
  finally show ?thesis .
qed

lemma full_iff:
  assumes inv: "sys_inv net (m, P)"
  shows "(\<forall>b \<in> set (blocks m). bl_page b \<noteq> None) \<longleftrightarrow> pages_of (sizes P) = length (blocks m)"
    and "pages_of (sizes P) \<le> length (blocks m)"
proof -
  let ?B = "{b. b < length (blocks m) \<and> bl_page (blocks m ! b) \<noteq> None}"
  have sub: "?B \<subseteq> {..< length (blocks m)}" by auto
  have "card ?B \<le> card {..< length (blocks m)}" by (rule card_mono [OF _ sub]) simp
  then show "pages_of (sizes P) \<le> length (blocks m)" unfolding used_blocks [OF inv] by simp
  have "(\<forall>b \<in> set (blocks m). bl_page b \<noteq> None) \<longleftrightarrow> ?B = {..< length (blocks m)}"
    by (auto simp: all_set_conv_all_nth)
  also have "\<dots> \<longleftrightarrow> card ?B = length (blocks m)"
  proof
    assume "?B = {..< length (blocks m)}"
    then show "card ?B = length (blocks m)" by (simp only: card_lessThan)
  next
    assume "card ?B = length (blocks m)"
    then show "?B = {..< length (blocks m)}" by (intro card_subset_eq [OF _ sub]) (simp_all only: card_lessThan finite_lessThan)
  qed
  finally show "(\<forall>b \<in> set (blocks m). bl_page b \<noteq> None) \<longleftrightarrow> pages_of (sizes P) = length (blocks m)"
    unfolding used_blocks [OF inv] .
qed

section \<open>Refinement\<close>

definition related :: "(nat \<Rightarrow> bool) \<Rightarrow> nat \<Rightarrow> nat \<Rightarrow> system \<Rightarrow> spec \<Rightarrow> bool" where
  "related net ps N s sp \<longleftrightarrow> (let (m, P) = s; (Q, mu) = sp in
     sys_inv net (m, P) \<and> Q = sizes P \<and> represents m mu \<and> page_size m = ps \<and> length (blocks m) = N)"

lemma represents_kept:
  assumes "represents m mu" and "page_size m' = page_size m" and "\<And>pid q. owns m' pid q \<Longrightarrow> owns m pid q"
    and "\<And>pid q. owns m' pid q \<Longrightarrow> content m' q = content m q"
  shows "represents m' mu"
  using assms unfolding represents_def by metis

text \<open>A single access, from the runs of accesses.\<close>

lemma access_ok:
  assumes inv: "sys_inv net (m, P)" and p: "P pid = Some (c, u)" and va: "in_pages m u va" and rep: "represents m mu"
  shows "\<exists>m'. load_byte access_fuel net c va u m = Inr (mu pid va, m') \<and> sys_inv net (m', P) \<and> represents m' mu \<and>
      page_size m' = page_size m \<and> length (blocks m') = length (blocks m)"
    and "\<exists>m'. store_byte access_fuel net c va b u m = Inr m' \<and> sys_inv net (m', P) \<and>
      represents m' (mu(pid := (mu pid)(va := b))) \<and>
      page_size m' = page_size m \<and> length (blocks m') = length (blocks m)"
proof -
  let ?procs = "\<lambda>q. the (P q)"
  obtain ti where gr: "growing net c u ti m" and up: "uvm_pid u = pid" by (rule sys_growing [OF inv p])
  have lg: "legal_access net ?procs m ac" if "acc_pid ac = pid" "acc_addr ac = va" for ac
    using gr up va that p by (simp add: legal_access_def growing_def in_pages_def)
  have fin: "sys_inv net (m', P) \<and> page_size m' = page_size m \<and> length (blocks m') = length (blocks m)"
    if "steady m m'" "system_ok net m'" for m'
  proof -
    have "map bl_page (blocks m') = map bl_page (blocks m)" using that(1) unfolding steady_def by blast
    then have "length (blocks m') = length (blocks m)" by (metis length_map)
    then show ?thesis using steady_inv [OF inv that] that(1) by (simp add: steady_def)
  qed
  from run_accesses_ok [OF sys_invD(1) [OF inv] rep, of "[Load pid va]" ?procs] lg obtain m' where
    r: "run_accesses net ?procs [Load pid va] m = Inr ([mu pid va], m')" "represents m' mu" "system_ok net m'" "steady m m'"
    by auto
  from r(1) p have "load_byte access_fuel net c va u m = Inr (mu pid va, m')" by (auto simp: rbind_eq_Inr)
  with r fin show "\<exists>m'. load_byte access_fuel net c va u m = Inr (mu pid va, m') \<and> sys_inv net (m', P) \<and> represents m' mu \<and>
      page_size m' = page_size m \<and> length (blocks m') = length (blocks m)" by blast
  from run_accesses_ok [OF sys_invD(1) [OF inv] rep, of "[Store pid va b]" ?procs] lg obtain m1 where
    s: "run_accesses net ?procs [Store pid va b] m = Inr ([], m1)" "represents m1 (mu(pid := (mu pid)(va := b)))"
      "system_ok net m1" "steady m m1" by auto
  from s(1) p have "store_byte access_fuel net c va b u m = Inr m1" by (auto simp: rbind_eq_Inr)
  with s fin show "\<exists>m'. store_byte access_fuel net c va b u m = Inr m' \<and> sys_inv net (m', P) \<and>
      represents m' (mu(pid := (mu pid)(va := b))) \<and>
      page_size m' = page_size m \<and> length (blocks m') = length (blocks m)" by blast
qed

text \<open>The memory of a process that got a page: its bytes are those of the page.\<close>

definition with_page :: "flat \<Rightarrow> machine \<Rightarrow> int \<Rightarrow> nat \<Rightarrow> nat \<times> nat \<Rightarrow> flat" where
  "with_page mu m pid n q = mu(pid := (\<lambda>va. if page_start (page_size m) n \<le> va \<and> va < page_start (page_size m) (Suc n)
     then content m q ! nat (va - page_start (page_size m) n) else mu pid va))"

lemma represents_with_page:
  assumes inv: "sys_inv net (m, P)" and p: "P pid = Some cu" and n: "uvm_npages (snd cu) = n"
    and rep: "represents m mu" and ps: "page_size m' = page_size m"
    and own: "\<And>pid' q. owns m' pid' q \<longleftrightarrow> owns m pid' q \<or> pid' = pid \<and> q = (a, n)"
    and ct: "\<And>pid' q. owns m pid' q \<Longrightarrow> content m' q = content m q"
  shows "represents m' (with_page mu m' pid n (a, n))"
  unfolding represents_def
proof (intro allI impI, elim conjE)
  fix pid' q r assume q: "owns m' pid' q" and r: "r < page_size m'"
  let ?va = "UVM_BASEADDR + int (snd q) * int (page_size m') + int r"
  have step: "int (Suc n) * int (page_size m) = int n * int (page_size m) + int (page_size m)" by (simp add: algebra_simps)
  show "content m' q ! r = with_page mu m' pid n (a, n) pid' ?va"
  proof (cases "pid' = pid \<and> q = (a, n)")
    case True
    then show ?thesis using r step by (simp add: with_page_def page_start_def ps)
  next
    case False
    with q own have o: "owns m pid' q" by blast
    have old: "content m' q ! r = mu pid' ?va" using representsD [OF rep o] r ct [OF o] by (simp add: ps)
    have "\<not> (page_start (page_size m) n \<le> ?va)" if "pid' = pid"
    proof -
      obtain b where "\<And>q. owns m pid q \<longleftrightarrow> (\<exists>i < n. q = (b, i))" using pages_of_process [OF inv p] n by metis
      with o that have "snd q < n" by auto
      then have "int (Suc (snd q)) * int (page_size m) \<le> int n * int (page_size m)" by (intro mult_right_mono) simp_all
      then show ?thesis using r by (simp add: page_start_def ps algebra_simps)
    qed
    with old show ?thesis by (auto simp: with_page_def ps)
  qed
qed

section \<open>Every event is a step of the specification\<close>

lemma relatedD:
  assumes "related net ps N (m, P) sp"
  obtains mu where "sp = (sizes P, mu)" and "sys_inv net (m, P)" and "represents m mu" and "page_size m = ps"
    and "length (blocks m) = N"
  using assms by (cases sp) (auto simp: related_def)

lemma sizes_upd [simp]: "sizes (P(pid \<mapsto> cu)) = (sizes P)(pid \<mapsto> uvm_npages (snd cu))"
  "sizes (P(pid := None)) = (sizes P)(pid := None)"
  by (auto simp: sizes_def)

lemma extend_simulated:
  assumes inv: "sys_inv net (m, P)" and p: "P pid = Some (c, u)" and ev: "allowed net (Extend pid memory) (m, P)"
    and rep: "represents m mu"
  shows "\<exists>l s' sp'. sys_step net path (Extend pid memory) (m, P) = Inr (l, s') \<and>
    spec_step (page_size m) (length (blocks m)) (sizes P, mu) l sp' \<and>
    related net (page_size m) (length (blocks m)) s' sp'"
proof -
  from extend_ok [OF inv p ev] obtain va m' u' where
    run: "sys_step net path (Extend pid memory) (m, P) = Inr (Extended pid va, (m', P(pid \<mapsto> (c, u'))))"
    and inv': "sys_inv net (m', P(pid \<mapsto> (c, u')))" and ans: "extend_answer m pid u va m' u'" by blast
  let ?n = "uvm_npages u" and ?ps = "page_size m" and ?N = "length (blocks m)"
  have same: "page_size m' = ?ps" "length (blocks m') = ?N" "\<And>pid' q. owns m pid' q \<Longrightarrow> content m' q = content m q"
    using ans unfolding extend_answer_def by blast+
  have Q: "sizes P pid = Some ?n" by (simp add: sizes_def p)
  show ?thesis
  proof (cases "\<forall>b \<in> set (blocks m). bl_page b \<noteq> None")
    case True
    then have a: "va = 0" "uvm_npages u' = ?n" "owns m' = owns m" using ans by (simp_all add: extend_answer_def)
    have "spec_step ?ps ?N (sizes P, mu) (Extended pid 0) (sizes P, mu)"
      using Q full_iff(1) [OF inv] True by (intro spec_full) auto
    moreover have "represents m' mu" by (rule represents_kept [OF rep same(1)]) (simp_all add: a same(3))
    then have "related net ?ps ?N (m', P(pid \<mapsto> (c, u'))) (sizes P, mu)"
      using inv' same Q a(2) by (simp add: related_def fun_upd_idem)
    ultimately show ?thesis using run a(1) by blast
  next
    case False
    then obtain a where a: "va = page_start ?ps ?n" "uvm_npages u' = Suc ?n"
      "\<And>pid' q. owns m' pid' q \<longleftrightarrow> owns m pid' q \<or> pid' = pid \<and> q = (a, ?n)"
      using ans unfolding extend_answer_def page_start_def by (auto split: if_splits)
    let ?mu = "with_page mu m' pid ?n (a, ?n)"
    have "pages_of (sizes P) < ?N" using full_iff [OF inv] False by auto
    then have "spec_step ?ps ?N (sizes P, mu) (Extended pid (page_start ?ps ?n)) ((sizes P)(pid \<mapsto> Suc ?n), ?mu)"
      using Q by (intro spec_extend) (auto simp: with_page_def same(1))
    moreover have "represents m' ?mu"
      by (rule represents_with_page [OF inv p _ rep same(1) a(3) same(3)]) simp
    then have "related net ?ps ?N (m', P(pid \<mapsto> (c, u'))) ((sizes P)(pid \<mapsto> Suc ?n), ?mu)"
      using inv' same a(2) by (simp add: related_def)
    ultimately show ?thesis using run a(1) by blast
  qed
qed

lemma step_simulated:
  assumes rel: "related net ps N s sp" and ev: "allowed net ev s"
  shows "\<exists>l s' sp'. sys_step net path ev s = Inr (l, s') \<and> spec_step ps N sp l sp' \<and> related net ps N s' sp'"
proof -
  obtain m P where s: "s = (m, P)" by (cases s)
  obtain mu where sp: "sp = (sizes P, mu)" and inv: "sys_inv net (m, P)" and rep: "represents m mu"
    and ps: "page_size m = ps" and N: "length (blocks m) = N" by (rule relatedD [OF rel [unfolded s]])
  note keep = represents_kept [OF rep]
  show ?thesis
  proof (cases ev)
    case (Accept n)
    from accept_ok [OF inv ev [unfolded s Accept], of path] obtain m' where
      m': "sys_step net path (Accept n) (m, P) = Inr (Accepted, (m', P))" "sys_inv net (m', P)" "page_size m' = page_size m"
      "length (blocks m') = length (blocks m)" "owns m' = owns m" "\<forall>pid q. owns m pid q \<longrightarrow> content m' q = content m q" by blast
    have "represents m' mu" by (rule keep [OF m'(3)]) (use m'(5,6) in auto)
    with m' ps N have "related net ps N (m', P) sp" by (simp add: related_def sp)
    with m'(1) show ?thesis unfolding s Accept by (blast intro: spec_accept)
  next
    case (Create sock p memory)
    from create_ok [OF inv ev [unfolded s Create], of path] obtain m' c u where
      m': "sys_step net path (Create sock p memory) (m, P) = Inr (Created (sint p), (m', P(sint p \<mapsto> (c, u))))"
      "sys_inv net (m', P(sint p \<mapsto> (c, u)))" "P (sint p) = None" "uvm_npages u = 0" "page_size m' = page_size m"
      "length (blocks m') = length (blocks m)" "owns m' = owns m" "\<forall>pid q. owns m pid q \<longrightarrow> content m' q = content m q" by blast
    have "represents m' mu" by (rule keep [OF m'(5)]) (use m'(7,8) in auto)
    then have "related net ps N (m', P(sint p \<mapsto> (c, u))) ((sizes P)(sint p \<mapsto> 0), mu)"
      using m' ps N by (simp add: related_def)
    moreover have "spec_step ps N sp (Created (sint p)) ((sizes P)(sint p \<mapsto> 0), mu)"
      unfolding sp using m'(3) by (intro spec_create) (simp add: sizes_def)
    ultimately show ?thesis using m'(1) unfolding s Create by blast
  next
    case (Extend pid memory)
    with ev s obtain c u where "P pid = Some (c, u)" by (auto split: option.splits)
    from extend_simulated [OF inv this ev [unfolded s Extend] rep, of path] show ?thesis
      by (simp only: s Extend sp ps N)
  next
    case (Read pid va)
    with ev s obtain c u where p: "P pid = Some (c, u)" "in_pages m u va" by (auto split: option.splits)
    from access_ok(1) [OF inv p rep] obtain m' where
      m': "load_byte access_fuel net c va u m = Inr (mu pid va, m')" "sys_inv net (m', P)" "represents m' mu"
      "page_size m' = page_size m" "length (blocks m') = length (blocks m)" by blast
    have "related net ps N (m', P) sp" using m' ps N by (simp add: related_def sp)
    moreover have "spec_step ps N sp (Did_Read pid va (mu pid va)) sp"
      unfolding sp using p ps by (intro spec_read [where n = "uvm_npages u"]) (simp_all add: sizes_def in_pages_def page_start_def)
    moreover have "sys_step net path (Read pid va) (m, P) = Inr (Did_Read pid va (mu pid va), (m', P))"
      using m'(1) p(1) by simp
    ultimately show ?thesis unfolding s Read by blast
  next
    case (Write pid va b)
    with ev s obtain c u where p: "P pid = Some (c, u)" "in_pages m u va" by (auto split: option.splits)
    from access_ok(2) [OF inv p rep, of b] obtain m' where
      m': "store_byte access_fuel net c va b u m = Inr m'" "sys_inv net (m', P)"
      "represents m' (mu(pid := (mu pid)(va := b)))"
      "page_size m' = page_size m" "length (blocks m') = length (blocks m)" by blast
    have "related net ps N (m', P) (sizes P, mu(pid := (mu pid)(va := b)))" using m' ps N by (simp add: related_def)
    moreover have "spec_step ps N sp (Did_Write pid va b) (sizes P, mu(pid := (mu pid)(va := b)))"
      unfolding sp using p ps by (intro spec_write [where n = "uvm_npages u"]) (simp_all add: sizes_def in_pages_def page_start_def)
    moreover have "sys_step net path (Write pid va b) (m, P) = Inr (Did_Write pid va b, (m', P))"
      using m'(1) p(1) by simp
    ultimately show ?thesis unfolding s Write by blast
  next
    case (Quit pid)
    with ev s obtain c u where p: "P pid = Some (c, u)" by (auto split: option.splits)
    from quit_ok(1) [OF inv p, of path] obtain m' where
      m': "sys_step net path (Quit pid) (m, P) = Inr (Left pid, (m', P(pid := None)))" "sys_inv net (m', P(pid := None))"
      "page_size m' = page_size m" "length (blocks m') = length (blocks m)"
      "\<forall>pid' q. owns m' pid' q \<longleftrightarrow> owns m pid' q \<and> pid' \<noteq> pid"
      "\<forall>pid' q. owns m' pid' q \<longrightarrow> content m' q = content m q" by blast
    have "represents m' mu" by (rule keep [OF m'(3)]) (use m'(5,6) in auto)
    then have "related net ps N (m', P(pid := None)) ((sizes P)(pid := None), mu)"
      using m' ps N by (simp add: related_def)
    moreover have "spec_step ps N sp (Left pid) ((sizes P)(pid := None), mu)"
      unfolding sp using p by (intro spec_leave [where n = "uvm_npages u"]) (simp add: sizes_def)
    ultimately show ?thesis using m'(1) unfolding s Quit by blast
  next
    case (Vanish k)
    with ev s obtain c where c: "sock2client m k = Some c" by auto
    from lost_ok [OF inv c] obtain m' where
      m': "mmu_client_destroy k c m = Inr m'" "sys_inv net (m', without c P)"
      "page_size m' = page_size m" "length (blocks m') = length (blocks m)"
      "\<forall>pid' q. owns m' pid' q \<longrightarrow> owns m pid' q \<and> content m' q = content m q" by blast
    have "represents m' mu" by (rule keep [OF m'(3)]) (use m'(5) in auto)
    then have rel': "related net ps N (m', without c P) (sizes (without c P), mu)"
      using m' ps N by (simp add: related_def)
    show ?thesis
    proof (cases "cl_pid c = 0")
      case True
      with m'(1) c rel' show ?thesis
        unfolding s Vanish sp by (auto simp: lost_client_def without_def intro: spec_drop)
    next
      case False
      with sys_invD(6) [OF inv] c obtain u where u: "P (cl_pid c) = Some (c, u)" unfolding socks_ok_def by blast
      have "spec_step ps N (sizes P, mu) (Left (cl_pid c)) ((sizes P)(cl_pid c := None), mu)"
        by (rule spec_leave [of _ _ "uvm_npages u"]) (simp add: sizes_def u)
      with False m'(1) c rel' show ?thesis
        unfolding s Vanish sp by (auto simp: lost_client_def without_def)
    qed
  qed
qed

interpretation paged: simulation "related net ps N" "allowed net" "sys_step net path" "spec_step ps N"
  for net ps N path
  by unfold_locales (rule step_simulated)

lemma boot_related:
  assumes "mmu_main argv w = Inr m" and "clean_boot w (fl_size m) (nblocks m)"
  shows "related net (bt_pagesize w) (nat (atoi (argv ! 2))) (m, Map.empty) (Map.empty, mu)"
proof -
  obtain npages nblks mem where n: "int nblks = atoi (argv ! 2)"
    and m: "m = globals\<lparr>id2pid := replicate 255 (-1), mmu_running := True,
      disk := take (bt_pagesize w * nblks) mem,
      pmem := replicate (npages * bt_pagesize w) (of_char (CHR ''z'')),
      fl_size := npages, page_size := bt_pagesize w,
      frames := map (\<lambda>fr. fr\<lparr>fr_pid := INVALID_PID\<rparr>) (take npages (bt_frames w)),
      nblocks := nblks, blocks := map (\<lambda>b. b\<lparr>bl_allocated := 0\<rparr>) (take nblks (bt_blocks w))\<rparr>"
    by (rule mmu_main_result [OF assms(1)]) blast
  have "length (bt_blocks w) = nblks" using assms(2) by (simp add: clean_boot_def m)
  then have "length (blocks m) = nat (atoi (argv ! 2))" using n by (simp add: m)
  moreover have "sizes Map.empty = Map.empty" by (simp add: sizes_def fun_eq_iff)
  ultimately show ?thesis using boot_ok [OF assms] by (simp add: related_def represents_def)
qed

end
