(* ===== verification/TP2_System.thy ===== *)
theory TP2_System
  imports System_Refine TP2_Demo
begin

text \<open>
  The properties of the server of \<open>TP 2\<close> from its start, with any number of processes.
\<close>

section \<open>A small server\<close>

definition small_boot :: boot where
  "small_boot = \<lparr>bt_pagesize = 4, bt_malloc = True, bt_disk = Some (replicate 8 0), bt_name = True, bt_fd = True,
     bt_mmap = True, bt_socket = True, bt_bind = True, bt_listen = True, bt_sigs = True,
     bt_frames = [junk_frame], bt_blocks = [junk_block, junk_block]\<rparr>"

definition small_args :: "string list" where
  "small_args = [''mmu'', ''1'', '' 2x'']"

lemma small_atoi: "atoi ''1'' = 1" "atoi '' 2x'' = 2"
  by code_simp+

definition server0 :: machine where
  "server0 = projr (mmu_main small_args small_boot)"

lemma server0_boot: "mmu_main small_args small_boot = Inr server0"
  and server0_eq: "server0 = \<lparr>fl_size = 1, page_size = 4, second_chance_index = 0,
     frames = [junk_frame\<lparr>fr_pid := INVALID_PID\<rparr>], nblocks = 2, blocks = [junk_block, junk_block],
     page_list = [], page_tables_capacity = 10, page_arrays = Map.empty,
     mutex = False, pmem = replicate 4 122, disk = replicate 8 0,
     id2pid = replicate 255 (-1), nextid = 0, sock2client = Map.empty, mmu_running = True,
     mappings = (\<lambda>_. Map.empty), trace = []\<rparr>"
proof -
  let ?m = "\<lparr>fl_size = 1, page_size = 4, second_chance_index = 0,
     frames = [junk_frame\<lparr>fr_pid := INVALID_PID\<rparr>], nblocks = 2, blocks = [junk_block, junk_block],
     page_list = [], page_tables_capacity = 10, page_arrays = Map.empty,
     mutex = False, pmem = replicate 4 122, disk = replicate 8 0,
     id2pid = replicate 255 (-1), nextid = 0, sock2client = Map.empty, mmu_running = True,
     mappings = (\<lambda>_. Map.empty), trace = []\<rparr> :: machine"
  have r: "mmu_main small_args small_boot = Inr ?m"
    by (simp add: mmu_main_def small_args_def small_atoi mmu_init_def mmu_init_disk_def mmu_init_pmem_def mmu_init_sock_def
        mmu_init_sigs_def abort_unless_def small_boot_def pager_init_def lock_def unlock_def globals_def Let_def junk_block_def)
  then show "server0 = ?m" by (simp only: server0_def sum.sel)
  with r show "mmu_main small_args small_boot = Inr server0" by simp
qed

lemma server0_ok: "clean_boot small_boot (fl_size server0) (nblocks server0)" "mmu_running server0"
  "sock2client server0 = Map.empty" "page_list server0 = []" "nextid server0 = 0" "page_arrays server0 = Map.empty"
  by (simp_all add: server0_eq clean_boot_def small_boot_def junk_block_def UVM_BASEADDR_def)

lemma server0_reached: "reached all_up [] small_args small_boot [] (server0, Map.empty)"
  unfolding reached_def by (intro exI [of _ server0] conjI server0_boot server0_ok(1) traced_nil)

text \<open>A client connects and announces itself as process 100.\<close>

definition server1 :: system where
  "server1 = snd (projr (sys_step all_up [] (Accept 5) (server0, Map.empty)))"

definition server2 :: system where
  "server2 = snd (projr (sys_step all_up [] (Create 5 100 (Some 0)) server1))"

lemma reached_snoc:
  assumes "reached net path argv w labs s" and "allowed net ev s" and "sys_step net path ev s = Inr (l, s')"
  shows "reached net path argv w (labs @ [l]) s'"
  using assms unfolding reached_def by (metis traced_snoc)

lemma server1_reached: "reached all_up [] small_args small_boot [Accepted] server1"
proof -
  have ev: "allowed all_up (Accept 5) (server0, Map.empty)"
    by (simp add: server0_ok MMU_MAX_SOCK_def all_up_def)
  have run: "sys_step all_up [] (Accept 5) (server0, Map.empty) = Inr (Accepted, server1)"
    by (simp add: server1_def mmu_accept_def abort_unless_def server0_ok MMU_MAX_SOCK_def)
  from reached_snoc [OF server0_reached ev run] show ?thesis by simp
qed

lemma server1_eq: "server1 = (server0\<lparr>sock2client := [5 \<mapsto> conn0]\<rparr>, Map.empty)"
  by (simp add: server1_def mmu_accept_def abort_unless_def server0_ok MMU_MAX_SOCK_def conn0_def)

lemma server2_run: "sys_step all_up [] (Create 5 100 (Some 0)) server1 = Inr (Created 100, server2)"
  and server2_allowed: "allowed all_up (Create 5 100 (Some 0)) server1"
proof -
  show ev: "allowed all_up (Create 5 100 (Some 0)) server1"
    by (simp add: server1_eq server0_ok conn0_def fresh_memory_def)
  have "related all_up 4 2 (server0, Map.empty) (Map.empty, \<lambda>_ _. 0)"
    using boot_related [OF server0_boot server0_ok(1), of all_up "\<lambda>_ _. 0"] by (simp add: small_boot_def small_args_def small_atoi)
  moreover have "traced (allowed all_up) (sys_step all_up []) (server0, Map.empty) [Accepted] server1"
    using server1_reached server0_boot unfolding reached_def by simp
  ultimately obtain l s' where run: "sys_step all_up [] (Create 5 100 (Some 0)) server1 = Inr (l, s')"
    using paged.never_stuck ev by blast
  then have "l = Created 100" by (auto simp: server1_eq rbind_eq_Inr split: option.splits)
  with run show "sys_step all_up [] (Create 5 100 (Some 0)) server1 = Inr (Created 100, server2)"
    by (simp add: server2_def)
qed

lemma server2_reached: "reached all_up [] small_args small_boot [Accepted, Created 100] server2"
  using reached_snoc [OF server1_reached server2_allowed server2_run] by simp

lemma server2_shape: "snd server2 100 = Some (conn, new_uvm 5 100)" "page_size (fst server2) = 4"
  "page_list (fst server2) = [\<lparr>pt_pid = 100, pt_pages = Some 0, page_count = 0, page_capacity = 0\<rparr>]"
  by code_simp+

definition client100 :: "int \<rightharpoonup> mmu_client \<times> uvm" where
  "client100 = [100 \<mapsto> (conn, new_uvm 5 100)]"

lemma server2_pair: "server2 = (fst server2, client100)"
proof -
  from server2_run obtain u where P: "snd server2 = [100 \<mapsto> (conn0\<lparr>cl_pid := 100\<rparr>, u)]"
    by (auto simp: server1_eq rbind_eq_Inr server0_ok split: option.splits) (metis snd_conv)
  with server2_shape(1) have "snd server2 = client100" by (simp add: client100_def)
  then show ?thesis by (metis prod.collapse)
qed

lemma server2_extend: "allowed all_up (Extend 100 (Some (0, [junk_page]))) (fst server2, client100)"
  using server2_shape by (simp add: client100_def has_room_def realloc_in_place_def new_uvm_def UVM_BASEADDR_def UVM_MAXADDR_def)

lemma server2_machine_reached: "reached all_up [] small_args small_boot [Accepted, Created 100] (fst server2, client100)"
  using server2_reached server2_pair by simp

definition reader :: machine where
  "reader = server0\<lparr>id2pid := 100 # replicate 254 (-1), sock2client := [5 \<mapsto> conn],
     mappings := (\<lambda>_. [UVM_BASEADDR \<mapsto> (0, PROT_READ)])\<rparr>"

section \<open>Lemmas\<close>

lemma reached_related:
  assumes "reached net path argv w labs s"
  obtains sp
  where "related net (bt_pagesize w) (nat (atoi (argv ! 2))) s sp"
    and "accepts (spec_step (bt_pagesize w) (nat (atoi (argv ! 2)))) (Map.empty, \<lambda>_ _. 0) labs sp"
    and "\<And>ev. allowed net ev s \<Longrightarrow> \<exists>l s'. sys_step net path ev s = Inr (l, s')"
proof -
  from assms obtain m where m: "mmu_main argv w = Inr m" "clean_boot w (fl_size m) (nblocks m)"
    and tr: "traced (allowed net) (sys_step net path) (m, Map.empty) labs s" unfolding reached_def by blast
  note b = boot_related [OF m, of net "\<lambda>_ _. 0"]
  from paged.traced_accepted [OF b tr] obtain sp where
    sp: "related net (bt_pagesize w) (nat (atoi (argv ! 2))) s sp"
      "accepts (spec_step (bt_pagesize w) (nat (atoi (argv ! 2)))) (Map.empty, \<lambda>_ _. 0) labs sp" by blast
  from that [OF sp paged.never_stuck [OF b tr]] show thesis .
qed

text \<open>The tests that \<open>main\<close> makes, and the answers that it needs.\<close>

definition good_arguments :: "string list \<Rightarrow> bool" where
  "good_arguments argv \<longleftrightarrow> length argv = 3 \<and> 1 \<le> atoi (argv ! 1) \<and> atoi (argv ! 1) \<le> 256 \<and>
     2 \<le> atoi (argv ! 2) \<and> atoi (argv ! 2) \<le> 1024"

definition boot_succeeds :: "boot \<Rightarrow> bool" where
  "boot_succeeds w \<longleftrightarrow> bt_malloc w \<and> bt_disk w \<noteq> None \<and> bt_name w \<and> bt_fd w \<and> bt_mmap w \<and> bt_socket w \<and>
     bt_bind w \<and> bt_listen w \<and> bt_sigs w"

lemma good_small: "good_arguments small_args" "atoi (small_args ! 1) = 1" "atoi (small_args ! 2) = 2"
  by (simp_all add: good_arguments_def small_args_def small_atoi)

lemmas boot_defs = mmu_main_def mmu_init_def mmu_init_disk_def mmu_init_pmem_def mmu_init_sock_def mmu_init_sigs_def
  abort_unless_def check_def

lemma mmu_main_refused:
  assumes "\<not> (good_arguments argv \<and> boot_succeeds w)"
  shows "mmu_main argv w = Inl (Exited EXIT_FAILURE)"
proof (cases "good_arguments argv")
  case False
  then show ?thesis by (auto simp: mmu_main_def good_arguments_def usage_def Let_def)
next
  case True
  with assms have "mmu_init w p b m = Inl (Exited EXIT_FAILURE)" for p b m
    by (auto simp: boot_defs boot_succeeds_def split: option.splits)
  with True show ?thesis by (simp add: mmu_main_def good_arguments_def usage_def Let_def)
qed

lemma mmu_main_accepts: "good_arguments argv \<Longrightarrow> boot_succeeds w \<Longrightarrow> \<exists>m. mmu_main argv w = Inr m"
  by (auto simp: boot_defs good_arguments_def boot_succeeds_def usage_def Let_def pager_init_def lock_def unlock_def globals_def)

lemma mmu_main_machine:
  assumes "mmu_main argv w = Inr m"
  shows "int (fl_size m) = atoi (argv ! 1)" "int (nblocks m) = atoi (argv ! 2)" "page_size m = bt_pagesize w"
    "length (pmem m) = fl_size m * page_size m" "\<forall>fr \<in> set (frames m). fr_pid fr = INVALID_PID"
    "page_list m = []" "sock2client m = Map.empty" "mmu_running m" "\<not> mutex m"
  by (rule mmu_main_result [OF assms]; simp add: globals_def)+

text \<open>A thread that cannot obey ends its process, and its \<open>EXIT_REQ\<close> is not what the MMU waits for.\<close>

lemma order_refused:
  assumes "net sock" and "whole rep" and "uvm_thread_turn rep (order_reader sock c) m = Inl (Exited e)"
    and "want \<noteq> msg_type Exit_Req"
  shows "send_order net sock c rep want m = Inl Diverges"
  using assms decode_encode [of rep "[]"] peek_encode [of Exit_Req "[]"]
  by (simp add: send_order_def uvm_thread_reads_def)

lemma unmapped_refused:
  assumes "net sock" and "cl_pid c = pid" and "mappings m pid va = None" and va: "user_address va"
  shows "send_order net sock c (Chprot_Rep p (word_of_int va)) (msg_type Chprot_Req) m = Inl Diverges"
  using assms(1-3) user_address_word [OF va]
  by (intro order_refused [where e = EXIT_FAILURE])
    (simp_all add: uvm_thread_turn_def uvm_proto_chprot_rep_def order_reader_def)

lemma unmapped_order_hangs:
  assumes "served net m pid" and "mappings m pid va = None" and "user_address va"
  shows "mmu_chprot net pid va prot m = Inl Diverges" and "mmu_nonresident net pid va m = Inl Diverges"
proof -
  obtain i sock c where s: "\<forall>m'. id2pid m' = id2pid m \<longrightarrow> get_pid_id pid m' = Inr i"
    "\<forall>m'. sock2client m' = sock2client m \<longrightarrow> mmu_client_search pid m' = Inr (sock, c)" "net sock" "cl_pid c = pid"
    by (rule served_calls [OF assms(1)])
  have "mappings (emit e m) pid va = None" "id2pid (emit e m) = id2pid m" "sock2client (emit e m) = sock2client m" for e
    using assms(2) by (simp_all add: emit_def)
  then show "mmu_chprot net pid va prot m = Inl Diverges" "mmu_nonresident net pid va m = Inl Diverges"
    using s(1,2) unmapped_refused [where net = net and sock = sock, OF s(3,4) _ assms(3)]
    by (simp_all add: mmu_chprot_def mmu_nonresident_def Let_def del: msg_type.simps)
qed

lemma mapped_address:
  "UVM_BASEADDR \<le> va \<Longrightarrow> va \<le> UVM_MAXADDR \<Longrightarrow> user_address va"
  by (simp add: user_address_def UVM_BASEADDR_def UVM_MAXADDR_def)

section \<open>Properties\<close>

text \<open>C1: the server and its clients together are flat memories.  Every run from the start of the MMU,
  with connections, creations, requests for pages, loads, stores and exits of any number of processes in
  any order, is a run of a specification in which each process has a memory of its own that starts at
  \<open>UVM_BASEADDR\<close> and all of them share \<open>NBLOCKS\<close> pages; and in every state that is reached, every event
  that the environment may cause is served without a fault.\<close>

theorem server_implements_flat_memory:
  assumes "reached net path argv w labs s"
  shows "(\<exists>Q mu. accepts (spec_step (bt_pagesize w) (nat (atoi (argv ! 2)))) (Map.empty, \<lambda>_ _. 0) labs (Q, mu) \<and>
      related net (bt_pagesize w) (nat (atoi (argv ! 2))) s (Q, mu)) \<and>
    (\<forall>ev. allowed net ev s \<longrightarrow> (\<exists>l s'. sys_step net path ev s = Inr (l, s')))"
proof -
  from assms obtain sp where "related net (bt_pagesize w) (nat (atoi (argv ! 2))) s sp"
    "accepts (spec_step (bt_pagesize w) (nat (atoi (argv ! 2)))) (Map.empty, \<lambda>_ _. 0) labs sp"
    "\<And>ev. allowed net ev s \<Longrightarrow> \<exists>l s'. sys_step net path ev s = Inr (l, s')"
    by (rule reached_related) blast
  then show ?thesis by (cases sp) auto
qed

theorem server_implements_flat_memory_witness:
  "(\<exists>Q mu. accepts (spec_step 4 2) (Map.empty, \<lambda>_ _. 0) [Accepted, Created 100] (Q, mu)) \<and>
   (\<exists>l s'. sys_step all_up [] (Extend 100 (Some (0, [junk_page]))) (fst server2, client100) = Inr (l, s'))"
proof -
  have w: "bt_pagesize small_boot = 4" "nat (atoi (small_args ! 2)) = 2"
    by (simp_all add: small_boot_def small_args_def small_atoi)
  note t = server_implements_flat_memory [OF server2_machine_reached, unfolded w]
  from conjunct1 [OF t] conjunct2 [OF t, THEN spec, THEN mp, OF server2_extend] show ?thesis by blast
qed

text \<open>C10: no page of the disk is ever lost.  In every state that is reached, a request for a page returns
  \<open>NULL\<close> exactly when the live processes together have \<open>NBLOCKS\<close> pages, however many processes came
  and went before; otherwise it returns the address behind the pages that the process has.\<close>

theorem memory_runs_out_when_full:
  assumes "reached net path argv w labs (m, P)" and "P pid = Some (c, u)"
    and "allowed net (Extend pid memory) (m, P)"
  shows "\<exists>va s'. sys_step net path (Extend pid memory) (m, P) = Inr (Extended pid va, s') \<and>
    (if pages_of (sizes P) = nat (atoi (argv ! 2)) then va = 0
     else pages_of (sizes P) < nat (atoi (argv ! 2)) \<and> va = page_start (bt_pagesize w) (uvm_npages u) \<and> va \<noteq> 0)"
proof -
  from assms(1) obtain sp where "related net (bt_pagesize w) (nat (atoi (argv ! 2))) (m, P) sp"
    by (rule reached_related)
  then have inv: "sys_inv net (m, P)" and ps: "page_size m = bt_pagesize w" and N: "length (blocks m) = nat (atoi (argv ! 2))"
    by (auto elim: relatedD)
  from extend_ok [OF inv assms(2,3), of path] obtain va m' u' where
    run: "sys_step net path (Extend pid memory) (m, P) = Inr (Extended pid va, (m', P(pid \<mapsto> (c, u'))))"
    and ans: "extend_answer m pid u va m' u'" by blast
  have "page_start (bt_pagesize w) (uvm_npages u) \<ge> UVM_BASEADDR" by (simp add: page_start_def)
  moreover have "0 < UVM_BASEADDR" by (simp add: UVM_BASEADDR_def)
  ultimately have "page_start (bt_pagesize w) (uvm_npages u) \<noteq> 0" by linarith
  moreover have "(\<forall>b \<in> set (blocks m). bl_page b \<noteq> None) \<longleftrightarrow> pages_of (sizes P) = nat (atoi (argv ! 2))"
    "pages_of (sizes P) \<le> nat (atoi (argv ! 2))"
    using full_iff [OF inv] by (simp_all only: N)
  ultimately show ?thesis
    using ans run by (intro exI [of _ va] exI [of _ "(m', P(pid \<mapsto> (c, u')))"])
      (auto simp: extend_answer_def page_start_def ps split: if_splits)
qed

theorem memory_runs_out_when_full_witness:
  "\<exists>s'. sys_step all_up [] (Extend 100 (Some (0, [junk_page]))) (fst server2, client100) = Inr (Extended 100 UVM_BASEADDR, s')"
proof -
  have w: "bt_pagesize small_boot = 4" "nat (atoi (small_args ! 2)) = 2" "uvm_npages (new_uvm 5 100) = 0"
    by (simp_all add: small_boot_def small_args_def small_atoi new_uvm_def)
  have "sizes client100 = [100 \<mapsto> 0]" by (simp add: sizes_def client100_def w fun_eq_iff)
  then have n: "pages_of (sizes client100) = 0" by (simp add: pages_of_def)
  have P: "client100 100 = Some (conn, new_uvm 5 100)" by (simp add: client100_def)
  from memory_runs_out_when_full [OF server2_machine_reached P server2_extend, unfolded w n]
  show ?thesis by (simp add: page_start_def)
qed

text \<open>C24: \<open>main\<close> starts exactly when it gets two arguments, the numbers of frames and of blocks that
  \<open>atoi\<close> reads from them are from 1 to 256 and from 2 to 1024, and every call of the system succeeds; then
  the machine has that many frames, all free, that many blocks and no process.  Otherwise the process
  ends with \<open>EXIT_FAILURE\<close>.  The usage text promises 2 frames and 4 blocks at least; the witness has fewer.\<close>

theorem main_checks_arguments:
  "case mmu_main argv w of
      Inl f \<Rightarrow> f = Exited EXIT_FAILURE \<and> \<not> (good_arguments argv \<and> boot_succeeds w)
    | Inr m \<Rightarrow> good_arguments argv \<and> boot_succeeds w \<and>
        int (fl_size m) = atoi (argv ! 1) \<and> int (nblocks m) = atoi (argv ! 2) \<and> page_size m = bt_pagesize w \<and>
        length (pmem m) = fl_size m * page_size m \<and> (\<forall>fr \<in> set (frames m). fr_pid fr = INVALID_PID) \<and>
        page_list m = [] \<and> sock2client m = Map.empty \<and> mmu_running m \<and> \<not> mutex m"
proof (cases "good_arguments argv \<and> boot_succeeds w")
  case True
  then obtain m where m: "mmu_main argv w = Inr m" using mmu_main_accepts by blast
  with mmu_main_machine [OF m] True show ?thesis by simp
next
  case False
  with mmu_main_refused [OF False] show ?thesis by simp
qed

theorem main_checks_arguments_witness:
  "\<exists>m. mmu_main [''mmu'', ''1'', '' 2x''] small_boot = Inr m \<and> fl_size m = 1 \<and> nblocks m = 2"
proof -
  have "[''mmu'', ''1'', '' 2x''] = small_args" by (simp add: small_args_def)
  with main_checks_arguments [of small_args small_boot] show ?thesis
    by (simp add: server0_boot good_small [unfolded One_nat_def])
qed

text \<open>C23: an order to map or protect a page reaches the client process through the socket and is carried out
  there.  \<open>mmu_resident\<close>, \<open>mmu_chprot\<close> and \<open>mmu_nonresident\<close> build a message, the thread of the client reads its
  bytes, decodes them, calls the handler of their type and answers, and the MMU recognises the bytes of the answer: in the
  end exactly the entry of that page in the mappings of that process has changed, to offset \<open>page_size * frame\<close>
  with the protection asked for, to the new protection at the old offset, and to no access at the old offset.  An order to
  protect a page that the process has not mapped makes the process call \<open>exit\<close>; its \<open>EXIT_REQ\<close> is not the
  answer that the MMU waits for, and the MMU hangs.\<close>

theorem mapping_orders_cross_wire:
  assumes "served net m pid" and "UVM_BASEADDR \<le> va" and "va \<le> UVM_MAXADDR" and "va mod int (page_size m) = 0"
    and "prot \<in> {PROT_READ, PROT_RW}" and "prot' \<in> {PROT_NONE, PROT_READ, PROT_RW}" and "f * page_size m < 2 ^ 63"
  shows "(\<exists>i. mmu_resident net pid va (int f) prot m = Inr (m\<lparr>
        mappings := (mappings m)(pid := (mappings m pid)(va \<mapsto> (f * page_size m, prot))),
        trace := trace m @ [Resident (int i) va prot (int f)]\<rparr>)) \<and>
    (case mappings m pid va of
       Some (off, old) \<Rightarrow>
         (\<exists>i. mmu_chprot net pid va prot' m = Inr (m\<lparr>
            mappings := (mappings m)(pid := (mappings m pid)(va \<mapsto> (off, prot'))),
            trace := trace m @ [Chprot (int i) va prot']\<rparr>)) \<and>
         (\<exists>i. mmu_nonresident net pid va m = Inr (m\<lparr>
            mappings := (mappings m)(pid := (mappings m pid)(va \<mapsto> (off, PROT_NONE))),
            trace := trace m @ [Nonresident (int i) va]\<rparr>))
     | None \<Rightarrow> mmu_chprot net pid va prot' m = Inl Diverges \<and> mmu_nonresident net pid va m = Inl Diverges)"
proof -
  note va = mapped_address [OF assms(2,3)]
  obtain i where r: "mmu_resident net pid va (int f) prot m = Inr (m\<lparr>
      mappings := set_mapping pid va (nat (int f) * page_size m, prot) (mappings m),
      trace := trace m @ [Resident (int i) va prot (int f)]\<rparr>)"
    by (rule mmu_resident_ok [OF assms(1) va assms(4,5), of "int f"]) (use assms(7) in simp_all)
  show ?thesis
  proof (cases "mappings m pid va")
    case None
    with r unmapped_order_hangs [OF assms(1) None va] show ?thesis by (auto simp: set_mapping_def)
  next
    case (Some e)
    then obtain off old where e: "mappings m pid va = Some (off, old)" by (cases e) auto
    obtain j where c: "mmu_chprot net pid va prot' m = Inr (m\<lparr>mappings := set_mapping pid va (off, prot') (mappings m),
        trace := trace m @ [Chprot (int j) va prot']\<rparr>)" by (rule mmu_chprot_ok [OF assms(1) e va assms(6)])
    obtain k where n: "mmu_nonresident net pid va m = Inr (m\<lparr>mappings := set_mapping pid va (off, PROT_NONE) (mappings m),
        trace := trace m @ [Nonresident (int k) va]\<rparr>)" by (rule mmu_nonresident_ok [OF assms(1) e va])
    show ?thesis unfolding e r c n by (auto simp: set_mapping_def)
  qed
qed

text \<open>At a client with one page that it may read.\<close>

theorem mapping_orders_cross_wire_witness:
  "(\<exists>i. mmu_resident all_up 100 UVM_BASEADDR 0 PROT_READ reader = Inr (reader\<lparr>
      mappings := (mappings reader)(100 := (mappings reader 100)(UVM_BASEADDR \<mapsto> (0, PROT_READ))),
      trace := trace reader @ [Resident (int i) UVM_BASEADDR PROT_READ 0]\<rparr>)) \<and>
    (\<exists>m'. mmu_chprot all_up 100 UVM_BASEADDR PROT_RW reader = Inr m')"
proof -
  have r: "UVM_BASEADDR mod int (page_size reader) = 0" "mappings reader 100 UVM_BASEADDR \<noteq> None"
    "UVM_BASEADDR \<le> UVM_MAXADDR"
    by (simp_all add: reader_def server0_eq UVM_BASEADDR_def UVM_MAXADDR_def)
  have "served all_up reader (uvm_pid (new_uvm 5 100))"
    by (rule connected_served [of _ conn]) (simp add: reader_def connected_def conn_def new_uvm_def all_up_def MMU_MAX_SOCK_def)
  then have "served all_up reader 100" by (simp add: new_uvm_def)
  from mapping_orders_cross_wire [OF this order.refl r(3,1), of PROT_READ PROT_RW 0]
  show ?thesis using r(2) by (auto split: option.splits)
qed

text \<open>C11: \<open>SIGINT\<close> ends the server in order: in every state that is reached, the accept loop ends at its
  next round, and \<open>mmu_destroy\<close> returns, with every connection closed, every block free and no page left
  to a process.\<close>

theorem shutdown_frees_everything:
  assumes "reached net path argv w labs (m, P)"
  shows "mmu_accept nsock memory (mmu_shutdown_action m) = Inr None \<and>
    (\<exists>m'. mmu_destroy (mmu_shutdown_action m) = Inr m' \<and> sock2client m' = Map.empty \<and>
      (\<forall>b \<in> set (blocks m'). bl_page b = None) \<and> (\<forall>pid q. \<not> owns m' pid q) \<and>
      length (blocks m') = nat (atoi (argv ! 2)) \<and> \<not> mutex m')"
proof -
  from assms obtain sp where "related net (bt_pagesize w) (nat (atoi (argv ! 2))) (m, P) sp"
    by (rule reached_related)
  then have inv: "sys_inv net (m, P)" and N: "length (blocks m) = nat (atoi (argv ! 2))" by (auto elim: relatedD)
  from mmu_destroy_ok [OF stopped_ok [OF inv]] show ?thesis
    using N by (auto simp: mmu_accept_def mmu_shutdown_action_def)
qed

theorem shutdown_frees_everything_witness:
  "\<exists>m'. mmu_destroy (mmu_shutdown_action (fst server2)) = Inr m' \<and> sock2client m' = Map.empty"
  using shutdown_frees_everything [OF server2_machine_reached] by blast

end
