(* ===== verification/Cyc.thy ===== *)
theory Cyc
  imports Prelude
begin

text \<open>
  The rotating files of \<open>TP 2/src/cyc.c\<close> and the log of \<open>TP 2/src/log.c\<close> above them.  A call runs
  from start to end by itself, so its mutexes are free when it begins; a thread that locks a mutex
  it holds never returns.  Whether \<open>malloc\<close> and \<open>fopen\<close> succeed and what \<open>time\<close> answers are arguments.
\<close>

definition CYCLIC_LINEBUF :: nat where "CYCLIC_LINEBUF = 1024"
definition CYC_FILESIZE :: int where "CYC_FILESIZE = 1"
definition CYC_PERIODIC :: int where "CYC_PERIODIC = 2"

text \<open>A stream is the name of its file and the offset; the files are a map from names to contents.\<close>

type_synonym files = "string \<rightharpoonup> string"

record cyclic =
  cy_type :: int
  cy_prefix :: string
  cy_nbackups :: "32 word"
  cy_maxsize :: "32 word"
  cy_period :: "32 word"
  cy_period_start :: int
  cy_file :: "(string \<times> nat) option"
  cy_lock :: bool
  cy_mutex :: bool
  cy_flock :: bool

section \<open>Handles\<close>

definition cyc_init_periodic :: "bool \<Rightarrow> bool \<Rightarrow> string \<Rightarrow> 32 word \<Rightarrow> cyclic option" where
  "cyc_init_periodic malloc_ok strdup_ok prefix period =
     (if period = 0 \<or> \<not> malloc_ok \<or> \<not> strdup_ok then None
      else Some \<lparr>cy_type = CYC_PERIODIC, cy_prefix = prefix, cy_nbackups = -1, cy_maxsize = -1,
                 cy_period = period, cy_period_start = 0, cy_file = None, cy_lock = False,
                 cy_mutex = False, cy_flock = False\<rparr>)"

definition cyc_init_filesize :: "bool \<Rightarrow> bool \<Rightarrow> string \<Rightarrow> 32 word \<Rightarrow> 32 word \<Rightarrow> cyclic option" where
  "cyc_init_filesize malloc_ok strdup_ok prefix nbackups maxsize =
     (if maxsize = 0 \<or> \<not> malloc_ok \<or> \<not> strdup_ok then None
      else Some \<lparr>cy_type = CYC_FILESIZE, cy_prefix = prefix, cy_nbackups = nbackups, cy_maxsize = maxsize,
                 cy_period = -1, cy_period_start = -1, cy_file = None, cy_lock = False,
                 cy_mutex = False, cy_flock = False\<rparr>)"

text \<open>
  What the system holds for a handle, and what \<open>cyc_destroy\<close> gives back, in order; \<open>fclose\<close> ends the
  stream when there is one.
\<close>

datatype owned = Stream string | Lock | Mutex | Prefix | Handle

definition cyc_stream :: "cyclic \<Rightarrow> owned list" where
  "cyc_stream c = (case cy_file c of None \<Rightarrow> [] | Some (name, _) \<Rightarrow> [Stream name])"

definition cyc_owns :: "cyclic \<Rightarrow> owned list" where
  "cyc_owns c = cyc_stream c @ [Lock, Mutex, Prefix, Handle]"

definition cyc_destroy :: "cyclic \<Rightarrow> owned list" where
  "cyc_destroy c = cyc_stream c @ [Mutex, Prefix, Handle]"

text \<open>Mutexes of a handle.\<close>

definition lock_mutex :: "cyclic \<Rightarrow> cyclic result" where
  "lock_mutex c = (if cy_mutex c then Inl Self_Deadlock else Inr (c\<lparr>cy_mutex := True\<rparr>))"

definition unlock_mutex :: "cyclic \<Rightarrow> cyclic" where
  "unlock_mutex c = c\<lparr>cy_mutex := False\<rparr>"

definition cyc_file_lock :: "cyclic \<Rightarrow> cyclic result" where
  "cyc_file_lock c =
     (if cy_lock c then Inl Self_Deadlock
      else rbind (lock_mutex (c\<lparr>cy_lock := True\<rparr>)) (\<lambda>c. Inr (unlock_mutex (c\<lparr>cy_flock := True\<rparr>))))"

definition cyc_file_unlock :: "cyclic \<Rightarrow> cyclic result" where
  "cyc_file_unlock c =
     rbind (lock_mutex c) (\<lambda>c. Inr ((unlock_mutex (c\<lparr>cy_flock := False\<rparr>))\<lparr>cy_lock := False\<rparr>))"

text \<open>Every line is flushed when it is printed, so there is nothing left to flush.\<close>

definition cyc_flush :: "cyclic \<Rightarrow> cyclic result" where
  "cyc_flush c = rbind (lock_mutex c) (\<lambda>c. Inr (unlock_mutex c))"

section \<open>Names\<close>

definition digit :: "nat \<Rightarrow> char" where
  "digit n = ''0123456789'' ! (n mod 10)"

fun dec :: "nat \<Rightarrow> string" where
  "dec n = (if n < 10 then [digit n] else dec (n div 10) @ [digit n])"

declare dec.simps [simp del]

text \<open>\<open>"%0wd"\<close>\<close>

definition dec_pad :: "nat \<Rightarrow> nat \<Rightarrow> string" where
  "dec_pad w n = replicate (w - length (dec n)) CHR ''0'' @ dec n"

definition backup_name :: "string \<Rightarrow> nat \<Rightarrow> string" where
  "backup_name prefix i = prefix @ ''.'' @ dec i"

text \<open>\<open>gmtime_r\<close>: the civil date of a number of days since 1970, in the proleptic calendar.\<close>

definition civil :: "int \<Rightarrow> int \<times> int \<times> int" where
  "civil days =
     (let z = days + 719468; era = z div 146097; doe = z mod 146097;
          yoe = (doe - doe div 1460 + doe div 36524 - doe div 146096) div 365;
          doy = doe - (365 * yoe + yoe div 4 - yoe div 100);
          mp = (5 * doy + 2) div 153;
          d = doy - (153 * mp + 2) div 5 + 1;
          m = (if mp < 10 then mp + 3 else mp - 9)
      in (yoe + era * 400 + (if m \<le> 2 then 1 else 0), m, d))"

definition period_name :: "string \<Rightarrow> int \<Rightarrow> string" where
  "period_name prefix t =
     (let (y, m, d) = civil (t div 86400); s = t mod 86400 in
      prefix @ ''.'' @ dec_pad 4 (nat y) @ dec_pad 2 (nat m) @ dec_pad 2 (nat d) @
      dec_pad 2 (nat (s div 3600)) @ dec_pad 2 (nat (s div 60 mod 60)) @ dec_pad 2 (nat (s mod 60)))"

section \<open>Opening files\<close>

definition rename_file :: "string \<Rightarrow> string \<Rightarrow> files \<Rightarrow> files" where
  "rename_file old new fs = fs(new := fs old, old := None)"

definition fopen_w :: "(string \<Rightarrow> bool) \<Rightarrow> string \<Rightarrow> files \<Rightarrow> (string \<times> nat) option \<times> files" where
  "fopen_w can name fs = (if can name then (Some (name, 0), fs(name \<mapsto> [])) else (None, fs))"

text \<open>
  The loop of \<open>cyc_open_filesize\<close>, for the indices below \<open>n\<close>, highest first; \<open>mem i\<close> says whether
  the \<open>malloc\<close> of round \<open>i\<close> succeeds.
\<close>

fun rotate_loop :: "(nat \<Rightarrow> bool) \<Rightarrow> string \<Rightarrow> nat \<Rightarrow> files \<Rightarrow> bool \<times> files" where
  "rotate_loop mem prefix 0 fs = (True, fs)"
| "rotate_loop mem prefix (Suc i) fs =
     (if fs (backup_name prefix i) = None then rotate_loop mem prefix i fs
      else if \<not> mem i then (False, fs)
      else rotate_loop mem prefix i (rename_file (backup_name prefix i) (backup_name prefix (i + 1)) fs))"

definition cyc_open_filesize ::
  "(string \<Rightarrow> bool) \<Rightarrow> bool \<Rightarrow> (nat \<Rightarrow> bool) \<Rightarrow> cyclic \<Rightarrow> files \<Rightarrow> bool \<times> cyclic \<times> files" where
  "cyc_open_filesize can malloc_ok mem c fs =
     (let c1 = c\<lparr>cy_file := None\<rparr> in
      if \<not> malloc_ok then (False, c1, fs)
      else
        let (ok, fs1) = rotate_loop mem (cy_prefix c) (nat (sint (cy_nbackups c - 2) + 1)) fs in
        if \<not> ok then (False, c1, fs1)
        else
          let (f, fs2) = fopen_w can (backup_name (cy_prefix c) 0) fs1 in
          (f \<noteq> None, c1\<lparr>cy_file := f\<rparr>, fs2))"

definition cyc_open_periodic ::
  "(string \<Rightarrow> bool) \<Rightarrow> bool \<Rightarrow> int \<Rightarrow> cyclic \<Rightarrow> files \<Rightarrow> bool \<times> cyclic \<times> files" where
  "cyc_open_periodic can malloc_ok now c fs =
     (let start = now div uint (cy_period c) * uint (cy_period c);
          c1 = c\<lparr>cy_file := None, cy_period_start := start\<rparr> in
      if \<not> malloc_ok then (False, c1, fs)
      else let (f, fs1) = fopen_w can (period_name (cy_prefix c) start) fs in
           (f \<noteq> None, c1\<lparr>cy_file := f\<rparr>, fs1))"

text \<open>\<open>now\<close> is kept in an \<open>unsigned\<close> before it is compared.\<close>

definition cyc_check_open_file ::
  "(string \<Rightarrow> bool) \<Rightarrow> bool \<Rightarrow> (nat \<Rightarrow> bool) \<Rightarrow> int \<Rightarrow> cyclic \<Rightarrow> files \<Rightarrow> bool \<times> cyclic \<times> files" where
  "cyc_check_open_file can malloc_ok mem now c fs =
     (if cy_flock c \<and> cy_file c \<noteq> None then (True, c, fs)
      else if cy_type c = CYC_PERIODIC then
        (if cy_file c = None \<or> uint (word_of_int now :: 32 word) - cy_period_start c > uint (cy_period c)
         then cyc_open_periodic can malloc_ok now c fs else (True, c, fs))
      else if cy_type c = CYC_FILESIZE then
        (case cy_file c of None \<Rightarrow> cyc_open_filesize can malloc_ok mem c fs
         | Some (_, pos) \<Rightarrow> if int pos > uint (cy_maxsize c)
                           then cyc_open_filesize can malloc_ok mem c fs else (True, c, fs))
      else (False, c, fs))"

section \<open>Printing\<close>

text \<open>
  \<open>vsnprintf\<close> cuts the line off; \<open>fputs\<close> writes it at the offset and returns 1, as the C library of
  these machines does.
\<close>

definition put_line :: "string \<Rightarrow> nat \<Rightarrow> string \<Rightarrow> files \<Rightarrow> files" where
  "put_line name pos line fs =
     (case fs name of None \<Rightarrow> fs | Some s \<Rightarrow> fs(name \<mapsto> take pos s @ line @ drop (pos + length line) s))"

definition cyc_vprintf ::
  "(string \<Rightarrow> bool) \<Rightarrow> bool \<Rightarrow> (nat \<Rightarrow> bool) \<Rightarrow> int \<Rightarrow> string \<Rightarrow> cyclic \<Rightarrow> files \<Rightarrow>
   (int \<times> cyclic \<times> files) result" where
  "cyc_vprintf can malloc_ok mem now msg c fs =
     rbind (lock_mutex c) (\<lambda>c.
     let (ok, c1, fs1) = cyc_check_open_file can malloc_ok mem now c fs in
     if \<not> ok then Inr (0, unlock_mutex c1, fs1)
     else (case cy_file c1 of None \<Rightarrow> Inl Null_Deref
           | Some (name, pos) \<Rightarrow>
               let line = take (CYCLIC_LINEBUF - 1) msg in
               Inr (1, unlock_mutex (c1\<lparr>cy_file := Some (name, pos + length line)\<rparr>),
                    put_line name pos line fs1)))"

definition cyc_printf ::
  "(string \<Rightarrow> bool) \<Rightarrow> bool \<Rightarrow> (nat \<Rightarrow> bool) \<Rightarrow> int \<Rightarrow> string \<Rightarrow> cyclic \<Rightarrow> files \<Rightarrow>
   (int \<times> cyclic \<times> files) result" where
  "cyc_printf can malloc_ok mem now msg c fs = cyc_vprintf can malloc_ok mem now msg c fs"

section \<open>The log of a program\<close>

text \<open>
  The static variables of \<open>log.c\<close>, the files, \<open>errno\<close> and what \<open>log_error\<close> wrote to the standard
  error.  \<open>err\<close> is what the calls of the system leave in \<open>errno\<close>, which they may do even when they
  succeed: \<open>access\<close> sets it for every backup that is missing.
\<close>

datatype complaint = Perror int | Not_Working nat

record log_state =
  lg_verbosity :: "32 word"
  lg_cyc :: "cyclic option"
  lg_files :: files
  lg_errno :: int
  lg_stderr :: "complaint list"

definition log_error :: "nat \<Rightarrow> log_state \<Rightarrow> log_state" where
  "log_error line g = g\<lparr>lg_stderr := lg_stderr g @
     (if lg_errno g \<noteq> 0 then [Perror (lg_errno g)] else []) @ [Not_Working line]\<rparr>"

definition log_init :: "int \<Rightarrow> bool \<Rightarrow> bool \<Rightarrow> 32 word \<Rightarrow> string \<Rightarrow> 32 word \<Rightarrow> 32 word \<Rightarrow> log_state \<Rightarrow> log_state" where
  "log_init err malloc_ok strdup_ok verbosity path nbackups maxsize g =
     (if lg_cyc g \<noteq> None then g
      else
        let g1 = g\<lparr>lg_verbosity := verbosity, lg_cyc := cyc_init_filesize malloc_ok strdup_ok path nbackups maxsize\<rparr>
        in if lg_cyc g1 = None then log_error 28 (g1\<lparr>lg_errno := err\<rparr>) else g1)"

definition log_destroy :: "log_state \<Rightarrow> owned list \<times> log_state" where
  "log_destroy g =
     (case lg_cyc g of None \<Rightarrow> ([], g)
      | Some c \<Rightarrow> (cyc_destroy c, g\<lparr>lg_verbosity := 0, lg_cyc := None\<rparr>))"

definition log_flush :: "log_state \<Rightarrow> log_state result" where
  "log_flush g = (case lg_cyc g of None \<Rightarrow> Inr g
     | Some c \<Rightarrow> rbind (cyc_flush c) (\<lambda>c. Inr (g\<lparr>lg_cyc := Some c\<rparr>)))"

text \<open>A line for the file, by \<open>cyc_vprintf\<close>, and the complaint when it returns 0.\<close>

definition log_line ::
  "int \<Rightarrow> (string \<Rightarrow> bool) \<Rightarrow> bool \<Rightarrow> (nat \<Rightarrow> bool) \<Rightarrow> int \<Rightarrow> nat \<Rightarrow> string \<Rightarrow> cyclic \<Rightarrow> log_state \<Rightarrow> log_state result" where
  "log_line err can malloc_ok mem now line msg c g =
     rbind (cyc_vprintf can malloc_ok mem now msg c (lg_files g)) (\<lambda>(r, c, fs).
     let g1 = g\<lparr>lg_cyc := Some c, lg_files := fs, lg_errno := err\<rparr> in
     Inr (if r = 0 then log_error line g1 else g1))"

definition logd ::
  "int \<Rightarrow> (string \<Rightarrow> bool) \<Rightarrow> bool \<Rightarrow> (nat \<Rightarrow> bool) \<Rightarrow> int \<Rightarrow> 32 word \<Rightarrow> string \<Rightarrow> log_state \<Rightarrow> log_state result" where
  "logd err can malloc_ok mem now verbosity msg g =
     (case lg_cyc g of None \<Rightarrow> Inr g
      | Some c \<Rightarrow> if lg_verbosity g < verbosity then Inr g
                  else log_line err can malloc_ok mem now 51 msg c g)"

text \<open>\<open>strerror\<close> is an argument.\<close>

definition where_text :: "string \<Rightarrow> nat \<Rightarrow> string" where
  "where_text file lineno = file @ '':'' @ dec lineno @ '': ''"

definition loge ::
  "int \<Rightarrow> (string \<Rightarrow> bool) \<Rightarrow> bool \<Rightarrow> (nat \<Rightarrow> bool) \<Rightarrow> int \<Rightarrow> (int \<Rightarrow> string) \<Rightarrow> 32 word \<Rightarrow> string \<Rightarrow> nat \<Rightarrow>
   log_state \<Rightarrow> log_state result" where
  "loge err can malloc_ok mem now strerror verbosity file lineno g =
     (case lg_cyc g of None \<Rightarrow> Inr g
      | Some c \<Rightarrow>
          if lg_verbosity g < verbosity then Inr g
          else if lg_errno g = 0 then Inr g
          else rbind (log_line err can malloc_ok mem now 61
                        (where_text file lineno @ ''strerror: '' @ strerror (lg_errno g) @ [CHR 0x0A]) c g) (\<lambda>g1.
               Inr (g1\<lparr>lg_errno := lg_errno g\<rparr>)))"

text \<open>\<open>logea\<close> ends the program; the result is the log it leaves.\<close>

definition logea ::
  "int \<Rightarrow> (string \<Rightarrow> bool) \<Rightarrow> bool \<Rightarrow> (nat \<Rightarrow> bool) \<Rightarrow> int \<Rightarrow> (int \<Rightarrow> string) \<Rightarrow> string \<Rightarrow> nat \<Rightarrow> string option \<Rightarrow>
   log_state \<Rightarrow> log_state result" where
  "logea err can malloc_ok mem now strerror file lineno msg g =
     (case lg_cyc g of None \<Rightarrow> Inr g
      | Some c \<Rightarrow>
          rbind (log_line err can malloc_ok mem now 71 (where_text file lineno @ ''aborting'' @ [CHR 0x0A]) c g) (\<lambda>g1.
          rbind (case (msg, lg_cyc g1) of
                   (Some t, Some c1) \<Rightarrow>
                      log_line err can malloc_ok mem now 75 (where_text file lineno @ t @ [CHR 0x0A]) c1 g1
                 | _ \<Rightarrow> Inr g1) (\<lambda>g2.
          loge err can malloc_ok mem now strerror 0 file lineno (g2\<lparr>lg_errno := lg_errno g\<rparr>))))"

definition log_true :: "32 word \<Rightarrow> log_state \<Rightarrow> bool" where
  "log_true verbosity g = (verbosity \<le> lg_verbosity g)"

end
