(* ===== verification/Cyc_Correct.thy ===== *)
theory Cyc_Correct
  imports Cyc
begin

text \<open>
  The rotating files as a list of contents, the newest first.
\<close>

section \<open>Names of backups\<close>

definition undigit :: "char \<Rightarrow> nat" where
  "undigit c = of_char c - 48"

lemma undigit_digit: "undigit (digit n) = n mod 10"
proof -
  have "\<forall>d \<in> set [0..<10]. undigit (''0123456789'' ! d) = d"
    by (simp add: upt_rec undigit_def)
  then show ?thesis by (simp add: digit_def)
qed

lemma undec: "foldl (\<lambda>k c. 10 * k + undigit c) 0 (dec n) = n"
proof (induction n rule: dec.induct)
  case (1 n)
  show ?case
  proof (cases "n < 10")
    case True
    then show ?thesis by (simp add: dec.simps [of n] undigit_digit)
  next
    case False
    with 1 show ?thesis by (simp add: dec.simps [of n] undigit_digit)
  qed
qed

lemma dec_inj: "dec i = dec j \<Longrightarrow> i = j"
  by (metis undec)

lemma backup_name_eq [simp]: "backup_name prefix i = backup_name prefix j \<longleftrightarrow> i = j"
  using dec_inj by (auto simp: backup_name_def)

section \<open>Rotation\<close>

lemma rotate_loop_ok:
  assumes "\<forall>i < k. mem i"
    and "\<forall>i < k. fs (backup_name prefix i) = None \<longrightarrow> fs (backup_name prefix (Suc i)) = None"
  shows "\<exists>fs'. rotate_loop mem prefix k fs = (True, fs') \<and>
    fs' (backup_name prefix 0) = (if k = 0 then fs (backup_name prefix 0) else None) \<and>
    (\<forall>i < k. fs' (backup_name prefix (Suc i)) = fs (backup_name prefix i)) \<and>
    (\<forall>i > k. fs' (backup_name prefix i) = fs (backup_name prefix i))"
  using assms
proof (induction k arbitrary: fs)
  case 0
  then show ?case by auto
next
  case (Suc k)
  let ?nm = "backup_name prefix"
  have mem: "\<forall>i < k. mem i" using Suc.prems(1) by simp
  show ?case
  proof (cases "fs (?nm k) = None")
    case True
    have next_none: "fs (?nm (Suc k)) = None" using Suc.prems(2) True by blast
    have "\<forall>i < k. fs (?nm i) = None \<longrightarrow> fs (?nm (Suc i)) = None" using Suc.prems(2) by simp
    from Suc.IH [OF mem this] obtain fs' where
      r: "rotate_loop mem prefix k fs = (True, fs')"
      "fs' (?nm 0) = (if k = 0 then fs (?nm 0) else None)"
      "\<forall>i < k. fs' (?nm (Suc i)) = fs (?nm i)" "\<forall>i > k. fs' (?nm i) = fs (?nm i)" by blast
    have "fs' (?nm (Suc i)) = fs (?nm i)" if "i < Suc k" for i
      using r(3,4) that True next_none by (cases "i = k") auto
    then show ?thesis using r True by auto
  next
    case False
    let ?fs = "rename_file (?nm k) (?nm (Suc k)) fs"
    have moved: "?fs (?nm i) = (if i = k then None else if i = Suc k then fs (?nm k) else fs (?nm i))" for i
      by (simp add: rename_file_def)
    have "?fs (?nm (Suc i)) = None" if "i < k" "?fs (?nm i) = None" for i
    proof -
      have "fs (?nm (Suc i)) = None" using that moved [of i] Suc.prems(2) by simp
      then show ?thesis using that(1) moved [of "Suc i"] by simp
    qed
    then have "\<forall>i < k. ?fs (?nm i) = None \<longrightarrow> ?fs (?nm (Suc i)) = None" by blast
    from Suc.IH [OF mem this] obtain fs' where
      r: "rotate_loop mem prefix k ?fs = (True, fs')"
      "fs' (?nm 0) = (if k = 0 then ?fs (?nm 0) else None)"
      "\<forall>i < k. fs' (?nm (Suc i)) = ?fs (?nm i)" "\<forall>i > k. fs' (?nm i) = ?fs (?nm i)" by blast
    have "rotate_loop mem prefix (Suc k) fs = (True, fs')" using False r(1) Suc.prems(1) by auto
    moreover have "fs' (?nm 0) = None" using r(2) moved [of 0] by (cases "k = 0") auto
    moreover have "fs' (?nm (Suc i)) = fs (?nm i)" if "i < Suc k" for i
      using r(3,4) that moved [of i] moved [of "Suc k"] by (cases "i = k") auto
    moreover have "fs' (?nm i) = fs (?nm i)" if "Suc k < i" for i
      using r(4) that moved [of i] by simp
    ultimately show ?thesis by auto
  qed
qed

lemma rotate_loop_outside:
  "name \<notin> range (backup_name prefix) \<Longrightarrow> snd (rotate_loop mem prefix k fs) name = fs name"
  by (induction k arbitrary: fs) (auto simp: rename_file_def)

text \<open>The files of a prefix, as a list of contents.\<close>

definition holds :: "files \<Rightarrow> string \<Rightarrow> string list \<Rightarrow> bool" where
  "holds fs prefix L \<longleftrightarrow>
     (\<forall>i. fs (backup_name prefix i) = (if i < length L then Some (L ! i) else None))"

definition keep :: "32 word \<Rightarrow> nat" where
  "keep nbackups = max 1 (unat nbackups)"

lemma loop_count:
  assumes "unat (nb :: 32 word) \<le> 2 ^ 31"
  shows "nat (sint (nb - 2) + 1) = keep nb - 1"
proof -
  have "int (unat nb) \<le> int (2 ^ 31)" using assms by (simp only: of_nat_le_iff)
  then have u: "uint nb \<le> 2 ^ 31" by simp
  have e: "nb - 2 = (word_of_int (uint nb - 2) :: 32 word)" by simp
  have "sint (nb - 2) = (uint nb - 2 + 2 ^ (LENGTH(32) - 1)) mod 2 ^ LENGTH(32) - 2 ^ (LENGTH(32) - 1)"
    unfolding e by (rule int_word_sint)
  then have "sint (nb - 2) = (uint nb - 2 + 2 ^ 31) mod 2 ^ 32 - 2 ^ 31"
    by (simp only: len_num1 len_bit0 len_bit1) simp
  also have "(uint nb - 2 + 2 ^ 31) mod 2 ^ 32 = uint nb - 2 + 2 ^ 31"
    using u uint_ge_0 [of nb] by (intro mod_pos_pos_trivial) simp_all
  finally have "sint (nb - 2) = uint nb - 2" by simp
  then show ?thesis by (simp add: keep_def uint_nat del: of_nat_unat)
qed

lemma open_filesize_ok:
  assumes "holds fs (cy_prefix c) L" "length L \<le> keep (cy_nbackups c)" "unat (cy_nbackups c) \<le> 2 ^ 31"
  shows "\<exists>fs'. cyc_open_filesize (\<lambda>_. True) True (\<lambda>_. True) c fs =
      (True, c\<lparr>cy_file := Some (backup_name (cy_prefix c) 0, 0)\<rparr>, fs') \<and>
    holds fs' (cy_prefix c) (take (keep (cy_nbackups c)) ([] # L)) \<and>
    (\<forall>name \<in> - range (backup_name (cy_prefix c)). fs' name = fs name)"
proof -
  let ?nm = "backup_name (cy_prefix c)"
  have "keep (cy_nbackups c) \<noteq> 0" by (simp add: keep_def)
  then obtain k where k: "keep (cy_nbackups c) = Suc k" by (cases "keep (cy_nbackups c)") simp_all
  have "\<forall>i < k. fs (?nm i) = None \<longrightarrow> fs (?nm (Suc i)) = None"
    using assms(1) by (simp add: holds_def)
  from rotate_loop_ok [OF _ this, of "\<lambda>_. True"] obtain fs' where
    r: "rotate_loop (\<lambda>_. True) (cy_prefix c) k fs = (True, fs')"
    "\<forall>i < k. fs' (?nm (Suc i)) = fs (?nm i)" "\<forall>i > k. fs' (?nm i) = fs (?nm i)" by auto
  have "holds (fs'(?nm 0 \<mapsto> [])) (cy_prefix c) (take (keep (cy_nbackups c)) ([] # L))"
    unfolding holds_def
  proof
    fix i
    show "(fs'(?nm 0 \<mapsto> [])) (?nm i) = (if i < length (take (keep (cy_nbackups c)) ([] # L))
        then Some (take (keep (cy_nbackups c)) ([] # L) ! i) else None)"
    proof (cases i)
      case 0
      then show ?thesis by (simp add: k)
    next
      case (Suc j)
      then show ?thesis
        using r(2,3) assms(1,2) by (cases "j < k") (auto simp: k holds_def)
    qed
  qed
  moreover have "fs' name = fs name" if "name \<notin> range ?nm" for name
    using rotate_loop_outside [OF that, of "\<lambda>_. True" k fs] r(1) by simp
  ultimately show ?thesis
    using r(1) loop_count [OF assms(3)] k by (simp add: cyc_open_filesize_def fopen_w_def)
qed

section \<open>Printing\<close>

text \<open>
  Without a limit on the number of files: a line goes to a new file when there is none or the newest
  is too long.  The handle keeps the newest of these files, then those \<open>L0\<close> that were there before.
\<close>

definition cut_line :: "string \<Rightarrow> string" where
  "cut_line msg = take (CYCLIC_LINEBUF - 1) msg"

definition next_line :: "nat \<Rightarrow> string \<Rightarrow> string list \<Rightarrow> string list" where
  "next_line maxsize msg N =
     (if N = [] \<or> maxsize < length (hd N) then cut_line msg # N else (hd N @ cut_line msg) # tl N)"

definition represents :: "files \<Rightarrow> string \<Rightarrow> 32 word \<Rightarrow> 32 word \<Rightarrow> string list \<Rightarrow>
    cyclic \<Rightarrow> files \<Rightarrow> string list \<Rightarrow> bool" where
  "represents fs0 pfx nb ms L0 c fs N \<longleftrightarrow>
     cy_type c = CYC_FILESIZE \<and> cy_prefix c = pfx \<and> cy_nbackups c = nb \<and> cy_maxsize c = ms \<and>
     \<not> cy_mutex c \<and> \<not> cy_flock c \<and> unat nb \<le> 2 ^ 31 \<and>
     holds fs pfx (take (keep nb) (N @ L0)) \<and> (\<forall>name \<in> - range (backup_name pfx). fs name = fs0 name) \<and>
     cy_file c = (if N = [] then None else Some (backup_name pfx 0, length (hd N)))"

lemma keep_Suc: obtains k where "keep nb = Suc k"
  by (cases "keep nb") (auto simp: keep_def)

lemma holds_append:
  assumes "holds fs pfx (x # L)"
  shows "holds (put_line (backup_name pfx 0) (length x) line fs) pfx ((x @ line) # L)"
  using assms by (auto simp: holds_def put_line_def nth_Cons split: nat.splits)

lemma put_line_outside: "name \<noteq> nm \<Longrightarrow> put_line nm pos line fs name = fs name"
  by (simp add: put_line_def split: option.splits)

text \<open>The check before the line: a new file, or the one that is open.\<close>

lemma check_open_ok:
  assumes "represents fs0 pfx nb ms L0 c fs N"
  shows "\<exists>c' fs'. cyc_check_open_file (\<lambda>_. True) True (\<lambda>_. True) now (c\<lparr>cy_mutex := True\<rparr>) fs = (True, c', fs') \<and>
    represents fs0 pfx nb ms L0 (unlock_mutex c') fs'
      (if N = [] \<or> unat ms < length (hd N) then [] # N else N)"
proof (cases "N = [] \<or> unat ms < length (hd N)")
  case True
  let ?c = "c\<lparr>cy_mutex := True\<rparr>" and ?L = "take (keep nb) (N @ L0)"
  from assms have r: "holds fs (cy_prefix ?c) ?L" "length ?L \<le> keep (cy_nbackups ?c)" "unat (cy_nbackups ?c) \<le> 2 ^ 31"
    by (simp_all add: represents_def)
  obtain k where k: "keep nb = Suc k" by (rule keep_Suc)
  have "take (keep nb) ([] # ?L) = take (keep nb) (([] # N) @ L0)" by (simp add: k min_def)
  moreover have "cyc_check_open_file (\<lambda>_. True) True (\<lambda>_. True) now ?c fs =
      cyc_open_filesize (\<lambda>_. True) True (\<lambda>_. True) ?c fs"
    using assms True
    by (auto simp: cyc_check_open_file_def represents_def CYC_FILESIZE_def CYC_PERIODIC_def
        word_less_nat_alt uint_nat simp del: of_nat_unat)
  ultimately show ?thesis
    using open_filesize_ok [OF r] assms True
    by (auto simp: represents_def unlock_mutex_def)
next
  case False
  then have "cyc_check_open_file (\<lambda>_. True) True (\<lambda>_. True) now (c\<lparr>cy_mutex := True\<rparr>) fs =
      (True, c\<lparr>cy_mutex := True\<rparr>, fs)"
    using assms by (auto simp: cyc_check_open_file_def represents_def CYC_FILESIZE_def CYC_PERIODIC_def
        uint_nat simp del: of_nat_unat)
  with False assms show ?thesis by (auto simp: represents_def unlock_mutex_def)
qed

text \<open>One line.\<close>

lemma cyc_vprintf_ok:
  assumes "represents fs0 pfx nb ms L0 c fs N"
  shows "\<exists>c' fs'. cyc_vprintf (\<lambda>_. True) True (\<lambda>_. True) now msg c fs = Inr (1, c', fs') \<and>
    represents fs0 pfx nb ms L0 c' fs' (next_line (unat ms) msg N)"
proof -
  let ?M = "if N = [] \<or> unat ms < length (hd N) then [] # N else N"
  from check_open_ok [OF assms, of now] obtain c1 fs1 where
    o: "cyc_check_open_file (\<lambda>_. True) True (\<lambda>_. True) now (c\<lparr>cy_mutex := True\<rparr>) fs = (True, c1, fs1)"
    "represents fs0 pfx nb ms L0 (unlock_mutex c1) fs1 ?M" by blast
  obtain x M where M: "?M = x # M" by (cases ?M) (auto split: if_splits)
  then have n: "next_line (unat ms) msg N = (x @ cut_line msg) # M"
    by (auto simp: next_line_def split: if_splits)
  obtain k where k: "keep nb = Suc k" by (rule keep_Suc)
  from o(2) have opened: "cy_file c1 = Some (backup_name pfx 0, length x)"
    by (simp only: M) (simp add: represents_def unlock_mutex_def)
  let ?fs = "put_line (backup_name pfx 0) (length x) (cut_line msg) fs1"
  from o(2) have "holds fs1 pfx (x # take k (M @ L0))"
    by (simp only: M) (simp add: represents_def k)
  from holds_append [OF this] have "holds ?fs pfx (take (keep nb) (((x @ cut_line msg) # M) @ L0))"
    by (simp add: k)
  moreover have "?fs name = fs1 name" if "name \<notin> range (backup_name pfx)" for name
    using that by (intro put_line_outside) auto
  ultimately have "represents fs0 pfx nb ms L0
      (unlock_mutex (c1\<lparr>cy_file := Some (backup_name pfx 0, length x + length (cut_line msg))\<rparr>)) ?fs
      (next_line (unat ms) msg N)"
    using o(2) unfolding n by (simp only: M) (simp add: represents_def unlock_mutex_def)
  then show ?thesis
    using assms o(1) opened
    by (auto simp: cyc_vprintf_def lock_mutex_def represents_def cut_line_def Let_def)
qed

text \<open>\<open>cyc_destroy\<close> gives back everything but \<open>lock\<close>, and nothing twice.\<close>

lemma cyc_destroy_ok: "set (cyc_owns c) - set (cyc_destroy c) = {Lock}" "distinct (cyc_destroy c)"
  by (auto simp: cyc_owns_def cyc_destroy_def cyc_stream_def split: option.splits)

end
