(* ===== verification/Log_Correct.thy ===== *)
theory Log_Correct
  imports Cyc_Correct
begin

text \<open>
  Sequences of lines.  A sink takes lines one at a time and is described by what an abstract value
  becomes; the rotating files, a rotating file under \<open>cyc_file_lock\<close> and the log of a program are
  sinks.
\<close>

section \<open>Sinks\<close>

primrec put_all :: "('m \<Rightarrow> 's \<Rightarrow> 's result) \<Rightarrow> 'm list \<Rightarrow> 's \<Rightarrow> 's result" where
  "put_all put [] s = Inr s"
| "put_all put (m # ms) s = rbind (put m s) (put_all put ms)"

locale line_sink =
  fixes rep :: "'s \<Rightarrow> 'a \<Rightarrow> bool" and put :: "'m \<Rightarrow> 's \<Rightarrow> 's result" and add :: "'m \<Rightarrow> 'a \<Rightarrow> 'a"
  assumes put_ok: "rep s a \<Longrightarrow> \<exists>s'. put m s = Inr s' \<and> rep s' (add m a)"
begin

lemma put_all_ok: "rep s a \<Longrightarrow> \<exists>s'. put_all put ms s = Inr s' \<and> rep s' (fold add ms a)"
proof (induction ms arbitrary: s a)
  case Nil
  then show ?case by simp
next
  case (Cons m ms)
  from put_ok [OF Cons.prems] obtain s1 where "put m s = Inr s1" "rep s1 (add m a)" by blast
  with Cons.IH [of s1 "add m a"] show ?case by simp
qed

end

section \<open>The files of \<open>cyc_printf\<close>\<close>

text \<open>The answers, the handle and the files; a line comes with the time of the call.\<close>

definition print_line :: "int \<times> string \<Rightarrow> int list \<times> cyclic \<times> files \<Rightarrow> (int list \<times> cyclic \<times> files) result" where
  "print_line m s = (case s of (rs, c, fs) \<Rightarrow>
     rbind (cyc_printf (\<lambda>_. True) True (\<lambda>_. True) (fst m) (snd m) c fs) (\<lambda>(r, c, fs).
     Inr (rs @ [r], c, fs)))"

definition sized_rep ::
  "files \<Rightarrow> string \<Rightarrow> 32 word \<Rightarrow> 32 word \<Rightarrow> string list \<Rightarrow> int list \<times> cyclic \<times> files \<Rightarrow> int list \<times> string list \<Rightarrow> bool"
  where
  "sized_rep fs0 pfx nb ms L0 s a \<longleftrightarrow>
     fst s = fst a \<and> represents fs0 pfx nb ms L0 (fst (snd s)) (snd (snd s)) (snd a)"

interpretation sized: line_sink "sized_rep fs0 pfx nb ms L0" print_line
    "\<lambda>m a. (fst a @ [1], next_line (unat ms) (snd m) (snd a))" for fs0 pfx nb ms L0
proof
  fix s :: "int list \<times> cyclic \<times> files" and a :: "int list \<times> string list" and m :: "int \<times> string"
  assume r: "sized_rep fs0 pfx nb ms L0 s a"
  obtain rs c fs where s: "s = (rs, c, fs)" by (cases s)
  from r cyc_vprintf_ok [of fs0 pfx nb ms L0 c fs "snd a" "fst m" "snd m"]
  show "\<exists>s'. print_line m s = Inr s' \<and>
      sized_rep fs0 pfx nb ms L0 s' (fst a @ [1], next_line (unat ms) (snd m) (snd a))"
    by (auto simp: s print_line_def cyc_printf_def sized_rep_def)
qed

lemma represents_init:
  assumes "cyc_init_filesize True True pfx nb ms = Some c" "unat nb \<le> 2 ^ 31"
    "holds fs pfx L0" "length L0 \<le> keep nb"
  shows "represents fs pfx nb ms L0 c fs []"
  using assms by (auto simp: cyc_init_filesize_def represents_def split: if_splits)

text \<open>What the unlimited list of files holds.\<close>

lemma next_line_concat: "concat (rev (next_line ms msg N)) = concat (rev N) @ cut_line msg"
  by (cases N) (auto simp: next_line_def)

lemma next_line_sizes:
  "(\<forall>f \<in> set N. length f \<le> ms + (CYCLIC_LINEBUF - 1)) \<Longrightarrow>
   \<forall>f \<in> set (next_line ms msg N). length f \<le> ms + (CYCLIC_LINEBUF - 1)"
  by (cases N) (auto simp: next_line_def cut_line_def)

lemma next_line_full:
  "(\<forall>f \<in> set (tl N). ms < length f) \<Longrightarrow> \<forall>f \<in> set (tl (next_line ms msg N)). ms < length f"
  by (cases N) (auto simp: next_line_def)

definition lines_in :: "nat \<Rightarrow> string list \<Rightarrow> string list" where
  "lines_in ms msgs = fold (next_line ms) msgs []"

lemma lines_in_snoc: "lines_in ms (msgs @ [m]) = next_line ms m (lines_in ms msgs)"
  by (simp add: lines_in_def)

lemma lines_in_concat: "concat (rev (lines_in ms msgs)) = concat (map cut_line msgs)"
  by (induction msgs rule: rev_induct) (simp_all add: lines_in_snoc next_line_concat lines_in_def [of _ "[]"])

lemma lines_in_sizes: "\<forall>f \<in> set (lines_in ms msgs). length f \<le> ms + (CYCLIC_LINEBUF - 1)"
  proof (induction msgs rule: rev_induct)
  case Nil
  then show ?case by (simp add: lines_in_def)
next
  case (snoc m msgs)
  then show ?case unfolding lines_in_snoc by (rule next_line_sizes)
qed

lemma lines_in_full: "\<forall>f \<in> set (tl (lines_in ms msgs)). ms < length f"
  proof (induction msgs rule: rev_induct)
  case Nil
  then show ?case by (simp add: lines_in_def)
next
  case (snoc m msgs)
  then show ?case unfolding lines_in_snoc by (rule next_line_full)
qed

lemma fold_pairs:
  "fold (\<lambda>m a. (fst a @ [1], next_line ms (snd m) (snd a))) msgs (rs, N) =
   (rs @ replicate (length msgs) 1, fold (next_line ms) (map snd msgs) N)"
  by (induction msgs arbitrary: rs N) simp_all

section \<open>A file that is locked\<close>

text \<open>The handle of a file that is open, under \<open>cyc_file_lock\<close>, whatever its type.\<close>

definition locked_rep :: "cyclic \<Rightarrow> files \<Rightarrow> string \<Rightarrow> int list \<times> cyclic \<times> files \<Rightarrow> int list \<times> string \<Rightarrow> bool" where
  "locked_rep c0 fs0 name s a \<longleftrightarrow>
     fst s = fst a \<and> fst (snd s) = c0\<lparr>cy_file := Some (name, length (snd a))\<rparr> \<and>
     snd (snd s) = fs0(name \<mapsto> snd a) \<and> cy_flock c0 \<and> \<not> cy_mutex c0"

interpretation locked: line_sink "locked_rep c0 fs0 name" print_line
    "\<lambda>m a. (fst a @ [1], snd a @ cut_line (snd m))" for c0 fs0 name
proof
  fix s :: "int list \<times> cyclic \<times> files" and a :: "int list \<times> string" and m :: "int \<times> string"
  assume r: "locked_rep c0 fs0 name s a"
  obtain rs c fs where s: "s = (rs, c, fs)" by (cases s)
  from r show "\<exists>s'. print_line m s = Inr s' \<and>
      locked_rep c0 fs0 name s' (fst a @ [1], snd a @ cut_line (snd m))"
    by (auto simp: s print_line_def cyc_printf_def cyc_vprintf_def locked_rep_def lock_mutex_def
        unlock_mutex_def cyc_check_open_file_def put_line_def cut_line_def Let_def)
qed

lemma fold_locked:
  "fold (\<lambda>m a. (fst a @ [1], snd a @ cut_line (snd m))) msgs (rs, t) =
   (rs @ replicate (length msgs) 1, t @ concat (map (cut_line \<circ> snd) msgs))"
  by (induction msgs arbitrary: rs t) simp_all

section \<open>The log\<close>

text \<open>A call of \<open>logd\<close>: what it leaves in \<open>errno\<close>, the time, the verbosity and the text.\<close>

definition log_call :: "int \<times> int \<times> 32 word \<times> string \<Rightarrow> log_state \<Rightarrow> log_state result" where
  "log_call m g = (case m of (err, now, level, msg) \<Rightarrow> logd err (\<lambda>_. True) True (\<lambda>_. True) now level msg g)"

definition chosen :: "32 word \<Rightarrow> int \<times> int \<times> 32 word \<times> string \<Rightarrow> bool" where
  "chosen v m = (case m of (err, now, level, msg) \<Rightarrow> level \<le> v)"

definition text_of :: "int \<times> int \<times> 32 word \<times> string \<Rightarrow> string" where
  "text_of m = (case m of (err, now, level, msg) \<Rightarrow> msg)"

definition log_rep ::
  "files \<Rightarrow> string \<Rightarrow> 32 word \<Rightarrow> 32 word \<Rightarrow> string list \<Rightarrow> 32 word \<Rightarrow> complaint list \<Rightarrow> log_state \<Rightarrow> string list \<Rightarrow> bool"
  where
  "log_rep fs0 pfx nb ms L0 v out g N \<longleftrightarrow>
     lg_verbosity g = v \<and> lg_stderr g = out \<and>
     (case lg_cyc g of None \<Rightarrow> False | Some c \<Rightarrow> represents fs0 pfx nb ms L0 c (lg_files g) N)"

interpretation log: line_sink "log_rep fs0 pfx nb ms L0 v out" log_call
    "\<lambda>m N. if chosen v m then next_line (unat ms) (text_of m) N else N" for fs0 pfx nb ms L0 v out
proof
  fix g :: log_state and N :: "string list" and m :: "int \<times> int \<times> 32 word \<times> string"
  assume r: "log_rep fs0 pfx nb ms L0 v out g N"
  obtain err now level msg where m: "m = (err, now, level, msg)" by (cases m)
  from r obtain c where c: "lg_cyc g = Some c" "represents fs0 pfx nb ms L0 c (lg_files g) N"
    by (auto simp: log_rep_def split: option.splits)
  from r c cyc_vprintf_ok [OF c(2), of now msg]
  show "\<exists>g'. log_call m g = Inr g' \<and>
      log_rep fs0 pfx nb ms L0 v out g' (if chosen v m then next_line (unat ms) (text_of m) N else N)"
    by (auto simp: m log_call_def logd_def log_line_def log_rep_def chosen_def text_of_def Let_def not_less)
qed

lemma fold_chosen:
  "fold (\<lambda>m N. if chosen v m then next_line ms (text_of m) N else N) msgs N =
   fold (next_line ms) (map text_of (filter (chosen v) msgs)) N"
  by (induction msgs arbitrary: N) simp_all

end
