(* ===== verification/Log_Properties.thy ===== *)
theory Log_Properties
  imports Log_Correct
begin

text \<open>
  The properties of the rotating files and of the log, with a concrete case of each.
\<close>

text \<open>C27: A handle of \<open>cyc_init_filesize\<close> prints any sequence of lines without failing.  The files of
  its prefix are then the newest \<open>nbackups\<close> (one when \<open>nbackups\<close> is 0) of the files \<open>N\<close> written
  since, newest first, and of the files \<open>L0\<close> found; together the files \<open>N\<close> hold all lines, each cut
  at 1023 bytes, in the order printed.  A file may exceed \<open>maxsize\<close> by less than a line, and none but
  the newest is left before it does.  No other file is touched.\<close>

theorem cyc_keeps_newest_lines:
  assumes "cyc_init_filesize True True pfx nb ms = Some c" "unat nb \<le> 2 ^ 31"
    "holds fs pfx L0" "length L0 \<le> keep nb"
  shows "\<exists>c' fs' N. put_all print_line msgs ([], c, fs) = Inr (replicate (length msgs) 1, c', fs') \<and>
    holds fs' pfx (take (keep nb) (N @ L0)) \<and>
    concat (rev N) = concat (map cut_line (map snd msgs)) \<and>
    (\<forall>f \<in> set N. length f \<le> unat ms + (CYCLIC_LINEBUF - 1)) \<and>
    (\<forall>f \<in> set (tl N). unat ms < length f) \<and>
    (\<forall>name \<in> - range (backup_name pfx). fs' name = fs name)"
proof -
  have "sized_rep fs pfx nb ms L0 ([], c, fs) ([], [])"
    using represents_init [OF assms] by (simp add: sized_rep_def)
  from sized.put_all_ok [OF this, of msgs] obtain rs c' fs' where
    "put_all print_line msgs ([], c, fs) = Inr (rs, c', fs')"
    "sized_rep fs pfx nb ms L0 (rs, c', fs') (replicate (length msgs) 1, lines_in (unat ms) (map snd msgs))"
    by (auto simp: fold_pairs lines_in_def)
  then have "put_all print_line msgs ([], c, fs) = Inr (replicate (length msgs) 1, c', fs')"
    "holds fs' pfx (take (keep nb) (lines_in (unat ms) (map snd msgs) @ L0))"
    "\<forall>name \<in> - range (backup_name pfx). fs' name = fs name"
    by (simp_all add: sized_rep_def represents_def)
  then show ?thesis using lines_in_concat lines_in_sizes lines_in_full by blast
qed

text \<open>Two files of at least four bytes: the third file drops the first.\<close>

definition demo_handle :: cyclic where
  "demo_handle = \<lparr>cy_type = CYC_FILESIZE, cy_prefix = ''m'', cy_nbackups = 2, cy_maxsize = 3,
     cy_period = -1, cy_period_start = -1, cy_file = None, cy_lock = False, cy_mutex = False, cy_flock = False\<rparr>"

lemma cyc_keeps_newest_lines_witness:
  "\<exists>c' fs' N. put_all print_line [(0, ''abcde''), (0, ''fghij''), (0, ''k'')] ([], demo_handle, Map.empty) =
      Inr ([1, 1, 1], c', fs') \<and>
    holds fs' ''m'' (take 2 N) \<and> concat (rev N) = ''abcdefghijk'' \<and>
    (\<forall>f \<in> set N. length f \<le> 1026) \<and> (\<forall>f \<in> set (tl N). 3 < length f)"
proof -
  have "cyc_init_filesize True True ''m'' 2 3 = Some demo_handle" by (simp add: cyc_init_filesize_def demo_handle_def)
  moreover have "holds Map.empty ''m'' []" by (simp add: holds_def)
  ultimately have "\<exists>c' fs' N. put_all print_line [(0, ''abcde''), (0, ''fghij''), (0, ''k'')] ([], demo_handle, Map.empty) =
      Inr (replicate (length [(0::int, ''abcde''), (0, ''fghij''), (0, ''k'')]) 1, c', fs') \<and>
    holds fs' ''m'' (take (keep 2) (N @ [])) \<and>
    concat (rev N) = concat (map cut_line (map snd [(0::int, ''abcde''), (0, ''fghij''), (0, ''k'')])) \<and>
    (\<forall>f \<in> set N. length f \<le> unat (3 :: 32 word) + (CYCLIC_LINEBUF - 1)) \<and>
    (\<forall>f \<in> set (tl N). unat (3 :: 32 word) < length f) \<and>
    (\<forall>name \<in> - range (backup_name ''m''). fs' name = Map.empty name)"
    by (intro cyc_keeps_newest_lines) (simp_all add: keep_def)
  moreover have "keep 2 = 2" by (simp add: keep_def)
  ultimately show ?thesis
    by (simp add: cut_line_def CYCLIC_LINEBUF_def del: put_all.simps) blast
qed

text \<open>C28: The log of a program that called \<open>log_init\<close>: whatever its calls of \<open>logd\<close>, the files hold
  the newest of the lines whose verbosity is at most that of the log, as the handle of the files
  would hold them alone, and nothing is reported on the standard error.\<close>

theorem log_keeps_chosen_lines:
  assumes "lg_cyc g = None" "ms \<noteq> 0" "unat nb \<le> 2 ^ 31"
    "holds (lg_files g) pfx L0" "length L0 \<le> keep nb"
  shows "\<exists>g' N. put_all log_call msgs (log_init err True True v pfx nb ms g) = Inr g' \<and>
    holds (lg_files g') pfx (take (keep nb) (N @ L0)) \<and>
    concat (rev N) = concat (map cut_line (map text_of (filter (chosen v) msgs))) \<and>
    (\<forall>f \<in> set N. length f \<le> unat ms + (CYCLIC_LINEBUF - 1)) \<and>
    lg_stderr g' = lg_stderr g"
proof -
  let ?g = "log_init err True True v pfx nb ms g" and ?N = "lines_in (unat ms) (map text_of (filter (chosen v) msgs))"
  obtain c where c: "cyc_init_filesize True True pfx nb ms = Some c"
    using assms(2) by (simp add: cyc_init_filesize_def)
  have "log_rep (lg_files g) pfx nb ms L0 v (lg_stderr g) ?g []"
    using represents_init [OF c assms(3-5)] assms(1) c by (simp add: log_init_def log_rep_def)
  from log.put_all_ok [OF this, of msgs] obtain g' where
    g': "put_all log_call msgs ?g = Inr g'" "log_rep (lg_files g) pfx nb ms L0 v (lg_stderr g) g' ?N"
    by (auto simp: fold_chosen lines_in_def)
  then have "holds (lg_files g') pfx (take (keep nb) (?N @ L0))" "lg_stderr g' = lg_stderr g"
    by (auto simp: log_rep_def represents_def split: option.splits)
  with g'(1) show ?thesis using lines_in_concat lines_in_sizes by blast
qed

lemma log_keeps_chosen_lines_witness:
  "\<exists>g' N. put_all log_call [(2, 0, 500, ''a''), (2, 0, 1001, ''b''), (2, 0, 1000, ''c'')]
      (log_init 0 True True 1000 ''m'' 1 1048576
        \<lparr>lg_verbosity = 0, lg_cyc = None, lg_files = Map.empty, lg_errno = 0, lg_stderr = []\<rparr>) = Inr g' \<and>
    holds (lg_files g') ''m'' (take 1 N) \<and> concat (rev N) = ''ac'' \<and> lg_stderr g' = []"
proof -
  let ?g = "\<lparr>lg_verbosity = 0, lg_cyc = None, lg_files = Map.empty, lg_errno = 0, lg_stderr = []\<rparr>"
    and ?ms = "[(2, 0, 500, ''a''), (2, 0, 1001, ''b''), (2, 0, 1000, ''c'')]"
  have "holds (lg_files ?g) ''m'' []" by (simp add: holds_def)
  then obtain g' N where r: "put_all log_call ?ms (log_init 0 True True 1000 ''m'' 1 1048576 ?g) = Inr g'"
    "holds (lg_files g') ''m'' (take (keep 1) (N @ []))"
    "concat (rev N) = concat (map cut_line (map text_of (filter (chosen 1000) ?ms)))"
    "lg_stderr g' = lg_stderr ?g"
    using log_keeps_chosen_lines [of ?g 1048576 1 "''m''" "[]" ?ms 0 1000] by auto
  have "concat (map cut_line (map text_of (filter (chosen 1000) ?ms))) = ''ac''"
    by (simp add: chosen_def text_of_def cut_line_def CYCLIC_LINEBUF_def)
  with r show ?thesis by (auto simp: keep_def simp del: put_all.simps)
qed

text \<open>Between \<open>cyc_file_lock\<close> and \<open>cyc_file_unlock\<close> the file that is open stays the one that is
  written, however long it grows and however much time passes, and no other file changes; a second
  \<open>cyc_file_lock\<close> by the same thread never returns.\<close>

theorem locked_file_stays:
  assumes "cyc_file_lock c = Inr c1" "cy_file c = Some (name, length t)" "fs name = Some t"
  shows "\<exists>c'. put_all print_line msgs ([], c1, fs) =
      Inr (replicate (length msgs) 1, c', fs(name \<mapsto> t @ concat (map (cut_line \<circ> snd) msgs))) \<and>
    cyc_file_lock c' = Inl Self_Deadlock \<and>
    cyc_file_unlock c' = Inr (c\<lparr>cy_file := Some (name, length (t @ concat (map (cut_line \<circ> snd) msgs))), cy_flock := False\<rparr>)"
proof -
  have free: "\<not> cy_lock c" "\<not> cy_mutex c" and c1: "c1 = c\<lparr>cy_lock := True, cy_flock := True, cy_mutex := False\<rparr>"
    using assms(1) by (auto simp: cyc_file_lock_def lock_mutex_def unlock_mutex_def split: if_splits)
  have "locked_rep c1 fs name ([], c1, fs) ([], t)"
    using assms(2,3) by (simp add: locked_rep_def c1 fun_upd_idem)
  from locked.put_all_ok [OF this, of msgs] show ?thesis using free
    by (auto simp: fold_locked locked_rep_def c1 cyc_file_lock_def cyc_file_unlock_def lock_mutex_def unlock_mutex_def)
qed

lemma locked_file_stays_witness:
  "\<exists>c'. put_all print_line [(0, ''fgh''), (0, ''ij'')]
      ([], demo_handle\<lparr>cy_file := Some (''m.0'', 5), cy_lock := True, cy_flock := True, cy_mutex := False\<rparr>, [''m.0'' \<mapsto> ''abcde'']) =
    Inr ([1, 1], c', [''m.0'' \<mapsto> ''abcdefghij'']) \<and> cyc_file_lock c' = Inl Self_Deadlock"
proof -
  let ?c = "demo_handle\<lparr>cy_file := Some (''m.0'', 5)\<rparr>"
  have "cyc_file_lock ?c = Inr (?c\<lparr>cy_lock := True, cy_flock := True, cy_mutex := False\<rparr>)"
    by (simp add: cyc_file_lock_def lock_mutex_def unlock_mutex_def demo_handle_def)
  from locked_file_stays [OF this, of "''m.0''" "''abcde''" "[''m.0'' \<mapsto> ''abcde'']" "[(0, ''fgh''), (0, ''ij'')]"]
  show ?thesis by (auto simp: cut_line_def CYCLIC_LINEBUF_def demo_handle_def numeral_2_eq_2)
qed

text \<open>C40: A handle of \<open>cyc_init_periodic\<close> that prints at \<open>t\<close> and then at \<open>u\<close>, both before 2106: the
  first line opens the file of the period of \<open>t\<close>; the second goes to the same file when \<open>u\<close> is at most
  one period past its start, which includes the first second of the next period, and otherwise to an
  empty file named after the period of \<open>u\<close>.\<close>

theorem period_ends_late:
  assumes "cyc_init_periodic True True pfx p = Some c" "0 \<le> t" "t \<le> u" "u < 2 ^ 32"
    and "start = t div uint p * uint p" "later = u div uint p * uint p"
  shows "\<exists>c'. put_all print_line [(t, m), (u, n)] ([], c, fs) = Inr ([1, 1], c',
    if u \<le> start + uint p then fs(period_name pfx start \<mapsto> cut_line m @ cut_line n)
    else fs(period_name pfx start \<mapsto> cut_line m, period_name pfx later \<mapsto> cut_line n))"
proof -
  have now: "uint (word_of_int u :: 32 word) = u" using assms(2-4) by (simp add: uint_word_of_int_eq take_bit_int_eq_self)
  have c: "c = \<lparr>cy_type = CYC_PERIODIC, cy_prefix = pfx, cy_nbackups = -1, cy_maxsize = -1,
      cy_period = p, cy_period_start = 0, cy_file = None, cy_lock = False, cy_mutex = False, cy_flock = False\<rparr>"
    using assms(1) by (simp add: cyc_init_periodic_def split: if_splits)
  let ?name = "period_name pfx start"
  let ?c = "c\<lparr>cy_file := Some (?name, length (cut_line m)), cy_period_start := start\<rparr>"
  have first: "print_line (t, m) ([], c, fs) = Inr ([1], ?c, fs(?name \<mapsto> cut_line m))"
    by (simp add: print_line_def cyc_printf_def cyc_vprintf_def lock_mutex_def unlock_mutex_def c fopen_w_def
        cyc_check_open_file_def cyc_open_periodic_def put_line_def cut_line_def Let_def assms(5))
  have "\<exists>c'. put_all print_line [(u, n)] ([1], ?c, fs(?name \<mapsto> cut_line m)) = Inr ([1, 1], c',
    if u \<le> start + uint p then fs(?name \<mapsto> cut_line m @ cut_line n)
    else fs(?name \<mapsto> cut_line m, period_name pfx later \<mapsto> cut_line n))"
    by (auto simp: print_line_def cyc_printf_def cyc_vprintf_def lock_mutex_def unlock_mutex_def c fopen_w_def
        cyc_check_open_file_def cyc_open_periodic_def put_line_def cut_line_def Let_def now assms(6)
        CYC_PERIODIC_def min_def)
  then show ?thesis unfolding put_all.simps(2) [of print_line "(t, m)"] first rbind.simps .
qed

lemma period_ends_late_witness:
  "\<exists>c c'. cyc_init_periodic True True ''m'' 60 = Some c \<and>
    put_all print_line [(30, ''a''), (60, ''b'')] ([], c, Map.empty) =
      Inr ([1, 1], c', [''m.19700101000000'' \<mapsto> ''ab''])"
proof -
  obtain c where c: "cyc_init_periodic True True ''m'' 60 = Some c" by (simp add: cyc_init_periodic_def)
  have "period_name ''m'' 0 = ''m.19700101000000''" by code_simp
  then show ?thesis
    using c period_ends_late [OF c, of 30 60 0 60 "''a''" "''b''" Map.empty]
    by (auto simp: cut_line_def CYCLIC_LINEBUF_def simp del: put_all.simps)
qed

end
