(* ===== verification/Fs_Image.thy ===== *)
theory Fs_Image
  imports Bytes
begin

text \<open>
  What \<open>TP 3/fs.c\<close> works on: the image file behind its descriptors, the buffers it fills from
  it, and the on-disk structures of \<open>TP 3/fs.h\<close> as bytes in those buffers.
\<close>

section \<open>The image file\<close>

text \<open>\<open>offsets\<close> maps the descriptors that are open on the image to their file offsets.\<close>

record fs_os =
  img :: "byte list"
  offsets :: "int \<rightharpoonup> nat"
  errno :: int
  is_fs_open :: bool

definition EINVAL_fs :: int where "EINVAL_fs = 22"
definition ENOSPC :: int where "ENOSPC = 28"
definition EBUSY :: int where "EBUSY = 16"
definition EBADF :: int where "EBADF = 9"
definition ENOENT :: int where "ENOENT = 2"
definition ENOTEMPTY :: int where "ENOTEMPTY = 39"

definition sys_lseek :: "int \<Rightarrow> 64 word \<Rightarrow> fs_os \<Rightarrow> fs_os" where
  "sys_lseek fd off os =
     (if offsets os fd = None then os\<lparr>errno := EBADF\<rparr>
      else if sint off < 0 then os\<lparr>errno := EINVAL_fs\<rparr>
      else os\<lparr>offsets := (offsets os)(fd \<mapsto> unat off)\<rparr>)"

text \<open>\<open>read\<close> copies what the file has, up to \<open>n\<close> bytes, over the start of the buffer.\<close>

definition sys_read :: "int \<Rightarrow> nat \<Rightarrow> byte list \<Rightarrow> fs_os \<Rightarrow> (int \<times> byte list \<times> fs_os) result" where
  "sys_read fd n buf os =
     (case offsets os fd of None \<Rightarrow> Inr (-1, buf, os\<lparr>errno := EBADF\<rparr>)
      | Some off \<Rightarrow> (let data = chunk off n (img os) in
          rbind (check (length data \<le> length buf) Out_Of_Bounds) (\<lambda>_.
          Inr (int (length data), overwrite buf 0 data,
               os\<lparr>offsets := (offsets os)(fd \<mapsto> off + length data)\<rparr>))))"

text \<open>\<open>write\<close> past the end of the file extends it; a gap reads as zeros.\<close>

definition poke :: "byte list \<Rightarrow> nat \<Rightarrow> byte list \<Rightarrow> byte list" where
  "poke im off bs = overwrite (im @ replicate (off + length bs - length im) 0) off bs"

definition sys_write :: "int \<Rightarrow> byte list \<Rightarrow> fs_os \<Rightarrow> int \<times> fs_os" where
  "sys_write fd bs os =
     (case offsets os fd of None \<Rightarrow> (-1, os\<lparr>errno := EBADF\<rparr>)
      | Some off \<Rightarrow> (int (length bs),
          os\<lparr>img := poke (img os) off bs, offsets := (offsets os)(fd \<mapsto> off + length bs)\<rparr>))"

section \<open>Fields of buffers\<close>

text \<open>
  A buffer is the memory of one \<open>malloc\<close>; \<open>fresh mem i n\<close> is the one that the \<open>i\<close>th \<open>malloc(n)\<close>
  of a function gets, with what was in memory there.  Access outside the buffer is a fault.
\<close>

definition fresh :: "(nat \<Rightarrow> byte list) \<Rightarrow> nat \<Rightarrow> nat \<Rightarrow> byte list" where
  "fresh mem i n = take n (mem i @ replicate n 0)"

definition fld :: "nat \<Rightarrow> byte list \<Rightarrow> 64 word" where
  "fld off b = of_le (chunk off 8 b)"

definition load64 :: "int \<Rightarrow> byte list \<Rightarrow> 64 word result" where
  "load64 off b = (if 0 \<le> off \<and> off + 8 \<le> int (length b) then Inr (fld (nat off) b)
                   else Inl Out_Of_Bounds)"

definition store64 :: "int \<Rightarrow> 64 word \<Rightarrow> byte list \<Rightarrow> byte list result" where
  "store64 off v b = (if 0 \<le> off \<and> off + 8 \<le> int (length b)
                      then Inr (overwrite b (nat off) (le_bytes 8 v)) else Inl Out_Of_Bounds)"

text \<open>A C string in a buffer, up to its \<open>NUL\<close>, and \<open>strcpy\<close> into one.\<close>

definition cstr :: "nat \<Rightarrow> byte list \<Rightarrow> byte list result" where
  "cstr off b = (let s = drop off b in
     if 0 \<in> set s then Inr (takeWhile (\<lambda>c. c \<noteq> 0) s) else Inl Out_Of_Bounds)"

definition strcpy_to :: "nat \<Rightarrow> byte list \<Rightarrow> byte list \<Rightarrow> byte list result" where
  "strcpy_to off s b = (if off + length s + 1 \<le> length b then Inr (overwrite b off (s @ [0]))
                        else Inl Out_Of_Bounds)"

section \<open>On-disk structures\<close>

text \<open>\<open>struct inode\<close>: four words, then \<open>links\<close>.  \<open>struct nodeinfo\<close>: \<open>size\<close>, \<open>reserved\<close>, \<open>name\<close>.\<close>

definition IMREG :: "64 word" where "IMREG = 1"
definition IMDIR :: "64 word" where "IMDIR = 2"
definition IMCHILD :: "64 word" where "IMCHILD = 4"

definition o_mode :: int where "o_mode = 0"
definition o_parent :: int where "o_parent = 8"
definition o_meta :: int where "o_meta = 16"
definition o_next :: int where "o_next = 24"
definition o_link :: "int \<Rightarrow> int" where "o_link k = 32 + 8 * k"
definition o_size :: int where "o_size = 0"
definition o_name :: nat where "o_name = 64"

text \<open>
  \<open>struct superblock\<close> in memory, with the bytes of its allocation that follow its fields.
\<close>

record superblock =
  sb_magic :: "64 word"
  sb_blks :: "64 word"
  sb_blksz :: "64 word"
  sb_freeblks :: "64 word"
  sb_freelist :: "64 word"
  sb_root :: "64 word"
  sb_fd :: int
  sb_rest :: "byte list"

definition sb_bytes :: "superblock \<Rightarrow> byte list" where
  "sb_bytes sb = le_bytes 8 (sb_magic sb) @ le_bytes 8 (sb_blks sb) @ le_bytes 8 (sb_blksz sb) @
     le_bytes 8 (sb_freeblks sb) @ le_bytes 8 (sb_freelist sb) @ le_bytes 8 (sb_root sb) @
     le_bytes 4 (word_of_int (sb_fd sb) :: 32 word) @ sb_rest sb"

definition sb_of_bytes :: "byte list \<Rightarrow> superblock" where
  "sb_of_bytes bs = \<lparr>sb_magic = fld 0 bs, sb_blks = fld 8 bs, sb_blksz = fld 16 bs,
     sb_freeblks = fld 24 bs, sb_freelist = fld 32 bs, sb_root = fld 40 bs,
     sb_fd = sint (of_le (chunk 48 4 bs) :: 32 word), sb_rest = drop 52 bs\<rparr>"

text \<open>Blocks are read into and written from whole buffers of \<open>blksz\<close> bytes.\<close>

definition bsz :: "superblock \<Rightarrow> nat" where
  "bsz sb = unat (sb_blksz sb)"

definition read_block :: "superblock \<Rightarrow> 64 word \<Rightarrow> byte list \<Rightarrow> fs_os \<Rightarrow> (byte list \<times> fs_os) result" where
  "read_block sb b buf os =
     rbind (sys_read (sb_fd sb) (bsz sb) buf (sys_lseek (sb_fd sb) (b * sb_blksz sb) os)) (\<lambda>(_, r).
     Inr r)"

definition write_buf :: "superblock \<Rightarrow> byte list \<Rightarrow> fs_os \<Rightarrow> (int \<times> fs_os) result" where
  "write_buf sb buf os =
     rbind (check (bsz sb \<le> length buf) Out_Of_Bounds) (\<lambda>_.
     Inr (sys_write (sb_fd sb) (take (bsz sb) buf) os))"

definition write_block :: "superblock \<Rightarrow> 64 word \<Rightarrow> byte list \<Rightarrow> fs_os \<Rightarrow> fs_os result" where
  "write_block sb b buf os =
     rbind (write_buf sb buf (sys_lseek (sb_fd sb) (b * sb_blksz sb) os)) (\<lambda>(_, os'). Inr os')"

end
