(* ===== verification/Fs_Blocks.thy ===== *)
theory Fs_Blocks
  imports Fs_Image
begin

text \<open>
  Formatting, opening and closing a file system, and its list of free blocks: the first part of
  \<open>TP 3/fs.c\<close>.
\<close>

definition MAGIC :: "64 word" where "MAGIC = 0xdcc605f5"
definition MIN_BLOCK_SIZE :: "64 word" where "MIN_BLOCK_SIZE = 128"
definition MIN_BLOCK_COUNT :: "64 word" where "MIN_BLOCK_COUNT = 32"

section \<open>Formatting\<close>

text \<open>\<open>fd\<close> is the answer of \<open>open\<close>, negative when it fails.\<close>

definition sys_open :: "int \<Rightarrow> fs_os \<Rightarrow> fs_os" where
  "sys_open fd os = (if fd < 0 then os else os\<lparr>offsets := (offsets os)(fd \<mapsto> 0)\<rparr>)"

definition create_superblock ::
  "byte list \<Rightarrow> int \<Rightarrow> 64 word \<Rightarrow> 64 word \<Rightarrow> fs_os \<Rightarrow> superblock \<times> fs_os" where
  "create_superblock junk fd blocksize n os =
     (\<lparr>sb_magic = MAGIC, sb_blks = n, sb_blksz = blocksize, sb_freeblks = n - 3,
       sb_freelist = 3, sb_root = 2, sb_fd = fd, sb_rest = drop 52 junk\<rparr>, sys_open fd os)"

definition create_root_directory :: "byte list \<Rightarrow> byte list result" where
  "create_root_directory root =
     rbind (store64 o_mode IMDIR root) (\<lambda>r.
     rbind (store64 o_parent 2 r) (\<lambda>r.
     rbind (store64 o_meta 1 r) (\<lambda>r.
     rbind (store64 o_next 0 r) (\<lambda>r.
     store64 (o_link 0) 0 r))))"

text \<open>
  The loop that writes the free blocks.  \<open>fp\<close> is never initialised: \<open>None\<close> is a pointer that
  cannot be followed, \<open>Some b\<close> one that happens to point at writable memory with contents \<open>b\<close>,
  apart from the buffers in use.
\<close>

definition write_freepage :: "superblock \<Rightarrow> 64 word \<Rightarrow> byte list option \<Rightarrow> fs_os \<Rightarrow>
  (byte list option \<times> fs_os) result" where
  "write_freepage sb nxt fp os =
     (case fp of None \<Rightarrow> Inl Bad_Pointer | Some b \<Rightarrow>
        rbind (store64 0 nxt b) (\<lambda>b1. rbind (write_buf sb b1 os) (\<lambda>(_, os1). Inr (Some b1, os1))))"

fun format_loop :: "superblock \<Rightarrow> nat list \<Rightarrow> byte list option \<Rightarrow> fs_os \<Rightarrow>
  (byte list option \<times> fs_os) result" where
  "format_loop sb [] fp os = Inr (fp, os)"
| "format_loop sb (i # is) fp os =
     rbind (write_freepage sb (of_nat i + 1) fp os) (\<lambda>(fp1, os1). format_loop sb is fp1 os1)"

text \<open>
  \<open>found\<close>: \<open>fopen\<close> can open the file.  The result is the superblock returned, \<open>None\<close> for \<open>NULL\<close>.
\<close>

definition fs_format ::
  "bool \<Rightarrow> int \<Rightarrow> (nat \<Rightarrow> byte list) \<Rightarrow> byte list option \<Rightarrow> 64 word \<Rightarrow> fs_os \<Rightarrow>
   (superblock option \<times> fs_os) result" where
  "fs_format found fd mem fp blocksize os =
     (if blocksize < MIN_BLOCK_SIZE then Inr (None, os\<lparr>errno := EINVAL_fs\<rparr>)
      else if \<not> found then Inr (None, os\<lparr>errno := ENOENT\<rparr>)
      else
        let n = of_nat (length (img os)) div blocksize in
        if n < MIN_BLOCK_COUNT then Inr (None, os\<lparr>errno := ENOSPC\<rparr>)
        else
          let bz = unat blocksize; (sb, os1) = create_superblock (fresh mem 0 bz) fd blocksize n os in
          rbind (create_root_directory (fresh mem 1 bz)) (\<lambda>root.
          rbind (store64 o_size 0 (fresh mem 2 bz)) (\<lambda>rootinfo.
          rbind (strcpy_to o_name [47] rootinfo) (\<lambda>rootinfo.
          rbind (write_buf sb (sb_bytes sb) os1) (\<lambda>(_, os2).
          rbind (write_buf sb rootinfo os2) (\<lambda>(_, os3).
          rbind (write_buf sb root os3) (\<lambda>(_, os4).
          rbind (format_loop sb [3..<unat n - 1] fp os4) (\<lambda>(fp1, os5).
          rbind (write_freepage sb 0 fp1 os5) (\<lambda>(_, os6).
          Inr (Some sb, os6))))))))))"

section \<open>Opening and closing\<close>

text \<open>\<open>sizeof(struct superblock)\<close>, with its padding.\<close>

definition SB_SIZE :: nat where
  "SB_SIZE = 56"

definition sys_close :: "int \<Rightarrow> fs_os \<Rightarrow> fs_os" where
  "sys_close fd os = (if offsets os fd = None then os\<lparr>errno := EBADF\<rparr>
                      else os\<lparr>offsets := (offsets os)(fd := None)\<rparr>)"

text \<open>The descriptor in the superblock is the one that was on disk, not the one just opened.\<close>

definition fs_open :: "int \<Rightarrow> (nat \<Rightarrow> byte list) \<Rightarrow> fs_os \<Rightarrow> (superblock option \<times> fs_os) result" where
  "fs_open fd mem os =
     (if is_fs_open os then Inr (None, os\<lparr>errno := EBUSY\<rparr>)
      else
        rbind (sys_read fd SB_SIZE (fresh mem 0 SB_SIZE) (sys_lseek fd 0 (sys_open fd os))) (\<lambda>(_, buf, os1).
        let sb = sb_of_bytes buf in
        if sb_magic sb \<noteq> MAGIC then Inr (None, (sys_close fd os1)\<lparr>errno := EBADF\<rparr>)
        else Inr (Some sb, os1\<lparr>is_fs_open := True\<rparr>)))"

definition fs_close :: "superblock \<Rightarrow> fs_os \<Rightarrow> int \<times> fs_os" where
  "fs_close sb os =
     (if sb_magic sb \<noteq> MAGIC then (-1, os\<lparr>errno := EBADF\<rparr>)
      else (0, (sys_close (sb_fd sb) os)\<lparr>is_fs_open := False\<rparr>))"

section \<open>Free blocks\<close>

text \<open>\<open>junk\<close> is what \<open>malloc\<close> finds in the memory of the page.\<close>

definition fs_get_block :: "byte list \<Rightarrow> superblock \<Rightarrow> fs_os \<Rightarrow> (64 word \<times> superblock \<times> fs_os) result" where
  "fs_get_block junk sb os =
     (if sb_freeblks sb = 0 then Inr (0, sb, os\<lparr>errno := ENOSPC\<rparr>)
      else
        let fp = fresh (\<lambda>_. junk) 0 (bsz sb);
            os1 = sys_lseek (sb_fd sb) (sb_blksz sb * sb_freelist sb) os in
        rbind (sys_read (sb_fd sb) (bsz sb) fp os1) (\<lambda>(r, fp1, os2).
        if r < 0 then Inr (- 1, sb, os2)
        else
          rbind (load64 0 fp1) (\<lambda>nxt.
          let freeblock = sb_freelist sb;
              sb1 = sb\<lparr>sb_freelist := nxt, sb_freeblks := sb_freeblks sb - 1\<rparr> in
          rbind (write_block sb1 0 (sb_bytes sb1) os2) (\<lambda>os3.
          Inr (freeblock, sb1, os3)))))"

definition fs_put_block :: "byte list \<Rightarrow> 64 word \<Rightarrow> superblock \<Rightarrow> fs_os \<Rightarrow> (int \<times> superblock \<times> fs_os) result" where
  "fs_put_block junk block sb os =
     (if sb_magic sb \<noteq> MAGIC then Inr (-1, sb, os\<lparr>errno := EBADF\<rparr>)
      else
        rbind (store64 0 (sb_freelist sb) (fresh (\<lambda>_. junk) 0 (bsz sb))) (\<lambda>fp.
        rbind (write_buf sb fp (sys_lseek (sb_fd sb) (sb_blksz sb * block) os)) (\<lambda>(r, os1).
        if r < 0 then Inr (-1, sb, os1)
        else
          let sb1 = sb\<lparr>sb_freelist := block, sb_freeblks := sb_freeblks sb + 1\<rparr> in
          rbind (write_buf sb1 (sb_bytes sb1) (sys_lseek (sb_fd sb1) 0 os1)) (\<lambda>(r2, os2).
          Inr (if r2 < 0 then -1 else 0, sb1, os2)))))"

definition write_superblock :: "superblock \<Rightarrow> fs_os \<Rightarrow> fs_os result" where
  "write_superblock sb os = write_block sb 0 (sb_bytes sb) os"

end
