(* ===== verification/Fs_Dirs.thy ===== *)
theory Fs_Dirs
  imports Fs_Blocks
begin

text \<open>
  Directories of the file system: the second part of \<open>TP 3/fs.c\<close>.  The buffers that a function
  allocates are kept in one record.  The local variable \<open>k\<close> of \<open>fs_unlink\<close>, \<open>fs_mkdir\<close> and
  \<open>fs_rmdir\<close> is never assigned; what it holds is an argument.
\<close>

record bufs =
  b_in :: "byte list"
  b_in2 :: "byte list"
  b_pin :: "byte list"
  b_info :: "byte list"
  b_info2 :: "byte list"
  b_pinfo :: "byte list"

definition fresh_bufs :: "(nat \<Rightarrow> byte list) \<Rightarrow> nat \<Rightarrow> bufs" where
  "fresh_bufs mem n = \<lparr>b_in = fresh mem 0 n, b_in2 = fresh mem 1 n, b_pin = fresh mem 2 n,
     b_info = fresh mem 3 n, b_info2 = fresh mem 4 n, b_pinfo = fresh mem 5 n\<rparr>"

section \<open>Copies\<close>

text \<open>The \<open>for\<close> loop of \<open>copy_inode\<close>, with the indices still to copy.\<close>

fun copy_links :: "nat list \<Rightarrow> byte list \<Rightarrow> byte list \<Rightarrow> byte list result" where
  "copy_links [] a b = Inr a"
| "copy_links (i # is) a b =
     rbind (load64 (o_link (int i)) b) (\<lambda>l.
     rbind (store64 (o_link (int i)) l a) (\<lambda>a1. copy_links is a1 b))"

definition copy_inode :: "byte list \<Rightarrow> byte list \<Rightarrow> byte list \<Rightarrow> byte list result" where
  "copy_inode a b c =
     rbind (load64 o_mode b) (\<lambda>mode. rbind (store64 o_mode mode a) (\<lambda>a.
     rbind (load64 o_parent b) (\<lambda>v. rbind (store64 o_parent v a) (\<lambda>a.
     rbind (load64 o_meta b) (\<lambda>v. rbind (store64 o_meta v a) (\<lambda>a.
     rbind (load64 o_next b) (\<lambda>v. rbind (store64 o_next v a) (\<lambda>a.
     if mode = IMDIR
     then rbind (load64 o_size c) (\<lambda>n. copy_links [0..<unat n] a b)
     else Inr a))))))))"

text \<open>The seven words of \<open>reserved\<close> are copied one by one.\<close>

definition copy_nodeinfo :: "byte list \<Rightarrow> byte list \<Rightarrow> byte list result" where
  "copy_nodeinfo a b =
     rbind (load64 o_size b) (\<lambda>v. rbind (store64 o_size v a) (\<lambda>a.
     rbind (fold (\<lambda>i r. rbind r (\<lambda>a. rbind (load64 (8 + 8 * int i) b) (\<lambda>v.
                  store64 (8 + 8 * int i) v a))) [0..<7] (Inr a)) (\<lambda>a.
     rbind (cstr o_name b) (\<lambda>s. strcpy_to o_name s a))))"

definition jump_to_next_dir :: "bufs \<Rightarrow> bufs result" where
  "jump_to_next_dir bs =
     rbind (copy_inode (b_in bs) (b_in2 bs) (b_info2 bs)) (\<lambda>i.
     rbind (copy_nodeinfo (b_info bs) (b_info2 bs)) (\<lambda>n. Inr (bs\<lparr>b_in := i, b_info := n\<rparr>)))"

text \<open>The other call, \<open>jump_to_next_dir(parent_in, in, parent_info, info)\<close>.\<close>

definition keep_parent :: "bufs \<Rightarrow> bufs result" where
  "keep_parent bs =
     rbind (copy_inode (b_pin bs) (b_in bs) (b_info bs)) (\<lambda>i.
     rbind (copy_nodeinfo (b_pinfo bs) (b_info bs)) (\<lambda>n. Inr (bs\<lparr>b_pin := i, b_pinfo := n\<rparr>)))"

section \<open>Reading directories\<close>

definition search_inode ::
  "superblock \<Rightarrow> byte list \<Rightarrow> int \<Rightarrow> byte list \<Rightarrow> byte list \<Rightarrow> fs_os \<Rightarrow>
   (byte list \<times> byte list \<times> fs_os) result" where
  "search_inode sb in1 k in2 info2 os =
     rbind (load64 (o_link k) in1) (\<lambda>l.
     rbind (read_block sb l in2 os) (\<lambda>(in2, os).
     rbind (load64 o_mode in2) (\<lambda>mode.
     rbind (if mode = IMCHILD
            then rbind (load64 o_parent in2) (\<lambda>p. read_block sb p in2 os)
            else Inr (in2, os)) (\<lambda>(in2, os).
     rbind (load64 o_meta in2) (\<lambda>meta.
     rbind (read_block sb meta info2 os) (\<lambda>(info2, os).
     Inr (in2, info2, os)))))))"

definition jump_to_next_inode :: "superblock \<Rightarrow> bufs \<Rightarrow> fs_os \<Rightarrow> (bufs \<times> fs_os) result" where
  "jump_to_next_inode sb bs os =
     rbind (load64 o_next (b_in bs)) (\<lambda>nxt.
     rbind (read_block sb nxt (b_in bs) os) (\<lambda>(i, os1). Inr (bs\<lparr>b_in := i\<rparr>, os1)))"

text \<open>The loop of \<open>search_file_in_directory\<close>, with \<open>n\<close> entries to go; the index is that of the match.\<close>

fun search_loop :: "superblock \<Rightarrow> byte list \<Rightarrow> nat \<Rightarrow> nat \<Rightarrow> bufs \<Rightarrow> fs_os \<Rightarrow>
  (nat option \<times> bufs \<times> fs_os) result" where
  "search_loop sb name 0 k bs os = Inr (None, bs, os)"
| "search_loop sb name (Suc n) k bs os =
     rbind (search_inode sb (b_in bs) (int k) (b_in2 bs) (b_info2 bs) os) (\<lambda>(i2, n2, os1).
     rbind (cstr o_name n2) (\<lambda>s.
     if s = name then Inr (Some k, bs\<lparr>b_in2 := i2, b_info2 := n2\<rparr>, os1)
     else search_loop sb name n (k + 1) (bs\<lparr>b_in2 := i2, b_info2 := n2\<rparr>) os1))"

definition search_file_in_directory ::
  "superblock \<Rightarrow> byte list \<Rightarrow> bufs \<Rightarrow> fs_os \<Rightarrow> (nat option \<times> bufs \<times> fs_os) result" where
  "search_file_in_directory sb name bs os =
     rbind (load64 o_size (b_info bs)) (\<lambda>n. search_loop sb name (unat n) 0 bs os)"

text \<open>
  The \<open>while (1)\<close> loop around it: it gives up in the last component or at the end of the chain
  of inodes, and goes round on a chain that is a cycle.  The result says whether it was found.
\<close>

partial_function (option) walk_level ::
  "superblock \<Rightarrow> byte list \<Rightarrow> bool \<Rightarrow> bufs \<Rightarrow> fs_os \<Rightarrow> (bool \<times> bufs \<times> fs_os) result option" where
  "walk_level sb name last_one bs os =
     (case search_file_in_directory sb name bs os of
        Inl e \<Rightarrow> Some (Inl e)
      | Inr (Some k, bs1, os1) \<Rightarrow> Some (Inr (True, bs1, os1))
      | Inr (None, bs1, os1) \<Rightarrow>
          (case load64 o_next (b_in bs1) of Inl e \<Rightarrow> Some (Inl e)
           | Inr nxt \<Rightarrow>
             if last_one \<or> nxt = 0 then Some (Inr (False, bs1, os1\<lparr>errno := ENOENT\<rparr>))
             else (case jump_to_next_inode sb bs1 os1 of Inl e \<Rightarrow> Some (Inl e)
                   | Inr (bs2, os2) \<Rightarrow> walk_level sb name last_one bs2 os2)))"

lemmas walk_level_code [code] = walk_level.simps

definition read_root :: "superblock \<Rightarrow> bufs \<Rightarrow> fs_os \<Rightarrow> (bufs \<times> fs_os) result" where
  "read_root sb bs os =
     rbind (read_block sb (sb_root sb) (b_in bs) os) (\<lambda>(i, os1).
     rbind (read_block sb 1 (b_info bs) os1) (\<lambda>(n, os2).
     Inr (bs\<lparr>b_in := i, b_info := n\<rparr>, os2)))"

section \<open>Paths\<close>

definition MAX_NAME :: nat where "MAX_NAME = 100"
definition MAX_SUBFOLDERS :: nat where "MAX_SUBFOLDERS = 100"
definition MAX_PATH_NAME :: nat where "MAX_PATH_NAME = 4000"

text \<open>\<open>strtok\<close> with the separator \<open>'/'\<close>, \<open>cur\<close> being the token read so far.\<close>

fun strtok_all :: "byte list \<Rightarrow> byte list \<Rightarrow> byte list list" where
  "strtok_all cur [] = (if cur = [] then [] else [cur])"
| "strtok_all cur (c # cs) =
     (if c = 47 then (if cur = [] then strtok_all [] cs else cur # strtok_all [] cs)
      else strtok_all (cur @ [c]) cs)"

text \<open>A path is copied to \<open>name\<close> and its components to the rows of \<open>files\<close>.\<close>

definition subfolders_to_vector :: "byte list \<Rightarrow> byte list list result" where
  "subfolders_to_vector path =
     rbind (check (length path < MAX_PATH_NAME) Out_Of_Bounds) (\<lambda>_.
     let files = strtok_all [] path in
     rbind (check (length files \<le> MAX_SUBFOLDERS \<and> (\<forall>f \<in> set files. length f < MAX_NAME))
              Out_Of_Bounds) (\<lambda>_. Inr files))"

section \<open>Making a directory\<close>

text \<open>The loop of \<open>fs_mkdir\<close> over all components but the last; \<open>None\<close> is the return of -1.\<close>

fun mkdir_walk :: "superblock \<Rightarrow> int \<Rightarrow> byte list list \<Rightarrow> 64 word \<Rightarrow> 64 word \<Rightarrow> bufs \<Rightarrow> fs_os \<Rightarrow>
  (((64 word \<times> 64 word \<times> bufs) option) \<times> fs_os) result" where
  "mkdir_walk sb k [] b0 b1 bs os = Inr (Some (b0, b1, bs), os)"
| "mkdir_walk sb k (name # names) b0 b1 bs os =
     rbind (returns (walk_level sb name (names = []) bs os)) (\<lambda>(found, bs1, os1).
     if \<not> found then Inr (None, os1) else
     rbind (if names = []
            then rbind (load64 o_meta (b_in2 bs1)) (\<lambda>m. rbind (load64 (o_link k) (b_in bs1)) (\<lambda>l. Inr (m, l)))
            else Inr (b0, b1)) (\<lambda>(b0, b1).
     rbind (jump_to_next_dir bs1) (\<lambda>bs2. mkdir_walk sb k names b0 b1 bs2 os1)))"

text \<open>\<open>j1\<close> and \<open>j2\<close>: the memory that the two \<open>fs_get_block\<close> find in their \<open>malloc\<close>.\<close>

definition make_entry ::
  "byte list \<Rightarrow> byte list \<Rightarrow> byte list \<Rightarrow> 64 word \<Rightarrow> 64 word \<Rightarrow> bufs \<Rightarrow> superblock \<Rightarrow> fs_os \<Rightarrow>
   (superblock \<times> fs_os) result" where
  "make_entry j1 j2 name b0 b1 bs sb os =
     rbind (fs_get_block j1 sb os) (\<lambda>(block_info, sb, os).
     rbind (store64 o_size 0 (b_info2 bs)) (\<lambda>info2.
     rbind (strcpy_to o_name name info2) (\<lambda>info2.
     rbind (write_block sb block_info info2 os) (\<lambda>os.
     rbind (fs_get_block j2 sb os) (\<lambda>(block_inode, sb, os).
     rbind (store64 o_mode IMDIR (b_in2 bs)) (\<lambda>in2.
     rbind (store64 o_parent block_inode in2) (\<lambda>in2.
     rbind (store64 o_meta block_info in2) (\<lambda>in2.
     rbind (store64 o_next 0 in2) (\<lambda>in2.
     rbind (write_block sb block_inode in2 os) (\<lambda>os.
     rbind (load64 o_size (b_info bs)) (\<lambda>n.
     rbind (store64 (o_link (uint n)) block_inode (b_in bs)) (\<lambda>in1.
     rbind (store64 o_size (n + 1) (b_info bs)) (\<lambda>info.
     rbind (write_block sb b0 info os) (\<lambda>os.
     rbind (write_block sb b1 in1 os) (\<lambda>os.
     rbind (write_superblock sb os) (\<lambda>os.
     Inr (sb, os)))))))))))))))))"

definition fs_mkdir ::
  "(nat \<Rightarrow> byte list) \<Rightarrow> int \<Rightarrow> byte list \<Rightarrow> superblock \<Rightarrow> fs_os \<Rightarrow> (int \<times> superblock \<times> fs_os) result" where
  "fs_mkdir mem k dname sb os =
     rbind (subfolders_to_vector dname) (\<lambda>files.
     let bs = fresh_bufs mem (bsz sb) in
     rbind (read_block sb 1 (b_info bs) os) (\<lambda>(info, os).
     rbind (read_block sb (sb_root sb) (b_in bs) os) (\<lambda>(in1, os).
     rbind (mkdir_walk sb k (butlast files) 1 2 (bs\<lparr>b_in := in1, b_info := info\<rparr>) os) (\<lambda>(r, os).
     case r of None \<Rightarrow> Inr (-1, sb, os)
     | Some (b0, b1, bs) \<Rightarrow>
         rbind (check (files \<noteq> []) Out_Of_Bounds) (\<lambda>_.
         rbind (make_entry (mem 6) (mem 7) (last files) b0 b1 bs sb os) (\<lambda>(sb, os).
         Inr (0, sb, os)))))))"

section \<open>Listing a directory\<close>

fun list_walk :: "superblock \<Rightarrow> byte list list \<Rightarrow> bufs \<Rightarrow> fs_os \<Rightarrow> (bufs option \<times> fs_os) result" where
  "list_walk sb [] bs os = Inr (Some bs, os)"
| "list_walk sb (name # names) bs os =
     rbind (returns (walk_level sb name (names = []) bs os)) (\<lambda>(found, bs1, os1).
     if \<not> found then Inr (None, os1) else
     rbind (jump_to_next_dir bs1) (\<lambda>bs2. list_walk sb names bs2 os1))"

text \<open>
  The loop that puts the names together, entry \<open>i\<close> first, \<open>n\<close> to go; \<open>elements\<close> is the string
  before \<open>pos\<close>.  Every write to it has to stay within the \<open>MAX_PATH_NAME\<close> bytes of its \<open>malloc\<close>.
\<close>

definition put_str :: "byte list \<Rightarrow> byte list \<Rightarrow> byte list result" where
  "put_str elements s = rbind (check (length elements + length s < MAX_PATH_NAME) Out_Of_Bounds) (\<lambda>_.
     Inr (elements @ s))"

fun list_loop :: "superblock \<Rightarrow> nat \<Rightarrow> nat \<Rightarrow> byte list \<Rightarrow> bufs \<Rightarrow> fs_os \<Rightarrow> (byte list \<times> fs_os) result" where
  "list_loop sb 0 i elements bs os = Inr (elements, os)"
| "list_loop sb (Suc n) i elements bs os =
     rbind (search_inode sb (b_in bs) (int i) (b_in2 bs) (b_info2 bs) os) (\<lambda>(i2, n2, os1).
     rbind (cstr o_name n2) (\<lambda>s.
     rbind (put_str elements s) (\<lambda>elements.
     rbind (load64 o_mode i2) (\<lambda>mode.
     rbind (if mode = IMDIR then put_str elements [47] else Inr elements) (\<lambda>elements.
     rbind (if n \<noteq> 0 then put_str elements [32] else Inr elements) (\<lambda>elements.
     list_loop sb n (i + 1) elements (bs\<lparr>b_in2 := i2, b_info2 := n2\<rparr>) os1))))))"

definition fs_list_dir ::
  "(nat \<Rightarrow> byte list) \<Rightarrow> byte list \<Rightarrow> superblock \<Rightarrow> fs_os \<Rightarrow> (byte list \<times> fs_os) result" where
  "fs_list_dir mem dname sb os =
     rbind (subfolders_to_vector dname) (\<lambda>files.
     rbind (read_root sb (fresh_bufs mem (bsz sb)) os) (\<lambda>(bs, os).
     rbind (list_walk sb files bs os) (\<lambda>(r, os).
     case r of None \<Rightarrow> Inr ([45, 49], os)
     | Some bs \<Rightarrow>
         rbind (load64 o_size (b_info bs)) (\<lambda>n. list_loop sb (unat n) 0 [] bs os))))"

end
