(* ===== verification/Fs_Files.thy ===== *)
theory Fs_Files
  imports Fs_Dirs
begin

text \<open>
  Removing directory entries and writing files: the rest of \<open>TP 3/fs.c\<close>.
\<close>

section \<open>Removing\<close>

text \<open>The inner \<open>while\<close> of \<open>remove_deleted_directory\<close>, moving the links from \<open>i + 1\<close> on, \<open>n\<close> of them.\<close>

fun shift_links :: "nat \<Rightarrow> nat \<Rightarrow> byte list \<Rightarrow> byte list result" where
  "shift_links 0 i b = Inr b"
| "shift_links (Suc n) i b =
     rbind (load64 (o_link (int i + 1)) b) (\<lambda>l.
     rbind (store64 (o_link (int i)) l b) (\<lambda>b1. shift_links n (i + 1) b1))"

fun remove_loop :: "64 word \<Rightarrow> nat \<Rightarrow> nat \<Rightarrow> byte list \<Rightarrow> byte list result" where
  "remove_loop blk 0 i b = Inr b"
| "remove_loop blk (Suc n) i b =
     rbind (load64 (o_link (int i)) b) (\<lambda>l.
     if l = blk then shift_links n i b else remove_loop blk n (i + 1) b)"

definition remove_deleted_directory :: "byte list \<Rightarrow> byte list \<Rightarrow> 64 word \<Rightarrow> byte list result" where
  "remove_deleted_directory parent_in parent_info blk =
     rbind (load64 o_size parent_info) (\<lambda>n. remove_loop blk (unat n) 0 parent_in)"

definition update_parent ::
  "superblock \<Rightarrow> 64 word \<Rightarrow> 64 word \<Rightarrow> byte list \<Rightarrow> byte list \<Rightarrow> fs_os \<Rightarrow> fs_os result" where
  "update_parent sb in_b info_b pin pinfo os =
     rbind (write_block sb in_b pin os) (\<lambda>os1. write_block sb info_b pinfo os1)"

text \<open>
  The loop over the components, shared by \<open>fs_unlink\<close> and \<open>fs_rmdir\<close>.  \<open>target\<close> is what is in
  \<open>blocks[0]\<close> and \<open>blocks[1]\<close>, \<open>parent\<close> are \<open>parent_info_b\<close> and \<open>parent_in_b\<close>.
\<close>

fun remove_walk :: "superblock \<Rightarrow> int \<Rightarrow> byte list list \<Rightarrow> (64 word \<times> 64 word) option \<Rightarrow> 64 word \<times> 64 word \<Rightarrow>
  bufs \<Rightarrow> fs_os \<Rightarrow> (((64 word \<times> 64 word) option \<times> (64 word \<times> 64 word) \<times> bufs) option \<times> fs_os) result" where
  "remove_walk sb k [] target parent bs os = Inr (Some (target, parent, bs), os)"
| "remove_walk sb k (name # names) target parent bs os =
     rbind (returns (walk_level sb name (names = []) bs os)) (\<lambda>(found, bs1, os1).
     if \<not> found then Inr (None, os1) else
     rbind (load64 o_meta (b_in2 bs1)) (\<lambda>m.
     rbind (load64 (o_link k) (b_in bs1)) (\<lambda>l.
     rbind (keep_parent bs1) (\<lambda>bs2.
     rbind (jump_to_next_dir bs2) (\<lambda>bs3.
     remove_walk sb k names (if names = [] then Some (m, l) else target)
       (if names = [] then parent else (m, l)) bs3 os1)))))"

text \<open>From the two \<open>fs_put_block\<close> on, the functions are the same; their results are not looked at.\<close>

definition drop_entry ::
  "byte list \<Rightarrow> byte list \<Rightarrow> (64 word \<times> 64 word) option \<Rightarrow> 64 word \<times> 64 word \<Rightarrow> bufs \<Rightarrow> superblock \<Rightarrow>
   fs_os \<Rightarrow> (int \<times> superblock \<times> fs_os) result" where
  "drop_entry j1 j2 target parent bs sb os =
     (case target of None \<Rightarrow> Inl Uninitialised | Some (b0, b1) \<Rightarrow>
        rbind (fs_put_block j1 b0 sb os) (\<lambda>(_, sb, os).
        rbind (fs_put_block j2 b1 sb os) (\<lambda>(_, sb, os).
        rbind (remove_deleted_directory (b_pin bs) (b_pinfo bs) b1) (\<lambda>pin.
        rbind (load64 o_size (b_pinfo bs)) (\<lambda>n.
        rbind (store64 o_size (n - 1) (b_pinfo bs)) (\<lambda>pinfo.
        rbind (update_parent sb (snd parent) (fst parent) pin pinfo os) (\<lambda>os.
        rbind (write_superblock sb os) (\<lambda>os. Inr (0, sb, os)))))))))"

definition fs_unlink ::
  "(nat \<Rightarrow> byte list) \<Rightarrow> int \<Rightarrow> byte list \<Rightarrow> superblock \<Rightarrow> fs_os \<Rightarrow> (int \<times> superblock \<times> fs_os) result" where
  "fs_unlink mem k fname sb os =
     rbind (subfolders_to_vector fname) (\<lambda>files.
     rbind (read_root sb (fresh_bufs mem (bsz sb)) os) (\<lambda>(bs, os).
     rbind (remove_walk sb k files None (1, 2) bs os) (\<lambda>(r, os).
     case r of None \<Rightarrow> Inr (-1, sb, os)
     | Some (target, parent, bs) \<Rightarrow> drop_entry (mem 6) (mem 7) target parent bs sb os)))"

definition fs_rmdir ::
  "(nat \<Rightarrow> byte list) \<Rightarrow> int \<Rightarrow> byte list \<Rightarrow> superblock \<Rightarrow> fs_os \<Rightarrow> (int \<times> superblock \<times> fs_os) result" where
  "fs_rmdir mem k dname sb os =
     rbind (subfolders_to_vector dname) (\<lambda>files.
     rbind (read_root sb (fresh_bufs mem (bsz sb)) os) (\<lambda>(bs, os).
     rbind (remove_walk sb k files (Some (1, 2)) (1, 2) bs os) (\<lambda>(r, os).
     case r of None \<Rightarrow> Inr (-1, sb, os)
     | Some (target, parent, bs) \<Rightarrow>
         rbind (load64 o_size (b_info bs)) (\<lambda>n.
         if n > 0 then Inr (-1, sb, os\<lparr>errno := ENOTEMPTY\<rparr>)
         else drop_entry (mem 6) (mem 7) target parent bs sb os))))"

section \<open>Numbers of blocks\<close>

text \<open>
  The conversion of a natural number to \<open>float\<close>: 24 bits of significand, ties to even.
\<close>

definition round_bits :: "nat \<Rightarrow> nat \<Rightarrow> nat" where
  "round_bits e n = (let q = n div 2 ^ e; r = 2 * (n mod 2 ^ e) in
     (if r > 2 ^ e \<or> (r = 2 ^ e \<and> odd q) then q + 1 else q) * 2 ^ e)"

fun float_exp :: "nat \<Rightarrow> nat \<Rightarrow> nat" where
  "float_exp 0 n = 0"
| "float_exp (Suc k) n = (if n < 2 ^ 24 then 0 else Suc (float_exp k (n div 2)))"

definition to_float :: "nat \<Rightarrow> nat" where
  "to_float n = round_bits (float_exp 40 n) n"

text \<open>
  \<open>(float)n / (blksz - 20.0)\<close>, cut off by the assignment to an \<open>int\<close>, and then one more when the
  whole quotient as a \<open>float\<close> is less than it; \<open>EPS\<close> is below every difference of integers.
\<close>

definition count_blocks :: "nat \<Rightarrow> superblock \<Rightarrow> nat result" where
  "count_blocks n sb =
     rbind (check (20 < bsz sb) Out_Of_Bounds) (\<lambda>_.
     let d = bsz sb - 20; c = to_float n div d in
     rbind (check (c < 2 ^ 31) Out_Of_Bounds) (\<lambda>_.
     Inr (if to_float c > to_float (n div d) then c + 1 else c)))"

section \<open>Writing a file\<close>

definition MAX_FILE_SIZE :: nat where "MAX_FILE_SIZE = 5000"

text \<open>The array \<open>blocks\<close>; an element that was not assigned is read as garbage, a fault here.\<close>

type_synonym block_array = "nat \<rightharpoonup> 64 word"

definition get_blk :: "block_array \<Rightarrow> nat \<Rightarrow> 64 word result" where
  "get_blk a i = (if i < MAX_FILE_SIZE
     then (case a i of None \<Rightarrow> Inl Uninitialised | Some b \<Rightarrow> Inr b) else Inl Out_Of_Bounds)"

definition set_blk :: "nat \<Rightarrow> 64 word \<Rightarrow> block_array \<Rightarrow> block_array result" where
  "set_blk i b a = (if i < MAX_FILE_SIZE then Inr (a(i \<mapsto> b)) else Inl Out_Of_Bounds)"

record writer =
  w_bufs :: bufs
  w_blocks :: block_array
  w_new :: bool
  w_pin_b :: "64 word"
  w_pinfo_b :: "64 word"

text \<open>The branch that makes a new file: two blocks and the entries for them in the buffers.\<close>

definition new_file ::
  "byte list \<Rightarrow> byte list \<Rightarrow> byte list \<Rightarrow> writer \<Rightarrow> superblock \<Rightarrow> fs_os \<Rightarrow> (writer \<times> superblock \<times> fs_os) result" where
  "new_file j1 j2 name w sb os =
     (let bs = w_bufs w in
      rbind (fs_get_block j1 sb os) (\<lambda>(b0, sb, os).
      rbind (strcpy_to o_name name (b_info2 bs)) (\<lambda>info2.
      rbind (store64 o_size (sb_blksz sb - 20) info2) (\<lambda>info2.
      rbind (fs_get_block j2 sb os) (\<lambda>(b1, sb, os).
      rbind (store64 o_mode IMREG (b_in2 bs)) (\<lambda>in2.
      rbind (store64 o_parent b1 in2) (\<lambda>in2.
      rbind (store64 o_meta b0 in2) (\<lambda>in2.
      rbind (store64 o_next 0 in2) (\<lambda>in2.
      Inr (w\<lparr>w_bufs := bs\<lparr>b_in2 := in2, b_info2 := info2\<rparr>,
             w_blocks := (w_blocks w)(0 \<mapsto> b0, 1 \<mapsto> b1), w_new := True\<rparr>, sb, os))))))))))"

text \<open>The branch in which the component was found at index \<open>k\<close>.\<close>

definition found_name :: "bool \<Rightarrow> nat \<Rightarrow> writer \<Rightarrow> writer result" where
  "found_name last_one k w =
     (let bs = w_bufs w in
      rbind (load64 o_meta (b_in2 bs)) (\<lambda>m.
      if last_one then
        rbind (load64 o_size (b_info bs)) (\<lambda>n.
        rbind (store64 o_size (n + 1) (b_info bs)) (\<lambda>info.
        rbind (load64 (o_link (int k)) (b_in bs)) (\<lambda>l.
        Inr (w\<lparr>w_bufs := bs\<lparr>b_info := info\<rparr>, w_blocks := (w_blocks w)(0 \<mapsto> m, 1 \<mapsto> l),
               w_new := False\<rparr>))))
      else
        rbind (copy_inode (b_pin bs) (b_in2 bs) (b_info2 bs)) (\<lambda>pin.
        rbind (copy_nodeinfo (b_pinfo bs) (b_info2 bs)) (\<lambda>pinfo.
        rbind (load64 (o_link (int k)) (b_in bs)) (\<lambda>l.
        Inr (w\<lparr>w_bufs := bs\<lparr>b_pin := pin, b_pinfo := pinfo\<rparr>, w_pin_b := l, w_pinfo_b := m\<rparr>))))))"

text \<open>The \<open>while (1)\<close> loop for one component; \<open>None\<close> as the writer is the return of -1.\<close>

partial_function (option) write_level ::
  "byte list \<Rightarrow> byte list \<Rightarrow> byte list \<Rightarrow> bool \<Rightarrow> writer \<Rightarrow> superblock \<Rightarrow> fs_os \<Rightarrow>
   (writer option \<times> superblock \<times> fs_os) result option" where
  "write_level j1 j2 name last_one w sb os =
     (case search_file_in_directory sb name (w_bufs w) os of
        Inl e \<Rightarrow> Some (Inl e)
      | Inr (Some k, bs1, os1) \<Rightarrow>
          Some (rbind (found_name last_one k (w\<lparr>w_bufs := bs1\<rparr>)) (\<lambda>w1. Inr (Some w1, sb, os1)))
      | Inr (None, bs1, os1) \<Rightarrow>
          if last_one then
            Some (rbind (new_file j1 j2 name (w\<lparr>w_bufs := bs1\<rparr>) sb os1) (\<lambda>(w1, sb1, os2).
                  Inr (Some w1, sb1, os2)))
          else
            (case load64 o_next (b_in bs1) of Inl e \<Rightarrow> Some (Inl e)
             | Inr nxt \<Rightarrow>
               if nxt = 0 then Some (Inr (None, sb, os1\<lparr>errno := ENOENT\<rparr>))
               else (case jump_to_next_inode sb bs1 os1 of Inl e \<Rightarrow> Some (Inl e)
                     | Inr (bs2, os2) \<Rightarrow> write_level j1 j2 name last_one (w\<lparr>w_bufs := bs2\<rparr>) sb os2)))"

lemmas write_level_code [code] = write_level.simps

fun write_walk ::
  "byte list \<Rightarrow> byte list \<Rightarrow> byte list list \<Rightarrow> writer \<Rightarrow> superblock \<Rightarrow> fs_os \<Rightarrow>
   (writer option \<times> superblock \<times> fs_os) result" where
  "write_walk j1 j2 [] w sb os = Inr (Some w, sb, os)"
| "write_walk j1 j2 (name # names) w sb os =
     rbind (returns (write_level j1 j2 name (names = []) w sb os)) (\<lambda>(r, sb1, os1).
     case r of None \<Rightarrow> Inr (None, sb1, os1)
     | Some w1 \<Rightarrow> rbind (jump_to_next_dir (w_bufs w1)) (\<lambda>bs.
                   write_walk j1 j2 names (w1\<lparr>w_bufs := bs\<rparr>) sb1 os1))"

text \<open>Blocks taken one after another into \<open>blocks\<close>, at the given indices.\<close>

fun take_blocks :: "(nat \<Rightarrow> byte list) \<Rightarrow> nat list \<Rightarrow> block_array \<Rightarrow> superblock \<Rightarrow> fs_os \<Rightarrow>
  (block_array \<times> superblock \<times> fs_os) result" where
  "take_blocks mem [] a sb os = Inr (a, sb, os)"
| "take_blocks mem (i # is) a sb os =
     rbind (fs_get_block (mem i) sb os) (\<lambda>(b, sb1, os1).
     rbind (set_blk i b a) (\<lambda>a1. take_blocks mem is a1 sb1 os1))"

text \<open>The blocks of a shrinking file are put back; \<open>False\<close> is the return of -1.\<close>

fun drop_blocks :: "(nat \<Rightarrow> byte list) \<Rightarrow> nat list \<Rightarrow> block_array \<Rightarrow> superblock \<Rightarrow> fs_os \<Rightarrow>
  (bool \<times> superblock \<times> fs_os) result" where
  "drop_blocks mem [] a sb os = Inr (True, sb, os)"
| "drop_blocks mem (i # is) a sb os =
     rbind (get_blk a i) (\<lambda>b.
     rbind (fs_put_block (mem i) b sb os) (\<lambda>(r, sb1, os1).
     if r \<noteq> 0 then Inr (False, sb1, os1) else drop_blocks mem is a sb1 os1))"

text \<open>
  The loop that follows the inodes of an existing file: it reads the block \<open>in->next\<close>, the same
  one every time, until its inode has no successor.
\<close>

partial_function (option) chain_loop ::
  "superblock \<Rightarrow> byte list \<Rightarrow> byte list \<Rightarrow> nat \<Rightarrow> block_array \<Rightarrow> fs_os \<Rightarrow>
   (byte list \<times> block_array \<times> fs_os) result option" where
  "chain_loop sb in1 in2 i a os =
     (case load64 o_next in2 of Inl e \<Rightarrow> Some (Inl e)
      | Inr nxt \<Rightarrow>
        if nxt = 0 then Some (Inr (in2, a, os))
        else (case rbind (load64 o_next in1) (\<lambda>b. rbind (set_blk i b a) (\<lambda>a1.
                   rbind (read_block sb b in2 os) (\<lambda>(in2, os1). Inr (in2, a1, os1)))) of
                Inl e \<Rightarrow> Some (Inl e)
              | Inr (in3, a1, os1) \<Rightarrow> chain_loop sb in1 in3 (i + 1) a1 os1))"

lemmas chain_loop_code [code] = chain_loop.simps

text \<open>
  The space for the contents: \<open>None\<close> when the function returns -1, otherwise the number of
  blocks of the file.
\<close>

definition space_new ::
  "(nat \<Rightarrow> byte list) \<Rightarrow> nat \<Rightarrow> writer \<Rightarrow> superblock \<Rightarrow> fs_os \<Rightarrow>
   ((nat \<times> writer) option \<times> superblock \<times> fs_os) result" where
  "space_new mem cnt w sb os =
     (let bs = w_bufs w in
      rbind (get_blk (w_blocks w) 1) (\<lambda>b1.
      rbind (load64 o_size (b_pinfo bs)) (\<lambda>n.
      rbind (store64 (o_link (uint n)) b1 (b_pin bs)) (\<lambda>pin.
      rbind (store64 o_size (n + 1) (b_pinfo bs)) (\<lambda>pinfo.
      rbind (count_blocks cnt sb) (\<lambda>new.
      if unat (sb_freeblks sb) < new then Inr (None, sb, os\<lparr>errno := ENOSPC\<rparr>)
      else
        rbind (take_blocks mem (map (\<lambda>i. i + 2) [0..<new - 1]) (w_blocks w) sb os) (\<lambda>(a, sb1, os1).
        Inr (Some (new, w\<lparr>w_bufs := bs\<lparr>b_pin := pin, b_pinfo := pinfo\<rparr>, w_blocks := a\<rparr>), sb1, os1))))))))"

definition space_old ::
  "(nat \<Rightarrow> byte list) \<Rightarrow> nat \<Rightarrow> writer \<Rightarrow> superblock \<Rightarrow> fs_os \<Rightarrow>
   ((nat \<times> writer) option \<times> superblock \<times> fs_os) result" where
  "space_old mem cnt w sb os =
     (let bs = w_bufs w in
      rbind (load64 o_size (b_info bs)) (\<lambda>n.
      rbind (count_blocks (unat n) sb) (\<lambda>old.
      rbind (count_blocks cnt sb) (\<lambda>new.
      rbind (copy_inode (b_in2 bs) (b_in bs) (b_info bs)) (\<lambda>in2.
      rbind (returns (chain_loop sb (b_in bs) in2 2 (w_blocks w) os)) (\<lambda>(in2, a, os1).
      let w1 = w\<lparr>w_bufs := bs\<lparr>b_in2 := in2\<rparr>\<rparr> in
      if old \<le> new then
        rbind (take_blocks mem [old + 1..<new + 1] a sb os1) (\<lambda>(a1, sb1, os2).
        Inr (Some (new, w1\<lparr>w_blocks := a1\<rparr>), sb1, os2))
      else
        rbind (drop_blocks mem (rev [new + 1..<old + 1]) a sb os1) (\<lambda>(ok, sb1, os2).
        Inr (if ok then Some (new, w1\<lparr>w_blocks := a\<rparr>) else None, sb1, os2))))))))"

text \<open>The child inodes, from block index \<open>2\<close> on.\<close>

fun write_children :: "nat list \<Rightarrow> nat \<Rightarrow> block_array \<Rightarrow> byte list \<Rightarrow> superblock \<Rightarrow> fs_os \<Rightarrow> (byte list \<times> fs_os) result" where
  "write_children [] new a in1 sb os = Inr (in1, os)"
| "write_children (i # is) new a in1 sb os =
     rbind (get_blk a (i - 1)) (\<lambda>prev.
     rbind (store64 o_meta prev in1) (\<lambda>in1.
     rbind (if i < new then get_blk a (i + 1) else Inr 0) (\<lambda>nxt.
     rbind (store64 o_next nxt in1) (\<lambda>in1.
     rbind (get_blk a i) (\<lambda>b.
     rbind (write_block sb b in1 os) (\<lambda>os1. write_children is new a in1 sb os1))))))"

text \<open>From \<open>update_parent\<close> to the last \<open>write\<close>; \<open>buf\<close> takes no part in it.\<close>

definition write_inodes :: "nat \<Rightarrow> writer \<Rightarrow> superblock \<Rightarrow> fs_os \<Rightarrow> (int \<times> fs_os) result" where
  "write_inodes new w sb os =
     (let bs = w_bufs w; a = w_blocks w in
      rbind (update_parent sb (w_pin_b w) (w_pinfo_b w) (b_pin bs) (b_pinfo bs) os) (\<lambda>os.
      rbind (get_blk a 0) (\<lambda>b0.
      rbind (write_block sb b0 (b_info bs) os) (\<lambda>os.
      rbind (store64 o_mode IMREG (b_in bs)) (\<lambda>in1.
      rbind (get_blk a 1) (\<lambda>b1.
      rbind (store64 o_parent b1 in1) (\<lambda>in1.
      rbind (store64 o_meta b0 in1) (\<lambda>in1.
      rbind (if new = 1 then Inr 0 else get_blk a 2) (\<lambda>nxt.
      rbind (store64 o_next nxt in1) (\<lambda>in1.
      rbind (write_block sb b1 in1 os) (\<lambda>os.
      rbind (store64 o_mode IMCHILD in1) (\<lambda>in1.
      rbind (store64 o_parent b1 in1) (\<lambda>in1.
      rbind (write_children [2..<new + 1] new a in1 sb os) (\<lambda>(_, os).
      rbind (write_buf sb (sb_bytes sb) (sys_lseek (sb_fd sb) 0 os)) (\<lambda>(r, os).
      Inr (if r < 0 then -1 else 0, os))))))))))))))))"

definition fs_write_file ::
  "(nat \<Rightarrow> byte list) \<Rightarrow> byte list \<Rightarrow> byte list \<Rightarrow> nat \<Rightarrow> superblock \<Rightarrow> fs_os \<Rightarrow>
   (int \<times> superblock \<times> fs_os) result" where
  "fs_write_file mem fname buf cnt sb os =
     rbind (subfolders_to_vector fname) (\<lambda>files.
     let bs = fresh_bufs mem (bsz sb) in
     rbind (read_block sb 1 (b_info bs) os) (\<lambda>(info, os).
     rbind (read_block sb 2 (b_in bs) os) (\<lambda>(in1, os).
     rbind (copy_inode (b_pin bs) in1 info) (\<lambda>pin.
     rbind (copy_nodeinfo (b_pinfo bs) info) (\<lambda>pinfo.
     let w = \<lparr>w_bufs = bs\<lparr>b_in := in1, b_info := info, b_pin := pin, b_pinfo := pinfo\<rparr>,
              w_blocks = [0 \<mapsto> 1, 1 \<mapsto> 2], w_new = False, w_pin_b = 2, w_pinfo_b = 1\<rparr> in
     rbind (write_walk (mem 6) (mem 7) files w sb os) (\<lambda>(r, sb, os).
     case r of None \<Rightarrow> Inr (-1, sb, os)
     | Some w1 \<Rightarrow>
       rbind ((if w_new w1 then space_new else space_old) (\<lambda>i. mem (8 + i)) cnt w1 sb os) (\<lambda>(r, sb, os).
       case r of None \<Rightarrow> Inr (-1, sb, os)
       | Some (new, w2) \<Rightarrow>
         rbind (write_inodes new w2 sb os) (\<lambda>(r, os). Inr (r, sb, os)))))))))"

end
