(* ===== verification/Fs_Disk.thy ===== *)
theory Fs_Disk
  imports Fs_Files
begin

text \<open>
  Rules that run the file system symbolically: what whole-block reads and writes do to the blocks
  of an image, and what loads and stores do to the fields of a buffer.
\<close>

section \<open>Fields of buffers\<close>

definition put64 :: "nat \<Rightarrow> 64 word \<Rightarrow> byte list \<Rightarrow> byte list" where
  "put64 off v b = overwrite b off (le_bytes 8 v)"

lemma length_put64 [simp]: "off + 8 \<le> length b \<Longrightarrow> length (put64 off v b) = length b"
  by (simp add: put64_def)

lemma fld_put64_same [simp]: "off + 8 \<le> length b \<Longrightarrow> fld off (put64 off v b) = v"
  by (simp add: fld_def put64_def)

lemma fld_put64_other:
  "p + 8 \<le> length b \<Longrightarrow> off + 8 \<le> length b \<Longrightarrow> off + 8 \<le> p \<or> p + 8 \<le> off \<Longrightarrow>
   fld off (put64 p v b) = fld off b"
  by (simp add: fld_def put64_def chunk_overwrite_other)

lemma drop_put64: "p + 8 \<le> off \<Longrightarrow> off \<le> length b \<Longrightarrow> drop off (put64 p v b) = drop off b"
  by (simp add: put64_def overwrite_def)

lemma load64_ok: "0 \<le> off \<Longrightarrow> off + 8 \<le> int (length b) \<Longrightarrow> load64 off b = Inr (fld (nat off) b)"
  by (simp add: load64_def)

lemma store64_ok:
  "0 \<le> off \<Longrightarrow> off + 8 \<le> int (length b) \<Longrightarrow> store64 off v b = Inr (put64 (nat off) v b)"
  by (simp add: store64_def put64_def)

lemmas field_defs = o_mode_def o_parent_def o_meta_def o_next_def o_link_def o_size_def o_name_def

lemma nat_link [simp]: "nat (32 + 8 * int k) = 32 + 8 * k"
  by (simp add: nat_add_distrib nat_mult_distrib)

lemma load_link: "40 + 8 * i \<le> length b \<Longrightarrow> load64 (o_link (int i)) b = Inr (fld (32 + 8 * i) b)"
  by (simp add: load64_ok o_link_def)

lemma store_link: "40 + 8 * i \<le> length b \<Longrightarrow> store64 (o_link (int i)) v b = Inr (put64 (32 + 8 * i) v b)"
  by (simp add: store64_ok o_link_def)

text \<open>Names: the bytes from \<open>o_name\<close> on, up to the first zero.\<close>

definition named :: "byte list \<Rightarrow> bool" where
  "named b \<longleftrightarrow> 0 \<in> set (drop 64 b)"

definition name_of :: "byte list \<Rightarrow> byte list" where
  "name_of b = takeWhile (\<lambda>c. c \<noteq> 0) (drop 64 b)"

lemma cstr_name: "named b \<Longrightarrow> cstr 64 b = Inr (name_of b)"
  by (simp add: cstr_def named_def name_of_def)

lemma name_put64 [simp]:
  "p + 8 \<le> 64 \<Longrightarrow> 64 \<le> length b \<Longrightarrow> name_of (put64 p v b) = name_of b"
  "p + 8 \<le> 64 \<Longrightarrow> 64 \<le> length b \<Longrightarrow> named (put64 p v b) = named b"
  by (simp_all add: name_of_def named_def drop_put64)

definition put_name :: "byte list \<Rightarrow> byte list \<Rightarrow> byte list" where
  "put_name s b = overwrite b 64 (s @ [0])"

lemma strcpy_name: "length s + 65 \<le> length b \<Longrightarrow> strcpy_to 64 s b = Inr (put_name s b)"
  by (simp add: strcpy_to_def put_name_def)

lemma length_put_name [simp]: "length s + 65 \<le> length b \<Longrightarrow> length (put_name s b) = length b"
  by (simp add: put_name_def)

lemma drop_put_name: "length s + 65 \<le> length b \<Longrightarrow> \<exists>r. drop 64 (put_name s b) = s @ 0 # r"
  by (simp add: put_name_def overwrite_def)

lemma named_put_name: "length s + 65 \<le> length b \<Longrightarrow> named (put_name s b)"
  using drop_put_name [of s b] by (auto simp: named_def)

lemma name_put_name: "length s + 65 \<le> length b \<Longrightarrow> 0 \<notin> set s \<Longrightarrow> name_of (put_name s b) = s"
  using drop_put_name [of s b] by (auto simp: name_of_def takeWhile_append)

lemma fld_put_name:
  "length s + 65 \<le> length b \<Longrightarrow> off + 8 \<le> 64 \<Longrightarrow> fld off (put_name s b) = fld off b"
  by (simp add: fld_def put_name_def chunk_overwrite_other)

lemma length_fresh [simp]: "length (fresh mem i n) = n"
  by (simp add: fresh_def)

section \<open>Blocks of the image\<close>

definition disk :: "nat \<Rightarrow> fs_os \<Rightarrow> 64 word \<Rightarrow> byte list" where
  "disk n os b = chunk (unat b * n) n (img os)"

text \<open>What a descriptor's reads and writes of block \<open>b\<close> leave behind.\<close>

definition moved :: "int \<Rightarrow> nat \<Rightarrow> 64 word \<Rightarrow> fs_os \<Rightarrow> fs_os" where
  "moved fd n b os = os\<lparr>offsets := (offsets os)(fd \<mapsto> unat b * n + n)\<rparr>"

definition put_disk :: "int \<Rightarrow> nat \<Rightarrow> 64 word \<Rightarrow> byte list \<Rightarrow> fs_os \<Rightarrow> fs_os" where
  "put_disk fd n b buf os = (moved fd n b os)\<lparr>img := overwrite (img os) (unat b * n) buf\<rparr>"

text \<open>
  The image holds all the blocks that the superblock speaks of and the descriptor is open;
  \<open>fits n blks os\<close> keeps offsets within what \<open>lseek\<close> takes.
\<close>

definition fits :: "nat \<Rightarrow> 64 word \<Rightarrow> fs_os \<Rightarrow> bool" where
  "fits n blks os \<longleftrightarrow> 128 \<le> n \<and> unat blks * n \<le> length (img os) \<and> length (img os) < 2 ^ 63"

definition mounted :: "superblock \<Rightarrow> fs_os \<Rightarrow> bool" where
  "mounted sb os \<longleftrightarrow> sb_magic sb = MAGIC \<and> length (sb_rest sb) = bsz sb - 52 \<and>
     3 \<le> sb_blks sb \<and> offsets os (sb_fd sb) \<noteq> None \<and> fits (bsz sb) (sb_blks sb) os"

lemma block_inside:
  assumes "fits n blks os" "b < blks"
  shows "unat b * n + n \<le> length (img os)"
  using assms page_fits [of "unat b" "unat blks" n "length (img os)"] by (simp add: fits_def word_less_nat_alt)

lemma disk_moved [simp]: "disk n (moved fd m c os) b = disk n os b"
  by (simp add: disk_def moved_def)

lemma fits_moved [simp]: "fits n blks (moved fd m c os) = fits n blks os"
  by (simp add: fits_def moved_def)

lemma fits_put [simp]:
  "fits n blks os \<Longrightarrow> c < blks \<Longrightarrow> length buf = n \<Longrightarrow> fits n blks (put_disk fd n c buf os)"
  using block_inside [of n blks os c] by (simp add: fits_def put_disk_def)

lemma disk_put:
  assumes "fits n blks os" "c < blks" "b < blks" "length buf = n"
  shows "disk n (put_disk fd n c buf os) b = (if b = c then buf else disk n os b)"
proof (cases "b = c")
  case True
  with assms block_inside [of n blks os c] show ?thesis by (simp add: disk_def put_disk_def)
next
  case False
  then have "unat b \<noteq> unat c" by (simp add: word_unat_eq_iff)
  from pages_disjoint [OF this, of n] False assms block_inside [of n blks os c]
    block_inside [of n blks os b]
  show ?thesis by (simp add: disk_def put_disk_def chunk_overwrite_other)
qed

lemma length_disk [simp]: "fits n blks os \<Longrightarrow> b < blks \<Longrightarrow> length (disk n os b) = n"
  using block_inside [of n blks os b] by (simp add: disk_def)

lemma offsets_kept [simp]:
  "offsets (moved fd n b os) g = None \<longleftrightarrow> g \<noteq> fd \<and> offsets os g = None"
  "offsets (put_disk fd n b buf os) g = None \<longleftrightarrow> g \<noteq> fd \<and> offsets os g = None"
  by (simp_all add: moved_def put_disk_def)

lemma flags_kept [simp]:
  "is_fs_open (moved fd n b os) = is_fs_open os" "is_fs_open (put_disk fd n b buf os) = is_fs_open os"
  "errno (moved fd n b os) = errno os" "errno (put_disk fd n b buf os) = errno os"
  by (simp_all add: moved_def put_disk_def)

lemma mounted_moved [simp]: "mounted sb os \<Longrightarrow> mounted sb (moved fd n b os)"
  by (simp add: mounted_def)

lemma mounted_put [simp]:
  "mounted sb os \<Longrightarrow> b < sb_blks sb \<Longrightarrow> length buf = bsz sb \<Longrightarrow>
   mounted sb (put_disk fd (bsz sb) b buf os)"
  by (simp add: mounted_def)

lemma mountedD:
  assumes "mounted sb os"
  shows "fits (bsz sb) (sb_blks sb) os" "offsets os (sb_fd sb) \<noteq> None" "128 \<le> bsz sb"
    "length (sb_rest sb) = bsz sb - 52" "0 < sb_blks sb" "1 < sb_blks sb" "2 < sb_blks sb"
  using assms by (auto simp: mounted_def fits_def word_le_nat_alt word_less_nat_alt)

lemma disk_put_block [simp]:
  "mounted sb os \<Longrightarrow> c < sb_blks sb \<Longrightarrow> b < sb_blks sb \<Longrightarrow> length buf = bsz sb \<Longrightarrow>
   disk (bsz sb) (put_disk fd (bsz sb) c buf os) b = (if b = c then buf else disk (bsz sb) os b)"
  by (rule disk_put [OF mountedD(1)])

lemma length_disk_block [simp]:
  "mounted sb os \<Longrightarrow> b < sb_blks sb \<Longrightarrow> length (disk (bsz sb) os b) = bsz sb"
  by (rule length_disk [OF mountedD(1)])

section \<open>Reads and writes of whole blocks\<close>

lemma offset_of_block:
  assumes "mounted sb os" "b < sb_blks sb"
  shows "unat (b * sb_blksz sb) = unat b * bsz sb" "0 \<le> sint (b * sb_blksz sb)"
proof -
  have lt: "unat b * bsz sb < 2 ^ 63"
    using block_inside [OF mountedD(1) [OF assms(1)] assms(2)] assms(1)
    by (simp add: mounted_def fits_def)
  then show u: "unat (b * sb_blksz sb) = unat b * bsz sb"
    by (simp add: unat_word_ariths bsz_def)
  have "int (unat (b * sb_blksz sb)) < int (2 ^ 63)"
    using lt by (simp only: u of_nat_less_iff)
  then have "uint (b * sb_blksz sb) < 2 ^ 63"
    by (simp only: uint_nat of_nat_power of_nat_numeral)
  then have "signed_take_bit 63 (uint (b * sb_blksz sb)) = uint (b * sb_blksz sb)"
    by (intro signed_take_bit_int_eq_self order.trans [OF _ uint_ge_0]) simp_all
  then show "0 \<le> sint (b * sb_blksz sb)"
    by (simp only: sint_uint) simp
qed

lemma sys_lseek_block:
  assumes "mounted sb os" "b < sb_blks sb"
  shows "sys_lseek (sb_fd sb) (b * sb_blksz sb) os =
    os\<lparr>offsets := (offsets os)(sb_fd sb \<mapsto> unat b * bsz sb)\<rparr>"
  using offset_of_block [OF assms] mountedD(2) [OF assms(1)]
  by (auto simp: sys_lseek_def)

text \<open>The descriptor on block \<open>b\<close>, after \<open>lseek\<close>.\<close>

definition sought :: "int \<Rightarrow> nat \<Rightarrow> 64 word \<Rightarrow> fs_os \<Rightarrow> fs_os" where
  "sought fd n b os = os\<lparr>offsets := (offsets os)(fd \<mapsto> unat b * n)\<rparr>"

lemma lseek_ok:
  assumes "mounted sb os" "b < sb_blks sb"
  shows "sys_lseek (sb_fd sb) (b * sb_blksz sb) os = sought (sb_fd sb) (bsz sb) b os"
    and "sys_lseek (sb_fd sb) (sb_blksz sb * b) os = sought (sb_fd sb) (bsz sb) b os"
  using sys_lseek_block [OF assms] by (simp_all add: sought_def mult.commute)

lemma lseek_start:
  assumes "mounted sb os"
  shows "sys_lseek (sb_fd sb) 0 os = sought (sb_fd sb) (bsz sb) 0 os"
  using lseek_ok(1) [OF assms mountedD(5) [OF assms]] by simp

lemma sys_read_ok:
  assumes "fits n blks os" "b < blks" "length buf = n"
  shows "sys_read fd n buf (sought fd n b os) = Inr (int n, disk n os b, moved fd n b os)"
  using assms block_inside [OF assms(1,2)]
  by (simp add: sys_read_def sought_def moved_def disk_def overwrite_def)

lemma sys_write_ok:
  assumes "fits n blks os" "b < blks" "length buf = n"
  shows "sys_write fd buf (sought fd n b os) = (int n, put_disk fd n b buf os)"
  using assms block_inside [OF assms(1,2)]
  by (simp add: sys_write_def sought_def put_disk_def moved_def poke_def)

lemma read_block_ok:
  assumes "mounted sb os" "b < sb_blks sb" "length buf = bsz sb"
  shows "read_block sb b buf os = Inr (disk (bsz sb) os b, moved (sb_fd sb) (bsz sb) b os)"
  using lseek_ok(1) [OF assms(1,2)] sys_read_ok [OF mountedD(1) [OF assms(1)] assms(2,3)]
  by (simp add: read_block_def)

lemma write_buf_ok:
  assumes "mounted sb os" "b < sb_blks sb" "length buf = bsz sb"
  shows "write_buf sb buf (sought (sb_fd sb) (bsz sb) b os) =
    Inr (int (bsz sb), put_disk (sb_fd sb) (bsz sb) b buf os)"
  using sys_write_ok [OF mountedD(1) [OF assms(1)] assms(2,3)] assms(3)
  by (simp add: write_buf_def)

lemma write_block_ok:
  assumes "mounted sb os" "b < sb_blks sb" "length buf = bsz sb"
  shows "write_block sb b buf os = Inr (put_disk (sb_fd sb) (bsz sb) b buf os)"
  using lseek_ok(1) [OF assms(1,2)] write_buf_ok [OF assms] by (simp add: write_block_def)

lemma length_sb_bytes: "mounted sb os \<Longrightarrow> length (sb_bytes sb) = bsz sb"
  using mountedD(3,4) [of sb os] by (simp add: sb_bytes_def)

lemma write_superblock_ok:
  assumes "mounted sb os"
  shows "write_superblock sb os = Inr (put_disk (sb_fd sb) (bsz sb) 0 (sb_bytes sb) os)"
  using write_block_ok [OF assms mountedD(5) [OF assms] length_sb_bytes [OF assms]]
  by (simp add: write_superblock_def)

text \<open>The superblock's own list of free blocks takes no part in this.\<close>

lemma bsz_update [simp]:
  "bsz (sb\<lparr>sb_freelist := x\<rparr>) = bsz sb" "bsz (sb\<lparr>sb_freeblks := y\<rparr>) = bsz sb"
  by (simp_all add: bsz_def)

lemma mounted_update [simp]:
  "mounted (sb\<lparr>sb_freelist := x\<rparr>) os = mounted sb os"
  "mounted (sb\<lparr>sb_freeblks := y\<rparr>) os = mounted sb os"
  by (simp_all add: mounted_def)

end
