(* ===== verification/Fs_Alloc.thy ===== *)
theory Fs_Alloc
  imports Fs_Disk
begin

text \<open>
  The list of free blocks: a stack whose links are the first words of the blocks themselves.
\<close>

section \<open>The interface\<close>

text \<open>
  What the rest of the file system needs of \<open>fs_get_block\<close> and \<open>fs_put_block\<close>.  \<open>rep s xs\<close>
  says that the free blocks are \<open>xs\<close>, \<open>bytes s b\<close> are the contents of block \<open>b\<close>; both
  operations are given what their \<open>malloc\<close> finds in memory.
\<close>

datatype block_op = Get "byte list" | Put "byte list" "64 word"

locale block_store =
  fixes get :: "byte list \<Rightarrow> 's \<Rightarrow> (64 word \<times> 's) result"
    and put :: "byte list \<Rightarrow> 64 word \<Rightarrow> 's \<Rightarrow> (int \<times> 's) result"
    and rep :: "'s \<Rightarrow> 64 word list \<Rightarrow> bool"
    and legal :: "'s \<Rightarrow> 64 word \<Rightarrow> bool"
    and bytes :: "'s \<Rightarrow> 64 word \<Rightarrow> byte list"
  assumes get_some: "rep s (x # xs) \<Longrightarrow> \<exists>s'. get j s = Inr (x, s') \<and> rep s' xs \<and>
        legal s' = legal s \<and> legal s x \<and> (\<forall>b. legal s b \<longrightarrow> bytes s' b = bytes s b)"
    and get_none: "rep s [] \<Longrightarrow> \<exists>s'. get j s = Inr (0, s') \<and> rep s' [] \<and>
        legal s' = legal s \<and> (\<forall>b. legal s b \<longrightarrow> bytes s' b = bytes s b)"
    and put_block: "rep s xs \<Longrightarrow> legal s b \<Longrightarrow> b \<notin> set xs \<Longrightarrow>
        \<exists>s'. put j b s = Inr (0, s') \<and> rep s' (b # xs) \<and> legal s' = legal s \<and>
        (\<forall>c. legal s c \<longrightarrow> c \<noteq> b \<longrightarrow> bytes s' c = bytes s c)"
begin

end

text \<open>The same operations on a list, and a run of them on a store.\<close>

fun run_stack :: "block_op list \<Rightarrow> 64 word list \<Rightarrow> 64 word list \<times> 64 word list" where
  "run_stack [] xs = ([], xs)"
| "run_stack (Get j # ops) [] = (let (rs, ys) = run_stack ops [] in (0 # rs, ys))"
| "run_stack (Get j # ops) (x # xs) = (let (rs, ys) = run_stack ops xs in (x # rs, ys))"
| "run_stack (Put j b # ops) xs = (let (rs, ys) = run_stack ops (b # xs) in (0 # rs, ys))"

fun run_store :: "(byte list \<Rightarrow> 's \<Rightarrow> (64 word \<times> 's) result) \<Rightarrow> (byte list \<Rightarrow> 64 word \<Rightarrow> 's \<Rightarrow> (int \<times> 's) result) \<Rightarrow>
  block_op list \<Rightarrow> 's \<Rightarrow> (64 word list \<times> 's) result" where
  "run_store get put [] s = Inr ([], s)"
| "run_store get put (Get j # ops) s =
     rbind (get j s) (\<lambda>(b, s1). rbind (run_store get put ops s1) (\<lambda>(rs, s2). Inr (b # rs, s2)))"
| "run_store get put (Put j b # ops) s =
     rbind (put j b s) (\<lambda>(r, s1). rbind (run_store get put ops s1) (\<lambda>(rs, s2). Inr (of_int r # rs, s2)))"

text \<open>Only blocks in use are put back, and only legal ones.\<close>

fun puts_ok :: "(64 word \<Rightarrow> bool) \<Rightarrow> block_op list \<Rightarrow> 64 word list \<Rightarrow> bool" where
  "puts_ok lg [] xs = True"
| "puts_ok lg (Get j # ops) xs = puts_ok lg ops (tl xs)"
| "puts_ok lg (Put j b # ops) xs = (lg b \<and> b \<notin> set xs \<and> puts_ok lg ops (b # xs))"

definition put_blocks :: "block_op list \<Rightarrow> 64 word set" where
  "put_blocks ops = {b. \<exists>j. Put j b \<in> set ops}"

context block_store begin

lemma run_refines_stack:
  assumes "rep s xs" "puts_ok (legal s) ops xs"
  shows "\<exists>s'. run_store get put ops s = Inr (fst (run_stack ops xs), s') \<and>
    rep s' (snd (run_stack ops xs)) \<and> legal s' = legal s \<and>
    (\<forall>b. legal s b \<longrightarrow> b \<notin> put_blocks ops \<longrightarrow> bytes s' b = bytes s b)"
  using assms
proof (induction ops xs arbitrary: s rule: run_stack.induct)
  case (1 xs)
  then show ?case by simp
next
  case (2 j ops)
  from get_none [OF 2(2), where j = j] obtain s1 where s1: "get j s = Inr (0, s1)" "rep s1 []"
    "legal s1 = legal s" "\<forall>b. legal s b \<longrightarrow> bytes s1 b = bytes s b" by blast
  from 2 s1 have "puts_ok (legal s1) ops []" by simp
  from 2(1) [OF s1(2) this] s1 show ?case
    by (auto simp: put_blocks_def split: prod.splits)
next
  case (3 j ops x xs)
  from get_some [OF 3(2), where j = j] obtain s1 where s1: "get j s = Inr (x, s1)" "rep s1 xs"
    "legal s1 = legal s" "\<forall>b. legal s b \<longrightarrow> bytes s1 b = bytes s b" by blast
  from 3 s1 have "puts_ok (legal s1) ops xs" by simp
  from 3(1) [OF s1(2) this] s1 show ?case
    by (auto simp: put_blocks_def split: prod.splits)
next
  case (4 j b ops xs)
  then have "legal s b" "b \<notin> set xs" by simp_all
  from put_block [OF 4(2) this, where j = j] obtain s1 where s1: "put j b s = Inr (0, s1)" "rep s1 (b # xs)"
    "legal s1 = legal s" "\<forall>c. legal s c \<longrightarrow> c \<noteq> b \<longrightarrow> bytes s1 c = bytes s c" by blast
  from 4 s1 have "puts_ok (legal s1) ops (b # xs)" by simp
  from 4(1) [OF s1(2) this] s1 show ?case
    by (auto simp: put_blocks_def split: prod.splits)
qed

lemma get_then_put:
  assumes "rep s (x # xs)" "distinct (x # xs)"
  shows "\<exists>s1 s2. get j s = Inr (x, s1) \<and> put i x s1 = Inr (0, s2) \<and> rep s2 (x # xs)"
proof -
  from get_some [OF assms(1), where j = j] obtain s1 where s1: "get j s = Inr (x, s1)" "rep s1 xs" "legal s1 x"
    by force
  with put_block [OF s1(2,3), where j = i] assms(2) show ?thesis by auto
qed

end

section \<open>The chain of free blocks\<close>

fun chain :: "nat \<Rightarrow> fs_os \<Rightarrow> 64 word \<Rightarrow> 64 word list \<Rightarrow> bool" where
  "chain n os b [] = (b = 0)"
| "chain n os b (x # xs) = (b = x \<and> chain n os (fld 0 (disk n os x)) xs)"

definition free_list :: "superblock \<Rightarrow> fs_os \<Rightarrow> 64 word list \<Rightarrow> bool" where
  "free_list sb os xs \<longleftrightarrow> mounted sb os \<and> chain (bsz sb) os (sb_freelist sb) xs \<and> distinct xs \<and>
     (\<forall>x \<in> set xs. x \<noteq> 0 \<and> x < sb_blks sb) \<and> unat (sb_freeblks sb) = length xs"

lemma chain_cong:
  "\<forall>x \<in> set xs. disk n os' x = disk n os x \<Longrightarrow> chain n os' b xs = chain n os b xs"
  by (induction xs arbitrary: b) simp_all

lemma chain_first: "chain n os b xs \<Longrightarrow> b = (case xs of [] \<Rightarrow> 0 | x # _ \<Rightarrow> x)"
  by (cases xs) simp_all

lemma free_listD:
  assumes "free_list sb os xs"
  shows "mounted sb os" "chain (bsz sb) os (sb_freelist sb) xs" "distinct xs"
    "x \<in> set xs \<Longrightarrow> x \<noteq> 0 \<and> x < sb_blks sb" "unat (sb_freeblks sb) = length xs"
  using assms by (simp_all add: free_list_def)

lemma card_unat: "distinct xs \<Longrightarrow> length xs = card (unat ` set (xs :: 64 word list))"
proof -
  assume "distinct xs"
  then have "distinct (map unat xs)" by (simp add: distinct_map inj_on_def word_unat_eq_iff)
  from distinct_card [OF this] show ?thesis by simp
qed

lemma length_free_list:
  assumes "free_list sb os xs"
  shows "length xs < unat (sb_blks sb)"
proof -
  have "length xs = card (unat ` set xs)"
    using free_listD(3) [OF assms] by (rule card_unat)
  also have "\<dots> \<le> card {1..<unat (sb_blks sb)}"
    using free_listD(4) [OF assms]
    by (intro card_mono) (auto simp: word_less_nat_alt unat_gt_0 Suc_le_eq)
  finally show ?thesis using mountedD(5) [OF free_listD(1) [OF assms]]
    by (simp add: word_less_nat_alt)
qed

section \<open>Taking and returning blocks\<close>

definition took :: "superblock \<Rightarrow> 64 word list \<Rightarrow> superblock" where
  "took sb xs = sb\<lparr>sb_freelist := (case xs of [] \<Rightarrow> 0 | x # _ \<Rightarrow> x), sb_freeblks := of_nat (length xs)\<rparr>"

lemma took_simps [simp]:
  "bsz (took sb xs) = bsz sb" "sb_blks (took sb xs) = sb_blks sb" "sb_fd (took sb xs) = sb_fd sb"
  "sb_root (took sb xs) = sb_root sb" "sb_magic (took sb xs) = sb_magic sb"
  "mounted (took sb xs) os = mounted sb os" "took (took sb ys) xs = took sb xs"
  "sb_blksz (took sb xs) = sb_blksz sb"
  by (simp_all add: took_def bsz_def mounted_def)

text \<open>Writing the superblock: the image with new bytes in block 0.\<close>

definition sync :: "superblock \<Rightarrow> fs_os \<Rightarrow> fs_os" where
  "sync sb os = put_disk (sb_fd sb) (bsz sb) 0 (sb_bytes sb) os"

lemma disk_sync [simp]:
  "mounted sb os \<Longrightarrow> b < sb_blks sb \<Longrightarrow> n = bsz sb \<Longrightarrow>
   disk n (sync sb os) b = (if b = 0 then sb_bytes sb else disk n os b)"
  using mountedD(5) [of sb os]
  by (simp add: sync_def disk_put [OF mountedD(1)] length_sb_bytes)

lemma mounted_sync [simp]: "mounted sb os \<Longrightarrow> mounted sb (sync sb os)"
  by (simp add: sync_def mountedD length_sb_bytes)

lemma sync_write: "mounted sb os \<Longrightarrow> write_block sb 0 (sb_bytes sb) os = Inr (sync sb os)"
  using write_superblock_ok [of sb os] by (simp add: write_superblock_def sync_def)

lemma free_list_took:
  assumes "mounted sb os" "chain (bsz sb) os b xs" "distinct xs"
    "\<forall>x \<in> set xs. x \<noteq> 0 \<and> x < sb_blks sb"
  shows "free_list (took sb xs) os xs"
proof -
  have eq: "chain (bsz sb) os (case xs of [] \<Rightarrow> 0 | x # _ \<Rightarrow> x) xs"
    using assms(2) by (cases xs) simp_all
  have "length xs = card (unat ` set xs)"
    using assms(3) by (rule card_unat)
  also have "\<dots> \<le> card {..<unat (sb_blks sb)}"
    using assms(4) by (intro card_mono) (auto simp: word_less_nat_alt)
  also have "\<dots> < 2 ^ 64" using unsigned_less [of "sb_blks sb"] by simp
  finally show ?thesis using assms eq
    by (simp add: free_list_def took_def unat_of_nat bsz_def mounted_def)
qed

lemma free_list_sync:
  assumes "free_list sb os xs"
  shows "free_list sb (sync sb os) xs"
  using assms chain_cong [of xs "bsz sb" "sync sb os" os]
  by (simp add: free_list_def)

lemma fs_get_block_ok:
  assumes "free_list sb os (x # xs)"
  shows "fs_get_block junk sb os =
      Inr (x, took sb xs, sync (took sb xs) (moved (sb_fd sb) (bsz sb) x os))"
    and "free_list (took sb xs) (sync (took sb xs) (moved (sb_fd sb) (bsz sb) x os)) xs"
proof -
  note m = free_listD(1) [OF assms]
  from assms have x: "x < sb_blks sb" "sb_freelist sb = x" "sb_freeblks sb \<noteq> 0"
    and rest: "chain (bsz sb) os (fld 0 (disk (bsz sb) os x)) xs"
    by (auto simp: free_list_def)
  have nxt: "fld 0 (disk (bsz sb) os x) = (case xs of [] \<Rightarrow> 0 | y # _ \<Rightarrow> y)"
    using chain_first [OF rest] .
  have "sb_freeblks sb = of_nat (unat (sb_freeblks sb))" by simp
  then have num: "sb_freeblks sb - 1 = of_nat (length xs)"
    by (simp only: free_listD(5) [OF assms]) simp
  have sb1: "sb\<lparr>sb_freelist := fld 0 (disk (bsz sb) os x), sb_freeblks := sb_freeblks sb - 1\<rparr> = took sb xs"
    by (simp add: took_def nxt num)
  have len: "8 \<le> int (length (disk (bsz sb) os x))"
    using mountedD(1,3) [OF m] x(1) by simp
  show "fs_get_block junk sb os =
      Inr (x, took sb xs, sync (took sb xs) (moved (sb_fd sb) (bsz sb) x os))"
    using m x len mountedD(1) [OF m]
    by (simp add: fs_get_block_def lseek_ok(2) sys_read_ok load64_ok sb1 sync_write Let_def)
  show "free_list (took sb xs) (sync (took sb xs) (moved (sb_fd sb) (bsz sb) x os)) xs"
    using m chain_cong [of xs "bsz sb" "moved (sb_fd sb) (bsz sb) x os" os] rest
      free_listD(3,4) [OF assms]
    by (intro free_list_sync free_list_took [where b = "fld 0 (disk (bsz sb) os x)"]) simp_all
qed

lemma fs_get_block_empty:
  assumes "free_list sb os []"
  shows "fs_get_block junk sb os = Inr (0, sb, os\<lparr>errno := ENOSPC\<rparr>)"
  using free_listD(5) [OF assms] by (simp add: fs_get_block_def unat_eq_0)

lemma fs_put_block_ok:
  assumes "free_list sb os xs" "b \<noteq> 0" "b < sb_blks sb" "b \<notin> set xs"
  shows "\<exists>fp. fld 0 fp = sb_freelist sb \<and> length fp = bsz sb \<and>
      fs_put_block junk b sb os =
        Inr (0, took sb (b # xs), sync (took sb (b # xs)) (put_disk (sb_fd sb) (bsz sb) b fp os)) \<and>
      free_list (took sb (b # xs))
        (sync (took sb (b # xs)) (put_disk (sb_fd sb) (bsz sb) b fp os)) (b # xs)"
proof (intro exI conjI)
  note m = free_listD(1) [OF assms(1)]
  let ?fp = "put64 0 (sb_freelist sb) (fresh (\<lambda>_. junk) 0 (bsz sb))"
  let ?os = "put_disk (sb_fd sb) (bsz sb) b ?fp os"
  have n: "8 \<le> bsz sb" using mountedD(3) [OF m] by simp
  show fld: "fld 0 ?fp = sb_freelist sb" and len: "length ?fp = bsz sb" using n by simp_all
  have other: "\<forall>x \<in> set xs. disk (bsz sb) ?os x = disk (bsz sb) os x"
    using assms(4) free_listD(4) [OF assms(1)] len
    by (auto simp: disk_put [OF mountedD(1) [OF m] assms(3)])
  have m1: "mounted sb ?os" using m assms(3) len by simp
  have chain: "chain (bsz sb) ?os b (b # xs)"
    using free_listD(2) [OF assms(1)] chain_cong [OF other] fld len assms(3)
    by (simp add: disk_put [OF mountedD(1) [OF m] assms(3,3)])
  have "sb_freeblks sb = of_nat (unat (sb_freeblks sb))" by simp
  then have "sb_freeblks sb + 1 = of_nat (length (b # xs))"
    by (simp only: free_listD(5) [OF assms(1)]) simp
  then have sb1: "sb\<lparr>sb_freelist := b, sb_freeblks := sb_freeblks sb + 1\<rparr> = took sb (b # xs)"
    by (simp add: took_def)
  have fl: "free_list (took sb (b # xs)) ?os (b # xs)"
    using m1 chain assms free_listD(3,4) [OF assms(1)] by (intro free_list_took) auto
  then show "free_list (took sb (b # xs)) (sync (took sb (b # xs)) ?os) (b # xs)"
    by (rule free_list_sync)
  have w: "write_buf (took sb (b # xs)) (sb_bytes (took sb (b # xs)))
      (sys_lseek (sb_fd sb) 0 ?os) = Inr (int (bsz sb), sync (took sb (b # xs)) ?os)"
    using write_buf_ok [of "took sb (b # xs)" ?os 0] length_sb_bytes [of "took sb (b # xs)" ?os]
      lseek_start [OF m1] m1 mountedD(5) [OF m] by (simp add: sync_def)
  show "fs_put_block junk b sb os = Inr (0, took sb (b # xs), sync (took sb (b # xs)) ?os)"
    using m n len assms(3) w
    by (simp add: fs_put_block_def store64_ok lseek_ok(2) write_buf_ok sb1 Let_def)
       (simp add: mounted_def)
qed

definition legal_block :: "superblock \<times> fs_os \<Rightarrow> 64 word \<Rightarrow> bool" where
  "legal_block s b \<longleftrightarrow> b \<noteq> 0 \<and> b < sb_blks (fst s)"

definition get_of :: "byte list \<Rightarrow> superblock \<times> fs_os \<Rightarrow> (64 word \<times> superblock \<times> fs_os) result" where
  "get_of j s = fs_get_block j (fst s) (snd s)"

definition put_of :: "byte list \<Rightarrow> 64 word \<Rightarrow> superblock \<times> fs_os \<Rightarrow> (int \<times> superblock \<times> fs_os) result" where
  "put_of j b s = fs_put_block j b (fst s) (snd s)"

text \<open>The descriptor and the size of the blocks belong to the state, the bytes are those of the image.\<close>

definition bytes_of :: "superblock \<times> fs_os \<Rightarrow> 64 word \<Rightarrow> byte list" where
  "bytes_of s b = disk (bsz (fst s)) (snd s) b"

interpretation fl: block_store get_of put_of "\<lambda>s. free_list (fst s) (snd s)" legal_block bytes_of
proof (unfold_locales, goal_cases)
  case (1 s x xs j)
  note m = free_listD(1) [OF 1]
  show ?case using fs_get_block_ok(1) [OF 1, of j] fs_get_block_ok(2) [OF 1] m free_listD(4) [OF 1, of x]
    by (auto simp: get_of_def legal_block_def bytes_of_def fun_eq_iff)
next
  case (2 s j)
  then have "free_list (fst s) ((snd s)\<lparr>errno := ENOSPC\<rparr>) []"
    by (simp add: free_list_def mounted_def fits_def)
  with 2 show ?case
    by (auto simp: get_of_def fs_get_block_empty legal_block_def bytes_of_def disk_def)
next
  case (3 s xs b j)
  then have b: "b \<noteq> 0" "b < sb_blks (fst s)" by (simp_all add: legal_block_def)
  note m = free_listD(1) [OF 3(1)]
  from fs_put_block_ok [OF 3(1) b 3(3), of j] show ?case
    using m b by (auto simp: put_of_def legal_block_def bytes_of_def fun_eq_iff disk_put mountedD)
qed

end
