(* ===== verification/Fs_Root.thy ===== *)
theory Fs_Root
  imports Fs_Alloc
begin

text \<open>
  What a file system with entries in its root directory looks like on disk, and how an operation
  that adds an entry changes it.
\<close>

section \<open>Steps\<close>

text \<open>The rules of \<open>Fs_Disk\<close> and \<open>Fs_Alloc\<close>, by what can be read from the image afterwards.\<close>

definition same_disk :: "superblock \<Rightarrow> fs_os \<Rightarrow> fs_os \<Rightarrow> bool" where
  "same_disk sb os os' \<longleftrightarrow> mounted sb os' \<and> (\<forall>b < sb_blks sb. disk (bsz sb) os' b = disk (bsz sb) os b)"

definition disk_upd :: "superblock \<Rightarrow> 64 word \<Rightarrow> byte list \<Rightarrow> fs_os \<Rightarrow> fs_os \<Rightarrow> bool" where
  "disk_upd sb c buf os os' \<longleftrightarrow> mounted sb os' \<and>
     (\<forall>b < sb_blks sb. disk (bsz sb) os' b = (if b = c then buf else disk (bsz sb) os b))"

lemma same_disk_refl: "mounted sb os \<Longrightarrow> same_disk sb os os"
  by (simp add: same_disk_def)

lemma same_disk_errno: "same_disk sb os (os'\<lparr>errno := e\<rparr>) = same_disk sb os os'"
  by (simp add: same_disk_def mounted_def fits_def disk_def)

lemma same_disk_set_errno: "mounted sb os \<Longrightarrow> same_disk sb os (os\<lparr>errno := e\<rparr>)"
  by (simp add: same_disk_errno same_disk_refl)

lemma same_disk_trans: "same_disk sb os os1 \<Longrightarrow> same_disk sb os1 os2 \<Longrightarrow> same_disk sb os os2"
  by (simp add: same_disk_def)

lemma same_disk_mounted: "same_disk sb os os' \<Longrightarrow> mounted sb os'"
  by (simp add: same_disk_def)

lemma same_diskD: "same_disk sb os os' \<Longrightarrow> b < sb_blks sb \<Longrightarrow> disk (bsz sb) os' b = disk (bsz sb) os b"
  by (simp add: same_disk_def)

lemma read_step:
  assumes "mounted sb os" "b < sb_blks sb" "length buf = bsz sb"
  shows "\<exists>os'. read_block sb b buf os = Inr (disk (bsz sb) os b, os') \<and> same_disk sb os os'"
  using assms by (auto simp: read_block_ok same_disk_def)

lemma write_step:
  assumes "mounted sb os" "b < sb_blks sb" "length buf = bsz sb"
  shows "\<exists>os'. write_block sb b buf os = Inr os' \<and> disk_upd sb b buf os os'"
  using assms by (auto simp: write_block_ok disk_upd_def)

lemma get_step:
  assumes "free_list sb os (x # xs)"
  shows "\<exists>os'. fs_get_block junk sb os = Inr (x, took sb xs, os') \<and> free_list (took sb xs) os' xs \<and>
    disk_upd sb 0 (sb_bytes (took sb xs)) os os'"
  using fs_get_block_ok(1) [OF assms, of junk] fs_get_block_ok(2) [OF assms] free_listD(1) [OF assms]
    free_listD(1) [OF fs_get_block_ok(2) [OF assms]]
  by (auto simp: disk_upd_def)

lemma disk_upd_took [simp]: "disk_upd (took sb xs) = disk_upd sb"
  by (simp add: disk_upd_def fun_eq_iff)

lemma same_disk_took [simp]: "same_disk (took sb xs) = same_disk sb"
  by (simp add: same_disk_def fun_eq_iff)

lemma disk_upd_mounted: "disk_upd sb c buf os os' \<Longrightarrow> mounted sb os'"
  by (simp add: disk_upd_def)

lemma disk_updD:
  "disk_upd sb c buf os os' \<Longrightarrow> b < sb_blks sb \<Longrightarrow>
   disk (bsz sb) os' b = (if b = c then buf else disk (bsz sb) os b)"
  by (simp add: disk_upd_def)

lemma free_list_upd:
  assumes "free_list sb os xs" "disk_upd sb c buf os os'" "c \<notin> set xs"
  shows "free_list sb os' xs"
  using assms free_listD(4) [OF assms(1)] chain_cong [of xs "bsz sb" os' os]
  by (auto simp: free_list_def disk_upd_def)

lemma free_list_same:
  assumes "free_list sb os xs" "same_disk sb os os'"
  shows "free_list sb os' xs"
  using assms free_listD(4) [OF assms(1)] chain_cong [of xs "bsz sb" os' os]
  by (auto simp: free_list_def same_disk_def)

section \<open>The root directory\<close>

definition meta_of :: "nat \<Rightarrow> fs_os \<Rightarrow> 64 word \<Rightarrow> 64 word" where
  "meta_of n os l = fld 16 (disk n os l)"

text \<open>The name and the mode of the entry whose inode is block \<open>l\<close>.\<close>

definition entry_of :: "nat \<Rightarrow> fs_os \<Rightarrow> 64 word \<Rightarrow> byte list \<times> 64 word" where
  "entry_of n os l = (name_of (disk n os (meta_of n os l)), fld 0 (disk n os l))"

definition entry_ok :: "superblock \<Rightarrow> fs_os \<Rightarrow> 64 word list \<Rightarrow> 64 word \<Rightarrow> bool" where
  "entry_ok sb os xs l \<longleftrightarrow> (\<forall>b \<in> {l, meta_of (bsz sb) os l}. 2 < b \<and> b < sb_blks sb \<and> b \<notin> set xs) \<and>
     fld 0 (disk (bsz sb) os l) \<noteq> IMCHILD \<and> named (disk (bsz sb) os (meta_of (bsz sb) os l))"

text \<open>The buffers \<open>info\<close> and \<open>ino\<close> hold a directory with the inodes \<open>ls\<close>; \<open>c\<close> is the block of its nodeinfo.\<close>

definition dir_at :: "nat \<Rightarrow> 64 word \<Rightarrow> byte list \<Rightarrow> byte list \<Rightarrow> 64 word list \<Rightarrow> bool" where
  "dir_at n c info ino ls \<longleftrightarrow> fld 0 ino = IMDIR \<and> fld 16 ino = c \<and> fld 24 ino = 0 \<and> named info \<and>
     unat (fld 0 info) = length ls \<and> 32 + 8 * length ls \<le> n \<and>
     (\<forall>i < length ls. fld (32 + 8 * i) ino = ls ! i)"

text \<open>The blocks 1 and 2 hold the root.\<close>

abbreviation root_dir :: "nat \<Rightarrow> byte list \<Rightarrow> byte list \<Rightarrow> 64 word list \<Rightarrow> bool" where
  "root_dir n \<equiv> dir_at n 1"

definition volume :: "superblock \<Rightarrow> fs_os \<Rightarrow> 64 word list \<Rightarrow> 64 word list \<Rightarrow> bool" where
  "volume sb os xs ls \<longleftrightarrow> free_list sb os xs \<and> (\<forall>x \<in> set xs. 2 < x) \<and> sb_root sb = 2 \<and>
     disk (bsz sb) os 0 = sb_bytes sb \<and>
     root_dir (bsz sb) (disk (bsz sb) os 1) (disk (bsz sb) os 2) ls \<and>
     (\<forall>l \<in> set ls. entry_ok sb os xs l) \<and> distinct (ls @ map (meta_of (bsz sb) os) ls)"

definition entries :: "superblock \<Rightarrow> fs_os \<Rightarrow> 64 word list \<Rightarrow> (byte list \<times> 64 word) list" where
  "entries sb os ls = map (entry_of (bsz sb) os) ls"

lemma volumeD:
  assumes "volume sb os xs ls"
  shows "free_list sb os xs" "mounted sb os" "x \<in> set xs \<Longrightarrow> 2 < x" "sb_root sb = 2"
    "disk (bsz sb) os 0 = sb_bytes sb"
    "root_dir (bsz sb) (disk (bsz sb) os 1) (disk (bsz sb) os 2) ls"
    "l \<in> set ls \<Longrightarrow> entry_ok sb os xs l" "distinct (ls @ map (meta_of (bsz sb) os) ls)"
  using assms by (simp_all add: volume_def free_list_def)

lemma volume_low: "volume sb os xs ls \<Longrightarrow> b \<le> 2 \<Longrightarrow> b \<notin> set xs"
  using volumeD(3) [of sb os xs ls b] by (auto simp: not_less [symmetric])

lemma volume_blocks:
  assumes "volume sb os xs ls" "b \<in> set xs"
  shows "b < sb_blks sb" "2 < b" "b \<noteq> 0" "b \<noteq> 1" "b \<noteq> 2"
  using volumeD(3) [OF assms] volume_low [OF assms(1), of b] assms(2)
    free_listD(4) [OF volumeD(1) [OF assms(1)] assms(2)] by auto

lemma root_dirD:
  assumes "dir_at n c info ino ls"
  shows "fld 0 ino = IMDIR" "fld 16 ino = c" "fld 24 ino = 0" "named info"
    "unat (fld 0 info) = length ls" "32 + 8 * length ls \<le> n"
    "i < length ls \<Longrightarrow> fld (32 + 8 * i) ino = ls ! i"
  using assms by (simp_all add: dir_at_def)

lemma entry_okD:
  assumes "entry_ok sb os xs l"
  shows "2 < l" "l < sb_blks sb" "l \<notin> set xs" "2 < meta_of (bsz sb) os l"
    "meta_of (bsz sb) os l < sb_blks sb" "meta_of (bsz sb) os l \<notin> set xs"
    "fld 0 (disk (bsz sb) os l) \<noteq> IMCHILD" "named (disk (bsz sb) os (meta_of (bsz sb) os l))"
  using assms by (simp_all add: entry_ok_def)

text \<open>Entries do not change when only the superblock, the root and free blocks are written.\<close>

lemma entry_kept:
  assumes "entry_ok sb os xs l"
    and "\<forall>b < sb_blks sb. 2 < b \<longrightarrow> b \<notin> set xs \<longrightarrow> disk (bsz sb) os' b = disk (bsz sb) os b"
  shows "entry_of (bsz sb) os' l = entry_of (bsz sb) os l"
    and "set ys \<subseteq> set xs \<Longrightarrow> entry_ok sb os' ys l"
    and "meta_of (bsz sb) os' l = meta_of (bsz sb) os l"
  using assms entry_okD [OF assms(1)] by (auto simp: entry_ok_def entry_of_def meta_of_def)

lemma metas_cong:
  assumes "\<And>l. l \<in> set ls \<Longrightarrow> f l = g l"
  shows "distinct (ls @ map f ls) = distinct (ls @ map g ls)"
proof -
  have "map f ls = map g ls" using assms by simp
  then show ?thesis by (simp only:)
qed

lemma volume_add:
  assumes v: "volume sb os (zs @ xs) ls"
    and fl: "free_list (took sb xs) os' xs"
    and sup: "disk (bsz sb) os' 0 = sb_bytes (took sb xs)"
    and same: "\<forall>b < sb_blks sb. 2 < b \<longrightarrow> b \<notin> set zs \<longrightarrow> disk (bsz sb) os' b = disk (bsz sb) os b"
    and root: "root_dir (bsz sb) (disk (bsz sb) os' 1) (disk (bsz sb) os' 2) (ls @ [y])"
    and xy: "x \<noteq> y"
    and y: "x \<in> set zs" "y \<in> set zs" "fld 0 (disk (bsz sb) os' y) = mode" "mode \<noteq> IMCHILD"
      "fld 16 (disk (bsz sb) os' y) = x"
    and x: "named (disk (bsz sb) os' x)" "name_of (disk (bsz sb) os' x) = nm"
  shows "volume (took sb xs) os' xs (ls @ [y])"
    and "entries (took sb xs) os' (ls @ [y]) = entries sb os ls @ [(nm, mode)]"
proof -
  have in_zs: "b \<in> set zs \<Longrightarrow> 2 < b \<and> b < sb_blks sb \<and> b \<notin> set xs" for b
    using volumeD(3) [OF v, of b] free_listD(3) [OF volumeD(1) [OF v]]
      free_listD(4) [OF volumeD(1) [OF v], of b] by auto
  have entry: "entry_ok sb os' xs y" and new: "entry_of (bsz sb) os' y = (nm, mode)"
    using y x in_zs by (auto simp: entry_ok_def entry_of_def meta_of_def)
  have old: "entry_ok sb os' xs l" "entry_of (bsz sb) os' l = entry_of (bsz sb) os l"
    "meta_of (bsz sb) os' l = meta_of (bsz sb) os l" if "l \<in> set ls" for l
    using entry_kept(1,3) [OF volumeD(7) [OF v that], where os' = os']
      entry_kept(2) [OF volumeD(7) [OF v that], where os' = os' and ys = xs] same by auto
  have eq: "entry_ok (took sb xs) os' xs = entry_ok sb os' xs"
    by (simp add: fun_eq_iff entry_ok_def)
  have fresh: "y \<notin> set (ls @ map (meta_of (bsz sb) os') ls)" "x \<notin> set (ls @ map (meta_of (bsz sb) os') ls)"
    using y(1,2) entry_okD(3,6) [OF volumeD(7) [OF v]] old(3) by fastforce+
  have "distinct (ls @ map (meta_of (bsz sb) os') ls)"
    using volumeD(8) [OF v] metas_cong [of ls "meta_of (bsz sb) os'"] old(3) by metis
  moreover have "meta_of (bsz sb) os' y = x" using y(5) by (simp add: meta_of_def)
  ultimately have "distinct ((ls @ [y]) @ map (meta_of (bsz sb) os') (ls @ [y]))"
    using fresh xy by simp
  then show "volume (took sb xs) os' xs (ls @ [y])"
    using fl sup root entry old(1) volumeD(3,4) [OF v] by (auto simp: volume_def eq)
  show "entries (took sb xs) os' (ls @ [y]) = entries sb os ls @ [(nm, mode)]"
    using old(2) new by (simp add: entries_def)
qed

lemma volume_same:
  assumes v: "volume sb os xs ls" and same: "same_disk sb os os'"
  shows "volume sb os' xs ls" "entries sb os' ls = entries sb os ls"
proof -
  have keep: "entry_ok sb os' xs l" "entry_of (bsz sb) os' l = entry_of (bsz sb) os l"
    "meta_of (bsz sb) os' l = meta_of (bsz sb) os l" if "l \<in> set ls" for l
    using entry_kept(1,3) [OF volumeD(7) [OF v that], where os' = os']
      entry_kept(2) [OF volumeD(7) [OF v that], where os' = os' and ys = xs] same
    by (auto simp: same_disk_def)
  have "distinct (ls @ map (meta_of (bsz sb) os') ls)"
    using volumeD(8) [OF v] metas_cong [of ls "meta_of (bsz sb) os'"] keep(3) by metis
  then show "volume sb os' xs ls"
    using free_list_same [OF volumeD(1) [OF v] same] keep(1) volumeD(3,4,5,6,8) [OF v]
      same_diskD [OF same] mountedD(5,6,7) [OF volumeD(2) [OF v]] by (simp add: volume_def)
  show "entries sb os' ls = entries sb os ls"
    using keep(2) by (simp add: entries_def)
qed

text \<open>The two buffers of the root when an entry is appended.\<close>

lemma unat_suc: "unat w < k \<Longrightarrow> k < 2 ^ 64 \<Longrightarrow> unat (w + 1 :: 64 word) = unat w + 1"
  by (simp add: unat_word_ariths)

lemma root_grown:
  assumes r: "dir_at n c info ino ls" and len: "length info = n" "length ino = n" "128 \<le> n" "n < 2 ^ 64"
    and room: "40 + 8 * length ls \<le> n"
  shows "dir_at n c (put64 0 (fld 0 info + 1) info) (put64 (32 + 8 * length ls) y ino) (ls @ [y])"
proof -
  note d = root_dirD [OF r]
  have "unat (fld 0 info + 1) = length ls + 1"
    using unat_suc [of "fld 0 info" n] d(5) room len(4) by simp
  moreover have "fld (32 + 8 * i) (put64 (32 + 8 * length ls) y ino) = (ls @ [y]) ! i"
    if "i < length (ls @ [y])" for i
    using that d(7) [of i] room len by (cases "i = length ls") (auto simp: nth_append fld_put64_other)
  ultimately show ?thesis
    using d room len by (simp add: dir_at_def fld_put64_other)
qed

lemma bsz_bound: "bsz sb < 2 ^ 64"
  unfolding bsz_def by (rule less_le_trans [OF unsigned_less]) simp

lemma root_grown_disk:
  assumes v: "volume sb os xs ls" and room: "40 + 8 * length ls \<le> bsz sb"
  shows "root_dir (bsz sb) (put64 0 (fld 0 (disk (bsz sb) os 1) + 1) (disk (bsz sb) os 1))
    (put64 (32 + 8 * length ls) y (disk (bsz sb) os 2)) (ls @ [y])"
proof -
  note m = volumeD(2) [OF v]
  show ?thesis
    by (rule root_grown [OF volumeD(6) [OF v] length_disk_block [OF m mountedD(6) [OF m]]
          length_disk_block [OF m mountedD(7) [OF m]] mountedD(3) [OF m] bsz_bound room])
qed

section \<open>Searching the root\<close>

text \<open>Buffers that hold the root directory.\<close>

definition buffers :: "nat \<Rightarrow> bufs \<Rightarrow> bool" where
  "buffers n bs \<longleftrightarrow> length (b_in bs) = n \<and> length (b_in2 bs) = n \<and> length (b_pin bs) = n \<and>
     length (b_info bs) = n \<and> length (b_info2 bs) = n \<and> length (b_pinfo bs) = n"

lemma search_inode_ok:
  assumes m: "mounted sb os" and e: "entry_ok sb os xs l"
    and k: "32 + 8 * k + 8 \<le> length in1" "fld (32 + 8 * k) in1 = l"
    and len: "length in2 = bsz sb" "length info2 = bsz sb"
  shows "\<exists>os'. search_inode sb in1 (int k) in2 info2 os =
      Inr (disk (bsz sb) os l, disk (bsz sb) os (meta_of (bsz sb) os l), os') \<and> same_disk sb os os'"
proof -
  note d = entry_okD [OF e]
  have b: "32 \<le> bsz sb" using mountedD(3) [OF m] by simp
  from read_step [OF m d(2) len(1)] obtain os1 where
    os1: "read_block sb l in2 os = Inr (disk (bsz sb) os l, os1)" "same_disk sb os os1" by blast
  have l: "load64 (o_link (int k)) in1 = Inr l"
    using k by (simp add: load64_ok field_defs nat_add_distrib nat_mult_distrib)
  from read_step [OF same_disk_mounted [OF os1(2)] d(5) len(2)] obtain os2 where
    os2: "read_block sb (meta_of (bsz sb) os l) info2 os1 =
      Inr (disk (bsz sb) os1 (meta_of (bsz sb) os l), os2)" "same_disk sb os1 os2" by blast
  have "search_inode sb in1 (int k) in2 info2 os =
      Inr (disk (bsz sb) os l, disk (bsz sb) os (meta_of (bsz sb) os l), os2)"
    using os1 os2 l b d m same_diskD [OF os1(2) d(5)]
    by (simp add: search_inode_def load64_ok field_defs flip: meta_of_def)
  with same_disk_trans [OF os1(2) os2(2)] show ?thesis by blast
qed

end
