(* ===== verification/Fs_Open.thy ===== *)
theory Fs_Open
  imports Fs_Root
begin

text \<open>
  Opening a file system and using what \<open>fs_open\<close> returns.
\<close>

lemma chunk_append: "k + m \<le> j \<Longrightarrow> chunk k m (take j b) = chunk k m b"
  by (simp add: chunk_def drop_take min_def)

lemma fd_bytes: "- (2 ^ 31) \<le> fd \<Longrightarrow> fd < 2 ^ 31 \<Longrightarrow>
  sint (of_le (le_bytes 4 (word_of_int fd :: 32 word)) :: 32 word) = fd"
  by (simp add: int_word_sint)

text \<open>The first 56 bytes of a superblock, read back.\<close>

lemma sb_read_back:
  assumes fd: "- (2 ^ 31) \<le> sb_fd sb" "sb_fd sb < 2 ^ 31" and len: "4 \<le> length (sb_rest sb)"
  shows "sb_of_bytes (take SB_SIZE (sb_bytes sb)) = sb\<lparr>sb_rest := take 4 (sb_rest sb)\<rparr>"
proof -
  let ?b = "sb_bytes sb"
  have fields: "fld 0 ?b = sb_magic sb" "fld 8 ?b = sb_blks sb" "fld 16 ?b = sb_blksz sb"
    "fld 24 ?b = sb_freeblks sb" "fld 32 ?b = sb_freelist sb" "fld 40 ?b = sb_root sb"
    by (simp_all add: fld_def chunk_def sb_bytes_def)
  have fd4: "chunk 48 4 ?b = le_bytes 4 (word_of_int (sb_fd sb) :: 32 word)"
    by (simp add: chunk_def sb_bytes_def)
  have cut: "fld k (take SB_SIZE ?b) = fld k ?b" if "k + 8 \<le> SB_SIZE" for k
    using that by (simp add: fld_def chunk_append)
  have rest: "drop 52 (take SB_SIZE ?b) = take 4 (sb_rest sb)"
    using len by (simp add: drop_take SB_SIZE_def sb_bytes_def)
  have "chunk 48 4 (take SB_SIZE ?b) = chunk 48 4 ?b"
    by (rule chunk_append) (simp add: SB_SIZE_def)
  then show ?thesis
    using fields cut rest fd4 fd_bytes [OF fd] by (simp add: sb_of_bytes_def SB_SIZE_def)
qed

text \<open>What \<open>fs_open\<close> returns: the superblock in an allocation of its own size.\<close>

definition handle :: "superblock \<Rightarrow> superblock" where
  "handle sb = sb\<lparr>sb_rest := take 4 (sb_rest sb)\<rparr>"

lemma handle_simps [simp]:
  "bsz (handle sb) = bsz sb" "sb_fd (handle sb) = sb_fd sb" "sb_magic (handle sb) = sb_magic sb"
  "sb_blksz (handle sb) = sb_blksz sb" "sb_freeblks (handle sb) = sb_freeblks sb"
  "sb_freelist (handle sb) = sb_freelist sb" "sb_blks (handle sb) = sb_blks sb" "sb_root (handle sb) = sb_root sb"
  by (simp_all add: handle_def bsz_def)

lemma fs_open_ok:
  assumes v: "volume sb os xs ls" and closed: "\<not> is_fs_open os" and fd: "0 \<le> fd"
    and range: "- (2 ^ 31) \<le> sb_fd sb" "sb_fd sb < 2 ^ 31"
  shows "fs_open fd mem os = Inr (Some (handle sb),
    os\<lparr>offsets := (offsets os)(fd \<mapsto> SB_SIZE), is_fs_open := True\<rparr>)"
proof -
  note m = volumeD(2) [OF v] note n = mountedD(3) [OF m]
  let ?data = "take SB_SIZE (sb_bytes sb)"
  have "take SB_SIZE (take (bsz sb) (img os)) = take SB_SIZE (img os)"
    using n by (simp add: SB_SIZE_def min_def)
  moreover have "take (bsz sb) (img os) = sb_bytes sb"
    using volumeD(5) [OF v] by (simp add: disk_def chunk_def)
  ultimately have data: "chunk 0 SB_SIZE (img os) = ?data" by (simp add: chunk_def)
  have len: "length ?data = SB_SIZE" using length_sb_bytes [OF m] n by (simp add: SB_SIZE_def)
  have "sys_read fd SB_SIZE (fresh mem 0 SB_SIZE) (sys_lseek fd 0 (sys_open fd os)) =
      Inr (int SB_SIZE, ?data, os\<lparr>offsets := (offsets os)(fd \<mapsto> SB_SIZE)\<rparr>)"
    using fd len by (simp add: sys_read_def sys_lseek_def sys_open_def data overwrite_def)
  moreover have "sb_of_bytes ?data = handle sb"
    using sb_read_back [OF range] m n by (simp add: mounted_def handle_def)
  ultimately show ?thesis
    using closed m by (simp add: fs_open_def mounted_def)
qed

lemma handle_bytes:
  assumes "mounted sb os"
  shows "length (sb_bytes (handle sb)) = SB_SIZE" "length (sb_bytes (handle sb\<lparr>sb_freelist := x, sb_freeblks := y\<rparr>)) = SB_SIZE"
  using assms mountedD(3) [OF assms] by (simp_all add: sb_bytes_def handle_def SB_SIZE_def mounted_def)

text \<open>Any operation that writes the superblock reads past that allocation.\<close>

lemma get_overreads:
  assumes v: "volume sb os (x # xs) ls"
  shows "fs_get_block junk (handle sb) os = Inl Out_Of_Bounds"
proof -
  note m = volumeD(2) [OF v] note n = mountedD(3) [OF m] note fl = volumeD(1) [OF v]
  from fl have x: "x < sb_blks sb" "sb_freelist sb = x" "sb_freeblks sb \<noteq> 0" by (auto simp: free_list_def)
  have "load64 0 (disk (bsz sb) os x) = Inr (fld 0 (disk (bsz sb) os x))"
    using m x(1) n by (simp add: load64_ok)
  moreover have "\<not> bsz sb \<le> SB_SIZE" using n by (simp add: SB_SIZE_def)
  ultimately show ?thesis
    using x lseek_ok(2) [OF m x(1)] sys_read_ok [OF mountedD(1) [OF m] x(1)] handle_bytes(2) [OF m]
    by (simp add: fs_get_block_def write_block_def write_buf_def Let_def)
qed

lemma put_overreads:
  assumes v: "volume sb os xs ls" and b: "b < sb_blks sb"
  shows "fs_put_block junk b (handle sb) os = Inl Out_Of_Bounds"
proof -
  note m = volumeD(2) [OF v] note n = mountedD(3) [OF m]
  let ?fp = "put64 0 (sb_freelist sb) (fresh (\<lambda>_. junk) 0 (bsz sb))"
  have fp: "store64 0 (sb_freelist sb) (fresh (\<lambda>_. junk) 0 (bsz sb)) = Inr ?fp" "length ?fp = bsz sb"
    using n by (simp_all add: store64_ok)
  have w: "write_buf (handle sb) ?fp (sought (sb_fd sb) (bsz sb) b os) =
      Inr (int (bsz sb), put_disk (sb_fd sb) (bsz sb) b ?fp os)"
    using write_buf_ok [OF m b fp(2)] by (simp add: write_buf_def)
  have "\<not> bsz sb \<le> SB_SIZE" using n by (simp add: SB_SIZE_def)
  then show ?thesis
    using m fp(1) w lseek_ok(2) [OF m b] handle_bytes(2) [OF m]
    by (simp add: fs_put_block_def Let_def mounted_def) (simp add: write_buf_def)
qed

end
