(* ===== verification/Fs_Paths.thy ===== *)
theory Fs_Paths
  imports Fs_Dirs
begin

text \<open>
  Paths: \<open>subfolders_to_vector\<close> against the pieces between the slashes.
\<close>

fun pieces :: "'a \<Rightarrow> 'a list \<Rightarrow> 'a list list" where
  "pieces s [] = [[]]"
| "pieces s (c # cs) = (if c = s then [] # pieces s cs
                        else (c # hd (pieces s cs)) # tl (pieces s cs))"

lemma pieces_not_Nil [simp]: "pieces s cs \<noteq> []"
  by (cases cs) simp_all

lemma strtok_pieces:
  "strtok_all cur cs = filter (\<lambda>t. t \<noteq> []) ((cur @ hd (pieces 47 cs)) # tl (pieces 47 cs))"
proof (induction cur cs rule: strtok_all.induct)
  case (1 cur)
  then show ?case by simp
next
  case (2 cur c cs)
  have "hd (pieces 47 cs) # tl (pieces 47 cs) = pieces 47 cs" by simp
  then have eq: "filter (\<lambda>t. t \<noteq> []) (hd (pieces 47 cs) # tl (pieces 47 cs)) = filter (\<lambda>t. t \<noteq> []) (pieces 47 cs)"
    by (rule arg_cong)
  show ?case using 2 eq by (cases "c = 47"; cases "cur = []") (simp_all split: if_splits)
qed

lemma components_are_pieces: "strtok_all [] cs = filter (\<lambda>t. t \<noteq> []) (pieces 47 cs)"
proof -
  have "hd (pieces 47 cs) # tl (pieces 47 cs) = pieces 47 cs" by simp
  then show ?thesis using strtok_pieces [of "[]" cs] by (simp only: append_Nil)
qed

lemma subfolders_pieces:
  "subfolders_to_vector path =
    (let files = filter (\<lambda>t. t \<noteq> []) (pieces 47 path) in
     if length path < MAX_PATH_NAME \<and> length files \<le> MAX_SUBFOLDERS \<and> (\<forall>f \<in> set files. length f < MAX_NAME)
     then Inr files else Inl Out_Of_Bounds)"
  by (auto simp: subfolders_to_vector_def components_are_pieces check_def Let_def)

text \<open>The path with given components.\<close>

definition path_of :: "byte list list \<Rightarrow> byte list" where
  "path_of fs = concat (map (\<lambda>f. 47 # f) fs)"

lemma strtok_token: "47 \<notin> set f \<Longrightarrow> strtok_all cur (f @ cs) = strtok_all (cur @ f) cs"
  by (induction f arbitrary: cur) simp_all

lemma strtok_path: "\<forall>f \<in> set fs. f \<noteq> [] \<and> 47 \<notin> set f \<Longrightarrow>
  strtok_all cur (path_of fs) = (if cur = [] then fs else cur # fs)"
  by (induction fs arbitrary: cur) (simp_all add: path_of_def strtok_token)

lemma subfolders_path:
  assumes "\<forall>f \<in> set fs. f \<noteq> [] \<and> 47 \<notin> set f \<and> length f < MAX_NAME"
    and "length fs \<le> MAX_SUBFOLDERS" "length (path_of fs) < MAX_PATH_NAME"
  shows "subfolders_to_vector (path_of fs) = Inr fs"
  using assms strtok_path [of fs "[]"] by (simp add: subfolders_to_vector_def)

end
