(* ===== verification/Fs_Make.thy ===== *)
theory Fs_Make
  imports Fs_Root
begin

text \<open>
  Making a directory in the root.
\<close>

lemma buffers_update [simp]:
  "buffers n bs \<Longrightarrow> length a = n \<Longrightarrow> buffers n (bs\<lparr>b_in := a\<rparr>)"
  "buffers n bs \<Longrightarrow> length a = n \<Longrightarrow> buffers n (bs\<lparr>b_in2 := a\<rparr>)"
  "buffers n bs \<Longrightarrow> length a = n \<Longrightarrow> buffers n (bs\<lparr>b_pin := a\<rparr>)"
  "buffers n bs \<Longrightarrow> length a = n \<Longrightarrow> buffers n (bs\<lparr>b_info := a\<rparr>)"
  "buffers n bs \<Longrightarrow> length a = n \<Longrightarrow> buffers n (bs\<lparr>b_info2 := a\<rparr>)"
  "buffers n bs \<Longrightarrow> length a = n \<Longrightarrow> buffers n (bs\<lparr>b_pinfo := a\<rparr>)"
  by (simp_all add: buffers_def)

lemma length_buffers [simp]:
  "buffers n bs \<Longrightarrow> length (b_in bs) = n" "buffers n bs \<Longrightarrow> length (b_in2 bs) = n"
  "buffers n bs \<Longrightarrow> length (b_pin bs) = n" "buffers n bs \<Longrightarrow> length (b_info bs) = n"
  "buffers n bs \<Longrightarrow> length (b_info2 bs) = n" "buffers n bs \<Longrightarrow> length (b_pinfo bs) = n"
  by (simp_all add: buffers_def)

lemma buffers_fresh: "buffers n (fresh_bufs mem n)"
  by (simp add: buffers_def fresh_bufs_def)

text \<open>The inode and the nodeinfo of the new directory.\<close>

definition new_info :: "byte list \<Rightarrow> 64 word \<Rightarrow> byte list \<Rightarrow> byte list" where
  "new_info nm v b = put_name nm (put64 0 v b)"

definition new_inode :: "64 word \<Rightarrow> 64 word \<Rightarrow> 64 word \<Rightarrow> byte list \<Rightarrow> byte list" where
  "new_inode mode y x b = put64 24 0 (put64 16 x (put64 8 y (put64 0 mode b)))"

lemma modes [simp]: "IMDIR \<noteq> IMCHILD" "IMREG \<noteq> IMCHILD" "IMREG \<noteq> IMDIR"
  by (simp_all add: IMDIR_def IMCHILD_def IMREG_def)

lemma new_info_fields:
  assumes "length nm + 65 \<le> length b" "0 \<notin> set nm"
  shows "length (new_info nm v b) = length b" "fld 0 (new_info nm v b) = v"
    "named (new_info nm v b)" "name_of (new_info nm v b) = nm"
  using assms by (simp_all add: new_info_def fld_put_name named_put_name name_put_name)

lemma new_inode_fields:
  assumes "32 \<le> length b"
  shows "length (new_inode mode y x b) = length b" "fld 0 (new_inode mode y x b) = mode"
    "fld 8 (new_inode mode y x b) = y"
    "fld 16 (new_inode mode y x b) = x" "fld 24 (new_inode mode y x b) = 0"
  using assms by (simp_all add: new_inode_def fld_put64_other)

text \<open>\<open>p\<close> and \<open>c\<close> are the inode and the nodeinfo of the parent, which the buffers hold.\<close>

lemma make_entry_at:
  assumes fl: "free_list sb os (x # y # xs)" and zero: "0 \<notin> set (x # y # xs)"
    and bs: "buffers (bsz sb) bs" "unat (fld 0 (b_info bs)) = k"
    and nm: "0 \<notin> set nm" "length nm + 65 \<le> bsz sb" and room: "40 + 8 * k \<le> bsz sb"
    and pc: "p < sb_blks sb" "c < sb_blks sb" "p \<noteq> c" "p \<noteq> 0" "c \<noteq> 0" "p \<notin> set (x # y # xs)" "c \<notin> set (x # y # xs)"
  shows "\<exists>os'. make_entry j1 j2 nm c p bs sb os = Inr (took sb xs, os') \<and>
    free_list (took sb xs) os' xs \<and>
    (\<forall>b < sb_blks sb. disk (bsz sb) os' b =
      (if b = 0 then sb_bytes (took sb xs)
       else if b = c then put64 0 (fld 0 (b_info bs) + 1) (b_info bs)
       else if b = p then put64 (32 + 8 * k) y (b_in bs)
       else if b = x then new_info nm 0 (b_info2 bs)
       else if b = y then new_inode IMDIR y x (b_in2 bs)
       else disk (bsz sb) os b))"
proof -
  let ?n = "bsz sb"
  note m = free_listD(1) [OF fl]
  have xy: "x < sb_blks sb" "y < sb_blks sb" "x \<noteq> y" "x \<notin> set xs" "y \<notin> set xs"
      "x \<noteq> 0" "x \<noteq> c" "x \<noteq> p" "y \<noteq> 0" "y \<noteq> c" "y \<noteq> p"
    using free_listD(3,4) [OF fl] zero pc by auto
  have low: "0 \<notin> set xs" "c \<notin> set xs" "p \<notin> set xs" using zero pc by auto
  have n: "128 \<le> ?n" using mountedD(3) [OF m] .
  let ?info2 = "new_info nm 0 (b_info2 bs)" and ?in2 = "new_inode IMDIR y x (b_in2 bs)"
  let ?info = "put64 0 (fld 0 (b_info bs) + 1) (b_info bs)"
  let ?in = "put64 (32 + 8 * k) y (b_in bs)"
  have lens: "length ?info2 = ?n" "length ?in2 = ?n" "length ?info = ?n" "length ?in = ?n"
    using new_info_fields(1) [of nm "b_info2 bs"] new_inode_fields(1) [of "b_in2 bs"] nm bs n room
    by simp_all
  from get_step [OF fl, of j1] obtain os1 where os1: "fs_get_block j1 sb os = Inr (x, took sb (y # xs), os1)"
    "free_list (took sb (y # xs)) os1 (y # xs)" "disk_upd sb 0 (sb_bytes (took sb (y # xs))) os os1" by blast
  from write_step [of "took sb (y # xs)" os1 x ?info2] obtain os2 where
    os2: "write_block (took sb (y # xs)) x ?info2 os1 = Inr os2" "disk_upd sb x ?info2 os1 os2"
    using disk_upd_mounted [OF os1(3)] xy lens by auto
  have "free_list (took sb (y # xs)) os2 (y # xs)"
    using free_list_upd [OF os1(2), of x ?info2 os2] os2(2) xy by simp
  from get_step [OF this, of j2] obtain os3 where
    os3: "fs_get_block j2 (took sb (y # xs)) os2 = Inr (y, took sb xs, os3)"
    "free_list (took sb xs) os3 xs" "disk_upd sb 0 (sb_bytes (took sb xs)) os2 os3" by auto
  from write_step [of "took sb xs" os3 y ?in2] obtain os4 where
    os4: "write_block (took sb xs) y ?in2 os3 = Inr os4" "disk_upd sb y ?in2 os3 os4"
    using disk_upd_mounted [OF os3(3)] xy lens by auto
  from write_step [of "took sb xs" os4 c ?info] obtain os5 where
    os5: "write_block (took sb xs) c ?info os4 = Inr os5" "disk_upd sb c ?info os4 os5"
    using disk_upd_mounted [OF os4(2)] pc lens by auto
  from write_step [of "took sb xs" os5 p ?in] obtain os6 where
    os6: "write_block (took sb xs) p ?in os5 = Inr os6" "disk_upd sb p ?in os5 os6"
    using disk_upd_mounted [OF os5(2)] pc lens by auto
  from write_step [of "took sb xs" os6 0 "sb_bytes (took sb xs)"] obtain os7 where
    os7: "write_superblock (took sb xs) os6 = Inr os7" "disk_upd sb 0 (sb_bytes (took sb xs)) os6 os7"
    using disk_upd_mounted [OF os6(2)] mountedD(5) [OF m] length_sb_bytes [of "took sb xs" os6]
    by (auto simp: write_superblock_def)
  have "free_list (took sb xs) os4 xs"
    using free_list_upd [OF os3(2), of y ?in2 os4] os4(2) xy by simp
  then have "free_list (took sb xs) os5 xs"
    using free_list_upd [of "took sb xs" os4 xs c ?info os5] os5(2) low by simp
  then have "free_list (took sb xs) os6 xs"
    using free_list_upd [of "took sb xs" os5 xs p ?in os6] os6(2) low by simp
  then have fl7: "free_list (took sb xs) os7 xs"
    using free_list_upd [of "took sb xs" os6 xs 0 _ os7] os7(2) low by simp
  have off: "o_link (uint (fld 0 (b_info bs))) = int (32 + 8 * k)"
    by (simp add: o_link_def uint_nat bs(2) del: of_nat_unat)
  have "make_entry j1 j2 nm c p bs sb os = Inr (took sb xs, os7)"
    using os1(1) os2(1) os3(1) os4(1) os5(1) os6(1) os7(1) n bs nm room
    by (simp add: make_entry_def store64_ok load64_ok strcpy_name off
        o_mode_def o_parent_def o_meta_def o_next_def o_size_def o_name_def
        flip: new_info_def new_inode_def)
  moreover have "disk ?n os7 b =
      (if b = 0 then sb_bytes (took sb xs) else if b = c then ?info else if b = p then ?in
       else if b = x then ?info2 else if b = y then ?in2 else disk ?n os b)" if "b < sb_blks sb" for b
    using that xy pc
    by (simp add: disk_updD [OF os7(2)] disk_updD [OF os6(2)] disk_updD [OF os5(2)]
        disk_updD [OF os4(2)] disk_updD [OF os3(3)] disk_updD [OF os2(2)] disk_updD [OF os1(3)])
  ultimately show ?thesis using fl7 by blast
qed

lemma make_entry_ok:
  assumes v: "volume sb os (x # y # xs) ls"
    and bs: "buffers (bsz sb) bs" "b_in bs = disk (bsz sb) os 2" "b_info bs = disk (bsz sb) os 1"
    and nm: "0 \<notin> set nm" "length nm + 65 \<le> bsz sb" and room: "40 + 8 * length ls \<le> bsz sb"
  shows "\<exists>os'. make_entry j1 j2 nm 1 2 bs sb os = Inr (took sb xs, os') \<and>
    free_list (took sb xs) os' xs \<and>
    (\<forall>b < sb_blks sb. disk (bsz sb) os' b =
      (if b = 0 then sb_bytes (took sb xs)
       else if b = 1 then put64 0 (fld 0 (b_info bs) + 1) (b_info bs)
       else if b = 2 then put64 (32 + 8 * length ls) y (b_in bs)
       else if b = x then new_info nm 0 (b_info2 bs)
       else if b = y then new_inode IMDIR y x (b_in2 bs)
       else disk (bsz sb) os b))"
proof -
  note m = volumeD(2) [OF v]
  have low: "0 \<notin> set (x # y # xs)" "1 \<notin> set (x # y # xs)" "2 \<notin> set (x # y # xs)"
    using volume_low [OF v, of 0] volume_low [OF v, of 1] volume_low [OF v, of 2] by auto
  have "unat (fld 0 (b_info bs)) = length ls" using root_dirD(5) [OF volumeD(6) [OF v]] bs(3) by simp
  from make_entry_at [OF volumeD(1) [OF v] low(1) bs(1) this nm room mountedD(7,6) [OF m] _ _ _ low(3,2)]
  show ?thesis by simp
qed

lemma mkdir_root_ok:
  assumes v: "volume sb os (x # y # xs) ls" and path: "subfolders_to_vector path = Inr [nm]"
    and nm: "0 \<notin> set nm" "length nm + 65 \<le> bsz sb" and room: "40 + 8 * length ls \<le> bsz sb"
  shows "\<exists>os'. fs_mkdir mem k path sb os = Inr (0, took sb xs, os') \<and>
    volume (took sb xs) os' xs (ls @ [y]) \<and>
    entries (took sb xs) os' (ls @ [y]) = entries sb os ls @ [(nm, IMDIR)] \<and>
    meta_of (bsz sb) os' y = x \<and> fld 0 (disk (bsz sb) os' x) = 0 \<and>
    (\<forall>b < sb_blks sb. 2 < b \<longrightarrow> b \<notin> {x, y} \<longrightarrow> disk (bsz sb) os' b = disk (bsz sb) os b)"
proof -
  let ?n = "bsz sb" and ?bs = "fresh_bufs mem (bsz sb)"
  note m = volumeD(2) [OF v] note n = mountedD(3) [OF m]
  from read_step [OF m mountedD(6) [OF m], of "b_info ?bs"] obtain os1 where
    os1: "read_block sb 1 (b_info ?bs) os = Inr (disk ?n os 1, os1)" "same_disk sb os os1"
    using buffers_fresh [of ?n mem] by auto
  note m1 = same_disk_mounted [OF os1(2)]
  from read_step [OF m1 mountedD(7) [OF m], of "b_in ?bs"] obtain os2 where
    os2: "read_block sb 2 (b_in ?bs) os1 = Inr (disk ?n os 2, os2)" "same_disk sb os1 os2"
    using buffers_fresh [of ?n mem] same_diskD [OF os1(2) mountedD(7) [OF m]] by auto
  note same = same_disk_trans [OF os1(2) os2(2)]
  let ?bs2 = "?bs\<lparr>b_in := disk ?n os 2, b_info := disk ?n os 1\<rparr>"
  have v2: "volume sb os2 (x # y # xs) ls" and ent: "entries sb os2 ls = entries sb os ls"
    using volume_same [OF v same] by simp_all
  have bs: "buffers ?n ?bs2" "b_in ?bs2 = disk ?n os2 2" "b_info ?bs2 = disk ?n os2 1"
    using buffers_fresh [of ?n mem] m mountedD(6,7) [OF m]
      same_diskD [OF same mountedD(6) [OF m]] same_diskD [OF same mountedD(7) [OF m]]
    by simp_all
  from make_entry_ok [OF v2 bs nm room, of "mem 6" "mem 7"] obtain os' where
    os': "make_entry (mem 6) (mem 7) nm 1 2 ?bs2 sb os2 = Inr (took sb xs, os')"
    "free_list (took sb xs) os' xs" and d: "\<And>b. b < sb_blks sb \<Longrightarrow> disk ?n os' b =
      (if b = 0 then sb_bytes (took sb xs)
       else if b = 1 then put64 0 (fld 0 (b_info ?bs2) + 1) (b_info ?bs2)
       else if b = 2 then put64 (32 + 8 * length ls) y (b_in ?bs2)
       else if b = x then new_info nm 0 (b_info2 ?bs2)
       else if b = y then new_inode IMDIR y x (b_in2 ?bs2)
       else disk ?n os2 b)" by blast
  have run: "fs_mkdir mem k path sb os = Inr (0, took sb xs, os')"
    using path os1(1) os2(1) os'(1) volumeD(4) [OF v] by (simp add: fs_mkdir_def)
  have xy: "x < sb_blks sb" "y < sb_blks sb" "x \<noteq> y" "x \<noteq> 0" "x \<noteq> 1" "x \<noteq> 2" "y \<noteq> 0" "y \<noteq> 1" "y \<noteq> 2"
    using volume_blocks [OF v, of x] volume_blocks [OF v, of y] free_listD(3) [OF volumeD(1) [OF v]]
    by simp_all
  have root: "root_dir ?n (disk ?n os' 1) (disk ?n os' 2) (ls @ [y])"
    using root_grown_disk [OF v2 room, of y] bs(2,3) d [OF mountedD(6) [OF m]] d [OF mountedD(7) [OF m]]
    by simp
  have keep: "\<forall>b < sb_blks sb. 2 < b \<longrightarrow> b \<notin> set [x, y] \<longrightarrow> disk ?n os' b = disk ?n os2 b"
    using d by auto
  have blocks: "disk ?n os' 0 = sb_bytes (took sb xs)"
    "disk ?n os' x = new_info nm 0 (b_info2 ?bs2)" "disk ?n os' y = new_inode IMDIR y x (b_in2 ?bs2)"
    using d [OF mountedD(5) [OF m]] d [OF xy(1)] d [OF xy(2)] xy by simp_all
  have "32 \<le> length (b_in2 ?bs2)" "length nm + 65 \<le> length (b_info2 ?bs2)"
    using buffers_fresh [of ?n mem] n nm(2) by simp_all
  note fields = new_inode_fields [OF this(1), of IMDIR y x] new_info_fields [OF this(2) nm(1), of 0]
  have v2': "volume sb os2 ([x, y] @ xs) ls" using v2 by simp
  have new: "x \<in> set [x, y]" "y \<in> set [x, y]" "fld 0 (disk ?n os' y) = IMDIR" "IMDIR \<noteq> IMCHILD"
    "fld 16 (disk ?n os' y) = x" "named (disk ?n os' x)" "name_of (disk ?n os' x) = nm"
    using blocks fields by simp_all
  note add = volume_add [OF v2' os'(2) blocks(1) keep root xy(3) new]
  have "fld 0 (disk ?n os' x) = 0" using blocks(2) fields by simp
  then show ?thesis using run ent keep same_diskD [OF same] add new(5) by (auto simp: meta_of_def)
qed

end
