(* ===== verification/Fs_Format.thy ===== *)
theory Fs_Format
  imports Fs_Root Fs_Make
begin

text \<open>
  What \<open>fs_format\<close> leaves on the image.
\<close>

lemma unat_small: "j < unat (w :: 64 word) \<Longrightarrow> unat (of_nat j :: 64 word) = j"
proof -
  have "unat w < 2 ^ 64" by (rule less_le_trans [OF unsigned_less]) simp
  then show "j < unat w \<Longrightarrow> unat (of_nat j :: 64 word) = j" by (simp add: unat_of_nat)
qed

lemma write_at:
  assumes m: "mounted sb os" and i: "i < unat (sb_blks sb)"
    and off: "offsets os (sb_fd sb) = Some (i * bsz sb)" and buf: "bsz sb \<le> length buf"
  shows "\<exists>os'. write_buf sb buf os = Inr (int (bsz sb), os') \<and>
    disk_upd sb (of_nat i) (take (bsz sb) buf) os os' \<and> offsets os' (sb_fd sb) = Some (Suc i * bsz sb)"
proof -
  note u = unat_small [OF i]
  have lt: "of_nat i < sb_blks sb" using i u by (simp add: word_less_nat_alt)
  have os: "sought (sb_fd sb) (bsz sb) (of_nat i) os = os"
    using off by (cases os) (simp add: sought_def u fun_upd_idem)
  have len: "length (take (bsz sb) buf) = bsz sb" using buf by simp
  have "write_buf sb buf os = write_buf sb (take (bsz sb) buf) os"
    using buf by (simp add: write_buf_def min_def)
  also have "\<dots> = Inr (int (bsz sb), put_disk (sb_fd sb) (bsz sb) (of_nat i) (take (bsz sb) buf) os)"
    using write_buf_ok [OF m lt len] by (simp add: os)
  finally have w: "write_buf sb buf os = \<dots>" .
  have "disk_upd sb (of_nat i) (take (bsz sb) buf) os
      (put_disk (sb_fd sb) (bsz sb) (of_nat i) (take (bsz sb) buf) os)"
    using m lt len by (simp add: disk_upd_def)
  moreover have "offsets (put_disk (sb_fd sb) (bsz sb) (of_nat i) (take (bsz sb) buf) os) (sb_fd sb) =
      Some (Suc i * bsz sb)"
    by (simp add: put_disk_def moved_def u)
  ultimately show ?thesis using w by blast
qed

lemma write_freepage_ok:
  assumes m: "mounted sb os" and i: "i < unat (sb_blks sb)"
    and off: "offsets os (sb_fd sb) = Some (i * bsz sb)" and b: "bsz sb \<le> length b"
  shows "\<exists>os' buf. write_freepage sb nxt (Some b) os = Inr (Some (put64 0 nxt b), os') \<and>
    disk_upd sb (of_nat i) buf os os' \<and> fld 0 buf = nxt \<and> offsets os' (sb_fd sb) = Some (Suc i * bsz sb)"
proof -
  have n: "128 \<le> bsz sb" by (rule mountedD(3) [OF m])
  have len: "length (put64 0 nxt b) = length b" using n b by simp
  then have "bsz sb \<le> length (put64 0 nxt b)" using b by simp
  from write_at [OF m i off this] obtain os' where
    os': "write_buf sb (put64 0 nxt b) os = Inr (int (bsz sb), os')"
    "disk_upd sb (of_nat i) (take (bsz sb) (put64 0 nxt b)) os os'"
    "offsets os' (sb_fd sb) = Some (Suc i * bsz sb)" by blast
  have "fld 0 (take (bsz sb) (put64 0 nxt b)) = fld 0 (put64 0 nxt b)"
    using n by (simp add: fld_def chunk_def min_def)
  also have "\<dots> = nxt" using n b by simp
  finally show ?thesis using os' n b by (auto simp: write_freepage_def store64_ok)
qed

lemma format_loop_ok:
  assumes "mounted sb os" "offsets os (sb_fd sb) = Some (i * bsz sb)" "bsz sb \<le> length b"
    and "i \<le> k" "k < unat (sb_blks sb)"
  shows "\<exists>b' os'. format_loop sb [i..<k] (Some b) os = Inr (Some b', os') \<and> bsz sb \<le> length b' \<and>
    mounted sb os' \<and> offsets os' (sb_fd sb) = Some (k * bsz sb) \<and>
    (\<forall>c < sb_blks sb. if i \<le> unat c \<and> unat c < k then fld 0 (disk (bsz sb) os' c) = c + 1
                      else disk (bsz sb) os' c = disk (bsz sb) os c)"
  using assms
proof (induction "k - i" arbitrary: i b os)
  case 0
  then show ?case by auto
next
  case (Suc d)
  let ?n = "bsz sb"
  from Suc.prems have i: "i < unat (sb_blks sb)" by simp
  note u = unat_small [OF i]
  from write_freepage_ok [OF Suc.prems(1) i Suc.prems(2,3), of "of_nat i + 1"] obtain os1 buf where
    s: "write_freepage sb (of_nat i + 1) (Some b) os = Inr (Some (put64 0 (of_nat i + 1) b), os1)"
    "disk_upd sb (of_nat i) buf os os1" "fld 0 buf = of_nat i + 1"
    "offsets os1 (sb_fd sb) = Some (Suc i * ?n)" by blast
  have len: "?n \<le> length (put64 0 (of_nat i + 1) b)"
    using Suc.prems(3) mountedD(3) [OF Suc.prems(1)] by simp
  from Suc.hyps(2) have k: "d = k - Suc i" "Suc i \<le> k" "i < k" by auto
  from Suc.hyps(1) [OF k(1) disk_upd_mounted [OF s(2)] s(4) len k(2) Suc.prems(5)] obtain b' os' where
    r: "format_loop sb [Suc i..<k] (Some (put64 0 (of_nat i + 1) b)) os1 = Inr (Some b', os')"
    "?n \<le> length b'" "mounted sb os'" "offsets os' (sb_fd sb) = Some (k * ?n)"
    "\<forall>c < sb_blks sb. if Suc i \<le> unat c \<and> unat c < k then fld 0 (disk ?n os' c) = c + 1
                      else disk ?n os' c = disk ?n os1 c" by blast
  have "format_loop sb [i..<k] (Some b) os = Inr (Some b', os')"
    using s(1) r(1) k(3) by (simp add: upt_conv_Cons)
  moreover have "if i \<le> unat c \<and> unat c < k then fld 0 (disk ?n os' c) = c + 1
      else disk ?n os' c = disk ?n os c" if c: "c < sb_blks sb" for c
  proof (cases "unat c = i")
    case True
    then have "c = of_nat i" using u by (metis word_unat_eq_iff)
    then show ?thesis using True r(5) c disk_updD [OF s(2) c] s(3) k(3) by auto
  next
    case False
    then have "c \<noteq> of_nat i" "Suc i \<le> unat c \<longleftrightarrow> i \<le> unat c" using u by auto
    then show ?thesis using r(5)[rule_format, OF c] disk_updD [OF s(2) c] by simp
  qed
  ultimately show ?case using r(2-4) by blast
qed

lemma chain_upt:
  assumes "i < k" "k \<le> 2 ^ 64" "\<forall>j. i \<le> j \<longrightarrow> Suc j < k \<longrightarrow> fld 0 (disk n os (of_nat j)) = of_nat (Suc j)"
    and "fld 0 (disk n os (of_nat (k - 1))) = 0"
  shows "chain n os (of_nat i) (map of_nat [i..<k])"
  using assms
proof (induction "k - i" arbitrary: i)
  case 0
  then show ?case by simp
next
  case (Suc d)
  show ?case
  proof (cases "Suc i = k")
    case True
    then show ?thesis using Suc.prems by auto
  next
    case False
    with Suc.prems(1) have i: "Suc i < k" by simp
    with Suc.hyps(1) [of "Suc i"] Suc.hyps(2) Suc.prems have
      "chain n os (of_nat (Suc i)) (map of_nat [Suc i..<k])" by auto
    moreover have "[i..<k] = i # [Suc i..<k]" using i by (simp add: upt_conv_Cons)
    moreover have "fld 0 (disk n os (of_nat i)) = of_nat (Suc i)" using Suc.prems(3) i by blast
    ultimately show ?thesis by simp
  qed
qed

definition root_inode :: "byte list \<Rightarrow> byte list" where
  "root_inode b = put64 32 0 (put64 24 0 (put64 16 1 (put64 8 2 (put64 0 IMDIR b))))"

definition root_info :: "byte list \<Rightarrow> byte list" where
  "root_info b = put_name [47] (put64 0 0 b)"

lemma root_buffers:
  assumes "128 \<le> length b"
  shows "create_root_directory b = Inr (root_inode b)"
    "store64 o_size 0 b = Inr (put64 0 0 b)" "strcpy_to o_name [47] (put64 0 0 b) = Inr (root_info b)"
    "length (root_inode b) = length b" "length (root_info b) = length b"
  using assms
  by (simp_all add: create_root_directory_def store64_ok field_defs root_inode_def root_info_def strcpy_name)

lemma root_empty:
  assumes "128 \<le> length b" "128 \<le> length c" "32 \<le> n"
  shows "root_dir n (root_info b) (root_inode c) []"
  using assms
  by (simp add: dir_at_def root_info_def root_inode_def fld_put64_other fld_put_name named_put_name)

text \<open>Up to the loop that writes the free blocks.\<close>

lemma fs_format_start:
  assumes bs: "MIN_BLOCK_SIZE \<le> blocksize" and room: "32 \<le> length (img os) div unat blocksize"
    and len: "length (img os) < 2 ^ 63" and fd: "0 \<le> fd"
  shows "\<exists>sb os3. (\<forall>fp. fs_format True fd mem fp blocksize os =
      rbind (format_loop sb [3..<length (img os) div unat blocksize - 1] fp os3) (\<lambda>(fp1, os5).
      rbind (write_freepage sb 0 fp1 os5) (\<lambda>(_, os6). Inr (Some sb, os6)))) \<and>
    mounted sb os3 \<and> offsets os3 fd = Some (3 * unat blocksize) \<and>
    sb_blksz sb = blocksize \<and> sb_fd sb = fd \<and> sb_root sb = 2 \<and> sb_freelist sb = 3 \<and>
    unat (sb_blks sb) = length (img os) div unat blocksize \<and>
    unat (sb_freeblks sb) = length (img os) div unat blocksize - 3 \<and>
    disk (bsz sb) os3 0 = sb_bytes sb \<and> root_dir (bsz sb) (disk (bsz sb) os3 1) (disk (bsz sb) os3 2) []"
proof -
  let ?n = "unat blocksize" and ?N = "length (img os) div unat blocksize"
  have n: "128 \<le> ?n" using bs by (simp add: MIN_BLOCK_SIZE_def word_le_nat_alt)
  let ?blks = "of_nat (length (img os)) div blocksize"
  have "length (img os) < 2 ^ 64" using len by simp
  then have blks: "unat ?blks = ?N" by (simp add: unat_div unat_of_nat)
  have enough: "\<not> ?blks < MIN_BLOCK_COUNT" using room blks by (simp add: MIN_BLOCK_COUNT_def word_less_nat_alt)
  obtain sb os0 where c: "create_superblock (fresh mem 0 ?n) fd blocksize ?blks os = (sb, os0)" by fastforce
  then have sb: "sb_magic sb = MAGIC" "sb_blks sb = ?blks" "sb_blksz sb = blocksize" "bsz sb = ?n"
    "sb_freeblks sb = ?blks - 3" "sb_freelist sb = 3" "sb_root sb = 2" "sb_fd sb = fd"
    "length (sb_rest sb) = ?n - 52" and os0: "offsets os0 fd = Some 0" "img os0 = img os"
    using fd by (auto simp: create_superblock_def sys_open_def bsz_def)
  have big: "?N * ?n \<le> length (img os)" by simp
  have m0: "mounted sb os0"
    using sb os0 room big len n blks by (simp add: mounted_def fits_def word_le_nat_alt)
  have N: "?N = unat (sb_blks sb)" using blks sb(2) by simp
  let ?root = "root_inode (fresh mem 1 ?n)" and ?info = "root_info (fresh mem 2 ?n)"
  have buf: "128 \<le> length (fresh mem i ?n)" for i using n by simp
  note root = root_buffers [OF buf]
  have lens: "length ?root = ?n" "length ?info = ?n" "length (sb_bytes sb) = ?n"
    using root(4) [of 1] root(5) [of 2] length_sb_bytes [OF m0] sb(4) by simp_all
  from write_at [OF m0, of 0 "sb_bytes sb"] lens sb(4,8) os0 room N obtain os1 where
    os1: "write_buf sb (sb_bytes sb) os0 = Inr (int ?n, os1)" "disk_upd sb 0 (sb_bytes sb) os0 os1"
    "offsets os1 fd = Some ?n" by auto
  from write_at [OF disk_upd_mounted [OF os1(2)], of 1 ?info] lens sb(4,8) os1(3) room N obtain os2 where
    os2: "write_buf sb ?info os1 = Inr (int ?n, os2)" "disk_upd sb 1 ?info os1 os2"
    "offsets os2 fd = Some (2 * ?n)" by auto
  from write_at [OF disk_upd_mounted [OF os2(2)], of 2 ?root] lens sb(4,8) os2(3) room N obtain os3 where
    os3: "write_buf sb ?root os2 = Inr (int ?n, os3)" "disk_upd sb 2 ?root os2 os3"
    "offsets os3 fd = Some (3 * ?n)" by auto
  have run: "fs_format True fd mem fp blocksize os =
      rbind (format_loop sb [3..<?N - 1] fp os3) (\<lambda>(fp1, os5).
      rbind (write_freepage sb 0 fp1 os5) (\<lambda>(_, os6). Inr (Some sb, os6)))" for fp
    using c root(1) [of 1] root(2,3) [of 2] os1(1) os2(1) os3(1) blks
    by (simp add: fs_format_def Let_def bs [THEN leD] enough)
  have m3: "mounted sb os3" by (rule disk_upd_mounted [OF os3(2)])
  have base: "disk (bsz sb) os3 0 = sb_bytes sb" "disk (bsz sb) os3 1 = ?info" "disk (bsz sb) os3 2 = ?root"
    using mountedD(5,6,7) [OF m3] disk_updD [OF os3(2)] disk_updD [OF os2(2)] disk_updD [OF os1(2)] by simp_all
  have "unat (sb_freeblks sb) = ?N - 3"
    using sb(5) blks room by (simp add: unat_sub word_le_nat_alt)
  moreover have "root_dir (bsz sb) ?info ?root []" using n sb(4) by (intro root_empty) simp_all
  ultimately show ?thesis
    using run m3 os3(3) sb(3,6,7,8) N [symmetric] base by (intro exI [of _ sb] exI [of _ os3]) simp
qed

lemma fs_format_no_pointer:
  assumes "MIN_BLOCK_SIZE \<le> blocksize" "32 \<le> length (img os) div unat blocksize"
    and "length (img os) < 2 ^ 63" "0 \<le> fd"
  shows "fs_format True fd mem None blocksize os = Inl Bad_Pointer"
proof -
  have "[3..<length (img os) div unat blocksize - 1] = 3 # [4..<length (img os) div unat blocksize - 1]"
    using assms(2) by (simp add: upt_conv_Cons)
  then show ?thesis
    using fs_format_start [OF assms, of mem] by (auto simp: write_freepage_def)
qed

lemma fs_format_ok:
  assumes bs: "MIN_BLOCK_SIZE \<le> blocksize" and room: "32 \<le> length (img os) div unat blocksize"
    and len: "length (img os) < 2 ^ 63" and fd: "0 \<le> fd" and b: "unat blocksize \<le> length b"
  shows "\<exists>sb os'. fs_format True fd mem (Some b) blocksize os = Inr (Some sb, os') \<and>
    volume sb os' (map of_nat [3..<length (img os) div unat blocksize]) [] \<and>
    sb_blksz sb = blocksize \<and> sb_fd sb = fd \<and>
    unat (sb_blks sb) = length (img os) div unat blocksize"
proof -
  let ?N = "length (img os) div unat blocksize"
  from fs_format_start [OF bs room len fd, of mem] obtain sb os3 where
    start: "\<forall>fp. fs_format True fd mem fp blocksize os =
      rbind (format_loop sb [3..<?N - 1] fp os3) (\<lambda>(fp1, os5).
      rbind (write_freepage sb 0 fp1 os5) (\<lambda>(_, os6). Inr (Some sb, os6)))"
    and m3: "mounted sb os3" and off3: "offsets os3 fd = Some (3 * unat blocksize)"
    and sb: "sb_blksz sb = blocksize" "sb_fd sb = fd" "sb_root sb = 2" "sb_freelist sb = 3"
    and blks: "unat (sb_blks sb) = ?N" "unat (sb_freeblks sb) = ?N - 3"
    and base3: "disk (bsz sb) os3 0 = sb_bytes sb"
      "root_dir (bsz sb) (disk (bsz sb) os3 1) (disk (bsz sb) os3 2) []" by blast
  have bsz: "bsz sb = unat blocksize" using sb(1) by (simp add: bsz_def)
  note N = blks(1) [symmetric]
  have pre: "offsets os3 (sb_fd sb) = Some (3 * bsz sb)" "bsz sb \<le> length b" "3 \<le> ?N - 1"
    "?N - 1 < unat (sb_blks sb)"
    using off3 sb(2) bsz b room N by simp_all
  from format_loop_ok [OF m3 pre] obtain b' os4 where
    os4: "format_loop sb [3..<?N - 1] (Some b) os3 = Inr (Some b', os4)" "bsz sb \<le> length b'" "mounted sb os4"
    "offsets os4 (sb_fd sb) = Some ((?N - 1) * bsz sb)" and
    loop: "\<forall>c < sb_blks sb. if 3 \<le> unat c \<and> unat c < ?N - 1 then fld 0 (disk (bsz sb) os4 c) = c + 1
                      else disk (bsz sb) os4 c = disk (bsz sb) os3 c" by blast
  from write_freepage_ok [OF os4(3) pre(4) os4(4,2), of 0] obtain os5 buf where
    os5: "write_freepage sb 0 (Some b') os4 = Inr (Some (put64 0 0 b'), os5)"
    "disk_upd sb (of_nat (?N - 1)) buf os4 os5" "fld 0 buf = 0" by blast
  have run: "fs_format True fd mem (Some b) blocksize os = Inr (Some sb, os5)"
    using start os4(1) os5(1) by simp
  have last: "unat (of_nat (?N - 1) :: 64 word) = ?N - 1"
    by (rule unat_small [OF pre(4)])
  have free: "fld 0 (disk (bsz sb) os5 (of_nat j)) = (if Suc j < ?N then of_nat (Suc j) else 0)"
    if j: "3 \<le> j" "j < ?N" for j
  proof -
    have u: "unat (of_nat j :: 64 word) = j"
      using j(2) N by (intro unat_small) simp
    then have lt: "of_nat j < sb_blks sb" using j(2) N by (simp add: word_less_nat_alt)
    have eq: "of_nat j = (of_nat (?N - 1) :: 64 word) \<longleftrightarrow> j = ?N - 1"
      using u last by metis
    show ?thesis
      using loop[rule_format, OF lt] disk_updD [OF os5(2) lt] os5(3) eq j u by (auto simp: add.commute)
  qed
  have low: "disk (bsz sb) os5 c = disk (bsz sb) os3 c" if "unat c < 3" for c
  proof -
    have "c \<noteq> of_nat (?N - 1)" using that last pre(3) by auto
    moreover have "c < sb_blks sb" using that room N by (simp add: word_less_nat_alt)
    ultimately show ?thesis using loop[rule_format, of c] disk_updD [OF os5(2), of c] that by simp
  qed
  note m5 = disk_upd_mounted [OF os5(2)]
  have base: "disk (bsz sb) os5 0 = sb_bytes sb"
    "root_dir (bsz sb) (disk (bsz sb) os5 1) (disk (bsz sb) os5 2) []"
    using low [of 0] low [of 1] low [of 2] base3 by simp_all
  let ?xs = "map of_nat [3..<?N] :: 64 word list"
  have "unat (sb_blks sb) < 2 ^ 64" by (rule less_le_trans [OF unsigned_less]) simp
  then have N64: "?N \<le> 2 ^ 64" using N by simp
  have chain: "chain (bsz sb) os5 (of_nat 3) ?xs"
  proof (rule chain_upt [OF _ N64])
    show "3 < ?N" using room by simp
    show "\<forall>j. 3 \<le> j \<longrightarrow> Suc j < ?N \<longrightarrow> fld 0 (disk (bsz sb) os5 (of_nat j)) = of_nat (Suc j)"
      using free by (metis Suc_lessD)
    show "fld 0 (disk (bsz sb) os5 (of_nat (?N - 1))) = 0"
      using free [of "?N - 1"] room by simp
  qed
  have un: "unat (of_nat j :: 64 word) = j" if "j < ?N" for j using that N by (intro unat_small) simp
  have dist: "distinct ?xs"
    unfolding distinct_map by (auto intro!: inj_onI) (metis un)
  have mem: "2 < x \<and> x \<noteq> 0 \<and> x < sb_blks sb" if "x \<in> set ?xs" for x
  proof -
    from that obtain j where j: "3 \<le> j" "j < ?N" "x = of_nat j" by auto
    with un [OF j(2)] N show ?thesis by (auto simp: word_less_nat_alt)
  qed
  have "unat (sb_freeblks sb) = length ?xs" using blks(2) by simp
  then have fl: "free_list sb os5 ?xs"
    using m5 chain sb(4) dist mem by (simp add: free_list_def)
  then have "volume sb os5 ?xs []"
    using mem base sb(3) by (simp add: volume_def)
  with run sb(1,2) blks(1) show ?thesis by blast
qed

end
