(* ===== verification/Fs_List.thy ===== *)
theory Fs_List
  imports Fs_Make
begin

text \<open>
  Reading the root directory: the search for a name and the list of all names.
\<close>

section \<open>Searching\<close>

text \<open>Only the buffers that the search fills change.\<close>

definition searched :: "nat \<Rightarrow> bufs \<Rightarrow> bufs \<Rightarrow> bool" where
  "searched n bs bs' \<longleftrightarrow> buffers n bs' \<and> b_in bs' = b_in bs \<and> b_pin bs' = b_pin bs \<and>
     b_info bs' = b_info bs \<and> b_pinfo bs' = b_pinfo bs"

definition holds_entry :: "nat \<Rightarrow> fs_os \<Rightarrow> 64 word \<Rightarrow> bufs \<Rightarrow> bool" where
  "holds_entry n os l bs \<longleftrightarrow> b_in2 bs = disk n os l \<and> b_info2 bs = disk n os (meta_of n os l)"

lemma entry_ok_same:
  assumes "entry_ok sb os xs l" "same_disk sb os os'"
  shows "entry_ok sb os' xs l" "disk (bsz sb) os' l = disk (bsz sb) os l"
    "meta_of (bsz sb) os' l = meta_of (bsz sb) os l"
    "disk (bsz sb) os' (meta_of (bsz sb) os l) = disk (bsz sb) os (meta_of (bsz sb) os l)"
  using entry_okD [OF assms(1)] assms(2) by (simp_all add: entry_ok_def meta_of_def same_disk_def)

lemma search_step:
  assumes "mounted sb os" "same_disk sb os os1" "buffers (bsz sb) bs" "entry_ok sb os xs l"
    and "40 + 8 * k \<le> bsz sb" "fld (32 + 8 * k) (b_in bs) = l"
  shows "\<exists>os2. search_inode sb (b_in bs) (int k) (b_in2 bs) (b_info2 bs) os1 =
      Inr (disk (bsz sb) os l, disk (bsz sb) os (meta_of (bsz sb) os l), os2) \<and> same_disk sb os os2"
proof -
  note e = entry_ok_same [OF assms(4,2)]
  from search_inode_ok [OF same_disk_mounted [OF assms(2)] e(1), of k "b_in bs" "b_in2 bs" "b_info2 bs"]
  obtain os2 where os2: "search_inode sb (b_in bs) (int k) (b_in2 bs) (b_info2 bs) os1 =
      Inr (disk (bsz sb) os1 l, disk (bsz sb) os1 (meta_of (bsz sb) os1 l), os2)" "same_disk sb os1 os2"
    using assms(3,5,6) by auto
  from os2(1) e have "search_inode sb (b_in bs) (int k) (b_in2 bs) (b_info2 bs) os1 =
      Inr (disk (bsz sb) os l, disk (bsz sb) os (meta_of (bsz sb) os l), os2)" by simp
  with same_disk_trans [OF assms(2) os2(2)] show ?thesis by blast
qed

lemma search_loop_ok:
  assumes m: "mounted sb os" and "same_disk sb os os1" "buffers (bsz sb) bs"
    and "\<forall>l \<in> set ls. entry_ok sb os xs l" "32 + 8 * (k + length ls) \<le> bsz sb"
    and "\<forall>i < length ls. fld (32 + 8 * (k + i)) (b_in bs) = ls ! i"
  shows "\<exists>bs' os'. search_loop sb nm (length ls) k bs os1 =
      Inr (map_option (\<lambda>i. k + i) (find_index (\<lambda>l. fst (entry_of (bsz sb) os l) = nm) ls), bs', os') \<and>
    searched (bsz sb) bs bs' \<and> same_disk sb os os' \<and>
    (\<forall>i. find_index (\<lambda>l. fst (entry_of (bsz sb) os l) = nm) ls = Some i \<longrightarrow>
      holds_entry (bsz sb) os (ls ! i) bs')"
  using assms(2-)
proof (induction ls arbitrary: k bs os1)
  case Nil
  then show ?case by (auto simp: searched_def)
next
  case (Cons l ls)
  let ?P = "\<lambda>l. fst (entry_of (bsz sb) os l) = nm"
  have l: "entry_ok sb os xs l" "40 + 8 * k \<le> bsz sb" "fld (32 + 8 * k) (b_in bs) = l"
    using Cons.prems(3,4) Cons.prems(5)[rule_format, of 0] by simp_all
  from search_step [OF m Cons.prems(1,2) l] obtain os2 where
    os2: "search_inode sb (b_in bs) (int k) (b_in2 bs) (b_info2 bs) os1 =
      Inr (disk (bsz sb) os l, disk (bsz sb) os (meta_of (bsz sb) os l), os2)" "same_disk sb os os2" by blast
  let ?bs = "bs\<lparr>b_in2 := disk (bsz sb) os l, b_info2 := disk (bsz sb) os (meta_of (bsz sb) os l)\<rparr>"
  have bs: "buffers (bsz sb) ?bs" "searched (bsz sb) bs ?bs"
    using Cons.prems(2) m entry_okD(2,5) [OF l(1)] by (simp_all add: searched_def)
  have name: "cstr o_name (disk (bsz sb) os (meta_of (bsz sb) os l)) = Inr (fst (entry_of (bsz sb) os l))"
    using cstr_name [OF entry_okD(8) [OF l(1)]] by (simp add: o_name_def entry_of_def)
  show ?case
  proof (cases "?P l")
    case True
    then show ?thesis using os2 name bs by (simp add: holds_entry_def)
  next
    case False
    have "\<forall>i < length ls. fld (32 + 8 * (k + 1 + i)) (b_in ?bs) = ls ! i"
      using Cons.prems(5) by (auto dest: spec [where x = "Suc i" for i])
    from Cons.IH [OF os2(2) bs(1) _ _ this] Cons.prems(3,4) obtain bs' os' where
      r: "search_loop sb nm (length ls) (k + 1) ?bs os2 =
        Inr (map_option (\<lambda>i. k + 1 + i) (find_index ?P ls), bs', os')"
      "searched (bsz sb) ?bs bs'" "same_disk sb os os'"
      "\<forall>i. find_index ?P ls = Some i \<longrightarrow> holds_entry (bsz sb) os (ls ! i) bs'" by auto
    have "search_loop sb nm (length (l # ls)) k bs os1 =
        Inr (map_option (\<lambda>i. k + i) (find_index ?P (l # ls)), bs', os')"
      using os2(1) name False r(1) by (simp add: option.map_comp comp_def)
    moreover have "searched (bsz sb) bs bs'" using r(2) by (simp add: searched_def)
    moreover have "\<forall>i. find_index ?P (l # ls) = Some i \<longrightarrow> holds_entry (bsz sb) os ((l # ls) ! i) bs'"
      using r(4) False by auto
    ultimately show ?thesis using r(3) by blast
  qed
qed

lemma search_dir_ok:
  assumes m: "mounted sb os" and same: "same_disk sb os os1" and bs: "buffers (bsz sb) bs"
    and ent: "\<forall>l \<in> set ls. entry_ok sb os xs l" and dir: "dir_at (bsz sb) c (b_info bs) (b_in bs) ls"
  shows "\<exists>bs' os'. search_file_in_directory sb nm bs os1 =
      Inr (find_index (\<lambda>l. fst (entry_of (bsz sb) os l) = nm) ls, bs', os') \<and>
    searched (bsz sb) bs bs' \<and> same_disk sb os os' \<and>
    (\<forall>i. find_index (\<lambda>l. fst (entry_of (bsz sb) os l) = nm) ls = Some i \<longrightarrow>
      holds_entry (bsz sb) os (ls ! i) bs')"
proof -
  note r = root_dirD [OF dir]
  have "load64 o_size (b_info bs) = Inr (fld 0 (b_info bs))"
    using bs mountedD(3) [OF m] by (simp add: load64_ok o_size_def)
  then show ?thesis
    using search_loop_ok [OF m same bs ent, of 0 nm] r
    by (simp add: search_file_in_directory_def option.map_ident)
qed

lemma search_root_ok:
  assumes v: "volume sb os xs ls" and bs: "buffers (bsz sb) bs"
    and root: "root_dir (bsz sb) (b_info bs) (b_in bs) ls"
  shows "\<exists>bs' os'. search_file_in_directory sb nm bs os =
      Inr (find_index (\<lambda>l. fst (entry_of (bsz sb) os l) = nm) ls, bs', os') \<and>
    searched (bsz sb) bs bs' \<and> same_disk sb os os' \<and>
    (\<forall>i. find_index (\<lambda>l. fst (entry_of (bsz sb) os l) = nm) ls = Some i \<longrightarrow>
      holds_entry (bsz sb) os (ls ! i) bs')"
  by (rule search_dir_ok [OF volumeD(2) [OF v] same_disk_refl [OF volumeD(2) [OF v]] bs _ root])
    (use volumeD(7) [OF v] in blast)

section \<open>Listing\<close>

text \<open>The names, a slash after those of directories, with spaces between.\<close>

definition shown :: "byte list \<times> 64 word \<Rightarrow> byte list" where
  "shown e = fst e @ (if snd e = IMDIR then [47] else [])"

fun listing :: "(byte list \<times> 64 word) list \<Rightarrow> byte list" where
  "listing [] = []"
| "listing [e] = shown e"
| "listing (e # f # es) = shown e @ 32 # listing (f # es)"

lemma listing_Cons: "listing (e # es) = shown e @ (if es = [] then [] else 32 # listing es)"
  by (cases es) simp_all

lemma list_loop_ok:
  assumes m: "mounted sb os" and "same_disk sb os os1" "buffers (bsz sb) bs"
    and "\<forall>l \<in> set ls. entry_ok sb os xs l" "32 + 8 * (k + length ls) \<le> bsz sb"
    and "\<forall>i < length ls. fld (32 + 8 * (k + i)) (b_in bs) = ls ! i"
    and "length acc + length (listing (map (entry_of (bsz sb) os) ls)) < MAX_PATH_NAME"
  shows "\<exists>os'. list_loop sb (length ls) k acc bs os1 =
      Inr (acc @ listing (map (entry_of (bsz sb) os) ls), os') \<and> same_disk sb os os'"
  using assms(2-)
proof (induction ls arbitrary: k bs os1 acc)
  case Nil
  then show ?case by simp
next
  case (Cons l ls)
  let ?e = "entry_of (bsz sb) os"
  have l: "entry_ok sb os xs l" "40 + 8 * k \<le> bsz sb" "fld (32 + 8 * k) (b_in bs) = l"
    using Cons.prems(3,4) Cons.prems(5)[rule_format, of 0] by simp_all
  from search_step [OF m Cons.prems(1,2) l] obtain os2 where
    os2: "search_inode sb (b_in bs) (int k) (b_in2 bs) (b_info2 bs) os1 =
      Inr (disk (bsz sb) os l, disk (bsz sb) os (meta_of (bsz sb) os l), os2)" "same_disk sb os os2" by blast
  let ?bs = "bs\<lparr>b_in2 := disk (bsz sb) os l, b_info2 := disk (bsz sb) os (meta_of (bsz sb) os l)\<rparr>"
  have bs: "buffers (bsz sb) ?bs"
    using Cons.prems(2) m entry_okD(2,5) [OF l(1)] by simp
  have name: "cstr o_name (disk (bsz sb) os (meta_of (bsz sb) os l)) = Inr (fst (?e l))"
    using cstr_name [OF entry_okD(8) [OF l(1)]] by (simp add: o_name_def entry_of_def)
  have mode: "load64 o_mode (disk (bsz sb) os l) = Inr (snd (?e l))"
    using m entry_okD(2) [OF l(1)] mountedD(3) [OF m] by (simp add: load64_ok o_mode_def entry_of_def)
  let ?acc = "acc @ shown (?e l) @ (if ls = [] then [] else [32])"
  have len: "length ?acc + length (listing (map ?e ls)) < MAX_PATH_NAME"
    using Cons.prems(6) by (auto simp: listing_Cons split: if_splits)
  have "\<forall>i < length ls. fld (32 + 8 * (k + 1 + i)) (b_in ?bs) = ls ! i"
    using Cons.prems(5) by (auto dest: spec [where x = "Suc i" for i])
  from Cons.IH [OF os2(2) bs _ _ this len] Cons.prems(3,4) obtain os' where
    r: "list_loop sb (length ls) (k + 1) ?acc ?bs os2 = Inr (?acc @ listing (map ?e ls), os')"
    "same_disk sb os os'" by auto
  have "list_loop sb (length (l # ls)) k acc bs os1 = Inr (?acc @ listing (map ?e ls), os')"
    using os2(1) name mode r(1) len
    by (auto simp: put_str_def shown_def split: if_splits)
  with r(2) show ?case by (auto simp: listing_Cons)
qed

text \<open>An absolute path without components is the root.\<close>

lemma list_root_ok:
  assumes v: "volume sb os xs ls" and path: "subfolders_to_vector path = Inr []"
    and fits: "length (listing (entries sb os ls)) < MAX_PATH_NAME"
  shows "\<exists>os'. fs_list_dir mem path sb os = Inr (listing (entries sb os ls), os') \<and> same_disk sb os os'"
proof -
  let ?n = "bsz sb" and ?bs = "fresh_bufs mem (bsz sb)"
  note m = volumeD(2) [OF v] note r = root_dirD [OF volumeD(6) [OF v]]
  from read_step [OF m mountedD(7) [OF m], of "b_in ?bs"] obtain os1 where
    os1: "read_block sb 2 (b_in ?bs) os = Inr (disk ?n os 2, os1)" "same_disk sb os os1"
    using buffers_fresh [of ?n mem] by auto
  from read_step [OF same_disk_mounted [OF os1(2)] mountedD(6) [OF m], of "b_info ?bs"] obtain os2 where
    os2: "read_block sb 1 (b_info ?bs) os1 = Inr (disk ?n os 1, os2)" "same_disk sb os1 os2"
    using buffers_fresh [of ?n mem] same_diskD [OF os1(2) mountedD(6) [OF m]] by auto
  note same = same_disk_trans [OF os1(2) os2(2)]
  let ?bs2 = "?bs\<lparr>b_in := disk ?n os 2, b_info := disk ?n os 1\<rparr>"
  have bs: "buffers ?n ?bs2"
    using buffers_fresh [of ?n mem] m mountedD(6,7) [OF m] by simp
  from list_loop_ok [OF m same bs, of ls xs 0 "[]"] obtain os' where
    os': "list_loop sb (length ls) 0 [] ?bs2 os2 = Inr (listing (entries sb os ls), os')" "same_disk sb os os'"
    using volumeD(7) [OF v] r(6,7) fits by (auto simp: entries_def)
  have "load64 o_size (disk ?n os 1) = Inr (fld 0 (disk ?n os 1))"
    using m mountedD(3,6) [OF m] by (simp add: load64_ok o_size_def)
  then have "fs_list_dir mem path sb os = Inr (listing (entries sb os ls), os')"
    using path volumeD(4) [OF v] os1(1) os2(1) os'(1) r(5) by (simp add: fs_list_dir_def read_root_def)
  with os'(2) show ?thesis by blast
qed

end
