(* ===== verification/Fs_Write.thy ===== *)
theory Fs_Write
  imports Fs_List
begin

text \<open>
  Writing a new file into the root.
\<close>

section \<open>Copies of inodes and nodeinfos\<close>

lemma copy_links_ok:
  assumes "length a = n" "length b = n" "\<forall>i \<in> set is. 40 + 8 * i \<le> n"
  shows "\<exists>c. copy_links is a b = Inr c \<and> length c = n \<and>
    (\<forall>off. off + 8 \<le> 32 \<longrightarrow> fld off c = fld off a) \<and>
    (\<forall>i. 40 + 8 * i \<le> n \<longrightarrow> fld (32 + 8 * i) c = (if i \<in> set is then fld (32 + 8 * i) b
                                               else fld (32 + 8 * i) a))"
  using assms
proof (induction "is" arbitrary: a)
  case Nil
  then show ?case by simp
next
  case (Cons i "is")
  let ?a = "put64 (32 + 8 * i) (fld (32 + 8 * i) b) a"
  have i: "40 + 8 * i \<le> n" using Cons.prems(3) by simp
  have len: "length ?a = n" using Cons.prems(1) i by simp
  from Cons.IH [OF len Cons.prems(2)] Cons.prems(3) obtain c where
    c: "copy_links is ?a b = Inr c" "length c = n" "\<forall>off. off + 8 \<le> 32 \<longrightarrow> fld off c = fld off ?a"
    "\<forall>j. 40 + 8 * j \<le> n \<longrightarrow> fld (32 + 8 * j) c = (if j \<in> set is then fld (32 + 8 * j) b
                                               else fld (32 + 8 * j) ?a)" by auto
  have step: "copy_links (i # is) a b = Inr c"
    using c(1) Cons.prems i by (simp add: load64_ok store64_ok o_link_def)
  have "fld (32 + 8 * j) ?a = (if j = i then fld (32 + 8 * i) b else fld (32 + 8 * j) a)"
    if "40 + 8 * j \<le> n" for j
    using that i Cons.prems(1) by (cases i j rule: linorder_cases) (auto simp: fld_put64_other)
  moreover have "fld off ?a = fld off a" if "off + 8 \<le> 32" for off
    using that i Cons.prems(1) by (simp add: fld_put64_other)
  ultimately show ?case using step c(2-4) by auto
qed

text \<open>The inode of a directory and its copy agree on all that \<open>dir_at\<close> reads.\<close>

lemma copy_root_inode:
  assumes r: "dir_at n c info ino ls" and len: "length a = n" "length ino = n" "length info = n" "128 \<le> n"
  shows "\<exists>p. copy_inode a ino info = Inr p \<and> length p = n \<and> dir_at n c info p ls"
proof -
  note d = root_dirD [OF r]
  let ?a = "put64 24 (fld 24 ino) (put64 16 (fld 16 ino) (put64 8 (fld 8 ino) (put64 0 (fld 0 ino) a)))"
  have len_a: "length ?a = n" using len by simp
  have links: "\<forall>i \<in> set [0..<length ls]. 40 + 8 * i \<le> n" using d(6) by auto
  from copy_links_ok [OF len_a len(2) links] obtain p where
    p: "copy_links [0..<length ls] ?a ino = Inr p" "length p = n"
    "\<forall>off. off + 8 \<le> 32 \<longrightarrow> fld off p = fld off ?a"
    "\<forall>i. 40 + 8 * i \<le> n \<longrightarrow> fld (32 + 8 * i) p = (if i \<in> set [0..<length ls] then fld (32 + 8 * i) ino
                                               else fld (32 + 8 * i) ?a)" by blast
  have "copy_inode a ino info = Inr p"
    using p(1) d(1,5) len
    by (simp add: copy_inode_def load64_ok store64_ok field_defs)
  moreover have "dir_at n c info p ls"
    using p(3,4) d len by (auto simp: dir_at_def fld_put64_other)
  ultimately show ?thesis using p(2) by blast
qed

lemma copy_file_inode:
  assumes "length a = n" "length b = n" "32 \<le> n" "fld 0 b \<noteq> IMDIR"
  shows "\<exists>p. copy_inode a b c = Inr p \<and> length p = n \<and> fld 0 p = fld 0 b \<and> fld 24 p = fld 24 b"
  using assms by (simp add: copy_inode_def load64_ok store64_ok field_defs fld_put64_other)

lemma copy_reserved_ok:
  assumes "length a = n" "length b = n" "64 \<le> n" "\<forall>i \<in> set is. i < 7"
  shows "\<exists>c. fold (\<lambda>i r. rbind r (\<lambda>a. rbind (load64 (8 + 8 * int i) b) (\<lambda>v.
      store64 (8 + 8 * int i) v a))) is (Inr a) = Inr c \<and> length c = n \<and> fld 0 c = fld 0 a"
  using assms
proof (induction "is" arbitrary: a)
  case Nil
  then show ?case by simp
next
  case (Cons i "is")
  let ?a = "put64 (nat (8 + 8 * int i)) (fld (nat (8 + 8 * int i)) b) a"
  have i: "i < 7" "nat (8 + 8 * int i) = 8 + 8 * i" using Cons.prems(4) by auto
  have len: "length ?a = n" using Cons.prems i by simp
  from Cons.IH [OF len] Cons.prems obtain c where
    c: "fold (\<lambda>i r. rbind r (\<lambda>a. rbind (load64 (8 + 8 * int i) b) (\<lambda>v.
      store64 (8 + 8 * int i) v a))) is (Inr ?a) = Inr c" "length c = n" "fld 0 c = fld 0 ?a" by auto
  moreover have "fld 0 ?a = fld 0 a" using Cons.prems(1,3) i by (simp add: fld_put64_other)
  ultimately show ?case using Cons.prems i by (simp add: load64_ok store64_ok)
qed

lemma length_name: "named b \<Longrightarrow> 64 \<le> length b \<Longrightarrow> length (name_of b) + 65 \<le> length b"
proof -
  assume n: "named b" "64 \<le> length b"
  from n(1) obtain ys zs where b: "drop 64 b = ys @ 0 # zs" "0 \<notin> set ys"
    unfolding named_def by (auto dest: split_list_first)
  then have "length (name_of b) < length (drop 64 b)"
    by (simp add: name_of_def takeWhile_append)
  with n(2) show ?thesis by simp
qed

lemma zero_name: "0 \<notin> set (name_of b)"
  by (auto simp: name_of_def dest: set_takeWhileD)

lemma copy_nodeinfo_ok:
  assumes "length a = n" "length b = n" "64 \<le> n" "named b"
  shows "\<exists>p. copy_nodeinfo a b = Inr p \<and> length p = n \<and> fld 0 p = fld 0 b \<and> named p \<and>
    name_of p = name_of b"
proof -
  have len: "length (put64 0 (fld 0 b) a) = n" using assms by simp
  from copy_reserved_ok [OF len assms(2,3), of "[0..<7]"] obtain c where
    c: "fold (\<lambda>i r. rbind r (\<lambda>a. rbind (load64 (8 + 8 * int i) b) (\<lambda>v.
      store64 (8 + 8 * int i) v a))) [0..<7] (Inr (put64 0 (fld 0 b) a)) = Inr c" "length c = n"
    "fld 0 c = fld 0 (put64 0 (fld 0 b) a)" by auto
  note ln = length_name [OF assms(4)]
  have "copy_nodeinfo a b = Inr (put_name (name_of b) c)"
    unfolding copy_nodeinfo_def o_size_def
    using assms c(1,2) ln by (simp add: load64_ok store64_ok cstr_name strcpy_name o_name_def del: upt_rec_numeral)
  then show ?thesis
    using c ln assms zero_name [of b] by (simp add: fld_put_name named_put_name name_put_name)
qed

end
