(* ===== verification/Fs_Newfile.thy ===== *)
theory Fs_Newfile
  imports Fs_Write
begin

text \<open>
  The steps of \<open>fs_write_file\<close> for a file that is not there yet.
\<close>

section \<open>Space\<close>

lemma take_blocks_ok:
  assumes "free_list (took sb (zs @ xs)) os (zs @ xs)" "mounted sb os" "k + length zs \<le> MAX_FILE_SIZE"
  shows "\<exists>os'. take_blocks mem [k..<k + length zs] a (took sb (zs @ xs)) os =
      Inr (\<lambda>j. if k \<le> j \<and> j < k + length zs then Some (zs ! (j - k)) else a j, took sb xs, os') \<and>
    free_list (took sb xs) os' xs \<and> mounted sb os' \<and>
    (\<forall>b < sb_blks sb. b \<noteq> 0 \<longrightarrow> disk (bsz sb) os' b = disk (bsz sb) os b)"
  using assms
proof (induction zs arbitrary: k a os)
  case Nil
  then show ?case by (auto simp: fun_eq_iff)
next
  case (Cons z zs)
  from get_step [of "took sb (z # zs @ xs)" os z "zs @ xs" "mem k"] Cons.prems(1) obtain os1 where
    os1: "fs_get_block (mem k) (took sb (z # zs @ xs)) os = Inr (z, took sb (zs @ xs), os1)"
    "free_list (took sb (zs @ xs)) os1 (zs @ xs)" "disk_upd sb 0 (sb_bytes (took sb (zs @ xs))) os os1"
    by auto
  have idx: "[k..<k + length (z # zs)] = k # [Suc k..<Suc k + length zs]"
    using upt_conv_Cons [of k "k + length (z # zs)"] by simp
  have "Suc k + length zs \<le> MAX_FILE_SIZE" using Cons.prems(3) by simp
  from Cons.IH [OF os1(2) disk_upd_mounted [OF os1(3)] this, of "a(k \<mapsto> z)"] obtain os' where
    r: "take_blocks mem [Suc k..<Suc k + length zs] (a(k \<mapsto> z)) (took sb (zs @ xs)) os1 =
      Inr (\<lambda>j. if Suc k \<le> j \<and> j < Suc k + length zs then Some (zs ! (j - Suc k)) else (a(k \<mapsto> z)) j,
        took sb xs, os')"
    "free_list (took sb xs) os' xs" "mounted sb os'"
    "\<forall>b < sb_blks sb. b \<noteq> 0 \<longrightarrow> disk (bsz sb) os' b = disk (bsz sb) os1 b" by blast
  have arr: "(\<lambda>j. if Suc k \<le> j \<and> j < Suc k + length zs then Some (zs ! (j - Suc k)) else (a(k \<mapsto> z)) j) =
    (\<lambda>j. if k \<le> j \<and> j < k + length (z # zs) then Some ((z # zs) ! (j - k)) else a j)"
    by (auto simp: fun_eq_iff nth_Cons')
  have "set_blk k z a = Inr (a(k \<mapsto> z))" using Cons.prems(3) by (simp add: set_blk_def)
  then have "take_blocks mem [k..<k + length (z # zs)] a (took sb ((z # zs) @ xs)) os =
      Inr (\<lambda>j. if k \<le> j \<and> j < k + length (z # zs) then Some ((z # zs) ! (j - k)) else a j, took sb xs, os')"
    unfolding idx using os1(1) r(1) by (simp only: take_blocks.simps append_Cons rbind.simps prod.case arr)
  with r(2-4) disk_updD [OF os1(3)] show ?case by auto
qed

section \<open>Inodes\<close>

text \<open>The children are written to the blocks \<open>2, ..., new\<close> of the array, each linked to the next.\<close>

definition linked_child :: "nat \<Rightarrow> fs_os \<Rightarrow> (nat \<Rightarrow> 64 word) \<Rightarrow> nat \<Rightarrow> nat \<Rightarrow> bool" where
  "linked_child n os bl new i \<longleftrightarrow> fld 0 (disk n os (bl i)) = IMCHILD \<and>
     fld 24 (disk n os (bl i)) = (if i < new then bl (i + 1) else 0)"

lemma write_children_ok:
  assumes "mounted sb os" "length in1 = bsz sb" "fld 0 in1 = IMCHILD"
    and "\<forall>i \<in> set is. 2 \<le> i \<and> i \<le> new" "new < MAX_FILE_SIZE" "\<forall>j \<le> new. a j = Some (bl j)"
    and "\<forall>j \<le> new. bl j < sb_blks sb" and "inj_on bl (set is)"
  shows "\<exists>in2 os'. write_children is new a in1 sb os = Inr (in2, os') \<and> mounted sb os' \<and>
    (\<forall>i \<in> set is. linked_child (bsz sb) os' bl new i) \<and>
    (\<forall>b < sb_blks sb. b \<notin> bl ` set is \<longrightarrow> disk (bsz sb) os' b = disk (bsz sb) os b)"
  using assms
proof (induction "is" arbitrary: in1 os)
  case Nil
  then show ?case by simp
next
  case (Cons i "is")
  have n: "128 \<le> bsz sb" by (rule mountedD(3) [OF Cons.prems(1)])
  have i: "2 \<le> i" "i \<le> new" "i - 1 \<le> new" using Cons.prems(4) by auto
  have blk: "get_blk a j = Inr (bl j)" if "j \<le> new" for j
    using that Cons.prems(5,6) by (simp add: get_blk_def)
  let ?nxt = "if i < new then bl (i + 1) else 0"
  have nxt: "(if i < new then get_blk a (i + 1) else Inr 0) = Inr ?nxt" using blk [of "i + 1"] by simp
  let ?in = "put64 24 ?nxt (put64 16 (bl (i - 1)) in1)"
  have in1: "length ?in = bsz sb" "fld 0 ?in = IMCHILD" "fld 24 ?in = ?nxt"
    using Cons.prems(2,3) n by (simp_all add: fld_put64_other)
  from write_step [OF Cons.prems(1) _ in1(1), of "bl i"] Cons.prems(7) i obtain os1 where
    os1: "write_block sb (bl i) ?in os = Inr os1" "disk_upd sb (bl i) ?in os os1" by blast
  have inj: "inj_on bl (set is)" using Cons.prems(8) by (simp add: inj_on_def)
  from Cons.IH [OF disk_upd_mounted [OF os1(2)] in1(1,2) _ Cons.prems(5-7) inj] Cons.prems(4) obtain in2 os' where
    r: "write_children is new a ?in sb os1 = Inr (in2, os')" "mounted sb os'"
    "\<forall>i \<in> set is. linked_child (bsz sb) os' bl new i"
    "\<forall>b < sb_blks sb. b \<notin> bl ` set is \<longrightarrow> disk (bsz sb) os' b = disk (bsz sb) os1 b" by auto
  have "write_children (i # is) new a in1 sb os = Inr (in2, os')"
    using blk [OF i(3)] blk [OF i(2)] nxt os1(1) r(1) Cons.prems(2) n
    by (simp add: store64_ok o_meta_def o_next_def)
  moreover have "linked_child (bsz sb) os' bl new i"
  proof (cases "i \<in> set is")
    case False
    then have "bl i \<notin> bl ` set is" using Cons.prems(8) by (auto simp: inj_on_def)
    then have "disk (bsz sb) os' (bl i) = ?in"
      using r(4) Cons.prems(7) i(2) disk_updD [OF os1(2), of "bl i"] by simp
    then show ?thesis using in1 by (simp add: linked_child_def)
  qed (use r(3) in simp)
  moreover have "\<forall>b < sb_blks sb. b \<notin> bl ` set (i # is) \<longrightarrow> disk (bsz sb) os' b = disk (bsz sb) os b"
    using r(4) disk_updD [OF os1(2)] by simp
  ultimately show ?case using r(2,3) by (intro exI [of _ in2] exI [of _ os']) simp
qed

text \<open>The blocks of a new file: the nodeinfo, the inode and the children.\<close>

lemma write_inodes_at:
  assumes m: "mounted sb os" and bs: "buffers (bsz sb) (w_bufs w)"
    and new: "1 \<le> new" "new < MAX_FILE_SIZE" and a: "\<forall>j \<le> new. w_blocks w j = Some (bl j)"
    and b: "\<forall>j \<le> new. bl j < sb_blks sb \<and> bl j \<noteq> 0 \<and> bl j \<noteq> c \<and> bl j \<noteq> p" "\<forall>i j. i < j \<longrightarrow> j \<le> new \<longrightarrow> bl i \<noteq> bl j"
    and parent: "w_pin_b w = p" "w_pinfo_b w = c"
    and pc: "p < sb_blks sb" "c < sb_blks sb" "p \<noteq> c" "p \<noteq> 0" "c \<noteq> 0"
  shows "\<exists>os' in1. write_inodes new w sb os = Inr (0, os') \<and> mounted sb os' \<and>
    disk (bsz sb) os' 0 = sb_bytes sb \<and> disk (bsz sb) os' c = b_pinfo (w_bufs w) \<and>
    disk (bsz sb) os' p = b_pin (w_bufs w) \<and> disk (bsz sb) os' (bl 0) = b_info (w_bufs w) \<and>
    disk (bsz sb) os' (bl 1) = in1 \<and> fld 0 in1 = IMREG \<and> fld 8 in1 = bl 1 \<and> fld 16 in1 = bl 0 \<and>
    fld 24 in1 = (if new = 1 then 0 else bl 2) \<and>
    (\<forall>j. 2 \<le> j \<longrightarrow> j \<le> new \<longrightarrow> linked_child (bsz sb) os' bl new j) \<and>
    (\<forall>b < sb_blks sb. b \<noteq> 0 \<longrightarrow> b \<noteq> c \<longrightarrow> b \<noteq> p \<longrightarrow> b \<notin> bl ` {..new} \<longrightarrow>
      disk (bsz sb) os' b = disk (bsz sb) os b)"
proof -
  let ?n = "bsz sb" and ?bs = "w_bufs w"
  note n = mountedD(3) [OF m]
  have blk: "get_blk (w_blocks w) j = Inr (bl j)" if "j \<le> new" for j
    using that new(2) a by (simp add: get_blk_def)
  let ?nxt = "if new = 1 then 0 else bl 2"
  have nxt: "(if new = 1 then Inr 0 else get_blk (w_blocks w) 2) = Inr ?nxt" using blk [of 2] new by simp
  let ?in1 = "put64 24 ?nxt (put64 16 (bl 0) (put64 8 (bl 1) (put64 0 IMREG (b_in ?bs))))"
  let ?in2 = "put64 8 (bl 1) (put64 0 IMCHILD ?in1)"
  have len: "length ?in1 = ?n" "length ?in2 = ?n" using bs n by simp_all
  have in1: "fld 0 ?in1 = IMREG" "fld 8 ?in1 = bl 1" "fld 16 ?in1 = bl 0" "fld 24 ?in1 = ?nxt"
    and in2: "fld 0 ?in2 = IMCHILD"
    using bs n by (simp_all add: fld_put64_other)
  from write_step [OF m pc(1), of "b_pin ?bs"] bs obtain os1 where
    os1: "write_block sb p (b_pin ?bs) os = Inr os1" "disk_upd sb p (b_pin ?bs) os os1" by auto
  note m1 = disk_upd_mounted [OF os1(2)]
  from write_step [OF m1 pc(2), of "b_pinfo ?bs"] bs obtain os2 where
    os2: "write_block sb c (b_pinfo ?bs) os1 = Inr os2" "disk_upd sb c (b_pinfo ?bs) os1 os2" by auto
  note m2 = disk_upd_mounted [OF os2(2)]
  from write_step [OF m2, of "bl 0" "b_info ?bs"] bs b(1) obtain os3 where
    os3: "write_block sb (bl 0) (b_info ?bs) os2 = Inr os3" "disk_upd sb (bl 0) (b_info ?bs) os2 os3" by auto
  note m3 = disk_upd_mounted [OF os3(2)]
  from write_step [OF m3, of "bl 1" ?in1] len b(1) new(1) obtain os4 where
    os4: "write_block sb (bl 1) ?in1 os3 = Inr os4" "disk_upd sb (bl 1) ?in1 os3 os4" by auto
  note m4 = disk_upd_mounted [OF os4(2)]
  have ch: "\<forall>i \<in> set [2..<new + 1]. 2 \<le> i \<and> i \<le> new" and small: "\<forall>j \<le> new. bl j < sb_blks sb"
    using b(1) by auto
  have inj: "bl i = bl j \<longleftrightarrow> i = j" if "i \<le> new" "j \<le> new" for i j
    using b(2) that by (metis linorder_neqE_nat)
  have "inj_on bl (set [2..<new + 1])" by (rule inj_onI) (use inj in auto)
  from write_children_ok [OF m4 len(2) in2 ch new(2) a small this] obtain in3 os5 where
    os5: "write_children [2..<new + 1] new (w_blocks w) ?in2 sb os4 = Inr (in3, os5)" "mounted sb os5"
    "\<forall>i \<in> set [2..<new + 1]. linked_child ?n os5 bl new i"
    "\<forall>b < sb_blks sb. b \<notin> bl ` set [2..<new + 1] \<longrightarrow> disk ?n os5 b = disk ?n os4 b" by blast
  let ?os6 = "sync sb os5"
  have "write_buf sb (sb_bytes sb) (sys_lseek (sb_fd sb) 0 os5) = Inr (int ?n, ?os6)"
    using write_buf_ok [OF os5(2) mountedD(5) [OF m] length_sb_bytes [OF m]] lseek_start [OF os5(2)]
    by (simp add: sync_def)
  then have run: "write_inodes new w sb os = Inr (0, ?os6)"
    using os1(1) os2(1) os3(1) os4(1) os5(1) blk [of 0] blk [of 1] nxt new(1) bs n parent
    by (simp add: write_inodes_def update_parent_def store64_ok o_mode_def o_parent_def o_meta_def
        o_next_def Let_def)
  have eq: "disk ?n ?os6 b = (if b = 0 then sb_bytes sb else disk ?n os5 b)" if "b < sb_blks sb" for b
    using os5(2) that by simp
  have set: "set [2..<new + 1] = {2..new}" by auto
  have mem: "bl j \<in> bl ` {2..new} \<longleftrightarrow> 2 \<le> j" if "j \<le> new" for j
    using inj [OF that] that by (auto simp: image_iff)
  have low: "d \<notin> bl ` {2..new}" if "d \<in> {0, c, p}" for d using b(1) that by auto
  note ch5 = os5(4) [unfolded set, rule_format]
  have old: "disk ?n ?os6 d = disk ?n os4 d" if "d < sb_blks sb" "d \<noteq> 0" "d \<notin> bl ` {2..new}" for d
    using ch5 [OF that(1)] eq that by simp
  have new4: "disk ?n os4 d = (if d = bl 1 then ?in1 else if d = bl 0 then b_info ?bs
      else if d = c then b_pinfo ?bs else if d = p then b_pin ?bs else disk ?n os d)" if "d < sb_blks sb" for d
    using that disk_updD [OF os4(2) that] disk_updD [OF os3(2) that] disk_updD [OF os2(2) that]
      disk_updD [OF os1(2) that] by simp
  have b01: "bl 0 < sb_blks sb" "bl 1 < sb_blks sb" "bl 0 \<notin> {0, c, p}" "bl 1 \<notin> {0, c, p}" "bl 0 \<noteq> bl 1"
    "bl 0 \<notin> bl ` {2..new}" "bl 1 \<notin> bl ` {2..new}"
    using b(1) new(1) inj [of 0 1] mem [of 0] mem [of 1] by auto
  have "disk ?n ?os6 0 = sb_bytes sb" using eq [OF mountedD(5) [OF m]] by simp
  moreover have "disk ?n ?os6 c = b_pinfo ?bs" "disk ?n ?os6 p = b_pin ?bs"
    using old [OF pc(2,5)] old [OF pc(1,4)] low [of c] low [of p] b01(3,4) new4 [OF pc(2)] new4 [OF pc(1)] pc(3)
    by auto
  moreover have "disk ?n ?os6 (bl 0) = b_info ?bs" "disk ?n ?os6 (bl 1) = ?in1"
    using old [OF b01(1) _ b01(6)] old [OF b01(2) _ b01(7)] b01(3,4,5) new4 [OF b01(1)] new4 [OF b01(2)]
    by simp_all
  moreover have "linked_child ?n ?os6 bl new j" if "2 \<le> j" "j \<le> new" for j
    using os5(3) that eq [of "bl j"] b(1) by (simp add: linked_child_def)
  moreover have "disk ?n ?os6 d = disk ?n os d"
    if d: "d < sb_blks sb" "d \<noteq> 0" "d \<noteq> c" "d \<noteq> p" "d \<notin> bl ` {..new}" for d
  proof -
    have "d \<notin> bl ` {2..new}" "d \<noteq> bl 0" "d \<noteq> bl 1" using d(5) new(1) by auto
    then show ?thesis using old [OF d(1,2)] new4 [OF d(1)] d(3,4) by simp
  qed
  moreover have "mounted sb ?os6" using os5(2) by simp
  ultimately show ?thesis using run in1 by blast
qed

lemma write_inodes_ok:
  assumes m: "mounted sb os" and bs: "buffers (bsz sb) (w_bufs w)"
    and new: "1 \<le> new" "new < MAX_FILE_SIZE" and a: "\<forall>j \<le> new. w_blocks w j = Some (bl j)"
    and b: "\<forall>j \<le> new. bl j < sb_blks sb \<and> bl j \<noteq> 0 \<and> bl j \<noteq> 1 \<and> bl j \<noteq> 2" "\<forall>i j. i < j \<longrightarrow> j \<le> new \<longrightarrow> bl i \<noteq> bl j"
    and parent: "w_pin_b w = 2" "w_pinfo_b w = 1"
  shows "\<exists>os' in1. write_inodes new w sb os = Inr (0, os') \<and> mounted sb os' \<and>
    disk (bsz sb) os' 0 = sb_bytes sb \<and> disk (bsz sb) os' 1 = b_pinfo (w_bufs w) \<and>
    disk (bsz sb) os' 2 = b_pin (w_bufs w) \<and> disk (bsz sb) os' (bl 0) = b_info (w_bufs w) \<and>
    disk (bsz sb) os' (bl 1) = in1 \<and> fld 0 in1 = IMREG \<and> fld 8 in1 = bl 1 \<and> fld 16 in1 = bl 0 \<and>
    fld 24 in1 = (if new = 1 then 0 else bl 2) \<and>
    (\<forall>j. 2 \<le> j \<longrightarrow> j \<le> new \<longrightarrow> linked_child (bsz sb) os' bl new j) \<and>
    (\<forall>b < sb_blks sb. 2 < b \<longrightarrow> b \<notin> bl ` {..new} \<longrightarrow> disk (bsz sb) os' b = disk (bsz sb) os b)"
proof -
  have "b \<noteq> 0 \<and> b \<noteq> 1 \<and> b \<noteq> 2" if "2 < b" for b :: "64 word" using that by auto
  then show ?thesis
    using write_inodes_at [OF m bs new a b parent mountedD(7,6) [OF m]] by simp (metis (no_types, lifting))
qed

end
