(* ===== verification/Fs_Write_Correct.thy ===== *)
theory Fs_Write_Correct
  imports Fs_Newfile
begin

text \<open>
  \<open>fs_write_file\<close> on a name that the root does not have.
\<close>

text \<open>The nodeinfo of a new file: the size is that of a block, whatever is written.\<close>

definition file_info :: "byte list \<Rightarrow> 64 word \<Rightarrow> byte list \<Rightarrow> byte list" where
  "file_info nm v b = put64 0 v (put_name nm b)"

lemma file_info_fields:
  assumes "length nm + 65 \<le> length b" "0 \<notin> set nm"
  shows "length (file_info nm v b) = length b" "fld 0 (file_info nm v b) = v"
    "named (file_info nm v b)" "name_of (file_info nm v b) = nm"
  using assms by (simp_all add: file_info_def named_put_name name_put_name)

lemma new_file_ok:
  assumes fl: "free_list sb os (x # y # xs)" and bs: "buffers (bsz sb) (w_bufs w)"
    and nm: "length nm + 65 \<le> bsz sb"
  shows "\<exists>os'. new_file j1 j2 nm w sb os =
      Inr (w\<lparr>w_bufs := (w_bufs w)\<lparr>b_in2 := new_inode IMREG y x (b_in2 (w_bufs w)),
               b_info2 := file_info nm (sb_blksz sb - 20) (b_info2 (w_bufs w))\<rparr>,
             w_blocks := (w_blocks w)(0 \<mapsto> x, 1 \<mapsto> y), w_new := True\<rparr>, took sb xs, os') \<and>
    free_list (took sb xs) os' xs \<and>
    (\<forall>b < sb_blks sb. b \<noteq> 0 \<longrightarrow> disk (bsz sb) os' b = disk (bsz sb) os b)"
proof -
  note n = mountedD(3) [OF free_listD(1) [OF fl]]
  from get_step [OF fl, of j1] obtain os1 where os1: "fs_get_block j1 sb os = Inr (x, took sb (y # xs), os1)"
    "free_list (took sb (y # xs)) os1 (y # xs)" "disk_upd sb 0 (sb_bytes (took sb (y # xs))) os os1" by blast
  from get_step [OF os1(2), of j2] obtain os2 where
    os2: "fs_get_block j2 (took sb (y # xs)) os1 = Inr (y, took sb xs, os2)"
    "free_list (took sb xs) os2 xs" "disk_upd sb 0 (sb_bytes (took sb xs)) os1 os2" by auto
  have "new_file j1 j2 nm w sb os =
      Inr (w\<lparr>w_bufs := (w_bufs w)\<lparr>b_in2 := new_inode IMREG y x (b_in2 (w_bufs w)),
               b_info2 := file_info nm (sb_blksz sb - 20) (b_info2 (w_bufs w))\<rparr>,
             w_blocks := (w_blocks w)(0 \<mapsto> x, 1 \<mapsto> y), w_new := True\<rparr>, took sb xs, os2)"
    using os1(1) os2(1) bs n nm
    by (simp add: new_file_def store64_ok strcpy_name o_mode_def o_parent_def o_meta_def o_next_def
        o_size_def o_name_def Let_def new_inode_def file_info_def)
  then show ?thesis using os2(2) disk_updD [OF os1(3)] disk_updD [OF os2(3)] by auto
qed

text \<open>The last component of a path, in the directory that the buffers hold.\<close>

lemma write_walk_new:
  assumes fl: "free_list sb os (x # y # xs)" and ent: "\<forall>l \<in> set ls. entry_ok sb os zs l"
    and bs: "buffers (bsz sb) (w_bufs w)"
    and dir: "dir_at (bsz sb) c (b_info (w_bufs w)) (b_in (w_bufs w)) ls"
    and nm: "length nm + 65 \<le> bsz sb" "0 \<notin> set nm" "nm \<notin> fst ` set (entries sb os ls)"
  shows "\<exists>w' os'. write_walk j1 j2 [nm] w sb os = Inr (Some w', took sb xs, os') \<and>
    free_list (took sb xs) os' xs \<and>
    (\<forall>b < sb_blks sb. b \<noteq> 0 \<longrightarrow> disk (bsz sb) os' b = disk (bsz sb) os b) \<and>
    buffers (bsz sb) (w_bufs w') \<and> w_blocks w' = (w_blocks w)(0 \<mapsto> x, 1 \<mapsto> y) \<and> w_new w' \<and>
    w_pin_b w' = w_pin_b w \<and> w_pinfo_b w' = w_pinfo_b w \<and>
    b_pin (w_bufs w') = b_pin (w_bufs w) \<and> b_pinfo (w_bufs w') = b_pinfo (w_bufs w) \<and>
    fld 0 (b_info (w_bufs w')) = sb_blksz sb - 20 \<and> named (b_info (w_bufs w')) \<and>
    name_of (b_info (w_bufs w')) = nm"
proof -
  let ?n = "bsz sb"
  note m = free_listD(1) [OF fl] note n = mountedD(3) [OF m]
  have none: "find_index (\<lambda>l. fst (entry_of ?n os l) = nm) ls = None"
    unfolding find_index_None using nm(3) by (auto simp: entries_def)
  from search_dir_ok [OF m same_disk_refl [OF m] bs ent dir, of nm] obtain bs1 os1 where
    s: "search_file_in_directory sb nm (w_bufs w) os = Inr (None, bs1, os1)"
    "searched ?n (w_bufs w) bs1" "same_disk sb os os1" unfolding none by blast
  note fl1 = free_list_same [OF fl s(3)]
  have bs1: "buffers ?n (w_bufs (w\<lparr>w_bufs := bs1\<rparr>))" using s(2) by (simp add: searched_def)
  from new_file_ok [OF fl1 bs1 nm(1), of j1 j2] obtain os2 where
    f: "new_file j1 j2 nm (w\<lparr>w_bufs := bs1\<rparr>) sb os1 =
      Inr (w\<lparr>w_bufs := bs1\<lparr>b_in2 := new_inode IMREG y x (b_in2 bs1),
               b_info2 := file_info nm (sb_blksz sb - 20) (b_info2 bs1)\<rparr>,
             w_blocks := (w_blocks w)(0 \<mapsto> x, 1 \<mapsto> y), w_new := True\<rparr>, took sb xs, os2)"
    "free_list (took sb xs) os2 xs"
    "\<forall>b < sb_blks sb. b \<noteq> 0 \<longrightarrow> disk ?n os2 b = disk ?n os1 b" by auto
  let ?in2 = "new_inode IMREG y x (b_in2 bs1)" and ?info2 = "file_info nm (sb_blksz sb - 20) (b_info2 bs1)"
  have b1: "length (b_in bs1) = ?n" "length (b_info bs1) = ?n" "length ?in2 = ?n" "length ?info2 = ?n"
    "fld 0 ?in2 = IMREG" "fld 0 ?info2 = sb_blksz sb - 20" "named ?info2" "name_of ?info2 = nm"
    using bs1 n new_inode_fields [of "b_in2 bs1" IMREG y x] nm file_info_fields [of nm "b_info2 bs1"]
    by simp_all
  from copy_file_inode [OF b1(1,3), of ?info2] n b1(5) obtain i where
    i: "copy_inode (b_in bs1) ?in2 ?info2 = Inr i" "length i = ?n" by auto
  from copy_nodeinfo_ok [OF b1(2,4) _ b1(7)] n b1(6,8) obtain p where
    p: "copy_nodeinfo (b_info bs1) ?info2 = Inr p" "length p = ?n" "fld 0 p = sb_blksz sb - 20"
    "named p" "name_of p = nm" by auto
  let ?w = "w\<lparr>w_bufs := bs1\<lparr>b_in2 := ?in2, b_info2 := ?info2, b_in := i, b_info := p\<rparr>,
      w_blocks := (w_blocks w)(0 \<mapsto> x, 1 \<mapsto> y), w_new := True\<rparr>"
  have "write_level j1 j2 nm True w sb os = Some (Inr (Some (w\<lparr>w_bufs := bs1\<lparr>b_in2 := ?in2, b_info2 := ?info2\<rparr>,
      w_blocks := (w_blocks w)(0 \<mapsto> x, 1 \<mapsto> y), w_new := True\<rparr>), took sb xs, os2))"
    using s(1) f(1) by (simp add: write_level.simps [of j1 j2 nm True])
  then have "write_walk j1 j2 [nm] w sb os = Inr (Some ?w, took sb xs, os2)"
    using i(1) p(1) by (simp add: jump_to_next_dir_def)
  moreover have "buffers ?n (w_bufs ?w)" using bs1 b1(3,4) i(2) p(2) by simp
  moreover have "\<forall>b < sb_blks sb. b \<noteq> 0 \<longrightarrow> disk ?n os2 b = disk ?n os b"
    using f(3) same_diskD [OF s(3)] by simp
  ultimately show ?thesis using f(2) s(2) p(3-5) by (auto simp: searched_def)
qed

lemma count_blocks_cong: "count_blocks cnt (took sb xs) = count_blocks cnt sb"
  by (simp add: count_blocks_def)

text \<open>The array with the blocks of the file.\<close>

definition file_blocks :: "64 word list \<Rightarrow> nat \<Rightarrow> 64 word" where
  "file_blocks bl j = (if j < length bl then bl ! j else 0)"

lemma file_blocks_inj: "distinct bl \<Longrightarrow> i < j \<Longrightarrow> j < length bl \<Longrightarrow> file_blocks bl i \<noteq> file_blocks bl j"
  using nth_eq_iff_index_eq [of bl i j] by (simp add: file_blocks_def)

lemma space_new_ok:
  assumes fl: "free_list (took sb (zs @ xs)) os (zs @ xs)" and m: "mounted sb os"
    and bs: "buffers (bsz sb) (w_bufs w)"
    and root: "dir_at (bsz sb) c (b_pinfo (w_bufs w)) (b_pin (w_bufs w)) ls"
    and room: "40 + 8 * length ls \<le> bsz sb"
    and blocks: "w_blocks w 0 = Some x" "w_blocks w 1 = Some y"
    and cnt: "count_blocks cnt sb = Inr (Suc (length zs))" and left: "xs \<noteq> []"
    and small: "length zs + 2 \<le> MAX_FILE_SIZE"
  shows "\<exists>w' os'. space_new mem cnt w (took sb (zs @ xs)) os =
      Inr (Some (Suc (length zs), w'), took sb xs, os') \<and>
    free_list (took sb xs) os' xs \<and> mounted sb os' \<and>
    (\<forall>b < sb_blks sb. b \<noteq> 0 \<longrightarrow> disk (bsz sb) os' b = disk (bsz sb) os b) \<and>
    buffers (bsz sb) (w_bufs w') \<and> dir_at (bsz sb) c (b_pinfo (w_bufs w')) (b_pin (w_bufs w')) (ls @ [y]) \<and>
    name_of (b_pinfo (w_bufs w')) = name_of (b_pinfo (w_bufs w)) \<and>
    b_info (w_bufs w') = b_info (w_bufs w) \<and> w_pin_b w' = w_pin_b w \<and> w_pinfo_b w' = w_pinfo_b w \<and>
    (\<forall>j \<le> Suc (length zs). w_blocks w' j = Some (file_blocks (x # y # zs) j))"
proof -
  let ?n = "bsz sb" and ?bs = "w_bufs w"
  note n = mountedD(3) [OF m] note r = root_dirD [OF root]
  let ?pin = "put64 (32 + 8 * length ls) y (b_pin ?bs)"
  let ?pinfo = "put64 0 (fld 0 (b_pinfo ?bs) + 1) (b_pinfo ?bs)"
  let ?a = "\<lambda>j. if 2 \<le> j \<and> j < 2 + length zs then Some (zs ! (j - 2)) else w_blocks w j"
  let ?w = "w\<lparr>w_bufs := ?bs\<lparr>b_pin := ?pin, b_pinfo := ?pinfo\<rparr>, w_blocks := ?a\<rparr>"
  have grown: "dir_at ?n c ?pinfo ?pin (ls @ [y])"
    using root_grown [OF root _ _ n bsz_bound room] bs by simp
  from take_blocks_ok [OF fl m, of 2 mem "w_blocks w"] small obtain os' where
    t: "take_blocks mem [2..<2 + length zs] (w_blocks w) (took sb (zs @ xs)) os = Inr (?a, took sb xs, os')"
    "free_list (took sb xs) os' xs" "mounted sb os'"
    "\<forall>b < sb_blks sb. b \<noteq> 0 \<longrightarrow> disk ?n os' b = disk ?n os b" by auto
  have idx: "map (\<lambda>i. i + 2) [0..<Suc (length zs) - 1] = [2..<2 + length zs]"
    using map_add_upt [of 2 "length zs"] by (simp add: add.commute)
  have off: "o_link (uint (fld 0 (b_pinfo ?bs))) = int (32 + 8 * length ls)"
    by (simp add: o_link_def uint_nat r(5) del: of_nat_unat)
  have enough: "\<not> unat (sb_freeblks (took sb (zs @ xs))) < Suc (length zs)"
    using free_listD(5) [OF fl] left by (cases xs) simp_all
  have one: "get_blk (w_blocks w) 1 = Inr y" using blocks(2) by (simp add: get_blk_def MAX_FILE_SIZE_def)
  have link: "store64 (int (32 + 8 * length ls)) y (b_pin ?bs) = Inr ?pin"
    using bs room by (simp add: store64_ok)
  have size: "load64 o_size (b_pinfo ?bs) = Inr (fld 0 (b_pinfo ?bs))"
    "store64 o_size (fld 0 (b_pinfo ?bs) + 1) (b_pinfo ?bs) = Inr ?pinfo"
    using bs n by (simp_all add: load64_ok store64_ok o_size_def)
  have "space_new mem cnt w (took sb (zs @ xs)) os = Inr (Some (Suc (length zs), ?w), took sb xs, os')"
    unfolding space_new_def Let_def one rbind.simps size off link count_blocks_cong cnt idx
    using enough t(1) by simp
  moreover have "\<forall>j \<le> Suc (length zs). ?a j = Some (file_blocks (x # y # zs) j)"
  proof (intro allI impI)
    fix j assume "j \<le> Suc (length zs)"
    moreover have "j = 0 \<or> j = 1 \<or> (\<exists>i. j = Suc (Suc i))" by (metis One_nat_def nat.exhaust)
    ultimately show "?a j = Some (file_blocks (x # y # zs) j)" using blocks by (auto simp: file_blocks_def)
  qed
  moreover have "buffers ?n (w_bufs ?w)" using bs n room by simp
  moreover have "name_of ?pinfo = name_of (b_pinfo ?bs)" using bs n by simp
  ultimately show ?thesis using t(2-4) grown by (intro exI [of _ ?w] exI [of _ os']) simp
qed

text \<open>The function up to the space for the contents.\<close>

lemma write_root_new:
  assumes v: "volume sb os (x # y # xs) ls" and path: "subfolders_to_vector fname = Inr [nm]"
    and nm: "length nm + 65 \<le> bsz sb" "0 \<notin> set nm" "nm \<notin> fst ` set (entries sb os ls)"
  shows "\<exists>w os2 os3. fs_write_file mem fname buf cnt sb os =
      rbind (space_new (\<lambda>i. mem (8 + i)) cnt w (took sb xs) os3) (\<lambda>(r, sb, os).
       case r of None \<Rightarrow> Inr (-1, sb, os)
       | Some (new, w2) \<Rightarrow> rbind (write_inodes new w2 sb os) (\<lambda>(r, os). Inr (r, sb, os))) \<and>
    volume sb os2 (x # y # xs) ls \<and> entries sb os2 ls = entries sb os ls \<and>
    free_list (took sb xs) os3 xs \<and>
    (\<forall>b < sb_blks sb. b \<noteq> 0 \<longrightarrow> disk (bsz sb) os3 b = disk (bsz sb) os2 b) \<and>
    buffers (bsz sb) (w_bufs w) \<and> root_dir (bsz sb) (b_pinfo (w_bufs w)) (b_pin (w_bufs w)) ls \<and>
    w_blocks w = [0 \<mapsto> x, 1 \<mapsto> y] \<and> w_pin_b w = 2 \<and> w_pinfo_b w = 1 \<and>
    fld 0 (b_info (w_bufs w)) = sb_blksz sb - 20 \<and> named (b_info (w_bufs w)) \<and>
    name_of (b_info (w_bufs w)) = nm \<and> same_disk sb os os2"
proof -
  let ?n = "bsz sb" and ?bs = "fresh_bufs mem (bsz sb)"
  note m = volumeD(2) [OF v] note n = mountedD(3) [OF m] note fb = buffers_fresh [of ?n mem]
  note root = volumeD(6) [OF v]
  from read_step [OF m mountedD(6) [OF m], of "b_info ?bs"] fb obtain os1 where
    os1: "read_block sb 1 (b_info ?bs) os = Inr (disk ?n os 1, os1)" "same_disk sb os os1" by auto
  from read_step [OF same_disk_mounted [OF os1(2)] mountedD(7) [OF m], of "b_in ?bs"] fb
    same_diskD [OF os1(2) mountedD(7) [OF m]] obtain os2 where
    os2: "read_block sb 2 (b_in ?bs) os1 = Inr (disk ?n os 2, os2)" "same_disk sb os1 os2" by auto
  note same = same_disk_trans [OF os1(2) os2(2)]
  have len: "length (disk ?n os 1) = ?n" "length (disk ?n os 2) = ?n"
    using m mountedD(6,7) [OF m] by simp_all
  from copy_root_inode [OF root _ len(2,1) n, of "b_pin ?bs"] fb obtain pin where
    pin: "copy_inode (b_pin ?bs) (disk ?n os 2) (disk ?n os 1) = Inr pin" "length pin = ?n"
    "root_dir ?n (disk ?n os 1) pin ls" by auto
  from copy_nodeinfo_ok [OF _ len(1) _ root_dirD(4) [OF root], of "b_pinfo ?bs"] fb n obtain pinfo where
    pinfo: "copy_nodeinfo (b_pinfo ?bs) (disk ?n os 1) = Inr pinfo" "length pinfo = ?n"
    "fld 0 pinfo = fld 0 (disk ?n os 1)" "named pinfo" by auto
  let ?w = "\<lparr>w_bufs = ?bs\<lparr>b_in := disk ?n os 2, b_info := disk ?n os 1, b_pin := pin, b_pinfo := pinfo\<rparr>,
    w_blocks = [0 \<mapsto> 1, 1 \<mapsto> 2], w_new = False, w_pin_b = 2, w_pinfo_b = 1\<rparr>"
  have bw: "buffers ?n (w_bufs ?w)" using fb len pin(2) pinfo(2) by simp
  have rw: "root_dir ?n (b_info (w_bufs ?w)) (b_in (w_bufs ?w)) ls" using root by simp
  have rp: "root_dir ?n pinfo pin ls" using pin(3) pinfo(3,4) by (simp add: dir_at_def)
  note v2 = volume_same(1) [OF v same] note ent = volume_same(2) [OF v same]
  have nm3: "nm \<notin> fst ` set (entries sb os2 ls)" using nm(3) ent by simp
  from write_walk_new [OF volumeD(1) [OF v2] _ bw rw nm(1,2) nm3, of "x # y # xs" "mem 6" "mem 7"] volumeD(7) [OF v2] obtain w1 os3 where
    w1: "write_walk (mem 6) (mem 7) [nm] ?w sb os2 = Inr (Some w1, took sb xs, os3)"
    "free_list (took sb xs) os3 xs"
    "\<forall>b < sb_blks sb. b \<noteq> 0 \<longrightarrow> disk ?n os3 b = disk ?n os2 b"
    "buffers ?n (w_bufs w1)" "w_blocks w1 = [0 \<mapsto> 1, 1 \<mapsto> 2, 0 \<mapsto> x, 1 \<mapsto> y]" "w_new w1"
    "w_pin_b w1 = 2" "w_pinfo_b w1 = 1" "b_pin (w_bufs w1) = pin" "b_pinfo (w_bufs w1) = pinfo"
    "fld 0 (b_info (w_bufs w1)) = sb_blksz sb - 20" "named (b_info (w_bufs w1))"
    "name_of (b_info (w_bufs w1)) = nm" by auto
  have run: "fs_write_file mem fname buf cnt sb os =
      rbind (space_new (\<lambda>i. mem (8 + i)) cnt w1 (took sb xs) os3) (\<lambda>(r, sb, os).
       case r of None \<Rightarrow> Inr (-1, sb, os)
       | Some (new, w2) \<Rightarrow> rbind (write_inodes new w2 sb os) (\<lambda>(r, os). Inr (r, sb, os)))"
    using path os1(1) os2(1) pin(1) pinfo(1) w1(1,6) by (simp add: fs_write_file_def Let_def)
  have arr: "w_blocks w1 = [0 \<mapsto> x, 1 \<mapsto> y]" using w1(5) by (simp add: fun_eq_iff)
  show ?thesis
    using run v2 ent w1(2-4) rp arr w1(7-13) same
    by (intro exI [of _ w1] exI [of _ os2] exI [of _ os3]) simp
qed

lemma write_new_ok:
  assumes v: "volume sb os (x # y # zs @ xs) ls" and path: "subfolders_to_vector fname = Inr [nm]"
    and nm: "length nm + 65 \<le> bsz sb" "0 \<notin> set nm" "nm \<notin> fst ` set (entries sb os ls)"
    and room: "40 + 8 * length ls \<le> bsz sb"
    and cnt: "count_blocks cnt sb = Inr (Suc (length zs))" and left: "xs \<noteq> []"
    and small: "length zs + 2 \<le> MAX_FILE_SIZE"
  shows "\<exists>os'. fs_write_file mem fname buf cnt sb os = Inr (0, took sb xs, os') \<and>
    volume (took sb xs) os' xs (ls @ [y]) \<and>
    entries (took sb xs) os' (ls @ [y]) = entries sb os ls @ [(nm, IMREG)] \<and>
    fld 0 (disk (bsz sb) os' x) = sb_blksz sb - 20 \<and>
    (\<forall>z \<in> set zs. fld 0 (disk (bsz sb) os' z) = IMCHILD) \<and>
    map (\<lambda>b. fld 24 (disk (bsz sb) os' b)) (y # zs) = zs @ [0] \<and> meta_of (bsz sb) os' y = x \<and>
    (\<forall>b < sb_blks sb. 2 < b \<longrightarrow> b \<notin> set (x # y # zs) \<longrightarrow> disk (bsz sb) os' b = disk (bsz sb) os b)"
proof -
  let ?n = "bsz sb" and ?bl = "file_blocks (x # y # zs)" and ?new = "Suc (length zs)"
  note m = volumeD(2) [OF v]
  from write_root_new [OF _ path nm, of x y "zs @ xs" mem buf cnt] v obtain w1 os2 os3 where
    w1: "fs_write_file mem fname buf cnt sb os =
      rbind (space_new (\<lambda>i. mem (8 + i)) cnt w1 (took sb (zs @ xs)) os3) (\<lambda>(r, sb, os).
       case r of None \<Rightarrow> Inr (-1, sb, os)
       | Some (new, w2) \<Rightarrow> rbind (write_inodes new w2 sb os) (\<lambda>(r, os). Inr (r, sb, os)))"
    "volume sb os2 (x # y # zs @ xs) ls" "entries sb os2 ls = entries sb os ls"
    "free_list (took sb (zs @ xs)) os3 (zs @ xs)"
    "\<forall>b < sb_blks sb. b \<noteq> 0 \<longrightarrow> disk ?n os3 b = disk ?n os2 b" "buffers ?n (w_bufs w1)"
    "root_dir ?n (b_pinfo (w_bufs w1)) (b_pin (w_bufs w1)) ls" "w_blocks w1 = [0 \<mapsto> x, 1 \<mapsto> y]"
    "w_pin_b w1 = 2" "w_pinfo_b w1 = 1" "fld 0 (b_info (w_bufs w1)) = sb_blksz sb - 20"
    "named (b_info (w_bufs w1))" "name_of (b_info (w_bufs w1)) = nm" "same_disk sb os os2" by auto
  have m3: "mounted sb os3" using free_listD(1) [OF w1(4)] by simp
  from space_new_ok [OF w1(4) m3 w1(6,7) room, of x y cnt "\<lambda>i. mem (8 + i)"] w1(8-10) cnt left small
  obtain w2 os4 where
    w2: "space_new (\<lambda>i. mem (8 + i)) cnt w1 (took sb (zs @ xs)) os3 = Inr (Some (?new, w2), took sb xs, os4)"
    "free_list (took sb xs) os4 xs" "mounted sb os4"
    "\<forall>b < sb_blks sb. b \<noteq> 0 \<longrightarrow> disk ?n os4 b = disk ?n os3 b"
    "buffers ?n (w_bufs w2)" "root_dir ?n (b_pinfo (w_bufs w2)) (b_pin (w_bufs w2)) (ls @ [y])"
    "b_info (w_bufs w2) = b_info (w_bufs w1)" "w_pin_b w2 = 2" "w_pinfo_b w2 = 1"
    "\<forall>j \<le> ?new. w_blocks w2 j = Some (?bl j)" by auto
  have dist: "distinct (x # y # zs)" "set (x # y # zs) \<inter> set xs = {}"
    using free_listD(3) [OF volumeD(1) [OF v]] by auto
  have bl_in: "?bl j \<in> set (x # y # zs)" if "j \<le> ?new" for j
    using that nth_mem [of j "x # y # zs"] by (simp add: file_blocks_def)
  have bl: "\<forall>j \<le> ?new. ?bl j < sb_blks (took sb xs) \<and> ?bl j \<noteq> 0 \<and> ?bl j \<noteq> 1 \<and> ?bl j \<noteq> 2"
    using bl_in volume_blocks [OF v] by (metis (no_types, lifting) Un_iff append_Cons set_append took_simps(2))
  have inj: "\<forall>i j. i < j \<longrightarrow> j \<le> ?new \<longrightarrow> ?bl i \<noteq> ?bl j"
    using file_blocks_inj [OF dist(1)] by simp
  from write_inodes_ok [of "took sb xs" os4 w2 ?new ?bl] w2(3,5,8,9,10) small bl inj obtain os5 in1 where
    w3: "write_inodes ?new w2 (took sb xs) os4 = Inr (0, os5)" "mounted sb os5"
    "disk ?n os5 0 = sb_bytes (took sb xs)" "disk ?n os5 1 = b_pinfo (w_bufs w2)"
    "disk ?n os5 2 = b_pin (w_bufs w2)" "disk ?n os5 x = b_info (w_bufs w2)"
    "disk ?n os5 y = in1" "fld 0 in1 = IMREG" "fld 16 in1 = x"
    "\<forall>j. 2 \<le> j \<longrightarrow> j \<le> ?new \<longrightarrow> linked_child ?n os5 ?bl ?new j"
    "\<forall>b < sb_blks sb. 2 < b \<longrightarrow> b \<notin> ?bl ` {..?new} \<longrightarrow> disk ?n os5 b = disk ?n os4 b"
    "fld 24 in1 = (if ?new = 1 then 0 else ?bl 2)"
    by (auto simp: file_blocks_def)
  have run: "fs_write_file mem fname buf cnt sb os = Inr (0, took sb xs, os5)"
    using w1(1) w2(1) w3(1) by simp
  have range: "?bl ` {..?new} \<subseteq> set (x # y # zs)" using bl_in by blast
  have keep: "\<forall>b < sb_blks sb. 2 < b \<longrightarrow> b \<notin> set (x # y # zs) \<longrightarrow> disk ?n os5 b = disk ?n os2 b"
  proof (intro allI impI)
    fix b assume b: "b < sb_blks sb" "2 < b" "b \<notin> set (x # y # zs)"
    then have "b \<noteq> 0" "b \<notin> ?bl ` {..?new}" using range by auto
    then show "disk ?n os5 b = disk ?n os2 b"
      using b(1,2) w3(11) w2(4) w1(5) by simp
  qed
  have old: "volume sb os2 ((x # y # zs) @ xs) ls" using w1(2) by simp
  have "\<forall>b \<in> set xs. disk ?n os5 b = disk ?n os4 b"
  proof
    fix b assume b: "b \<in> set xs"
    then have "b \<notin> ?bl ` {..?new}" using range dist(2) by blast
    then show "disk ?n os5 b = disk ?n os4 b" using w3(11) volume_blocks [OF v, of b] b by simp
  qed
  then have fl5: "free_list (took sb xs) os5 xs"
    using w2(2) w3(2) chain_cong [of xs ?n os5 os4] by (simp add: free_list_def)
  have root5: "root_dir ?n (disk ?n os5 1) (disk ?n os5 2) (ls @ [y])" using w3(4,5) w2(6) by simp
  have new: "x \<in> set (x # y # zs)" "y \<in> set (x # y # zs)" "fld 0 (disk ?n os5 y) = IMREG" "IMREG \<noteq> IMCHILD"
    "fld 16 (disk ?n os5 y) = x" "named (disk ?n os5 x)" "name_of (disk ?n os5 x) = nm"
    using w3(6-9) w2(7) w1(12,13) by simp_all
  have children: "fld 0 (disk ?n os5 z) = IMCHILD" if z: "z \<in> set zs" for z
  proof -
    from z obtain i where "i < length zs" "zs ! i = z" by (auto simp: in_set_conv_nth)
    with w3(10)[rule_format, of "i + 2"] show ?thesis by (simp add: file_blocks_def linked_child_def)
  qed
  have links: "map (\<lambda>b. fld 24 (disk ?n os5 b)) (y # zs) = zs @ [0]"
  proof (rule nth_equalityI)
    fix i assume i: "i < length (map (\<lambda>b. fld 24 (disk ?n os5 b)) (y # zs))"
    show "map (\<lambda>b. fld 24 (disk ?n os5 b)) (y # zs) ! i = (zs @ [0]) ! i"
    proof (cases i)
      case 0
      then show ?thesis using w3(7,12) by (cases zs) (simp_all add: file_blocks_def)
    next
      case (Suc j)
      then have "linked_child ?n os5 ?bl ?new (i + 1)" using w3(10) i by simp
      then show ?thesis using Suc i by (auto simp: linked_child_def file_blocks_def nth_append)
    qed
  qed simp
  have xy: "x \<noteq> y" using dist(1) by simp
  note add = volume_add [OF old fl5 w3(3) keep root5 xy new]
  show ?thesis
    using run add w1(3) w3(6,7,9) w2(7) w1(11,14) children links keep
    by (intro exI [of _ os5]) (simp add: meta_of_def same_disk_def)
qed

end
