(* ===== verification/Fs_Full.thy ===== *)
theory Fs_Full
  imports Fs_Write_Correct
begin

text \<open>
  Two runs that go wrong: a directory made on a full disk, and a file smaller than a block.
\<close>

section \<open>A full disk\<close>

lemma get_full: "free_list sb os [] \<Longrightarrow> fs_get_block junk sb os' = Inr (0, sb, os'\<lparr>errno := ENOSPC\<rparr>)"
  using free_listD(5) [of sb os "[]"] by (simp add: fs_get_block_def unat_eq_0)

lemma disk_errno [simp]: "disk n (os\<lparr>errno := e\<rparr>) b = disk n os b"
  by (simp add: disk_def)

lemma write_step_errno:
  assumes "mounted sb os" "b < sb_blks sb" "length buf = bsz sb"
  shows "\<exists>os'. write_block sb b buf os = Inr os' \<and> disk_upd sb b buf os os' \<and> errno os' = errno os"
  using assms by (auto simp: write_block_ok disk_upd_def)

lemma make_entry_full:
  assumes v: "volume sb os [] ls"
    and bs: "buffers (bsz sb) bs" "b_in bs = disk (bsz sb) os 2" "b_info bs = disk (bsz sb) os 1"
    and nm: "0 \<notin> set nm" "length nm + 65 \<le> bsz sb" and room: "40 + 8 * length ls \<le> bsz sb"
  shows "\<exists>os'. make_entry j1 j2 nm 1 2 bs sb os = Inr (sb, os') \<and> errno os' = ENOSPC \<and> mounted sb os' \<and>
    (\<forall>b < sb_blks sb. disk (bsz sb) os' b =
      (if b = 0 then sb_bytes sb
       else if b = 1 then put64 0 (fld 0 (b_info bs) + 1) (b_info bs)
       else if b = 2 then put64 (32 + 8 * length ls) 0 (b_in bs)
       else disk (bsz sb) os b))"
proof -
  let ?n = "bsz sb"
  note m = volumeD(2) [OF v] note n = mountedD(3) [OF m] note r = root_dirD [OF volumeD(6) [OF v]]
  note full = get_full [OF volumeD(1) [OF v]]
  let ?info2 = "new_info nm 0 (b_info2 bs)" and ?in2 = "new_inode IMDIR 0 0 (b_in2 bs)"
  let ?info = "put64 0 (fld 0 (b_info bs) + 1) (b_info bs)"
  let ?in = "put64 (32 + 8 * length ls) 0 (b_in bs)"
  have ld: "length (disk ?n os 1) = ?n" "length (disk ?n os 2) = ?n" using m mountedD(6,7) [OF m] by simp_all
  have lens: "length ?info2 = ?n" "length ?in2 = ?n" "length ?info = ?n" "length ?in = ?n"
    using new_info_fields(1) [of nm "b_info2 bs"] new_inode_fields(1) [of "b_in2 bs"] nm bs n room ld
    by simp_all
  have m0: "mounted sb (os\<lparr>errno := ENOSPC\<rparr>)" by (rule same_disk_mounted [OF same_disk_set_errno [OF m]])
  from write_step_errno [OF m0 mountedD(5) [OF m] lens(1)] obtain os1 where
    os1: "write_block sb 0 ?info2 (os\<lparr>errno := ENOSPC\<rparr>) = Inr os1"
    "disk_upd sb 0 ?info2 (os\<lparr>errno := ENOSPC\<rparr>) os1" by blast
  note s1 = same_disk_set_errno [OF disk_upd_mounted [OF os1(2)], of ENOSPC]
  from write_step_errno [OF same_disk_mounted [OF s1] mountedD(5) [OF m] lens(2)] obtain os2 where
    os2: "write_block sb 0 ?in2 (os1\<lparr>errno := ENOSPC\<rparr>) = Inr os2"
    "disk_upd sb 0 ?in2 (os1\<lparr>errno := ENOSPC\<rparr>) os2" "errno os2 = ENOSPC" by auto
  from write_step_errno [OF disk_upd_mounted [OF os2(2)] mountedD(6) [OF m] lens(3)] os2(3) obtain os3 where
    os3: "write_block sb 1 ?info os2 = Inr os3" "disk_upd sb 1 ?info os2 os3" "errno os3 = ENOSPC" by auto
  from write_step_errno [OF disk_upd_mounted [OF os3(2)] mountedD(7) [OF m] lens(4)] os3(3) obtain os4 where
    os4: "write_block sb 2 ?in os3 = Inr os4" "disk_upd sb 2 ?in os3 os4" "errno os4 = ENOSPC" by auto
  from write_step_errno [OF disk_upd_mounted [OF os4(2)] mountedD(5) [OF m] length_sb_bytes [OF m]] os4(3)
  obtain os5 where
    os5: "write_superblock sb os4 = Inr os5" "disk_upd sb 0 (sb_bytes sb) os4 os5" "errno os5 = ENOSPC"
    by (auto simp: write_superblock_def)
  have off: "o_link (uint (fld 0 (disk ?n os 1))) = int (32 + 8 * length ls)"
    by (simp add: o_link_def uint_nat r(5) del: of_nat_unat)
  have "make_entry j1 j2 nm 1 2 bs sb os = Inr (sb, os5)"
    using full os1(1) os2(1) os3(1) os4(1) os5(1) n bs nm room ld
    by (simp add: make_entry_def store64_ok load64_ok strcpy_name off
        o_mode_def o_parent_def o_meta_def o_next_def o_size_def o_name_def
        flip: new_info_def new_inode_def)
  moreover have "disk ?n os5 b = (if b = 0 then sb_bytes sb else if b = 1 then ?info else if b = 2 then ?in
      else disk ?n os b)" if "b < sb_blks sb" for b
    using that by (simp add: disk_updD [OF os5(2)] disk_updD [OF os4(2)] disk_updD [OF os3(2)]
        disk_updD [OF os2(2)] disk_updD [OF os1(2)])
  ultimately show ?thesis using os5(3) disk_upd_mounted [OF os5(2)] by blast
qed

lemma mkdir_full_ok:
  assumes v: "volume sb os [] ls" and path: "subfolders_to_vector path = Inr [nm]"
    and nm: "0 \<notin> set nm" "length nm + 65 \<le> bsz sb" and room: "40 + 8 * length ls \<le> bsz sb"
  shows "\<exists>os'. fs_mkdir mem k path sb os = Inr (0, sb, os') \<and> errno os' = ENOSPC \<and>
    disk (bsz sb) os' 0 = sb_bytes sb \<and>
    root_dir (bsz sb) (disk (bsz sb) os' 1) (disk (bsz sb) os' 2) (ls @ [0]) \<and>
    (\<forall>b < sb_blks sb. 2 < b \<longrightarrow> disk (bsz sb) os' b = disk (bsz sb) os b)"
proof -
  let ?n = "bsz sb" and ?bs = "fresh_bufs mem (bsz sb)"
  note m = volumeD(2) [OF v] note n = mountedD(3) [OF m] note fb = buffers_fresh [of ?n mem]
  from read_step [OF m mountedD(6) [OF m], of "b_info ?bs"] fb obtain os1 where
    os1: "read_block sb 1 (b_info ?bs) os = Inr (disk ?n os 1, os1)" "same_disk sb os os1" by auto
  from read_step [OF same_disk_mounted [OF os1(2)] mountedD(7) [OF m], of "b_in ?bs"] fb
    same_diskD [OF os1(2) mountedD(7) [OF m]] obtain os2 where
    os2: "read_block sb 2 (b_in ?bs) os1 = Inr (disk ?n os 2, os2)" "same_disk sb os1 os2" by auto
  note same = same_disk_trans [OF os1(2) os2(2)]
  let ?bs2 = "?bs\<lparr>b_in := disk ?n os 2, b_info := disk ?n os 1\<rparr>"
  note v2 = volume_same(1) [OF v same]
  have bs: "buffers ?n ?bs2" "b_in ?bs2 = disk ?n os2 2" "b_info ?bs2 = disk ?n os2 1"
    using fb m mountedD(6,7) [OF m]
      same_diskD [OF same mountedD(6) [OF m]] same_diskD [OF same mountedD(7) [OF m]] by simp_all
  from make_entry_full [OF v2 bs nm room, of "mem 6" "mem 7"] obtain os' where
    os': "make_entry (mem 6) (mem 7) nm 1 2 ?bs2 sb os2 = Inr (sb, os')" "errno os' = ENOSPC" and
    d: "\<And>b. b < sb_blks sb \<Longrightarrow> disk ?n os' b =
      (if b = 0 then sb_bytes sb
       else if b = 1 then put64 0 (fld 0 (b_info ?bs2) + 1) (b_info ?bs2)
       else if b = 2 then put64 (32 + 8 * length ls) 0 (b_in ?bs2)
       else disk ?n os2 b)" by blast
  have "fs_mkdir mem k path sb os = Inr (0, sb, os')"
    using path os1(1) os2(1) os'(1) volumeD(4) [OF v] by (simp add: fs_mkdir_def)
  moreover have "root_dir ?n (disk ?n os' 1) (disk ?n os' 2) (ls @ [0])"
    using root_grown_disk [OF v2 room, of 0] bs(2,3) d [OF mountedD(6) [OF m]] d [OF mountedD(7) [OF m]]
    by simp
  moreover have "disk ?n os' b = disk ?n os b" if "b < sb_blks sb" "2 < b" for b
    using d [OF that(1)] same_diskD [OF same that(1)] that(2) by auto
  ultimately show ?thesis using os'(2) d [OF mountedD(5) [OF m]] by auto
qed

section \<open>Small files\<close>

lemma float_exp_small: "n < 2 ^ 24 \<Longrightarrow> float_exp k n = 0"
  by (cases k) simp_all

lemma to_float_exact: "n < 2 ^ 24 \<Longrightarrow> to_float n = n"
  by (simp add: to_float_def round_bits_def float_exp_small Let_def)

text \<open>Below \<open>2\<^sup>24\<close> bytes the number of blocks is never rounded up.\<close>

lemma count_blocks_floor:
  assumes "n < 2 ^ 24" "20 < bsz sb"
  shows "count_blocks n sb = Inr (n div (bsz sb - 20))"
proof -
  have c: "n div (bsz sb - 20) < 2 ^ 24" using assms(1) div_le_dividend le_less_trans by blast
  then have "n div (bsz sb - 20) < 2 ^ 31" by simp
  then show ?thesis
    using assms c by (simp add: count_blocks_def to_float_exact Let_def)
qed

lemma write_inodes_none:
  assumes m: "mounted sb os" and bs: "buffers (bsz sb) (w_bufs w)"
    and a: "w_blocks w = [0 \<mapsto> x, 1 \<mapsto> y]" and xy: "x < sb_blks sb" "y < sb_blks sb"
    and parent: "w_pin_b w = 2" "w_pinfo_b w = 1"
  shows "write_inodes 0 w sb os = Inl Uninitialised"
proof -
  note n = mountedD(3) [OF m]
  from write_step [OF m mountedD(7) [OF m], of "b_pin (w_bufs w)"] bs obtain os1 where
    os1: "write_block sb 2 (b_pin (w_bufs w)) os = Inr os1" "disk_upd sb 2 (b_pin (w_bufs w)) os os1" by auto
  from write_step [OF disk_upd_mounted [OF os1(2)] mountedD(6) [OF m], of "b_pinfo (w_bufs w)"] bs obtain os2 where
    os2: "write_block sb 1 (b_pinfo (w_bufs w)) os1 = Inr os2"
    "disk_upd sb 1 (b_pinfo (w_bufs w)) os1 os2" by auto
  from write_step [OF disk_upd_mounted [OF os2(2)] xy(1), of "b_info (w_bufs w)"] bs obtain os3 where
    os3: "write_block sb x (b_info (w_bufs w)) os2 = Inr os3" by auto
  have blk: "get_blk (w_blocks w) 0 = Inr x" "get_blk (w_blocks w) 1 = Inr y"
    "get_blk (w_blocks w) 2 = Inl Uninitialised"
    by (simp_all add: a get_blk_def MAX_FILE_SIZE_def)
  show ?thesis
    using os1(1) os2(1) os3 blk bs n parent
    by (simp add: write_inodes_def update_parent_def store64_ok o_mode_def o_parent_def o_meta_def Let_def)
qed

lemma write_small:
  assumes v: "volume sb os (x # y # xs) ls" and path: "subfolders_to_vector fname = Inr [nm]"
    and nm: "length nm + 65 \<le> bsz sb" "0 \<notin> set nm" "nm \<notin> fst ` set (entries sb os ls)"
    and room: "40 + 8 * length ls \<le> bsz sb" and cnt: "count_blocks cnt sb = Inr 0"
  shows "fs_write_file mem fname buf cnt sb os = Inl Uninitialised"
proof -
  let ?n = "bsz sb"
  note m = volumeD(2) [OF v]
  from write_root_new [OF v path nm] obtain w1 os2 os3 where w1:
    "fs_write_file mem fname buf cnt sb os =
      rbind (space_new (\<lambda>i. mem (8 + i)) cnt w1 (took sb xs) os3) (\<lambda>(r, sb, os).
       case r of None \<Rightarrow> Inr (-1, sb, os)
       | Some (new, w2) \<Rightarrow> rbind (write_inodes new w2 sb os) (\<lambda>(r, os). Inr (r, sb, os)))"
    "free_list (took sb xs) os3 xs" "buffers ?n (w_bufs w1)"
    "root_dir ?n (b_pinfo (w_bufs w1)) (b_pin (w_bufs w1)) ls"
    "w_blocks w1 = [0 \<mapsto> x, 1 \<mapsto> y]" "w_pin_b w1 = 2" "w_pinfo_b w1 = 1" by blast
  let ?bs = "w_bufs w1"
  let ?pin = "put64 (32 + 8 * length ls) y (b_pin ?bs)"
  let ?pinfo = "put64 0 (fld 0 (b_pinfo ?bs) + 1) (b_pinfo ?bs)"
  let ?w = "w1\<lparr>w_bufs := ?bs\<lparr>b_pin := ?pin, b_pinfo := ?pinfo\<rparr>\<rparr>"
  note n = mountedD(3) [OF m]
  have off: "o_link (uint (fld 0 (b_pinfo ?bs))) = int (32 + 8 * length ls)"
    by (simp add: o_link_def uint_nat root_dirD(5) [OF w1(4)] del: of_nat_unat)
  have one: "get_blk (w_blocks w1) 1 = Inr y" by (simp add: w1(5) get_blk_def MAX_FILE_SIZE_def)
  have bufs: "load64 o_size (b_pinfo ?bs) = Inr (fld 0 (b_pinfo ?bs))"
    "store64 o_size (fld 0 (b_pinfo ?bs) + 1) (b_pinfo ?bs) = Inr ?pinfo"
    "store64 (int (32 + 8 * length ls)) y (b_pin ?bs) = Inr ?pin"
    using w1(3) n room by (simp_all add: load64_ok store64_ok o_size_def)
  have space: "space_new (\<lambda>i. mem (8 + i)) cnt w1 (took sb xs) os3 = Inr (Some (0, ?w), took sb xs, os3)"
    unfolding space_new_def Let_def one rbind.simps bufs off count_blocks_cong cnt by simp
  have xy: "x < sb_blks sb" "y < sb_blks sb"
    using volume_blocks(1) [OF v, of x] volume_blocks(1) [OF v, of y] by simp_all
  have "write_inodes 0 ?w (took sb xs) os3 = Inl Uninitialised"
    using free_listD(1) [OF w1(2)] w1(3,5-7) n room xy
    by (intro write_inodes_none [where x = x and y = y]) simp_all
  then show ?thesis using w1(1) space by simp
qed

end
