(* ===== verification/Fs_Remove.thy ===== *)
theory Fs_Remove
  imports Fs_Write
begin

text \<open>
  Removing an entry of the root: \<open>fs_unlink\<close> and \<open>fs_rmdir\<close> when the variable they never assign
  holds the index of the entry.
\<close>

section \<open>Links\<close>

lemma shift_links_ok:
  assumes "40 + 8 * (i + m) \<le> length b"
  shows "\<exists>c. shift_links m i b = Inr c \<and> length c = length b \<and>
    (\<forall>off. off + 8 \<le> 32 \<longrightarrow> fld off c = fld off b) \<and>
    (\<forall>j. 40 + 8 * j \<le> length b \<longrightarrow>
      fld (32 + 8 * j) c = (if i \<le> j \<and> j < i + m then fld (32 + 8 * (j + 1)) b else fld (32 + 8 * j) b))"
  using assms
proof (induction m arbitrary: i b)
  case 0
  then show ?case by auto
next
  case (Suc m)
  let ?b = "put64 (32 + 8 * i) (fld (32 + 8 * (i + 1)) b) b"
  have len: "length ?b = length b" using Suc.prems by simp
  have other: "fld (32 + 8 * j) ?b = (if j = i then fld (32 + 8 * (i + 1)) b else fld (32 + 8 * j) b)"
    if "40 + 8 * j \<le> length b" for j
    using that Suc.prems by (cases i j rule: linorder_cases) (auto simp: fld_put64_other)
  have head: "fld off ?b = fld off b" if "off + 8 \<le> 32" for off
    using that Suc.prems by (simp add: fld_put64_other)
  have "40 + 8 * (i + 1 + m) \<le> length ?b" using len Suc.prems by simp
  from Suc.IH [OF this] obtain c where
    c: "shift_links m (i + 1) ?b = Inr c" "length c = length b"
    "\<forall>off. off + 8 \<le> 32 \<longrightarrow> fld off c = fld off ?b"
    "\<forall>j. 40 + 8 * j \<le> length b \<longrightarrow> fld (32 + 8 * j) c =
      (if i + 1 \<le> j \<and> j < i + 1 + m then fld (32 + 8 * (j + 1)) ?b else fld (32 + 8 * j) ?b)"
    unfolding len by blast
  have links: "load64 (o_link (int i + 1)) b = Inr (fld (32 + 8 * (i + 1)) b)"
    "store64 (o_link (int i)) v b = Inr (put64 (32 + 8 * i) v b)" for v
    using Suc.prems load_link [of "i + 1" b] store_link [of i b v] by (simp_all add: add.commute)
  have "shift_links (Suc m) i b = Inr c" using c(1) links by simp
  moreover have "fld (32 + 8 * j) c = (if i \<le> j \<and> j < i + Suc m then fld (32 + 8 * (j + 1)) b
      else fld (32 + 8 * j) b)" if j: "40 + 8 * j \<le> length b" for j
  proof (cases "i < j \<and> j < i + Suc m")
    case True
    then have "40 + 8 * (j + 1) \<le> length b" using Suc.prems by simp
    then show ?thesis using True c(4)[rule_format, OF j] other [of "j + 1"] by simp
  next
    case False
    then show ?thesis using c(4)[rule_format, OF j] other [OF j] by auto
  qed
  ultimately show ?case using c(2,3) head by auto
qed

lemma remove_loop_ok:
  assumes "i \<le> p" "p < k" "32 + 8 * k \<le> length b"
    and "fld (32 + 8 * p) b = l" "\<forall>j < p. fld (32 + 8 * j) b \<noteq> l"
  shows "remove_loop l (k - i) i b = shift_links (k - Suc p) p b"
  using assms
proof (induction "p - i" arbitrary: i)
  case 0
  then have i: "i = p" by simp
  have "load64 (o_link (int p)) b = Inr l" using 0 by (simp add: load64_ok o_link_def)
  moreover have "k - i = Suc (k - Suc p)" using 0 i by simp
  ultimately show ?case using i by simp
next
  case (Suc d)
  then have i: "i < p" by simp
  have "load64 (o_link (int i)) b = Inr (fld (32 + 8 * i) b)" using Suc i by (simp add: load64_ok o_link_def)
  moreover have "fld (32 + 8 * i) b \<noteq> l" using Suc.prems i by blast
  moreover have "k - i = Suc (k - Suc i)" using i Suc.prems by simp
  moreover have "remove_loop l (k - Suc i) (Suc i) b = shift_links (k - Suc p) p b"
    using Suc.hyps(2) Suc.prems i by (intro Suc.hyps(1)) auto
  ultimately show ?case by simp
qed

definition drop_nth :: "nat \<Rightarrow> 'a list \<Rightarrow> 'a list" where
  "drop_nth p xs = take p xs @ drop (Suc p) xs"

lemma length_drop_nth: "p < length xs \<Longrightarrow> length (drop_nth p xs) = length xs - 1"
  by (simp add: drop_nth_def)

lemma nth_drop_nth:
  "p < length xs \<Longrightarrow> j < length xs - 1 \<Longrightarrow> drop_nth p xs ! j = (if p \<le> j then xs ! (j + 1) else xs ! j)"
  by (auto simp: drop_nth_def nth_append min_def)

lemma map_drop_nth: "map f (drop_nth p xs) = drop_nth p (map f xs)"
  by (simp add: drop_nth_def drop_map take_map)

lemma set_drop_nth: "set (drop_nth p xs) \<subseteq> set xs"
  using set_take_subset [of p xs] set_drop_subset [of "Suc p" xs] by (auto simp: drop_nth_def)

lemma distinct_drop_nth:
  assumes "distinct xs" "p < length xs"
  shows "distinct (drop_nth p xs)" "xs ! p \<notin> set (drop_nth p xs)"
  using assms id_take_nth_drop [OF assms(2)] distinct_append [of "take p xs" "xs ! p # drop (Suc p) xs"]
  by (auto simp: drop_nth_def)

lemma root_dropped:
  assumes r: "dir_at n c0 info ino ls" and len: "length info = n" "length ino = n" "128 \<le> n" "n < 2 ^ 64"
    and p: "p < length ls" "distinct ls"
  shows "\<exists>ino'. remove_deleted_directory ino info (ls ! p) = Inr ino' \<and> length ino' = n \<and>
    dir_at n c0 (put64 0 (fld 0 info - 1) info) ino' (drop_nth p ls)"
proof -
  note d = root_dirD [OF r]
  have at: "fld (32 + 8 * p) ino = ls ! p" using d(7) p by simp
  have before: "\<forall>j < p. fld (32 + 8 * j) ino \<noteq> ls ! p"
    using d(7) p nth_eq_iff_index_eq [OF p(2)] by auto
  have "40 + 8 * (p + (length ls - Suc p)) \<le> length ino" using d(6) p len by simp
  from shift_links_ok [OF this] obtain c where
    c: "shift_links (length ls - Suc p) p ino = Inr c" "length c = n"
    "\<forall>off. off + 8 \<le> 32 \<longrightarrow> fld off c = fld off ino"
    "\<forall>j. 40 + 8 * j \<le> n \<longrightarrow> fld (32 + 8 * j) c =
      (if p \<le> j \<and> j < p + (length ls - Suc p) then fld (32 + 8 * (j + 1)) ino else fld (32 + 8 * j) ino)"
    unfolding len(2) by blast
  have "load64 o_size info = Inr (fld 0 info)" using len by (simp add: load64_ok o_size_def)
  then have "remove_deleted_directory ino info (ls ! p) = Inr c"
    using remove_loop_ok [of 0 p "length ls" ino "ls ! p"] p d(5,6) at before len c(1)
    by (simp add: remove_deleted_directory_def)
  moreover have "unat (fld 0 info - 1) = length ls - 1"
    using d(5) p(1) by (metis One_nat_def Suc_leI gr_implies_not0 neq0_conv unat_1 unat_gt_0 unat_sub word_le_nat_alt)
  moreover have "fld (32 + 8 * j) c = drop_nth p ls ! j" if j: "j < length ls - 1" for j
    using c(4)[rule_format, of j] j p(1) d(6) d(7) [of j] d(7) [of "j + 1"]
    by (auto simp: nth_drop_nth)
  ultimately show ?thesis
    using c(2,3) d p len by (intro exI [of _ c]) (auto simp: dir_at_def length_drop_nth)
qed

end
