(* ===== verification/Fs_Remove_Correct.thy ===== *)
theory Fs_Remove_Correct
  imports Fs_Remove
begin

text \<open>
  The two functions that remove an entry, from the walk to the superblock.
\<close>

section \<open>Returning the blocks\<close>

lemma put_step:
  assumes "free_list sb os xs" "b \<noteq> 0" "b < sb_blks sb" "b \<notin> set xs"
  shows "\<exists>os'. fs_put_block junk b sb os = Inr (0, took sb (b # xs), os') \<and>
    free_list (took sb (b # xs)) os' (b # xs) \<and>
    (\<forall>c < sb_blks sb. c \<noteq> 0 \<longrightarrow> c \<noteq> b \<longrightarrow> disk (bsz sb) os' c = disk (bsz sb) os c)"
proof -
  note m = free_listD(1) [OF assms(1)]
  from fs_put_block_ok [OF assms, of junk] obtain fp where fp: "length fp = bsz sb"
    "fs_put_block junk b sb os =
        Inr (0, took sb (b # xs), sync (took sb (b # xs)) (put_disk (sb_fd sb) (bsz sb) b fp os))"
    "free_list (took sb (b # xs))
        (sync (took sb (b # xs)) (put_disk (sb_fd sb) (bsz sb) b fp os)) (b # xs)" by blast
  moreover have "disk (bsz sb) (sync (took sb (b # xs)) (put_disk (sb_fd sb) (bsz sb) b fp os)) c =
      disk (bsz sb) os c" if "c < sb_blks sb" "c \<noteq> 0" "c \<noteq> b" for c
    using m assms(3) fp(1) that by simp
  ultimately show ?thesis by blast
qed

lemma volume_remove:
  assumes v: "volume sb os xs ls" and p: "p < length ls"
    and l: "l = ls ! p" "m = meta_of (bsz sb) os l"
    and fl: "free_list (took sb (l # m # xs)) os' (l # m # xs)"
    and sup: "disk (bsz sb) os' 0 = sb_bytes (took sb (l # m # xs))"
    and same: "\<forall>b < sb_blks sb. 2 < b \<longrightarrow> b \<notin> {l, m} \<longrightarrow> disk (bsz sb) os' b = disk (bsz sb) os b"
    and root: "root_dir (bsz sb) (disk (bsz sb) os' 1) (disk (bsz sb) os' 2) (drop_nth p ls)"
  shows "volume (took sb (l # m # xs)) os' (l # m # xs) (drop_nth p ls)"
    and "entries (took sb (l # m # xs)) os' (drop_nth p ls) = drop_nth p (entries sb os ls)"
proof -
  let ?n = "bsz sb" and ?ls = "drop_nth p ls"
  have sub: "set ?ls \<subseteq> set ls" by (rule set_drop_nth)
  have l_in: "l \<in> set ls" using p l(1) by simp
  note dist = volumeD(8) [OF v]
  have dls: "distinct ls" and dm: "distinct (map (meta_of ?n os) ls)" and
    sep: "set ls \<inter> meta_of ?n os ` set ls = {}" using dist by simp_all
  have l_out: "l \<notin> set ?ls" using distinct_drop_nth(2) [OF dls p] l(1) by simp
  have m_out: "m \<notin> set (map (meta_of ?n os) ?ls)"
    using distinct_drop_nth(2) [OF dm, of p] p l by (simp add: map_drop_nth)
  have e: "entry_ok sb os xs b" "b \<noteq> l" "b \<noteq> m" "meta_of ?n os b \<noteq> l" "meta_of ?n os b \<noteq> m"
    if "b \<in> set ?ls" for b
  proof -
    have b: "b \<in> set ls" "meta_of ?n os b \<in> meta_of ?n os ` set ls" using that sub by auto
    have m: "m \<in> meta_of ?n os ` set ls" using l_in l(2) by simp
    show "entry_ok sb os xs b" by (rule volumeD(7) [OF v b(1)])
    show "b \<noteq> l" "b \<noteq> m" "meta_of ?n os b \<noteq> l"
      using that b m l_in l_out sep by blast+
    show "meta_of ?n os b \<noteq> m" using that m_out by (metis imageI set_map)
  qed
  have keep: "disk ?n os' b = disk ?n os b" "meta_of ?n os' b = meta_of ?n os b"
      "disk ?n os' (meta_of ?n os b) = disk ?n os (meta_of ?n os b)" if "b \<in> set ?ls" for b
    using e [OF that] entry_okD [OF e(1) [OF that]] same by (simp_all add: meta_of_def)
  have ok: "entry_ok sb os' (l # m # xs) b" if "b \<in> set ?ls" for b
    using e [OF that] keep [OF that] entry_okD [OF e(1) [OF that]] by (simp add: entry_ok_def)
  have eq: "entry_ok (took sb (l # m # xs)) os' (l # m # xs) = entry_ok sb os' (l # m # xs)"
    by (simp add: fun_eq_iff entry_ok_def)
  have "distinct (map (meta_of ?n os) ?ls)"
    using distinct_drop_nth(1) [OF dm, of p] p by (simp add: map_drop_nth)
  moreover have "set ?ls \<inter> meta_of ?n os ` set ?ls = {}" using sep sub by blast
  ultimately have "distinct (?ls @ map (meta_of ?n os) ?ls)"
    using distinct_drop_nth(1) [OF dls p] by simp
  then have d: "distinct (?ls @ map (meta_of ?n os') ?ls)"
    using metas_cong [of ?ls "meta_of ?n os'" "meta_of ?n os"] keep(2) by blast
  note lm = entry_okD(1,4) [OF volumeD(7) [OF v l_in], folded l(2)]
  show "volume (took sb (l # m # xs)) os' (l # m # xs) ?ls"
    using fl sup root ok d volumeD(3,4) [OF v] lm by (auto simp: volume_def eq)
  show "entries (took sb (l # m # xs)) os' ?ls = drop_nth p (entries sb os ls)"
    using keep by (simp add: entries_def entry_of_def map_drop_nth [symmetric])
qed

text \<open>From the freed blocks to the superblock.\<close>

lemma drop_entry_at:
  assumes fl: "free_list sb os xs" and bs: "buffers (bsz sb) bs"
    and dir: "dir_at (bsz sb) c (b_pinfo bs) (b_pin bs) ls" and p: "p < length ls" "distinct ls" and l: "l = ls ! p"
    and blks: "\<forall>a \<in> {l, m, b, c}. a \<noteq> 0 \<and> a < sb_blks sb \<and> a \<notin> set xs" and dist: "distinct [l, m, b, c]"
    and zero: "0 \<notin> set xs"
  shows "\<exists>os'. drop_entry j1 j2 (Some (m, l)) (c, b) bs sb os = Inr (0, took sb (l # m # xs), os') \<and>
    free_list (took sb (l # m # xs)) os' (l # m # xs) \<and> disk (bsz sb) os' 0 = sb_bytes (took sb (l # m # xs)) \<and>
    dir_at (bsz sb) c (disk (bsz sb) os' c) (disk (bsz sb) os' b) (drop_nth p ls) \<and>
    name_of (disk (bsz sb) os' c) = name_of (b_pinfo bs) \<and>
    (\<forall>a < sb_blks sb. a \<notin> {0, b, c, l, m} \<longrightarrow> disk (bsz sb) os' a = disk (bsz sb) os a)"
proof -
  let ?n = "bsz sb" and ?sb = "took sb (l # m # xs)"
  note mt = free_listD(1) [OF fl] note n = mountedD(3) [OF mt]
  from put_step [OF fl, of m j1] blks obtain os1 where
    os1: "fs_put_block j1 m sb os = Inr (0, took sb (m # xs), os1)" "free_list (took sb (m # xs)) os1 (m # xs)"
    "\<forall>a < sb_blks sb. a \<noteq> 0 \<longrightarrow> a \<noteq> m \<longrightarrow> disk ?n os1 a = disk ?n os a" by blast
  from put_step [OF os1(2), of l j2] blks dist obtain os2 where
    os2: "fs_put_block j2 l (took sb (m # xs)) os1 = Inr (0, ?sb, os2)" "free_list ?sb os2 (l # m # xs)"
    "\<forall>a < sb_blks sb. a \<noteq> 0 \<longrightarrow> a \<noteq> l \<longrightarrow> disk ?n os2 a = disk ?n os1 a" by auto
  from root_dropped [OF dir _ _ n bsz_bound p] bs obtain ino where
    ino: "remove_deleted_directory (b_pin bs) (b_pinfo bs) l = Inr ino" "length ino = ?n"
    "dir_at ?n c (put64 0 (fld 0 (b_pinfo bs) - 1) (b_pinfo bs)) ino (drop_nth p ls)"
    unfolding l by auto
  let ?info = "put64 0 (fld 0 (b_pinfo bs) - 1) (b_pinfo bs)"
  have info: "load64 o_size (b_pinfo bs) = Inr (fld 0 (b_pinfo bs))"
    "store64 o_size (fld 0 (b_pinfo bs) - 1) (b_pinfo bs) = Inr ?info" "length ?info = ?n"
    using bs n by (simp_all add: load64_ok store64_ok o_size_def)
  have b: "b < sb_blks sb" "b \<notin> set (l # m # xs)" "b \<noteq> 0" "c < sb_blks sb" "c \<notin> set (l # m # xs)" "c \<noteq> 0"
    "b \<noteq> c" "c \<noteq> b" using blks dist by auto
  have zero: "0 \<notin> set (l # m # xs)" using zero blks by auto
  from write_step [OF free_listD(1) [OF os2(2)], of b ino] ino(2) b(1) obtain os3 where
    os3: "write_block ?sb b ino os2 = Inr os3" "disk_upd sb b ino os2 os3" by auto
  have fl3: "free_list ?sb os3 (l # m # xs)" using free_list_upd [OF os2(2), of b ino os3] os3(2) b(2) by simp
  from write_step [OF free_listD(1) [OF fl3], of c ?info] info(3) b(4) obtain os4 where
    os4: "write_block ?sb c ?info os3 = Inr os4" "disk_upd sb c ?info os3 os4" by auto
  have fl4: "free_list ?sb os4 (l # m # xs)" using free_list_upd [OF fl3, of c ?info os4] os4(2) b(5) by simp
  from write_step [OF free_listD(1) [OF fl4], of 0 "sb_bytes ?sb"] length_sb_bytes [OF free_listD(1) [OF fl4]]
    mountedD(5) [OF mt] obtain os5 where
    os5: "write_superblock ?sb os4 = Inr os5" "disk_upd sb 0 (sb_bytes ?sb) os4 os5"
    by (auto simp: write_superblock_def)
  have fl5: "free_list ?sb os5 (l # m # xs)" using free_list_upd [OF fl4, of 0 "sb_bytes ?sb" os5] os5(2) zero by simp
  have run: "drop_entry j1 j2 (Some (m, l)) (c, b) bs sb os = Inr (0, ?sb, os5)"
    using os1(1) os2(1) ino(1) info(1,2) os3(1) os4(1) os5(1) by (simp add: drop_entry_def update_parent_def)
  have d: "disk ?n os5 a = (if a = 0 then sb_bytes ?sb else if a = c then ?info else if a = b then ino
      else disk ?n os2 a)" if "a < sb_blks sb" for a
    using disk_updD [OF os5(2) that] disk_updD [OF os4(2) that] disk_updD [OF os3(2) that] by simp
  have "\<forall>a < sb_blks sb. a \<notin> {0, b, c, l, m} \<longrightarrow> disk ?n os5 a = disk ?n os a"
    using d os1(3) os2(3) by simp
  moreover have "name_of ?info = name_of (b_pinfo bs)" using bs n by simp
  ultimately show ?thesis
    using run fl5 ino(3) d [OF mountedD(5) [OF mt]] d [OF b(1)] d [OF b(4)] b(3,6,7,8)
    by (intro exI [of _ os5]) simp
qed

lemma drop_entry_ok:
  assumes v: "volume sb os xs ls" and p: "p < length ls"
    and l: "l = ls ! p" "m = meta_of (bsz sb) os l"
    and bs: "buffers (bsz sb) bs" and root: "root_dir (bsz sb) (b_pinfo bs) (b_pin bs) ls"
  shows "\<exists>os'. drop_entry j1 j2 (Some (m, l)) (1, 2) bs sb os = Inr (0, took sb (l # m # xs), os') \<and>
    volume (took sb (l # m # xs)) os' (l # m # xs) (drop_nth p ls) \<and>
    entries (took sb (l # m # xs)) os' (drop_nth p ls) = drop_nth p (entries sb os ls) \<and>
    (\<forall>b < sb_blks sb. 2 < b \<longrightarrow> b \<notin> {l, m} \<longrightarrow> disk (bsz sb) os' b = disk (bsz sb) os b)"
proof -
  let ?n = "bsz sb" and ?sb = "took sb (l # m # xs)"
  have l_in: "l \<in> set ls" using p l(1) by simp
  note mt = volumeD(2) [OF v] note e = entry_okD [OF volumeD(7) [OF v l_in], folded l(2)]
  have "l \<notin> {0, 1, 2}" "m \<notin> {0, 1, 2}" "l \<noteq> m" using e(1,4) l l_in volumeD(8) [OF v] by auto
  then have blks: "\<forall>a \<in> {l, m, 2, 1}. a \<noteq> 0 \<and> a < sb_blks sb \<and> a \<notin> set xs" "distinct [l, m, 2, 1]"
    using e mountedD(6,7) [OF mt] volume_low [OF v, of 1] volume_low [OF v, of 2] by simp_all
  have "distinct ls" using volumeD(8) [OF v] by simp
  from drop_entry_at [OF volumeD(1) [OF v] bs root p this l(1) blks volume_low [OF v word_zero_le], of j1 j2] obtain os' where
    r: "drop_entry j1 j2 (Some (m, l)) (1, 2) bs sb os = Inr (0, ?sb, os')" "free_list ?sb os' (l # m # xs)"
    "disk ?n os' 0 = sb_bytes ?sb" "root_dir ?n (disk ?n os' 1) (disk ?n os' 2) (drop_nth p ls)"
    "\<forall>a < sb_blks sb. a \<notin> {0, 2, 1, l, m} \<longrightarrow> disk ?n os' a = disk ?n os a" by blast
  have same: "\<forall>b < sb_blks sb. 2 < b \<longrightarrow> b \<notin> {l, m} \<longrightarrow> disk ?n os' b = disk ?n os b"
  proof (intro allI impI)
    fix b assume b: "b < sb_blks sb" "2 < b" "b \<notin> {l, m}"
    then have "b \<noteq> 0" "b \<noteq> 1" "b \<noteq> 2" by auto
    then show "disk ?n os' b = disk ?n os b" using b r(5) by simp
  qed
  from r(1) volume_remove [OF v p l r(2,3) same r(4)] same show ?thesis by blast
qed

section \<open>The walk\<close>

text \<open>
  The copies between the buffers stay within them when the entry is a file or the links of the
  directory fit.
\<close>

definition links_fit :: "nat \<Rightarrow> fs_os \<Rightarrow> 64 word \<Rightarrow> bool" where
  "links_fit n os l \<longleftrightarrow> (fld 0 (disk n os l) = IMDIR \<longrightarrow>
     32 + 8 * unat (fld 0 (disk n os (meta_of n os l))) \<le> n)"

lemma copy_inode_fits:
  assumes "length a = n" "length b = n" "length c = n" "32 \<le> n"
    and "fld 0 b = IMDIR \<longrightarrow> 32 + 8 * unat (fld 0 c) \<le> n"
  shows "\<exists>p. copy_inode a b c = Inr p \<and> length p = n"
proof (cases "fld 0 b = IMDIR")
  case False
  with copy_file_inode [OF assms(1,2,4)] show ?thesis by blast
next
  case True
  let ?a = "put64 24 (fld 24 b) (put64 16 (fld 16 b) (put64 8 (fld 8 b) (put64 0 (fld 0 b) a)))"
  have "length ?a = n" "\<forall>i \<in> set [0..<unat (fld 0 c)]. 40 + 8 * i \<le> n" using assms True by auto
  from copy_links_ok [OF this(1) assms(2) this(2)] True assms show ?thesis
    by (auto simp: copy_inode_def load64_ok store64_ok field_defs)
qed

lemma remove_walk_ok:
  assumes v: "volume sb os xs ls" and bs: "buffers (bsz sb) bs"
    and root: "root_dir (bsz sb) (b_info bs) (b_in bs) ls"
    and found: "find_index (\<lambda>l. fst (entry_of (bsz sb) os l) = nm) ls = Some p"
    and l: "l = ls ! p" "links_fit (bsz sb) os l"
  shows "\<exists>bs' os'. remove_walk sb (int p) [nm] t (1, 2) bs os =
      Inr (Some (Some (meta_of (bsz sb) os l, l), (1, 2), bs'), os') \<and> same_disk sb os os' \<and>
    buffers (bsz sb) bs' \<and> root_dir (bsz sb) (b_pinfo bs') (b_pin bs') ls \<and>
    fld 0 (b_info bs') = fld 0 (disk (bsz sb) os (meta_of (bsz sb) os l))"
proof -
  let ?n = "bsz sb"
  note m = volumeD(2) [OF v] note n = mountedD(3) [OF m] note r = root_dirD [OF root]
  have p: "p < length ls" using found unfolding find_index_Some by blast
  note e = entry_okD [OF volumeD(7) [OF v nth_mem [OF p]], folded l(1)]
  from search_root_ok [OF v bs root, of nm] obtain bs1 os1 where
    s: "search_file_in_directory sb nm bs os = Inr (Some p, bs1, os1)"
    "searched ?n bs bs1" "same_disk sb os os1" "holds_entry ?n os l bs1" unfolding found l(1) by blast
  have bs1: "buffers ?n bs1" "b_in bs1 = b_in bs" "b_info bs1 = b_info bs" using s(2) by (simp_all add: searched_def)
  have h: "b_in2 bs1 = disk ?n os l" "b_info2 bs1 = disk ?n os (meta_of ?n os l)"
    using s(4) by (simp_all add: holds_entry_def)
  have root1: "root_dir ?n (b_info bs1) (b_in bs1) ls" using root bs1 by simp
  from copy_root_inode [OF root1, of "b_pin bs1"] bs1(1) n obtain pin where
    pin: "copy_inode (b_pin bs1) (b_in bs1) (b_info bs1) = Inr pin" "length pin = ?n"
    "root_dir ?n (b_info bs1) pin ls" by auto
  from copy_nodeinfo_ok [OF _ _ _ root_dirD(4) [OF root1], of "b_pinfo bs1" ?n] bs1(1) n obtain pinfo where
    pinfo: "copy_nodeinfo (b_pinfo bs1) (b_info bs1) = Inr pinfo" "length pinfo = ?n"
    "fld 0 pinfo = fld 0 (b_info bs1)" "named pinfo" by auto
  have rp: "root_dir ?n pinfo pin ls" using pin(3) pinfo(3,4) by (simp add: dir_at_def)
  from copy_inode_fits [of "b_in bs1" ?n "b_in2 bs1" "b_info2 bs1"] bs1(1) n l(2) h m e(2,5) obtain i where
    i: "copy_inode (b_in bs1) (b_in2 bs1) (b_info2 bs1) = Inr i" "length i = ?n"
    by (auto simp: links_fit_def)
  from copy_nodeinfo_ok [of "b_info bs1" ?n "b_info2 bs1"] bs1(1) n e(2,5,8) m h obtain f where
    f: "copy_nodeinfo (b_info bs1) (b_info2 bs1) = Inr f" "length f = ?n"
    "fld 0 f = fld 0 (disk ?n os (meta_of ?n os l))" by auto
  have walk: "walk_level sb nm True bs os = Some (Inr (True, bs1, os1))"
    using s(1) by (simp add: walk_level.simps [of sb nm True])
  have loads: "load64 o_meta (b_in2 bs1) = Inr (meta_of ?n os l)"
    "load64 (o_link (int p)) (b_in bs1) = Inr l"
    using bs bs1 h n e m r(6,7) p l(1) load_link [of p "b_in bs1"]
    by (simp_all add: load64_ok o_meta_def meta_of_def)
  let ?bs = "bs1\<lparr>b_pin := pin, b_pinfo := pinfo, b_in := i, b_info := f\<rparr>"
  have "remove_walk sb (int p) [nm] t (1, 2) bs os = Inr (Some (Some (meta_of ?n os l, l), (1, 2), ?bs), os1)"
    using walk loads pin(1) pinfo(1) i(1) f(1) by (simp add: keep_parent_def jump_to_next_dir_def)
  moreover have "buffers ?n ?bs" using bs1(1) pin(2) pinfo(2) i(2) f(2) by simp
  ultimately show ?thesis using s(3) rp f(3) by (intro exI [of _ ?bs] exI [of _ os1]) simp
qed

section \<open>The functions\<close>

lemma read_root_ok:
  assumes v: "volume sb os xs ls"
  shows "\<exists>os'. read_root sb (fresh_bufs mem (bsz sb)) os =
      Inr ((fresh_bufs mem (bsz sb))\<lparr>b_in := disk (bsz sb) os 2, b_info := disk (bsz sb) os 1\<rparr>, os') \<and>
    same_disk sb os os'"
proof -
  let ?n = "bsz sb" and ?bs = "fresh_bufs mem (bsz sb)"
  note m = volumeD(2) [OF v]
  from read_step [OF m mountedD(7) [OF m], of "b_in ?bs"] buffers_fresh [of ?n mem] obtain os1 where
    os1: "read_block sb 2 (b_in ?bs) os = Inr (disk ?n os 2, os1)" "same_disk sb os os1" by auto
  from read_step [OF same_disk_mounted [OF os1(2)] mountedD(6) [OF m], of "b_info ?bs"]
    buffers_fresh [of ?n mem] same_diskD [OF os1(2) mountedD(6) [OF m]] obtain os2 where
    os2: "read_block sb 1 (b_info ?bs) os1 = Inr (disk ?n os 1, os2)" "same_disk sb os1 os2" by auto
  show ?thesis
    using os1(1) os2(1) same_disk_trans [OF os1(2) os2(2)] volumeD(4) [OF v] by (auto simp: read_root_def)
qed

lemma walk_from_root:
  assumes v: "volume sb os xs ls"
    and found: "find_index (\<lambda>l. fst (entry_of (bsz sb) os l) = nm) ls = Some p"
    and l: "l = ls ! p" "links_fit (bsz sb) os l"
  shows "\<exists>bs os1 bs' os'. read_root sb (fresh_bufs mem (bsz sb)) os = Inr (bs, os1) \<and>
    remove_walk sb (int p) [nm] t (1, 2) bs os1 =
      Inr (Some (Some (meta_of (bsz sb) os l, l), (1, 2), bs'), os') \<and>
    same_disk sb os os' \<and> volume sb os' xs ls \<and> entries sb os' ls = entries sb os ls \<and>
    meta_of (bsz sb) os' l = meta_of (bsz sb) os l \<and> buffers (bsz sb) bs' \<and>
    root_dir (bsz sb) (b_pinfo bs') (b_pin bs') ls \<and> length (b_info bs') = bsz sb \<and>
    fld 0 (b_info bs') = fld 0 (disk (bsz sb) os (meta_of (bsz sb) os l))"
proof -
  let ?n = "bsz sb"
  note m = volumeD(2) [OF v]
  have p: "p < length ls" using found unfolding find_index_Some by blast
  note ok = volumeD(7) [OF v nth_mem [OF p], folded l(1)]
  from read_root_ok [OF v, of mem] obtain os1 where os1:
    "read_root sb (fresh_bufs mem ?n) os = Inr ((fresh_bufs mem ?n)\<lparr>b_in := disk ?n os 2, b_info := disk ?n os 1\<rparr>, os1)"
    "same_disk sb os os1" by blast
  let ?bs = "(fresh_bufs mem ?n)\<lparr>b_in := disk ?n os 2, b_info := disk ?n os 1\<rparr>"
  have bs: "buffers ?n ?bs" using buffers_fresh [of ?n mem] m mountedD(6,7) [OF m] by simp
  have root: "root_dir ?n (b_info ?bs) (b_in ?bs) ls" using volumeD(6) [OF v] by simp
  note v1 = volume_same(1) [OF v os1(2)] note ek = entry_ok_same [OF ok os1(2)]
  have eq: "find_index (\<lambda>l. fst (entry_of ?n os1 l) = nm) ls = Some p"
  proof -
    have "entry_of ?n os1 b = entry_of ?n os b" if "b \<in> set ls" for b
      using entry_ok_same [OF volumeD(7) [OF v that] os1(2)] by (simp add: entry_of_def)
    then show ?thesis by (subst found [symmetric], intro find_index_cong) simp
  qed
  have fit: "links_fit ?n os1 l" using l(2) ek by (simp add: links_fit_def)
  from remove_walk_ok [OF v1 bs root eq l(1) fit, of t] obtain bs' os' where
    w: "remove_walk sb (int p) [nm] t (1, 2) ?bs os1 = Inr (Some (Some (meta_of ?n os1 l, l), (1, 2), bs'), os')"
    "same_disk sb os1 os'" "buffers ?n bs'" "root_dir ?n (b_pinfo bs') (b_pin bs') ls"
    "fld 0 (b_info bs') = fld 0 (disk ?n os1 (meta_of ?n os1 l))" by blast
  note same = same_disk_trans [OF os1(2) w(2)]
  show ?thesis
    using os1(1) w(1) [unfolded ek(3)] same volume_same [OF v same] entry_ok_same(3) [OF ok same]
      w(3,4) length_buffers(4) [OF w(3)] w(5) [unfolded ek(3,4)] by blast
qed

lemma unlink_ok:
  assumes v: "volume sb os xs ls" and path: "subfolders_to_vector fname = Inr [nm]"
    and found: "find_index (\<lambda>l. fst (entry_of (bsz sb) os l) = nm) ls = Some p"
    and l: "l = ls ! p" "links_fit (bsz sb) os l" "m = meta_of (bsz sb) os l"
  shows "\<exists>os'. fs_unlink mem (int p) fname sb os = Inr (0, took sb (l # m # xs), os') \<and>
    volume (took sb (l # m # xs)) os' (l # m # xs) (drop_nth p ls) \<and>
    entries (took sb (l # m # xs)) os' (drop_nth p ls) = drop_nth p (entries sb os ls) \<and>
    (\<forall>b < sb_blks sb. 2 < b \<longrightarrow> b \<notin> {l, m} \<longrightarrow> disk (bsz sb) os' b = disk (bsz sb) os b)"
proof -
  have p: "p < length ls" using found unfolding find_index_Some by blast
  from walk_from_root [OF v found l(1,2), of mem None] obtain bs os1 bs' os2 where
    w: "read_root sb (fresh_bufs mem (bsz sb)) os = Inr (bs, os1)"
    "remove_walk sb (int p) [nm] None (1, 2) bs os1 = Inr (Some (Some (m, l), (1, 2), bs'), os2)"
    "volume sb os2 xs ls" "entries sb os2 ls = entries sb os ls" "meta_of (bsz sb) os2 l = m"
    "buffers (bsz sb) bs'" "root_dir (bsz sb) (b_pinfo bs') (b_pin bs') ls" "same_disk sb os os2" unfolding l(3) by blast
  from drop_entry_ok [OF w(3) p l(1) w(5) [symmetric] w(6,7), of "mem 6" "mem 7"] w(1,2,4,8) path show ?thesis
    by (auto simp: fs_unlink_def same_disk_def)
qed

lemma rmdir_ok:
  assumes v: "volume sb os xs ls" and path: "subfolders_to_vector fname = Inr [nm]"
    and found: "find_index (\<lambda>l. fst (entry_of (bsz sb) os l) = nm) ls = Some p"
    and l: "l = ls ! p" "m = meta_of (bsz sb) os l" and empty: "fld 0 (disk (bsz sb) os m) = 0"
  shows "\<exists>os'. fs_rmdir mem (int p) fname sb os = Inr (0, took sb (l # m # xs), os') \<and>
    volume (took sb (l # m # xs)) os' (l # m # xs) (drop_nth p ls) \<and>
    entries (took sb (l # m # xs)) os' (drop_nth p ls) = drop_nth p (entries sb os ls) \<and>
    (\<forall>b < sb_blks sb. 2 < b \<longrightarrow> b \<notin> {l, m} \<longrightarrow> disk (bsz sb) os' b = disk (bsz sb) os b)"
proof -
  have p: "p < length ls" using found unfolding find_index_Some by blast
  note n = mountedD(3) [OF volumeD(2) [OF v]]
  have fit: "links_fit (bsz sb) os l" using empty l(2) n by (simp add: links_fit_def)
  from walk_from_root [OF v found l(1) fit, of mem "Some (1, 2)"] obtain bs os1 bs' os2 where
    w: "read_root sb (fresh_bufs mem (bsz sb)) os = Inr (bs, os1)"
    "remove_walk sb (int p) [nm] (Some (1, 2)) (1, 2) bs os1 = Inr (Some (Some (m, l), (1, 2), bs'), os2)"
    "volume sb os2 xs ls" "entries sb os2 ls = entries sb os ls" "meta_of (bsz sb) os2 l = m"
    "buffers (bsz sb) bs'" "root_dir (bsz sb) (b_pinfo bs') (b_pin bs') ls"
    "length (b_info bs') = bsz sb" "fld 0 (b_info bs') = fld 0 (disk (bsz sb) os m)" "same_disk sb os os2"
    unfolding l(2) by blast
  have "load64 o_size (b_info bs') = Inr 0" using w(8,9) empty n by (simp add: load64_ok o_size_def)
  with drop_entry_ok [OF w(3) p l(1) w(5) [symmetric] w(6,7), of "mem 6" "mem 7"] w(1,2,4,10) path show ?thesis
    by (auto simp: fs_rmdir_def same_disk_def)
qed

lemma rmdir_not_empty:
  assumes v: "volume sb os xs ls" and path: "subfolders_to_vector fname = Inr [nm]"
    and found: "find_index (\<lambda>l. fst (entry_of (bsz sb) os l) = nm) ls = Some p"
    and l: "l = ls ! p" "links_fit (bsz sb) os l" and full: "fld 0 (disk (bsz sb) os (meta_of (bsz sb) os l)) \<noteq> 0"
  shows "\<exists>os'. fs_rmdir mem (int p) fname sb os = Inr (-1, sb, os') \<and> errno os' = ENOTEMPTY \<and>
    volume sb os' xs ls \<and> entries sb os' ls = entries sb os ls \<and> same_disk sb os os'"
proof -
  note n = mountedD(3) [OF volumeD(2) [OF v]]
  from walk_from_root [OF v found l, of mem "Some (1, 2)"] obtain bs os1 bs' os2 where
    w: "read_root sb (fresh_bufs mem (bsz sb)) os = Inr (bs, os1)"
    "remove_walk sb (int p) [nm] (Some (1, 2)) (1, 2) bs os1 =
      Inr (Some (Some (meta_of (bsz sb) os l, l), (1, 2), bs'), os2)" "same_disk sb os os2"
    "length (b_info bs') = bsz sb" "fld 0 (b_info bs') = fld 0 (disk (bsz sb) os (meta_of (bsz sb) os l))"
    by blast
  have "load64 o_size (b_info bs') = Inr (fld 0 (b_info bs'))" using w(4) n by (simp add: load64_ok o_size_def)
  then have "fs_rmdir mem (int p) fname sb os = Inr (-1, sb, os2\<lparr>errno := ENOTEMPTY\<rparr>)"
    using w(1,2,5) path full by (simp add: fs_rmdir_def word_gt_0)
  moreover have same: "same_disk sb os (os2\<lparr>errno := ENOTEMPTY\<rparr>)" using w(3) by (simp add: same_disk_errno)
  ultimately show ?thesis using volume_same [OF v same]
    by (intro exI [of _ "os2\<lparr>errno := ENOTEMPTY\<rparr>"]) simp
qed

text \<open>A name that the root does not have.\<close>

lemma remove_walk_missing:
  assumes v: "volume sb os xs ls" and none: "nm \<notin> fst ` set (entries sb os ls)"
  shows "\<exists>bs os1 os'. read_root sb (fresh_bufs mem (bsz sb)) os = Inr (bs, os1) \<and>
    remove_walk sb k [nm] t (1, 2) bs os1 = Inr (None, os') \<and> same_disk sb os os' \<and> errno os' = ENOENT"
proof -
  let ?n = "bsz sb"
  note m = volumeD(2) [OF v] note n = mountedD(3) [OF m]
  from read_root_ok [OF v, of mem] obtain os1 where os1:
    "read_root sb (fresh_bufs mem ?n) os = Inr ((fresh_bufs mem ?n)\<lparr>b_in := disk ?n os 2, b_info := disk ?n os 1\<rparr>, os1)"
    "same_disk sb os os1" by blast
  let ?bs = "(fresh_bufs mem ?n)\<lparr>b_in := disk ?n os 2, b_info := disk ?n os 1\<rparr>"
  have bs: "buffers ?n ?bs" using buffers_fresh [of ?n mem] m mountedD(6,7) [OF m] by simp
  have root: "root_dir ?n (b_info ?bs) (b_in ?bs) ls" using volumeD(6) [OF v] by simp
  note v1 = volume_same [OF v os1(2)]
  have "find_index (\<lambda>l. fst (entry_of ?n os1 l) = nm) ls = None"
    unfolding find_index_None using none v1(2) by (auto simp: entries_def)
  with search_root_ok [OF v1(1) bs root, of nm] obtain bs2 os2 where
    s: "search_file_in_directory sb nm ?bs os1 = Inr (None, bs2, os2)" "searched ?n ?bs bs2" "same_disk sb os1 os2"
    by auto
  have "load64 o_next (b_in bs2) = Inr (fld 24 (b_in bs2))"
    using s(2) bs n length_buffers(1) [OF bs] by (simp add: searched_def load64_ok o_next_def)
  with s(1) have walk: "remove_walk sb k [nm] t (1, 2) ?bs os1 = Inr (None, os2\<lparr>errno := ENOENT\<rparr>)"
    by (simp add: walk_level.simps [of sb nm True])
  have same: "same_disk sb os (os2\<lparr>errno := ENOENT\<rparr>)"
    using same_disk_trans [OF os1(2) s(3)] by (simp add: same_disk_errno)
  have err: "errno (os2\<lparr>errno := ENOENT\<rparr>) = ENOENT" by simp
  show ?thesis by (intro exI conjI, rule os1(1), rule walk, rule same, rule err)
qed

lemma remove_missing:
  assumes v: "volume sb os xs ls" and path: "subfolders_to_vector fname = Inr [nm]"
    and none: "nm \<notin> fst ` set (entries sb os ls)"
  shows "\<exists>os'. fs_unlink mem k fname sb os = Inr (-1, sb, os') \<and> errno os' = ENOENT \<and> same_disk sb os os'"
    and "\<exists>os'. fs_rmdir mem k fname sb os = Inr (-1, sb, os') \<and> errno os' = ENOENT \<and> same_disk sb os os'"
  using remove_walk_missing [OF v none, of mem k None] remove_walk_missing [OF v none, of mem k "Some (1, 2)"] path
  by (auto simp: fs_unlink_def fs_rmdir_def)

end
