(* ===== verification/Fs_Catalog.thy ===== *)
theory Fs_Catalog
  imports Fs_Format Fs_Full Fs_Remove_Correct Simulation
begin

text \<open>
  The operations of \<open>TP 3\<close> on the root directory, in any order, as a catalogue: a list of
  names, each a directory or a file, and a number of free blocks.
\<close>

section \<open>Runs of the file system\<close>

text \<open>
  An operation comes with what the C code finds: the contents of its \<open>malloc\<close> and the value of the variable
  \<open>k\<close> that is never assigned.
\<close>

datatype fs_op =
    Mkdir "byte list"
  | Write_File "byte list" "byte list" nat
  | Unlink "byte list"
  | Rmdir "byte list"
  | List_Dir "byte list"

datatype fs_answer = Returned int "int option" | Shown "byte list"

type_synonym found = "(nat \<Rightarrow> byte list) \<times> int"

type_synonym mount = "superblock \<times> fs_os"

definition answered :: "fs_op \<Rightarrow> int \<times> superblock \<times> fs_os \<Rightarrow> ((fs_op \<times> fs_answer) \<times> mount) result" where
  "answered op r = (case r of (v, sb, os) \<Rightarrow> Inr ((op, Returned v (if v < 0 then Some (errno os) else None)), (sb, os)))"

fun fs_run :: "found \<times> fs_op \<Rightarrow> mount \<Rightarrow> ((fs_op \<times> fs_answer) \<times> mount) result" where
  "fs_run ((mem, k), op) (sb, os) = (case op of
     Mkdir path \<Rightarrow> rbind (fs_mkdir mem k path sb os) (answered op)
   | Write_File path buf cnt \<Rightarrow> rbind (fs_write_file mem path buf cnt sb os) (answered op)
   | Unlink path \<Rightarrow> rbind (fs_unlink mem k path sb os) (answered op)
   | Rmdir path \<Rightarrow> rbind (fs_rmdir mem k path sb os) (answered op)
   | List_Dir path \<Rightarrow> rbind (fs_list_dir mem path sb os) (\<lambda>(s, os'). Inr ((op, Shown s), (sb, os'))))"

text \<open>The inodes that the root has on disk.\<close>

definition root_links :: "mount \<Rightarrow> 64 word list" where
  "root_links m = (let (sb, os) = m in
     map (\<lambda>i. fld (32 + 8 * i) (disk (bsz sb) os 2)) [0..<unat (fld 0 (disk (bsz sb) os 1))])"

definition root_index :: "mount \<Rightarrow> byte list \<Rightarrow> nat option" where
  "root_index m nm = find_index (\<lambda>l. fst (entry_of (bsz (fst m)) (snd m) l) = nm) (root_links m)"

text \<open>
  What is asked of a caller: paths name entries of the root or the root itself, names and lists fit their
  buffers, the root has room for a link, there are blocks enough, files are new and hold at least a block's
  worth of bytes; and the variable \<open>k\<close> happens to be the index of the entry to remove.
\<close>

definition lucky :: "mount \<Rightarrow> byte list \<Rightarrow> int \<Rightarrow> bool" where
  "lucky m path k \<longleftrightarrow> (\<exists>nm. subfolders_to_vector path = Inr [nm] \<and> (\<forall>p. root_index m nm = Some p \<longrightarrow> k = int p))"

definition new_name :: "mount \<Rightarrow> byte list \<Rightarrow> bool" where
  "new_name m path \<longleftrightarrow> (\<exists>nm. subfolders_to_vector path = Inr [nm] \<and> 0 \<notin> set nm \<and> length nm + 65 \<le> bsz (fst m) \<and>
     40 + 8 * length (root_links m) \<le> bsz (fst m))"

fun fs_allowed :: "found \<times> fs_op \<Rightarrow> mount \<Rightarrow> bool" where
  "fs_allowed ((mem, k), Mkdir path) m \<longleftrightarrow> new_name m path \<and> 2 \<le> unat (sb_freeblks (fst m))"
| "fs_allowed ((mem, k), Write_File path buf cnt) m \<longleftrightarrow> new_name m path \<and>
     (\<exists>nm. subfolders_to_vector path = Inr [nm] \<and> root_index m nm = None) \<and>
     cnt < 2 ^ 24 \<and> bsz (fst m) - 20 \<le> cnt \<and> cnt div (bsz (fst m) - 20) + 2 \<le> unat (sb_freeblks (fst m)) \<and>
     cnt div (bsz (fst m) - 20) < MAX_FILE_SIZE"
| "fs_allowed ((mem, k), Unlink path) m \<longleftrightarrow> lucky m path k"
| "fs_allowed ((mem, k), Rmdir path) m \<longleftrightarrow> lucky m path k"
| "fs_allowed ((mem, k), List_Dir path) m \<longleftrightarrow> subfolders_to_vector path = Inr [] \<and>
     length (listing (entries (fst m) (snd m) (root_links m))) < MAX_PATH_NAME"

section \<open>The catalogue\<close>

datatype kind = Folder | Regular

type_synonym catalogue = "(byte list \<times> kind) list \<times> nat"

primrec mode_of :: "kind \<Rightarrow> 64 word" where
  "mode_of Folder = IMDIR"
| "mode_of Regular = IMREG"

text \<open>The name at position \<open>p\<close> is the first of its kind.\<close>

definition position :: "byte list \<Rightarrow> (byte list \<times> kind) list \<Rightarrow> nat option" where
  "position nm E = find_index (\<lambda>e. fst e = nm) E"

definition shown_list :: "(byte list \<times> kind) list \<Rightarrow> byte list" where
  "shown_list E = listing (map (\<lambda>e. (fst e, mode_of (snd e))) E)"

text \<open>
  A directory takes two blocks and gives them back.  A file takes one block more than \<open>cnt\<close> divided by the
  room in a block \<open>n\<close>, and gives back two: the others are lost.
\<close>

inductive fs_spec :: "nat \<Rightarrow> catalogue \<Rightarrow> fs_op \<times> fs_answer \<Rightarrow> catalogue \<Rightarrow> bool" for n where
  made: "subfolders_to_vector path = Inr [nm] \<Longrightarrow> 2 \<le> f \<Longrightarrow>
    fs_spec n (E, f) (Mkdir path, Returned 0 None) (E @ [(nm, Folder)], f - 2)"
| wrote: "subfolders_to_vector path = Inr [nm] \<Longrightarrow> position nm E = None \<Longrightarrow> cnt div (n - 20) + 2 \<le> f \<Longrightarrow>
    fs_spec n (E, f) (Write_File path buf cnt, Returned 0 None) (E @ [(nm, Regular)], f - (cnt div (n - 20) + 1))"
| unlinked: "subfolders_to_vector path = Inr [nm] \<Longrightarrow> position nm E = Some p \<Longrightarrow>
    fs_spec n (E, f) (Unlink path, Returned 0 None) (drop_nth p E, f + 2)"
| removed: "subfolders_to_vector path = Inr [nm] \<Longrightarrow> position nm E = Some p \<Longrightarrow> snd (E ! p) = Folder \<Longrightarrow>
    fs_spec n (E, f) (Rmdir path, Returned 0 None) (drop_nth p E, f + 2)"
| kept: "subfolders_to_vector path = Inr [nm] \<Longrightarrow> position nm E = Some p \<Longrightarrow> snd (E ! p) = Regular \<Longrightarrow>
    fs_spec n (E, f) (Rmdir path, Returned (-1) (Some ENOTEMPTY)) (E, f)"
| not_there: "subfolders_to_vector path = Inr [nm] \<Longrightarrow> position nm E = None \<Longrightarrow> op \<in> {Unlink path, Rmdir path} \<Longrightarrow>
    fs_spec n (E, f) (op, Returned (-1) (Some ENOENT)) (E, f)"
| listed: "subfolders_to_vector path = Inr [] \<Longrightarrow> fs_spec n (E, f) (List_Dir path, Shown (shown_list E)) (E, f)"

section \<open>The catalogue on disk\<close>

definition detail :: "superblock \<Rightarrow> fs_os \<Rightarrow> 64 word \<Rightarrow> (byte list \<times> 64 word) \<times> 64 word" where
  "detail sb os l = (entry_of (bsz sb) os l, fld 0 (disk (bsz sb) os (meta_of (bsz sb) os l)))"

primrec size_of :: "superblock \<Rightarrow> kind \<Rightarrow> 64 word" where
  "size_of sb Folder = 0"
| "size_of sb Regular = sb_blksz sb - 20"

definition picture :: "superblock \<Rightarrow> byte list \<times> kind \<Rightarrow> (byte list \<times> 64 word) \<times> 64 word" where
  "picture sb e = ((fst e, mode_of (snd e)), size_of sb (snd e))"

definition depicts :: "nat \<Rightarrow> mount \<Rightarrow> catalogue \<Rightarrow> bool" where
  "depicts n m c \<longleftrightarrow> (let (sb, os) = m; (E, f) = c in
     \<exists>xs ls. volume sb os xs ls \<and> length xs = f \<and> bsz sb = n \<and> map (detail sb os) ls = map (picture sb) E)"

lemma detail_kept:
  assumes e: "entry_ok sb os xs l"
    and "disk (bsz sb) os' l = disk (bsz sb) os l"
    and "disk (bsz sb) os' (meta_of (bsz sb) os l) = disk (bsz sb) os (meta_of (bsz sb) os l)"
  shows "detail (took sb ys) os' l = detail sb os l" and "detail sb os' l = detail sb os l"
  using assms by (simp_all add: detail_def entry_of_def meta_of_def)

lemma details_kept:
  assumes v: "volume sb os xs ls"
    and "\<And>b. b < sb_blks sb \<Longrightarrow> 2 < b \<Longrightarrow> b \<notin> set xs \<Longrightarrow> disk (bsz sb) os' b = disk (bsz sb) os b"
  shows "map (detail (took sb ys) os') ls = map (detail sb os) ls" and "map (detail sb os') ls = map (detail sb os) ls"
proof -
  have k: "detail (took sb ys) os' l = detail sb os l" "detail sb os' l = detail sb os l" if "l \<in> set ls" for l
  proof -
    note e = entry_okD [OF volumeD(7) [OF v that]]
    note d = detail_kept [OF volumeD(7) [OF v that] assms(2) [OF e(2,1,3)] assms(2) [OF e(5,4,6)]]
    show "detail (took sb ys) os' l = detail sb os l" "detail sb os' l = detail sb os l" by (rule d)+
  qed
  then show "map (detail (took sb ys) os') ls = map (detail sb os) ls" "map (detail sb os') ls = map (detail sb os) ls"
    by simp_all
qed

lemma pictures_took [simp]: "picture (took sb xs) = picture sb"
proof
  fix e show "picture (took sb xs) e = picture sb e" by (cases "snd e") (simp_all add: picture_def)
qed

lemma root_links_volume:
  assumes v: "volume sb os xs ls"
  shows "root_links (sb, os) = ls"
proof -
  note r = root_dirD(5,7) [OF volumeD(6) [OF v]]
  show ?thesis unfolding root_links_def Let_def prod.case r(1) by (rule nth_equalityI) (simp_all add: r(2))
qed

lemma entries_pictures:
  assumes "map (detail sb os) ls = map (picture sb) E"
  shows "entries sb os ls = map (\<lambda>e. (fst e, mode_of (snd e))) E"
    and "find_index (\<lambda>l. fst (entry_of (bsz sb) os l) = nm) ls = position nm E"
    and "length ls = length E"
proof -
  have "map fst (map (detail sb os) ls) = map fst (map (picture sb) E)" by (simp only: assms)
  then show e: "entries sb os ls = map (\<lambda>e. (fst e, mode_of (snd e))) E"
    by (simp add: detail_def picture_def entries_def comp_def)
  have "find_index (\<lambda>e. fst e = nm) (entries sb os ls) = find_index (\<lambda>l. fst (entry_of (bsz sb) os l) = nm) ls"
    by (simp add: entries_def find_index_map comp_def)
  then show "find_index (\<lambda>l. fst (entry_of (bsz sb) os l) = nm) ls = position nm E"
    by (simp add: e find_index_map position_def comp_def)
  show "length ls = length E" using assms by (metis length_map)
qed

lemma size_room: "mounted sb os \<Longrightarrow> sb_blksz sb - 20 \<noteq> 0"
  using mountedD(3) [of sb os] by (auto simp: bsz_def)

end
