(* ===== verification/Fs_Catalog_Correct.thy ===== *)
theory Fs_Catalog_Correct
  imports Fs_Catalog
begin

text \<open>Every operation on the root directory is a step of the catalogue.\<close>

lemma depictsD:
  assumes "depicts n (sb, os) (E, f)"
  obtains xs ls where "volume sb os xs ls" and "length xs = f" and "bsz sb = n"
    and "map (detail sb os) ls = map (picture sb) E"
  using assms by (auto simp: depicts_def)

lemma depicts_add:
  assumes v: "volume sb os (zs @ xs) ls" and pic: "map (detail sb os) ls = map (picture sb) E" and n: "bsz sb = n"
    and v': "volume (took sb xs) os' xs (ls @ [y])"
    and ent: "entries (took sb xs) os' (ls @ [y]) = entries sb os ls @ [(nm, mode_of kd)]"
    and meta: "meta_of (bsz sb) os' y = x" and size: "fld 0 (disk (bsz sb) os' x) = size_of sb kd"
    and same: "\<forall>b < sb_blks sb. 2 < b \<longrightarrow> b \<notin> set zs \<longrightarrow> disk (bsz sb) os' b = disk (bsz sb) os b"
  shows "depicts n (took sb xs, os') (E @ [(nm, kd)], length xs)"
proof -
  have "entry_of (bsz sb) os' y = (nm, mode_of kd)" using ent by (simp add: entries_def)
  then have "detail (took sb xs) os' y = picture sb (nm, kd)"
    by (simp add: detail_def picture_def meta size)
  moreover have "map (detail (took sb xs) os') ls = map (detail sb os) ls"
    by (rule details_kept(1) [OF v]) (use same in auto)
  ultimately have "map (detail (took sb xs) os') (ls @ [y]) = map (picture (took sb xs)) (E @ [(nm, kd)])"
    using pic by simp
  with v' n show ?thesis unfolding depicts_def Let_def prod.case
    by (intro exI [of _ xs] exI [of _ "ls @ [y]"]) simp
qed

lemma depicts_same:
  assumes v: "volume sb os xs ls" and same: "same_disk sb os os'" and pic: "map (detail sb os) ls = map (picture sb) E"
    and n: "bsz sb = n"
  shows "depicts n (sb, os') (E, length xs)"
proof -
  have "map (detail sb os') ls = map (detail sb os) ls"
    by (rule details_kept(2) [OF v]) (use same_diskD [OF same] in auto)
  with volume_same(1) [OF v same] pic n show ?thesis unfolding depicts_def Let_def prod.case
    by (intro exI [of _ xs] exI [of _ ls]) simp
qed

lemma depicts_drop:
  assumes v: "volume sb os xs ls" and pic: "map (detail sb os) ls = map (picture sb) E" and n: "bsz sb = n"
    and p: "p < length ls" and l: "l = ls ! p" "m = meta_of (bsz sb) os l"
    and v': "volume (took sb (l # m # xs)) os' (l # m # xs) (drop_nth p ls)"
    and same: "\<forall>b < sb_blks sb. 2 < b \<longrightarrow> b \<notin> {l, m} \<longrightarrow> disk (bsz sb) os' b = disk (bsz sb) os b"
  shows "depicts n (took sb (l # m # xs), os') (drop_nth p E, length xs + 2)"
proof -
  let ?n = "bsz sb" and ?M = "map (meta_of (bsz sb) os) ls"
  have d: "distinct ls" "distinct ?M" "set ls \<inter> set ?M = {}" using volumeD(8) [OF v] by auto
  have lm: "l \<in> set ls" "m \<in> set ?M" using p l by auto
  have keep: "detail (took sb (l # m # xs)) os' b = detail sb os b" if b: "b \<in> set (drop_nth p ls)" for b
  proof -
    have bl: "b \<in> set ls" using b set_drop_nth [of p ls] by blast
    note e = entry_okD [OF volumeD(7) [OF v bl]]
    have "meta_of ?n os b \<in> set (drop_nth p ?M)" using b by (simp add: map_drop_nth [symmetric])
    moreover have "m \<notin> set (drop_nth p ?M)" using distinct_drop_nth(2) [OF d(2), of p] p l by simp
    ultimately have "meta_of ?n os b \<noteq> m" by blast
    moreover have "b \<noteq> l" using distinct_drop_nth(2) [OF d(1) p] b l(1) by blast
    moreover have "meta_of ?n os b \<in> set ?M" using bl by simp
    then have "b \<noteq> m" "meta_of ?n os b \<noteq> l" using d(3) lm bl by blast+
    ultimately show ?thesis using detail_kept(1) [OF volumeD(7) [OF v bl], of os'] same e(1,2,4,5) by blast
  qed
  have "map (detail (took sb (l # m # xs)) os') (drop_nth p ls) = map (detail sb os) (drop_nth p ls)"
    using keep by simp
  also have "\<dots> = map (picture sb) (drop_nth p E)" using pic by (metis map_drop_nth)
  finally show ?thesis using v' n unfolding depicts_def Let_def prod.case
    by (intro exI [of _ "l # m # xs"] exI [of _ "drop_nth p ls"]) simp
qed

text \<open>A new name finds its room in the root.\<close>

lemma new_nameD:
  assumes "new_name (sb, os) path" and "volume sb os xs ls"
  obtains nm where "subfolders_to_vector path = Inr [nm]" and "0 \<notin> set nm" and "length nm + 65 \<le> bsz sb"
    and "40 + 8 * length ls \<le> bsz sb"
  using assms by (auto simp: new_name_def root_links_volume)

lemma mkdir_step:
  assumes dep: "depicts n (sb, os) (E, f)" and ok: "fs_allowed ((mem, k), Mkdir path) (sb, os)"
  shows "\<exists>l m' c'. fs_run ((mem, k), Mkdir path) (sb, os) = Inr (l, m') \<and> fs_spec n (E, f) l c' \<and> depicts n m' c'"
proof -
  obtain xs ls where v: "volume sb os xs ls" and f: "length xs = f" and n: "bsz sb = n"
    and pic: "map (detail sb os) ls = map (picture sb) E" by (rule depictsD [OF dep])
  from ok have nn: "new_name (sb, os) path" and two: "2 \<le> unat (sb_freeblks sb)" by simp_all
  obtain nm where nm: "subfolders_to_vector path = Inr [nm]" "0 \<notin> set nm" "length nm + 65 \<le> bsz sb"
    "40 + 8 * length ls \<le> bsz sb" by (rule new_nameD [OF nn v])
  have two: "2 \<le> length xs" using two free_listD(5) [OF volumeD(1) [OF v]] by simp
  then obtain x y zs where xs: "xs = x # y # zs" by (cases xs; cases "tl xs") auto
  from mkdir_root_ok [OF v [unfolded xs] nm, of mem k] obtain os' where
    r: "fs_mkdir mem k path sb os = Inr (0, took sb zs, os')" "volume (took sb zs) os' zs (ls @ [y])"
    "entries (took sb zs) os' (ls @ [y]) = entries sb os ls @ [(nm, mode_of Folder)]"
    "meta_of (bsz sb) os' y = x" "fld 0 (disk (bsz sb) os' x) = size_of sb Folder"
    "\<forall>b < sb_blks sb. 2 < b \<longrightarrow> b \<notin> set [x, y] \<longrightarrow> disk (bsz sb) os' b = disk (bsz sb) os b" by auto
  have "volume sb os ([x, y] @ zs) ls" using v xs by simp
  from depicts_add [OF this pic n r(2-6)] have "depicts n (took sb zs, os') (E @ [(nm, Folder)], f - 2)"
    using f xs by auto
  moreover have "fs_spec n (E, f) (Mkdir path, Returned 0 None) (E @ [(nm, Folder)], f - 2)"
    using two f by (intro made nm(1)) simp
  ultimately show ?thesis using r(1) by (auto simp: answered_def)
qed

lemma write_file_step:
  assumes dep: "depicts n (sb, os) (E, f)" and ok: "fs_allowed ((mem, k), Write_File path buf cnt) (sb, os)"
  shows "\<exists>l m' c'. fs_run ((mem, k), Write_File path buf cnt) (sb, os) = Inr (l, m') \<and> fs_spec n (E, f) l c' \<and>
    depicts n m' c'"
proof -
  obtain xs ls where v: "volume sb os xs ls" and f: "length xs = f" and n: "bsz sb = n"
    and pic: "map (detail sb os) ls = map (picture sb) E" by (rule depictsD [OF dep])
  let ?c = "cnt div (bsz sb - 20)"
  from ok have nn: "new_name (sb, os) path" and none: "\<exists>nm. subfolders_to_vector path = Inr [nm] \<and> root_index (sb, os) nm = None"
    and cnt: "cnt < 2 ^ 24" "bsz sb - 20 \<le> cnt" "?c + 2 \<le> unat (sb_freeblks sb)" "?c < MAX_FILE_SIZE" by simp_all
  obtain nm where nm: "subfolders_to_vector path = Inr [nm]" "0 \<notin> set nm" "length nm + 65 \<le> bsz sb"
    "40 + 8 * length ls \<le> bsz sb" by (rule new_nameD [OF nn v])
  have pos: "position nm E = None"
    using none nm(1) entries_pictures(2) [OF pic] root_links_volume [OF v] by (auto simp: root_index_def)
  then have out: "nm \<notin> fst ` set (entries sb os ls)"
    using entries_pictures(1) [OF pic] by (auto simp: position_def)
  have room: "20 < bsz sb" using mountedD(3) [OF volumeD(2) [OF v]] by simp
  then have c1: "1 \<le> ?c" using cnt(2) by (simp add: div_greater_zero_iff Suc_le_eq)
  have fl: "?c + 2 \<le> length xs" using cnt(3) free_listD(5) [OF volumeD(1) [OF v]] by simp
  then obtain x y rest where xs: "xs = x # y # rest" by (cases xs; cases "tl xs") auto
  let ?zs = "take (?c - 1) rest" and ?left = "drop (?c - 1) rest"
  have len: "length ?zs = ?c - 1" "?left \<noteq> []" using fl xs c1 by simp_all
  have v2: "volume sb os (x # y # ?zs @ ?left) ls" using v xs by simp
  have blks: "count_blocks cnt sb = Inr (Suc (length ?zs))"
    using count_blocks_floor [OF cnt(1) room] len(1) c1 by simp
  have small: "length ?zs + 2 \<le> MAX_FILE_SIZE" using cnt(4) len(1) c1 by simp
  from write_new_ok [OF v2 nm(1,3,2) out nm(4) blks len(2) small, of mem buf] obtain os' where
    r: "fs_write_file mem path buf cnt sb os = Inr (0, took sb ?left, os')"
    "volume (took sb ?left) os' ?left (ls @ [y])"
    "entries (took sb ?left) os' (ls @ [y]) = entries sb os ls @ [(nm, mode_of Regular)]"
    "meta_of (bsz sb) os' y = x" "fld 0 (disk (bsz sb) os' x) = size_of sb Regular"
    "\<forall>b < sb_blks sb. 2 < b \<longrightarrow> b \<notin> set (x # y # ?zs) \<longrightarrow> disk (bsz sb) os' b = disk (bsz sb) os b" by auto
  have "volume sb os ((x # y # ?zs) @ ?left) ls" using v2 by simp
  from depicts_add [OF this pic n r(2-6)] have "depicts n (took sb ?left, os') (E @ [(nm, Regular)], length ?left)" .
  moreover have "length ?left = f - (cnt div (n - 20) + 1)" using f xs c1 n by simp
  moreover have "fs_spec n (E, f) (Write_File path buf cnt, Returned 0 None) (E @ [(nm, Regular)], f - (cnt div (n - 20) + 1))"
    using fl f n by (intro wrote nm(1) pos) simp
  ultimately show ?thesis using r(1) by (auto simp: answered_def)
qed

text \<open>Both functions that remove an entry.\<close>

lemma luckyD:
  assumes "lucky (sb, os) path k" and "volume sb os xs ls" and "map (detail sb os) ls = map (picture sb) E"
  obtains nm where "subfolders_to_vector path = Inr [nm]" and "\<forall>p. position nm E = Some p \<longrightarrow> k = int p"
    and "find_index (\<lambda>l. fst (entry_of (bsz sb) os l) = nm) ls = position nm E"
  using assms entries_pictures(2) [OF assms(3)]
  by (auto simp: lucky_def root_index_def root_links_volume [OF assms(2)])

lemma picture_at:
  assumes v: "volume sb os xs ls" and pic: "map (detail sb os) ls = map (picture sb) E" and p: "p < length ls"
  shows "fld 0 (disk (bsz sb) os (meta_of (bsz sb) os (ls ! p))) = size_of sb (snd (E ! p))"
    and "fld 0 (disk (bsz sb) os (ls ! p)) = mode_of (snd (E ! p))"
    and "links_fit (bsz sb) os (ls ! p)"
proof -
  have "p < length E" using p entries_pictures(3) [OF pic] by simp
  then have "detail sb os (ls ! p) = picture sb (E ! p)" using arg_cong [OF pic, of "\<lambda>xs. xs ! p"] p by simp
  then show s: "fld 0 (disk (bsz sb) os (meta_of (bsz sb) os (ls ! p))) = size_of sb (snd (E ! p))"
    and m: "fld 0 (disk (bsz sb) os (ls ! p)) = mode_of (snd (E ! p))"
    by (simp_all add: detail_def picture_def entry_of_def)
  show "links_fit (bsz sb) os (ls ! p)"
    using mountedD(3) [OF volumeD(2) [OF v]] by (cases "snd (E ! p)") (simp_all add: links_fit_def s m IMDIR_def IMREG_def)
qed

lemma unlink_step:
  assumes dep: "depicts n (sb, os) (E, f)" and ok: "fs_allowed ((mem, k), Unlink path) (sb, os)"
  shows "\<exists>l m' c'. fs_run ((mem, k), Unlink path) (sb, os) = Inr (l, m') \<and> fs_spec n (E, f) l c' \<and> depicts n m' c'"
proof -
  obtain xs ls where v: "volume sb os xs ls" and f: "length xs = f" and n: "bsz sb = n"
    and pic: "map (detail sb os) ls = map (picture sb) E" by (rule depictsD [OF dep])
  from ok have "lucky (sb, os) path k" by simp
  then obtain nm where nm: "subfolders_to_vector path = Inr [nm]" "\<forall>p. position nm E = Some p \<longrightarrow> k = int p"
    "find_index (\<lambda>l. fst (entry_of (bsz sb) os l) = nm) ls = position nm E" by (rule luckyD [OF _ v pic])
  show ?thesis
  proof (cases "position nm E")
    case None
    then have "nm \<notin> fst ` set (entries sb os ls)" using nm(3) by (auto simp: entries_def)
    from remove_missing(1) [OF v nm(1) this, of mem k] obtain os' where
      r: "fs_unlink mem k path sb os = Inr (-1, sb, os')" "errno os' = ENOENT" "same_disk sb os os'" by blast
    from not_there [OF nm(1) None, of "Unlink path" n f] depicts_same [OF v r(3) pic n] f r(1,2)
    show ?thesis by (auto simp: answered_def)
  next
    case (Some p)
    then have p: "p < length ls" and found: "find_index (\<lambda>l. fst (entry_of (bsz sb) os l) = nm) ls = Some p"
      using nm(3) by (simp_all add: find_index_Some)
    from unlink_ok [OF v nm(1) found refl picture_at(3) [OF v pic p] refl, of mem] obtain sb' os' where
      r: "fs_unlink mem (int p) path sb os = Inr (0, sb', os')" and d: "depicts n (sb', os') (drop_nth p E, length xs + 2)"
      using depicts_drop [OF v pic n p refl refl] by blast
    from unlinked [OF nm(1) Some, of n f] d r f nm(2) [rule_format, OF Some] show ?thesis by (auto simp: answered_def)
  qed
qed

lemma rmdir_step:
  assumes dep: "depicts n (sb, os) (E, f)" and ok: "fs_allowed ((mem, k), Rmdir path) (sb, os)"
  shows "\<exists>l m' c'. fs_run ((mem, k), Rmdir path) (sb, os) = Inr (l, m') \<and> fs_spec n (E, f) l c' \<and> depicts n m' c'"
proof -
  obtain xs ls where v: "volume sb os xs ls" and f: "length xs = f" and n: "bsz sb = n"
    and pic: "map (detail sb os) ls = map (picture sb) E" by (rule depictsD [OF dep])
  from ok have "lucky (sb, os) path k" by simp
  then obtain nm where nm: "subfolders_to_vector path = Inr [nm]" "\<forall>p. position nm E = Some p \<longrightarrow> k = int p"
    "find_index (\<lambda>l. fst (entry_of (bsz sb) os l) = nm) ls = position nm E" by (rule luckyD [OF _ v pic])
  show ?thesis
  proof (cases "position nm E")
    case None
    then have "nm \<notin> fst ` set (entries sb os ls)" using nm(3) by (auto simp: entries_def)
    from remove_missing(2) [OF v nm(1) this, of mem k] obtain os' where
      r: "fs_rmdir mem k path sb os = Inr (-1, sb, os')" "errno os' = ENOENT" "same_disk sb os os'" by blast
    from not_there [OF nm(1) None, of "Rmdir path" n f] depicts_same [OF v r(3) pic n] f r(1,2)
    show ?thesis by (auto simp: answered_def)
  next
    case (Some p)
    then have p: "p < length ls" and found: "find_index (\<lambda>l. fst (entry_of (bsz sb) os l) = nm) ls = Some p"
      using nm(3) by (simp_all add: find_index_Some)
    note at = picture_at [OF v pic p]
    show ?thesis
    proof (cases "snd (E ! p)")
      case Folder
      have "fld 0 (disk (bsz sb) os (meta_of (bsz sb) os (ls ! p))) = 0" using at(1) by (simp add: Folder)
      from rmdir_ok [OF v nm(1) found refl refl this, of mem] obtain sb' os' where
        r: "fs_rmdir mem (int p) path sb os = Inr (0, sb', os')" and d: "depicts n (sb', os') (drop_nth p E, length xs + 2)"
        using depicts_drop [OF v pic n p refl refl] by blast
      from removed [OF nm(1) Some Folder, of n f] d r f nm(2) [rule_format, OF Some] show ?thesis by (auto simp: answered_def)
    next
      case Regular
      have "fld 0 (disk (bsz sb) os (meta_of (bsz sb) os (ls ! p))) \<noteq> 0"
        using at(1) size_room [OF volumeD(2) [OF v]] by (simp add: Regular)
      from rmdir_not_empty [OF v nm(1) found refl at(3) this, of mem] obtain os' where
        r: "fs_rmdir mem (int p) path sb os = Inr (-1, sb, os')" "errno os' = ENOTEMPTY" "same_disk sb os os'" by blast
      from kept [OF nm(1) Some Regular, of n f] depicts_same [OF v r(3) pic n] f r(1,2) nm(2) [rule_format, OF Some]
      show ?thesis by (auto simp: answered_def)
    qed
  qed
qed

lemma list_step:
  assumes dep: "depicts n (sb, os) (E, f)" and ok: "fs_allowed ((mem, k), List_Dir path) (sb, os)"
  shows "\<exists>l m' c'. fs_run ((mem, k), List_Dir path) (sb, os) = Inr (l, m') \<and> fs_spec n (E, f) l c' \<and> depicts n m' c'"
proof -
  obtain xs ls where v: "volume sb os xs ls" and f: "length xs = f" and n: "bsz sb = n"
    and pic: "map (detail sb os) ls = map (picture sb) E" by (rule depictsD [OF dep])
  from ok have path: "subfolders_to_vector path = Inr []" and fits: "length (listing (entries sb os ls)) < MAX_PATH_NAME"
    by (simp_all add: root_links_volume [OF v])
  from list_root_ok [OF v path fits, of mem] obtain os' where
    r: "fs_list_dir mem path sb os = Inr (shown_list E, os')" "same_disk sb os os'"
    unfolding shown_list_def entries_pictures(1) [OF pic] by blast
  from listed [OF path, of n E f] depicts_same [OF v r(2) pic n] f r(1) show ?thesis by auto
qed

lemma fs_step_ok:
  assumes "depicts n m c" and "fs_allowed ev m"
  shows "\<exists>l m' c'. fs_run ev m = Inr (l, m') \<and> fs_spec n c l c' \<and> depicts n m' c'"
proof -
  obtain mem k op sb os E f where e: "ev = ((mem, k), op)" "m = (sb, os)" "c = (E, f)"
    by (cases ev; cases "fst ev"; cases m; cases c) auto
  show ?thesis
  proof (cases op)
    case (Mkdir path)
    then show ?thesis using mkdir_step assms unfolding e by blast
  next
    case (Write_File path buf cnt)
    then show ?thesis using write_file_step assms unfolding e by blast
  next
    case (Unlink path)
    then show ?thesis using unlink_step assms unfolding e by blast
  next
    case (Rmdir path)
    then show ?thesis using rmdir_step assms unfolding e by blast
  next
    case (List_Dir path)
    then show ?thesis using list_step assms unfolding e by blast
  qed
qed

interpretation root: simulation "depicts n" fs_allowed fs_run "fs_spec n" for n
  by unfold_locales (rule fs_step_ok)

text \<open>A freshly formatted image is the empty catalogue.\<close>

lemma formatted_depicts:
  assumes "MIN_BLOCK_SIZE \<le> blocksize" and "32 \<le> length (img os) div unat blocksize"
    and "length (img os) < 2 ^ 63" and "0 \<le> fd" and "unat blocksize \<le> length b"
  obtains sb os' where "fs_format True fd mem (Some b) blocksize os = Inr (Some sb, os')"
    and "depicts (unat blocksize) (sb, os') ([], length (img os) div unat blocksize - 3)"
proof -
  from fs_format_ok [OF assms, of mem] obtain sb os' where
    f: "fs_format True fd mem (Some b) blocksize os = Inr (Some sb, os')"
    "volume sb os' (map of_nat [3..<length (img os) div unat blocksize]) []" "sb_blksz sb = blocksize" by blast
  have "depicts (unat blocksize) (sb, os') ([], length (img os) div unat blocksize - 3)"
    using f(2,3) unfolding depicts_def Let_def prod.case
    by (intro exI [of _ "map of_nat [3..<length (img os) div unat blocksize]"] exI [of _ "[]"]) (simp add: bsz_def)
  with f(1) show thesis by (rule that)
qed

lemma formatted_sizes:
  assumes "0 \<le> fd" and "length (img os) < 2 ^ 63" and "unat blocksize \<le> length b"
    and f: "fs_format True fd mem (Some b) blocksize os = Inr (Some sb, os')"
  shows "MIN_BLOCK_SIZE \<le> blocksize \<and> 32 \<le> length (img os) div unat blocksize"
proof (rule ccontr)
  assume "\<not> ?thesis"
  moreover have "unat (of_nat (length (img os)) div blocksize) = length (img os) div unat blocksize"
    using assms(2) by (simp add: unat_div unat_of_nat)
  ultimately have "fs_format True fd mem (Some b) blocksize os \<noteq> Inr (Some sb, os')"
    by (auto simp: fs_format_def Let_def MIN_BLOCK_COUNT_def word_less_nat_alt not_le)
  with f show False by contradiction
qed

text \<open>What the image holds when it depicts a catalogue.\<close>

lemma depicts_shows:
  assumes "depicts n m (E, f)"
  shows "entries (fst m) (snd m) (root_links m) = map (\<lambda>e. (fst e, mode_of (snd e))) E \<and> unat (sb_freeblks (fst m)) = f"
proof -
  obtain sb os where m: "m = (sb, os)" by (cases m)
  obtain xs ls where v: "volume sb os xs ls" and f: "length xs = f"
    and pic: "map (detail sb os) ls = map (picture sb) E" by (rule depictsD [OF assms [unfolded m]])
  show ?thesis
    using entries_pictures(1) [OF pic] free_listD(5) [OF volumeD(1) [OF v]] f by (simp add: m root_links_volume [OF v])
qed

end
