(* ===== verification/Fs_Tree.thy ===== *)
theory Fs_Tree
  imports Fs_Catalog
begin

text \<open>
  Directories within directories.  The specification is a table of inodes: for each directory the names in it
  with the inodes they stand for.  A volume holds such a table in its blocks.
\<close>

section \<open>Tables of inodes\<close>

type_synonym inode_table = "64 word \<rightharpoonup> (byte list \<times> kind \<times> 64 word) list"

text \<open>The inode that a path leads to from a directory, by the first entry of each name.\<close>

fun locate :: "inode_table \<Rightarrow> 64 word \<Rightarrow> byte list list \<Rightarrow> 64 word option" where
  "locate A d [] = Some d"
| "locate A d (nm # p) = (case A d of None \<Rightarrow> None
     | Some E \<Rightarrow> (case find_index (\<lambda>e. fst e = nm) E of None \<Rightarrow> None | Some i \<Rightarrow> locate A (snd (snd (E ! i))) p))"

text \<open>The path leads to, or through, something that is no directory.\<close>

fun meets_file :: "inode_table \<Rightarrow> 64 word \<Rightarrow> byte list list \<Rightarrow> bool" where
  "meets_file A d [] = (A d = None)"
| "meets_file A d (nm # p) = (case A d of None \<Rightarrow> True
     | Some E \<Rightarrow> (case find_index (\<lambda>e. fst e = nm) E of None \<Rightarrow> False | Some i \<Rightarrow> meets_file A (snd (snd (E ! i))) p))"

text \<open>The position of the last name of a path in its directory.\<close>

fun last_position :: "inode_table \<Rightarrow> 64 word \<Rightarrow> byte list list \<Rightarrow> nat option" where
  "last_position A d [] = None"
| "last_position A d (nm # p) = (case A d of None \<Rightarrow> None
     | Some E \<Rightarrow> (case find_index (\<lambda>e. fst e = nm) E of None \<Rightarrow> None
        | Some i \<Rightarrow> if p = [] then Some i else last_position A (snd (snd (E ! i))) p))"

lemma locate_directory: "\<not> meets_file A d p \<Longrightarrow> locate A d p = Some b \<Longrightarrow> \<exists>E. A b = Some E"
  by (induction A d p rule: locate.induct) (auto split: option.splits)

text \<open>The inodes that a table speaks of.\<close>

definition inodes_of :: "inode_table \<Rightarrow> 64 word set" where
  "inodes_of A = dom A \<union> (\<Union>E \<in> ran A. (snd \<circ> snd) ` set E)"

definition tree_listing :: "(byte list \<times> kind \<times> 64 word) list \<Rightarrow> byte list" where
  "tree_listing E = listing (map (\<lambda>e. (fst e, mode_of (fst (snd e)))) E)"

section \<open>The specification\<close>

text \<open>
  A new directory is an inode that no one has, with no entries; a new file is an inode that no one
  has.  The root is inode 2.  \<open>fs_unlink\<close> removes directories too, whatever is in them, and their entries stay
  behind; \<open>fs_rmdir\<close> takes a file for a directory that is not empty.  A file that is written again takes all its
  blocks but the first anew, and those it had are lost; a write to a directory takes blocks that nothing leads to.
\<close>

inductive tree_spec :: "nat \<Rightarrow> inode_table \<times> nat \<Rightarrow> fs_op \<times> fs_answer \<Rightarrow> inode_table \<times> nat \<Rightarrow> bool" for n where
  tree_made: "subfolders_to_vector path = Inr (p @ [nm]) \<Longrightarrow> locate A 2 p = Some d \<Longrightarrow> A d = Some E \<Longrightarrow> 2 \<le> f \<Longrightarrow>
    y \<notin> inodes_of A \<Longrightarrow>
    tree_spec n (A, f) (Mkdir path, Returned 0 None) (A(d \<mapsto> E @ [(nm, Folder, y)], y \<mapsto> []), f - 2)"
| tree_wrote: "subfolders_to_vector path = Inr (p @ [nm]) \<Longrightarrow> locate A 2 p = Some d \<Longrightarrow> A d = Some E \<Longrightarrow>
    find_index (\<lambda>e. fst e = nm) E = None \<Longrightarrow> cnt div (n - 20) + 2 \<le> f \<Longrightarrow> y \<notin> inodes_of A \<Longrightarrow>
    tree_spec n (A, f) (Write_File path buf cnt, Returned 0 None)
      (A(d \<mapsto> E @ [(nm, Regular, y)]), f - (cnt div (n - 20) + 1))"
| tree_rewrote: "subfolders_to_vector path = Inr (p @ [nm]) \<Longrightarrow> locate A 2 p = Some d \<Longrightarrow> A d = Some E \<Longrightarrow>
    find_index (\<lambda>e. fst e = nm) E = Some i \<Longrightarrow> fst (snd (E ! i)) = Regular \<Longrightarrow>
    1 \<le> cnt div (n - 20) \<Longrightarrow> cnt div (n - 20) \<le> f \<Longrightarrow>
    tree_spec n (A, f) (Write_File path buf cnt, Returned 0 None) (A, f - (cnt div (n - 20) - 1))"
| tree_swallowed: "subfolders_to_vector path = Inr (p @ [nm]) \<Longrightarrow> locate A 2 p = Some d \<Longrightarrow> A d = Some E \<Longrightarrow>
    find_index (\<lambda>e. fst e = nm) E = Some i \<Longrightarrow> fst (snd (E ! i)) = Folder \<Longrightarrow>
    1 \<le> cnt div (n - 20) \<Longrightarrow> cnt div (n - 20) \<le> f \<Longrightarrow>
    tree_spec n (A, f) (Write_File path buf cnt, Returned 0 None) (A, f - cnt div (n - 20))"
| tree_listed: "subfolders_to_vector path = Inr p \<Longrightarrow> locate A 2 p = Some d \<Longrightarrow> A d = Some E \<Longrightarrow>
    tree_spec n (A, f) (List_Dir path, Shown (tree_listing E)) (A, f)"
| tree_unlinked: "subfolders_to_vector path = Inr (p @ [nm]) \<Longrightarrow> locate A 2 p = Some d \<Longrightarrow> A d = Some E \<Longrightarrow>
    find_index (\<lambda>e. fst e = nm) E = Some i \<Longrightarrow>
    tree_spec n (A, f) (Unlink path, Returned 0 None) (A(d \<mapsto> drop_nth i E, snd (snd (E ! i)) := None), f + 2)"
| tree_removed: "subfolders_to_vector path = Inr (p @ [nm]) \<Longrightarrow> locate A 2 p = Some d \<Longrightarrow> A d = Some E \<Longrightarrow>
    find_index (\<lambda>e. fst e = nm) E = Some i \<Longrightarrow> A (snd (snd (E ! i))) = Some [] \<Longrightarrow>
    tree_spec n (A, f) (Rmdir path, Returned 0 None) (A(d \<mapsto> drop_nth i E, snd (snd (E ! i)) := None), f + 2)"
| tree_kept: "subfolders_to_vector path = Inr (p @ [nm]) \<Longrightarrow> locate A 2 p = Some d \<Longrightarrow> A d = Some E \<Longrightarrow>
    find_index (\<lambda>e. fst e = nm) E = Some i \<Longrightarrow> A (snd (snd (E ! i))) \<noteq> Some [] \<Longrightarrow>
    tree_spec n (A, f) (Rmdir path, Returned (-1) (Some ENOTEMPTY)) (A, f)"
| tree_not_there: "subfolders_to_vector path = Inr (p @ [nm]) \<Longrightarrow> locate A 2 p = Some d \<Longrightarrow> A d = Some E \<Longrightarrow>
    find_index (\<lambda>e. fst e = nm) E = None \<Longrightarrow> op \<in> {Unlink path, Rmdir path} \<Longrightarrow>
    tree_spec n (A, f) (op, Returned (-1) (Some ENOENT)) (A, f)"
| tree_no_parent: "subfolders_to_vector path = Inr (p @ [nm]) \<Longrightarrow> locate A 2 p = None \<Longrightarrow>
    op \<in> {Mkdir path, Write_File path buf cnt, Unlink path, Rmdir path} \<Longrightarrow>
    tree_spec n (A, f) (op, Returned (-1) (Some ENOENT)) (A, f)"
| tree_not_listed: "subfolders_to_vector path = Inr p \<Longrightarrow> locate A 2 p = None \<Longrightarrow>
    tree_spec n (A, f) (List_Dir path, Shown [45, 49]) (A, f)"

section \<open>The table on disk\<close>

text \<open>\<open>D\<close> gives for each inode of a directory the inodes of its entries.\<close>

definition entry_at :: "nat \<Rightarrow> fs_os \<Rightarrow> 64 word \<Rightarrow> byte list \<times> kind \<times> 64 word" where
  "entry_at n os l = (fst (entry_of n os l), if snd (entry_of n os l) = IMDIR then Folder else Regular, l)"

definition table_of :: "nat \<Rightarrow> fs_os \<Rightarrow> (64 word \<rightharpoonup> 64 word list) \<Rightarrow> inode_table" where
  "table_of n os D b = map_option (map (entry_at n os)) (D b)"

definition all_inodes :: "(64 word \<rightharpoonup> 64 word list) \<Rightarrow> 64 word set" where
  "all_inodes D = dom D \<union> (\<Union>ls \<in> ran D. set ls)"

definition dir_ok :: "superblock \<Rightarrow> fs_os \<Rightarrow> 64 word list \<Rightarrow> 64 word \<Rightarrow> 64 word list \<Rightarrow> bool" where
  "dir_ok sb os xs b ls \<longleftrightarrow> (\<forall>d \<in> {b, meta_of (bsz sb) os b}. 0 < d \<and> d < sb_blks sb \<and> d \<notin> set xs) \<and>
     dir_at (bsz sb) (meta_of (bsz sb) os b) (disk (bsz sb) os (meta_of (bsz sb) os b)) (disk (bsz sb) os b) ls"

definition child_ok :: "superblock \<Rightarrow> fs_os \<Rightarrow> 64 word list \<Rightarrow> (64 word \<rightharpoonup> 64 word list) \<Rightarrow> 64 word \<Rightarrow> bool" where
  "child_ok sb os xs D l \<longleftrightarrow> entry_ok sb os xs l \<and> fld 0 (disk (bsz sb) os l) \<in> {IMDIR, IMREG} \<and>
     (fld 0 (disk (bsz sb) os l) = IMDIR \<longleftrightarrow> D l \<noteq> None) \<and>
     (D l = None \<longrightarrow> fld 0 (disk (bsz sb) os (meta_of (bsz sb) os l)) = sb_blksz sb - 20)"

text \<open>No inode is linked twice, and no directory lies in itself.\<close>

definition one_parent :: "(64 word \<rightharpoonup> 64 word list) \<Rightarrow> bool" where
  "one_parent D \<longleftrightarrow> (\<forall>b ls. D b = Some ls \<longrightarrow> distinct ls \<and> b \<notin> set ls) \<and>
     (\<forall>a b ks ls. D a = Some ks \<longrightarrow> D b = Some ls \<longrightarrow> a \<noteq> b \<longrightarrow> set ks \<inter> set ls = {})"

lemma one_parentD:
  assumes "one_parent D"
  shows "D b = Some ls \<Longrightarrow> distinct ls" "D b = Some ls \<Longrightarrow> b \<notin> set ls"
    "D a = Some ks \<Longrightarrow> D b = Some ls \<Longrightarrow> a \<noteq> b \<Longrightarrow> set ks \<inter> set ls = {}"
  using assms by (auto simp: one_parent_def)

definition forest :: "superblock \<Rightarrow> fs_os \<Rightarrow> 64 word list \<Rightarrow> (64 word \<rightharpoonup> 64 word list) \<Rightarrow> bool" where
  "forest sb os xs D \<longleftrightarrow> free_list sb os xs \<and> (\<forall>x \<in> set xs. 2 < x) \<and> sb_root sb = 2 \<and>
     disk (bsz sb) os 0 = sb_bytes sb \<and> D 2 \<noteq> None \<and> meta_of (bsz sb) os 2 = 1 \<and>
     (\<forall>b ls. D b = Some ls \<longrightarrow> dir_ok sb os xs b ls \<and> (\<forall>l \<in> set ls. child_ok sb os xs D l)) \<and>
     inj_on (meta_of (bsz sb) os) (all_inodes D) \<and> all_inodes D \<inter> meta_of (bsz sb) os ` all_inodes D = {} \<and>
     one_parent D"

lemma forestD:
  assumes "forest sb os xs D"
  shows "free_list sb os xs" "mounted sb os" "x \<in> set xs \<Longrightarrow> 2 < x" "sb_root sb = 2"
    "disk (bsz sb) os 0 = sb_bytes sb" "D 2 \<noteq> None" "meta_of (bsz sb) os 2 = 1"
    "D b = Some ls \<Longrightarrow> dir_ok sb os xs b ls" "D b = Some ls \<Longrightarrow> l \<in> set ls \<Longrightarrow> child_ok sb os xs D l"
    "inj_on (meta_of (bsz sb) os) (all_inodes D)" "all_inodes D \<inter> meta_of (bsz sb) os ` all_inodes D = {}"
    "one_parent D"
  using assms by (simp_all add: forest_def free_list_def)

lemma dir_okD:
  assumes "dir_ok sb os xs b ls"
  shows "0 < b" "b < sb_blks sb" "b \<notin> set xs" "0 < meta_of (bsz sb) os b" "meta_of (bsz sb) os b < sb_blks sb"
    "meta_of (bsz sb) os b \<notin> set xs"
    "dir_at (bsz sb) (meta_of (bsz sb) os b) (disk (bsz sb) os (meta_of (bsz sb) os b)) (disk (bsz sb) os b) ls"
  using assms by (simp_all add: dir_ok_def)

lemma child_okD:
  assumes "child_ok sb os xs D l"
  shows "entry_ok sb os xs l" "fld 0 (disk (bsz sb) os l) \<in> {IMDIR, IMREG}"
    "fld 0 (disk (bsz sb) os l) = IMDIR \<longleftrightarrow> D l \<noteq> None"
    "D l = None \<Longrightarrow> fld 0 (disk (bsz sb) os (meta_of (bsz sb) os l)) = sb_blksz sb - 20"
  using assms by (auto simp: child_ok_def)

lemma in_all_inodes: "D b = Some ls \<Longrightarrow> b \<in> all_inodes D" "D b = Some ls \<Longrightarrow> l \<in> set ls \<Longrightarrow> l \<in> all_inodes D"
  by (auto simp: all_inodes_def ran_def)

lemma forest_meta:
  assumes "forest sb os xs D" and "a \<in> all_inodes D" and "b \<in> all_inodes D"
  shows "meta_of (bsz sb) os a \<noteq> b" "meta_of (bsz sb) os a = meta_of (bsz sb) os b \<longleftrightarrow> a = b"
  using forestD(10,11) [OF assms(1)] assms(2,3) by (auto simp: inj_on_def)

lemma table_inodes: "inodes_of (table_of n os D) = all_inodes D"
proof -
  have "dom (table_of n os D) = dom D" by (auto simp: table_of_def)
  moreover have "ran (table_of n os D) = map (entry_at n os) ` ran D" by (auto simp: table_of_def ran_def)
  ultimately show ?thesis by (simp add: inodes_of_def all_inodes_def image_image entry_at_def)
qed

lemma table_at: "D b = Some ls \<Longrightarrow> table_of n os D b = Some (map (entry_at n os) ls)"
  by (simp add: table_of_def)

lemma find_entry: "find_index (\<lambda>e. fst e = nm) (map (entry_at n os) ls) = find_index (\<lambda>l. fst (entry_of n os l) = nm) ls"
  by (simp add: find_index_map comp_def entry_at_def)

lemma shown_entries: "(\<And>l. l \<in> set ls \<Longrightarrow> child_ok sb os xs D l) \<Longrightarrow> n = bsz sb \<Longrightarrow>
  tree_listing (map (entry_at n os) ls) = listing (map (entry_of n os) ls)"
proof -
  assume c: "\<And>l. l \<in> set ls \<Longrightarrow> child_ok sb os xs D l" and n: "n = bsz sb"
  have "(fst (entry_at n os l), mode_of (fst (snd (entry_at n os l)))) = entry_of n os l" if "l \<in> set ls" for l
    using child_okD(2) [OF c [OF that]] by (auto simp: entry_at_def entry_of_def n)
  then have "map (\<lambda>e. (fst e, mode_of (fst (snd e)))) (map (entry_at n os) ls) = map (entry_of n os) ls" by simp
  then show ?thesis by (simp only: tree_listing_def)
qed

text \<open>Nothing changes when the disk is only read.\<close>

lemma dir_ok_same:
  assumes d: "dir_ok sb os xs b ls" and same: "same_disk sb os os'"
  shows "dir_ok sb os' xs b ls" "meta_of (bsz sb) os' b = meta_of (bsz sb) os b"
    "disk (bsz sb) os' b = disk (bsz sb) os b"
    "disk (bsz sb) os' (meta_of (bsz sb) os b) = disk (bsz sb) os (meta_of (bsz sb) os b)"
  using dir_okD [OF d] same_diskD [OF same] by (simp_all add: dir_ok_def meta_of_def)

lemma forest_same:
  assumes f: "forest sb os xs D" and same: "same_disk sb os os'"
  shows "forest sb os' xs D" "table_of (bsz sb) os' D = table_of (bsz sb) os D"
proof -
  note d = dir_ok_same [OF forestD(8) [OF f] same] note e = entry_ok_same [OF _ same]
  have child: "child_ok sb os' xs D l" "entry_at (bsz sb) os' l = entry_at (bsz sb) os l"
    "meta_of (bsz sb) os' l = meta_of (bsz sb) os l" if "D b = Some ls" "l \<in> set ls" for b ls l
    using child_okD [OF forestD(9) [OF f that]] e [of xs l] by (auto simp: child_ok_def entry_at_def entry_of_def)
  have meta: "meta_of (bsz sb) os' l = meta_of (bsz sb) os l" if "l \<in> all_inodes D" for l
    using that child(3) d(2) by (auto simp: all_inodes_def ran_def)
  have "inj_on (meta_of (bsz sb) os') (all_inodes D)" "meta_of (bsz sb) os' ` all_inodes D = meta_of (bsz sb) os ` all_inodes D"
    using meta forestD(10) [OF f] by (simp_all cong: inj_on_cong)
  moreover have "2 \<in> all_inodes D" using forestD(6) [OF f] by (auto simp: all_inodes_def)
  ultimately show "forest sb os' xs D"
    using forestD [OF f] free_list_same [OF forestD(1) [OF f] same] d(1) child(1) meta [of 2]
      same_diskD [OF same mountedD(5) [OF forestD(2) [OF f]]]
    by (auto simp: forest_def)
  show "table_of (bsz sb) os' D = table_of (bsz sb) os D"
  proof
    fix b
    show "table_of (bsz sb) os' D b = table_of (bsz sb) os D b"
      using child(2) by (cases "D b") (auto simp: table_of_def)
  qed
qed

end
