(* ===== verification/Fs_Tree_Walk.thy ===== *)
theory Fs_Tree_Walk
  imports Fs_Tree
begin

text \<open>
  The walks along a path, through the directories of a volume.
\<close>

section \<open>One level\<close>

declare locate.simps(2) [simp del] meets_file.simps(2) [simp del] last_position.simps(2) [simp del]

text \<open>Buffers that hold a directory, perhaps by way of copies.\<close>

definition at_dir :: "superblock \<Rightarrow> fs_os \<Rightarrow> 64 word \<Rightarrow> 64 word list \<Rightarrow> bufs \<Rightarrow> bool" where
  "at_dir sb os b ls bs \<longleftrightarrow> buffers (bsz sb) bs \<and> dir_at (bsz sb) (meta_of (bsz sb) os b) (b_info bs) (b_in bs) ls \<and>
     name_of (b_info bs) = name_of (disk (bsz sb) os (meta_of (bsz sb) os b))"

definition entry_index :: "nat \<Rightarrow> fs_os \<Rightarrow> byte list \<Rightarrow> 64 word list \<Rightarrow> nat option" where
  "entry_index n os nm ls = find_index (\<lambda>l. fst (entry_of n os l) = nm) ls"

lemma entry_index_Some: "entry_index n os nm ls = Some i \<Longrightarrow> i < length ls"
  by (simp add: entry_index_def find_index_Some)

lemma table_steps:
  assumes "D b = Some ls"
  shows "locate (table_of n os D) b (nm # p) =
      (case entry_index n os nm ls of None \<Rightarrow> None | Some i \<Rightarrow> locate (table_of n os D) (ls ! i) p)"
    and "meets_file (table_of n os D) b (nm # p) =
      (case entry_index n os nm ls of None \<Rightarrow> False | Some i \<Rightarrow> meets_file (table_of n os D) (ls ! i) p)"
    and "last_position (table_of n os D) b (nm # p) =
      (case entry_index n os nm ls of None \<Rightarrow> None
       | Some i \<Rightarrow> if p = [] then Some i else last_position (table_of n os D) (ls ! i) p)"
    and "find_index (\<lambda>e. fst e = nm) (the (table_of n os D b)) = entry_index n os nm ls"
  using entry_index_Some [of n os nm ls] assms
  by (auto simp: table_at find_entry entry_index_def [symmetric] entry_at_def
      locate.simps meets_file.simps last_position.simps split: option.splits)

lemma meets_file_at: "\<not> meets_file A d p \<Longrightarrow> A d \<noteq> None"
  by (cases p) (auto simp: meets_file.simps split: option.splits)

lemma not_file: "\<not> meets_file (table_of n os D) b p \<Longrightarrow> \<exists>ls. D b = Some ls"
  using meets_file_at by (fastforce simp: table_of_def)

lemma find_level:
  assumes f: "forest sb os xs D" and D: "D b = Some ls" and at: "at_dir sb os b ls bs" and same: "same_disk sb os os1"
  obtains bs' os2 where
    "search_file_in_directory sb nm bs os1 = Inr (entry_index (bsz sb) os nm ls, bs', os2)"
    "searched (bsz sb) bs bs'" "same_disk sb os os2" "load64 o_next (b_in bs') = Inr 0"
    "\<forall>i. entry_index (bsz sb) os nm ls = Some i \<longrightarrow> holds_entry (bsz sb) os (ls ! i) bs'"
proof -
  from at have bs: "buffers (bsz sb) bs" and dir: "dir_at (bsz sb) (meta_of (bsz sb) os b) (b_info bs) (b_in bs) ls"
    by (simp_all add: at_dir_def)
  have ent: "\<forall>l \<in> set ls. entry_ok sb os xs l" using child_okD(1) [OF forestD(9) [OF f D]] by blast
  from search_dir_ok [OF forestD(2) [OF f] same bs ent dir, of nm] obtain bs' os2 where
    r: "search_file_in_directory sb nm bs os1 = Inr (entry_index (bsz sb) os nm ls, bs', os2)"
    "searched (bsz sb) bs bs'" "same_disk sb os os2"
    "\<forall>i. entry_index (bsz sb) os nm ls = Some i \<longrightarrow> holds_entry (bsz sb) os (ls ! i) bs'"
    unfolding entry_index_def by blast
  have "load64 o_next (b_in bs') = Inr 0"
    using r(2) bs root_dirD(3) [OF dir] mountedD(3) [OF forestD(2) [OF f]]
    by (simp add: searched_def load64_ok o_next_def)
  with r show thesis by (intro that)
qed

lemma walk_level_ok:
  assumes f: "forest sb os xs D" and D: "D b = Some ls" and at: "at_dir sb os b ls bs" and same: "same_disk sb os os1"
  obtains bs' os2 where
    "walk_level sb nm last_one bs os1 = Some (Inr (entry_index (bsz sb) os nm ls \<noteq> None, bs', os2))"
    "searched (bsz sb) bs bs'" "same_disk sb os os2"
    "entry_index (bsz sb) os nm ls = None \<longrightarrow> errno os2 = ENOENT"
    "\<forall>i. entry_index (bsz sb) os nm ls = Some i \<longrightarrow> holds_entry (bsz sb) os (ls ! i) bs'"
proof (rule find_level [OF assms, of nm])
  fix bs' os2
  assume r: "search_file_in_directory sb nm bs os1 = Inr (entry_index (bsz sb) os nm ls, bs', os2)"
    "searched (bsz sb) bs bs'" "same_disk sb os os2" "load64 o_next (b_in bs') = Inr 0"
    "\<forall>i. entry_index (bsz sb) os nm ls = Some i \<longrightarrow> holds_entry (bsz sb) os (ls ! i) bs'"
  show thesis
  proof (cases "entry_index (bsz sb) os nm ls")
    case None
    then show thesis using r
      by (intro that [of bs' "os2\<lparr>errno := ENOENT\<rparr>"]) (simp_all add: walk_level.simps [of sb nm] same_disk_errno)
  next
    case (Some i)
    then show thesis using r by (intro that [of bs' os2]) (simp_all add: walk_level.simps [of sb nm])
  qed
qed

text \<open>Going down into the directory that was found.\<close>

lemma copy_dir:
  assumes f: "forest sb os xs D" and D: "D l = Some ls" and e: "holds_entry (bsz sb) os l bs"
    and len: "length a = bsz sb" "length i = bsz sb"
  obtains p q where "copy_inode a (b_in2 bs) (b_info2 bs) = Inr p" "copy_nodeinfo i (b_info2 bs) = Inr q"
    "length p = bsz sb" "length q = bsz sb" "dir_at (bsz sb) (meta_of (bsz sb) os l) q p ls"
    "name_of q = name_of (disk (bsz sb) os (meta_of (bsz sb) os l))"
proof -
  note d = dir_okD [OF forestD(8) [OF f D]] note m = forestD(2) [OF f]
  note n = mountedD(3) [OF m]
  have b: "b_in2 bs = disk (bsz sb) os l" "b_info2 bs = disk (bsz sb) os (meta_of (bsz sb) os l)"
    using e by (simp_all add: holds_entry_def)
  have lens: "length (b_in2 bs) = bsz sb" "length (b_info2 bs) = bsz sb" using b d(2,5) m by simp_all
  from copy_root_inode [OF d(7) [folded b] len(1) lens n] obtain p where
    p: "copy_inode a (b_in2 bs) (b_info2 bs) = Inr p" "length p = bsz sb"
    "dir_at (bsz sb) (meta_of (bsz sb) os l) (b_info2 bs) p ls" by blast
  have "64 \<le> bsz sb" "named (b_info2 bs)" using n root_dirD(4) [OF d(7)] b by simp_all
  from copy_nodeinfo_ok [OF len(2) lens(2) this] obtain q where
    q: "copy_nodeinfo i (b_info2 bs) = Inr q" "length q = bsz sb" "fld 0 q = fld 0 (b_info2 bs)" "named q"
    "name_of q = name_of (b_info2 bs)" by blast
  have "dir_at (bsz sb) (meta_of (bsz sb) os l) q p ls" using p(3) q(3,4) by (simp add: dir_at_def)
  then show thesis using p(2) q(2,5) b by (intro that [OF p(1) q(1)]) simp_all
qed

lemma step_down:
  assumes f: "forest sb os xs D" and D: "D l = Some ls" and bs: "buffers (bsz sb) bs" and e: "holds_entry (bsz sb) os l bs"
  obtains bs' where "jump_to_next_dir bs = Inr bs'" "at_dir sb os l ls bs'" "b_pin bs' = b_pin bs" "b_pinfo bs' = b_pinfo bs"
proof -
  from bs have "length (b_in bs) = bsz sb" "length (b_info bs) = bsz sb" by simp_all
  from copy_dir [OF f D e this] obtain p q where
    c: "copy_inode (b_in bs) (b_in2 bs) (b_info2 bs) = Inr p" "copy_nodeinfo (b_info bs) (b_info2 bs) = Inr q"
    "length p = bsz sb" "length q = bsz sb" "dir_at (bsz sb) (meta_of (bsz sb) os l) q p ls"
    "name_of q = name_of (disk (bsz sb) os (meta_of (bsz sb) os l))" by blast
  then show thesis using bs by (intro that [of "bs\<lparr>b_in := p, b_info := q\<rparr>"]) (simp_all add: jump_to_next_dir_def at_dir_def)
qed

lemma load_meta:
  assumes f: "forest sb os xs D" and D: "D l = Some ls" and e: "holds_entry (bsz sb) os l bs"
  shows "load64 o_meta (b_in2 bs) = Inr (meta_of (bsz sb) os l)"
proof -
  have "length (b_in2 bs) = bsz sb" using e dir_okD(2) [OF forestD(8) [OF f D]] forestD(2) [OF f] by (simp add: holds_entry_def)
  then show ?thesis
    using e mountedD(3) [OF forestD(2) [OF f]] by (simp add: load64_ok o_meta_def holds_entry_def meta_of_def)
qed

lemma load_child:
  assumes "at_dir sb os b ls bs" and "searched (bsz sb) bs bs'" and "i < length ls"
  shows "load64 (o_link (int i)) (b_in bs') = Inr (ls ! i)"
proof -
  from assms have "dir_at (bsz sb) (meta_of (bsz sb) os b) (b_info bs) (b_in bs) ls" "b_in bs' = b_in bs"
    "length (b_in bs) = bsz sb" by (simp_all add: at_dir_def searched_def)
  with root_dirD(6,7) [OF this(1)] assms(3) show ?thesis by (simp add: load_link)
qed

section \<open>Walks\<close>

lemma list_walk_ok:
  assumes f: "forest sb os xs D" and "at_dir sb os b ls bs" and "D b = Some ls" and "same_disk sb os os1"
    and "\<not> meets_file (table_of (bsz sb) os D) b p"
  shows "\<exists>r os2. list_walk sb p bs os1 = Inr (r, os2) \<and> same_disk sb os os2 \<and>
    (case locate (table_of (bsz sb) os D) b p of None \<Rightarrow> r = None \<and> errno os2 = ENOENT
     | Some b' \<Rightarrow> \<exists>ls' bs'. r = Some bs' \<and> D b' = Some ls' \<and> at_dir sb os b' ls' bs')"
  using assms(2-)
proof (induction p arbitrary: b ls bs os1)
  case Nil
  then show ?case by auto
next
  case (Cons nm p)
  obtain bs' os2 where w: "walk_level sb nm (p = []) bs os1 = Some (Inr (entry_index (bsz sb) os nm ls \<noteq> None, bs', os2))"
    "searched (bsz sb) bs bs'" "same_disk sb os os2"
    "entry_index (bsz sb) os nm ls = None \<longrightarrow> errno os2 = ENOENT"
    "\<forall>i. entry_index (bsz sb) os nm ls = Some i \<longrightarrow> holds_entry (bsz sb) os (ls ! i) bs'"
    by (rule walk_level_ok [OF f Cons.prems(2,1,3), of nm "p = []"])
  note t = table_steps [of D, OF Cons.prems(2)]
  show ?case
  proof (cases "entry_index (bsz sb) os nm ls")
    case None
    with w show ?thesis by (auto simp: t)
  next
    case (Some i)
    then have nf: "\<not> meets_file (table_of (bsz sb) os D) (ls ! i) p" using Cons.prems(4) by (simp add: t)
    from not_file [OF nf] obtain ls2 where D2: "D (ls ! i) = Some ls2" by blast
    have "buffers (bsz sb) bs'" using w(2) by (simp add: searched_def)
    from step_down [OF f D2 this w(5) [rule_format, OF Some]] obtain bs2 where
      j: "jump_to_next_dir bs' = Inr bs2" "at_dir sb os (ls ! i) ls2 bs2" by blast
    from Cons.IH [OF j(2) D2 w(3) nf] w(1) Some j(1) show ?thesis by (simp add: t)
  qed
qed

lemma mkdir_walk_ok:
  assumes f: "forest sb os xs D" and "at_dir sb os b ls bs" and "D b = Some ls" and "same_disk sb os os1"
    and "\<not> meets_file (table_of (bsz sb) os D) b p"
    and "\<forall>i. last_position (table_of (bsz sb) os D) b p = Some i \<longrightarrow> k = int i"
  shows "\<exists>r os2. mkdir_walk sb k p b0 b1 bs os1 = Inr (r, os2) \<and> same_disk sb os os2 \<and>
    (case locate (table_of (bsz sb) os D) b p of None \<Rightarrow> r = None \<and> errno os2 = ENOENT
     | Some b' \<Rightarrow> \<exists>ls' bs'. r = Some (if p = [] then b0 else meta_of (bsz sb) os b', if p = [] then b1 else b', bs') \<and>
         D b' = Some ls' \<and> at_dir sb os b' ls' bs')"
  using assms(2-)
proof (induction p arbitrary: b ls bs os1 b0 b1)
  case Nil
  then show ?case by auto
next
  case (Cons nm p)
  let ?n = "bsz sb"
  obtain bs' os2 where w: "walk_level sb nm (p = []) bs os1 = Some (Inr (entry_index ?n os nm ls \<noteq> None, bs', os2))"
    "searched ?n bs bs'" "same_disk sb os os2"
    "entry_index ?n os nm ls = None \<longrightarrow> errno os2 = ENOENT"
    "\<forall>i. entry_index ?n os nm ls = Some i \<longrightarrow> holds_entry ?n os (ls ! i) bs'"
    by (rule walk_level_ok [OF f Cons.prems(2,1,3), of nm "p = []"])
  note t = table_steps [of D, OF Cons.prems(2)]
  show ?case
  proof (cases "entry_index ?n os nm ls")
    case None
    with w show ?thesis by (auto simp: t)
  next
    case (Some i)
    then have nf: "\<not> meets_file (table_of ?n os D) (ls ! i) p" using Cons.prems(4) by (simp add: t)
    from not_file [OF nf] obtain ls2 where D2: "D (ls ! i) = Some ls2" by blast
    have b': "buffers ?n bs'" using w(2) by (simp add: searched_def)
    from step_down [OF f D2 b' w(5) [rule_format, OF Some]] obtain bs2 where
      j: "jump_to_next_dir bs' = Inr bs2" "at_dir sb os (ls ! i) ls2 bs2" by blast
    have k: "\<forall>i'. last_position (table_of ?n os D) (ls ! i) p = Some i' \<longrightarrow> k = int i'" if "p \<noteq> []"
      using Cons.prems(5) Some that by (simp add: t)
    have "load64 o_meta (b_in2 bs') = Inr (meta_of ?n os (ls ! i))" by (rule load_meta [OF f D2 w(5) [rule_format, OF Some]])
    moreover have "load64 (o_link k) (b_in bs') = Inr (ls ! i)" if "p = []"
    proof -
      have "k = int i" using Cons.prems(5) Some that by (simp add: t)
      with load_child [OF Cons.prems(1) w(2) entry_index_Some [OF Some]] show ?thesis by simp
    qed
    ultimately have blocks: "load64 o_meta (b_in2 bs') = Inr (meta_of ?n os (ls ! i))"
      "p = [] \<Longrightarrow> load64 (o_link k) (b_in bs') = Inr (ls ! i)" by simp_all
    show ?thesis
    proof (cases "p = []")
      case True
      then show ?thesis using blocks w(1,3) Some j D2 by (simp add: t)
    next
      case False
      then show ?thesis using Cons.IH [OF j(2) D2 w(3) nf k [OF False], of b0 b1] w(1) Some j(1)
        by (cases "locate (table_of ?n os D) (ls ! i) p") (simp_all add: t)
    qed
  qed
qed

end
