(* ===== verification/Fs_Tree_Change.thy ===== *)
theory Fs_Tree_Change
  imports Fs_Tree_Walk
begin

text \<open>
  What stays when one directory is written again.
\<close>

lemma forest_blocks:
  assumes f: "forest sb os xs D" and a: "a \<in> all_inodes D"
  shows "0 < a" "a < sb_blks sb" "a \<notin> set xs" "0 < meta_of (bsz sb) os a" "meta_of (bsz sb) os a < sb_blks sb"
    "meta_of (bsz sb) os a \<notin> set xs"
proof -
  from a consider (dir) ls where "D a = Some ls" | (child) b ls where "D b = Some ls" "a \<in> set ls"
    by (auto simp: all_inodes_def ran_def)
  then have "0 < a \<and> a < sb_blks sb \<and> a \<notin> set xs \<and> 0 < meta_of (bsz sb) os a \<and> meta_of (bsz sb) os a < sb_blks sb \<and>
    meta_of (bsz sb) os a \<notin> set xs"
  proof cases
    case dir
    then show ?thesis using dir_okD [OF forestD(8) [OF f dir]] by simp
  next
    case child
    have "0 < w" if "2 < w" for w :: "64 word" using that by (metis word_greater_zero_iff word_not_simps(1))
    then show ?thesis using entry_okD [OF child_okD(1) [OF forestD(9) [OF f child]]] by simp
  qed
  then show "0 < a" "a < sb_blks sb" "a \<notin> set xs" "0 < meta_of (bsz sb) os a" "meta_of (bsz sb) os a < sb_blks sb"
    "meta_of (bsz sb) os a \<notin> set xs" by simp_all
qed

text \<open>
  The directory \<open>b\<close> gets the entries \<open>ks\<close> and keeps its name; beside its blocks and the superblock only
  blocks of \<open>Z\<close> are written.
\<close>

definition rewritten :: "superblock \<Rightarrow> fs_os \<Rightarrow> 64 word list \<Rightarrow> (64 word \<rightharpoonup> 64 word list) \<Rightarrow> 64 word \<Rightarrow>
  64 word list \<Rightarrow> fs_os \<Rightarrow> 64 word list \<Rightarrow> 64 word set \<Rightarrow> bool" where
  "rewritten sb os ys D b ls os' ks Z \<longleftrightarrow>
     forest sb os ys D \<and> D b = Some ls \<and>
     (\<forall>d < sb_blks sb. d \<noteq> 0 \<longrightarrow> d \<noteq> b \<longrightarrow> d \<noteq> meta_of (bsz sb) os b \<longrightarrow> d \<notin> Z \<longrightarrow>
        disk (bsz sb) os' d = disk (bsz sb) os d) \<and>
     dir_at (bsz sb) (meta_of (bsz sb) os b) (disk (bsz sb) os' (meta_of (bsz sb) os b)) (disk (bsz sb) os' b) ks \<and>
     name_of (disk (bsz sb) os' (meta_of (bsz sb) os b)) = name_of (disk (bsz sb) os (meta_of (bsz sb) os b))"

lemma rewrittenD:
  assumes "rewritten sb os ys D b ls os' ks Z"
  shows "forest sb os ys D" "D b = Some ls"
    "\<forall>d < sb_blks sb. d \<noteq> 0 \<longrightarrow> d \<noteq> b \<longrightarrow> d \<noteq> meta_of (bsz sb) os b \<longrightarrow> d \<notin> Z \<longrightarrow>
      disk (bsz sb) os' d = disk (bsz sb) os d"
    "dir_at (bsz sb) (meta_of (bsz sb) os b) (disk (bsz sb) os' (meta_of (bsz sb) os b)) (disk (bsz sb) os' b) ks"
    "name_of (disk (bsz sb) os' (meta_of (bsz sb) os b)) = name_of (disk (bsz sb) os (meta_of (bsz sb) os b))"
    "b \<in> all_inodes D"
  using assms by (auto simp: rewritten_def in_all_inodes(1))

text \<open>An inode none of whose blocks is in \<open>Z\<close> is there as before.\<close>

definition spared :: "superblock \<Rightarrow> fs_os \<Rightarrow> (64 word \<rightharpoonup> 64 word list) \<Rightarrow> 64 word set \<Rightarrow> 64 word \<Rightarrow> bool" where
  "spared sb os D Z a \<longleftrightarrow> a \<in> all_inodes D \<and> a \<notin> Z \<and> meta_of (bsz sb) os a \<notin> Z"

lemma spared_disk:
  assumes R: "rewritten sb os ys D b ls os' ks Z" and a: "spared sb os D Z a" and "a \<noteq> b"
  shows "disk (bsz sb) os' a = disk (bsz sb) os a"
    "disk (bsz sb) os' (meta_of (bsz sb) os a) = disk (bsz sb) os (meta_of (bsz sb) os a)"
proof -
  note f = rewrittenD(1) [OF R] note b = rewrittenD(6) [OF R]
  have a': "a \<in> all_inodes D" using a by (simp add: spared_def)
  show "disk (bsz sb) os' a = disk (bsz sb) os a"
    "disk (bsz sb) os' (meta_of (bsz sb) os a) = disk (bsz sb) os (meta_of (bsz sb) os a)"
    using forest_blocks [OF f a'] forest_meta [OF f b a'] forest_meta [OF f a' b] assms(3) a rewrittenD(3) [OF R]
    by (auto simp: spared_def)
qed

lemma spared_inode:
  assumes R: "rewritten sb os ys D b ls os' ks Z" and a: "spared sb os D Z a"
  shows "meta_of (bsz sb) os' a = meta_of (bsz sb) os a"
    and "fld 0 (disk (bsz sb) os' a) = fld 0 (disk (bsz sb) os a)"
    and "name_of (disk (bsz sb) os' (meta_of (bsz sb) os a)) = name_of (disk (bsz sb) os (meta_of (bsz sb) os a))"
    and "named (disk (bsz sb) os (meta_of (bsz sb) os a)) \<Longrightarrow> named (disk (bsz sb) os' (meta_of (bsz sb) os a))"
proof -
  note d = rewrittenD [OF R] note r = root_dirD [OF d(4)]
  note q = root_dirD(1) [OF dir_okD(7) [OF forestD(8) [OF d(1,2)]]]
  show "meta_of (bsz sb) os' a = meta_of (bsz sb) os a"
    using spared_disk(1) [OF R a] r(2) by (cases "a = b") (simp_all add: meta_of_def)
  show "fld 0 (disk (bsz sb) os' a) = fld 0 (disk (bsz sb) os a)"
    using spared_disk(1) [OF R a] r(1) q by (cases "a = b") simp_all
  show "name_of (disk (bsz sb) os' (meta_of (bsz sb) os a)) = name_of (disk (bsz sb) os (meta_of (bsz sb) os a))"
    and "named (disk (bsz sb) os (meta_of (bsz sb) os a)) \<Longrightarrow> named (disk (bsz sb) os' (meta_of (bsz sb) os a))"
    using spared_disk(2) [OF R a] d(5) r(4) by (cases "a = b"; simp)+
qed

lemma spared_entry:
  assumes R: "rewritten sb os ys D b ls os' ks Z" and a: "spared sb os D Z a"
  shows "entry_at (bsz sb) os' a = entry_at (bsz sb) os a"
    and "entry_ok sb os ys a \<Longrightarrow> a \<notin> set xs \<Longrightarrow> meta_of (bsz sb) os a \<notin> set xs \<Longrightarrow> entry_ok (took sb zs) os' xs a"
proof -
  note k = spared_inode [OF R a]
  show "entry_at (bsz sb) os' a = entry_at (bsz sb) os a" by (simp add: entry_of_def entry_at_def k(1-3))
  show "entry_ok (took sb zs) os' xs a"
    if "entry_ok sb os ys a" "a \<notin> set xs" "meta_of (bsz sb) os a \<notin> set xs"
    using entry_okD [OF that(1)] that(2,3) k by (simp add: entry_ok_def)
qed

lemma spared_child:
  assumes R: "rewritten sb os ys D b ls os' ks Z" and a: "spared sb os D Z l" and c: "child_ok sb os ys D l"
    and out: "l \<notin> set xs" "meta_of (bsz sb) os l \<notin> set xs" and D': "D' l = None \<longleftrightarrow> D l = None"
  shows "child_ok (took sb zs) os' xs D' l"
proof -
  have "disk (bsz sb) os' (meta_of (bsz sb) os l) = disk (bsz sb) os (meta_of (bsz sb) os l)" if "D l = None"
    using spared_disk(2) [OF R a] that rewrittenD(2) [OF R] by fastforce
  then show ?thesis
    using child_okD [OF c] spared_entry(2) [OF R a _ out] spared_inode(1,2) [OF R a] D' by (simp add: child_ok_def)
qed

lemma spared_dir:
  assumes R: "rewritten sb os ys D b ls os' ks Z" and a: "spared sb os D Z a" and D: "D a = Some js"
    and out: "a \<notin> set xs" "meta_of (bsz sb) os a \<notin> set xs"
  shows "dir_ok (took sb zs) os' xs a (if a = b then ks else js)"
  using dir_okD [OF forestD(8) [OF rewrittenD(1) [OF R] D]] spared_disk [OF R a] spared_inode(1) [OF R a]
    rewrittenD(4) [OF R] out by (simp add: dir_ok_def)

lemma spared_meta:
  assumes R: "rewritten sb os ys D b ls os' ks Z" and "\<And>a. a \<in> S \<Longrightarrow> spared sb os D Z a"
  shows "inj_on (meta_of (bsz sb) os') S" "meta_of (bsz sb) os' ` S = meta_of (bsz sb) os ` S" "S \<inter> meta_of (bsz sb) os ` S = {}"
proof -
  note f = rewrittenD(1) [OF R]
  have sub: "S \<subseteq> all_inodes D" using assms(2) by (auto simp: spared_def)
  have m: "meta_of (bsz sb) os' a = meta_of (bsz sb) os a" if "a \<in> S" for a
    by (rule spared_inode(1) [OF R assms(2) [OF that]])
  show "inj_on (meta_of (bsz sb) os') S"
    using inj_on_subset [OF forestD(10) [OF f] sub] m by (simp cong: inj_on_cong)
  show "meta_of (bsz sb) os' ` S = meta_of (bsz sb) os ` S" using m by simp
  show "S \<inter> meta_of (bsz sb) os ` S = {}" using forestD(11) [OF f] sub by blast
qed

end
