(* ===== verification/Fs_Tree_Drop.thy ===== *)
theory Fs_Tree_Drop
  imports Fs_Tree_Change
begin

text \<open>
  What a volume holds after a directory has lost an entry, whose two blocks are free again.
\<close>

definition gone_entry :: "superblock \<Rightarrow> fs_os \<Rightarrow> 64 word list \<Rightarrow> (64 word \<rightharpoonup> 64 word list) \<Rightarrow>
  64 word \<Rightarrow> 64 word list \<Rightarrow> fs_os \<Rightarrow> nat \<Rightarrow> 64 word \<Rightarrow> 64 word \<Rightarrow> bool" where
  "gone_entry sb os xs D b ls os' i l m \<longleftrightarrow>
     rewritten sb os xs D b ls os' (drop_nth i ls) {l, m} \<and> free_list (took sb (l # m # xs)) os' (l # m # xs) \<and>
     disk (bsz sb) os' 0 = sb_bytes (took sb (l # m # xs)) \<and>
     i < length ls \<and> l = ls ! i \<and> m = meta_of (bsz sb) os l"

lemma gone_entryD:
  assumes "gone_entry sb os xs D b ls os' i l m"
  shows "rewritten sb os xs D b ls os' (drop_nth i ls) {l, m}" "free_list (took sb (l # m # xs)) os' (l # m # xs)"
    "disk (bsz sb) os' 0 = sb_bytes (took sb (l # m # xs))" "i < length ls" "l = ls ! i" "m = meta_of (bsz sb) os l"
    "forest sb os xs D" "D b = Some ls" "b \<in> all_inodes D" "l \<in> set ls" "l \<in> all_inodes D" "2 < l" "2 < m"
proof -
  show *: "rewritten sb os xs D b ls os' (drop_nth i ls) {l, m}" "free_list (took sb (l # m # xs)) os' (l # m # xs)"
    "disk (bsz sb) os' 0 = sb_bytes (took sb (l # m # xs))" "i < length ls" "l = ls ! i" "m = meta_of (bsz sb) os l"
    using assms unfolding gone_entry_def by blast+
  show f: "forest sb os xs D" and b: "D b = Some ls" "b \<in> all_inodes D" using rewrittenD(1,2,6) [OF *(1)] by simp_all
  show l: "l \<in> set ls" using *(4,5) by simp
  show "l \<in> all_inodes D" by (rule in_all_inodes(2) [of D, OF b(1) l])
  show "2 < l" "2 < m" using entry_okD(1,4) [OF child_okD(1) [OF forestD(9) [OF f b(1) l]]] *(6) by simp_all
qed

text \<open>The entries of a directory that goes with its name stay behind, as inodes that no path leads to.\<close>

definition shrink :: "(64 word \<rightharpoonup> 64 word list) \<Rightarrow> 64 word \<Rightarrow> 64 word list \<Rightarrow> nat \<Rightarrow> 64 word \<rightharpoonup> 64 word list" where
  "shrink D b ls i = D(b \<mapsto> drop_nth i ls, ls ! i := None)"

lemma shrink_cases:
  assumes G: "gone_entry sb os xs D b ls os' i l m" and s: "shrink D b ls i a = Some ks"
  obtains js where "D a = Some js" "a \<noteq> l" "ks = (if a = b then drop_nth i ls else js)" "set ks \<subseteq> set js" "l \<notin> set ks"
    "distinct ks"
proof -
  note d = gone_entryD [OF G] note P = one_parentD [OF forestD(12) [OF d(7)]]
  have a: "a \<noteq> l" using s d(5) by (auto simp: shrink_def)
  show thesis
  proof (cases "a = b")
    case True
    then have ks: "ks = drop_nth i ls" using s d(5) a by (simp add: shrink_def)
    show thesis using True ks a d(4,5,8) set_drop_nth [of i ls] distinct_drop_nth [OF P(1) [OF d(8)] d(4)]
      by (intro that [of ls]) auto
  next
    case False
    then have "D a = Some ks" using s d(5) a by (simp add: shrink_def)
    with False a d(8,10) P(1) [of a ks] P(3) [of a ks b ls] show thesis by (intro that [of ks]) auto
  qed
qed

lemma shrink_at:
  assumes G: "gone_entry sb os xs D b ls os' i l m" and "a \<noteq> l"
  shows "shrink D b ls i a = None \<longleftrightarrow> D a = None"
  using gone_entryD(5,8) [OF G] assms(2) by (auto simp: shrink_def)

lemma shrink_inodes:
  assumes G: "gone_entry sb os xs D b ls os' i l m" and a: "a \<in> all_inodes (shrink D b ls i)"
  shows "a \<in> all_inodes D" "a \<noteq> l"
proof -
  from a consider (dir) ks where "shrink D b ls i a = Some ks"
    | (child) c ks where "shrink D b ls i c = Some ks" "a \<in> set ks" by (auto simp: all_inodes_def ran_def)
  then have "a \<in> all_inodes D \<and> a \<noteq> l"
  proof cases
    case dir
    then show ?thesis by (rule shrink_cases [OF G]) (auto simp: in_all_inodes(1))
  next
    case child
    show ?thesis by (rule shrink_cases [OF G child(1)]) (use child(2) in_all_inodes(2) [of D c _ a] in blast)
  qed
  then show "a \<in> all_inodes D" "a \<noteq> l" by simp_all
qed

lemma shrink_spared:
  assumes G: "gone_entry sb os xs D b ls os' i l m" and a: "a \<in> all_inodes (shrink D b ls i)"
  shows "spared sb os D {l, m} a" "a \<notin> set (l # m # xs)" "meta_of (bsz sb) os a \<notin> set (l # m # xs)"
proof -
  note d = gone_entryD [OF G] note A = shrink_inodes [OF G a]
  note x = forest_meta [OF d(7,11) A(1)] forest_meta [OF d(7) A(1) d(11)] forest_blocks [OF d(7) A(1)]
  show "spared sb os D {l, m} a" "a \<notin> set (l # m # xs)" "meta_of (bsz sb) os a \<notin> set (l # m # xs)"
    using x A d(6) by (auto simp: spared_def)
qed

lemma shrink_child:
  assumes G: "gone_entry sb os xs D b ls os' i l m" and c: "child_ok sb os xs D c" and a: "c \<in> all_inodes (shrink D b ls i)"
  shows "child_ok (took sb (l # m # xs)) os' (l # m # xs) (shrink D b ls i) c"
  by (rule spared_child [where D' = "shrink D b ls i", OF gone_entryD(1) [OF G] shrink_spared(1) [OF G a] c
        shrink_spared(2,3) [OF G a] shrink_at [OF G shrink_inodes(2) [OF G a]]])

lemma shrink_dir:
  assumes G: "gone_entry sb os xs D b ls os' i l m" and s: "shrink D b ls i a = Some ks"
  shows "dir_ok (took sb (l # m # xs)) os' (l # m # xs) a ks \<and>
    (\<forall>c \<in> set ks. child_ok (took sb (l # m # xs)) os' (l # m # xs) (shrink D b ls i) c)"
proof (rule shrink_cases [OF G s])
  fix js assume a: "D a = Some js" "a \<noteq> l" "ks = (if a = b then drop_nth i ls else js)" "set ks \<subseteq> set js"
  note d = gone_entryD [OF G] and i = in_all_inodes [of "shrink D b ls i", OF s]
  have "dir_ok (took sb (l # m # xs)) os' (l # m # xs) a ks"
    using spared_dir [OF d(1) shrink_spared(1) [OF G i(1)] a(1) shrink_spared(2,3) [OF G i(1)]] a(3) by simp
  moreover have "child_ok (took sb (l # m # xs)) os' (l # m # xs) (shrink D b ls i) c" if "c \<in> set ks" for c
    using shrink_child [OF G forestD(9) [OF d(7) a(1)] i(2) [OF that]] a(4) that by blast
  ultimately show ?thesis by blast
qed

lemma shrink_parents:
  assumes G: "gone_entry sb os xs D b ls os' i l m"
  shows "one_parent (shrink D b ls i)"
proof -
  note P = one_parentD [OF forestD(12) [OF gone_entryD(7) [OF G]]]
  have own: "distinct ks \<and> a \<notin> set ks" if "shrink D b ls i a = Some ks" for a ks
    by (rule shrink_cases [OF G that]) (use P(2) in blast)
  have apart: "set ks \<inter> set js = {}" if "shrink D b ls i a = Some ks" "shrink D b ls i c = Some js" "a \<noteq> c" for a c ks js
    by (rule shrink_cases [OF G that(1)], rule shrink_cases [OF G that(2)]) (use P(3) that(3) in blast)
  show ?thesis unfolding one_parent_def using own apart by blast
qed

lemma shrink_forest:
  assumes G: "gone_entry sb os xs D b ls os' i l m"
  shows "forest (took sb (l # m # xs)) os' (l # m # xs) (shrink D b ls i)"
proof -
  note d = gone_entryD [OF G] note f = forestD [OF d(7)]
  have "2 \<noteq> l" using d(12) by auto
  then have two: "shrink D b ls i 2 \<noteq> None" using shrink_at [OF G, of 2] f(6) by simp
  then have "2 \<in> all_inodes (shrink D b ls i)" by (auto simp: all_inodes_def)
  from spared_inode(1) [OF d(1) shrink_spared(1) [OF G this]] have "meta_of (bsz sb) os' 2 = 1" using f(7) by simp
  then show ?thesis
    using d(2,3,12,13) f(3,4) two shrink_dir [OF G] spared_meta [OF d(1) shrink_spared(1) [OF G]] shrink_parents [OF G]
    by (simp add: forest_def)
qed

lemma shrink_table:
  assumes G: "gone_entry sb os xs D b ls os' i l m"
  shows "table_of (bsz sb) os' (shrink D b ls i) =
    (table_of (bsz sb) os D)(b \<mapsto> drop_nth i (map (entry_at (bsz sb) os) ls), l := None)"
proof
  fix a
  note d = gone_entryD [OF G]
  have keep: "map (entry_at (bsz sb) os') ks = map (entry_at (bsz sb) os) ks" if "shrink D b ls i c = Some ks" for c ks
    using spared_entry(1) [OF d(1) shrink_spared(1) [OF G in_all_inodes(2) [of "shrink D b ls i", OF that]]] by simp
  show "table_of (bsz sb) os' (shrink D b ls i) a =
    ((table_of (bsz sb) os D)(b \<mapsto> drop_nth i (map (entry_at (bsz sb) os) ls), l := None)) a"
  proof (cases "shrink D b ls i a")
    case None
    then show ?thesis using d(5,8) by (auto simp: table_of_def shrink_def split: if_splits)
  next
    case (Some ks)
    then show ?thesis using keep [OF Some] d(5)
      by (auto simp: table_of_def shrink_def map_drop_nth [symmetric] split: if_splits)
  qed
qed

end
