(* ===== verification/Fs_Tree_Grow.thy ===== *)
theory Fs_Tree_Grow
  imports Fs_Tree_Change
begin

text \<open>
  What a volume holds after a directory has got a new entry, for directories and files alike.
\<close>

text \<open>
  The inode \<open>y\<close> with the nodeinfo \<open>x\<close>, two blocks of \<open>zs\<close> that were free, becomes the last entry of the
  directory \<open>b\<close>.
\<close>

definition new_entry :: "superblock \<Rightarrow> fs_os \<Rightarrow> 64 word list \<Rightarrow> 64 word list \<Rightarrow> (64 word \<rightharpoonup> 64 word list) \<Rightarrow>
  64 word \<Rightarrow> 64 word list \<Rightarrow> fs_os \<Rightarrow> 64 word \<Rightarrow> 64 word \<Rightarrow> byte list \<Rightarrow> kind \<Rightarrow> bool" where
  "new_entry sb os zs xs D b ls os' x y nm kd \<longleftrightarrow>
     rewritten sb os (zs @ xs) D b ls os' (ls @ [y]) (set zs) \<and> free_list (took sb xs) os' xs \<and>
     disk (bsz sb) os' 0 = sb_bytes (took sb xs) \<and>
     x \<noteq> y \<and> x \<in> set zs \<and> y \<in> set zs \<and> fld 0 (disk (bsz sb) os' y) = mode_of kd \<and>
     fld 16 (disk (bsz sb) os' y) = x \<and> named (disk (bsz sb) os' x) \<and> name_of (disk (bsz sb) os' x) = nm \<and>
     (if kd = Folder then dir_at (bsz sb) x (disk (bsz sb) os' x) (disk (bsz sb) os' y) []
      else fld 0 (disk (bsz sb) os' x) = sb_blksz sb - 20)"

lemma new_entryD:
  assumes "new_entry sb os zs xs D b ls os' x y nm kd"
  shows "rewritten sb os (zs @ xs) D b ls os' (ls @ [y]) (set zs)" "free_list (took sb xs) os' xs"
    "disk (bsz sb) os' 0 = sb_bytes (took sb xs)" "x \<noteq> y" "x \<in> set zs" "y \<in> set zs"
    "fld 0 (disk (bsz sb) os' y) = mode_of kd"
    "fld 16 (disk (bsz sb) os' y) = x" "named (disk (bsz sb) os' x)" "name_of (disk (bsz sb) os' x) = nm"
    "kd = Folder \<Longrightarrow> dir_at (bsz sb) x (disk (bsz sb) os' x) (disk (bsz sb) os' y) []"
    "kd \<noteq> Folder \<Longrightarrow> fld 0 (disk (bsz sb) os' x) = sb_blksz sb - 20"
    "forest sb os (zs @ xs) D" "D b = Some ls" "b \<in> all_inodes D"
  using assms rewrittenD(6) [of sb os "zs @ xs" D b ls os' "ls @ [y]" "set zs"] by (simp_all add: new_entry_def rewritten_def)

definition grow :: "(64 word \<rightharpoonup> 64 word list) \<Rightarrow> 64 word \<Rightarrow> 64 word list \<Rightarrow> 64 word \<Rightarrow> kind \<Rightarrow> 64 word \<rightharpoonup> 64 word list" where
  "grow D b ls y kd = (if kd = Folder then D(b \<mapsto> ls @ [y], y \<mapsto> []) else D(b \<mapsto> ls @ [y]))"

lemma fresh_blocks:
  assumes N: "new_entry sb os zs xs D b ls os' x y nm kd"
  shows "y \<notin> all_inodes D" "x \<notin> all_inodes D" "y \<notin> meta_of (bsz sb) os ` all_inodes D"
    "x \<notin> meta_of (bsz sb) os ` all_inodes D" "y \<noteq> b" "D y = None"
    "a \<in> all_inodes D \<Longrightarrow> spared sb os D (set zs) a" "a \<in> all_inodes D \<Longrightarrow> a \<notin> set xs"
    "a \<in> all_inodes D \<Longrightarrow> meta_of (bsz sb) os a \<notin> set xs"
proof -
  note d = new_entryD [OF N]
  show y: "y \<notin> all_inodes D" and "x \<notin> all_inodes D" "y \<notin> meta_of (bsz sb) os ` all_inodes D"
    "x \<notin> meta_of (bsz sb) os ` all_inodes D"
    using forest_blocks [OF d(13)] d(5,6) by auto
  show "y \<noteq> b" "D y = None" using y d(15) by (auto simp: all_inodes_def)
  show "spared sb os D (set zs) a" "a \<notin> set xs" "meta_of (bsz sb) os a \<notin> set xs" if "a \<in> all_inodes D"
    using forest_blocks(3,6) [OF d(13) that] that by (simp_all add: spared_def)
qed

lemma new_blocks:
  assumes N: "new_entry sb os zs xs D b ls os' x y nm kd"
  shows "2 < x" "2 < y" "x < sb_blks sb" "y < sb_blks sb" "x \<notin> set xs" "y \<notin> set xs"
  using forestD(3) [OF new_entryD(13) [OF N]] free_listD(3,4) [OF forestD(1) [OF new_entryD(13) [OF N]]]
    new_entryD(5,6) [OF N] by auto

lemma the_new_entry:
  assumes N: "new_entry sb os zs xs D b ls os' x y nm kd"
  shows "meta_of (bsz sb) os' y = x" "entry_at (bsz sb) os' y = (nm, kd, y)" "entry_ok (took sb xs) os' xs y"
proof -
  note d = new_entryD [OF N]
  show m: "meta_of (bsz sb) os' y = x" using d(8) by (simp add: meta_of_def)
  show "entry_at (bsz sb) os' y = (nm, kd, y)" "entry_ok (took sb xs) os' xs y"
    using new_blocks [OF N] d(7,9,10) m by (cases kd; simp add: entry_at_def entry_of_def entry_ok_def)+
qed

section \<open>The grown directory\<close>

lemma grow_at:
  assumes N: "new_entry sb os zs xs D b ls os' x y nm kd"
  shows "grow D b ls y kd b = Some (ls @ [y])" "grow D b ls y kd y = (if kd = Folder then Some [] else None)"
    "a \<noteq> b \<Longrightarrow> a \<noteq> y \<Longrightarrow> grow D b ls y kd a = D a"
    "a \<in> all_inodes D \<Longrightarrow> grow D b ls y kd a = None \<longleftrightarrow> D a = None"
  using fresh_blocks(1,5,6) [OF N] new_entryD(14) [OF N] by (auto simp: grow_def)

lemma grow_cases:
  assumes N: "new_entry sb os zs xs D b ls os' x y nm kd" and "grow D b ls y kd a = Some ks"
  obtains "a = b" "ks = ls @ [y]" | "a = y" "ks = []" "kd = Folder" | "a \<noteq> b" "a \<noteq> y" "D a = Some ks"
  using assms(2) grow_at [OF N] by (cases "a = b"; cases "a = y"; cases kd) auto

lemma grow_inodes:
  assumes N: "new_entry sb os zs xs D b ls os' x y nm kd"
  shows "all_inodes (grow D b ls y kd) = insert y (all_inodes D)" (is "all_inodes ?G = _")
proof -
  note d = new_entryD [OF N] note g = grow_at [OF N]
  have old: "a \<in> all_inodes ?G \<longleftrightarrow> a \<in> all_inodes D" if a: "a \<noteq> y" for a
  proof -
    have dom: "a \<in> dom ?G \<longleftrightarrow> a \<in> dom D" using g(1) g(3) [of a] a d(14) by (cases "a = b") (simp_all add: domIff)
    have "(\<exists>c ks. ?G c = Some ks \<and> a \<in> set ks) \<longleftrightarrow> (\<exists>c ks. D c = Some ks \<and> a \<in> set ks)"
    proof
      assume "\<exists>c ks. ?G c = Some ks \<and> a \<in> set ks"
      then obtain c ks where c: "?G c = Some ks" "a \<in> set ks" by blast
      then show "\<exists>c ks. D c = Some ks \<and> a \<in> set ks" using a d(14) by (cases rule: grow_cases [OF N c(1)]) auto
    next
      assume "\<exists>c ks. D c = Some ks \<and> a \<in> set ks"
      then obtain c ks where c: "D c = Some ks" "a \<in> set ks" by blast
      then have "c \<noteq> y" using fresh_blocks(6) [OF N] by auto
      then show "\<exists>c ks. ?G c = Some ks \<and> a \<in> set ks"
        using c d(14) g(1) g(3) [of c] by (cases "c = b"; intro exI [of _ c] exI [of _ "the (?G c)"]) auto
    qed
    with dom show ?thesis by (auto simp: all_inodes_def ran_def)
  qed
  have "y \<in> set (ls @ [y])" by simp
  with in_all_inodes(2) [of ?G, OF g(1)] have "y \<in> all_inodes ?G" by blast
  with old show ?thesis using fresh_blocks(1) [OF N] by (intro set_eqI) (metis insert_iff)
qed

lemma grow_meta:
  assumes N: "new_entry sb os zs xs D b ls os' x y nm kd"
  shows "inj_on (meta_of (bsz sb) os') (all_inodes (grow D b ls y kd))"
    "all_inodes (grow D b ls y kd) \<inter> meta_of (bsz sb) os' ` all_inodes (grow D b ls y kd) = {}"
proof -
  note i = grow_inodes [OF N] note fb = fresh_blocks [OF N]
  note m = spared_meta [OF new_entryD(1) [OF N] fb(7)] note y = the_new_entry(1) [OF N]
  have "meta_of (bsz sb) os' y \<notin> meta_of (bsz sb) os' ` (all_inodes D - {y})" using fb(4) m(2) y by auto
  then show "inj_on (meta_of (bsz sb) os') (all_inodes (grow D b ls y kd))" using m(1) by (simp add: i inj_on_insert)
  show "all_inodes (grow D b ls y kd) \<inter> meta_of (bsz sb) os' ` all_inodes (grow D b ls y kd) = {}"
    using m(2,3) fb(2,3) y new_entryD(4) [OF N] by (auto simp: i)
qed

lemma grow_child:
  assumes N: "new_entry sb os zs xs D b ls os' x y nm kd" and c: "child_ok sb os (zs @ xs) D l" and l: "l \<in> all_inodes D"
  shows "child_ok (took sb xs) os' xs (grow D b ls y kd) l"
  by (rule spared_child [where D' = "grow D b ls y kd", OF new_entryD(1) [OF N] fresh_blocks(7) [OF N l] c
        fresh_blocks(8,9) [OF N l] grow_at(4) [OF N l]])

lemma grow_child_new:
  assumes N: "new_entry sb os zs xs D b ls os' x y nm kd"
  shows "child_ok (took sb xs) os' xs (grow D b ls y kd) y"
  using the_new_entry(1,3) [OF N] new_entryD(7,12) [OF N] grow_at(2) [OF N]
  by (cases kd) (simp_all add: child_ok_def IMDIR_def IMREG_def)

lemma grow_parents:
  assumes N: "new_entry sb os zs xs D b ls os' x y nm kd"
  shows "one_parent (grow D b ls y kd)"
proof -
  note P = one_parentD [OF forestD(12) [OF new_entryD(13) [OF N]]] note b = new_entryD(14) [OF N]
  have y: "y \<notin> set ks" if "D a = Some ks" for a ks
    using fresh_blocks(1) [OF N] in_all_inodes(2) [of D, OF that] by blast
  have own: "distinct ks \<and> a \<notin> set ks" if "grow D b ls y kd a = Some ks" for a ks
    by (cases rule: grow_cases [OF N that]) (use P(1,2) b y fresh_blocks(5) [OF N] in auto)
  have apart: "set ks \<inter> set js = {}"
    if "grow D b ls y kd a = Some ks" "grow D b ls y kd c = Some js" "a \<noteq> c" for a c ks js
    by (cases rule: grow_cases [OF N that(1)]; cases rule: grow_cases [OF N that(2)])
      (use that(3) P(3) b y in \<open>auto simp: Int_insert_left Int_insert_right\<close>)
  show ?thesis unfolding one_parent_def using own apart by blast
qed

lemma grow_dir:
  assumes N: "new_entry sb os zs xs D b ls os' x y nm kd" and g: "grow D b ls y kd a = Some ks"
  shows "dir_ok (took sb xs) os' xs a ks \<and> (\<forall>l \<in> set ks. child_ok (took sb xs) os' xs (grow D b ls y kd) l)"
proof -
  note d = new_entryD [OF N]
  have old: "dir_ok (took sb xs) os' xs a (if a = b then ls @ [y] else js) \<and>
      (\<forall>l \<in> set js. child_ok (took sb xs) os' xs (grow D b ls y kd) l)" if "D a = Some js" for js
    using spared_dir [OF d(1) fresh_blocks(7) [OF N] that fresh_blocks(8,9) [OF N]] in_all_inodes [of D, OF that]
      grow_child [OF N forestD(9) [OF d(13) that]] by blast
  show ?thesis
  proof (rule grow_cases [OF N g])
    assume 1: "a = b" "ks = ls @ [y]"
    with old d(14) grow_child_new [OF N] show ?thesis by auto
  next
    assume 2: "a = y" "ks = []" "kd = Folder"
    have "0 < w" if "2 < w" for w :: "64 word" using that by (metis word_greater_zero_iff word_not_simps(1))
    then show ?thesis using d(11) new_blocks [OF N] 2 the_new_entry(1) [OF N] by (simp add: dir_ok_def)
  next
    assume 3: "a \<noteq> b" "a \<noteq> y" "D a = Some ks"
    with old [OF 3(3)] show ?thesis by simp
  qed
qed

lemma grow_forest:
  assumes N: "new_entry sb os zs xs D b ls os' x y nm kd"
  shows "forest (took sb xs) os' xs (grow D b ls y kd)"
proof -
  note d = new_entryD [OF N]
  have "2 \<in> all_inodes D" using forestD(6) [OF d(13)] by (auto simp: all_inodes_def)
  then have "meta_of (bsz sb) os' 2 = 1" "grow D b ls y kd 2 \<noteq> None"
    using spared_inode(1) [OF d(1) fresh_blocks(7) [OF N]] forestD(6,7) [OF d(13)] grow_at(4) [OF N] by simp_all
  then show ?thesis
    using d(2,3) forestD(3,4) [OF d(13)] grow_dir [OF N] grow_meta [OF N] grow_parents [OF N] by (simp add: forest_def)
qed

lemma grow_table:
  assumes N: "new_entry sb os zs xs D b ls os' x y nm kd"
  shows "table_of (bsz sb) os' (grow D b ls y kd) =
    (if kd = Folder then (table_of (bsz sb) os D)(b \<mapsto> map (entry_at (bsz sb) os) ls @ [(nm, Folder, y)], y \<mapsto> [])
     else (table_of (bsz sb) os D)(b \<mapsto> map (entry_at (bsz sb) os) ls @ [(nm, Regular, y)]))"
proof
  fix a
  have old: "map (entry_at (bsz sb) os') ks = map (entry_at (bsz sb) os) ks" if "D a = Some ks" for a ks
    using spared_entry(1) [OF new_entryD(1) [OF N] fresh_blocks(7) [OF N in_all_inodes(2) [of D, OF that]]] by simp
  note g = grow_at [OF N] note b = old [OF new_entryD(14) [OF N]] fresh_blocks(5,6) [OF N] the_new_entry(2) [OF N]
  show "table_of (bsz sb) os' (grow D b ls y kd) a = (if kd = Folder
      then (table_of (bsz sb) os D)(b \<mapsto> map (entry_at (bsz sb) os) ls @ [(nm, Folder, y)], y \<mapsto> [])
      else (table_of (bsz sb) os D)(b \<mapsto> map (entry_at (bsz sb) os) ls @ [(nm, Regular, y)])) a"
  proof (cases "a = b \<or> a = y")
    case True
    then show ?thesis using g(1,2) b by (cases kd) (auto simp: table_of_def)
  next
    case False
    then have "table_of (bsz sb) os' (grow D b ls y kd) a = table_of (bsz sb) os D a"
      using old [of a] g(3) [of a] by (cases "D a") (simp_all add: table_of_def)
    with False show ?thesis by simp
  qed
qed

end
