(* ===== verification/Fs_Tree_Make.thy ===== *)
theory Fs_Tree_Make
  imports Fs_Tree_Grow
begin

text \<open>
  \<open>fs_mkdir\<close> and \<open>fs_list_dir\<close> on paths of any length.
\<close>

lemma at_dir_same:
  assumes f: "forest sb os xs D" and D: "D b = Some ls" and same: "same_disk sb os os'" and at: "at_dir sb os b ls bs"
  shows "at_dir sb os' b ls bs"
  using dir_ok_same(2,4) [OF forestD(8) [OF f D] same] at by (simp add: at_dir_def)

lemma forest_zero: "forest sb os xs D \<Longrightarrow> 0 \<notin> set xs"
  using forestD(3) [of sb os xs D 0] by auto

text \<open>The two blocks of the root, in either order.\<close>

lemma read_start:
  assumes f: "forest sb os xs D" and D: "D 2 = Some ls" and bs: "buffers (bsz sb) bs"
  obtains os1 os2 where "read_block sb 1 (b_info bs) os = Inr (disk (bsz sb) os 1, os1)"
    "read_block sb 2 (b_in bs) os1 = Inr (disk (bsz sb) os 2, os2)" "same_disk sb os os2"
    "at_dir sb os 2 ls (bs\<lparr>b_in := disk (bsz sb) os 2, b_info := disk (bsz sb) os 1\<rparr>)"
proof -
  note m = forestD(2) [OF f] note d = dir_okD(7) [OF forestD(8) [OF f D]]
  from read_step [OF m mountedD(6) [OF m], of "b_info bs"] bs obtain os1 where
    1: "read_block sb 1 (b_info bs) os = Inr (disk (bsz sb) os 1, os1)" "same_disk sb os os1" by auto
  from read_step [OF same_disk_mounted [OF 1(2)] mountedD(7) [OF m], of "b_in bs"] bs
    same_diskD [OF 1(2) mountedD(7) [OF m]] obtain os2 where
    2: "read_block sb 2 (b_in bs) os1 = Inr (disk (bsz sb) os 2, os2)" "same_disk sb os1 os2" by auto
  have "at_dir sb os 2 ls (bs\<lparr>b_in := disk (bsz sb) os 2, b_info := disk (bsz sb) os 1\<rparr>)"
    using bs d m mountedD(6,7) [OF m] forestD(7) [OF f] by (simp add: at_dir_def)
  with 1(1) 2(1) same_disk_trans [OF 1(2) 2(2)] show thesis by (rule that)
qed

lemma read_root_tree:
  assumes f: "forest sb os xs D" and D: "D 2 = Some ls" and bs: "buffers (bsz sb) bs"
  obtains os2 bs' where "read_root sb bs os = Inr (bs', os2)" "same_disk sb os os2" "at_dir sb os 2 ls bs'"
proof -
  note m = forestD(2) [OF f] note d = dir_okD(7) [OF forestD(8) [OF f D]]
  from read_step [OF m mountedD(7) [OF m], of "b_in bs"] bs obtain os1 where
    1: "read_block sb 2 (b_in bs) os = Inr (disk (bsz sb) os 2, os1)" "same_disk sb os os1" by auto
  from read_step [OF same_disk_mounted [OF 1(2)] mountedD(6) [OF m], of "b_info bs"] bs
    same_diskD [OF 1(2) mountedD(6) [OF m]] obtain os2 where
    2: "read_block sb 1 (b_info bs) os1 = Inr (disk (bsz sb) os 1, os2)" "same_disk sb os1 os2" by auto
  have "at_dir sb os 2 ls (bs\<lparr>b_in := disk (bsz sb) os 2, b_info := disk (bsz sb) os 1\<rparr>)"
    using bs d m mountedD(6,7) [OF m] forestD(7) [OF f] by (simp add: at_dir_def)
  moreover have "read_root sb bs os = Inr (bs\<lparr>b_in := disk (bsz sb) os 2, b_info := disk (bsz sb) os 1\<rparr>, os2)"
    using 1(1) 2(1) forestD(4) [OF f] by (simp add: read_root_def)
  ultimately show thesis using that same_disk_trans [OF 1(2) 2(2)] by blast
qed

section \<open>Listing\<close>

lemma list_tree_missing:
  assumes f: "forest sb os xs D" and path: "subfolders_to_vector path = Inr p"
    and "\<not> meets_file (table_of (bsz sb) os D) 2 p" and "locate (table_of (bsz sb) os D) 2 p = None"
  shows "\<exists>os'. fs_list_dir mem path sb os = Inr ([45, 49], os') \<and> same_disk sb os os' \<and> errno os' = ENOENT"
proof -
  from forestD(6) [OF f] obtain ls where D: "D 2 = Some ls" by blast
  from read_root_tree [OF f D buffers_fresh, of mem] obtain os1 bs where
    1: "read_root sb (fresh_bufs mem (bsz sb)) os = Inr (bs, os1)" "same_disk sb os os1" "at_dir sb os 2 ls bs" by blast
  from list_walk_ok [OF f 1(3) D 1(2) assms(3)] assms(4) path 1(1) show ?thesis by (auto simp: fs_list_dir_def)
qed

lemma list_tree_ok:
  assumes f: "forest sb os xs D" and path: "subfolders_to_vector path = Inr p"
    and "\<not> meets_file (table_of (bsz sb) os D) 2 p" and "locate (table_of (bsz sb) os D) 2 p = Some b"
    and D: "D b = Some ls" and fits: "length (listing (entries sb os ls)) < MAX_PATH_NAME"
  shows "\<exists>os'. fs_list_dir mem path sb os = Inr (listing (entries sb os ls), os') \<and> same_disk sb os os'"
proof -
  let ?n = "bsz sb"
  from forestD(6) [OF f] obtain rs where R: "D 2 = Some rs" by blast
  from read_root_tree [OF f R buffers_fresh, of mem] obtain os1 bs where
    1: "read_root sb (fresh_bufs mem ?n) os = Inr (bs, os1)" "same_disk sb os os1" "at_dir sb os 2 rs bs" by blast
  from list_walk_ok [OF f 1(3) R 1(2) assms(3)] assms(4) D obtain bs' os2 where
    2: "list_walk sb p bs os1 = Inr (Some bs', os2)" "same_disk sb os os2" "at_dir sb os b ls bs'" by auto
  from 2(3) have bs': "buffers ?n bs'" and r: "dir_at ?n (meta_of ?n os b) (b_info bs') (b_in bs') ls"
    by (simp_all add: at_dir_def)
  have ent: "\<forall>l \<in> set ls. entry_ok sb os xs l" using child_okD(1) [OF forestD(9) [OF f D]] by blast
  from list_loop_ok [OF forestD(2) [OF f] 2(2) bs' ent, of 0 "[]"] obtain os' where
    3: "list_loop sb (length ls) 0 [] bs' os2 = Inr (listing (entries sb os ls), os')" "same_disk sb os os'"
    using root_dirD(6,7) [OF r] fits by (auto simp: entries_def)
  have "load64 o_size (b_info bs') = Inr (fld 0 (b_info bs'))"
    using bs' mountedD(3) [OF forestD(2) [OF f]] by (simp add: load64_ok o_size_def)
  then have "fs_list_dir mem path sb os = Inr (listing (entries sb os ls), os')"
    using path 1(1) 2(1) 3(1) root_dirD(5) [OF r] by (simp add: fs_list_dir_def)
  with 3(2) show ?thesis by blast
qed

section \<open>Making a directory\<close>

lemma mkdir_tree_missing:
  assumes f: "forest sb os xs D" and path: "subfolders_to_vector path = Inr (p @ [nm])"
    and "\<not> meets_file (table_of (bsz sb) os D) 2 p" and "locate (table_of (bsz sb) os D) 2 p = None"
    and k: "\<forall>i. last_position (table_of (bsz sb) os D) 2 p = Some i \<longrightarrow> k = int i"
  shows "\<exists>os'. fs_mkdir mem k path sb os = Inr (-1, sb, os') \<and> same_disk sb os os' \<and> errno os' = ENOENT"
proof -
  from forestD(6) [OF f] obtain ls where D: "D 2 = Some ls" by blast
  from read_start [OF f D buffers_fresh, of mem] obtain os1 os2 where
    1: "read_block sb 1 (b_info (fresh_bufs mem (bsz sb))) os = Inr (disk (bsz sb) os 1, os1)"
    "read_block sb 2 (b_in (fresh_bufs mem (bsz sb))) os1 = Inr (disk (bsz sb) os 2, os2)" "same_disk sb os os2"
    "at_dir sb os 2 ls ((fresh_bufs mem (bsz sb))\<lparr>b_in := disk (bsz sb) os 2, b_info := disk (bsz sb) os 1\<rparr>)" by blast
  from mkdir_walk_ok [OF f 1(4) D 1(3) assms(3) k, of 1 2] assms(4) path 1(1,2) forestD(4) [OF f]
  show ?thesis by (auto simp: fs_mkdir_def)
qed

lemma mkdir_tree_ok:
  assumes f: "forest sb os (x # y # xs) D" and path: "subfolders_to_vector path = Inr (p @ [nm])"
    and "\<not> meets_file (table_of (bsz sb) os D) 2 p" and loc: "locate (table_of (bsz sb) os D) 2 p = Some b"
    and k: "\<forall>i. last_position (table_of (bsz sb) os D) 2 p = Some i \<longrightarrow> k = int i"
    and D: "D b = Some ls" and nm: "0 \<notin> set nm" "length nm + 65 \<le> bsz sb" and room: "40 + 8 * length ls \<le> bsz sb"
  shows "\<exists>os'. fs_mkdir mem k path sb os = Inr (0, took sb xs, os') \<and>
    new_entry sb os [x, y] xs D b ls os' x y nm Folder"
proof -
  let ?n = "bsz sb" and ?bs = "fresh_bufs mem (bsz sb)"
  from forestD(6) [OF f] obtain rs where R: "D 2 = Some rs" by blast
  from read_start [OF f R buffers_fresh, of mem] obtain os1 os2 where
    1: "read_block sb 1 (b_info ?bs) os = Inr (disk ?n os 1, os1)"
    "read_block sb 2 (b_in ?bs) os1 = Inr (disk ?n os 2, os2)" "same_disk sb os os2"
    "at_dir sb os 2 rs (?bs\<lparr>b_in := disk ?n os 2, b_info := disk ?n os 1\<rparr>)" by blast
  from mkdir_walk_ok [OF f 1(4) R 1(3) assms(3) k, of 1 2] loc D obtain bs os3 b0 b1 where
    2: "mkdir_walk sb k p 1 2 (?bs\<lparr>b_in := disk ?n os 2, b_info := disk ?n os 1\<rparr>) os2 = Inr (Some (b0, b1, bs), os3)"
    "b0 = (if p = [] then 1 else meta_of ?n os b)" "b1 = (if p = [] then 2 else b)"
    "same_disk sb os os3" "at_dir sb os b ls bs" by auto
  have b01: "b0 = meta_of ?n os b" "b1 = b" using 2(2,3) loc forestD(7) [OF f] by (cases "p = []"; simp)+
  from 2(5) have bs: "buffers ?n bs" and dir: "dir_at ?n (meta_of ?n os b) (b_info bs) (b_in bs) ls"
    and name: "name_of (b_info bs) = name_of (disk ?n os (meta_of ?n os b))" by (simp_all add: at_dir_def)
  note d = dir_okD [OF forestD(8) [OF f D]] note b = in_all_inodes(1) [of D, OF D]
  have zero: "0 \<notin> set (x # y # xs)" by (rule forest_zero [OF f])
  have pc: "b \<noteq> meta_of ?n os b" "b \<noteq> 0" "meta_of ?n os b \<noteq> 0" using forest_meta(1) [OF f b b] d(1,4) by auto
  note fl3 = free_list_same [OF forestD(1) [OF f] 2(4)]
  from make_entry_at [OF fl3 zero(1) bs root_dirD(5) [OF dir] nm room d(2,5) pc d(3,6), of "mem 6" "mem 7"] obtain os' where
    3: "make_entry (mem 6) (mem 7) nm (meta_of ?n os b) b bs sb os3 = Inr (took sb xs, os')" "free_list (took sb xs) os' xs"
    and e: "\<And>a. a < sb_blks sb \<Longrightarrow> disk ?n os' a = (if a = 0 then sb_bytes (took sb xs)
       else if a = meta_of ?n os b then put64 0 (fld 0 (b_info bs) + 1) (b_info bs)
       else if a = b then put64 (32 + 8 * length ls) y (b_in bs)
       else if a = x then new_info nm 0 (b_info2 bs)
       else if a = y then new_inode IMDIR y x (b_in2 bs)
       else disk ?n os3 a)" by blast
  have run: "fs_mkdir mem k path sb os = Inr (0, took sb xs, os')"
    using path 1(1,2) 2(1) 3(1) b01 forestD(4) [OF f] by (simp add: fs_mkdir_def)
  note m = forestD(2) [OF f] note n = mountedD(3) [OF m]
  have xy: "x < sb_blks sb" "y < sb_blks sb" "x \<noteq> y" "x \<noteq> 0" "y \<noteq> 0" "x \<noteq> b" "y \<noteq> b" "x \<noteq> meta_of ?n os b" "y \<noteq> meta_of ?n os b"
    using free_listD(3,4) [OF forestD(1) [OF f]] zero(1) d(3,6) by auto
  have len: "32 \<le> length (b_in2 bs)" "length nm + 65 \<le> length (b_info2 bs)" using bs n nm(2) by simp_all
  note fx = new_info_fields [OF len(2) nm(1), of 0] and fy = new_inode_fields [OF len(1), of IMDIR y x]
  have blocks: "disk ?n os' 0 = sb_bytes (took sb xs)" "disk ?n os' x = new_info nm 0 (b_info2 bs)"
    "disk ?n os' y = new_inode IMDIR y x (b_in2 bs)"
    "disk ?n os' (meta_of ?n os b) = put64 0 (fld 0 (b_info bs) + 1) (b_info bs)"
    "disk ?n os' b = put64 (32 + 8 * length ls) y (b_in bs)"
    using e mountedD(5) [OF m] xy d(2,5) pc by simp_all
  have "dir_at ?n (meta_of ?n os b) (disk ?n os' (meta_of ?n os b)) (disk ?n os' b) (ls @ [y])"
    unfolding blocks by (rule root_grown [OF dir _ _ n bsz_bound room]) (use bs in simp_all)
  moreover have "name_of (disk ?n os' (meta_of ?n os b)) = name_of (disk ?n os (meta_of ?n os b))"
    using name bs n by (simp add: blocks)
  moreover have "dir_at ?n x (disk ?n os' x) (disk ?n os' y) []" using fx fy n by (simp add: dir_at_def blocks)
  moreover have "\<forall>a < sb_blks sb. a \<noteq> 0 \<longrightarrow> a \<noteq> b \<longrightarrow> a \<noteq> meta_of ?n os b \<longrightarrow> a \<notin> set [x, y] \<longrightarrow> disk ?n os' a = disk ?n os a"
    using e same_diskD [OF 2(4)] by simp
  ultimately have "new_entry sb os [x, y] xs D b ls os' x y nm Folder"
    unfolding new_entry_def rewritten_def using f D 3(2) xy(3) fx fy blocks by simp
  with run show ?thesis by blast
qed

end
