(* ===== verification/Fs_Tree_Remove.thy ===== *)
theory Fs_Tree_Remove
  imports Fs_Tree_Drop Fs_Tree_Make
begin

text \<open>
  \<open>fs_unlink\<close> and \<open>fs_rmdir\<close> on paths of any length.
\<close>

section \<open>One level\<close>

text \<open>The buffers of the parent hold the directory \<open>b\<close>.\<close>

definition parent_at :: "superblock \<Rightarrow> fs_os \<Rightarrow> 64 word \<Rightarrow> 64 word list \<Rightarrow> bufs \<Rightarrow> bool" where
  "parent_at sb os b ls bs \<longleftrightarrow> buffers (bsz sb) bs \<and> dir_at (bsz sb) (meta_of (bsz sb) os b) (b_pinfo bs) (b_pin bs) ls \<and>
     name_of (b_pinfo bs) = name_of (disk (bsz sb) os (meta_of (bsz sb) os b))"

lemma keep_parent_ok:
  assumes m: "mounted sb os" and at: "at_dir sb os b ls bs"
  obtains bs' where "keep_parent bs = Inr bs'" "at_dir sb os b ls bs'" "parent_at sb os b ls bs'"
    "b_in bs' = b_in bs" "b_in2 bs' = b_in2 bs" "b_info2 bs' = b_info2 bs"
proof -
  let ?n = "bsz sb"
  note n = mountedD(3) [OF m]
  from at have bs: "buffers ?n bs" and dir: "dir_at ?n (meta_of ?n os b) (b_info bs) (b_in bs) ls"
    and name: "name_of (b_info bs) = name_of (disk ?n os (meta_of ?n os b))" by (simp_all add: at_dir_def)
  from copy_root_inode [OF dir, of "b_pin bs"] bs n obtain i where
    i: "copy_inode (b_pin bs) (b_in bs) (b_info bs) = Inr i" "length i = ?n"
    "dir_at ?n (meta_of ?n os b) (b_info bs) i ls" by auto
  from copy_nodeinfo_ok [OF _ _ _ root_dirD(4) [OF dir], of "b_pinfo bs" ?n] bs n obtain f where
    f: "copy_nodeinfo (b_pinfo bs) (b_info bs) = Inr f" "length f = ?n" "fld 0 f = fld 0 (b_info bs)" "named f"
    "name_of f = name_of (b_info bs)" by auto
  have "dir_at ?n (meta_of ?n os b) f i ls" using i(3) f(3,4) by (simp add: dir_at_def)
  then show thesis using at bs i f name
    by (intro that [of "bs\<lparr>b_pin := i, b_pinfo := f\<rparr>"]) (simp_all add: keep_parent_def at_dir_def parent_at_def)
qed

text \<open>The last step goes into what is removed, be it a file.\<close>

lemma step_over:
  assumes f: "forest sb os xs D" and c: "child_ok sb os xs D l" and par: "parent_at sb os b ls bs"
    and h: "b_in2 bs = disk (bsz sb) os l" "b_info2 bs = disk (bsz sb) os (meta_of (bsz sb) os l)"
  obtains bs' where "jump_to_next_dir bs = Inr bs'" "parent_at sb os b ls bs'"
    "fld 0 (b_info bs') = fld 0 (disk (bsz sb) os (meta_of (bsz sb) os l))"
proof -
  let ?n = "bsz sb"
  note m = forestD(2) [OF f] note n = mountedD(3) [OF m] note e = entry_okD [OF child_okD(1) [OF c]]
  from par have bs: "buffers ?n bs" by (simp add: parent_at_def)
  have fit: "fld 0 (b_in2 bs) = IMDIR \<longrightarrow> 32 + 8 * unat (fld 0 (b_info2 bs)) \<le> ?n"
  proof
    assume "fld 0 (b_in2 bs) = IMDIR"
    with child_okD(3) [OF c] obtain ks where "D l = Some ks" unfolding h by auto
    from root_dirD(5,6) [OF dir_okD(7) [OF forestD(8) [OF f this]]] show "32 + 8 * unat (fld 0 (b_info2 bs)) \<le> ?n"
      unfolding h by simp
  qed
  from copy_inode_fits [OF _ _ _ _ fit, of "b_in bs"] bs n obtain i where
    i: "copy_inode (b_in bs) (b_in2 bs) (b_info2 bs) = Inr i" "length i = ?n" by auto
  have "length (b_info2 bs) = ?n" "64 \<le> ?n" "named (b_info2 bs)" using m n e(5,8) h(2) by simp_all
  from copy_nodeinfo_ok [OF _ this, of "b_info bs"] bs obtain q where
    q: "copy_nodeinfo (b_info bs) (b_info2 bs) = Inr q" "length q = ?n" "fld 0 q = fld 0 (b_info2 bs)" by auto
  show thesis using par i q h
    by (intro that [of "bs\<lparr>b_in := i, b_info := q\<rparr>"]) (simp_all add: jump_to_next_dir_def parent_at_def)
qed

text \<open>A name that is found, on the way or at the end; the link \<open>k\<close> is read every time.\<close>

lemma remove_level:
  assumes f: "forest sb os xs D" and D: "D b = Some ls" and at: "at_dir sb os b ls bs" and same: "same_disk sb os os1"
    and found: "entry_index (bsz sb) os nm ls = Some i" and k: "load64 (o_link k) (b_in bs) = Inr v"
  obtains bs2 os2 where "parent_at sb os b ls bs2" "b_in2 bs2 = disk (bsz sb) os (ls ! i)"
    "b_info2 bs2 = disk (bsz sb) os (meta_of (bsz sb) os (ls ! i))" "same_disk sb os os2"
    "remove_walk sb k (nm # names) t par bs os1 = rbind (jump_to_next_dir bs2) (\<lambda>bs3.
       remove_walk sb k names (if names = [] then Some (meta_of (bsz sb) os (ls ! i), v) else t)
         (if names = [] then par else (meta_of (bsz sb) os (ls ! i), v)) bs3 os2)"
proof (rule walk_level_ok [OF f D at same, of nm "names = []"])
  fix bs1 os2
  let ?n = "bsz sb" and ?l = "ls ! i"
  assume w: "walk_level sb nm (names = []) bs os1 = Some (Inr (entry_index ?n os nm ls \<noteq> None, bs1, os2))"
    "searched ?n bs bs1" "same_disk sb os os2" "\<forall>i. entry_index ?n os nm ls = Some i \<longrightarrow> holds_entry ?n os (ls ! i) bs1"
  note m = forestD(2) [OF f]
  from w(4) found have h: "b_in2 bs1 = disk ?n os ?l" "b_info2 bs1 = disk ?n os (meta_of ?n os ?l)"
    by (simp_all add: holds_entry_def)
  have at1: "at_dir sb os b ls bs1" using at w(2) by (simp add: at_dir_def searched_def)
  obtain bs2 where kp: "keep_parent bs1 = Inr bs2" "at_dir sb os b ls bs2" "parent_at sb os b ls bs2"
    "b_in2 bs2 = b_in2 bs1" "b_info2 bs2 = b_info2 bs1" by (rule keep_parent_ok [OF m at1])
  have c: "child_ok sb os xs D ?l" using forestD(9) [OF f D] entry_index_Some [OF found] by simp
  have "length (b_in2 bs1) = ?n" using h(1) entry_okD(2) [OF child_okD(1) [OF c]] m by simp
  then have "load64 o_meta (b_in2 bs1) = Inr (meta_of ?n os ?l)"
    using h(1) mountedD(3) [OF m] by (simp add: load64_ok o_meta_def meta_of_def)
  moreover have "load64 (o_link k) (b_in bs1) = Inr v" using k w(2) by (simp add: searched_def)
  ultimately have "remove_walk sb k (nm # names) t par bs os1 = rbind (jump_to_next_dir bs2) (\<lambda>bs3.
      remove_walk sb k names (if names = [] then Some (meta_of ?n os ?l, v) else t)
        (if names = [] then par else (meta_of ?n os ?l, v)) bs3 os2)" using w(1) found kp(1) by simp
  with kp(3-5) h w(3) show thesis by (intro that [of bs2 os2]) simp_all
qed

lemma remove_level_missing:
  assumes f: "forest sb os xs D" and D: "D b = Some ls" and at: "at_dir sb os b ls bs" and same: "same_disk sb os os1"
    and none: "entry_index (bsz sb) os nm ls = None"
  shows "\<exists>os2. remove_walk sb k (nm # names) t par bs os1 = Inr (None, os2) \<and> same_disk sb os os2 \<and> errno os2 = ENOENT"
  by (rule walk_level_ok [OF f D at same, of nm "names = []"]) (use none in auto)

section \<open>The walk\<close>

lemma load_any_link:
  assumes "0 \<le> k" and "40 + 8 * nat k \<le> length b"
  shows "\<exists>v. load64 (o_link k) b = Inr v"
  using load_link [of "nat k" b] assms by simp

text \<open>The walk stops behind the entry \<open>i\<close> of the directory \<open>d\<close>, with \<open>d\<close> in the buffers of the parent.\<close>

definition stands_behind :: "superblock \<Rightarrow> fs_os \<Rightarrow> 64 word \<Rightarrow> 64 word list \<Rightarrow> nat \<Rightarrow>
  ((64 word \<times> 64 word) option \<times> (64 word \<times> 64 word) \<times> bufs) option \<Rightarrow> bool" where
  "stands_behind sb os d ls i r \<longleftrightarrow> (\<exists>bs'. r = Some (Some (meta_of (bsz sb) os (ls ! i), ls ! i), (meta_of (bsz sb) os d, d), bs') \<and>
     parent_at sb os d ls bs' \<and>
     fld 0 (b_info bs') = fld 0 (disk (bsz sb) os (meta_of (bsz sb) os (ls ! i))))"

lemma remove_last:
  assumes f: "forest sb os xs D" and D: "D b = Some ls" and at: "at_dir sb os b ls bs" and same: "same_disk sb os os1"
    and k: "\<forall>i. entry_index (bsz sb) os nm ls = Some i \<longrightarrow> k = int i" and par: "par = (meta_of (bsz sb) os b, b)"
  shows "\<exists>r os2. remove_walk sb k [nm] t par bs os1 = Inr (r, os2) \<and> same_disk sb os os2 \<and>
    (case entry_index (bsz sb) os nm ls of None \<Rightarrow> r = None \<and> errno os2 = ENOENT
     | Some i \<Rightarrow> stands_behind sb os b ls i r)"
proof (cases "entry_index (bsz sb) os nm ls")
  case None
  from remove_level_missing [OF f D at same None, of k "[]" t par] None show ?thesis by auto
next
  case (Some i)
  then have "k = int i" using k by blast
  with load_child [OF at _ entry_index_Some [OF Some], of bs] at
  have v: "load64 (o_link k) (b_in bs) = Inr (ls ! i)" by (simp add: searched_def at_dir_def)
  obtain bs2 os2 where r: "parent_at sb os b ls bs2" "b_in2 bs2 = disk (bsz sb) os (ls ! i)"
    "b_info2 bs2 = disk (bsz sb) os (meta_of (bsz sb) os (ls ! i))" "same_disk sb os os2"
    "remove_walk sb k [nm] t par bs os1 = rbind (jump_to_next_dir bs2) (\<lambda>bs3.
       remove_walk sb k [] (if [] = ([] :: byte list list) then Some (meta_of (bsz sb) os (ls ! i), ls ! i) else t)
         (if [] = ([] :: byte list list) then par else (meta_of (bsz sb) os (ls ! i), ls ! i)) bs3 os2)"
    by (rule remove_level [OF f D at same Some v, of "[]" t par])
  have "child_ok sb os xs D (ls ! i)" using forestD(9) [OF f D] entry_index_Some [OF Some] by simp
  from step_over [OF f this r(1-3)] obtain bs3 where "jump_to_next_dir bs2 = Inr bs3" "parent_at sb os b ls bs3"
    "fld 0 (b_info bs3) = fld 0 (disk (bsz sb) os (meta_of (bsz sb) os (ls ! i)))" by blast
  with r(4,5) Some par show ?thesis by (auto simp: stands_behind_def)
qed

lemma remove_walk_tree:
  assumes f: "forest sb os xs D" and "at_dir sb os b ls bs" and "D b = Some ls" and "same_disk sb os os1"
    and "\<not> meets_file (table_of (bsz sb) os D) b p"
    and kb: "p \<noteq> [] \<Longrightarrow> 0 \<le> k \<and> 40 + 8 * nat k \<le> bsz sb"
    and "\<forall>i. last_position (table_of (bsz sb) os D) b p = Some i \<longrightarrow> k = int i"
    and "\<forall>d ks i. locate (table_of (bsz sb) os D) b p = Some d \<longrightarrow> D d = Some ks \<longrightarrow>
      entry_index (bsz sb) os nm ks = Some i \<longrightarrow> k = int i"
    and "p = [] \<longrightarrow> par = (meta_of (bsz sb) os b, b)"
  shows "\<exists>r os2. remove_walk sb k (p @ [nm]) t par bs os1 = Inr (r, os2) \<and> same_disk sb os os2 \<and>
    (case locate (table_of (bsz sb) os D) b p of None \<Rightarrow> r = None \<and> errno os2 = ENOENT
     | Some d \<Rightarrow> \<exists>ks. D d = Some ks \<and> (case entry_index (bsz sb) os nm ks of None \<Rightarrow> r = None \<and> errno os2 = ENOENT
        | Some i \<Rightarrow> stands_behind sb os d ks i r))"
  using assms(2-)
proof (induction p arbitrary: b ls bs os1 t par)
  case Nil
  then show ?case using remove_last [OF f Nil.prems(2,1,3), of nm k par t] by auto
next
  case (Cons c p)
  let ?n = "bsz sb"
  note t = table_steps [of D, OF Cons.prems(2)]
  show ?case
  proof (cases "entry_index ?n os c ls")
    case None
    from remove_level_missing [OF f Cons.prems(2,1,3) None, of k "p @ [nm]" t par] None show ?thesis by (auto simp: t)
  next
    case (Some i)
    let ?l = "ls ! i"
    have nf: "\<not> meets_file (table_of ?n os D) ?l p" using Cons.prems(4) Some by (simp add: t)
    from not_file [OF nf] obtain ls2 where D2: "D ?l = Some ls2" by blast
    have k: "0 \<le> k" "40 + 8 * nat k \<le> length (b_in bs)" using Cons.prems(1,5) length_buffers(1) [of ?n bs] by (auto simp: at_dir_def)
    from load_any_link [OF k] obtain v where v: "load64 (o_link k) (b_in bs) = Inr v" by blast
    obtain bs2 os2 where r: "parent_at sb os b ls bs2" "b_in2 bs2 = disk ?n os ?l"
      "b_info2 bs2 = disk ?n os (meta_of ?n os ?l)" "same_disk sb os os2"
      "remove_walk sb k (c # p @ [nm]) t par bs os1 = rbind (jump_to_next_dir bs2) (\<lambda>bs3.
         remove_walk sb k (p @ [nm]) (if p @ [nm] = [] then Some (meta_of ?n os ?l, v) else t)
           (if p @ [nm] = [] then par else (meta_of ?n os ?l, v)) bs3 os2)"
      by (rule remove_level [OF f Cons.prems(2,1,3) Some v, of "p @ [nm]" t par])
    have v_l: "p = [] \<longrightarrow> v = ?l"
    proof
      assume "p = []"
      then have "k = int i" using Cons.prems(6) Some by (simp add: t)
      with load_child [OF Cons.prems(1) _ entry_index_Some [OF Some], of bs] v Cons.prems(1) show "v = ?l"
        by (simp add: searched_def at_dir_def)
    qed
    have "buffers ?n bs2" "holds_entry ?n os ?l bs2" using r(1-3) by (simp_all add: parent_at_def holds_entry_def)
    from step_down [OF f D2 this] obtain bs3 where j: "jump_to_next_dir bs2 = Inr bs3" "at_dir sb os ?l ls2 bs3" by blast
    have eq: "remove_walk sb k ((c # p) @ [nm]) t par bs os1 = remove_walk sb k (p @ [nm]) t (meta_of ?n os ?l, v) bs3 os2"
      using r(5) j(1) by simp
    have kp: "\<forall>i. last_position (table_of ?n os D) ?l p = Some i \<longrightarrow> k = int i"
      using Cons.prems(6) Some by (cases "p = []") (simp_all add: t)
    have kl: "\<forall>d ks i. locate (table_of ?n os D) ?l p = Some d \<longrightarrow> D d = Some ks \<longrightarrow>
        entry_index ?n os nm ks = Some i \<longrightarrow> k = int i" using Cons.prems(7) Some by (simp add: t)
    have kb: "0 \<le> k \<and> 40 + 8 * nat k \<le> ?n" using Cons.prems(5) by simp
    have par: "p = [] \<longrightarrow> (meta_of ?n os ?l, v) = (meta_of ?n os ?l, ?l)" using v_l by simp
    from Cons.IH [OF j(2) D2 r(4) nf kb kp kl par, of t] show ?thesis unfolding eq t(1) Some option.case .
  qed
qed

section \<open>The functions\<close>

lemma drop_tree:
  assumes f: "forest sb os xs D" and D: "D b = Some ls" and same: "same_disk sb os os2"
    and par: "parent_at sb os b ls bs" and i: "i < length ls" and l: "l = ls ! i" "m = meta_of (bsz sb) os l"
  shows "\<exists>os'. drop_entry j1 j2 (Some (m, l)) (meta_of (bsz sb) os b, b) bs sb os2 = Inr (0, took sb (l # m # xs), os') \<and>
    gone_entry sb os xs D b ls os' i l m"
proof -
  let ?n = "bsz sb" and ?c = "meta_of (bsz sb) os b"
  have lin: "l \<in> set ls" using i l by simp
  note B = in_all_inodes(1) [of D, OF D] and L = in_all_inodes(2) [of D, OF D lin]
  note P = one_parentD [OF forestD(12) [OF f]]
  from P(2) [OF D] lin have "l \<noteq> b" by auto
  then have dist: "distinct [l, m, b, ?c]"
    using forest_meta [OF f L L] forest_meta [OF f L B] forest_meta [OF f B L] forest_meta(1) [OF f B B] l(2) by auto
  have blks: "\<forall>a \<in> {l, m, b, ?c}. a \<noteq> 0 \<and> a < sb_blks sb \<and> a \<notin> set xs"
    using forest_blocks [OF f B] forest_blocks [OF f L] l(2) by auto
  from par have bs: "buffers ?n bs" and dir: "dir_at ?n ?c (b_pinfo bs) (b_pin bs) ls"
    and name: "name_of (b_pinfo bs) = name_of (disk ?n os ?c)" by (simp_all add: parent_at_def)
  from drop_entry_at [OF free_list_same [OF forestD(1) [OF f] same] bs dir i P(1) [OF D] l(1) blks dist forest_zero [OF f],
    of j1 j2] obtain os' where
    r: "drop_entry j1 j2 (Some (m, l)) (?c, b) bs sb os2 = Inr (0, took sb (l # m # xs), os')"
    "free_list (took sb (l # m # xs)) os' (l # m # xs)" "disk ?n os' 0 = sb_bytes (took sb (l # m # xs))"
    "dir_at ?n ?c (disk ?n os' ?c) (disk ?n os' b) (drop_nth i ls)" "name_of (disk ?n os' ?c) = name_of (b_pinfo bs)"
    "\<forall>a < sb_blks sb. a \<notin> {0, b, ?c, l, m} \<longrightarrow> disk ?n os' a = disk ?n os2 a" by blast
  have "\<forall>a < sb_blks sb. a \<noteq> 0 \<longrightarrow> a \<noteq> b \<longrightarrow> a \<noteq> ?c \<longrightarrow> a \<notin> {l, m} \<longrightarrow> disk ?n os' a = disk ?n os a"
    using r(6) same_diskD [OF same] by simp
  then have "gone_entry sb os xs D b ls os' i l m"
    unfolding gone_entry_def rewritten_def using f D r(2-5) name i l by simp
  with r(1) show ?thesis by blast
qed

text \<open>What both functions do up to the blocks they put back.\<close>

definition lucky_walk :: "superblock \<Rightarrow> fs_os \<Rightarrow> (64 word \<rightharpoonup> 64 word list) \<Rightarrow> byte list list \<Rightarrow> byte list \<Rightarrow> int \<Rightarrow> bool" where
  "lucky_walk sb os D p nm k \<longleftrightarrow> \<not> meets_file (table_of (bsz sb) os D) 2 p \<and>
     (p \<noteq> [] \<longrightarrow> 0 \<le> k \<and> 40 + 8 * nat k \<le> bsz sb) \<and>
     (\<forall>i. last_position (table_of (bsz sb) os D) 2 p = Some i \<longrightarrow> k = int i) \<and>
     (\<forall>d ks i. locate (table_of (bsz sb) os D) 2 p = Some d \<longrightarrow> D d = Some ks \<longrightarrow>
       entry_index (bsz sb) os nm ks = Some i \<longrightarrow> k = int i)"

lemma remove_start:
  assumes f: "forest sb os xs D" and w: "lucky_walk sb os D p nm k"
  obtains bs os1 r os2 where "read_root sb (fresh_bufs mem (bsz sb)) os = Inr (bs, os1)"
    "remove_walk sb k (p @ [nm]) t (1, 2) bs os1 = Inr (r, os2)" "same_disk sb os os2"
    "case locate (table_of (bsz sb) os D) 2 p of None \<Rightarrow> r = None \<and> errno os2 = ENOENT
     | Some d \<Rightarrow> \<exists>ks. D d = Some ks \<and> (case entry_index (bsz sb) os nm ks of None \<Rightarrow> r = None \<and> errno os2 = ENOENT
        | Some i \<Rightarrow> stands_behind sb os d ks i r)"
proof -
  from forestD(6) [OF f] obtain rs where R: "D 2 = Some rs" by blast
  from read_root_tree [OF f R buffers_fresh, of mem] obtain os1 bs where
    1: "read_root sb (fresh_bufs mem (bsz sb)) os = Inr (bs, os1)" "same_disk sb os os1" "at_dir sb os 2 rs bs" by blast
  have par: "p = [] \<longrightarrow> (1, 2) = (meta_of (bsz sb) os 2, 2)" using forestD(7) [OF f] by simp
  from remove_walk_tree [OF f 1(3) R 1(2) _ _ _ _ par, of k nm t] w 1(1) show thesis
    unfolding lucky_walk_def using that by blast
qed

lemma remove_tree_missing:
  assumes f: "forest sb os xs D" and path: "subfolders_to_vector path = Inr (p @ [nm])" and w: "lucky_walk sb os D p nm k"
    and none: "\<forall>d ks. locate (table_of (bsz sb) os D) 2 p = Some d \<longrightarrow> D d = Some ks \<longrightarrow> entry_index (bsz sb) os nm ks = None"
  shows "\<exists>os'. fs_unlink mem k path sb os = Inr (-1, sb, os') \<and> same_disk sb os os' \<and> errno os' = ENOENT"
    and "\<exists>os'. fs_rmdir mem k path sb os = Inr (-1, sb, os') \<and> same_disk sb os os' \<and> errno os' = ENOENT"
proof -
  have "\<exists>bs os1 os2. read_root sb (fresh_bufs mem (bsz sb)) os = Inr (bs, os1) \<and>
      remove_walk sb k (p @ [nm]) t (1, 2) bs os1 = Inr (None, os2) \<and> same_disk sb os os2 \<and> errno os2 = ENOENT" for t
  proof (rule remove_start [OF f w, of mem t])
    fix bs os1 r os2
    assume r: "read_root sb (fresh_bufs mem (bsz sb)) os = Inr (bs, os1)"
      "remove_walk sb k (p @ [nm]) t (1, 2) bs os1 = Inr (r, os2)" "same_disk sb os os2"
      "case locate (table_of (bsz sb) os D) 2 p of None \<Rightarrow> r = None \<and> errno os2 = ENOENT
       | Some d \<Rightarrow> \<exists>ks. D d = Some ks \<and> (case entry_index (bsz sb) os nm ks of None \<Rightarrow> r = None \<and> errno os2 = ENOENT
          | Some i \<Rightarrow> stands_behind sb os d ks i r)"
    with none have "r = None \<and> errno os2 = ENOENT"
      by (cases "locate (table_of (bsz sb) os D) 2 p") fastforce+
    with r(1-3) show ?thesis by blast
  qed
  from this [of None] this [of "Some (1, 2)"] path show
    "\<exists>os'. fs_unlink mem k path sb os = Inr (-1, sb, os') \<and> same_disk sb os os' \<and> errno os' = ENOENT"
    "\<exists>os'. fs_rmdir mem k path sb os = Inr (-1, sb, os') \<and> same_disk sb os os' \<and> errno os' = ENOENT"
    by (auto simp: fs_unlink_def fs_rmdir_def)
qed

lemma remove_there:
  assumes f: "forest sb os xs D" and w: "lucky_walk sb os D p nm k"
    and loc: "locate (table_of (bsz sb) os D) 2 p = Some d" and D: "D d = Some ls"
    and i: "entry_index (bsz sb) os nm ls = Some i"
  obtains bs os1 bs2 os2 where "read_root sb (fresh_bufs mem (bsz sb)) os = Inr (bs, os1)"
    "remove_walk sb k (p @ [nm]) t (1, 2) bs os1 =
       Inr (Some (Some (meta_of (bsz sb) os (ls ! i), ls ! i), (meta_of (bsz sb) os d, d), bs2), os2)"
    "same_disk sb os os2" "parent_at sb os d ls bs2"
    "load64 o_size (b_info bs2) = Inr (fld 0 (disk (bsz sb) os (meta_of (bsz sb) os (ls ! i))))"
proof (rule remove_start [OF f w, of mem t])
  fix bs os1 r os2
  assume r: "read_root sb (fresh_bufs mem (bsz sb)) os = Inr (bs, os1)"
    "remove_walk sb k (p @ [nm]) t (1, 2) bs os1 = Inr (r, os2)" "same_disk sb os os2"
    "case locate (table_of (bsz sb) os D) 2 p of None \<Rightarrow> r = None \<and> errno os2 = ENOENT
     | Some d \<Rightarrow> \<exists>ks. D d = Some ks \<and> (case entry_index (bsz sb) os nm ks of None \<Rightarrow> r = None \<and> errno os2 = ENOENT
        | Some i \<Rightarrow> stands_behind sb os d ks i r)"
  from r(4) loc D i obtain bs2 where
    b: "r = Some (Some (meta_of (bsz sb) os (ls ! i), ls ! i), (meta_of (bsz sb) os d, d), bs2)"
    "parent_at sb os d ls bs2" "fld 0 (b_info bs2) = fld 0 (disk (bsz sb) os (meta_of (bsz sb) os (ls ! i)))"
    by (auto simp: stands_behind_def)
  have "length (b_info bs2) = bsz sb" using b(2) by (simp add: parent_at_def)
  then have "load64 o_size (b_info bs2) = Inr (fld 0 (b_info bs2))"
    using mountedD(3) [OF forestD(2) [OF f]] by (simp add: load64_ok o_size_def)
  with r(1-3) b show thesis by (intro that [of bs os1 bs2 os2]) simp_all
qed

lemma unlink_tree_ok:
  assumes f: "forest sb os xs D" and path: "subfolders_to_vector path = Inr (p @ [nm])" and w: "lucky_walk sb os D p nm k"
    and loc: "locate (table_of (bsz sb) os D) 2 p = Some d" and D: "D d = Some ls"
    and i: "entry_index (bsz sb) os nm ls = Some i" and l: "l = ls ! i" "m = meta_of (bsz sb) os l"
  shows "\<exists>os'. fs_unlink mem k path sb os = Inr (0, took sb (l # m # xs), os') \<and> gone_entry sb os xs D d ls os' i l m"
proof (rule remove_there [OF f w loc D i, of mem None])
  fix bs os1 bs2 os2
  assume r: "read_root sb (fresh_bufs mem (bsz sb)) os = Inr (bs, os1)"
    "remove_walk sb k (p @ [nm]) None (1, 2) bs os1 =
       Inr (Some (Some (meta_of (bsz sb) os (ls ! i), ls ! i), (meta_of (bsz sb) os d, d), bs2), os2)"
    "same_disk sb os os2" "parent_at sb os d ls bs2"
  from drop_tree [OF f D r(3,4) entry_index_Some [OF i] l, of "mem 6" "mem 7"] r(1,2) path l
  show ?thesis by (auto simp: fs_unlink_def)
qed

lemma rmdir_tree:
  assumes f: "forest sb os xs D" and path: "subfolders_to_vector path = Inr (p @ [nm])" and w: "lucky_walk sb os D p nm k"
    and loc: "locate (table_of (bsz sb) os D) 2 p = Some d" and D: "D d = Some ls"
    and i: "entry_index (bsz sb) os nm ls = Some i" and l: "l = ls ! i" "m = meta_of (bsz sb) os l"
  shows "if D l = Some [] then \<exists>os'. fs_rmdir mem k path sb os = Inr (0, took sb (l # m # xs), os') \<and>
      gone_entry sb os xs D d ls os' i l m
    else \<exists>os'. fs_rmdir mem k path sb os = Inr (-1, sb, os') \<and> same_disk sb os os' \<and> errno os' = ENOTEMPTY"
proof (rule remove_there [OF f w loc D i, of mem "Some (1, 2)"])
  fix bs os1 bs2 os2
  let ?size = "fld 0 (disk (bsz sb) os m)"
  assume r: "read_root sb (fresh_bufs mem (bsz sb)) os = Inr (bs, os1)"
    "remove_walk sb k (p @ [nm]) (Some (1, 2)) (1, 2) bs os1 =
       Inr (Some (Some (meta_of (bsz sb) os (ls ! i), ls ! i), (meta_of (bsz sb) os d, d), bs2), os2)"
    "same_disk sb os os2" "parent_at sb os d ls bs2"
    "load64 o_size (b_info bs2) = Inr (fld 0 (disk (bsz sb) os (meta_of (bsz sb) os (ls ! i))))"
  have c: "child_ok sb os xs D l" using forestD(9) [OF f D] entry_index_Some [OF i] l(1) by simp
  have empty: "?size = 0 \<longleftrightarrow> D l = Some []"
  proof (cases "D l")
    case None
    then show ?thesis using child_okD(4) [OF c] l(2) size_room [OF forestD(2) [OF f]] by simp
  next
    case (Some ks)
    from root_dirD(5) [OF dir_okD(7) [OF forestD(8) [OF f Some]]] show ?thesis
      by (auto simp: Some l(2) unat_eq_zero)
  qed
  show ?thesis
  proof (cases "D l = Some []")
    case True
    with drop_tree [OF f D r(3,4) entry_index_Some [OF i] l, of "mem 6" "mem 7"] r(1,2,5) path l empty
    show ?thesis by (auto simp: fs_rmdir_def)
  next
    case False
    then have "0 < ?size" using empty by (simp add: word_gt_0)
    with False r(1,2,3,5) path l show ?thesis
      by (auto simp: fs_rmdir_def same_disk_errno intro!: exI [of _ "os2\<lparr>errno := ENOTEMPTY\<rparr>"])
  qed
qed

end
