(* ===== verification/Fs_Tree_Write.thy ===== *)
theory Fs_Tree_Write
  imports Fs_Tree_Make
begin

text \<open>
  \<open>fs_write_file\<close> on paths of any length.
\<close>

section \<open>The walk\<close>

text \<open>A writer that stands in the directory \<open>b\<close>, which is also the parent that it will update.\<close>

definition writer_at :: "superblock \<Rightarrow> fs_os \<Rightarrow> 64 word \<Rightarrow> 64 word list \<Rightarrow> writer \<Rightarrow> bool" where
  "writer_at sb os b ls w \<longleftrightarrow> at_dir sb os b ls (w_bufs w) \<and>
     dir_at (bsz sb) (meta_of (bsz sb) os b) (b_pinfo (w_bufs w)) (b_pin (w_bufs w)) ls \<and>
     name_of (b_pinfo (w_bufs w)) = name_of (disk (bsz sb) os (meta_of (bsz sb) os b)) \<and>
     w_pin_b w = b \<and> w_pinfo_b w = meta_of (bsz sb) os b \<and> w_blocks w = [0 \<mapsto> 1, 1 \<mapsto> 2]"

lemma write_level_missing:
  assumes f: "forest sb os xs D" and w: "writer_at sb os b ls w" and D: "D b = Some ls" and same: "same_disk sb os os1"
    and none: "entry_index (bsz sb) os nm ls = None"
  obtains os2 where "write_level j1 j2 nm False w sb os1 = Some (Inr (None, sb, os2))" "same_disk sb os os2" "errno os2 = ENOENT"
proof -
  from w have at: "at_dir sb os b ls (w_bufs w)" by (simp add: writer_at_def)
  obtain bs' os2 where s: "search_file_in_directory sb nm (w_bufs w) os1 = Inr (entry_index (bsz sb) os nm ls, bs', os2)"
    "same_disk sb os os2" "load64 o_next (b_in bs') = Inr 0" by (rule find_level [OF f D at same, of nm])
  with none show thesis
    by (intro that [of "os2\<lparr>errno := ENOENT\<rparr>"]) (simp_all add: write_level.simps [of j1 j2 nm False] same_disk_errno)
qed

lemma write_level_down:
  assumes f: "forest sb os xs D" and w: "writer_at sb os b ls w" and D: "D b = Some ls" and same: "same_disk sb os os1"
    and some: "entry_index (bsz sb) os nm ls = Some i" and D2: "D (ls ! i) = Some ls2"
  obtains w1 bs2 os2 where "write_level j1 j2 nm False w sb os1 = Some (Inr (Some w1, sb, os2))" "same_disk sb os os2"
    "jump_to_next_dir (w_bufs w1) = Inr bs2" "writer_at sb os (ls ! i) ls2 (w1\<lparr>w_bufs := bs2\<rparr>)"
proof -
  let ?n = "bsz sb" and ?l = "ls ! i"
  from w have at: "at_dir sb os b ls (w_bufs w)" by (simp add: writer_at_def)
  obtain bs' os2 where s: "search_file_in_directory sb nm (w_bufs w) os1 = Inr (entry_index ?n os nm ls, bs', os2)"
    "searched ?n (w_bufs w) bs'" "same_disk sb os os2" "load64 o_next (b_in bs') = Inr 0"
    "\<forall>i. entry_index ?n os nm ls = Some i \<longrightarrow> holds_entry ?n os (ls ! i) bs'" by (rule find_level [OF f D at same, of nm])
  from s(5) some have h: "holds_entry ?n os ?l bs'" by blast
  from s(2) have bs': "buffers ?n bs'" by (simp add: searched_def)
  then have "length (b_pin bs') = ?n" "length (b_pinfo bs') = ?n" by simp_all
  from copy_dir [OF f D2 h this] obtain p q where
    c: "copy_inode (b_pin bs') (b_in2 bs') (b_info2 bs') = Inr p" "copy_nodeinfo (b_pinfo bs') (b_info2 bs') = Inr q"
    "length p = ?n" "length q = ?n" "dir_at ?n (meta_of ?n os ?l) q p ls2"
    "name_of q = name_of (disk ?n os (meta_of ?n os ?l))" by blast
  let ?bs = "bs'\<lparr>b_pin := p, b_pinfo := q\<rparr>"
  let ?w1 = "w\<lparr>w_bufs := ?bs, w_pin_b := ?l, w_pinfo_b := meta_of ?n os ?l\<rparr>"
  have "found_name False i (w\<lparr>w_bufs := bs'\<rparr>) = Inr ?w1"
    using load_meta [OF f D2 h] load_child [OF at s(2) entry_index_Some [OF some]] c(1,2) by (simp add: found_name_def)
  then have "write_level j1 j2 nm False w sb os1 = Some (Inr (Some ?w1, sb, os2))"
    using s(1) some by (simp add: write_level.simps [of j1 j2 nm False])
  moreover have "buffers ?n ?bs" "holds_entry ?n os ?l ?bs" using bs' c(3,4) h by (simp_all add: holds_entry_def)
  from step_down [OF f D2 this] obtain bs2 where j: "jump_to_next_dir ?bs = Inr bs2" "at_dir sb os ?l ls2 bs2"
    "b_pin bs2 = p" "b_pinfo bs2 = q" by auto
  moreover have "jump_to_next_dir (w_bufs ?w1) = Inr bs2" using j(1) by simp
  moreover have "writer_at sb os ?l ls2 (?w1\<lparr>w_bufs := bs2\<rparr>)" using j c(5,6) w by (simp add: writer_at_def)
  ultimately show thesis using s(3) that by blast
qed

lemma write_walk_ok:
  assumes f: "forest sb os xs D" and "writer_at sb os b ls w" and "D b = Some ls" and "same_disk sb os os1"
    and "\<not> meets_file (table_of (bsz sb) os D) b p"
  shows "\<exists>os2 w' ls'. same_disk sb os os2 \<and> (case locate (table_of (bsz sb) os D) b p of
      None \<Rightarrow> write_walk j1 j2 (p @ [nm]) w sb os1 = Inr (None, sb, os2) \<and> errno os2 = ENOENT
    | Some b' \<Rightarrow> D b' = Some ls' \<and> writer_at sb os b' ls' w' \<and>
        write_walk j1 j2 (p @ [nm]) w sb os1 = write_walk j1 j2 [nm] w' sb os2)"
  using assms(2-)
proof (induction p arbitrary: b ls w os1)
  case Nil
  then show ?case by (simp del: write_walk.simps) blast
next
  case (Cons c p)
  note t = table_steps [of D, OF Cons.prems(2)]
  show ?case
  proof (cases "entry_index (bsz sb) os c ls")
    case None
    from write_level_missing [OF f Cons.prems(1,2,3) this, of j1 j2] obtain os2 where
      "write_level j1 j2 c False w sb os1 = Some (Inr (None, sb, os2))" "same_disk sb os os2" "errno os2 = ENOENT" by blast
    with None show ?thesis by (auto simp: t)
  next
    case (Some i)
    then have nf: "\<not> meets_file (table_of (bsz sb) os D) (ls ! i) p" using Cons.prems(4) by (simp add: t)
    from not_file [OF nf] obtain ls2 where D2: "D (ls ! i) = Some ls2" by blast
    from write_level_down [OF f Cons.prems(1,2,3) Some D2, of j1 j2] obtain w1 bs2 os2 where
      d: "write_level j1 j2 c False w sb os1 = Some (Inr (Some w1, sb, os2))" "same_disk sb os os2"
      "jump_to_next_dir (w_bufs w1) = Inr bs2" "writer_at sb os (ls ! i) ls2 (w1\<lparr>w_bufs := bs2\<rparr>)" by blast
    have eq: "write_walk j1 j2 ((c # p) @ [nm]) w sb os1 = write_walk j1 j2 (p @ [nm]) (w1\<lparr>w_bufs := bs2\<rparr>) sb os2"
      using d(1,3) by simp
    from Cons.IH [OF d(4) D2 d(2) nf] show ?thesis unfolding eq t(1) Some option.case .
  qed
qed

text \<open>The writer of \<open>fs_write_file\<close> stands in the root.\<close>

lemma write_start:
  assumes f: "forest sb os xs D" and path: "subfolders_to_vector fname = Inr files"
  obtains w os2 rs where "D 2 = Some rs" "writer_at sb os 2 rs w" "same_disk sb os os2"
    "fs_write_file mem fname buf cnt sb os = rbind (write_walk (mem 6) (mem 7) files w sb os2) (\<lambda>(r, sb, os).
       case r of None \<Rightarrow> Inr (-1, sb, os)
       | Some w1 \<Rightarrow>
         rbind ((if w_new w1 then space_new else space_old) (\<lambda>i. mem (8 + i)) cnt w1 sb os) (\<lambda>(r, sb, os).
         case r of None \<Rightarrow> Inr (-1, sb, os)
         | Some (new, w2) \<Rightarrow> rbind (write_inodes new w2 sb os) (\<lambda>(r, os). Inr (r, sb, os))))"
proof -
  let ?n = "bsz sb" and ?bs = "fresh_bufs mem (bsz sb)"
  note fb = buffers_fresh [of ?n mem] and m = forestD(2) [OF f]
  from forestD(6) [OF f] obtain rs where R: "D 2 = Some rs" by blast
  from read_start [OF f R fb] obtain os1 os2 where
    1: "read_block sb 1 (b_info ?bs) os = Inr (disk ?n os 1, os1)"
    "read_block sb 2 (b_in ?bs) os1 = Inr (disk ?n os 2, os2)" "same_disk sb os os2"
    "at_dir sb os 2 rs (?bs\<lparr>b_in := disk ?n os 2, b_info := disk ?n os 1\<rparr>)" by blast
  let ?bs1 = "?bs\<lparr>b_in2 := disk ?n os 2, b_info2 := disk ?n os 1\<rparr>"
  have "holds_entry ?n os 2 ?bs1" using forestD(7) [OF f] by (simp add: holds_entry_def)
  from copy_dir [OF f R this, of "b_pin ?bs" "b_pinfo ?bs"] fb obtain p q where
    c: "copy_inode (b_pin ?bs) (disk ?n os 2) (disk ?n os 1) = Inr p" "copy_nodeinfo (b_pinfo ?bs) (disk ?n os 1) = Inr q"
    "length p = ?n" "length q = ?n" "dir_at ?n (meta_of ?n os 2) q p rs"
    "name_of q = name_of (disk ?n os (meta_of ?n os 2))" by auto
  let ?w = "\<lparr>w_bufs = ?bs\<lparr>b_in := disk ?n os 2, b_info := disk ?n os 1, b_pin := p, b_pinfo := q\<rparr>,
    w_blocks = [0 \<mapsto> 1, 1 \<mapsto> 2], w_new = False, w_pin_b = 2, w_pinfo_b = 1\<rparr>"
  have W: "writer_at sb os 2 rs ?w"
    using 1(4) c(3-6) forestD(7) [OF f] by (simp add: writer_at_def at_dir_def)
  show thesis
    by (rule that [OF R W 1(3)]) (use path 1(1,2) c(1,2) in \<open>simp add: fs_write_file_def Let_def\<close>)
qed

section \<open>The two results\<close>

lemma write_tree_missing:
  assumes f: "forest sb os xs D" and path: "subfolders_to_vector path = Inr (p @ [nm])"
    and nf: "\<not> meets_file (table_of (bsz sb) os D) 2 p" and loc: "locate (table_of (bsz sb) os D) 2 p = None"
  shows "\<exists>os'. fs_write_file mem path buf cnt sb os = Inr (-1, sb, os') \<and> same_disk sb os os' \<and> errno os' = ENOENT"
proof -
  obtain w os2 rs where s: "D 2 = Some rs" "writer_at sb os 2 rs w" "same_disk sb os os2"
    "fs_write_file mem path buf cnt sb os = rbind (write_walk (mem 6) (mem 7) (p @ [nm]) w sb os2) (\<lambda>(r, sb, os).
       case r of None \<Rightarrow> Inr (-1, sb, os)
       | Some w1 \<Rightarrow>
         rbind ((if w_new w1 then space_new else space_old) (\<lambda>i. mem (8 + i)) cnt w1 sb os) (\<lambda>(r, sb, os).
         case r of None \<Rightarrow> Inr (-1, sb, os)
         | Some (new, w2) \<Rightarrow> rbind (write_inodes new w2 sb os) (\<lambda>(r, os). Inr (r, sb, os))))"
    by (rule write_start [OF f path])
  from write_walk_ok [OF f s(2,1,3) nf, of "mem 6" "mem 7" nm] loc s(4) show ?thesis by auto
qed

lemma write_tree_ok:
  assumes f: "forest sb os (x # y # zs @ xs) D" and path: "subfolders_to_vector path = Inr (p @ [nm])"
    and nf: "\<not> meets_file (table_of (bsz sb) os D) 2 p" and loc: "locate (table_of (bsz sb) os D) 2 p = Some b"
    and D: "D b = Some ls" and nm: "length nm + 65 \<le> bsz sb" "0 \<notin> set nm" "nm \<notin> fst ` set (entries sb os ls)"
    and room: "40 + 8 * length ls \<le> bsz sb"
    and cnt: "count_blocks cnt sb = Inr (Suc (length zs))" and left: "xs \<noteq> []"
    and small: "length zs + 2 \<le> MAX_FILE_SIZE"
  shows "\<exists>os'. fs_write_file mem path buf cnt sb os = Inr (0, took sb xs, os') \<and>
    new_entry sb os (x # y # zs) xs D b ls os' x y nm Regular"
proof -
  let ?n = "bsz sb" and ?bl = "file_blocks (x # y # zs)" and ?new = "Suc (length zs)"
  note m = forestD(2) [OF f]
  obtain w os2 rs where s: "D 2 = Some rs" "writer_at sb os 2 rs w" "same_disk sb os os2"
    "fs_write_file mem path buf cnt sb os = rbind (write_walk (mem 6) (mem 7) (p @ [nm]) w sb os2) (\<lambda>(r, sb, os).
       case r of None \<Rightarrow> Inr (-1, sb, os)
       | Some w1 \<Rightarrow>
         rbind ((if w_new w1 then space_new else space_old) (\<lambda>i. mem (8 + i)) cnt w1 sb os) (\<lambda>(r, sb, os).
         case r of None \<Rightarrow> Inr (-1, sb, os)
         | Some (new, w2) \<Rightarrow> rbind (write_inodes new w2 sb os) (\<lambda>(r, os). Inr (r, sb, os))))"
    by (rule write_start [OF f path])
  from write_walk_ok [OF f s(2,1,3) nf, of "mem 6" "mem 7" nm] loc D obtain os3 w0 where
    w0: "same_disk sb os os3" "writer_at sb os b ls w0"
    "write_walk (mem 6) (mem 7) (p @ [nm]) w sb os2 = write_walk (mem 6) (mem 7) [nm] w0 sb os3" by auto
  let ?c = "meta_of ?n os b"
  from w0(2) have b0: "buffers ?n (w_bufs w0)" "dir_at ?n ?c (b_info (w_bufs w0)) (b_in (w_bufs w0)) ls"
    "dir_at ?n ?c (b_pinfo (w_bufs w0)) (b_pin (w_bufs w0)) ls" "w_pin_b w0 = b" "w_pinfo_b w0 = ?c"
    "w_blocks w0 = [0 \<mapsto> 1, 1 \<mapsto> 2]" "name_of (b_pinfo (w_bufs w0)) = name_of (disk ?n os ?c)"
    by (simp_all add: writer_at_def at_dir_def)
  note f3 = forest_same(1) [OF f w0(1)]
  have ent: "\<forall>l \<in> set ls. entry_ok sb os3 (x # y # zs @ xs) l" using child_okD(1) [OF forestD(9) [OF f3 D]] by blast
  have "entry_of ?n os3 l = entry_of ?n os l" if "l \<in> set ls" for l
    using entry_ok_same(2-4) [OF child_okD(1) [OF forestD(9) [OF f D that]] w0(1)] by (simp add: entry_of_def)
  then have nm3: "nm \<notin> fst ` set (entries sb os3 ls)" using nm(3) by (auto simp: entries_def)
  from write_walk_new [OF forestD(1) [OF f3] ent b0(1,2) nm(1,2) nm3, of "mem 6" "mem 7"] b0(4-7) obtain w1 os4 where
    w1: "write_walk (mem 6) (mem 7) [nm] w0 sb os3 = Inr (Some w1, took sb (zs @ xs), os4)"
    "free_list (took sb (zs @ xs)) os4 (zs @ xs)" "\<forall>a < sb_blks sb. a \<noteq> 0 \<longrightarrow> disk ?n os4 a = disk ?n os3 a"
    "buffers ?n (w_bufs w1)" "w_blocks w1 = [0 \<mapsto> 1, 1 \<mapsto> 2, 0 \<mapsto> x, 1 \<mapsto> y]" "w_new w1" "w_pin_b w1 = b" "w_pinfo_b w1 = ?c"
    "b_pin (w_bufs w1) = b_pin (w_bufs w0)" "b_pinfo (w_bufs w1) = b_pinfo (w_bufs w0)"
    "named (b_info (w_bufs w1))" "name_of (b_info (w_bufs w1)) = nm" "fld 0 (b_info (w_bufs w1)) = sb_blksz sb - 20" by auto
  have m4: "mounted sb os4" using free_listD(1) [OF w1(2)] by simp
  have dir1: "dir_at ?n ?c (b_pinfo (w_bufs w1)) (b_pin (w_bufs w1)) ls" using b0(3) w1(9,10) by simp
  from space_new_ok [OF w1(2) m4 w1(4) dir1 room, of x y cnt "\<lambda>i. mem (8 + i)"] w1(5,7,8) cnt left small
  obtain w2 os5 where
    w2: "space_new (\<lambda>i. mem (8 + i)) cnt w1 (took sb (zs @ xs)) os4 = Inr (Some (?new, w2), took sb xs, os5)"
    "free_list (took sb xs) os5 xs" "mounted sb os5" "\<forall>a < sb_blks sb. a \<noteq> 0 \<longrightarrow> disk ?n os5 a = disk ?n os4 a"
    "buffers ?n (w_bufs w2)" "dir_at ?n ?c (b_pinfo (w_bufs w2)) (b_pin (w_bufs w2)) (ls @ [y])"
    "name_of (b_pinfo (w_bufs w2)) = name_of (b_pinfo (w_bufs w1))" "b_info (w_bufs w2) = b_info (w_bufs w1)"
    "w_pin_b w2 = b" "w_pinfo_b w2 = ?c" "\<forall>j \<le> ?new. w_blocks w2 j = Some (?bl j)" by auto
  have dist: "distinct (x # y # zs)" "set (x # y # zs) \<inter> set xs = {}" using free_listD(3) [OF forestD(1) [OF f]] by auto
  note db = dir_okD [OF forestD(8) [OF f D]] note bi = in_all_inodes(1) [of D, OF D]
  have pc: "b \<noteq> ?c" "b \<noteq> 0" "?c \<noteq> 0" using forest_meta(1) [OF f bi bi] db(1,4) by auto
  have bl_in: "?bl j \<in> set (x # y # zs)" if "j \<le> ?new" for j
    using that nth_mem [of j "x # y # zs"] by (simp add: file_blocks_def)
  have out: "a < sb_blks sb \<and> a \<noteq> 0 \<and> a \<noteq> ?c \<and> a \<noteq> b" if "a \<in> set (x # y # zs @ xs)" for a
    using that free_listD(4) [OF forestD(1) [OF f]] forest_zero [OF f] db(3,6) by auto
  have bl: "\<forall>j \<le> ?new. ?bl j < sb_blks (took sb xs) \<and> ?bl j \<noteq> 0 \<and> ?bl j \<noteq> ?c \<and> ?bl j \<noteq> b"
  proof (intro allI impI)
    fix j assume "j \<le> ?new"
    then have "?bl j \<in> set (x # y # zs @ xs)" using bl_in by fastforce
    from out [OF this] show "?bl j < sb_blks (took sb xs) \<and> ?bl j \<noteq> 0 \<and> ?bl j \<noteq> ?c \<and> ?bl j \<noteq> b" by simp
  qed
  have inj: "\<forall>i j. i < j \<longrightarrow> j \<le> ?new \<longrightarrow> ?bl i \<noteq> ?bl j" using file_blocks_inj [OF dist(1)] by simp
  from write_inodes_at [of "took sb xs" os5 w2 ?new ?bl ?c b] w2(3,5,9,10,11) small bl inj db(2,5) pc obtain os6 in1 where
    w3: "write_inodes ?new w2 (took sb xs) os5 = Inr (0, os6)" "mounted sb os6" "disk ?n os6 0 = sb_bytes (took sb xs)"
    "disk ?n os6 ?c = b_pinfo (w_bufs w2)" "disk ?n os6 b = b_pin (w_bufs w2)" "disk ?n os6 x = b_info (w_bufs w2)"
    "disk ?n os6 y = in1" "fld 0 in1 = IMREG" "fld 16 in1 = x"
    "\<forall>a < sb_blks sb. a \<noteq> 0 \<longrightarrow> a \<noteq> ?c \<longrightarrow> a \<noteq> b \<longrightarrow> a \<notin> ?bl ` {..?new} \<longrightarrow> disk ?n os6 a = disk ?n os5 a"
    by (auto simp: file_blocks_def)
  have run: "fs_write_file mem path buf cnt sb os = Inr (0, took sb xs, os6)"
    using s(4) w0(3) w1(1,6) w2(1) w3(1) by simp
  have range: "?bl ` {..?new} \<subseteq> set (x # y # zs)" using bl_in by blast
  have keep: "\<forall>a < sb_blks sb. a \<noteq> 0 \<longrightarrow> a \<noteq> b \<longrightarrow> a \<noteq> ?c \<longrightarrow> a \<notin> set (x # y # zs) \<longrightarrow> disk ?n os6 a = disk ?n os a"
  proof (intro allI impI)
    fix a assume a: "a < sb_blks sb" "a \<noteq> 0" "a \<noteq> b" "a \<noteq> ?c" "a \<notin> set (x # y # zs)"
    then have "a \<notin> ?bl ` {..?new}" using range by blast
    then show "disk ?n os6 a = disk ?n os a" using a w3(10) w2(4) w1(3) same_diskD [OF w0(1)] by simp
  qed
  have "\<forall>a \<in> set xs. disk ?n os6 a = disk ?n os5 a"
  proof
    fix a assume a: "a \<in> set xs"
    then have "a \<notin> ?bl ` {..?new}" using range dist(2) by blast
    then show "disk ?n os6 a = disk ?n os5 a" using w3(10) out [of a] a by simp
  qed
  then have fl6: "free_list (took sb xs) os6 xs"
    using w2(2) w3(2) chain_cong [of xs ?n os6 os5] by (simp add: free_list_def)
  have "dir_at ?n ?c (disk ?n os6 ?c) (disk ?n os6 b) (ls @ [y])"
    "name_of (disk ?n os6 ?c) = name_of (disk ?n os ?c)"
    using w3(4,5) w2(6,7) w1(10) b0(7) by simp_all
  then have "new_entry sb os (x # y # zs) xs D b ls os6 x y nm Regular"
    unfolding new_entry_def rewritten_def using f D fl6 w3(3,6-9) keep dist(1) w2(8) w1(11-13)
    by simp
  with run show ?thesis by blast
qed

end
