(* ===== verification/Fs_Tree_Rewrite.thy ===== *)
theory Fs_Tree_Rewrite
  imports Fs_Tree_Write
begin

text \<open>
  \<open>fs_write_file\<close> on a file that exists: the walk to it, the loop over its inodes and the space.
\<close>

section \<open>The walk to the file\<close>

text \<open>The writer has found the file \<open>l\<close> with the nodeinfo \<open>m\<close> in the directory \<open>b\<close>.\<close>

definition at_file :: "superblock \<Rightarrow> fs_os \<Rightarrow> 64 word \<Rightarrow> 64 word list \<Rightarrow> 64 word \<Rightarrow> 64 word \<Rightarrow> writer \<Rightarrow> bool" where
  "at_file sb os b ls l m w \<longleftrightarrow> buffers (bsz sb) (w_bufs w) \<and>
     dir_at (bsz sb) (meta_of (bsz sb) os b) (b_pinfo (w_bufs w)) (b_pin (w_bufs w)) ls \<and>
     name_of (b_pinfo (w_bufs w)) = name_of (disk (bsz sb) os (meta_of (bsz sb) os b)) \<and>
     w_pin_b w = b \<and> w_pinfo_b w = meta_of (bsz sb) os b \<and> w_blocks w = [0 \<mapsto> m, 1 \<mapsto> l] \<and> \<not> w_new w \<and>
     fld 0 (b_in (w_bufs w)) = IMREG \<and> fld 24 (b_in (w_bufs w)) = fld 24 (disk (bsz sb) os l) \<and>
     fld 0 (b_info (w_bufs w)) = sb_blksz sb - 20 \<and> named (b_info (w_bufs w)) \<and>
     name_of (b_info (w_bufs w)) = name_of (disk (bsz sb) os m)"

lemma find_last:
  assumes f: "forest sb os xs D" and w: "writer_at sb os b ls w" and D: "D b = Some ls" and same: "same_disk sb os os1"
    and some: "entry_index (bsz sb) os nm ls = Some i" and l: "l = ls ! i" "m = meta_of (bsz sb) os l"
  obtains bs os2 where "buffers (bsz sb) bs" "b_in2 bs = disk (bsz sb) os l" "b_info2 bs = disk (bsz sb) os m"
    "b_pin bs = b_pin (w_bufs w)" "b_pinfo bs = b_pinfo (w_bufs w)" "same_disk sb os os2"
    "write_walk j1 j2 [nm] w sb os1 = rbind (jump_to_next_dir bs) (\<lambda>bs2.
       Inr (Some (w\<lparr>w_blocks := [0 \<mapsto> m, 1 \<mapsto> l], w_new := False, w_bufs := bs2\<rparr>), sb, os2))"
proof -
  let ?n = "bsz sb"
  note n = mountedD(3) [OF forestD(2) [OF f]] note i = entry_index_Some [OF some]
  from w have at: "at_dir sb os b ls (w_bufs w)" by (simp add: writer_at_def)
  obtain bs' os2 where s: "search_file_in_directory sb nm (w_bufs w) os1 = Inr (entry_index ?n os nm ls, bs', os2)"
    "searched ?n (w_bufs w) bs'" "same_disk sb os os2"
    "\<forall>i. entry_index ?n os nm ls = Some i \<longrightarrow> holds_entry ?n os (ls ! i) bs'" by (rule find_level [OF f D at same, of nm])
  from s(4) some have h: "b_in2 bs' = disk ?n os l" "b_info2 bs' = disk ?n os m" by (simp_all add: holds_entry_def l)
  from s(2) have bs': "buffers ?n bs'" by (simp add: searched_def)
  let ?info = "put64 0 (fld 0 (b_info bs') + 1) (b_info bs')"
  let ?bs = "bs'\<lparr>b_info := ?info\<rparr>"
  let ?w1 = "w\<lparr>w_bufs := ?bs, w_blocks := [0 \<mapsto> m, 1 \<mapsto> l], w_new := False\<rparr>"
  have "length (b_in2 bs') = ?n" using bs' by simp
  then have "load64 o_meta (b_in2 bs') = Inr m" using n by (simp add: load64_ok o_meta_def h meta_of_def l(2))
  moreover have "load64 (o_link (int i)) (b_in bs') = Inr l" using load_child [OF at s(2) i] l(1) by simp
  moreover have "load64 o_size (b_info bs') = Inr (fld 0 (b_info bs'))"
    "store64 o_size (fld 0 (b_info bs') + 1) (b_info bs') = Inr ?info"
    using bs' n by (simp_all add: load64_ok store64_ok o_size_def)
  moreover have "(w_blocks w)(0 \<mapsto> m, 1 \<mapsto> l) = [0 \<mapsto> m, 1 \<mapsto> l]" using w by (auto simp: writer_at_def)
  ultimately have "found_name True i (w\<lparr>w_bufs := bs'\<rparr>) = Inr ?w1" by (simp add: found_name_def)
  then have "write_walk j1 j2 [nm] w sb os1 = rbind (jump_to_next_dir ?bs) (\<lambda>bs2.
      Inr (Some (w\<lparr>w_blocks := [0 \<mapsto> m, 1 \<mapsto> l], w_new := False, w_bufs := bs2\<rparr>), sb, os2))"
    using s(1) some by (simp add: write_level.simps [of j1 j2 nm True])
  moreover have "buffers ?n ?bs" using bs' n by simp
  ultimately show thesis using s(2,3) h by (intro that [of ?bs os2]) (simp_all add: searched_def)
qed

lemma find_file:
  assumes f: "forest sb os xs D" and w: "writer_at sb os b ls w" and D: "D b = Some ls" and same: "same_disk sb os os1"
    and some: "entry_index (bsz sb) os nm ls = Some i" and l: "l = ls ! i" "m = meta_of (bsz sb) os l" and reg: "D l = None"
  obtains w1 os2 where "write_walk j1 j2 [nm] w sb os1 = Inr (Some w1, sb, os2)" "same_disk sb os os2" "at_file sb os b ls l m w1"
proof -
  let ?n = "bsz sb"
  note n = mountedD(3) [OF forestD(2) [OF f]]
  have c: "child_ok sb os xs D l" using forestD(9) [OF f D] entry_index_Some [OF some] l(1) by simp
  note e = entry_okD [OF child_okD(1) [OF c], folded l(2)]
  have mode: "fld 0 (disk ?n os l) = IMREG" using child_okD(2,3) [OF c] reg by auto
  from find_last [OF f w D same some l, of j1 j2] obtain bs os2 where
    r: "buffers ?n bs" "b_in2 bs = disk ?n os l" "b_info2 bs = disk ?n os m" "b_pin bs = b_pin (w_bufs w)"
    "b_pinfo bs = b_pinfo (w_bufs w)" "same_disk sb os os2"
    "write_walk j1 j2 [nm] w sb os1 = rbind (jump_to_next_dir bs) (\<lambda>bs2.
       Inr (Some (w\<lparr>w_blocks := [0 \<mapsto> m, 1 \<mapsto> l], w_new := False, w_bufs := bs2\<rparr>), sb, os2))" by blast
  have len: "length (b_in bs) = ?n" "length (b_in2 bs) = ?n" "length (b_info bs) = ?n" "length (b_info2 bs) = ?n"
    using r(1) by simp_all
  from copy_file_inode [OF len(1,2), of "b_info2 bs"] n mode r(2) obtain p where
    p: "copy_inode (b_in bs) (b_in2 bs) (b_info2 bs) = Inr p" "length p = ?n" "fld 0 p = IMREG" "fld 24 p = fld 24 (disk ?n os l)"
    by (auto simp: IMDIR_def IMREG_def)
  have "64 \<le> ?n" "named (b_info2 bs)" using n e(8) r(3) by simp_all
  from copy_nodeinfo_ok [OF len(3,4) this] obtain q where
    q: "copy_nodeinfo (b_info bs) (b_info2 bs) = Inr q" "length q = ?n" "fld 0 q = fld 0 (b_info2 bs)" "named q"
    "name_of q = name_of (b_info2 bs)" by blast
  let ?bs2 = "bs\<lparr>b_in := p, b_info := q\<rparr>"
  let ?w1 = "w\<lparr>w_blocks := [0 \<mapsto> m, 1 \<mapsto> l], w_new := False, w_bufs := ?bs2\<rparr>"
  have "write_walk j1 j2 [nm] w sb os1 = Inr (Some ?w1, sb, os2)" using p(1) q(1) r(7) by (simp add: jump_to_next_dir_def)
  moreover have "fld 0 q = sb_blksz sb - 20" using q(3) r(3) child_okD(4) [OF c reg] l(2) by simp
  then have "at_file sb os b ls l m ?w1" using w r(1,3-5) p(2-4) q(2,4,5) by (simp add: at_file_def writer_at_def)
  ultimately show thesis using r(6) by (intro that)
qed

text \<open>The writer has found the directory \<open>l\<close> with the entries \<open>ks\<close>.\<close>

definition at_folder :: "superblock \<Rightarrow> fs_os \<Rightarrow> 64 word \<Rightarrow> 64 word list \<Rightarrow> 64 word \<Rightarrow> 64 word list \<Rightarrow> writer \<Rightarrow> bool" where
  "at_folder sb os b ls l ks w \<longleftrightarrow> at_dir sb os l ks (w_bufs w) \<and>
     dir_at (bsz sb) (meta_of (bsz sb) os b) (b_pinfo (w_bufs w)) (b_pin (w_bufs w)) ls \<and>
     name_of (b_pinfo (w_bufs w)) = name_of (disk (bsz sb) os (meta_of (bsz sb) os b)) \<and>
     w_pin_b w = b \<and> w_pinfo_b w = meta_of (bsz sb) os b \<and> w_blocks w = [0 \<mapsto> meta_of (bsz sb) os l, 1 \<mapsto> l] \<and> \<not> w_new w"

lemma find_folder:
  assumes f: "forest sb os xs D" and w: "writer_at sb os b ls w" and D: "D b = Some ls" and same: "same_disk sb os os1"
    and some: "entry_index (bsz sb) os nm ls = Some i" and l: "l = ls ! i" and dir: "D l = Some ks"
  obtains w1 os2 where "write_walk j1 j2 [nm] w sb os1 = Inr (Some w1, sb, os2)" "same_disk sb os os2" "at_folder sb os b ls l ks w1"
proof -
  let ?n = "bsz sb" and ?m = "meta_of (bsz sb) os l"
  from find_last [OF f w D same some l refl, of j1 j2] obtain bs os2 where
    r: "buffers ?n bs" "b_in2 bs = disk ?n os l" "b_info2 bs = disk ?n os ?m" "b_pin bs = b_pin (w_bufs w)"
    "b_pinfo bs = b_pinfo (w_bufs w)" "same_disk sb os os2"
    "write_walk j1 j2 [nm] w sb os1 = rbind (jump_to_next_dir bs) (\<lambda>bs2.
       Inr (Some (w\<lparr>w_blocks := [0 \<mapsto> ?m, 1 \<mapsto> l], w_new := False, w_bufs := bs2\<rparr>), sb, os2))" by blast
  have "holds_entry ?n os l bs" using r(2,3) by (simp add: holds_entry_def)
  from step_down [OF f dir r(1) this] obtain bs2 where
    j: "jump_to_next_dir bs = Inr bs2" "at_dir sb os l ks bs2" "b_pin bs2 = b_pin bs" "b_pinfo bs2 = b_pinfo bs" by blast
  let ?w1 = "w\<lparr>w_blocks := [0 \<mapsto> ?m, 1 \<mapsto> l], w_new := False, w_bufs := bs2\<rparr>"
  have "write_walk j1 j2 [nm] w sb os1 = Inr (Some ?w1, sb, os2)" using j(1) r(7) by simp
  moreover have "at_folder sb os b ls l ks ?w1" using w j(2-4) r(4,5) by (simp add: at_folder_def writer_at_def)
  ultimately show thesis using r(6) by (intro that)
qed

section \<open>The loop over the inodes of the file\<close>

lemma chain_loop_ends:
  assumes "length in2 = bsz sb" "128 \<le> bsz sb" "fld 24 in2 = 0"
  shows "chain_loop sb in1 in2 i a os = Some (Inr (in2, a, os))"
  using assms by (simp add: chain_loop.simps [of sb in1 in2] load64_ok o_next_def)

lemma chain_loop_step:
  assumes m: "mounted sb os" and len: "length in1 = bsz sb" "length in2 = bsz sb" and more: "fld 24 in2 \<noteq> 0"
    and s: "fld 24 in1 = s" "s < sb_blks sb" and i: "i < MAX_FILE_SIZE"
  obtains os' where "same_disk sb os os'"
    "chain_loop sb in1 in2 i a os = chain_loop sb in1 (disk (bsz sb) os s) (i + 1) (a(i \<mapsto> s)) os'"
proof -
  from read_step [OF m s(2) len(2)] obtain os' where
    r: "read_block sb s in2 os = Inr (disk (bsz sb) os s, os')" "same_disk sb os os'" by blast
  have "load64 o_next in1 = Inr s" "load64 o_next in2 = Inr (fld 24 in2)"
    using len s(1) mountedD(3) [OF m] by (simp_all add: load64_ok o_next_def)
  with r more i have "chain_loop sb in1 in2 i a os = chain_loop sb in1 (disk (bsz sb) os s) (i + 1) (a(i \<mapsto> s)) os'"
    by (simp add: chain_loop.simps [of sb in1 in2] set_blk_def)
  with r(2) show thesis by (rule that)
qed

text \<open>A file of two blocks: the second one is read once.\<close>

lemma chain_loop_short:
  assumes m: "mounted sb os" and len: "length in1 = bsz sb" "length in2 = bsz sb" and eq: "fld 24 in2 = fld 24 in1"
    and s: "s = fld 24 in1" "s = 0 \<or> s < sb_blks sb \<and> fld 24 (disk (bsz sb) os s) = 0"
  obtains in3 a' os' where "chain_loop sb in1 in2 2 a os = Some (Inr (in3, a', os'))" "same_disk sb os os'"
    "length in3 = bsz sb" "\<And>j. j \<noteq> 2 \<Longrightarrow> a' j = a j"
proof (cases "s = 0")
  case True
  with chain_loop_ends [OF len(2) mountedD(3) [OF m], of in1 2 a os] eq s(1) same_disk_refl [OF m] len(2)
  show thesis by (intro that [of in2 a os]) simp_all
next
  case False
  with s have next_s: "s < sb_blks sb" "fld 24 (disk (bsz sb) os s) = 0" "fld 24 in2 \<noteq> 0" by (simp_all add: eq)
  obtain os' where r: "same_disk sb os os'"
    "chain_loop sb in1 in2 2 a os = chain_loop sb in1 (disk (bsz sb) os s) (2 + 1) (a(2 \<mapsto> s)) os'"
    by (rule chain_loop_step [OF m len next_s(3) s(1) [symmetric] next_s(1), of 2 a]) (simp add: MAX_FILE_SIZE_def)
  have "length (disk (bsz sb) os s) = bsz sb" using m next_s(1) by simp
  with chain_loop_ends [OF this mountedD(3) [OF m] next_s(2), of in1 3 "a(2 \<mapsto> s)" os'] r show thesis
    by (intro that [of "disk (bsz sb) os s" "a(2 \<mapsto> s)" os']) simp_all
qed

text \<open>A file of three or more: the same block is read until the array is full.\<close>

lemma chain_loop_long:
  assumes "mounted sb os" "length in1 = bsz sb" "length in2 = bsz sb" "fld 24 in2 \<noteq> 0"
    and "fld 24 in1 = s" "s < sb_blks sb" "fld 24 (disk (bsz sb) os s) \<noteq> 0" and "i \<le> MAX_FILE_SIZE"
  shows "chain_loop sb in1 in2 i a os = Some (Inl Out_Of_Bounds)"
  using assms
proof (induction "MAX_FILE_SIZE - i" arbitrary: i in2 a os)
  case 0
  then have i: "i = MAX_FILE_SIZE" by simp
  have "load64 o_next in1 = Inr s" "load64 o_next in2 = Inr (fld 24 in2)"
    using 0 mountedD(3) [OF 0(2)] by (simp_all add: load64_ok o_next_def)
  then show ?case using 0 i by (simp add: chain_loop.simps [of sb in1 in2] set_blk_def)
next
  case (Suc d)
  have i: "i < MAX_FILE_SIZE" using Suc.hyps(2) by simp
  obtain os' where r: "same_disk sb os os'"
    "chain_loop sb in1 in2 i a os = chain_loop sb in1 (disk (bsz sb) os s) (i + 1) (a(i \<mapsto> s)) os'"
    by (rule chain_loop_step [OF Suc.prems(1-6) i, of a])
  have d: "disk (bsz sb) os' s = disk (bsz sb) os s" by (rule same_diskD [OF r(1) Suc.prems(6)])
  have "length (disk (bsz sb) os s) = bsz sb" using Suc.prems(1,6) by simp
  moreover have "d = MAX_FILE_SIZE - (i + 1)" "i + 1 \<le> MAX_FILE_SIZE" using Suc.hyps(2) i by simp_all
  ultimately show ?case
    unfolding r(2) using Suc.prems(2,5,6,7) same_disk_mounted [OF r(1)] d by (intro Suc.hyps(1)) simp_all
qed

section \<open>The space for the contents\<close>

text \<open>The size kept for a file is that of one block, so the function takes it to have one.\<close>

lemma space_old_start:
  assumes m: "mounted sb os" and w: "at_file sb os b ls l m w" and cnt: "cnt < 2 ^ 24" "bsz sb - 20 < 2 ^ 24"
  obtains in2 where "length in2 = bsz sb" "fld 24 in2 = fld 24 (b_in (w_bufs w))"
    "space_old mem cnt w sb os1 = rbind (returns (chain_loop sb (b_in (w_bufs w)) in2 2 (w_blocks w) os1)) (\<lambda>(in2, a, os1).
      let w1 = w\<lparr>w_bufs := (w_bufs w)\<lparr>b_in2 := in2\<rparr>\<rparr>; c = cnt div (bsz sb - 20) in
      if 1 \<le> c then
        rbind (take_blocks mem [2..<c + 1] a sb os1) (\<lambda>(a1, sb1, os2). Inr (Some (c, w1\<lparr>w_blocks := a1\<rparr>), sb1, os2))
      else
        rbind (drop_blocks mem (rev [c + 1..<2]) a sb os1) (\<lambda>(ok, sb1, os2).
        Inr (if ok then Some (c, w1\<lparr>w_blocks := a\<rparr>) else None, sb1, os2)))"
proof -
  let ?n = "bsz sb"
  note n = mountedD(3) [OF m]
  from w have bs: "buffers ?n (w_bufs w)" and mode: "fld 0 (b_in (w_bufs w)) = IMREG"
    and size: "fld 0 (b_info (w_bufs w)) = sb_blksz sb - 20" by (simp_all add: at_file_def)
  have "(20 :: 64 word) \<le> sb_blksz sb" using n by (simp add: word_le_nat_alt bsz_def)
  then have "unat (sb_blksz sb - 20) = ?n - 20" by (simp add: unat_sub bsz_def)
  moreover have "load64 o_size (b_info (w_bufs w)) = Inr (sb_blksz sb - 20)" using bs n size by (simp add: load64_ok o_size_def)
  moreover have "count_blocks (?n - 20) sb = Inr 1" "count_blocks cnt sb = Inr (cnt div (?n - 20))"
    using count_blocks_floor [of _ sb] cnt n by simp_all
  moreover have "length (b_in2 (w_bufs w)) = ?n" "length (b_in (w_bufs w)) = ?n" using bs by simp_all
  from copy_file_inode [OF this, of "b_info (w_bufs w)"] n mode obtain in2 where
    "copy_inode (b_in2 (w_bufs w)) (b_in (w_bufs w)) (b_info (w_bufs w)) = Inr in2" "length in2 = ?n"
    "fld 24 in2 = fld 24 (b_in (w_bufs w))" by (auto simp: IMDIR_def IMREG_def)
  ultimately show thesis by (intro that [of in2]) (simp_all add: space_old_def Let_def del: One_nat_def cong: if_cong)
qed

lemma took_self:
  assumes "free_list sb os xs"
  shows "took sb xs = sb"
proof -
  have "chain (bsz sb) os (sb_freelist sb) xs" "of_nat (length xs) = sb_freeblks sb"
    using free_listD(2,5) [OF assms] by (simp_all flip: free_listD(5) [OF assms])
  then show ?thesis by (cases xs) (simp_all add: took_def)
qed

lemma space_old_ok:
  assumes fl: "free_list sb os1 (zs @ xs)" and same: "same_disk sb os os1" and m: "mounted sb os"
    and w: "at_file sb os b ls l m w"
    and short: "s = fld 24 (disk (bsz sb) os l)" "s = 0 \<or> s < sb_blks sb \<and> fld 24 (disk (bsz sb) os s) = 0"
    and cnt: "cnt < 2 ^ 24" "bsz sb - 20 \<le> cnt" "cnt div (bsz sb - 20) = Suc (length zs)"
    and small: "length zs + 2 \<le> MAX_FILE_SIZE"
  obtains w' os' where "space_old mem cnt w sb os1 = Inr (Some (Suc (length zs), w'), took sb xs, os')"
    "free_list (took sb xs) os' xs" "mounted sb os'" "\<forall>a < sb_blks sb. a \<noteq> 0 \<longrightarrow> disk (bsz sb) os' a = disk (bsz sb) os a"
    "buffers (bsz sb) (w_bufs w')" "b_pin (w_bufs w') = b_pin (w_bufs w)" "b_pinfo (w_bufs w') = b_pinfo (w_bufs w)"
    "b_info (w_bufs w') = b_info (w_bufs w)" "w_pin_b w' = w_pin_b w" "w_pinfo_b w' = w_pinfo_b w"
    "\<forall>j \<le> Suc (length zs). w_blocks w' j = Some (file_blocks (m # l # zs) j)"
proof -
  let ?n = "bsz sb" and ?bs = "w_bufs w"
  from w have bs: "buffers ?n ?bs" and nxt: "fld 24 (b_in ?bs) = s" and blocks: "w_blocks w = [0 \<mapsto> m, 1 \<mapsto> l]"
    using short(1) by (simp_all add: at_file_def)
  have "?n - 20 < 2 ^ 24" using cnt(1,2) by simp
  from space_old_start [OF m w cnt(1) this, of mem os1] obtain in2 where
    1: "length in2 = ?n" "fld 24 in2 = fld 24 (b_in ?bs)"
    "space_old mem cnt w sb os1 = rbind (returns (chain_loop sb (b_in ?bs) in2 2 (w_blocks w) os1)) (\<lambda>(in2, a, os1).
      let w1 = w\<lparr>w_bufs := ?bs\<lparr>b_in2 := in2\<rparr>\<rparr>; c = cnt div (?n - 20) in
      if 1 \<le> c then
        rbind (take_blocks mem [2..<c + 1] a sb os1) (\<lambda>(a1, sb1, os2). Inr (Some (c, w1\<lparr>w_blocks := a1\<rparr>), sb1, os2))
      else
        rbind (drop_blocks mem (rev [c + 1..<2]) a sb os1) (\<lambda>(ok, sb1, os2).
        Inr (if ok then Some (c, w1\<lparr>w_blocks := a\<rparr>) else None, sb1, os2)))" by blast
  have "length (b_in ?bs) = ?n" using bs by simp
  moreover have "s = 0 \<or> s < sb_blks sb \<and> fld 24 (disk ?n os1 s) = 0" using short(2) same_diskD [OF same] by auto
  ultimately obtain in3 a os2 where
    2: "chain_loop sb (b_in ?bs) in2 2 (w_blocks w) os1 = Some (Inr (in3, a, os2))" "same_disk sb os1 os2" "length in3 = ?n"
    "\<And>j. j \<noteq> 2 \<Longrightarrow> a j = w_blocks w j"
    using chain_loop_short [OF same_disk_mounted [OF same] _ 1(1,2) nxt [symmetric], of "w_blocks w"] by metis
  note fl2 = free_list_same [OF fl 2(2)]
  have "2 + length zs \<le> MAX_FILE_SIZE" using small by simp
  from take_blocks_ok [of sb zs xs os2 2 mem a] fl2 took_self [OF fl2] free_listD(1) [OF fl2] this obtain os3 where
    3: "take_blocks mem [2..<2 + length zs] a sb os2 =
      Inr (\<lambda>j. if 2 \<le> j \<and> j < 2 + length zs then Some (zs ! (j - 2)) else a j, took sb xs, os3)"
    "free_list (took sb xs) os3 xs" "mounted sb os3" "\<forall>a < sb_blks sb. a \<noteq> 0 \<longrightarrow> disk ?n os3 a = disk ?n os2 a" by auto
  let ?a = "\<lambda>j. if 2 \<le> j \<and> j < 2 + length zs then Some (zs ! (j - 2)) else a j"
  let ?w = "w\<lparr>w_bufs := ?bs\<lparr>b_in2 := in3\<rparr>, w_blocks := ?a\<rparr>"
  have idx: "[2..<Suc (length zs) + 1] = [2..<2 + length zs]" by simp
  have "space_old mem cnt w sb os1 = Inr (Some (Suc (length zs), ?w), took sb xs, os3)"
    unfolding 1(3) 2(1) cnt(3) idx Let_def using 3(1) by simp
  moreover have "\<forall>j \<le> Suc (length zs). ?a j = Some (file_blocks (m # l # zs) j)"
  proof (intro allI impI)
    fix j assume "j \<le> Suc (length zs)"
    moreover have "j = 0 \<or> j = 1 \<or> (\<exists>i. j = Suc (Suc i))" by (metis One_nat_def nat.exhaust)
    ultimately show "?a j = Some (file_blocks (m # l # zs) j)" using 2(4) [of 0] 2(4) [of 1] blocks
      by (auto simp: file_blocks_def)
  qed
  moreover have "\<forall>a < sb_blks sb. a \<noteq> 0 \<longrightarrow> disk ?n os3 a = disk ?n os a"
    using 3(4) same_diskD [OF 2(2)] same_diskD [OF same] by simp
  moreover have "buffers ?n (w_bufs ?w)" using bs 2(3) by simp
  ultimately show thesis using 3(2,3) by (intro that [of ?w os3]) simp_all
qed

text \<open>
  A directory counts as a file of no blocks, so the first block that is taken takes the place of its inode.
\<close>

lemma space_old_folder:
  assumes fl: "free_list sb os1 (zs @ xs)" and w: "at_folder sb os b ls l ks w"
    and cnt: "cnt < 2 ^ 24" "bsz sb - 20 \<le> cnt" "cnt div (bsz sb - 20) = length zs" and small: "length zs + 1 \<le> MAX_FILE_SIZE"
  obtains w' os' where "space_old mem cnt w sb os1 = Inr (Some (length zs, w'), took sb xs, os')"
    "free_list (took sb xs) os' xs" "mounted sb os'" "\<forall>a < sb_blks sb. a \<noteq> 0 \<longrightarrow> disk (bsz sb) os' a = disk (bsz sb) os1 a"
    "buffers (bsz sb) (w_bufs w')" "b_pin (w_bufs w') = b_pin (w_bufs w)" "b_pinfo (w_bufs w') = b_pinfo (w_bufs w)"
    "b_info (w_bufs w') = b_info (w_bufs w)" "w_pin_b w' = w_pin_b w" "w_pinfo_b w' = w_pinfo_b w"
    "\<forall>j \<le> length zs. w_blocks w' j = Some (file_blocks (meta_of (bsz sb) os l # zs) j)"
proof -
  let ?n = "bsz sb" and ?bs = "w_bufs w" and ?m = "meta_of (bsz sb) os l"
  note n = mountedD(3) [OF free_listD(1) [OF fl]]
  from w have bs: "buffers ?n ?bs" and dir: "dir_at ?n ?m (b_info ?bs) (b_in ?bs) ks"
    and blocks: "w_blocks w = [0 \<mapsto> ?m, 1 \<mapsto> l]" by (simp_all add: at_folder_def at_dir_def)
  note d = root_dirD [OF dir]
  have len: "length ks < ?n - 20" "length ks < 2 ^ 24" using d(6) n cnt(1,2) by auto
  have start: "load64 o_size (b_info ?bs) = Inr (fld 0 (b_info ?bs))" "count_blocks cnt sb = Inr (length zs)"
    "count_blocks (unat (fld 0 (b_info ?bs))) sb = Inr 0"
    using bs n count_blocks_floor [of _ sb] cnt(1,3) len d(5) by (simp_all add: load64_ok o_size_def)
  from copy_root_inode [OF dir, of "b_in2 ?bs"] bs n obtain in2 where
    c: "copy_inode (b_in2 ?bs) (b_in ?bs) (b_info ?bs) = Inr in2" "length in2 = ?n" "dir_at ?n ?m (b_info ?bs) in2 ks" by auto
  note chain = chain_loop_ends [OF c(2) n root_dirD(3) [OF c(3)], of "b_in ?bs" 2 "w_blocks w" os1]
  have "1 + length zs \<le> MAX_FILE_SIZE" using small by simp
  from take_blocks_ok [of sb zs xs os1 1 mem "w_blocks w"] fl took_self [OF fl] free_listD(1) [OF fl] this obtain os3 where
    t: "take_blocks mem [1..<1 + length zs] (w_blocks w) sb os1 =
      Inr (\<lambda>j. if 1 \<le> j \<and> j < 1 + length zs then Some (zs ! (j - 1)) else w_blocks w j, took sb xs, os3)"
    "free_list (took sb xs) os3 xs" "mounted sb os3" "\<forall>a < sb_blks sb. a \<noteq> 0 \<longrightarrow> disk ?n os3 a = disk ?n os1 a" by auto
  let ?a = "\<lambda>j. if 1 \<le> j \<and> j < 1 + length zs then Some (zs ! (j - 1)) else w_blocks w j"
  let ?w = "w\<lparr>w_bufs := ?bs\<lparr>b_in2 := in2\<rparr>, w_blocks := ?a\<rparr>"
  have idx: "[0 + 1..<length zs + 1] = [1..<1 + length zs]" by (simp add: add.commute)
  have "space_old mem cnt w sb os1 = Inr (Some (length zs, ?w), took sb xs, os3)"
    unfolding space_old_def Let_def start c(1) chain rbind.simps idx using t(1) by simp
  moreover have "\<forall>j \<le> length zs. ?a j = Some (file_blocks (?m # zs) j)"
    using blocks by (auto simp: file_blocks_def nth_Cons' le_imp_less_Suc)
  moreover have "buffers ?n (w_bufs ?w)" using bs c(2) by simp
  ultimately show thesis using t(2-4) by (intro that [of ?w os3]) simp_all
qed

section \<open>A long file\<close>

lemma rewrite_long:
  assumes f: "forest sb os xs D" and path: "subfolders_to_vector path = Inr (p @ [nm])"
    and nf: "\<not> meets_file (table_of (bsz sb) os D) 2 p" and loc: "locate (table_of (bsz sb) os D) 2 p = Some b"
    and D: "D b = Some ls" and i: "entry_index (bsz sb) os nm ls = Some i" and reg: "D (ls ! i) = None"
    and s: "s = fld 24 (disk (bsz sb) os (ls ! i))" "s \<noteq> 0" "s < sb_blks sb" "fld 24 (disk (bsz sb) os s) \<noteq> 0"
    and cnt: "cnt < 2 ^ 24" "bsz sb - 20 < 2 ^ 24"
  shows "fs_write_file mem path buf cnt sb os = Inl Out_Of_Bounds"
proof -
  let ?n = "bsz sb"
  note m = forestD(2) [OF f]
  obtain w os2 rs where st: "D 2 = Some rs" "writer_at sb os 2 rs w" "same_disk sb os os2"
    "fs_write_file mem path buf cnt sb os = rbind (write_walk (mem 6) (mem 7) (p @ [nm]) w sb os2) (\<lambda>(r, sb, os).
       case r of None \<Rightarrow> Inr (-1, sb, os)
       | Some w1 \<Rightarrow>
         rbind ((if w_new w1 then space_new else space_old) (\<lambda>i. mem (8 + i)) cnt w1 sb os) (\<lambda>(r, sb, os).
         case r of None \<Rightarrow> Inr (-1, sb, os)
         | Some (new, w2) \<Rightarrow> rbind (write_inodes new w2 sb os) (\<lambda>(r, os). Inr (r, sb, os))))"
    by (rule write_start [OF f path])
  from write_walk_ok [OF f st(2,1,3) nf, of "mem 6" "mem 7" nm] loc D obtain os3 w0 where
    w0: "same_disk sb os os3" "writer_at sb os b ls w0"
    "write_walk (mem 6) (mem 7) (p @ [nm]) w sb os2 = write_walk (mem 6) (mem 7) [nm] w0 sb os3" by auto
  from find_file [OF f w0(2) D w0(1) i refl refl reg, of "mem 6" "mem 7"] obtain w1 os4 where
    w1: "write_walk (mem 6) (mem 7) [nm] w0 sb os3 = Inr (Some w1, sb, os4)" "same_disk sb os os4"
    "at_file sb os b ls (ls ! i) (meta_of ?n os (ls ! i)) w1" by blast
  from w1(3) have bs: "buffers ?n (w_bufs w1)" and nxt: "fld 24 (b_in (w_bufs w1)) = s" and old: "\<not> w_new w1"
    by (simp_all add: at_file_def s(1))
  from space_old_start [OF m w1(3) cnt, of "\<lambda>i. mem (8 + i)" os4] obtain in2 where
    o: "length in2 = ?n" "fld 24 in2 = fld 24 (b_in (w_bufs w1))"
    "space_old (\<lambda>i. mem (8 + i)) cnt w1 sb os4 =
      rbind (returns (chain_loop sb (b_in (w_bufs w1)) in2 2 (w_blocks w1) os4)) (\<lambda>(in2, a, os1).
      let w2 = w1\<lparr>w_bufs := (w_bufs w1)\<lparr>b_in2 := in2\<rparr>\<rparr>; c = cnt div (?n - 20) in
      if 1 \<le> c then
        rbind (take_blocks (\<lambda>i. mem (8 + i)) [2..<c + 1] a sb os1) (\<lambda>(a1, sb1, os2). Inr (Some (c, w2\<lparr>w_blocks := a1\<rparr>), sb1, os2))
      else
        rbind (drop_blocks (\<lambda>i. mem (8 + i)) (rev [c + 1..<2]) a sb os1) (\<lambda>(ok, sb1, os2).
        Inr (if ok then Some (c, w2\<lparr>w_blocks := a\<rparr>) else None, sb1, os2)))" by blast
  have "chain_loop sb (b_in (w_bufs w1)) in2 2 (w_blocks w1) os4 = Some (Inl Out_Of_Bounds)"
    by (rule chain_loop_long [OF same_disk_mounted [OF w1(2)] _ o(1) _ nxt s(3)])
      (use bs o(2) nxt s same_diskD [OF w1(2) s(3)] in \<open>simp_all add: MAX_FILE_SIZE_def\<close>)
  with o(3) st(4) w0(3) w1(1) old show ?thesis by simp
qed

end
