(* ===== verification/Fs_Tree_Again.thy ===== *)
theory Fs_Tree_Again
  imports Fs_Tree_Rewrite
begin

text \<open>
  What a volume holds after an entry that was there was written again.
\<close>

text \<open>
  The inode \<open>l\<close> with the nodeinfo \<open>m\<close> stays what it is, a file or a directory, while the free blocks \<open>zs\<close> are
  taken; the entries of its directory stay as they are.
\<close>

definition written_again :: "superblock \<Rightarrow> fs_os \<Rightarrow> 64 word list \<Rightarrow> 64 word list \<Rightarrow> (64 word \<rightharpoonup> 64 word list) \<Rightarrow>
  64 word \<Rightarrow> 64 word list \<Rightarrow> fs_os \<Rightarrow> 64 word \<Rightarrow> 64 word \<Rightarrow> bool" where
  "written_again sb os zs xs D b ls os' l m \<longleftrightarrow>
     rewritten sb os (zs @ xs) D b ls os' ls (insert l (insert m (set zs))) \<and> free_list (took sb xs) os' xs \<and>
     disk (bsz sb) os' 0 = sb_bytes (took sb xs) \<and> l \<in> set ls \<and> m = meta_of (bsz sb) os l \<and>
     fld 16 (disk (bsz sb) os' l) = m \<and> named (disk (bsz sb) os' m) \<and>
     name_of (disk (bsz sb) os' m) = name_of (disk (bsz sb) os m) \<and>
     (case D l of None \<Rightarrow> fld 0 (disk (bsz sb) os' l) = IMREG \<and> fld 0 (disk (bsz sb) os' m) = sb_blksz sb - 20
      | Some ks \<Rightarrow> dir_at (bsz sb) m (disk (bsz sb) os' m) (disk (bsz sb) os' l) ks)"

lemma written_againD:
  assumes "written_again sb os zs xs D b ls os' l m"
  shows "rewritten sb os (zs @ xs) D b ls os' ls (insert l (insert m (set zs)))" "free_list (took sb xs) os' xs"
    "disk (bsz sb) os' 0 = sb_bytes (took sb xs)" "l \<in> set ls" "m = meta_of (bsz sb) os l"
    "meta_of (bsz sb) os' l = m" "named (disk (bsz sb) os' m)" "name_of (disk (bsz sb) os' m) = name_of (disk (bsz sb) os m)"
    "D l = None \<Longrightarrow> fld 0 (disk (bsz sb) os' l) = IMREG" "D l = None \<Longrightarrow> fld 0 (disk (bsz sb) os' m) = sb_blksz sb - 20"
    "D l = Some ks \<Longrightarrow> dir_at (bsz sb) m (disk (bsz sb) os' m) (disk (bsz sb) os' l) ks"
    "forest sb os (zs @ xs) D" "D b = Some ls" "l \<in> all_inodes D" "l \<noteq> b" "child_ok sb os (zs @ xs) D l"
proof -
  show *: "rewritten sb os (zs @ xs) D b ls os' ls (insert l (insert m (set zs)))" "free_list (took sb xs) os' xs"
    "disk (bsz sb) os' 0 = sb_bytes (took sb xs)" "l \<in> set ls" "m = meta_of (bsz sb) os l"
    "meta_of (bsz sb) os' l = m" "named (disk (bsz sb) os' m)" "name_of (disk (bsz sb) os' m) = name_of (disk (bsz sb) os m)"
    using assms unfolding written_again_def meta_of_def by blast+
  have c: "case D l of None \<Rightarrow> fld 0 (disk (bsz sb) os' l) = IMREG \<and> fld 0 (disk (bsz sb) os' m) = sb_blksz sb - 20
      | Some ks \<Rightarrow> dir_at (bsz sb) m (disk (bsz sb) os' m) (disk (bsz sb) os' l) ks"
    using assms unfolding written_again_def by blast
  show "D l = None \<Longrightarrow> fld 0 (disk (bsz sb) os' l) = IMREG" "D l = None \<Longrightarrow> fld 0 (disk (bsz sb) os' m) = sb_blksz sb - 20"
    "D l = Some ks \<Longrightarrow> dir_at (bsz sb) m (disk (bsz sb) os' m) (disk (bsz sb) os' l) ks"
    using c by simp_all
  show f: "forest sb os (zs @ xs) D" and D: "D b = Some ls" using rewrittenD(1,2) [OF *(1)] by simp_all
  show "l \<in> all_inodes D" by (rule in_all_inodes(2) [of D, OF D *(4)])
  show "l \<noteq> b" using one_parentD(2) [OF forestD(12) [OF f] D] *(4) by blast
  show "child_ok sb os (zs @ xs) D l" by (rule forestD(9) [OF f D *(4)])
qed

lemma again_spared:
  assumes W: "written_again sb os zs xs D b ls os' l m" and a: "a \<in> all_inodes D"
  shows "a \<noteq> l \<Longrightarrow> spared sb os D (insert l (insert m (set zs))) a" "a \<notin> set xs" "meta_of (bsz sb) os a \<notin> set xs"
  using forest_blocks [OF written_againD(12) [OF W] a] forest_meta [OF written_againD(12,14) [OF W] a]
    forest_meta [OF written_againD(12) [OF W] a written_againD(14) [OF W]] written_againD(5) [OF W] a
  by (auto simp: spared_def)

lemma again_mode:
  assumes W: "written_again sb os zs xs D b ls os' l m"
  shows "fld 0 (disk (bsz sb) os' l) = fld 0 (disk (bsz sb) os l)"
proof (cases "D l")
  case None
  then show ?thesis using child_okD(2,3) [OF written_againD(16) [OF W]] written_againD(9) [OF W] by auto
next
  case (Some ks)
  then show ?thesis
    using child_okD(3) [OF written_againD(16) [OF W]] root_dirD(1) [OF written_againD(11) [OF W Some]] by simp
qed

lemma again_meta:
  assumes W: "written_again sb os zs xs D b ls os' l m" and a: "a \<in> all_inodes D"
  shows "meta_of (bsz sb) os' a = meta_of (bsz sb) os a" "entry_at (bsz sb) os' a = entry_at (bsz sb) os a"
proof -
  note d = written_againD [OF W]
  show "meta_of (bsz sb) os' a = meta_of (bsz sb) os a" "entry_at (bsz sb) os' a = entry_at (bsz sb) os a"
    using spared_inode(1) [OF d(1) again_spared(1) [OF W a]] spared_entry(1) [OF d(1) again_spared(1) [OF W a]] d(5,6,8)
      again_mode [OF W]
    by (cases "a = l"; simp add: entry_at_def entry_of_def)+
qed

lemma again_child:
  assumes W: "written_again sb os zs xs D b ls os' l m" and c: "child_ok sb os (zs @ xs) D a" and a: "a \<in> all_inodes D"
  shows "child_ok (took sb xs) os' xs D a"
proof (cases "a = l")
  case False
  show ?thesis by (rule spared_child [where D' = D, OF written_againD(1) [OF W] again_spared(1) [OF W a False] c
        again_spared(2,3) [OF W a] refl])
next
  case True
  note d = written_againD [OF W] and e = entry_okD [OF child_okD(1) [OF c]]
  show ?thesis using d(5-7,10) e child_okD(2,3) [OF c] again_spared(2,3) [OF W a] again_mode [OF W] True
    by (simp add: child_ok_def entry_ok_def)
qed

lemma again_dir:
  assumes W: "written_again sb os zs xs D b ls os' l m" and D: "D a = Some js"
  shows "dir_ok (took sb xs) os' xs a js"
proof (cases "a = l")
  case True
  note d = written_againD [OF W] and k = dir_okD(1-6) [OF forestD(8) [OF written_againD(12) [OF W] D]]
  show ?thesis using k d(5,6) d(11) [of js] True D again_spared(2,3) [OF W d(14)] by (simp add: dir_ok_def)
next
  case False
  note d = written_againD [OF W] and i = in_all_inodes(1) [of D, OF D]
  from spared_dir [OF d(1) again_spared(1) [OF W i False] D again_spared(2,3) [OF W i]] d(13) D
  show ?thesis by (cases "a = b") simp_all
qed

lemma again_forest:
  assumes W: "written_again sb os zs xs D b ls os' l m"
  shows "forest (took sb xs) os' xs D"
proof -
  note d = written_againD [OF W] note f = forestD [OF d(12)]
  have dirs: "dir_ok (took sb xs) os' xs a js \<and> (\<forall>c \<in> set js. child_ok (took sb xs) os' xs D c)" if D: "D a = Some js" for a js
    using again_dir [OF W D] again_child [OF W f(9) [OF D] in_all_inodes(2) [of D, OF D]] by blast
  have "meta_of (bsz sb) os' ` all_inodes D = meta_of (bsz sb) os ` all_inodes D" using again_meta(1) [OF W] by simp
  moreover have "inj_on (meta_of (bsz sb) os') (all_inodes D)" using f(10) again_meta(1) [OF W] by (simp cong: inj_on_cong)
  moreover have "2 \<in> all_inodes D" using f(6) by (auto simp: all_inodes_def)
  then have "meta_of (bsz sb) os' 2 = 1" using again_meta(1) [OF W] f(7) by simp
  ultimately show ?thesis using d(2,3) f(3,4,6,11,12) dirs by (simp add: forest_def)
qed

lemma again_table:
  assumes W: "written_again sb os zs xs D b ls os' l m"
  shows "table_of (bsz sb) os' D = table_of (bsz sb) os D"
proof
  fix a
  show "table_of (bsz sb) os' D a = table_of (bsz sb) os D a"
    using again_meta(2) [OF W in_all_inodes(2) [of D a]] by (cases "D a") (simp_all add: table_of_def)
qed

section \<open>Writing back\<close>

text \<open>The blocks \<open>ys\<close> of the array behind the nodeinfo: the file and what it takes, or what a directory takes.\<close>

lemma write_back:
  assumes f: "forest sb os (zs @ xs) D" and D: "D b = Some ls" and l: "l \<in> set ls" "m = meta_of (bsz sb) os l"
    and ys: "ys \<in> {l # zs, zs}" "ys \<noteq> []" "length ys < MAX_FILE_SIZE"
    and fl: "free_list (took sb xs) os5 xs" and mt: "mounted sb os5"
    and same: "\<forall>a < sb_blks sb. a \<noteq> 0 \<longrightarrow> disk (bsz sb) os5 a = disk (bsz sb) os a"
    and w: "buffers (bsz sb) (w_bufs w)" "w_pin_b w = b" "w_pinfo_b w = meta_of (bsz sb) os b"
      "\<forall>j \<le> length ys. w_blocks w j = Some (file_blocks (m # ys) j)"
      "dir_at (bsz sb) (meta_of (bsz sb) os b) (b_pinfo (w_bufs w)) (b_pin (w_bufs w)) ls"
      "name_of (b_pinfo (w_bufs w)) = name_of (disk (bsz sb) os (meta_of (bsz sb) os b))"
  obtains os6 where "write_inodes (length ys) w (took sb xs) os5 = Inr (0, os6)"
    "rewritten sb os (zs @ xs) D b ls os6 ls (insert l (insert m (set zs)))" "free_list (took sb xs) os6 xs"
    "disk (bsz sb) os6 0 = sb_bytes (took sb xs)" "disk (bsz sb) os6 m = b_info (w_bufs w)"
    "fld 0 (disk (bsz sb) os6 (hd ys)) = IMREG" "fld 16 (disk (bsz sb) os6 (hd ys)) = m"
    "ys = zs \<longrightarrow> disk (bsz sb) os6 l = disk (bsz sb) os l"
proof -
  let ?n = "bsz sb" and ?bl = "file_blocks (m # ys)" and ?c = "meta_of (bsz sb) os b"
  note B = in_all_inodes(1) [of D, OF D] and L = in_all_inodes(2) [of D, OF D l(1)]
  have lb: "l \<noteq> b" using one_parentD(2) [OF forestD(12) [OF f] D] l(1) by blast
  note fb = forest_blocks [OF f B] and fl_l = forest_blocks [OF f L]
    and fm = forest_meta [OF f L L] forest_meta [OF f L B] forest_meta [OF f B L] forest_meta [OF f B B]
  have zs: "distinct zs" "set zs \<inter> set xs = {}" "\<forall>z \<in> set zs. z < sb_blks sb \<and> z \<noteq> 0"
    using free_listD(3,4) [OF forestD(1) [OF f]] by auto
  have sub: "set (m # ys) \<subseteq> insert l (insert m (set zs))" using ys(1) by auto
  have dist: "distinct (m # ys)" using fl_l(3,6) fm zs(1) l(2) ys(1) by auto
  have bl_in: "?bl j \<in> set (m # ys)" if "j \<le> length ys" for j
    using that nth_mem [of j "m # ys"] by (simp add: file_blocks_def)
  have out: "a < sb_blks sb \<and> a \<noteq> 0 \<and> a \<noteq> ?c \<and> a \<noteq> b" if "a \<in> insert l (insert m (set zs))" for a
    using that zs(3) fl_l fb fm l(2) lb by auto
  have bl: "\<forall>j \<le> length ys. ?bl j < sb_blks (took sb xs) \<and> ?bl j \<noteq> 0 \<and> ?bl j \<noteq> ?c \<and> ?bl j \<noteq> b"
  proof (intro allI impI)
    fix j assume "j \<le> length ys"
    then have "?bl j \<in> insert l (insert m (set zs))" using bl_in sub by blast
    from out [OF this] show "?bl j < sb_blks (took sb xs) \<and> ?bl j \<noteq> 0 \<and> ?bl j \<noteq> ?c \<and> ?bl j \<noteq> b" by simp
  qed
  have inj: "\<forall>i j. i < j \<longrightarrow> j \<le> length ys \<longrightarrow> ?bl i \<noteq> ?bl j" using file_blocks_inj [OF dist] by simp
  have pc: "b \<noteq> ?c" "b \<noteq> 0" "?c \<noteq> 0" using fm(7) fb(1,4) by auto
  have one: "1 \<le> length ys" "?bl 0 = m" "?bl 1 = hd ys" using ys(2) by (cases ys; simp add: file_blocks_def)+
  have ys_len: "length ys < MAX_FILE_SIZE" by (rule ys(3))
  from write_inodes_at [of "took sb xs" os5 w "length ys" ?bl ?c b] mt w(1-4) one ys_len bl inj fb(2,5) pc obtain os6 in1 where
    w3: "write_inodes (length ys) w (took sb xs) os5 = Inr (0, os6)" "mounted sb os6" "disk ?n os6 0 = sb_bytes (took sb xs)"
    "disk ?n os6 ?c = b_pinfo (w_bufs w)" "disk ?n os6 b = b_pin (w_bufs w)" "disk ?n os6 m = b_info (w_bufs w)"
    "disk ?n os6 (hd ys) = in1" "fld 0 in1 = IMREG" "fld 16 in1 = m"
    "\<forall>a < sb_blks sb. a \<noteq> 0 \<longrightarrow> a \<noteq> ?c \<longrightarrow> a \<noteq> b \<longrightarrow> a \<notin> ?bl ` {..length ys} \<longrightarrow> disk ?n os6 a = disk ?n os5 a"
    by auto
  have keep: "disk ?n os6 a = disk ?n os5 a" if "a < sb_blks sb" "a \<noteq> 0" "a \<noteq> b" "a \<noteq> ?c" "a \<notin> set (m # ys)" for a
  proof -
    have "a \<notin> ?bl ` {..length ys}" using that(5) bl_in by blast
    with w3(10) that(1-4) show ?thesis by blast
  qed
  have "\<forall>a \<in> set xs. disk ?n os6 a = disk ?n os5 a"
  proof
    fix a assume a: "a \<in> set xs"
    then have "a \<notin> insert l (insert m (set zs))" "a \<noteq> ?c" "a \<noteq> b" using zs(2) fl_l(3,6) fb(3,6) l(2) by auto
    then have "a \<notin> set (m # ys)" "a \<noteq> ?c" "a \<noteq> b" using sub by blast+
    then show "disk ?n os6 a = disk ?n os5 a" using keep free_listD(4) [OF forestD(1) [OF f], of a] a by simp
  qed
  then have fl6: "free_list (took sb xs) os6 xs" using fl w3(2) chain_cong [of xs ?n os6 os5] by (simp add: free_list_def)
  have rest: "\<forall>a < sb_blks sb. a \<noteq> 0 \<longrightarrow> a \<noteq> b \<longrightarrow> a \<noteq> ?c \<longrightarrow> a \<notin> insert l (insert m (set zs)) \<longrightarrow> disk ?n os6 a = disk ?n os a"
  proof (intro allI impI)
    fix a assume a: "a < sb_blks sb" "a \<noteq> 0" "a \<noteq> b" "a \<noteq> ?c" "a \<notin> insert l (insert m (set zs))"
    then have "a \<notin> set (m # ys)" using sub by blast
    then show "disk ?n os6 a = disk ?n os a" using keep [of a] same a(1-4) by simp
  qed
  have R: "rewritten sb os (zs @ xs) D b ls os6 ls (insert l (insert m (set zs)))"
    unfolding rewritten_def using f D rest w3(4,5) w(5,6) by simp
  have "disk ?n os6 l = disk ?n os l" if "ys = zs"
  proof -
    have "l \<notin> set (m # ys)" using that fl_l(3) fm(1) l(2) by auto
    with keep [of l] same out [of l] show ?thesis by simp
  qed
  with w3(1,3,6-9) R fl6 show thesis by (intro that [of os6]) simp_all
qed

section \<open>A file of one or two blocks, and a directory\<close>

text \<open>The walk to the entry and what follows it.\<close>

lemma write_there:
  assumes f: "forest sb os xs D" and path: "subfolders_to_vector path = Inr (p @ [nm])"
    and nf: "\<not> meets_file (table_of (bsz sb) os D) 2 p" and loc: "locate (table_of (bsz sb) os D) 2 p = Some b"
    and D: "D b = Some ls"
  obtains w0 os3 where "writer_at sb os b ls w0" "same_disk sb os os3"
    "\<forall>w1 os4. write_walk (mem 6) (mem 7) [nm] w0 sb os3 = Inr (Some w1, sb, os4) \<longrightarrow> \<not> w_new w1 \<longrightarrow>
      fs_write_file mem path buf cnt sb os = rbind (space_old (\<lambda>i. mem (8 + i)) cnt w1 sb os4) (\<lambda>(r, sb, os).
         case r of None \<Rightarrow> Inr (-1, sb, os)
         | Some (new, w2) \<Rightarrow> rbind (write_inodes new w2 sb os) (\<lambda>(r, os). Inr (r, sb, os)))"
proof -
  obtain w os2 rs where st: "D 2 = Some rs" "writer_at sb os 2 rs w" "same_disk sb os os2"
    "fs_write_file mem path buf cnt sb os = rbind (write_walk (mem 6) (mem 7) (p @ [nm]) w sb os2) (\<lambda>(r, sb, os).
       case r of None \<Rightarrow> Inr (-1, sb, os)
       | Some w1 \<Rightarrow>
         rbind ((if w_new w1 then space_new else space_old) (\<lambda>i. mem (8 + i)) cnt w1 sb os) (\<lambda>(r, sb, os).
         case r of None \<Rightarrow> Inr (-1, sb, os)
         | Some (new, w2) \<Rightarrow> rbind (write_inodes new w2 sb os) (\<lambda>(r, os). Inr (r, sb, os))))"
    by (rule write_start [OF f path])
  from write_walk_ok [OF f st(2,1,3) nf, of "mem 6" "mem 7" nm] loc D obtain os3 w0 where
    "same_disk sb os os3" "writer_at sb os b ls w0"
    "write_walk (mem 6) (mem 7) (p @ [nm]) w sb os2 = write_walk (mem 6) (mem 7) [nm] w0 sb os3" by auto
  with st(4) show thesis by (intro that [of w0 os3]) simp_all
qed

lemma rewrite_short:
  assumes f: "forest sb os (zs @ xs) D" and path: "subfolders_to_vector path = Inr (p @ [nm])"
    and nf: "\<not> meets_file (table_of (bsz sb) os D) 2 p" and loc: "locate (table_of (bsz sb) os D) 2 p = Some b"
    and D: "D b = Some ls" and i: "entry_index (bsz sb) os nm ls = Some i" and l: "l = ls ! i" "m = meta_of (bsz sb) os l"
    and reg: "D l = None"
    and s: "s = fld 24 (disk (bsz sb) os l)" "s = 0 \<or> s < sb_blks sb \<and> fld 24 (disk (bsz sb) os s) = 0"
    and cnt: "cnt < 2 ^ 24" "bsz sb - 20 \<le> cnt" "cnt div (bsz sb - 20) = Suc (length zs)"
    and small: "length zs + 2 \<le> MAX_FILE_SIZE"
  shows "\<exists>os'. fs_write_file mem path buf cnt sb os = Inr (0, took sb xs, os') \<and> written_again sb os zs xs D b ls os' l m"
proof -
  let ?n = "bsz sb" and ?c = "meta_of (bsz sb) os b"
  note mt = forestD(2) [OF f]
  obtain w0 os3 where w0: "writer_at sb os b ls w0" "same_disk sb os os3"
    "\<forall>w1 os4. write_walk (mem 6) (mem 7) [nm] w0 sb os3 = Inr (Some w1, sb, os4) \<longrightarrow> \<not> w_new w1 \<longrightarrow>
      fs_write_file mem path buf cnt sb os = rbind (space_old (\<lambda>i. mem (8 + i)) cnt w1 sb os4) (\<lambda>(r, sb, os).
         case r of None \<Rightarrow> Inr (-1, sb, os)
         | Some (new, w2) \<Rightarrow> rbind (write_inodes new w2 sb os) (\<lambda>(r, os). Inr (r, sb, os)))"
    by (rule write_there [OF f path nf loc D, where mem = mem and buf = buf and cnt = cnt])
  from find_file [OF f w0(1) D w0(2) i l reg, of "mem 6" "mem 7"] obtain w1 os4 where
    w1: "write_walk (mem 6) (mem 7) [nm] w0 sb os3 = Inr (Some w1, sb, os4)" "same_disk sb os os4"
    "at_file sb os b ls l m w1" by blast
  then have old: "\<not> w_new w1" "dir_at ?n ?c (b_pinfo (w_bufs w1)) (b_pin (w_bufs w1)) ls"
    "name_of (b_pinfo (w_bufs w1)) = name_of (disk ?n os ?c)" "w_pin_b w1 = b" "w_pinfo_b w1 = ?c"
    "fld 0 (b_info (w_bufs w1)) = sb_blksz sb - 20" "named (b_info (w_bufs w1))"
    "name_of (b_info (w_bufs w1)) = name_of (disk ?n os m)" by (simp_all add: at_file_def)
  obtain w2 os5 where
    w2: "space_old (\<lambda>i. mem (8 + i)) cnt w1 sb os4 = Inr (Some (Suc (length zs), w2), took sb xs, os5)"
    "free_list (took sb xs) os5 xs" "mounted sb os5" "\<forall>a < sb_blks sb. a \<noteq> 0 \<longrightarrow> disk ?n os5 a = disk ?n os a"
    "buffers ?n (w_bufs w2)" "b_pin (w_bufs w2) = b_pin (w_bufs w1)" "b_pinfo (w_bufs w2) = b_pinfo (w_bufs w1)"
    "b_info (w_bufs w2) = b_info (w_bufs w1)" "w_pin_b w2 = w_pin_b w1" "w_pinfo_b w2 = w_pinfo_b w1"
    "\<forall>j \<le> Suc (length zs). w_blocks w2 j = Some (file_blocks (m # l # zs) j)"
    by (rule space_old_ok [OF free_list_same [OF forestD(1) [OF f] w1(2)] w1(2) mt w1(3) s cnt small, of "\<lambda>i. mem (8 + i)"])
  have lin: "l \<in> set ls" using entry_index_Some [OF i] l(1) by simp
  obtain os6 where r: "write_inodes (length (l # zs)) w2 (took sb xs) os5 = Inr (0, os6)"
    "rewritten sb os (zs @ xs) D b ls os6 ls (insert l (insert m (set zs)))" "free_list (took sb xs) os6 xs"
    "disk ?n os6 0 = sb_bytes (took sb xs)" "disk ?n os6 m = b_info (w_bufs w2)"
    "fld 0 (disk ?n os6 (hd (l # zs))) = IMREG" "fld 16 (disk ?n os6 (hd (l # zs))) = m"
    by (rule write_back [OF f D lin l(2) _ _ _ w2(2-5), of "l # zs"]) (use w2(6,7,9-11) old small in simp_all)
  have "fs_write_file mem path buf cnt sb os = Inr (0, took sb xs, os6)"
    using w0(3) [rule_format, OF w1(1) old(1)] w2(1) r(1) by simp
  moreover have "written_again sb os zs xs D b ls os6 l m"
    unfolding written_again_def using r(2-7) lin l(2) w2(8) old(6-8) reg by simp
  ultimately show ?thesis by blast
qed

lemma rewrite_folder:
  assumes f: "forest sb os (zs @ xs) D" and path: "subfolders_to_vector path = Inr (p @ [nm])"
    and nf: "\<not> meets_file (table_of (bsz sb) os D) 2 p" and loc: "locate (table_of (bsz sb) os D) 2 p = Some b"
    and D: "D b = Some ls" and i: "entry_index (bsz sb) os nm ls = Some i" and l: "l = ls ! i" and dir: "D l = Some ks"
    and cnt: "cnt < 2 ^ 24" "bsz sb - 20 \<le> cnt" "cnt div (bsz sb - 20) = length zs"
    and small: "zs \<noteq> []" "length zs < MAX_FILE_SIZE"
  shows "\<exists>os'. fs_write_file mem path buf cnt sb os = Inr (0, took sb xs, os') \<and>
    written_again sb os zs xs D b ls os' l (meta_of (bsz sb) os l)"
proof -
  let ?n = "bsz sb" and ?c = "meta_of (bsz sb) os b" and ?m = "meta_of (bsz sb) os l"
  obtain w0 os3 where w0: "writer_at sb os b ls w0" "same_disk sb os os3"
    "\<forall>w1 os4. write_walk (mem 6) (mem 7) [nm] w0 sb os3 = Inr (Some w1, sb, os4) \<longrightarrow> \<not> w_new w1 \<longrightarrow>
      fs_write_file mem path buf cnt sb os = rbind (space_old (\<lambda>i. mem (8 + i)) cnt w1 sb os4) (\<lambda>(r, sb, os).
         case r of None \<Rightarrow> Inr (-1, sb, os)
         | Some (new, w2) \<Rightarrow> rbind (write_inodes new w2 sb os) (\<lambda>(r, os). Inr (r, sb, os)))"
    by (rule write_there [OF f path nf loc D, where mem = mem and buf = buf and cnt = cnt])
  from find_folder [OF f w0(1) D w0(2) i l dir, of "mem 6" "mem 7"] obtain w1 os4 where
    w1: "write_walk (mem 6) (mem 7) [nm] w0 sb os3 = Inr (Some w1, sb, os4)" "same_disk sb os os4"
    "at_folder sb os b ls l ks w1" by blast
  then have old: "\<not> w_new w1" "dir_at ?n ?c (b_pinfo (w_bufs w1)) (b_pin (w_bufs w1)) ls"
    "name_of (b_pinfo (w_bufs w1)) = name_of (disk ?n os ?c)" "w_pin_b w1 = b" "w_pinfo_b w1 = ?c"
    "dir_at ?n ?m (b_info (w_bufs w1)) (b_in (w_bufs w1)) ks" "name_of (b_info (w_bufs w1)) = name_of (disk ?n os ?m)"
    by (simp_all add: at_folder_def at_dir_def)
  have one: "length zs + 1 \<le> MAX_FILE_SIZE" using small(2) by simp
  obtain w2 os5 where
    w2: "space_old (\<lambda>i. mem (8 + i)) cnt w1 sb os4 = Inr (Some (length zs, w2), took sb xs, os5)"
    "free_list (took sb xs) os5 xs" "mounted sb os5" "\<forall>a < sb_blks sb. a \<noteq> 0 \<longrightarrow> disk ?n os5 a = disk ?n os4 a"
    "buffers ?n (w_bufs w2)" "b_pin (w_bufs w2) = b_pin (w_bufs w1)" "b_pinfo (w_bufs w2) = b_pinfo (w_bufs w1)"
    "b_info (w_bufs w2) = b_info (w_bufs w1)" "w_pin_b w2 = w_pin_b w1" "w_pinfo_b w2 = w_pinfo_b w1"
    "\<forall>j \<le> length zs. w_blocks w2 j = Some (file_blocks (?m # zs) j)"
    by (rule space_old_folder [OF free_list_same [OF forestD(1) [OF f] w1(2)] w1(3) cnt one, of "\<lambda>i. mem (8 + i)"])
  have same: "\<forall>a < sb_blks sb. a \<noteq> 0 \<longrightarrow> disk ?n os5 a = disk ?n os a" using w2(4) same_diskD [OF w1(2)] by simp
  have lin: "l \<in> set ls" using entry_index_Some [OF i] l by simp
  obtain os6 where r: "write_inodes (length zs) w2 (took sb xs) os5 = Inr (0, os6)"
    "rewritten sb os (zs @ xs) D b ls os6 ls (insert l (insert ?m (set zs)))" "free_list (took sb xs) os6 xs"
    "disk ?n os6 0 = sb_bytes (took sb xs)" "disk ?n os6 ?m = b_info (w_bufs w2)"
    "zs = zs \<longrightarrow> disk ?n os6 l = disk ?n os l"
    by (rule write_back [OF f D lin refl _ small w2(2,3) same w2(5)]) (use w2(6,7,9-11) old in simp_all)
  have run: "fs_write_file mem path buf cnt sb os = Inr (0, took sb xs, os6)"
    using w0(3) [rule_format, OF w1(1) old(1)] w2(1) r(1) by simp
  note d = root_dirD [OF dir_okD(7) [OF forestD(8) [OF f dir]]] and o = root_dirD [OF old(6)]
  have "dir_at ?n ?m (b_info (w_bufs w1)) (disk ?n os l) ks" using d o by (simp add: dir_at_def)
  then have "written_again sb os zs xs D b ls os6 l ?m"
    unfolding written_again_def using r(2-6) lin w2(8) old(7) o(4) d(2) dir by simp
  with run show ?thesis by blast
qed

end
