(* ===== verification/Fs_Tree_Correct.thy ===== *)
theory Fs_Tree_Correct
  imports Fs_Tree_Remove Fs_Tree_Again Fs_Catalog_Correct
begin

text \<open>
  Every operation on a path is a step of the table of inodes.
\<close>

section \<open>The table that an image holds\<close>

definition links_at :: "mount \<Rightarrow> 64 word \<Rightarrow> 64 word list" where
  "links_at m b = (let (sb, os) = m in map (\<lambda>i. fld (32 + 8 * i) (disk (bsz sb) os b))
     [0..<unat (fld 0 (disk (bsz sb) os (meta_of (bsz sb) os b)))])"

definition disk_table :: "mount \<Rightarrow> inode_table" where
  "disk_table m b = (let (sb, os) = m in
     if fld 0 (disk (bsz sb) os b) = IMDIR then Some (map (entry_at (bsz sb) os) (links_at m b)) else None)"

lemma disk_table_at:
  assumes f: "forest sb os xs D" and b: "b \<in> all_inodes D"
  shows "disk_table (sb, os) b = table_of (bsz sb) os D b"
proof (cases "D b")
  case None
  with b obtain c ls where "D c = Some ls" "b \<in> set ls" by (auto simp: all_inodes_def ran_def)
  from child_okD(3) [OF forestD(9) [OF f this]] None show ?thesis by (simp add: disk_table_def table_of_def)
next
  case (Some ls)
  note r = root_dirD [OF dir_okD(7) [OF forestD(8) [OF f Some]]]
  have "links_at (sb, os) b = ls"
    unfolding links_at_def Let_def prod.case r(5) by (rule nth_equalityI) (simp_all add: r(7))
  then show ?thesis using Some r(1) by (simp add: disk_table_def table_of_def)
qed

text \<open>Tables that agree on the inodes of one of them lead a path the same way.\<close>

lemma tables_agree:
  assumes "\<And>a. a \<in> inodes_of A \<Longrightarrow> B a = A a" and "d \<in> inodes_of A"
  shows "locate B d p = locate A d p" "meets_file B d p = meets_file A d p" "last_position B d p = last_position A d p"
proof -
  have "locate B d p = locate A d p \<and> meets_file B d p = meets_file A d p \<and> last_position B d p = last_position A d p"
    using assms(2)
  proof (induction p arbitrary: d)
    case Nil
    then show ?case by (simp add: assms(1) meets_file.simps(1) last_position.simps(1))
  next
    case (Cons nm p)
    show ?case
    proof (cases "A d")
      case None
      then show ?thesis using assms(1) [OF Cons.prems] by (simp add: locate.simps meets_file.simps last_position.simps)
    next
      case (Some E)
      have "snd (snd (E ! i)) \<in> inodes_of A" if "find_index (\<lambda>e. fst e = nm) E = Some i" for i
      proof -
        have "E ! i \<in> set E" using that by (simp add: find_index_Some)
        then show ?thesis using Some by (auto simp: inodes_of_def ran_def)
      qed
      then show ?thesis using Some assms(1) [OF Cons.prems] Cons.IH
        by (cases "find_index (\<lambda>e. fst e = nm) E") (simp_all add: locate.simps meets_file.simps last_position.simps del: find_index_None)
    qed
  qed
  then show "locate B d p = locate A d p" "meets_file B d p = meets_file A d p" "last_position B d p = last_position A d p"
    by simp_all
qed

lemma disk_paths:
  assumes f: "forest sb os xs D"
  shows "locate (disk_table (sb, os)) 2 p = locate (table_of (bsz sb) os D) 2 p"
    "meets_file (disk_table (sb, os)) 2 p = meets_file (table_of (bsz sb) os D) 2 p"
    "last_position (disk_table (sb, os)) 2 p = last_position (table_of (bsz sb) os D) 2 p"
proof -
  have "2 \<in> inodes_of (table_of (bsz sb) os D)" using forestD(6) [OF f] by (auto simp: table_inodes all_inodes_def)
  then show "locate (disk_table (sb, os)) 2 p = locate (table_of (bsz sb) os D) 2 p"
    "meets_file (disk_table (sb, os)) 2 p = meets_file (table_of (bsz sb) os D) 2 p"
    "last_position (disk_table (sb, os)) 2 p = last_position (table_of (bsz sb) os D) 2 p"
    by (rule tables_agree [rotated]; simp add: table_inodes disk_table_at [OF f])+
qed

section \<open>What is asked of a caller\<close>

text \<open>
  No step of a path goes through a file; names and lists fit their buffers and the directory has room for
  a link; there are blocks enough; files hold at least a block's worth of bytes, and those that exist already have
  no more than two blocks.  The variable
  \<open>k\<close> that is never assigned happens to be the index of the last directory on the way, for the functions
  that remove also that of the entry, and is the index of some link within a block.
\<close>

definition new_place :: "mount \<Rightarrow> byte list \<Rightarrow> int \<Rightarrow> bool \<Rightarrow> bool" where
  "new_place m path k unused \<longleftrightarrow> (\<exists>p nm. subfolders_to_vector path = Inr (p @ [nm]) \<and>
     \<not> meets_file (disk_table m) 2 p \<and> 0 \<notin> set nm \<and> length nm + 65 \<le> bsz (fst m) \<and>
     (\<forall>i. last_position (disk_table m) 2 p = Some i \<longrightarrow> unused \<or> k = int i) \<and>
     (\<forall>d E. locate (disk_table m) 2 p = Some d \<longrightarrow> disk_table m d = Some E \<longrightarrow> 40 + 8 * length E \<le> bsz (fst m) \<and>
        (unused \<longrightarrow> find_index (\<lambda>e. fst e = nm) E = None)))"

definition short_file :: "mount \<Rightarrow> 64 word \<Rightarrow> bool" where
  "short_file m l \<longleftrightarrow> (let (sb, os) = m; s = fld 24 (disk (bsz sb) os l) in
     s = 0 \<or> s < sb_blks sb \<and> fld 24 (disk (bsz sb) os s) = 0)"

definition old_place :: "mount \<Rightarrow> byte list \<Rightarrow> bool" where
  "old_place m path \<longleftrightarrow> (\<exists>p nm. subfolders_to_vector path = Inr (p @ [nm]) \<and> \<not> meets_file (disk_table m) 2 p \<and>
     (\<exists>d E i. locate (disk_table m) 2 p = Some d \<and> disk_table m d = Some E \<and> find_index (\<lambda>e. fst e = nm) E = Some i \<and>
        (fst (snd (E ! i)) = Regular \<longrightarrow> short_file m (snd (snd (E ! i))))))"

definition removable :: "mount \<Rightarrow> byte list \<Rightarrow> int \<Rightarrow> bool" where
  "removable m path k \<longleftrightarrow> (\<exists>p nm. subfolders_to_vector path = Inr (p @ [nm]) \<and>
     \<not> meets_file (disk_table m) 2 p \<and> (p \<noteq> [] \<longrightarrow> 0 \<le> k \<and> 40 + 8 * nat k \<le> bsz (fst m)) \<and>
     (\<forall>i. last_position (disk_table m) 2 p = Some i \<longrightarrow> k = int i) \<and>
     (\<forall>d E i. locate (disk_table m) 2 p = Some d \<longrightarrow> disk_table m d = Some E \<longrightarrow>
        find_index (\<lambda>e. fst e = nm) E = Some i \<longrightarrow> k = int i))"

fun tree_allowed :: "found \<times> fs_op \<Rightarrow> mount \<Rightarrow> bool" where
  "tree_allowed ((mem, k), Mkdir path) m \<longleftrightarrow> new_place m path k False \<and> 2 \<le> unat (sb_freeblks (fst m))"
| "tree_allowed ((mem, k), Write_File path buf cnt) m \<longleftrightarrow>
     cnt < 2 ^ 24 \<and> bsz (fst m) - 20 \<le> cnt \<and> cnt div (bsz (fst m) - 20) < MAX_FILE_SIZE \<and>
     (new_place m path k True \<and> cnt div (bsz (fst m) - 20) + 2 \<le> unat (sb_freeblks (fst m)) \<or>
      old_place m path \<and> cnt div (bsz (fst m) - 20) \<le> unat (sb_freeblks (fst m)))"
| "tree_allowed ((mem, k), List_Dir path) m \<longleftrightarrow> (\<exists>p. subfolders_to_vector path = Inr p \<and>
     \<not> meets_file (disk_table m) 2 p \<and>
     (\<forall>d E. locate (disk_table m) 2 p = Some d \<longrightarrow> disk_table m d = Some E \<longrightarrow> length (tree_listing E) < MAX_PATH_NAME))"
| "tree_allowed ((mem, k), Unlink path) m \<longleftrightarrow> removable m path k"
| "tree_allowed ((mem, k), Rmdir path) m \<longleftrightarrow> removable m path k"

definition holds_tree :: "nat \<Rightarrow> mount \<Rightarrow> inode_table \<times> nat \<Rightarrow> bool" where
  "holds_tree n m c \<longleftrightarrow> (let (sb, os) = m; (A, f) = c in
     \<exists>xs D. forest sb os xs D \<and> length xs = f \<and> bsz sb = n \<and> A = table_of n os D)"

lemma holds_treeD:
  assumes "holds_tree n (sb, os) (A, f)"
  obtains xs D where "forest sb os xs D" and "length xs = f" and "bsz sb = n" and "A = table_of n os D"
  using assms by (auto simp: holds_tree_def)

lemma holds_treeI: "forest sb os xs D \<Longrightarrow> holds_tree (bsz sb) (sb, os) (table_of (bsz sb) os D, length xs)"
  by (auto simp: holds_tree_def)

lemma place_inode:
  assumes f: "forest sb os xs D" and D: "D d = Some ls"
  shows "disk_table (sb, os) d = Some (map (entry_at (bsz sb) os) ls)"
  using disk_table_at [OF f in_all_inodes(1) [of D, OF D]] table_at [of D, OF D] by simp

lemma new_placeD:
  assumes np: "new_place (sb, os) path k unused" and f: "forest sb os xs D"
  obtains p nm where "subfolders_to_vector path = Inr (p @ [nm])" "\<not> meets_file (table_of (bsz sb) os D) 2 p"
    "0 \<notin> set nm" "length nm + 65 \<le> bsz sb"
    "\<forall>i. last_position (table_of (bsz sb) os D) 2 p = Some i \<longrightarrow> unused \<or> k = int i"
    "\<And>d. locate (table_of (bsz sb) os D) 2 p = Some d \<Longrightarrow> \<exists>ls. D d = Some ls \<and> 40 + 8 * length ls \<le> bsz sb \<and>
      (unused \<longrightarrow> entry_index (bsz sb) os nm ls = None)"
proof -
  from np obtain p nm where r: "subfolders_to_vector path = Inr (p @ [nm])" "\<not> meets_file (disk_table (sb, os)) 2 p"
    "0 \<notin> set nm" "length nm + 65 \<le> bsz sb" "\<forall>i. last_position (disk_table (sb, os)) 2 p = Some i \<longrightarrow> unused \<or> k = int i"
    "\<forall>d E. locate (disk_table (sb, os)) 2 p = Some d \<longrightarrow> disk_table (sb, os) d = Some E \<longrightarrow>
      40 + 8 * length E \<le> bsz sb \<and> (unused \<longrightarrow> find_index (\<lambda>e. fst e = nm) E = None)"
    unfolding new_place_def by auto
  note t = disk_paths [OF f]
  show thesis
  proof (rule that [OF r(1) _ r(3,4)])
    show "\<not> meets_file (table_of (bsz sb) os D) 2 p"
      "\<forall>i. last_position (table_of (bsz sb) os D) 2 p = Some i \<longrightarrow> unused \<or> k = int i" using r(2,5) by (simp_all add: t)
    fix d assume d: "locate (table_of (bsz sb) os D) 2 p = Some d"
    from locate_directory [OF _ d] r(2) obtain ls where D: "D d = Some ls" by (auto simp: t table_of_def)
    with r(6) d place_inode [OF f D] show "\<exists>ls. D d = Some ls \<and> 40 + 8 * length ls \<le> bsz sb \<and>
        (unused \<longrightarrow> entry_index (bsz sb) os nm ls = None)" by (auto simp: t entry_index_def entry_at_def)
  qed
qed

lemma table_entry:
  assumes "D d = Some ls" and "i < length ls"
  shows "find_index (\<lambda>e. fst e = nm) (map (entry_at n os) ls) = entry_index n os nm ls"
    "snd (snd (map (entry_at n os) ls ! i)) = ls ! i"
    "table_of n os D l = Some [] \<longleftrightarrow> D l = Some []"
  using assms by (auto simp: find_entry entry_index_def entry_at_def table_of_def)

lemma removableD:
  assumes r: "removable (sb, os) path k" and f: "forest sb os xs D"
  obtains p nm where "subfolders_to_vector path = Inr (p @ [nm])" "lucky_walk sb os D p nm k"
proof -
  from r obtain p nm where p: "subfolders_to_vector path = Inr (p @ [nm])" "\<not> meets_file (disk_table (sb, os)) 2 p"
    "p \<noteq> [] \<longrightarrow> 0 \<le> k \<and> 40 + 8 * nat k \<le> bsz sb" "\<forall>i. last_position (disk_table (sb, os)) 2 p = Some i \<longrightarrow> k = int i"
    "\<forall>d E i. locate (disk_table (sb, os)) 2 p = Some d \<longrightarrow> disk_table (sb, os) d = Some E \<longrightarrow>
      find_index (\<lambda>e. fst e = nm) E = Some i \<longrightarrow> k = int i"
    unfolding removable_def by auto
  have "k = int i" if "locate (table_of (bsz sb) os D) 2 p = Some d" "D d = Some ks" "entry_index (bsz sb) os nm ks = Some i"
    for d ks i
    using p(5) [rule_format, of d "map (entry_at (bsz sb) os) ks" i] that place_inode [OF f that(2)]
      table_entry(1) [of D, OF that(2) entry_index_Some [OF that(3)]] by (simp add: disk_paths [OF f])
  with p(2-4) have "lucky_walk sb os D p nm k" by (simp add: lucky_walk_def disk_paths [OF f])
  with p(1) show thesis by (rule that)
qed

lemma holds_tree_same:
  assumes "forest sb os xs D" and "same_disk sb os os'"
  shows "holds_tree (bsz sb) (sb, os') (table_of (bsz sb) os D, length xs)"
  using holds_treeI [OF forest_same(1) [OF assms]] forest_same(2) [OF assms] by simp

lemma holds_tree_grown:
  assumes N: "new_entry sb os zs xs D b ls os' x y nm kd"
  shows "holds_tree (bsz sb) (took sb xs, os')
    (if kd = Folder then (table_of (bsz sb) os D)(b \<mapsto> map (entry_at (bsz sb) os) ls @ [(nm, Folder, y)], y \<mapsto> [])
     else (table_of (bsz sb) os D)(b \<mapsto> map (entry_at (bsz sb) os) ls @ [(nm, Regular, y)]), length xs)"
  using holds_treeI [OF grow_forest [OF N]] grow_table [OF N] by simp

lemma holds_tree_shrunk:
  assumes G: "gone_entry sb os xs D b ls os' i l m"
  shows "holds_tree (bsz sb) (took sb (l # m # xs), os')
    ((table_of (bsz sb) os D)(b \<mapsto> drop_nth i (map (entry_at (bsz sb) os) ls), l := None), length xs + 2)"
  using holds_treeI [OF shrink_forest [OF G]] shrink_table [OF G] by simp

section \<open>The steps\<close>

lemma tree_mkdir_step:
  assumes f: "forest sb os xs D" and ok: "tree_allowed ((mem, k), Mkdir path) (sb, os)"
  shows "\<exists>l m' c'. fs_run ((mem, k), Mkdir path) (sb, os) = Inr (l, m') \<and>
    tree_spec (bsz sb) (table_of (bsz sb) os D, length xs) l c' \<and> holds_tree (bsz sb) m' c'"
proof -
  let ?A = "table_of (bsz sb) os D"
  from ok have np: "new_place (sb, os) path k False" and two: "2 \<le> length xs"
    using free_listD(5) [OF forestD(1) [OF f]] by simp_all
  obtain p nm where nm: "subfolders_to_vector path = Inr (p @ [nm])" "\<not> meets_file ?A 2 p" "0 \<notin> set nm"
    "length nm + 65 \<le> bsz sb" "\<forall>i. last_position ?A 2 p = Some i \<longrightarrow> k = int i"
    "\<And>d. locate ?A 2 p = Some d \<Longrightarrow> \<exists>ls. D d = Some ls \<and> 40 + 8 * length ls \<le> bsz sb"
    by (rule new_placeD [OF np f]) auto
  show ?thesis
  proof (cases "locate ?A 2 p")
    case None
    from mkdir_tree_missing [OF f nm(1,2) None nm(5), of mem] obtain os' where
      r: "fs_mkdir mem k path sb os = Inr (-1, sb, os')" "same_disk sb os os'" "errno os' = ENOENT" by blast
    from tree_no_parent [OF nm(1) None, of "Mkdir path"] holds_tree_same [OF f r(2)] r(1,3)
    show ?thesis by (auto simp: answered_def)
  next
    case (Some d)
    from nm(6) [OF Some] obtain ls where D: "D d = Some ls" and room: "40 + 8 * length ls \<le> bsz sb" by blast
    from two obtain x y zs where xs: "xs = x # y # zs" by (cases xs; cases "tl xs") auto
    from mkdir_tree_ok [OF f [unfolded xs] nm(1,2) Some nm(5) D nm(3,4) room, of mem] obtain os' where
      r: "fs_mkdir mem k path sb os = Inr (0, took sb zs, os')" and N: "new_entry sb os [x, y] zs D d ls os' x y nm Folder"
      by blast
    have "tree_spec (bsz sb) (?A, length xs) (Mkdir path, Returned 0 None)
        (?A(d \<mapsto> map (entry_at (bsz sb) os) ls @ [(nm, Folder, y)], y \<mapsto> []), length xs - 2)"
      using fresh_blocks(1) [OF N] two by (intro tree_made [OF nm(1) Some table_at [of D, OF D]]) (simp_all add: table_inodes)
    with holds_tree_grown [OF N] r xs show ?thesis by (auto simp: answered_def)
  qed
qed

lemma tree_write_new_step:
  assumes f: "forest sb os xs D" and np: "new_place (sb, os) path k True"
    and cnt: "cnt < 2 ^ 24" "bsz sb - 20 \<le> cnt" "cnt div (bsz sb - 20) + 2 \<le> length xs" "cnt div (bsz sb - 20) < MAX_FILE_SIZE"
  shows "\<exists>l m' c'. fs_run ((mem, k), Write_File path buf cnt) (sb, os) = Inr (l, m') \<and>
    tree_spec (bsz sb) (table_of (bsz sb) os D, length xs) l c' \<and> holds_tree (bsz sb) m' c'"
proof -
  let ?A = "table_of (bsz sb) os D" and ?c = "cnt div (bsz sb - 20)"
  obtain p nm where nm: "subfolders_to_vector path = Inr (p @ [nm])" "\<not> meets_file ?A 2 p" "0 \<notin> set nm"
    "length nm + 65 \<le> bsz sb" "\<And>d. locate ?A 2 p = Some d \<Longrightarrow> \<exists>ls. D d = Some ls \<and> 40 + 8 * length ls \<le> bsz sb \<and>
      entry_index (bsz sb) os nm ls = None"
    by (rule new_placeD [OF np f]) auto
  show ?thesis
  proof (cases "locate ?A 2 p")
    case None
    from write_tree_missing [OF f nm(1,2) None, of mem buf cnt] obtain os' where
      r: "fs_write_file mem path buf cnt sb os = Inr (-1, sb, os')" "same_disk sb os os'" "errno os' = ENOENT" by blast
    from tree_no_parent [OF nm(1) None, of "Write_File path buf cnt" buf cnt "bsz sb" "length xs"] holds_tree_same [OF f r(2)] r(1,3)
    show ?thesis by (auto simp: answered_def)
  next
    case (Some d)
    from nm(5) [OF Some] obtain ls where D: "D d = Some ls" and room: "40 + 8 * length ls \<le> bsz sb"
      and new: "entry_index (bsz sb) os nm ls = None" by blast
    from new have out: "nm \<notin> fst ` set (entries sb os ls)" by (auto simp: entry_index_def entries_def)
    have n: "20 < bsz sb" using mountedD(3) [OF forestD(2) [OF f]] by simp
    then have c1: "1 \<le> ?c" using cnt(2) by (simp add: div_greater_zero_iff Suc_le_eq)
    from cnt(3) obtain x y rest where xs: "xs = x # y # rest" by (cases xs; cases "tl xs") auto
    let ?zs = "take (?c - 1) rest" and ?left = "drop (?c - 1) rest"
    have len: "length ?zs = ?c - 1" "?left \<noteq> []" using cnt(3) xs c1 by simp_all
    have f2: "forest sb os (x # y # ?zs @ ?left) D" using f xs by simp
    have blks: "count_blocks cnt sb = Inr (Suc (length ?zs))"
      using count_blocks_floor [OF cnt(1) n] len(1) c1 by simp
    have small: "length ?zs + 2 \<le> MAX_FILE_SIZE" using cnt(4) len(1) c1 by simp
    from write_tree_ok [OF f2 nm(1,2) Some D nm(4,3) out room blks len(2) small, of mem buf] obtain os' where
      r: "fs_write_file mem path buf cnt sb os = Inr (0, took sb ?left, os')"
      and N: "new_entry sb os (x # y # ?zs) ?left D d ls os' x y nm Regular" by blast
    have "tree_spec (bsz sb) (?A, length xs) (Write_File path buf cnt, Returned 0 None)
        (?A(d \<mapsto> map (entry_at (bsz sb) os) ls @ [(nm, Regular, y)]), length xs - (?c + 1))"
      using fresh_blocks(1) [OF N] cnt(3) new
      by (intro tree_wrote [OF nm(1) Some table_at [of D, OF D]]) (simp_all add: table_inodes find_entry entry_index_def)
    moreover have "length ?left = length xs - (?c + 1)" using xs c1 by simp
    ultimately show ?thesis using holds_tree_grown [OF N] r by (auto simp: answered_def)
  qed
qed

lemma old_placeD:
  assumes op: "old_place (sb, os) path" and f: "forest sb os xs D"
  obtains p nm d ls i where "subfolders_to_vector path = Inr (p @ [nm])" "\<not> meets_file (table_of (bsz sb) os D) 2 p"
    "locate (table_of (bsz sb) os D) 2 p = Some d" "D d = Some ls" "entry_index (bsz sb) os nm ls = Some i"
    "D (ls ! i) = None \<longrightarrow> fst (snd (entry_at (bsz sb) os (ls ! i))) = Regular \<and> short_file (sb, os) (ls ! i)"
    "D (ls ! i) \<noteq> None \<longrightarrow> fst (snd (entry_at (bsz sb) os (ls ! i))) = Folder"
proof -
  from op obtain p nm d E i where r: "subfolders_to_vector path = Inr (p @ [nm])" "\<not> meets_file (disk_table (sb, os)) 2 p"
    "locate (disk_table (sb, os)) 2 p = Some d" "disk_table (sb, os) d = Some E" "find_index (\<lambda>e. fst e = nm) E = Some i"
    "fst (snd (E ! i)) = Regular \<longrightarrow> short_file (sb, os) (snd (snd (E ! i)))"
    unfolding old_place_def by auto
  note r' = r(2,3) [unfolded disk_paths [OF f]]
  from locate_directory [OF r'] obtain ls where D: "D d = Some ls" by (auto simp: table_of_def)
  then have E: "E = map (entry_at (bsz sb) os) ls" using r(4) place_inode [OF f D] by simp
  have i: "i < length ls" using r(5) by (simp add: find_index_Some E)
  have "fst (snd (entry_at (bsz sb) os (ls ! i))) = (if D (ls ! i) = None then Regular else Folder)"
    using child_okD(3) [OF forestD(9) [OF f D], of "ls ! i"] i by (auto simp: entry_at_def entry_of_def)
  with r(1,5,6) r' D i show thesis
    by (intro that [of p nm d ls i]) (simp_all add: E find_entry entry_index_def entry_at_def split: if_splits)
qed

lemma tree_write_old_step:
  assumes f: "forest sb os xs D" and op: "old_place (sb, os) path"
    and cnt: "cnt < 2 ^ 24" "bsz sb - 20 \<le> cnt" "cnt div (bsz sb - 20) \<le> length xs" "cnt div (bsz sb - 20) < MAX_FILE_SIZE"
  shows "\<exists>l m' c'. fs_run ((mem, k), Write_File path buf cnt) (sb, os) = Inr (l, m') \<and>
    tree_spec (bsz sb) (table_of (bsz sb) os D, length xs) l c' \<and> holds_tree (bsz sb) m' c'"
proof -
  let ?A = "table_of (bsz sb) os D" and ?c = "cnt div (bsz sb - 20)"
  obtain p nm d ls i where r: "subfolders_to_vector path = Inr (p @ [nm])" "\<not> meets_file ?A 2 p" "locate ?A 2 p = Some d"
    "D d = Some ls" "entry_index (bsz sb) os nm ls = Some i"
    "D (ls ! i) = None \<longrightarrow> fst (snd (entry_at (bsz sb) os (ls ! i))) = Regular \<and> short_file (sb, os) (ls ! i)"
    "D (ls ! i) \<noteq> None \<longrightarrow> fst (snd (entry_at (bsz sb) os (ls ! i))) = Folder" by (rule old_placeD [OF op f])
  note i = entry_index_Some [OF r(5)]
  note e = table_entry [of D, OF r(4) i]
  have "20 < bsz sb" using mountedD(3) [OF forestD(2) [OF f]] by simp
  then have c1: "1 \<le> ?c" using cnt(2) by (simp add: div_greater_zero_iff Suc_le_eq)
  have finish: ?thesis if w: "fs_write_file mem path buf cnt sb os = Inr (0, took sb (drop k' xs), os')"
    "written_again sb os (take k' xs) (drop k' xs) D d ls os' (ls ! i) (meta_of (bsz sb) os (ls ! i))"
    and spec: "tree_spec (bsz sb) (?A, length xs) (Write_File path buf cnt, Returned 0 None) (?A, length xs - k')" for k' os'
  proof -
    have "holds_tree (bsz sb) (took sb (drop k' xs), os') (?A, length xs - k')"
      using holds_treeI [OF again_forest [OF w(2)]] again_table [OF w(2)] by simp
    then show ?thesis using w(1) spec by (auto simp: answered_def)
  qed
  have split: "forest sb os (take k' xs @ drop k' xs) D" for k' using f by simp
  show ?thesis
  proof (cases "D (ls ! i)")
    case None
    let ?s = "fld 24 (disk (bsz sb) os (ls ! i))"
    have s: "?s = 0 \<or> ?s < sb_blks sb \<and> fld 24 (disk (bsz sb) os ?s) = 0"
      using r(6) None by (simp add: short_file_def Let_def)
    have len: "?c = Suc (length (take (?c - 1) xs))" using cnt(3) c1 by simp
    have small: "length (take (?c - 1) xs) + 2 \<le> MAX_FILE_SIZE" using cnt(4) len by simp
    from rewrite_short [OF split r(1-5) refl refl None refl s cnt(1,2) len small, of mem buf] obtain os' where
      w: "fs_write_file mem path buf cnt sb os = Inr (0, took sb (drop (?c - 1) xs), os')"
      "written_again sb os (take (?c - 1) xs) (drop (?c - 1) xs) D d ls os' (ls ! i) (meta_of (bsz sb) os (ls ! i))" by blast
    show ?thesis
      by (rule finish [OF w], rule tree_rewrote [OF r(1,3) table_at [of D, OF r(4)], of i])
        (use e r(5) r(6) None i c1 cnt(3) in simp_all)
  next
    case (Some ks)
    have len: "?c = length (take ?c xs)" "take ?c xs \<noteq> []" "length (take ?c xs) < MAX_FILE_SIZE"
      using cnt(3,4) c1 by auto
    from rewrite_folder [OF split r(1-5) refl Some cnt(1,2) len, of mem buf] obtain os' where
      w: "fs_write_file mem path buf cnt sb os = Inr (0, took sb (drop ?c xs), os')"
      "written_again sb os (take ?c xs) (drop ?c xs) D d ls os' (ls ! i) (meta_of (bsz sb) os (ls ! i))" by blast
    show ?thesis
      by (rule finish [OF w], rule tree_swallowed [OF r(1,3) table_at [of D, OF r(4)], of i])
        (use e r(5) r(7) Some i c1 cnt(3) in simp_all)
  qed
qed

lemma tree_write_step:
  assumes f: "forest sb os xs D" and ok: "tree_allowed ((mem, k), Write_File path buf cnt) (sb, os)"
  shows "\<exists>l m' c'. fs_run ((mem, k), Write_File path buf cnt) (sb, os) = Inr (l, m') \<and>
    tree_spec (bsz sb) (table_of (bsz sb) os D, length xs) l c' \<and> holds_tree (bsz sb) m' c'"
  using ok tree_write_new_step [OF f] tree_write_old_step [OF f] free_listD(5) [OF forestD(1) [OF f]] by auto

text \<open>A path that leads to no entry.\<close>

lemma tree_nowhere:
  assumes f: "forest sb os xs D" and path: "subfolders_to_vector path = Inr (p @ [nm])" and w: "lucky_walk sb os D p nm k"
    and none: "\<forall>d ks. locate (table_of (bsz sb) os D) 2 p = Some d \<longrightarrow> D d = Some ks \<longrightarrow> entry_index (bsz sb) os nm ks = None"
    and op: "op = Unlink path \<or> op = Rmdir path"
  shows "\<exists>l m' c'. fs_run ((mem, k), op) (sb, os) = Inr (l, m') \<and>
    tree_spec (bsz sb) (table_of (bsz sb) os D, length xs) l c' \<and> holds_tree (bsz sb) m' c'"
proof -
  let ?A = "table_of (bsz sb) os D"
  have spec: "tree_spec (bsz sb) (?A, length xs) (op, Returned (-1) (Some ENOENT)) (?A, length xs)"
  proof (cases "locate ?A 2 p")
    case None
    show ?thesis by (rule tree_no_parent [OF path None]) (use op in blast)
  next
    case (Some d)
    from locate_directory [OF _ Some] w obtain ls where D: "D d = Some ls" by (auto simp: lucky_walk_def table_of_def)
    have "find_index (\<lambda>e. fst e = nm) (map (entry_at (bsz sb) os) ls) = None"
      using none [rule_format, OF Some D] unfolding find_entry by (simp only: entry_index_def)
    from tree_not_there [OF path Some table_at [of D, OF D] this] op show ?thesis by blast
  qed
  from remove_tree_missing [OF f path w none, of mem] obtain os1 os2 where
    r: "fs_unlink mem k path sb os = Inr (-1, sb, os1)" "same_disk sb os os1" "errno os1 = ENOENT"
    "fs_rmdir mem k path sb os = Inr (-1, sb, os2)" "same_disk sb os os2" "errno os2 = ENOENT" by blast
  have "\<exists>os'. fs_run ((mem, k), op) (sb, os) = Inr ((op, Returned (-1) (Some ENOENT)), (sb, os')) \<and> same_disk sb os os'"
    using op r by (auto simp: answered_def)
  with spec holds_tree_same [OF f] show ?thesis by blast
qed

lemma tree_unlink_step:
  assumes f: "forest sb os xs D" and ok: "tree_allowed ((mem, k), Unlink path) (sb, os)"
  shows "\<exists>l m' c'. fs_run ((mem, k), Unlink path) (sb, os) = Inr (l, m') \<and>
    tree_spec (bsz sb) (table_of (bsz sb) os D, length xs) l c' \<and> holds_tree (bsz sb) m' c'"
proof -
  let ?A = "table_of (bsz sb) os D"
  from ok have "removable (sb, os) path k" by simp
  then obtain p nm where p: "subfolders_to_vector path = Inr (p @ [nm])" "lucky_walk sb os D p nm k"
    by (rule removableD [OF _ f])
  show ?thesis
  proof (cases "\<exists>d ls i. locate ?A 2 p = Some d \<and> D d = Some ls \<and> entry_index (bsz sb) os nm ls = Some i")
    case False
    then show ?thesis by (intro tree_nowhere [OF f p]) auto
  next
    case True
    then obtain d ls i where d: "locate ?A 2 p = Some d" "D d = Some ls" "entry_index (bsz sb) os nm ls = Some i" by blast
    note e = table_entry [of D, OF d(2) entry_index_Some [OF d(3)]]
    from unlink_tree_ok [OF f p d refl refl, of mem] obtain os' where
      r: "fs_unlink mem k path sb os = Inr (0, took sb (ls ! i # meta_of (bsz sb) os (ls ! i) # xs), os')"
      "gone_entry sb os xs D d ls os' i (ls ! i) (meta_of (bsz sb) os (ls ! i))" by blast
    from tree_unlinked [OF p(1) d(1) table_at [of D, OF d(2)], of i "bsz sb" "length xs"] holds_tree_shrunk [OF r(2)] r(1) e d(3)
    show ?thesis by (auto simp: answered_def)
  qed
qed

lemma tree_rmdir_step:
  assumes f: "forest sb os xs D" and ok: "tree_allowed ((mem, k), Rmdir path) (sb, os)"
  shows "\<exists>l m' c'. fs_run ((mem, k), Rmdir path) (sb, os) = Inr (l, m') \<and>
    tree_spec (bsz sb) (table_of (bsz sb) os D, length xs) l c' \<and> holds_tree (bsz sb) m' c'"
proof -
  let ?A = "table_of (bsz sb) os D"
  from ok have "removable (sb, os) path k" by simp
  then obtain p nm where p: "subfolders_to_vector path = Inr (p @ [nm])" "lucky_walk sb os D p nm k"
    by (rule removableD [OF _ f])
  show ?thesis
  proof (cases "\<exists>d ls i. locate ?A 2 p = Some d \<and> D d = Some ls \<and> entry_index (bsz sb) os nm ls = Some i")
    case False
    then show ?thesis by (intro tree_nowhere [OF f p]) auto
  next
    case True
    then obtain d ls i where d: "locate ?A 2 p = Some d" "D d = Some ls" "entry_index (bsz sb) os nm ls = Some i" by blast
    note e = table_entry [of D, OF d(2) entry_index_Some [OF d(3)]]
    note r = rmdir_tree [OF f p d refl refl, of mem]
    show ?thesis
    proof (cases "D (ls ! i) = Some []")
      case True
      with r obtain os' where
        r: "fs_rmdir mem k path sb os = Inr (0, took sb (ls ! i # meta_of (bsz sb) os (ls ! i) # xs), os')"
        "gone_entry sb os xs D d ls os' i (ls ! i) (meta_of (bsz sb) os (ls ! i))" by auto
      from tree_removed [OF p(1) d(1) table_at [of D, OF d(2)], of i "bsz sb" "length xs"] holds_tree_shrunk [OF r(2)] r(1) e d(3)
        True show ?thesis by (auto simp: answered_def)
    next
      case False
      with r obtain os' where r: "fs_rmdir mem k path sb os = Inr (-1, sb, os')" "same_disk sb os os'" "errno os' = ENOTEMPTY"
        by auto
      from tree_kept [OF p(1) d(1) table_at [of D, OF d(2)], of i "bsz sb" "length xs"] holds_tree_same [OF f r(2)] r(1,3) e d(3)
        False show ?thesis by (auto simp: answered_def)
    qed
  qed
qed

lemma tree_list_step:
  assumes f: "forest sb os xs D" and ok: "tree_allowed ((mem, k), List_Dir path) (sb, os)"
  shows "\<exists>l m' c'. fs_run ((mem, k), List_Dir path) (sb, os) = Inr (l, m') \<and>
    tree_spec (bsz sb) (table_of (bsz sb) os D, length xs) l c' \<and> holds_tree (bsz sb) m' c'"
proof -
  let ?A = "table_of (bsz sb) os D"
  note t = disk_paths [OF f]
  from ok obtain p where p: "subfolders_to_vector path = Inr p" "\<not> meets_file ?A 2 p"
    "\<forall>d E. locate ?A 2 p = Some d \<longrightarrow> disk_table (sb, os) d = Some E \<longrightarrow> length (tree_listing E) < MAX_PATH_NAME"
    by (auto simp: t)
  show ?thesis
  proof (cases "locate ?A 2 p")
    case None
    from list_tree_missing [OF f p(1,2) None, of mem] obtain os' where
      r: "fs_list_dir mem path sb os = Inr ([45, 49], os')" "same_disk sb os os'" by blast
    from tree_not_listed [OF p(1) None] holds_tree_same [OF f r(2)] r(1) show ?thesis by auto
  next
    case (Some d)
    from locate_directory [OF p(2) Some] obtain ls where D: "D d = Some ls" by (auto simp: table_of_def)
    have l: "tree_listing (map (entry_at (bsz sb) os) ls) = listing (entries sb os ls)"
      using shown_entries [OF forestD(9) [OF f D] refl] by (simp add: entries_def)
    with p(3) Some place_inode [OF f D] have "length (listing (entries sb os ls)) < MAX_PATH_NAME" by simp
    from list_tree_ok [OF f p(1,2) Some D this, of mem] obtain os' where
      r: "fs_list_dir mem path sb os = Inr (listing (entries sb os ls), os')" "same_disk sb os os'" by blast
    from tree_listed [OF p(1) Some table_at [of D, OF D]] holds_tree_same [OF f r(2)] r(1) l show ?thesis by auto
  qed
qed

lemma tree_step_ok:
  assumes "holds_tree n m c" and "tree_allowed ev m"
  shows "\<exists>l m' c'. fs_run ev m = Inr (l, m') \<and> tree_spec n c l c' \<and> holds_tree n m' c'"
proof -
  obtain mem k op sb os A f where e: "ev = ((mem, k), op)" "m = (sb, os)" "c = (A, f)"
    by (cases ev; cases "fst ev"; cases m; cases c) auto
  from holds_treeD [OF assms(1) [unfolded e]] obtain xs D where
    D: "forest sb os xs D" "length xs = f" "bsz sb = n" "A = table_of n os D" by blast
  have ok: "tree_allowed ((mem, k), op) (sb, os)" using assms(2) e by simp
  have "\<exists>l m' c'. fs_run ((mem, k), op) (sb, os) = Inr (l, m') \<and>
    tree_spec (bsz sb) (table_of (bsz sb) os D, length xs) l c' \<and> holds_tree (bsz sb) m' c'"
  proof (cases op)
    case (Mkdir path)
    show ?thesis using tree_mkdir_step [OF D(1)] ok unfolding Mkdir .
  next
    case (Write_File path buf cnt)
    show ?thesis using tree_write_step [OF D(1)] ok unfolding Write_File .
  next
    case (Unlink path)
    show ?thesis using tree_unlink_step [OF D(1)] ok unfolding Unlink .
  next
    case (Rmdir path)
    show ?thesis using tree_rmdir_step [OF D(1)] ok unfolding Rmdir .
  next
    case (List_Dir path)
    show ?thesis using tree_list_step [OF D(1)] ok unfolding List_Dir .
  qed
  then show ?thesis using D(2-4) unfolding e by simp
qed

interpretation tree: simulation "holds_tree n" tree_allowed fs_run "tree_spec n" for n
  by unfold_locales (rule tree_step_ok)

section \<open>A formatted image\<close>

lemma formatted_forest:
  assumes v: "volume sb os xs []"
  shows "forest sb os xs [2 \<mapsto> []]"
proof -
  note m = volumeD(2) [OF v] note r = volumeD(6) [OF v]
  have meta: "meta_of (bsz sb) os 2 = 1" using root_dirD(2) [OF r] by (simp add: meta_of_def)
  have "all_inodes [2 \<mapsto> []] = {2}" "one_parent [2 \<mapsto> []]" by (simp_all add: all_inodes_def one_parent_def)
  moreover have "1 \<notin> set xs" "2 \<notin> set xs" using volumeD(3) [OF v] by force+
  moreover have "(0 :: 64 word) < 1" "(0 :: 64 word) < 2" by simp_all
  ultimately show ?thesis
    using volumeD(1,3,4,5) [OF v] meta r mountedD(6,7) [OF m] by (simp add: forest_def dir_ok_def)
qed

lemma formatted_tree:
  assumes v: "volume sb os xs []"
  shows "holds_tree (bsz sb) (sb, os) ([2 \<mapsto> []], length xs)"
proof -
  have "table_of (bsz sb) os [2 \<mapsto> []] = [2 \<mapsto> []]" by (auto simp: table_of_def)
  with holds_treeI [OF formatted_forest [OF v]] show ?thesis by simp
qed

lemma holds_tree_shows:
  assumes "holds_tree n m (A, f)"
  shows "(\<forall>b \<in> inodes_of A. disk_table m b = A b) \<and> unat (sb_freeblks (fst m)) = f"
proof -
  obtain sb os where m: "m = (sb, os)" by (cases m)
  from holds_treeD [OF assms [unfolded m]] obtain xs D where
    D: "forest sb os xs D" "length xs = f" "bsz sb = n" "A = table_of n os D" by blast
  show ?thesis using disk_table_at [OF D(1)] D(2-4) free_listD(5) [OF forestD(1) [OF D(1)]] by (simp add: m table_inodes)
qed

lemma formatted_holds:
  assumes "0 \<le> fd" and "length (img os) < 2 ^ 63" and "unat blocksize \<le> length b"
    and f: "fs_format True fd mem (Some b) blocksize os = Inr (Some sb, os')"
  shows "holds_tree (unat blocksize) (sb, os') ([2 \<mapsto> []], length (img os) div unat blocksize - 3)"
proof -
  have "MIN_BLOCK_SIZE \<le> blocksize" "32 \<le> length (img os) div unat blocksize"
    using formatted_sizes [OF assms] by simp_all
  from fs_format_ok [OF this assms(2,1,3), of mem] f
  have v: "volume sb os' (map of_nat [3..<length (img os) div unat blocksize]) []" "sb_blksz sb = blocksize" by auto
  from formatted_tree [OF v(1)] v(2) show ?thesis by (simp add: bsz_def)
qed

end
