(* ===== verification/Fs_Tree_Check.thy ===== *)
theory Fs_Tree_Check
  imports Fs_Tree_Correct
begin

text \<open>
  The consistency of an image that holds a table of inodes.
\<close>

text \<open>
  What a checker of the file system would look for: the superblock on disk is the one in memory; \<open>xs\<close> is the
  chain of free blocks; every inode of the table and its nodeinfo are two blocks of their own within the volume,
  neither of them free; modes are those of the table; the size of a directory is the number of its entries, that of a
  file the \<open>blksz - 20\<close> that the code writes for every file; no inode is an entry twice.
\<close>

definition consistent :: "mount \<Rightarrow> inode_table \<Rightarrow> 64 word list \<Rightarrow> bool" where
  "consistent m A xs \<longleftrightarrow> (let (sb, os) = m; n = bsz sb in
     disk n os 0 = sb_bytes sb \<and> free_list sb os xs \<and> A 2 \<noteq> None \<and>
     (\<forall>b \<in> inodes_of A. \<forall>d \<in> {b, meta_of n os b}. 0 < d \<and> d < sb_blks sb \<and> d \<notin> set xs) \<and>
     inj_on (meta_of n os) (inodes_of A) \<and> inodes_of A \<inter> meta_of n os ` inodes_of A = {} \<and>
     (\<forall>b \<in> inodes_of A. disk_table m b = A b \<and> fld 0 (disk n os b) = (if A b = None then IMREG else IMDIR) \<and>
        fld 0 (disk n os (meta_of n os b)) = (case A b of None \<Rightarrow> sb_blksz sb - 20 | Some E \<Rightarrow> of_nat (length E))) \<and>
     (\<forall>a E. A a = Some E \<longrightarrow> distinct (map (snd \<circ> snd) E) \<and>
        (\<forall>b F. A b = Some F \<longrightarrow> a \<noteq> b \<longrightarrow> (snd \<circ> snd) ` set E \<inter> (snd \<circ> snd) ` set F = {})))"

lemma forest_inode:
  assumes f: "forest sb os xs D" and a: "a \<in> all_inodes D"
  shows "fld 0 (disk (bsz sb) os a) = (if D a = None then IMREG else IMDIR)"
    "fld 0 (disk (bsz sb) os (meta_of (bsz sb) os a)) =
      (case D a of None \<Rightarrow> sb_blksz sb - 20 | Some ls \<Rightarrow> of_nat (length ls))"
proof -
  have "fld 0 (disk (bsz sb) os a) = (if D a = None then IMREG else IMDIR) \<and>
    fld 0 (disk (bsz sb) os (meta_of (bsz sb) os a)) = (case D a of None \<Rightarrow> sb_blksz sb - 20 | Some ls \<Rightarrow> of_nat (length ls))"
  proof (cases "D a")
    case None
    with a obtain b ls where "D b = Some ls" "a \<in> set ls" by (auto simp: all_inodes_def ran_def)
    from child_okD(2-4) [OF forestD(9) [OF f this]] None show ?thesis by auto
  next
    case (Some ls)
    note r = root_dirD(1,5) [OF dir_okD(7) [OF forestD(8) [OF f Some]]]
    have "fld 0 (disk (bsz sb) os (meta_of (bsz sb) os a)) = of_nat (length ls)" by (simp flip: r(2))
    with r(1) Some show ?thesis by simp
  qed
  then show "fld 0 (disk (bsz sb) os a) = (if D a = None then IMREG else IMDIR)"
    "fld 0 (disk (bsz sb) os (meta_of (bsz sb) os a)) =
      (case D a of None \<Rightarrow> sb_blksz sb - 20 | Some ls \<Rightarrow> of_nat (length ls))" by simp_all
qed

lemma forest_consistent:
  assumes f: "forest sb os xs D"
  shows "consistent (sb, os) (table_of (bsz sb) os D) xs"
proof -
  let ?n = "bsz sb" and ?A = "table_of (bsz sb) os D"
  note P = one_parentD [OF forestD(12) [OF f]]
  have two: "?A 2 \<noteq> None" using forestD(6) [OF f] by (auto simp: table_of_def)
  have blocks: "\<forall>b \<in> inodes_of ?A. \<forall>d \<in> {b, meta_of ?n os b}. 0 < d \<and> d < sb_blks sb \<and> d \<notin> set xs"
    using forest_blocks [OF f] by (simp add: table_inodes)
  have inode: "disk_table (sb, os) b = ?A b \<and> fld 0 (disk ?n os b) = (if ?A b = None then IMREG else IMDIR) \<and>
      fld 0 (disk ?n os (meta_of ?n os b)) = (case ?A b of None \<Rightarrow> sb_blksz sb - 20 | Some E \<Rightarrow> of_nat (length E))"
    if "b \<in> inodes_of ?A" for b
    using forest_inode [OF f, of b] disk_table_at [OF f, of b] that by (auto simp: table_inodes table_of_def split: option.splits)
  have snds: "map (snd \<circ> snd) (map (entry_at ?n os) ls) = ls" "(snd \<circ> snd) ` entry_at ?n os ` set ls = set ls" for ls
    by (simp_all add: comp_def entry_at_def image_image)
  have entries: "distinct (map (snd \<circ> snd) E) \<and>
      (\<forall>b F. ?A b = Some F \<longrightarrow> a \<noteq> b \<longrightarrow> (snd \<circ> snd) ` set E \<inter> (snd \<circ> snd) ` set F = {})" if "?A a = Some E" for a E
  proof -
    from that obtain ls where ls: "D a = Some ls" "E = map (entry_at ?n os) ls" by (auto simp: table_of_def)
    have "distinct (map (snd \<circ> snd) E)" unfolding ls(2) snds by (rule P(1) [OF ls(1)])
    moreover have "(snd \<circ> snd) ` set E \<inter> (snd \<circ> snd) ` set F = {}" if F: "?A b = Some F" "a \<noteq> b" for b F
    proof -
      from F(1) obtain ks where ks: "D b = Some ks" "F = map (entry_at ?n os) ks" by (auto simp: table_of_def)
      show ?thesis unfolding ls(2) ks(2) set_map snds by (rule P(3) [OF ls(1) ks(1) F(2)])
    qed
    ultimately show ?thesis by blast
  qed
  show ?thesis
    unfolding consistent_def Let_def prod.case
    using forestD(1,5) [OF f] two blocks forestD(10,11) [OF f, folded table_inodes [of ?n os]] inode entries by blast
qed

lemma holds_tree_consistent:
  assumes "holds_tree n m (A, f)"
  shows "\<exists>xs. consistent m A xs \<and> length xs = f"
proof -
  obtain sb os where m: "m = (sb, os)" by (cases m)
  from holds_treeD [OF assms [unfolded m]] obtain xs D where
    "forest sb os xs D" "length xs = f" "bsz sb = n" "A = table_of n os D" by blast
  with forest_consistent [of sb os xs D] show ?thesis by (auto simp: m)
qed

end
