(* ===== verification/TP3_Demo.thy ===== *)
theory TP3_Demo
  imports Fs_Open Fs_Paths Fs_Catalog_Correct Fs_Tree_Check
begin

text \<open>
  File systems that exist: a formatted image of 32 blocks of 128 bytes, the same with a directory,
  and a full one.
\<close>

definition blank :: fs_os where
  "blank = \<lparr>img = replicate 4096 0, offsets = Map.empty, errno = 0, is_fs_open = False\<rparr>"

definition demo_free :: "64 word list" where
  "demo_free = map of_nat [6..<32]"

lemma blank_format:
  "\<exists>sb os. fs_format True 3 (\<lambda>_. []) (Some (replicate 128 0)) 128 blank = Inr (Some sb, os) \<and>
    volume sb os (3 # 4 # 5 # demo_free) [] \<and> bsz sb = 128 \<and> sb_fd sb = 3 \<and> 29 < sb_blks sb"
proof -
  have "MIN_BLOCK_SIZE \<le> 128" "32 \<le> length (img blank) div unat (128 :: 64 word)"
    "length (img blank) < 2 ^ 63" "unat (128 :: 64 word) \<le> length (replicate 128 (0 :: byte))"
    by (simp_all add: MIN_BLOCK_SIZE_def blank_def)
  from fs_format_ok [OF this(1,2,3) _ this(4), of 3 "\<lambda>_. []"] obtain sb os where
    f: "fs_format True 3 (\<lambda>_. []) (Some (replicate 128 0)) 128 blank = Inr (Some sb, os)"
    "volume sb os (map of_nat [3..<length (img blank) div unat (128 :: 64 word)]) []"
    "sb_blksz sb = 128" "sb_fd sb = 3"
    "unat (sb_blks sb) = length (img blank) div unat (128 :: 64 word)" by auto
  have "map of_nat [3..<length (img blank) div unat (128 :: 64 word)] = 3 # 4 # 5 # demo_free"
    by (simp add: blank_def demo_free_def upt_conv_Cons)
  with f show ?thesis by (auto simp: bsz_def word_less_nat_alt blank_def)
qed

lemma demo_volume:
  "\<exists>sb os. volume sb os (3 # 4 # 5 # demo_free) [] \<and> bsz sb = 128 \<and> sb_fd sb = 3"
  using blank_format by blast

text \<open>The paths \<open>"/a"\<close>, \<open>"/"\<close> and \<open>"/a/b"\<close>.\<close>

lemma demo_paths:
  "subfolders_to_vector [47, 97] = Inr [[97]]" "subfolders_to_vector [47] = Inr []"
  "subfolders_to_vector [47, 97, 47, 98] = Inr [[97], [98]]"
  by (simp_all add: subfolders_to_vector_def MAX_PATH_NAME_def MAX_SUBFOLDERS_def MAX_NAME_def)

lemma demo_directory:
  "\<exists>sb os. volume sb os (5 # demo_free) [4] \<and> bsz sb = 128 \<and> entries sb os [4] = [([97], IMDIR)] \<and>
    meta_of 128 os 4 = 3 \<and> fld 0 (disk 128 os 3) = 0"
proof -
  from demo_volume obtain sb os where d: "volume sb os (3 # 4 # 5 # demo_free) []" "bsz sb = 128" by blast
  from mkdir_root_ok [OF d(1) demo_paths(1), of "\<lambda>_. []" 0] d(2) obtain os' where
    "volume (took sb (5 # demo_free)) os' (5 # demo_free) [4]"
    "entries (took sb (5 # demo_free)) os' [4] = [([97], IMDIR)]"
    "meta_of 128 os' 4 = 3" "fld 0 (disk 128 os' 3) = 0" by (auto simp: entries_def)
  with d(2) show ?thesis by (intro exI [of _ "took sb (5 # demo_free)"] exI [of _ os']) simp
qed

text \<open>All blocks taken.\<close>

lemma volume_taken:
  assumes v: "volume sb os xs ls"
  shows "volume (took sb []) (sync (took sb []) os) [] ls"
proof -
  note m = volumeD(2) [OF v]
  let ?os = "sync (took sb []) os"
  have fl: "free_list (took sb []) ?os []"
    using m by (intro free_list_sync free_list_took [where b = 0]) simp_all
  have d: "disk (bsz sb) ?os b = disk (bsz sb) os b" if "b < sb_blks sb" "b \<noteq> 0" for b
    using m that by simp
  have nz: "b \<noteq> 0" if "2 < b" for b :: "64 word" using that by auto
  have e: "entry_ok sb ?os [] l" "meta_of (bsz sb) ?os l = meta_of (bsz sb) os l" if "l \<in> set ls" for l
  proof -
    have "\<forall>b < sb_blks sb. 2 < b \<longrightarrow> b \<notin> set xs \<longrightarrow> disk (bsz sb) ?os b = disk (bsz sb) os b"
      using d nz by blast
    note k = entry_kept(2,3) [OF volumeD(7) [OF v that] this]
    show "entry_ok sb ?os [] l" "meta_of (bsz sb) ?os l = meta_of (bsz sb) os l"
      using k(1) [of "[]"] k(2) by simp_all
  qed
  have eq: "entry_ok (took sb []) ?os [] = entry_ok sb ?os []" by (simp add: fun_eq_iff entry_ok_def)
  have "distinct (ls @ map (meta_of (bsz sb) ?os) ls)"
    using volumeD(8) [OF v] metas_cong [of ls "meta_of (bsz sb) ?os" "meta_of (bsz sb) os"] e(2) by blast
  then show ?thesis
    using fl e(1) d mountedD(5,6,7) [OF m] m volumeD(4,6) [OF v] by (simp add: volume_def eq)
qed

lemma demo_full: "\<exists>sb os. volume sb os [] [] \<and> bsz sb = 128"
proof -
  from demo_volume obtain sb os where "volume sb os (3 # 4 # 5 # demo_free) []" "bsz sb = 128" by blast
  then show ?thesis using volume_taken [of sb os _ "[]"] took_simps(1) by metis
qed

lemma volume_closed: "volume sb (os\<lparr>is_fs_open := b\<rparr>) xs ls = volume sb os xs ls"
proof -
  have d: "disk n (os\<lparr>is_fs_open := b\<rparr>) = disk n os" for n by (simp add: disk_def fun_eq_iff)
  have c: "chain n (os\<lparr>is_fs_open := b\<rparr>) x xs = chain n os x xs" for n x
    by (rule chain_cong) (simp add: d)
  show ?thesis by (simp add: volume_def free_list_def mounted_def fits_def entry_ok_def meta_of_def [abs_def] d c)
qed

lemma volume_offsets:
  assumes "volume sb os xs ls"
  shows "volume sb (os\<lparr>offsets := (offsets os)(fd \<mapsto> k)\<rparr>) xs ls"
proof -
  have "same_disk sb os (os\<lparr>offsets := (offsets os)(fd \<mapsto> k)\<rparr>)"
    using volumeD(2) [OF assms] by (simp add: same_disk_def mounted_def fits_def disk_def)
  from volume_same(1) [OF assms this] show ?thesis .
qed

text \<open>\<open>"/a"\<close> can be made on the formatted image, and then \<open>"/a/b"\<close>.\<close>

lemma demo_first:
  assumes v: "volume sb os (3 # 4 # 5 # demo_free) []" and n: "bsz sb = 128"
  shows "tree_allowed ((\<lambda>_. [], 0), Mkdir [47, 97]) (sb, os)"
proof -
  note f = formatted_forest [OF v]
  have "unat (sb_freeblks sb) = length (3 # 4 # 5 # demo_free)" using free_listD(5) [OF volumeD(1) [OF v]] .
  moreover have "disk_table (sb, os) 2 = Some []" using place_inode [OF f, of 2 "[]"] by simp
  ultimately have "new_place (sb, os) [47, 97] 0 False" "2 \<le> unat (sb_freeblks sb)"
    using demo_paths(1) n by (auto simp: new_place_def intro!: exI [of _ "[]"])
  then show ?thesis by simp
qed

lemma demo_second:
  assumes r: "fs_run ((\<lambda>_. [], 0), Mkdir [47, 97]) (sb, os) = Inr (l, m)"
    and v: "volume sb os (3 # 4 # 5 # demo_free) []" and n: "bsz sb = 128"
    and t: "traced tree_allowed fs_run (sb, os) [l] m"
  shows "l = (Mkdir [47, 97], Returned 0 None) \<and> tree_allowed ((\<lambda>_. [], 0), Mkdir [47, 97, 47, 98]) m"
proof -
  have op: "fst l = Mkdir [47, 97]"
    using r by (cases "fs_mkdir (\<lambda>_. []) 0 [47, 97] sb os") (auto simp: answered_def)
  have "length (3 # 4 # 5 # demo_free) = 29" by (simp add: demo_free_def)
  with formatted_tree [OF v] n have "holds_tree 128 (sb, os) ([2 \<mapsto> []], 29)" by simp
  from tree.traced_accepted [OF this t] obtain A k where
    acc: "accepts (tree_spec 128) ([2 \<mapsto> []], 29) [l] (A, k)" and holds: "holds_tree 128 m (A, k)" by auto
  note sh = holds_tree_shows [OF holds]
  from acc have spec: "tree_spec 128 ([2 \<mapsto> []], 29) l (A, k)"
    by (cases rule: accepts.cases) (auto simp: accepts_nil_simps)
  from spec op obtain y where l: "l = (Mkdir [47, 97], Returned 0 None)" "k = 27" "y \<noteq> 2"
    "A = [2 \<mapsto> [([97], Folder, y)], y \<mapsto> []]"
    by (cases rule: tree_spec.cases) (auto simp: demo_paths inodes_of_def)
  have in_A: "2 \<in> inodes_of A" "y \<in> inodes_of A" by (simp_all add: l(4) inodes_of_def)
  have A: "A 2 = Some [([97], Folder, y)]" "A y = Some []" using l(3,4) by simp_all
  have path: "locate A 2 [[97]] = Some y" "\<not> meets_file A 2 [[97]]" "last_position A 2 [[97]] = Some 0"
    using A by (simp_all add: locate.simps meets_file.simps last_position.simps)
  note same = tables_agree [of A "disk_table m", OF bspec [OF conjunct1 [OF sh]] in_A(1), of "[[97]]"]
  have "bsz (fst m) = 128" using holds by (auto simp: holds_tree_def)
  then have "new_place m [47, 97, 47, 98] 0 False"
    using path same sh in_A(2) A(2) demo_paths(3) by (auto simp: new_place_def intro!: exI [of _ "[[97]]"])
  with l(1,2) sh show ?thesis by simp
qed

lemma demo_mkdir:
  "\<exists>sb os m. fs_format True 3 (\<lambda>_. []) (Some (replicate 128 0)) 128 blank = Inr (Some sb, os) \<and>
    traced tree_allowed fs_run (sb, os) [(Mkdir [47, 97], Returned 0 None)] m"
proof -
  from blank_format obtain sb os where f: "fs_format True 3 (\<lambda>_. []) (Some (replicate 128 0)) 128 blank = Inr (Some sb, os)"
    and v: "volume sb os (3 # 4 # 5 # demo_free) []" and n: "bsz sb = 128" by blast
  note ok = demo_first [OF v n]
  from tree_step_ok [OF formatted_tree [OF v] ok] obtain l m where
    r: "fs_run ((\<lambda>_. [], 0), Mkdir [47, 97]) (sb, os) = Inr (l, m)" by blast
  have t: "traced tree_allowed fs_run (sb, os) [l] m"
    using traced_snoc [where ok = tree_allowed and step = fs_run, OF traced_nil ok r] by simp
  with demo_second [OF r v n t] f show ?thesis by blast
qed

text \<open>A file of three blocks.\<close>

lemma demo_long_file:
  "\<exists>sb os sb' os' xs. fs_format True 3 (\<lambda>_. []) (Some (replicate 128 0)) 128 blank = Inr (Some sb, os) \<and>
    fs_write_file (\<lambda>_. []) [47, 97] [] 324 sb os = Inr (0, sb', os') \<and> forest sb' os' xs [2 \<mapsto> [4]] \<and>
    entry_of 128 os' 4 = ([97], IMREG) \<and> fld 24 (disk 128 os' 4) = 5 \<and> fld 24 (disk 128 os' 5) = 6 \<and>
    5 < sb_blks sb' \<and> bsz sb' = 128"
proof -
  from blank_format obtain sb os where f: "fs_format True 3 (\<lambda>_. []) (Some (replicate 128 0)) 128 blank = Inr (Some sb, os)"
    and v: "volume sb os (3 # 4 # 5 # demo_free) []" and n: "bsz sb = 128" and b: "29 < sb_blks sb" by blast
  have free: "demo_free = 6 # tl demo_free" "tl demo_free \<noteq> []" by (simp_all add: demo_free_def upt_conv_Cons)
  have v': "volume sb os (3 # 4 # [5, 6] @ tl demo_free) []" using v free(1) by simp
  note F = formatted_forest [OF v']
  have nm: "length [97 :: byte] + 65 \<le> bsz sb" "0 \<notin> set [97 :: byte]" "[97] \<notin> fst ` set (entries sb os [])"
    "40 + 8 * length ([] :: 64 word list) \<le> bsz sb" by (simp_all add: n entries_def)
  have cnt: "count_blocks 324 sb = Inr (Suc (length [5 :: 64 word, 6]))" "length [5 :: 64 word, 6] + 2 \<le> MAX_FILE_SIZE"
    using count_blocks_floor [of 324 sb] by (simp_all add: n MAX_FILE_SIZE_def)
  from write_new_ok [OF v' demo_paths(1) nm cnt(1) free(2) cnt(2), of "\<lambda>_. []" "[]"] obtain os' where
    w: "fs_write_file (\<lambda>_. []) [47, 97] [] 324 sb os = Inr (0, took sb (tl demo_free), os')"
    "entries (took sb (tl demo_free)) os' [4] = [([97], IMREG)]"
    "map (\<lambda>b. fld 24 (disk (bsz sb) os' b)) [4, 5, 6] = [5, 6, 0]" by (auto simp: entries_def)
  have root: "\<not> meets_file (table_of (bsz sb) os [2 \<mapsto> []]) 2 []" "locate (table_of (bsz sb) os [2 \<mapsto> []]) 2 [] = Some 2"
    by (simp_all add: meets_file.simps table_of_def)
  have "subfolders_to_vector [47, 97] = Inr ([] @ [[97]])" using demo_paths(1) by simp
  from write_tree_ok [OF F this root _ nm cnt(1) free(2) cnt(2), of "\<lambda>_. []" "[]"] w(1) have
    "new_entry sb os (3 # 4 # [5, 6]) (tl demo_free) [2 \<mapsto> []] 2 [] os' 3 4 [97] Regular" by auto
  from grow_forest [OF this] have "forest (took sb (tl demo_free)) os' (tl demo_free) [2 \<mapsto> [4]]" by (simp add: grow_def)
  moreover have "(5 :: 64 word) < sb_blks sb" using b by (rule less_trans [rotated]) simp
  ultimately show ?thesis using f w n
    by (intro exI [of _ sb] exI [of _ os] exI [of _ "took sb (tl demo_free)"] exI [of _ os'] exI [of _ "tl demo_free"])
      (simp add: entries_def)
qed

end
