(* ===== verification/TP3_Properties.thy ===== *)
theory TP3_Properties
  imports TP3_Demo
begin

text \<open>
  What the file system of \<open>TP 3\<close> guarantees, and where it does not do what it means to.
\<close>

text \<open>C6: Any sequence of \<open>fs_get_block\<close> and \<open>fs_put_block\<close> in which only blocks in use are put
  back answers as a stack of the free blocks does, 0 when it is empty; afterwards the chain on the
  image is that stack, and no block was written but block 0 and those put back.\<close>

theorem blocks_are_a_stack:
  assumes "free_list sb os xs" "puts_ok (legal_block (sb, os)) ops xs"
  shows "\<exists>sb' os'. run_store get_of put_of ops (sb, os) = Inr (fst (run_stack ops xs), sb', os') \<and>
    free_list sb' os' (snd (run_stack ops xs)) \<and>
    (\<forall>b. b \<noteq> 0 \<longrightarrow> b < sb_blks sb \<longrightarrow> b \<notin> put_blocks ops \<longrightarrow> disk (bsz sb') os' b = disk (bsz sb) os b)"
proof -
  from fl.run_refines_stack [of "(sb, os)" xs ops] assms obtain s' where
    "run_store get_of put_of ops (sb, os) = Inr (fst (run_stack ops xs), s')"
    "free_list (fst s') (snd s') (snd (run_stack ops xs))"
    "\<forall>b. legal_block (sb, os) b \<longrightarrow> b \<notin> put_blocks ops \<longrightarrow> bytes_of s' b = bytes_of (sb, os) b" by auto
  then show ?thesis by (cases s') (auto simp: legal_block_def bytes_of_def)
qed

theorem blocks_are_a_stack_witness:
  "\<exists>sb os sb' os'. free_list sb os (3 # 4 # 5 # demo_free) \<and>
    run_store get_of put_of [Get [], Get [1], Put [] 3, Get []] (sb, os) = Inr ([3, 4, 0, 3], sb', os')"
proof -
  from demo_volume obtain sb os where v: "volume sb os (3 # 4 # 5 # demo_free) []" by blast
  note fl = volumeD(1) [OF v]
  have "puts_ok (legal_block (sb, os)) [Get [], Get [1], Put [] 3, Get []] (3 # 4 # 5 # demo_free)"
    using free_listD(3,4) [OF fl] by (simp add: legal_block_def)
  from blocks_are_a_stack [OF fl this] fl show ?thesis by auto
qed

text \<open>C18: \<open>fs_format\<close> refuses blocks under 128 bytes with \<open>EINVAL\<close> and images of fewer than 32
  blocks with \<open>ENOSPC\<close>, and follows its uninitialised pointer \<open>fp\<close>.  When that happens to point
  at enough memory, the image gets an empty root directory and a chain of all blocks from 3 on.\<close>

theorem format_makes_volume:
  fixes blocksize :: "64 word"
  assumes "0 \<le> fd" "length (img os) < 2 ^ 63" "length b \<ge> unat blocksize"
  defines "n \<equiv> length (img os) div unat blocksize"
  shows "if blocksize < MIN_BLOCK_SIZE
    then fs_format True fd mem fp blocksize os = Inr (None, os\<lparr>errno := EINVAL_fs\<rparr>)
    else if n < 32 then fs_format True fd mem fp blocksize os = Inr (None, os\<lparr>errno := ENOSPC\<rparr>)
    else fs_format True fd mem None blocksize os = Inl Bad_Pointer \<and>
      (\<exists>sb os'. fs_format True fd mem (Some b) blocksize os = Inr (Some sb, os') \<and>
        volume sb os' (map of_nat [3..<n]) [] \<and> bsz sb = unat blocksize \<and> unat (sb_blks sb) = n)"
proof -
  have u: "unat (of_nat (length (img os)) div blocksize) = n"
    using assms(2) by (simp add: n_def unat_div unat_of_nat)
  consider "blocksize < MIN_BLOCK_SIZE" | "MIN_BLOCK_SIZE \<le> blocksize" "n < 32" |
    "MIN_BLOCK_SIZE \<le> blocksize" "32 \<le> n" by force
  then show ?thesis
  proof cases
    case 1
    then show ?thesis by (simp add: fs_format_def)
  next
    case 2
    then show ?thesis
      using u by (simp add: fs_format_def Let_def MIN_BLOCK_COUNT_def word_less_nat_alt not_less [symmetric])
  next
    case 3
    then have "fs_format True fd mem None blocksize os = Inl Bad_Pointer"
      using fs_format_no_pointer [of blocksize os fd mem] assms(1,2) by (simp add: n_def)
    moreover from 3 fs_format_ok [of blocksize os fd b mem] assms(1-3) have
      "\<exists>sb os'. fs_format True fd mem (Some b) blocksize os = Inr (Some sb, os') \<and>
        volume sb os' (map of_nat [3..<n]) [] \<and> bsz sb = unat blocksize \<and> unat (sb_blks sb) = n"
      unfolding n_def by (auto simp: bsz_def)
    moreover from 3 have "(blocksize < MIN_BLOCK_SIZE) = False" "(n < 32) = False" by auto
    ultimately show ?thesis by (simp only: if_False)
  qed
qed

theorem format_makes_volume_witness:
  "\<exists>sb os'. fs_format True 3 (\<lambda>_. []) (Some (replicate 128 0)) 128 blank = Inr (Some sb, os') \<and>
    volume sb os' (map of_nat [3..<32]) []"
proof -
  have "length (img blank) < 2 ^ 63" "unat (128 :: 64 word) \<le> length (replicate 128 (0 :: byte))"
    "\<not> (128 :: 64 word) < MIN_BLOCK_SIZE" "length (img blank) div unat (128 :: 64 word) = 32"
    by (simp_all add: blank_def MIN_BLOCK_SIZE_def)
  with format_makes_volume [of 3 blank 128 "replicate 128 0" "\<lambda>_. []" None] show ?thesis by auto
qed

text \<open>C19: \<open>fs_open\<close> on a volume returns the fields of its superblock, the descriptor too is the one
  that was written there; a second \<open>fs_open\<close> fails with \<open>EBUSY\<close> until \<open>fs_close\<close>, which closes
  the descriptor read from the disk and leaks the one just opened.  The superblock it returns is
  too small for the whole-block writes: the first block that is taken or put back reads past it.\<close>

theorem open_returns_short_superblock:
  assumes v: "volume sb os xs ls" and "\<not> is_fs_open os" "0 \<le> fd"
    and "- (2 ^ 31) \<le> sb_fd sb" "sb_fd sb < 2 ^ 31"
  shows "\<exists>os'. fs_open fd mem os = Inr (Some (handle sb), os') \<and> volume sb os' xs ls \<and>
    (\<forall>fd2 mem2. fs_open fd2 mem2 os' = Inr (None, os'\<lparr>errno := EBUSY\<rparr>)) \<and>
    (\<forall>junk. xs \<noteq> [] \<longrightarrow> fs_get_block junk (handle sb) os' = Inl Out_Of_Bounds) \<and>
    (\<forall>junk b. b < sb_blks sb \<longrightarrow> fs_put_block junk b (handle sb) os' = Inl Out_Of_Bounds) \<and>
    (\<exists>os''. fs_close (handle sb) os' = (0, os'') \<and> \<not> is_fs_open os'' \<and> offsets os'' (sb_fd sb) = None \<and>
      (fd \<noteq> sb_fd sb \<longrightarrow> offsets os'' fd \<noteq> None))"
proof -
  let ?os = "os\<lparr>offsets := (offsets os)(fd \<mapsto> SB_SIZE), is_fs_open := True\<rparr>"
  note open_ok = fs_open_ok [OF assms, of mem]
  have v': "volume sb ?os xs ls"
    using volume_offsets [OF v, of fd SB_SIZE] volume_closed [of sb True] by simp
  have "fs_get_block junk (handle sb) ?os = Inl Out_Of_Bounds" if "xs \<noteq> []" for junk
    using get_overreads v' that by (cases xs) auto
  moreover have "\<exists>os''. fs_close (handle sb) ?os = (0, os'') \<and> \<not> is_fs_open os'' \<and>
      offsets os'' (sb_fd sb) = None \<and> (fd \<noteq> sb_fd sb \<longrightarrow> offsets os'' fd \<noteq> None)"
    using volumeD(2) [OF v] by (simp add: fs_close_def sys_close_def mounted_def)
  moreover have "\<forall>fd2 mem2. fs_open fd2 mem2 ?os = Inr (None, ?os\<lparr>errno := EBUSY\<rparr>)"
    by (simp add: fs_open_def)
  ultimately show ?thesis using open_ok v' put_overreads [OF v'] by blast
qed

theorem open_returns_short_superblock_witness:
  "\<exists>sb os os'. fs_open 4 (\<lambda>_. []) os = Inr (Some (handle sb), os') \<and>
    fs_get_block [] (handle sb) os' = Inl Out_Of_Bounds"
proof -
  from demo_volume obtain sb os where "volume sb os (3 # 4 # 5 # demo_free) []" "sb_fd sb = 3" by blast
  then have "volume sb (os\<lparr>is_fs_open := False\<rparr>) (3 # 4 # 5 # demo_free) []" "sb_fd sb = 3"
    by (simp_all add: volume_closed)
  from open_returns_short_superblock [OF this(1), of 4 "\<lambda>_. []"] this(2) obtain os' where
    "fs_open 4 (\<lambda>_. []) (os\<lparr>is_fs_open := False\<rparr>) = Inr (Some (handle sb), os')"
    "\<forall>junk. fs_get_block junk (handle sb) os' = Inl Out_Of_Bounds" by auto
  then show ?thesis by blast
qed

text \<open>Making a directory in the root with two free blocks and room for a link returns 0; the
  volume is as before with one entry more, an empty directory of that name, in the two blocks
  taken, and every other block is unchanged.  Whether the name was there already plays no part.\<close>

theorem mkdir_adds_directory:
  assumes "volume sb os (x # y # xs) ls" and "subfolders_to_vector path = Inr [nm]"
    and "0 \<notin> set nm" "length nm + 65 \<le> bsz sb" and "40 + 8 * length ls \<le> bsz sb"
  shows "\<exists>os'. fs_mkdir mem k path sb os = Inr (0, took sb xs, os') \<and>
    volume (took sb xs) os' xs (ls @ [y]) \<and>
    entries (took sb xs) os' (ls @ [y]) = entries sb os ls @ [(nm, IMDIR)] \<and>
    meta_of (bsz sb) os' y = x \<and> fld 0 (disk (bsz sb) os' x) = 0 \<and>
    (\<forall>b < sb_blks sb. 2 < b \<longrightarrow> b \<notin> {x, y} \<longrightarrow> disk (bsz sb) os' b = disk (bsz sb) os b)"
  by (rule mkdir_root_ok [OF assms])

text \<open>The directory \<open>"/a"\<close> made twice is there twice.\<close>

theorem mkdir_adds_directory_witness:
  "\<exists>sb os sb' os'. entries sb os [4] = [([97], IMDIR)] \<and>
    fs_mkdir (\<lambda>_. []) 0 [47, 97] sb os = Inr (0, sb', os') \<and>
    entries sb' os' [4, 6] = [([97], IMDIR), ([97], IMDIR)]"
proof -
  from demo_directory obtain sb os where d: "volume sb os (5 # demo_free) [4]" "bsz sb = 128"
    "entries sb os [4] = [([97], IMDIR)]" by blast
  have "demo_free = 6 # tl demo_free" by (simp add: demo_free_def upt_conv_Cons)
  with d(1) have "volume sb os (5 # 6 # tl demo_free) [4]" by simp
  from mkdir_adds_directory [OF this demo_paths(1), of "\<lambda>_. []" 0] d(2,3) obtain os' where
    "fs_mkdir (\<lambda>_. []) 0 [47, 97] sb os = Inr (0, took sb (tl demo_free), os')"
    "entries (took sb (tl demo_free)) os' [4, 6] = [([97], IMDIR), ([97], IMDIR)]" by auto
  with d(3) show ?thesis by blast
qed

text \<open>C33: on a full disk the same call returns 0 as well: the root gets one entry more, whose inode
  is said to be block 0, the superblock.\<close>

theorem mkdir_on_full_disk:
  assumes "volume sb os [] ls" and "subfolders_to_vector path = Inr [nm]"
    and "0 \<notin> set nm" "length nm + 65 \<le> bsz sb" and "40 + 8 * length ls \<le> bsz sb"
  shows "\<exists>os'. fs_mkdir mem k path sb os = Inr (0, sb, os') \<and> errno os' = ENOSPC \<and>
    disk (bsz sb) os' 0 = sb_bytes sb \<and>
    root_dir (bsz sb) (disk (bsz sb) os' 1) (disk (bsz sb) os' 2) (ls @ [0]) \<and>
    (\<forall>b < sb_blks sb. 2 < b \<longrightarrow> disk (bsz sb) os' b = disk (bsz sb) os b)"
  by (rule mkdir_full_ok [OF assms])

theorem mkdir_on_full_disk_witness:
  "\<exists>sb os os'. fs_mkdir (\<lambda>_. []) 0 [47, 97] sb os = Inr (0, sb, os') \<and> sb_freeblks sb = 0 \<and>
    root_dir 128 (disk 128 os' 1) (disk 128 os' 2) [0]"
proof -
  from demo_full obtain sb os where d: "volume sb os [] []" "bsz sb = 128" by blast
  have "sb_freeblks sb = 0" using free_listD(5) [OF volumeD(1) [OF d(1)]] by (simp add: unat_eq_0)
  moreover from mkdir_on_full_disk [OF d(1) demo_paths(1), of "\<lambda>_. []" 0] d(2) obtain os' where
    "fs_mkdir (\<lambda>_. []) 0 [47, 97] sb os = Inr (0, sb, os')"
    "root_dir 128 (disk 128 os' 1) (disk 128 os' 2) [0]" by auto
  ultimately show ?thesis by blast
qed

text \<open>\<open>fs_list_dir\<close> on the root returns the names of its entries in order, with a slash after
  those of directories and a space between two, and changes nothing on the disk.\<close>

theorem list_shows_entries:
  assumes "volume sb os xs ls" and "subfolders_to_vector path = Inr []"
    and "length (listing (entries sb os ls)) < MAX_PATH_NAME"
  shows "\<exists>os'. fs_list_dir mem path sb os = Inr (listing (entries sb os ls), os') \<and>
    volume sb os' xs ls \<and> entries sb os' ls = entries sb os ls"
  using list_root_ok [OF assms, of mem] volume_same [OF assms(1)] by blast

theorem list_shows_entries_witness:
  "\<exists>sb os os'. entries sb os [4] = [([97], IMDIR)] \<and>
    fs_list_dir (\<lambda>_. []) [47] sb os = Inr ([97, 47], os')"
proof -
  from demo_directory obtain sb os where d: "volume sb os (5 # demo_free) [4]" "bsz sb = 128"
    "entries sb os [4] = [([97], IMDIR)]" by blast
  have "length (listing (entries sb os [4])) < MAX_PATH_NAME" by (simp add: d(3) shown_def MAX_PATH_NAME_def)
  from list_shows_entries [OF d(1) demo_paths(2) this, of "\<lambda>_. []"] d(3) obtain os' where
    "fs_list_dir (\<lambda>_. []) [47] sb os = Inr ([97, 47], os')" by (auto simp: shown_def)
  with d(3) show ?thesis by blast
qed

text \<open>C14: writing to a new name in the root, of \<open>cnt\<close> bytes with at least a block's worth of
  contents, enough free blocks and at least one to spare, returns 0 and adds a regular file of that
  name.  The number of blocks is \<open>cnt\<close> divided by the room in a block, without the rest; they are
  filled with child inodes, each linked to the next, never with bytes of \<open>buf\<close>, and the size kept for the file is that of one
  block, whatever \<open>cnt\<close> is.\<close>

theorem write_adds_file:
  assumes "volume sb os (x # y # zs @ xs) ls" and "subfolders_to_vector fname = Inr [nm]"
    and "length nm + 65 \<le> bsz sb" "0 \<notin> set nm" "nm \<notin> fst ` set (entries sb os ls)"
    and "40 + 8 * length ls \<le> bsz sb"
    and "cnt < 2 ^ 24" "cnt div (bsz sb - 20) = Suc (length zs)" and "xs \<noteq> []"
    and "length zs + 2 \<le> MAX_FILE_SIZE"
  shows "\<exists>os'. fs_write_file mem fname buf cnt sb os = Inr (0, took sb xs, os') \<and>
    volume (took sb xs) os' xs (ls @ [y]) \<and>
    entries (took sb xs) os' (ls @ [y]) = entries sb os ls @ [(nm, IMREG)] \<and>
    fld 0 (disk (bsz sb) os' x) = sb_blksz sb - 20 \<and>
    (\<forall>z \<in> set zs. fld 0 (disk (bsz sb) os' z) = IMCHILD) \<and>
    map (\<lambda>b. fld 24 (disk (bsz sb) os' b)) (y # zs) = zs @ [0]"
proof -
  have "20 < bsz sb" using mountedD(3) [OF volumeD(2) [OF assms(1)]] by simp
  then have "count_blocks cnt sb = Inr (Suc (length zs))"
    using count_blocks_floor [OF assms(7)] assms(8) by simp
  from write_new_ok [OF assms(1-6) this assms(9,10)] show ?thesis by blast
qed

theorem write_adds_file_witness:
  "\<exists>sb os sb' os'. fs_write_file (\<lambda>_. []) [47, 98] [1, 2, 3] 300 sb os = Inr (0, sb', os') \<and>
    entries sb' os' [4] = [([98], IMREG)] \<and> fld 0 (disk 128 os' 5) = IMCHILD"
proof -
  from demo_volume obtain sb os where d: "volume sb os (3 # 4 # 5 # demo_free) []" "bsz sb = 128" by blast
  have path: "subfolders_to_vector [47, 98] = Inr [[98]]"
    by (simp add: subfolders_to_vector_def MAX_PATH_NAME_def MAX_SUBFOLDERS_def MAX_NAME_def)
  have "volume sb os (3 # 4 # [5] @ demo_free) []" using d(1) by simp
  from write_adds_file [OF this path, of 300 "\<lambda>_. []" "[1, 2, 3]"] d(2) obtain os' where
    "fs_write_file (\<lambda>_. []) [47, 98] [1, 2, 3] 300 sb os = Inr (0, took sb demo_free, os')"
    "entries (took sb demo_free) os' [4] = [([98], IMREG)]" "fld 0 (disk 128 os' 5) = IMCHILD"
    by (auto simp: entries_def MAX_FILE_SIZE_def demo_free_def)
  then show ?thesis by blast
qed

text \<open>C35: a new file with less than a block's worth of contents gets no block at all, and the function
  reads an element of the array \<open>blocks\<close> that was never assigned, for the successor of its inode.\<close>

theorem small_file_reads_garbage:
  assumes "volume sb os (x # y # xs) ls" and "subfolders_to_vector fname = Inr [nm]"
    and "length nm + 65 \<le> bsz sb" "0 \<notin> set nm" "nm \<notin> fst ` set (entries sb os ls)"
    and "40 + 8 * length ls \<le> bsz sb" and "cnt < bsz sb - 20" "cnt < 2 ^ 24"
  shows "fs_write_file mem fname buf cnt sb os = Inl Uninitialised"
proof -
  have "20 < bsz sb" using mountedD(3) [OF volumeD(2) [OF assms(1)]] by simp
  then have "count_blocks cnt sb = Inr 0"
    using count_blocks_floor [OF assms(8)] assms(7) by simp
  from write_small [OF assms(1-6) this] show ?thesis .
qed

theorem small_file_reads_garbage_witness:
  "\<exists>sb os. volume sb os (3 # 4 # 5 # demo_free) [] \<and>
    fs_write_file (\<lambda>_. []) [47, 97] [1, 2, 3] 3 sb os = Inl Uninitialised"
proof -
  from demo_volume obtain sb os where d: "volume sb os (3 # 4 # 5 # demo_free) []" "bsz sb = 128" by blast
  from small_file_reads_garbage [OF d(1) demo_paths(1), of 3 "\<lambda>_. []" "[1, 2, 3]"] d
  show ?thesis by (auto simp: entries_def)
qed

text \<open>\<open>fs_unlink\<close> and \<open>fs_rmdir\<close> take the inode to free from the index \<open>k\<close>, which they never
  assign.  When it happens to be the index of the entry found, \<open>fs_unlink\<close> removes that entry from
  the root, leaves all others, and puts its two blocks on the free list; \<open>fs_rmdir\<close> does the same when
  the entry is empty and otherwise fails with \<open>ENOTEMPTY\<close> and changes nothing.\<close>

theorem remove_entry:
  fixes k :: int
  assumes "volume sb os xs ls" and "subfolders_to_vector path = Inr [nm]"
    and "find_index (\<lambda>l. fst (entry_of (bsz sb) os l) = nm) ls = Some p" and "k = int p"
    and "links_fit (bsz sb) os (ls ! p)"
  defines "m \<equiv> meta_of (bsz sb) os (ls ! p)"
  defines "ys \<equiv> ls ! p # m # xs"
  shows "(\<exists>os'. fs_unlink mem k path sb os = Inr (0, took sb ys, os') \<and>
      volume (took sb ys) os' ys (drop_nth p ls) \<and>
      entries (took sb ys) os' (drop_nth p ls) = drop_nth p (entries sb os ls)) \<and>
    (if fld 0 (disk (bsz sb) os m) = 0
     then \<exists>os'. fs_rmdir mem k path sb os = Inr (0, took sb ys, os') \<and>
       volume (took sb ys) os' ys (drop_nth p ls) \<and>
       entries (took sb ys) os' (drop_nth p ls) = drop_nth p (entries sb os ls)
     else \<exists>os'. fs_rmdir mem k path sb os = Inr (-1, sb, os') \<and> errno os' = ENOTEMPTY \<and>
       volume sb os' xs ls \<and> entries sb os' ls = entries sb os ls)"
  unfolding m_def ys_def assms(4)
proof (rule conjI)
  note unlink = unlink_ok [OF assms(1-3) refl assms(5) refl, of mem]
  let ?l = "ls ! p" and ?m = "meta_of (bsz sb) os (ls ! p)"
  from unlink show "\<exists>os'. fs_unlink mem (int p) path sb os = Inr (0, took sb (?l # ?m # xs), os') \<and>
      volume (took sb (?l # ?m # xs)) os' (?l # ?m # xs) (drop_nth p ls) \<and>
      entries (took sb (?l # ?m # xs)) os' (drop_nth p ls) = drop_nth p (entries sb os ls)" by blast
  show "if fld 0 (disk (bsz sb) os ?m) = 0
     then \<exists>os'. fs_rmdir mem (int p) path sb os = Inr (0, took sb (?l # ?m # xs), os') \<and>
       volume (took sb (?l # ?m # xs)) os' (?l # ?m # xs) (drop_nth p ls) \<and>
       entries (took sb (?l # ?m # xs)) os' (drop_nth p ls) = drop_nth p (entries sb os ls)
     else \<exists>os'. fs_rmdir mem (int p) path sb os = Inr (-1, sb, os') \<and> errno os' = ENOTEMPTY \<and>
       volume sb os' xs ls \<and> entries sb os' ls = entries sb os ls"
  proof (cases "fld 0 (disk (bsz sb) os ?m) = 0")
    case True
    with rmdir_ok [OF assms(1-3) refl refl True, of mem] show ?thesis unfolding if_P [OF True] by blast
  next
    case False
    with rmdir_not_empty [OF assms(1-3) refl assms(5) False, of mem] show ?thesis unfolding if_not_P [OF False] by blast
  qed
qed

theorem remove_entry_witness:
  "\<exists>sb os sb' os'. entries sb os [4] = [([97], IMDIR)] \<and>
    fs_rmdir (\<lambda>_. []) 0 [47, 97] sb os = Inr (0, sb', os') \<and> volume sb' os' (4 # 3 # 5 # demo_free) []"
proof -
  from demo_directory obtain sb os where d: "volume sb os (5 # demo_free) [4]" "bsz sb = 128"
    "entries sb os [4] = [([97], IMDIR)]" "meta_of 128 os 4 = 3" "fld 0 (disk 128 os 3) = 0" by blast
  have "find_index (\<lambda>l. fst (entry_of (bsz sb) os l) = [97]) [4] = Some 0"
    using d(2,3) by (simp add: entries_def)
  from remove_entry [OF d(1) demo_paths(1) this, of 0 "\<lambda>_. []"] d obtain os' where
    "fs_rmdir (\<lambda>_. []) 0 [47, 97] sb os = Inr (0, took sb (4 # 3 # 5 # demo_free), os')"
    "volume (took sb (4 # 3 # 5 # demo_free)) os' (4 # 3 # 5 # demo_free) []"
    by (auto simp: links_fit_def drop_nth_def)
  with d(3) show ?thesis by blast
qed

text \<open>C26: \<open>subfolders_to_vector\<close> gives the non-empty pieces between the slashes of a path, when the
  path, their number and their lengths fit its arrays, and overruns them otherwise.\<close>

theorem path_components:
  "subfolders_to_vector path =
    (let files = filter (\<lambda>t. t \<noteq> []) (pieces 47 path) in
     if length path < MAX_PATH_NAME \<and> length files \<le> MAX_SUBFOLDERS \<and> (\<forall>f \<in> set files. length f < MAX_NAME)
     then Inr files else Inl Out_Of_Bounds)"
  by (rule subfolders_pieces)

theorem path_components_witness:
  "subfolders_to_vector [47, 97, 47, 47, 98, 99] = Inr [[97], [98, 99]]"
  by (simp add: path_components MAX_PATH_NAME_def MAX_SUBFOLDERS_def MAX_NAME_def)

text \<open>The root directory is a catalogue.  Take any image that \<open>fs_format\<close> has formatted and any sequence of
  \<open>fs_mkdir\<close>, \<open>fs_write_file\<close>, \<open>fs_unlink\<close>, \<open>fs_rmdir\<close> and \<open>fs_list_dir\<close> that its callers may make: no
  operation fails to return, the answers are those of a list of names with a number of free blocks, and the
  image holds that list and that number.  The catalogue shows what the code gets wrong: names may be there
  twice, and of the blocks of a file all but two are lost when it is removed.\<close>

theorem root_is_a_catalogue:
  assumes "0 \<le> fd" and "length (img os) < 2 ^ 63" and "unat blocksize \<le> length b"
    and "fs_format True fd mem (Some b) blocksize os = Inr (Some sb, os')"
    and "traced fs_allowed fs_run (sb, os') labs m"
  shows "(\<exists>E f. accepts (fs_spec (unat blocksize)) ([], length (img os) div unat blocksize - 3) labs (E, f) \<and>
      entries (fst m) (snd m) (root_links m) = map (\<lambda>e. (fst e, mode_of (snd e))) E \<and> unat (sb_freeblks (fst m)) = f) \<and>
    (\<forall>ev. fs_allowed ev m \<longrightarrow> (\<exists>l m'. fs_run ev m = Inr (l, m')))"
proof -
  have "MIN_BLOCK_SIZE \<le> blocksize" "32 \<le> length (img os) div unat blocksize"
    using formatted_sizes [OF assms(1-4)] by simp_all
  then have d: "depicts (unat blocksize) (sb, os') ([], length (img os) div unat blocksize - 3)"
    using assms(1-4) formatted_depicts [of blocksize os fd b mem] by (metis Inr_inject Pair_inject option.inject)
  from root.traced_accepted [OF d assms(5)] obtain E f where
    a: "accepts (fs_spec (unat blocksize)) ([], length (img os) div unat blocksize - 3) labs (E, f)"
    "depicts (unat blocksize) m (E, f)" by auto
  with root.never_stuck [OF d assms(5)] depicts_shows [OF a(2)] show ?thesis by blast
qed

theorem root_is_a_catalogue_witness:
  "\<exists>sb os l m'. fs_format True 3 (\<lambda>_. []) (Some (replicate 128 0)) 128 blank = Inr (Some sb, os) \<and>
    fs_run ((\<lambda>_. [], 0), Mkdir [47, 97]) (sb, os) = Inr (l, m')"
proof -
  from blank_format obtain sb os where f: "fs_format True 3 (\<lambda>_. []) (Some (replicate 128 0)) 128 blank = Inr (Some sb, os)"
    and v: "volume sb os (3 # 4 # 5 # demo_free) []" and n: "bsz sb = 128" by blast
  have "unat (sb_freeblks sb) = length (3 # 4 # 5 # demo_free)" using free_listD(5) [OF volumeD(1) [OF v]] .
  then have ok: "fs_allowed ((\<lambda>_. [], 0), Mkdir [47, 97]) (sb, os)"
    using demo_paths(1) by (simp add: new_name_def root_links_volume [OF v] n)
  have len: "length (img blank) < 2 ^ 63" "unat (128 :: 64 word) \<le> length (replicate 128 (0 :: byte))"
    "(0 :: int) \<le> 3" by (simp_all add: blank_def)
  from conjunct2 [OF root_is_a_catalogue [OF len(3,1,2) f traced_nil], THEN spec, THEN mp, OF ok] f
  show ?thesis by blast
qed

text \<open>C2: directories lie within directories.  Take any image that \<open>fs_format\<close> has formatted and a sequence of
  \<open>fs_mkdir\<close>, \<open>fs_write_file\<close>, \<open>fs_unlink\<close>, \<open>fs_rmdir\<close> and \<open>fs_list_dir\<close>, on paths of any depth, in which
  every call meets these conditions (\<open>tree_allowed\<close>) in the state where it is made.  The variable \<open>k\<close>, which
  \<open>fs_mkdir\<close>, \<open>fs_unlink\<close> and \<open>fs_rmdir\<close> read and never assign, happens to hold the index of the last
  directory on the path, and for the functions that remove also that of the entry.  No step of the path goes through a
  file; the name fits its block and the directory has room for a link.  Two blocks are free for \<open>fs_mkdir\<close>,
  \<open>cnt div (blksz - 20) + 2\<close> for a new file and \<open>cnt div (blksz - 20)\<close> for one that exists.  A file is written
  with at least \<open>blksz - 20\<close> bytes, fewer than \<open>2 ^ 24\<close> and than fill the array \<open>blocks\<close>; one that exists has at most
  two blocks.  A listing fits its buffer.  Under these conditions every call returns, the answers are those of a
  table of inodes that starts with the empty root at inode 2, and the blocks of the image hold that table.  What is not
  there is \<open>ENOENT\<close> (or the list
  \<open>"-1"\<close>), a directory with entries and a file are \<open>ENOTEMPTY\<close> for \<open>fs_rmdir\<close>, and an operation changes
  one directory and no other.  The specification shows what the code gets wrong even then: a name may be there twice, a
  file that is written again loses its second block and one that is removed all but two, a removed directory leaves its
  entries behind, and a write to a directory returns 0 and takes blocks that nothing leads to.  Without the conditions
  the code fails: \<open>mkdir_on_full_disk\<close>, \<open>long_file_overruns\<close>, \<open>small_file_reads_garbage\<close>.\<close>

theorem directories_form_a_tree:
  assumes "0 \<le> fd" and "length (img os) < 2 ^ 63" and "unat blocksize \<le> length b"
    and "fs_format True fd mem (Some b) blocksize os = Inr (Some sb, os')"
    and "traced tree_allowed fs_run (sb, os') labs m"
  shows "(\<exists>A f. accepts (tree_spec (unat blocksize)) ([2 \<mapsto> []], length (img os) div unat blocksize - 3) labs (A, f) \<and>
      (\<forall>b \<in> inodes_of A. disk_table m b = A b) \<and> unat (sb_freeblks (fst m)) = f) \<and>
    (\<forall>ev. tree_allowed ev m \<longrightarrow> (\<exists>l m'. fs_run ev m = Inr (l, m')))"
proof -
  have d: "holds_tree (unat blocksize) (sb, os') ([2 \<mapsto> []], length (img os) div unat blocksize - 3)"
    by (rule formatted_holds [OF assms(1-4)])
  from tree.traced_accepted [OF d assms(5)] obtain A f where
    a: "accepts (tree_spec (unat blocksize)) ([2 \<mapsto> []], length (img os) div unat blocksize - 3) labs (A, f)"
    "holds_tree (unat blocksize) m (A, f)" by auto
  with tree.never_stuck [OF d assms(5)] holds_tree_shows [OF a(2)] show ?thesis by blast
qed

text \<open>A directory in a directory: \<open>"/a"\<close>, then \<open>"/a/b"\<close>.\<close>

theorem directories_form_a_tree_witness:
  "\<exists>sb os m l2 m2. fs_format True 3 (\<lambda>_. []) (Some (replicate 128 0)) 128 blank = Inr (Some sb, os) \<and>
    traced tree_allowed fs_run (sb, os) [(Mkdir [47, 97], Returned 0 None)] m \<and>
    fs_run ((\<lambda>_. [], 0), Mkdir [47, 97, 47, 98]) m = Inr (l2, m2)"
proof -
  from blank_format obtain sb os where f: "fs_format True 3 (\<lambda>_. []) (Some (replicate 128 0)) 128 blank = Inr (Some sb, os)"
    and v: "volume sb os (3 # 4 # 5 # demo_free) []" and n: "bsz sb = 128" by blast
  have len: "length (img blank) < 2 ^ 63" "unat (128 :: 64 word) \<le> length (replicate 128 (0 :: byte))"
    "(0 :: int) \<le> 3" by (simp_all add: blank_def)
  note all = directories_form_a_tree [OF len(3,1,2) f]
  have ok: "tree_allowed ((\<lambda>_. [], 0), Mkdir [47, 97]) (sb, os)" by (rule demo_first [OF v n])
  from all [OF traced_nil] ok obtain l m where r: "fs_run ((\<lambda>_. [], 0), Mkdir [47, 97]) (sb, os) = Inr (l, m)" by blast
  have t: "traced tree_allowed fs_run (sb, os) [l] m" using traced_snoc [where ok = tree_allowed and step = fs_run, OF traced_nil ok r] by simp
  from demo_second [OF r v n t] have "l = (Mkdir [47, 97], Returned 0 None)"
    "tree_allowed ((\<lambda>_. [], 0), Mkdir [47, 97, 47, 98]) m" by simp_all
  with all [OF t] f t show ?thesis by blast
qed

text \<open>C3: the image stays consistent under the calls of \<open>directories_form_a_tree\<close>.  After \<open>fs_format\<close> and a sequence of
  \<open>fs_mkdir\<close>, \<open>fs_write_file\<close>, \<open>fs_unlink\<close>, \<open>fs_rmdir\<close> and \<open>fs_list_dir\<close> that each meet \<open>tree_allowed\<close> where
  they are made (the unassigned \<open>k\<close> holds the right index, there are blocks enough, a file gets at least a block of bytes
  and has at most two blocks when it is written again, names and links fit), the superblock on disk is the one in
  memory, the chain of free blocks has the length that it says, every inode of the table has a nodeinfo of its own, none
  of these blocks is free or beyond the volume, modes are those of the table, and no inode is an entry of two directories
  or of one twice.  The size kept for a directory is the number of its entries; for a file it is always
  \<open>blksz - 20\<close>, what the code writes there and not the number of bytes that \<open>fs.h\<close> asks for.  Without the conditions
  the image does not stay consistent: \<open>mkdir_on_full_disk\<close> links block 0.\<close>

theorem image_stays_consistent:
  assumes "0 \<le> fd" and "length (img os) < 2 ^ 63" and "unat blocksize \<le> length b"
    and "fs_format True fd mem (Some b) blocksize os = Inr (Some sb, os')"
    and "traced tree_allowed fs_run (sb, os') labs m"
  shows "\<exists>A xs. accepts (tree_spec (unat blocksize)) ([2 \<mapsto> []], length (img os) div unat blocksize - 3) labs (A, length xs) \<and>
    consistent m A xs"
proof -
  from tree.traced_accepted [OF formatted_holds [OF assms(1-4)] assms(5)] obtain A f where
    a: "accepts (tree_spec (unat blocksize)) ([2 \<mapsto> []], length (img os) div unat blocksize - 3) labs (A, f)"
    "holds_tree (unat blocksize) m (A, f)" by auto
  from holds_tree_consistent [OF a(2)] a(1) show ?thesis by blast
qed

theorem image_stays_consistent_witness:
  "\<exists>sb os m A xs. fs_format True 3 (\<lambda>_. []) (Some (replicate 128 0)) 128 blank = Inr (Some sb, os) \<and>
    traced tree_allowed fs_run (sb, os) [(Mkdir [47, 97], Returned 0 None)] m \<and> consistent m A xs"
proof -
  from demo_mkdir obtain sb os m where
    f: "fs_format True 3 (\<lambda>_. []) (Some (replicate 128 0)) 128 blank = Inr (Some sb, os)"
    and t: "traced tree_allowed fs_run (sb, os) [(Mkdir [47, 97], Returned 0 None)] m" by blast
  have len: "length (img blank) < 2 ^ 63" "unat (128 :: 64 word) \<le> length (replicate 128 (0 :: byte))"
    "(0 :: int) \<le> 3" by (simp_all add: blank_def)
  from image_stays_consistent [OF len(3,1,2) f t] f t show ?thesis by blast
qed

text \<open>C34: a file of three or more blocks cannot be written again.  \<open>fs_write_file\<close> follows its inodes by reading
  the successor of the first one over and over, so that the loop never ends but writes that block into the array
  \<open>blocks\<close> until it is full, and then past its end.\<close>

theorem long_file_overruns:
  assumes "forest sb os xs D" and "subfolders_to_vector path = Inr (p @ [nm])"
    and "\<not> meets_file (table_of (bsz sb) os D) 2 p" and "locate (table_of (bsz sb) os D) 2 p = Some d"
    and "D d = Some ls" and "find_index (\<lambda>l. fst (entry_of (bsz sb) os l) = nm) ls = Some i" and "D (ls ! i) = None"
    and "s = fld 24 (disk (bsz sb) os (ls ! i))" and "s \<noteq> 0" and "s < sb_blks sb" and "fld 24 (disk (bsz sb) os s) \<noteq> 0"
    and "cnt < 2 ^ 24" and "bsz sb - 20 < 2 ^ 24"
  shows "fs_write_file mem path buf cnt sb os = Inl Out_Of_Bounds"
  using rewrite_long [OF assms(1-5) _ assms(7-13)] assms(6) by (simp add: entry_index_def)

text \<open>A file \<open>"/a"\<close> of three blocks is written twice.\<close>

theorem long_file_overruns_witness:
  "\<exists>sb os sb' os'. fs_format True 3 (\<lambda>_. []) (Some (replicate 128 0)) 128 blank = Inr (Some sb, os) \<and>
    fs_write_file (\<lambda>_. []) [47, 97] [] 324 sb os = Inr (0, sb', os') \<and>
    fs_write_file (\<lambda>_. []) [47, 97] [] 324 sb' os' = Inl Out_Of_Bounds"
proof -
  from demo_long_file obtain sb os sb' os' xs where
    1: "fs_format True 3 (\<lambda>_. []) (Some (replicate 128 0)) 128 blank = Inr (Some sb, os)"
    "fs_write_file (\<lambda>_. []) [47, 97] [] 324 sb os = Inr (0, sb', os')" and f: "forest sb' os' xs [2 \<mapsto> [4]]"
    and e: "entry_of 128 os' 4 = ([97], IMREG)" "fld 24 (disk 128 os' 4) = 5" "fld 24 (disk 128 os' 5) = 6" "5 < sb_blks sb'"
    "bsz sb' = 128" by blast
  have t: "table_of (bsz sb') os' [2 \<mapsto> [4]] 2 = Some [entry_at 128 os' 4]" by (simp add: table_of_def e(5))
  then have "\<not> meets_file (table_of (bsz sb') os' [2 \<mapsto> [4]]) 2 []" "locate (table_of (bsz sb') os' [2 \<mapsto> [4]]) 2 [] = Some 2"
    by (simp_all add: meets_file.simps)
  from long_file_overruns [OF f _ this, of "[47, 97]" "[97]" "[4]" 0 5 324 "\<lambda>_. []" "[]"] e demo_paths(1) 1 show ?thesis
    by auto
qed

end
