(* ===== verification/Spec2Isabelle.thy ===== *)
theory Spec2Isabelle
  imports TP1_Properties TP2_Properties TP2_System Log_Properties TP3_Properties
begin

text \<open>
  Three programs of an operating systems course, in C: a library of cooperative threads with
  preemption (\<open>TP 1\<close>), a paged virtual memory made of a server and of client processes
  (\<open>TP 2\<close>), and a file system in the file of an image (\<open>TP 3\<close>).  The theories model the code
  function by function; their properties say what a caller can rely on and, where the code departs
  from its comments or crashes, what it does instead.

  \<^bold>\<open>Conventions.\<close>  \<open>Prelude\<close> has the result of an operation, \<open>fault + 'a\<close>: a fault is a null or
  dangling pointer that is followed, an index out of range, a failed assertion, a call of
  \<open>exit\<close>, a mutex locked twice, a value never written, a loop that does not end.  State is a record
  that is passed and returned.  Answers of the system (\<open>malloc\<close>, \<open>realloc\<close>, \<open>fopen\<close>, the
  network, the time) and the junk found in memory that was not initialised are arguments.

  \<^bold>\<open>TP 1, threads.\<close>  \<open>DList\<close> is \<open>dlist.c\<close>: nodes in a heap of cells, every operation, \<open>free\<close>
  included.  \<open>DList_Correct\<close> relates a well formed list in the heap to a list of data and states
  the operations as a queue (locale and interpretation).  \<open>Sched\<close> is \<open>dccthread.c\<close>: the ready and
  the sleeping list, the thread that runs, the signal mask, the timers; \<open>manager_turn\<close> is one round of
  the loop of \<open>dccthread_init\<close>, with the timers that go off in the window where the manager lets alarms in.  The
  loop, \<open>manager_loop\<close>, has such a list for every turn; it is a \<^theory_text>\<open>partial_function\<close>, so that not returning is a
  value, and the properties say when it returns.  What comes before it is \<open>dccthread_init\<close>, with the windows in which
  the preemption timer is armed and its signal is not blocked yet.  \<open>Sched_Correct\<close> holds the invariant, \<open>Sched_Steps\<close> the step
  relation of client calls, signals and manager turns with its reachable states and the start of the library,
  \<open>Sched_Loop\<close> the loop over all its turns,
  \<open>Sched_Fair\<close> the ready list as a queue over whole runs.  \<open>Sched_Pool\<close> specifies the library as a pool of
  threads that are in the queue, asleep, gone or running and may wait for each other, and makes one function of
  its actions; \<open>Sched_Pool_Correct\<close> is the refinement, by the locale \<open>simulation\<close> of \<open>Simulation\<close>.  \<open>may_act\<close> leaves
  out alarms that come too late, a manager alone with sleepers and waits for \<open>NULL\<close>, which have lemmas of their own.
  \<open>TP1_Properties\<close> holds the results.  Registers, stacks and real time are not modelled: \<open>swapcontext\<close> is the
  change of the thread that runs.

  \<^bold>\<open>TP 2, paging.\<close>  \<open>Machine\<close> is the state: the globals of \<open>pager.c\<close> and \<open>mmu.c\<close> and the mappings of the
  client processes, with pages in arrays that \<open>realloc\<close> may move.  \<open>Pager_Tables\<close> and \<open>Pager\<close>
  are \<open>pager.c\<close>; \<open>Bytes\<close> and \<open>Message\<close> are the messages of \<open>mmuproto.h\<close> as bytes (\<open>Message_Correct\<close>: they are
  read back); \<open>Uvm_Thread\<close> is the thread of \<open>uvm.c\<close> that reads messages in the client; \<open>Mmu\<close> is the services
  of \<open>mmu.c\<close> that the pager calls, which send orders as bytes to that thread and wait for the bytes of its answer;
  \<open>Proto\<close> is the handlers of \<open>mmu.c\<close> and the requests of \<open>uvm.c\<close>.  A request and the
  exchange that serves it are one step, as the mutex of the pager and the blocking calls of the
  client make them.  \<open>Mmu_Correct\<close>, \<open>Pager_Inv\<close>, \<open>Clock\<close>, \<open>Pager_Correct\<close>, \<open>Pager_Life\<close>,
  \<open>Client_Memory\<close>, \<open>Client_Life\<close> hold the invariant of the tables, frames, blocks and mappings and what
  each operation does to it; \<open>Flat_Memory\<close> has the specification, a flat memory for each process, and
  the refinement; \<open>Pager_Faults\<close> the ways in which the server fails.  An access of a
  client is tried at most \<open>access_fuel\<close> times, which is 3: the first fault brings the page in for reading, the
  second makes it writable, the third try succeeds (\<open>load_byte_ok\<close>, \<open>store_byte_ok\<close>).

  \<^bold>\<open>TP 2, the server from its start.\<close>  \<open>Server\<close> is the rest of \<open>mmu.c\<close> and \<open>uvm.c\<close>: \<open>main\<close> and the set-up, the accept
  loop, \<open>SIGINT\<close>, the creation and the exit of a client.
  \<open>Paged_System\<close> composes the handlers into a system: a state is the machine and the live processes, an event
  is a connection, a creation, a request for a page, a load, a store, an exit, or a connection that
  breaks.  \<open>allowed\<close> says what the environment may do: process ids are new, there are at most 255 of
  them, sockets are within the table, \<open>realloc\<close> leaves an array in place, addresses stay below
  \<open>UVM_MAXADDR\<close> and \<open>malloc\<close> gives blocks without a page (\<open>clean_boot\<close>); the properties of
  \<open>TP2_Properties\<close> and the lists of faults show what happens otherwise.  \<open>System_Inv\<close> and \<open>System_Grow\<close> prove
  the invariant event by event, \<open>System_Refine\<close> that every event is a step of a flat memory for
  each process over a shared pool of \<open>NBLOCKS\<close> pages, by the locale \<open>simulation\<close> of \<open>Simulation\<close>.
  \<open>TP2_System\<close> holds the results.  A message that crosses the socket is handled at once; the orders of the
  MMU are bytes on the way, requests and replies are handed over as messages, whose bytes are read back as sent
  by \<open>decode_encode\<close>.

  \<^bold>\<open>TP 2, logs.\<close>  \<open>Cyc\<close> is \<open>cyc.c\<close> and \<open>log.c\<close> over a map from file names to contents.
  \<open>Cyc_Correct\<close> proves one call, \<open>Log_Correct\<close> sequences of calls, by a locale of sinks for lines that is
  interpreted on the rotating files, on a locked file and on the log.  The paging theories leave the
  calls of the log out: they do not change what is modelled there.

  \<^bold>\<open>TP 3, file system.\<close>  \<open>Fs_Image\<close> is the layout of \<open>fs.h\<close> over the bytes of the image, \<open>Fs_Blocks\<close>,
  \<open>Fs_Dirs\<close> and \<open>Fs_Files\<close> are \<open>fs.c\<close>.  \<open>Fs_Disk\<close> has the rules to run the operations on
  a symbolic disk; \<open>Fs_Alloc\<close> the chain of free blocks as a stack; \<open>Fs_Root\<close> the root directory as a
  list of entries; the other \<open>Fs_\<close> theories prove one operation
  each.  \<open>Fs_Catalog\<close> runs the operations on the root one after the other and specifies them as a
  catalogue, a list of names and a number of free blocks; \<open>Fs_Catalog_Correct\<close> is the refinement, by the locale of
  \<open>Simulation\<close> again.  There \<open>fs_allowed\<close> leaves out paths of more than one component, files that exist already and
  files of less than a block, and takes \<open>k\<close>, which the code never assigns, to be lucky.
  \<open>Fs_Tree\<close> specifies directories within directories as a table from inodes to entries and says which
  blocks hold one; \<open>Fs_Tree_Walk\<close> proves the walks along a path, \<open>Fs_Tree_Change\<close>, \<open>Fs_Tree_Grow\<close> and
  \<open>Fs_Tree_Drop\<close> what an entry that comes or goes does to the table, \<open>Fs_Tree_Make\<close>, \<open>Fs_Tree_Write\<close>,
  \<open>Fs_Tree_Remove\<close>, \<open>Fs_Tree_Rewrite\<close> and \<open>Fs_Tree_Again\<close> the functions on paths of any depth, for new files and
  for those that exist, \<open>Fs_Tree_Correct\<close> the refinement and \<open>Fs_Tree_Check\<close> that the image stays consistent;
  \<open>tree_allowed\<close> takes \<open>k\<close> to be lucky again and leaves out full disks (\<open>mkdir_on_full_disk\<close>), paths through a
  file, which the code reads as a directory, names and listings that do not fit, and the writes that
  \<open>long_file_overruns\<close> and \<open>small_file_reads_garbage\<close> show to fail.
  Numbers of blocks are computed in \<open>double\<close>, which is exact below \<open>2 ^ 53\<close>.

  \<^bold>\<open>Not modelled.\<close>  Test programs, scripts and make files;
  sockets, threads and files as objects of the system, whose calls are answers that may fail; the
  interleaving of a handler with handlers of other clients, which the mutex of the pager keeps apart, and of
  \<open>SIGINT\<close> with a handler that runs; signals other than those of the library's own timers;
  the code under \<open>MMULOG\<close>, \<open>UVMLOG\<close> and \<open>MMUFREE\<close>, which are off; \<open>fs_read_file\<close>, which \<open>fs.h\<close> declares and nothing
  implements.
\<close>

end
